(* ===== verification/Ksnf_Prelude.thy ===== *)
theory Ksnf_Prelude
  imports Main "HOL-Library.Word" "HOL-Library.Multiset"
begin

text \<open>
  Shared vocabulary of the development: fallible results as sums, Rust's slice and
  collection idioms (collecting results, adjacent windows, prior-element scans, ordered
  maps), big-endian bytes, and the collections of facts the component theories feed.
\<close>

named_theorems result_simps \<open>inversions of the result combinators\<close>
named_theorems record_eqs \<open>equality with a record built from its fields\<close>
named_theorems codec_simps \<open>what a decoder returns on the bytes its encoder wrote\<close>

section \<open>Machine integers\<close>

type_synonym u8 = "8 word"
type_synonym u16 = "16 word"
type_synonym u32 = "32 word"
type_synonym u64 = "64 word"
type_synonym bytes = "u8 list"

text \<open>Rust's \<open>checked_add(1)\<close> on an unsigned integer: \<open>None\<close> at the maximum.\<close>

definition checked_succ :: "'a::len word \<Rightarrow> 'a word option" where
  "checked_succ w = (if w = - 1 then None else Some (w + 1))"

lemma checked_succ_unat:
  "checked_succ w = Some v \<Longrightarrow> unat v = Suc (unat w)"
  by (auto simp: checked_succ_def unatSuc add_eq_0_iff add.commute split: if_splits)

lemma checked_succ_less: "checked_succ w = Some v \<Longrightarrow> w < v"
  by (simp add: word_less_nat_alt checked_succ_unat)

lemma checked_succ_inj:
  "checked_succ w = Some v \<Longrightarrow> checked_succ w' = Some v \<Longrightarrow> w = w'"
  by (auto simp: checked_succ_def split: if_splits)

section \<open>Results\<close>

text \<open>
  \<open>Result<T, E>\<close> is \<open>'e + 'a\<close>: \<open>Inl\<close> the error, \<open>Inr\<close> the value. \<open>and_then\<close> is
  the \<open>?\<close> operator and \<open>Result::and_then\<close>.
\<close>

definition and_then :: "'e + 'a \<Rightarrow> ('a \<Rightarrow> 'e + 'b) \<Rightarrow> 'e + 'b" where
  "and_then r k = (case r of Inl e \<Rightarrow> Inl e | Inr x \<Rightarrow> k x)"

definition map_err :: "('e \<Rightarrow> 'f) \<Rightarrow> 'e + 'a \<Rightarrow> 'f + 'a" where
  "map_err f r = (case r of Inl e \<Rightarrow> Inl (f e) | Inr x \<Rightarrow> Inr x)"

definition ok_or :: "'e \<Rightarrow> 'a option \<Rightarrow> 'e + 'a" where
  "ok_or e m = (case m of None \<Rightarrow> Inl e | Some x \<Rightarrow> Inr x)"

definition ensure :: "'e \<Rightarrow> bool \<Rightarrow> 'e + unit" where
  "ensure e b = (if b then Inr () else Inl e)"

lemma and_then_simps [simp]:
  "and_then (Inl e) k = Inl e"
  "and_then (Inr x) k = k x"
  by (simp_all add: and_then_def)

lemma map_err_simps [simp]:
  "map_err f (Inl e) = Inl (f e)"
  "map_err f (Inr x) = Inr x"
  by (simp_all add: map_err_def)

lemma ok_or_simps [simp]:
  "ok_or e None = Inl e"
  "ok_or e (Some x) = Inr x"
  by (simp_all add: ok_or_def)

lemma ensure_simps [simp]:
  "ensure e True = Inr ()"
  "ensure e False = Inl e"
  by (simp_all add: ensure_def)

lemma and_then_Inr_iff [result_simps]:
  "and_then r k = Inr y \<longleftrightarrow> (\<exists>x. r = Inr x \<and> k x = Inr y)"
  by (cases r) auto

lemma and_then_Inl_iff [result_simps]:
  "and_then r k = Inl e \<longleftrightarrow> r = Inl e \<or> (\<exists>x. r = Inr x \<and> k x = Inl e)"
  by (cases r) auto

lemma map_err_Inr_iff [result_simps]: "map_err f r = Inr x \<longleftrightarrow> r = Inr x"
  by (cases r) auto

lemma ok_or_Inr_iff [result_simps]: "ok_or e m = Inr x \<longleftrightarrow> m = Some x"
  by (cases m) auto

lemma ok_or_Inl_iff [result_simps]: "ok_or e m = Inl e' \<longleftrightarrow> m = None \<and> e' = e"
  by (cases m) auto

lemma ensure_Inr_iff [result_simps]: "ensure e b = Inr u \<longleftrightarrow> b"
  by (cases b) auto

lemma ensure_Inl_iff [result_simps]: "ensure e b = Inl e' \<longleftrightarrow> \<not> b \<and> e' = e"
  by (cases b) auto

lemma if_Inl_eq_Inr [result_simps]: "(if b then Inl e else r) = Inr x \<longleftrightarrow> \<not> b \<and> r = Inr x"
  by simp

text \<open>\<open>iter().map(f).collect::<Result<Vec<_>>>()\<close>: the first error wins.\<close>

fun collect_results :: "('a \<Rightarrow> 'e + 'b) \<Rightarrow> 'a list \<Rightarrow> 'e + 'b list" where
  "collect_results f [] = Inr []"
| "collect_results f (x # xs) =
     and_then (f x) (\<lambda>y. and_then (collect_results f xs) (\<lambda>ys. Inr (y # ys)))"

lemma collect_results_Inr_iff:
  "collect_results f xs = Inr ys \<longleftrightarrow> list_all2 (\<lambda>x y. f x = Inr y) xs ys"
  by (induction xs arbitrary: ys) (auto simp: result_simps list_all2_Cons1)

lemma collect_results_length: "collect_results f xs = Inr ys \<Longrightarrow> length ys = length xs"
  by (simp add: collect_results_Inr_iff list_all2_lengthD)

lemma collect_results_map:
  "(\<And>x. x \<in> set xs \<Longrightarrow> f x = Inr (g x)) \<Longrightarrow> collect_results f xs = Inr (map g xs)"
  by (induction xs) auto

section \<open>Slices\<close>

text \<open>\<open>windows(2).any(|pair| p(pair[0], pair[1]))\<close>\<close>

fun any_adjacent :: "('a \<Rightarrow> 'a \<Rightarrow> bool) \<Rightarrow> 'a list \<Rightarrow> bool" where
  "any_adjacent p (x # y # xs) = (p x y \<or> any_adjacent p (y # xs))"
| "any_adjacent p _ = False"

lemma any_adjacent_eq_sorted:
  assumes "sorted (map f xs)"
  shows "any_adjacent (\<lambda>x y. f x = f y) xs \<longleftrightarrow> \<not> distinct (map f xs)"
  using assms
proof (induction xs rule: induct_list012)
  case (3 x y zs)
  then show ?case
    by (auto simp: order.antisym)
qed auto

lemma any_adjacent_ge:
  "\<not> any_adjacent (\<lambda>x y. f x \<ge> f y) xs \<longleftrightarrow> sorted_wrt (<) (map f (xs :: 'a list) :: 'b::linorder list)"
proof (induction xs rule: induct_list012)
  case (3 x y zs)
  then show ?case by (fastforce simp: not_le)
qed auto

text \<open>The loop \<open>for pair in xs.windows(2)\<close> that rejects an unsorted or repeated key.\<close>

fun ensure_sorted_by :: "('a \<Rightarrow> 'k::linorder) \<Rightarrow> 'e \<Rightarrow> 'e \<Rightarrow> 'a list \<Rightarrow> 'e + unit" where
  "ensure_sorted_by f duplicate unsorted (x # y # xs) =
     (if f y \<le> f x then Inl (if f x = f y then duplicate else unsorted)
      else ensure_sorted_by f duplicate unsorted (y # xs))"
| "ensure_sorted_by f duplicate unsorted _ = Inr ()"

lemma ensure_sorted_by_Inr [result_simps]:
  "ensure_sorted_by f e e' xs = Inr u \<longleftrightarrow> sorted_wrt (<) (map f xs)"
proof (induction xs rule: induct_list012)
  case (3 x y zs)
  from 3(2) show ?case
    by (cases "f x < f y") (auto simp: not_less intro: order.strict_trans)
qed auto

lemma strict_sorted_key:
  fixes f :: "'a \<Rightarrow> 'b::linorder"
  shows "sorted_wrt (<) (map f xs) \<longleftrightarrow> sorted (map f xs) \<and> distinct (map f xs)"
  by (simp add: strict_sorted_iff)

text \<open>
  The scan \<open>for (i, x) in xs.iter().enumerate()\<close> whose body looks at the earlier elements
  \<open>xs[..i]\<close> and may return an error.
\<close>

fun scan_prior :: "('a list \<Rightarrow> 'a \<Rightarrow> 'e + unit) \<Rightarrow> 'a list \<Rightarrow> 'a list \<Rightarrow> 'e + unit" where
  "scan_prior f pre [] = Inr ()"
| "scan_prior f pre (x # xs) = and_then (f pre x) (\<lambda>_. scan_prior f (pre @ [x]) xs)"

lemma scan_prior_Inr_iff:
  "scan_prior f pre xs = Inr u \<longleftrightarrow>
     (\<forall>i < length xs. f (pre @ take i xs) (xs ! i) = Inr ())"
proof (induction xs arbitrary: pre)
  case (Cons x xs)
  have "(\<forall>i < length (x # xs). f (pre @ take i (x # xs)) ((x # xs) ! i) = Inr ()) \<longleftrightarrow>
      f pre x = Inr () \<and> (\<forall>i < length xs. f ((pre @ [x]) @ take i xs) (xs ! i) = Inr ())"
    by (simp add: All_less_Suc2)
  with Cons.IH [of "pre @ [x]"] show ?case
    by (auto simp: result_simps)
qed simp

lemma distinct_prior:
  "(\<forall>i < length xs. f (xs ! i) \<notin> f ` set (take i xs)) \<longleftrightarrow> distinct (map f xs)"
proof (induction xs rule: rev_induct)
  case (snoc x xs)
  have "(\<forall>i < length (xs @ [x]). f ((xs @ [x]) ! i) \<notin> f ` set (take i (xs @ [x]))) \<longleftrightarrow>
      (\<forall>i < length xs. f (xs ! i) \<notin> f ` set (take i xs)) \<and> f x \<notin> f ` set xs"
    by (auto simp: less_Suc_eq nth_append)
  with snoc.IH show ?case by auto
qed simp

text \<open>
  \<open>binary_search_by_key\<close> on a slice that is sorted by a key without duplicates, the only
  way the crate calls it: the element with that key, if there is one.
\<close>

definition search_key :: "('a \<Rightarrow> 'k) \<Rightarrow> 'k \<Rightarrow> 'a list \<Rightarrow> 'a option" where
  "search_key f k xs = find (\<lambda>x. f x = k) xs"

lemma search_key_simps [simp]:
  "search_key f k [] = None"
  "search_key f k (x # xs) = (if f x = k then Some x else search_key f k xs)"
  by (simp_all add: search_key_def)

lemma search_key_SomeD: "search_key f k xs = Some x \<Longrightarrow> x \<in> set xs \<and> f x = k"
  by (induction xs) (auto split: if_splits)

lemma search_key_None_iff: "search_key f k xs = None \<longleftrightarrow> k \<notin> f ` set xs"
  by (induction xs) auto

lemma search_key_distinct:
  "distinct (map f xs) \<Longrightarrow> x \<in> set xs \<Longrightarrow> search_key f (f x) xs = Some x"
  by (induction xs) (auto simp: image_iff)

text \<open>The same search where the code keeps the index.\<close>

definition search_index :: "('a \<Rightarrow> 'k) \<Rightarrow> 'k \<Rightarrow> 'a list \<Rightarrow> nat option" where
  "search_index f k xs = map_option fst (find (\<lambda>(i, x). f x = k) (enumerate 0 xs))"

lemma search_index_SomeD:
  assumes "search_index f k xs = Some i"
  shows "i < length xs \<and> f (xs ! i) = k"
proof -
  from assms obtain x where "find (\<lambda>(i, x). f x = k) (enumerate 0 xs) = Some (i, x)"
    by (auto simp: search_index_def)
  then have "(i, x) \<in> set (enumerate 0 xs) \<and> f x = k"
    by (auto simp: find_Some_iff set_conv_nth)
  then show ?thesis by (auto simp: in_set_enumerate_eq)
qed

lemma search_index_None_iff: "search_index f k xs = None \<longleftrightarrow> k \<notin> f ` set xs"
proof -
  have "search_index f k xs = None \<longleftrightarrow> (\<forall>p \<in> set (enumerate 0 xs). f (snd p) \<noteq> k)"
    by (simp add: search_index_def find_None_iff case_prod_beta Ball_def)
  also have "\<dots> \<longleftrightarrow> k \<notin> f ` snd ` set (enumerate 0 xs)" by auto
  also have "snd ` set (enumerate 0 xs) = set xs"
    by (metis list.set_map map_snd_enumerate)
  finally show ?thesis .
qed

lemma search_index_nth:
  assumes "distinct (map f xs)" "i < length xs"
  shows "search_index f (f (xs ! i)) xs = Some i"
proof -
  obtain j where j: "search_index f (f (xs ! i)) xs = Some j"
    using assms(2) search_index_None_iff [of f "f (xs ! i)" xs] by fastforce
  with search_index_SomeD [OF this] assms show ?thesis
    by (metis length_map nth_eq_iff_index_eq nth_map)
qed

text \<open>\<open>sort_unstable_by_key\<close>: the keys it sorts by are checked for duplicates right after.\<close>

lemma sort_key_distinct_map:
  "distinct (map f (sort_key f xs)) \<longleftrightarrow> distinct (map f xs)"
proof -
  have "mset (map f (sort_key f xs)) = mset (map f xs)" by simp
  then show ?thesis by (rule mset_eq_imp_distinct_iff)
qed

section \<open>Ordered maps\<close>

text \<open>
  \<open>BTreeMap<K, V>\<close> where the code iterates over it: the entries in key order. Maps that are
  only looked up are HOL maps.
\<close>

fun bt_insert :: "'k::linorder \<Rightarrow> 'v \<Rightarrow> ('k \<times> 'v) list \<Rightarrow> ('k \<times> 'v) list" where
  "bt_insert k v [] = [(k, v)]"
| "bt_insert k v ((k', v') # m) =
     (if k < k' then (k, v) # (k', v') # m
      else if k = k' then (k, v) # m
      else (k', v') # bt_insert k v m)"

abbreviation bt_sorted :: "('k::linorder \<times> 'v) list \<Rightarrow> bool" where
  "bt_sorted m \<equiv> sorted_wrt (<) (map fst m)"

lemma map_of_bt_insert [simp]: "map_of (bt_insert k v m) = (map_of m)(k \<mapsto> v)"
  by (induction k v m rule: bt_insert.induct) (auto simp: fun_eq_iff)

lemma set_fst_bt_insert [simp]: "fst ` set (bt_insert k v m) = insert k (fst ` set m)"
  by (induction k v m rule: bt_insert.induct) auto

lemma bt_insert_sorted [simp]: "bt_sorted m \<Longrightarrow> bt_sorted (bt_insert k v m)"
proof (induction k v m rule: bt_insert.induct)
  case (2 k v k' v' m)
  then show ?case
    by (fastforce simp: image_image [symmetric] dest: order.strict_trans)
qed simp

lemma mset_bt_insert:
  "k \<notin> fst ` set m \<Longrightarrow> mset (bt_insert k v m) = add_mset (k, v) (mset m)"
  by (induction k v m rule: bt_insert.induct) auto

lemma set_bt_insert:
  "k \<notin> fst ` set m \<Longrightarrow> set (bt_insert k v m) = insert (k, v) (set m)"
  using mset_bt_insert [of k m v] by (metis set_mset_add_mset_insert set_mset_mset)

lemma length_bt_insert:
  "k \<notin> fst ` set m \<Longrightarrow> length (bt_insert k v m) = Suc (length m)"
  using mset_bt_insert [of k m v] by (metis size_add_mset size_mset)

lemma map_of_eq_search: "map_of m k = map_option snd (search_key fst k m)"
  by (induction m) auto

lemma bt_keys_eq:
  assumes "bt_sorted m" "bt_sorted m'" "fst ` set m = fst ` set m'"
  shows "map fst m = map fst m'"
  using assms by (intro strict_sorted_equal) (simp_all add: image_image)

section \<open>Big-endian bytes\<close>

fun be_bytes :: "nat \<Rightarrow> nat \<Rightarrow> bytes" where
  "be_bytes 0 n = []"
| "be_bytes (Suc k) n = be_bytes k (n div 256) @ [word_of_nat (n mod 256)]"

definition be_val :: "bytes \<Rightarrow> nat" where
  "be_val bs = foldl (\<lambda>a b. a * 256 + unat b) 0 bs"

lemma length_be_bytes [simp]: "length (be_bytes k n) = k"
  by (induction k arbitrary: n) auto

lemma be_val_snoc [simp]: "be_val (bs @ [b]) = be_val bs * 256 + unat b"
  by (simp add: be_val_def)

lemma be_val_Nil [simp]: "be_val [] = 0"
  by (simp add: be_val_def)

lemma be_val_less: "be_val bs < 256 ^ length bs"
proof (induction bs rule: rev_induct)
  case (snoc b bs)
  have "unat b < 256" using unsigned_less [of b] by simp
  moreover have "be_val bs * 256 + 256 \<le> 256 ^ length bs * 256" using snoc by simp
  ultimately show ?case by simp
qed simp

lemma be_val_be_bytes: "n < 256 ^ k \<Longrightarrow> be_val (be_bytes k n) = n"
proof (induction k arbitrary: n)
  case (Suc k)
  then have "n div 256 < 256 ^ k" by (simp add: less_mult_imp_div_less mult.commute)
  with Suc.IH have "be_val (be_bytes k (n div 256)) = n div 256" by simp
  moreover have "unat (word_of_nat (n mod 256) :: u8) = n mod 256"
    by (simp add: unat_of_nat)
  ultimately show ?case by simp
qed simp

lemma be_bytes_be_val: "be_bytes (length bs) (be_val bs) = bs"
proof (induction bs rule: rev_induct)
  case (snoc b bs)
  have b: "unat b < 256" using unsigned_less [of b] by simp
  then have "(be_val bs * 256 + unat b) div 256 = be_val bs"
    "(be_val bs * 256 + unat b) mod 256 = unat b" by simp_all
  with snoc show ?case by simp
qed simp

lemma be_bytes_inj:
  "m < 256 ^ k \<Longrightarrow> n < 256 ^ k \<Longrightarrow> be_bytes k m = be_bytes k n \<Longrightarrow> m = n"
  by (metis be_val_be_bytes)

end
