(* ===== verification/Ksnf_Types.thy ===== *)
theory Ksnf_Types
  imports Ksnf_Prelude
begin

text \<open>
  Crate errors (\<open>src/error.rs\<close>) and protocol identifiers (\<open>src/types.rs\<close>). The macro
  \<open>id_type!\<close> declares one 32-byte newtype per kind of identifier; here it is one type with
  a phantom tag, so that identifiers of different kinds stay different types. The derived
  byte-array order is the order of the big-endian number.
\<close>

section \<open>Errors\<close>

datatype ksnf_error =
  UnsupportedVersion | ProtocolMismatch | InvalidPoint | IdentityPoint | InvalidScalar
| InvalidTweak | InvalidElementTag | InvalidIdentity
| UnexpectedEnd nat nat | TrailingBytes nat | LengthOverflow
| EmptyInput | LengthMismatch | ZeroNode | DuplicateNode | DuplicateParticipant
| DuplicateSlot | ParticipantNotFound | ParticipantMismatch | InvalidTranscript
| CommitmentMismatch | CoefficientMismatch | SupportMismatch | NonceMismatch | ShareMismatch
| OutputKeyMismatch | InvalidSighash | Busy | AttemptClosed | AttemptMismatch
| AttemptExhausted | WrongStage | ReplayMismatch | EpochMismatch | Expired
| ReceiverMismatch | CommandMismatch | StalePredecessor | PhaseClosed | AlreadyTerminal
| ZeroNonce | IdentityNonce | InvalidPartial | InvalidSignature | HashToField

type_synonym 'a result = "ksnf_error + 'a"

fun error_code :: "ksnf_error \<Rightarrow> string" where
  "error_code UnsupportedVersion = ''unsupported_version''"
| "error_code ProtocolMismatch = ''protocol_mismatch''"
| "error_code InvalidPoint = ''invalid_point''"
| "error_code IdentityPoint = ''identity_point''"
| "error_code InvalidScalar = ''invalid_scalar''"
| "error_code InvalidTweak = ''invalid_tweak''"
| "error_code InvalidElementTag = ''invalid_element_tag''"
| "error_code InvalidIdentity = ''invalid_identity''"
| "error_code (UnexpectedEnd _ _) = ''unexpected_end''"
| "error_code (TrailingBytes _) = ''trailing_bytes''"
| "error_code LengthOverflow = ''length_overflow''"
| "error_code EmptyInput = ''empty_input''"
| "error_code LengthMismatch = ''length_mismatch''"
| "error_code ZeroNode = ''zero_node''"
| "error_code DuplicateNode = ''duplicate_node''"
| "error_code DuplicateParticipant = ''duplicate_participant''"
| "error_code DuplicateSlot = ''duplicate_slot''"
| "error_code ParticipantNotFound = ''participant_not_found''"
| "error_code ParticipantMismatch = ''participant_mismatch''"
| "error_code InvalidTranscript = ''invalid_transcript''"
| "error_code CommitmentMismatch = ''commitment_mismatch''"
| "error_code CoefficientMismatch = ''coefficient_mismatch''"
| "error_code SupportMismatch = ''support_mismatch''"
| "error_code NonceMismatch = ''nonce_mismatch''"
| "error_code ShareMismatch = ''share_mismatch''"
| "error_code OutputKeyMismatch = ''output_key_mismatch''"
| "error_code InvalidSighash = ''invalid_sighash''"
| "error_code Busy = ''busy''"
| "error_code AttemptClosed = ''attempt_closed''"
| "error_code AttemptMismatch = ''attempt_mismatch''"
| "error_code AttemptExhausted = ''attempt_exhausted''"
| "error_code WrongStage = ''wrong_stage''"
| "error_code ReplayMismatch = ''replay_mismatch''"
| "error_code EpochMismatch = ''epoch_mismatch''"
| "error_code Expired = ''expired''"
| "error_code ReceiverMismatch = ''receiver_mismatch''"
| "error_code CommandMismatch = ''command_mismatch''"
| "error_code StalePredecessor = ''stale_predecessor''"
| "error_code PhaseClosed = ''phase_closed''"
| "error_code AlreadyTerminal = ''already_terminal''"
| "error_code ZeroNonce = ''zero_nonce''"
| "error_code IdentityNonce = ''identity_nonce''"
| "error_code InvalidPartial = ''invalid_partial''"
| "error_code InvalidSignature = ''invalid_signature''"
| "error_code HashToField = ''hash_to_field''"

section \<open>Identifiers\<close>

datatype 'k ident = Ident (ident_word: "256 word")

instantiation ident :: (type) linorder
begin

definition less_eq_ident :: "'a ident \<Rightarrow> 'a ident \<Rightarrow> bool" where
  "less_eq_ident a b \<longleftrightarrow> ident_word a \<le> ident_word b"

definition less_ident :: "'a ident \<Rightarrow> 'a ident \<Rightarrow> bool" where
  "less_ident a b \<longleftrightarrow> ident_word a < ident_word b"

instance
  by standard (auto simp: less_eq_ident_def less_ident_def ident.expand)

end

text \<open>\<open>as_bytes\<close> and \<open>new\<close>: the array and the number it spells.\<close>

definition ident_bytes :: "'k ident \<Rightarrow> bytes" where
  "ident_bytes i = be_bytes 32 (unat (ident_word i))"

definition ident_of_bytes :: "bytes \<Rightarrow> 'k ident" where
  "ident_of_bytes bs = Ident (word_of_nat (be_val bs))"

lemma length_ident_bytes [simp]: "length (ident_bytes i) = 32"
  by (simp add: ident_bytes_def)

lemma ident_of_bytes_bytes [simp]: "ident_of_bytes (ident_bytes i) = i"
proof -
  have "unat (ident_word i) < 256 ^ 32"
    using unsigned_less [of "ident_word i"] by simp
  then show ?thesis
    by (simp add: ident_of_bytes_def ident_bytes_def be_val_be_bytes)
qed

lemma ident_bytes_of_bytes: "length bs = 32 \<Longrightarrow> ident_bytes (ident_of_bytes bs) = bs"
proof -
  assume len: "length bs = 32"
  then have "be_val bs < 2 ^ 256" using be_val_less [of bs] by simp
  then have "unat (word_of_nat (be_val bs) :: 256 word) = be_val bs"
    by (simp add: unat_of_nat)
  with len show ?thesis
    using be_bytes_be_val [of bs] by (simp add: ident_of_bytes_def ident_bytes_def)
qed

lemma ident_bytes_inj [simp]: "ident_bytes i = ident_bytes j \<longleftrightarrow> i = j"
  by (metis ident_of_bytes_bytes)

datatype vault_tag = VaultTag
datatype person_tag = PersonTag
datatype device_tag = DeviceTag
datatype session_tag = SessionTag
datatype command_tag = CommandTag
datatype handle_tag = HandleTag
datatype scope_tag = ScopeTag
datatype block_tag = BlockTag
datatype material_tag = MaterialTag

type_synonym vault_id = "vault_tag ident"
type_synonym person_id = "person_tag ident"
type_synonym device_id = "device_tag ident"
type_synonym session_id = "session_tag ident"
type_synonym command_id = "command_tag ident"
type_synonym activation_handle = "handle_tag ident"
type_synonym scope_id = "scope_tag ident"
type_synonym block_id = "block_tag ident"
type_synonym material_id = "material_tag ident"

record leaf_attempt =
  la_device :: device_id
  la_sequence :: u64

lemma leaf_attempt_eq [record_eqs]:
  "a = \<lparr>la_device = d, la_sequence = s\<rparr> \<longleftrightarrow> la_device a = d \<and> la_sequence a = s"
  by (cases a) simp

type_synonym outer_epoch = u64
type_synonym inner_epoch = u64
type_synonym slot = u16

end
