(* ===== verification/Ksnf_Log.thy ===== *)
theory Ksnf_Log
  imports Ksnf_Types
begin

text \<open>
  Append-only redistribution transcripts with activation compare-and-set
  (\<open>src/log_act.rs\<close>): the retained transcript, the in-memory \<open>MemoryLog\<close> and each of its
  operations. An operation takes the log and returns its result and the log it leaves.
\<close>

section \<open>State\<close>

datatype log_phase = CommitPhase | OpenPhase | ReceiptPhase

fun phase_rank :: "log_phase \<Rightarrow> nat" where
  "phase_rank CommitPhase = 0"
| "phase_rank OpenPhase = 1"
| "phase_rank ReceiptPhase = 2"

instantiation log_phase :: linorder
begin

definition less_eq_log_phase :: "log_phase \<Rightarrow> log_phase \<Rightarrow> bool" where
  "less_eq_log_phase a b \<longleftrightarrow> phase_rank a \<le> phase_rank b"

definition less_log_phase :: "log_phase \<Rightarrow> log_phase \<Rightarrow> bool" where
  "less_log_phase a b \<longleftrightarrow> phase_rank a < phase_rank b"

instance
proof
  fix a b :: log_phase
  show "a \<le> b \<Longrightarrow> b \<le> a \<Longrightarrow> a = b"
    by (cases a; cases b) (simp_all add: less_eq_log_phase_def)
qed (auto simp: less_eq_log_phase_def less_log_phase_def)

end

datatype terminal = Aborted | Activated activation_handle

record log_transcript =
  lt_scope :: scope_id
  lt_predecessor :: activation_handle
  lt_parameters :: bytes
  lt_posts :: "log_phase \<times> bytes \<Rightarrow> bytes option"
  lt_next_phase :: "log_phase option"
  lt_terminal :: "terminal option"

record memory_log =
  ml_current :: "scope_id \<Rightarrow> activation_handle option"
  ml_transcripts :: "command_id \<Rightarrow> log_transcript option"
  ml_handles :: "activation_handle set"
  ml_activations :: "activation_handle \<Rightarrow> command_id list option"
  ml_next_handle :: u64

definition empty_log :: memory_log where
  "empty_log = \<lparr>ml_current = Map.empty, ml_transcripts = Map.empty, ml_handles = {},
     ml_activations = Map.empty, ml_next_handle = 0\<rparr>"

section \<open>Operations\<close>

definition install_genesis ::
  "scope_id \<Rightarrow> activation_handle \<Rightarrow> memory_log \<Rightarrow> unit result \<times> memory_log" where
  "install_genesis scope handle log =
     (if scope \<in> dom (ml_current log) then (Inl CommandMismatch, log)
      else (Inr (), log\<lparr>ml_current := (ml_current log)(scope \<mapsto> handle),
                        ml_handles := insert handle (ml_handles log)\<rparr>))"

definition put_transcript :: "command_id \<Rightarrow> log_transcript \<Rightarrow> memory_log \<Rightarrow> memory_log" where
  "put_transcript command t log =
     log\<lparr>ml_transcripts := (ml_transcripts log)(command \<mapsto> t)\<rparr>"

text \<open>
  The allocator of \<open>fresh_handle\<close>: the tag, zero padding and the counter. Its loop has no
  bound of its own, so it is a partial function: \<open>None\<close> is a loop that never returns.
\<close>

definition counter_handle :: "u64 \<Rightarrow> activation_handle" where
  "counter_handle n = ident_of_bytes
     ([0x4b, 0x53, 0x4e, 0x46, 0x4c, 0x4f, 0x47, 0x31] @ replicate 16 0 @ be_bytes 8 (unat n))"

partial_function (option) fresh_handle ::
  "activation_handle set \<Rightarrow> u64 \<Rightarrow> (activation_handle \<times> u64) option" where
  "fresh_handle handles next =
     (let next' = next + 1; handle = counter_handle next' in
      if handle \<in> handles then fresh_handle handles next' else Some (handle, next'))"

definition log_begin ::
  "scope_id \<Rightarrow> command_id \<Rightarrow> activation_handle \<Rightarrow> bytes \<Rightarrow> memory_log
     \<Rightarrow> unit result \<times> memory_log" where
  "log_begin scope command predecessor parameters log =
     (case ml_transcripts log command of
        Some existing \<Rightarrow>
          (if lt_scope existing = scope \<and> lt_predecessor existing = predecessor
              \<and> lt_parameters existing = parameters
           then Inr () else Inl CommandMismatch, log)
      | None \<Rightarrow>
          if ml_current log scope \<noteq> Some predecessor then (Inl StalePredecessor, log)
          else (Inr (), put_transcript command
                 \<lparr>lt_scope = scope, lt_predecessor = predecessor, lt_parameters = parameters,
                  lt_posts = Map.empty, lt_next_phase = Some CommitPhase,
                  lt_terminal = None\<rparr> log))"

definition log_post ::
  "command_id \<Rightarrow> log_phase \<Rightarrow> bytes \<Rightarrow> bytes \<Rightarrow> memory_log \<Rightarrow> unit result \<times> memory_log" where
  "log_post command phase role payload log =
     (case ml_transcripts log command of
        None \<Rightarrow> (Inl ParticipantNotFound, log)
      | Some t \<Rightarrow>
          (case lt_posts t (phase, role) of
             Some existing \<Rightarrow>
               (if existing = payload then Inr () else Inl ReplayMismatch, log)
           | None \<Rightarrow>
               if lt_terminal t \<noteq> None then (Inl AlreadyTerminal, log)
               else if lt_next_phase t \<noteq> Some phase then (Inl PhaseClosed, log)
               else if ml_current log (lt_scope t) \<noteq> Some (lt_predecessor t)
                 then (Inl StalePredecessor, log)
               else (Inr (), put_transcript command
                      (t\<lparr>lt_posts := (lt_posts t)((phase, role) \<mapsto> payload)\<rparr>) log)))"

fun phase_after :: "log_phase \<Rightarrow> log_phase option" where
  "phase_after CommitPhase = Some OpenPhase"
| "phase_after OpenPhase = Some ReceiptPhase"
| "phase_after ReceiptPhase = None"

definition log_close_phase ::
  "command_id \<Rightarrow> log_phase \<Rightarrow> memory_log \<Rightarrow> unit result \<times> memory_log" where
  "log_close_phase command phase log =
     (case ml_transcripts log command of
        None \<Rightarrow> (Inl ParticipantNotFound, log)
      | Some t \<Rightarrow>
          if (case lt_next_phase t of None \<Rightarrow> True | Some next \<Rightarrow> phase < next)
            then (Inr (), log)
          else if lt_terminal t \<noteq> None then (Inl AlreadyTerminal, log)
          else if ml_current log (lt_scope t) \<noteq> Some (lt_predecessor t)
            then (Inl StalePredecessor, log)
          else if lt_next_phase t = Some phase
            then (Inr (), put_transcript command
                    (t\<lparr>lt_next_phase := phase_after phase\<rparr>) log)
          else (Inl PhaseClosed, log))"

definition log_abort :: "command_id \<Rightarrow> memory_log \<Rightarrow> terminal result \<times> memory_log" where
  "log_abort command log =
     (case ml_transcripts log command of
        None \<Rightarrow> (Inl ParticipantNotFound, log)
      | Some t \<Rightarrow>
          (case lt_terminal t of
             Some Aborted \<Rightarrow> (Inr Aborted, log)
           | Some (Activated _) \<Rightarrow> (Inl AlreadyTerminal, log)
           | None \<Rightarrow> (Inr Aborted,
                      put_transcript command (t\<lparr>lt_terminal := Some Aborted\<rparr>) log)))"

text \<open>
  The scan of \<open>activate_bundle\<close> over the commands. Its state is the sets of commands and
  scopes seen, the records that will be activated, and the handle of a replay.
\<close>

fun bundle_scan ::
  "memory_log \<Rightarrow> command_id list \<Rightarrow> command_id set \<Rightarrow> scope_id set
     \<Rightarrow> (command_id \<times> scope_id) list \<Rightarrow> activation_handle option
     \<Rightarrow> ((command_id \<times> scope_id) list \<times> activation_handle option) result" where
  "bundle_scan log [] seen scopes records replay = Inr (records, replay)"
| "bundle_scan log (command # commands) seen scopes records replay =
     (if command \<in> seen then Inl CommandMismatch
      else case ml_transcripts log command of
        None \<Rightarrow> Inl ParticipantNotFound
      | Some t \<Rightarrow>
          if lt_scope t \<in> scopes then Inl CommandMismatch
          else case lt_terminal t of
            Some (Activated handle) \<Rightarrow>
              if records \<noteq> [] then Inl AlreadyTerminal
              else if replay \<noteq> None \<and> replay \<noteq> Some handle then Inl AlreadyTerminal
              else bundle_scan log commands (insert command seen)
                     (insert (lt_scope t) scopes) records (Some handle)
          | Some Aborted \<Rightarrow> Inl AlreadyTerminal
          | None \<Rightarrow>
              if replay \<noteq> None then Inl AlreadyTerminal
              else if lt_next_phase t \<noteq> None then Inl PhaseClosed
              else if ml_current log (lt_scope t) \<noteq> Some (lt_predecessor t)
                then Inl StalePredecessor
              else bundle_scan log commands (insert command seen)
                     (insert (lt_scope t) scopes) (records @ [(command, lt_scope t)]) replay)"

fun set_currents ::
  "(command_id \<times> scope_id) list \<Rightarrow> activation_handle \<Rightarrow> memory_log \<Rightarrow> memory_log" where
  "set_currents [] handle log = log"
| "set_currents ((_, scope) # records) handle log =
     set_currents records handle (log\<lparr>ml_current := (ml_current log)(scope \<mapsto> handle)\<rparr>)"

fun set_terminals ::
  "(command_id \<times> scope_id) list \<Rightarrow> activation_handle \<Rightarrow> memory_log
     \<Rightarrow> unit result \<times> memory_log" where
  "set_terminals [] handle log = (Inr (), log)"
| "set_terminals ((command, _) # records) handle log =
     (case ml_transcripts log command of
        None \<Rightarrow> (Inl ParticipantNotFound, log)
      | Some t \<Rightarrow> set_terminals records handle
                   (put_transcript command (t\<lparr>lt_terminal := Some (Activated handle)\<rparr>) log))"

definition log_activate_bundle ::
  "command_id list \<Rightarrow> memory_log \<Rightarrow> (terminal result \<times> memory_log) option" where
  "log_activate_bundle commands log =
     (if commands = [] then Some (Inl EmptyInput, log)
      else case bundle_scan log commands {} {} [] None of
        Inl e \<Rightarrow> Some (Inl e, log)
      | Inr (records, Some handle) \<Rightarrow>
          Some (if ml_activations log handle = Some (sort commands)
                then Inr (Activated handle) else Inl CommandMismatch, log)
      | Inr (records, None) \<Rightarrow>
          (case fresh_handle (ml_handles log) (ml_next_handle log) of
             None \<Rightarrow> None
           | Some (handle, next) \<Rightarrow>
               let log1 = log\<lparr>ml_handles := insert handle (ml_handles log),
                              ml_next_handle := next\<rparr>;
                   log2 = set_currents records handle log1
               in (case set_terminals records handle log2 of
                     (Inl e, log3) \<Rightarrow> Some (Inl e, log3)
                   | (Inr _, log3) \<Rightarrow>
                       Some (Inr (Activated handle),
                         log3\<lparr>ml_activations :=
                           (ml_activations log3)(handle \<mapsto> sort commands)\<rparr>))))"

definition log_activate :: "command_id \<Rightarrow> memory_log \<Rightarrow> (terminal result \<times> memory_log) option"
  where "log_activate command log = log_activate_bundle [command] log"

definition log_current :: "scope_id \<Rightarrow> memory_log \<Rightarrow> activation_handle option" where
  "log_current scope log = ml_current log scope"

end
