(* ===== verification/Ksnf_Log_Proofs.thy ===== *)
theory Ksnf_Log_Proofs
  imports Ksnf_Log
begin

text \<open>
  Properties of the in-memory log: the steps an application can take, the invariant every
  reachable log has, the append-only order between a log and its successors, and the
  allocator of handles.
\<close>

section \<open>Handle allocation\<close>

lemma be_bytes_unat_inj:
  "be_bytes 8 (unat (a :: u64)) = be_bytes 8 (unat b) \<longleftrightarrow> a = b"
proof
  assume eq: "be_bytes 8 (unat a) = be_bytes 8 (unat b)"
  have "unat a < 256 ^ 8" "unat b < 256 ^ 8"
    using unsigned_less [of a] unsigned_less [of b] by simp_all
  with eq have "unat a = unat b" by (blast intro: be_bytes_inj)
  then show "a = b" by (simp add: word_unat_eq_iff)
qed simp

lemma ident_of_bytes_inj:
  "length as = 32 \<Longrightarrow> length bs = 32 \<Longrightarrow> ident_of_bytes as = ident_of_bytes bs \<longleftrightarrow> as = bs"
  by (metis ident_bytes_of_bytes)

lemma counter_handle_inj [simp]: "counter_handle a = counter_handle b \<longleftrightarrow> a = b"
  by (simp add: counter_handle_def ident_of_bytes_inj be_bytes_unat_inj)

lemma fresh_handle_finds:
  assumes "counter_handle (next + 1 + word_of_nat k) \<notin> handles"
  shows "\<exists>handle next'. fresh_handle handles next = Some (handle, next')"
  using assms
proof (induction k arbitrary: "next")
  case 0
  then show ?case by (simp add: fresh_handle.simps Let_def)
next
  case (Suc k)
  then have "counter_handle ((next + 1) + 1 + word_of_nat k) \<notin> handles"
    by (simp add: add_ac)
  then obtain handle next' where "fresh_handle handles (next + 1) = Some (handle, next')"
    using Suc.IH by blast
  then show ?case by (subst fresh_handle.simps) (simp add: Let_def)
qed

lemma fresh_handle_total:
  assumes "\<not> range counter_handle \<subseteq> handles"
  obtains handle next' where "fresh_handle handles next = Some (handle, next')"
proof -
  from assms obtain w where w: "counter_handle w \<notin> handles" by blast
  have "next + 1 + word_of_nat (unat (w - next - 1)) = w" by simp
  with w fresh_handle_finds [of "next" "unat (w - next - 1)" handles] that show thesis
    by auto
qed

lemma fresh_handle_result:
  assumes "fresh_handle handles next = Some (handle, next')"
  shows "handle \<notin> handles \<and> handle = counter_handle next'"
proof -
  let ?P = "\<lambda>handles next r. fst r \<notin> handles \<and> fst r = counter_handle (snd r)"
  have "?P handles next (handle, next')"
  proof (rule fresh_handle.raw_induct [where P = ?P, OF _ assms])
    fix f :: "activation_handle set \<Rightarrow> u64 \<Rightarrow> (activation_handle \<times> u64) option"
      and handles "next" r
    assume IH: "\<And>handles next r. f handles next = Some r \<Longrightarrow> ?P handles next r"
      and eq: "(let next' = next + 1; handle = counter_handle next'
        in if handle \<in> handles then f handles next' else Some (handle, next')) = Some r"
    then show "?P handles next r"
      by (cases r) (auto simp: Let_def split: if_splits)
  qed
  then show ?thesis unfolding fst_conv snd_conv .
qed

lemma fresh_handle_notin: "fresh_handle handles next = Some (handle, next') \<Longrightarrow> handle \<notin> handles"
  using fresh_handle_result by blast

lemma range_counter_handle_card: "card (range counter_handle) = 2 ^ 64"
proof -
  have "inj counter_handle" by (auto intro: injI)
  then have "card (range counter_handle) = CARD(u64)" by (simp add: card_image)
  then show ?thesis by (simp add: card_word)
qed

lemma few_handles_fresh:
  assumes "finite handles" "card handles < 2 ^ 64"
  shows "\<not> range counter_handle \<subseteq> handles"
  using assms card_mono [of handles "range counter_handle"] range_counter_handle_card by auto

section \<open>The scan of a bundle\<close>

definition ready_record :: "memory_log \<Rightarrow> command_id \<times> scope_id \<Rightarrow> bool" where
  "ready_record log r \<longleftrightarrow> (\<exists>t. ml_transcripts log (fst r) = Some t \<and> lt_scope t = snd r
     \<and> lt_terminal t = None \<and> lt_next_phase t = None
     \<and> ml_current log (snd r) = Some (lt_predecessor t))"

lemma bundle_scan_replay:
  "bundle_scan log cmds seen scopes records (Some h) = Inr (records', replay') \<Longrightarrow>
     replay' = Some h \<and> records' = records
     \<and> (\<forall>c \<in> set cmds. \<exists>t. ml_transcripts log c = Some t \<and> lt_terminal t = Some (Activated h))"
  by (induction cmds arbitrary: seen scopes)
     (auto split: if_splits option.splits terminal.splits)

lemma bundle_scan_fresh:
  assumes "bundle_scan log cmds seen scopes records None = Inr (records', None)"
  obtains new where "records' = records @ new" "map fst new = cmds" "distinct cmds"
    "set cmds \<inter> seen = {}" "distinct (map snd new)" "snd ` set new \<inter> scopes = {}"
    "\<forall>r \<in> set new. ready_record log r"
  using assms
proof (induction cmds arbitrary: seen scopes records thesis)
  case Nil
  from Nil(2) Nil(1) [of "[]"] show ?case by simp
next
  case (Cons c cmds)
  from Cons.prems(2) obtain t where t: "c \<notin> seen" "ml_transcripts log c = Some t"
    "lt_scope t \<notin> scopes" "lt_terminal t = None" "lt_next_phase t = None"
    "ml_current log (lt_scope t) = Some (lt_predecessor t)"
    and rest: "bundle_scan log cmds (insert c seen) (insert (lt_scope t) scopes)
      (records @ [(c, lt_scope t)]) None = Inr (records', None)"
    by (auto split: if_splits option.splits terminal.splits dest: bundle_scan_replay)
  from Cons.IH [OF _ rest] obtain new where new:
    "records' = (records @ [(c, lt_scope t)]) @ new" "map fst new = cmds" "distinct cmds"
    "set cmds \<inter> insert c seen = {}" "distinct (map snd new)"
    "snd ` set new \<inter> insert (lt_scope t) scopes = {}" "\<forall>r \<in> set new. ready_record log r"
    by metis
  show ?case
    by (rule Cons.prems(1) [of "(c, lt_scope t) # new"])
       (use t new in \<open>auto simp: ready_record_def\<close>)
qed

lemma bundle_scan_no_records:
  assumes "bundle_scan log cmds seen scopes records None = Inr (records', Some h)"
  shows "records = [] \<and> (\<forall>c \<in> set cmds. \<exists>t. ml_transcripts log c = Some t
           \<and> lt_terminal t = Some (Activated h))"
proof (cases cmds)
  case Nil
  with assms show ?thesis by simp
next
  case (Cons c cs)
  have stuck: "bundle_scan log cs seen scopes rs None \<noteq> Inr (records', Some h)"
    if "rs \<noteq> []" for cs seen scopes rs
    using that
    by (induction cs arbitrary: seen scopes rs)
       (auto split: if_splits option.splits terminal.splits)
  from assms Cons show ?thesis
    by (auto split: if_splits option.splits terminal.splits
        dest!: bundle_scan_replay stuck [THEN notE, rotated])
qed

section \<open>What an activation writes\<close>

lemma set_currents_simps [simp]:
  "ml_transcripts (set_currents rs h log) = ml_transcripts log"
  "ml_handles (set_currents rs h log) = ml_handles log"
  "ml_activations (set_currents rs h log) = ml_activations log"
  "ml_next_handle (set_currents rs h log) = ml_next_handle log"
  by (induction rs h log rule: set_currents.induct) auto

lemma set_currents_current:
  "ml_current (set_currents rs h log) s =
     (if s \<in> snd ` set rs then Some h else ml_current log s)"
  by (induction rs h log rule: set_currents.induct) auto

lemma set_terminals_effect:
  assumes "distinct (map fst rs)" "\<forall>r \<in> set rs. ml_transcripts log (fst r) \<noteq> None"
  shows "set_terminals rs h log =
    (Inr (), log\<lparr>ml_transcripts := \<lambda>c. if c \<in> fst ` set rs
       then map_option (\<lambda>t. t\<lparr>lt_terminal := Some (Activated h)\<rparr>) (ml_transcripts log c)
       else ml_transcripts log c\<rparr>)"
  using assms
proof (induction rs h log rule: set_terminals.induct)
  case (1 h log)
  then show ?case by simp
next
  case (2 c s rs h log)
  then obtain t where t: "ml_transcripts log c = Some t" by auto
  let ?log = "put_transcript c (t\<lparr>lt_terminal := Some (Activated h)\<rparr>) log"
  from "2.prems" have "\<forall>r \<in> set rs. ml_transcripts ?log (fst r) \<noteq> None"
    by (auto simp: put_transcript_def)
  with "2.IH" [OF t] "2.prems"(1) t show ?case
    by (auto simp: put_transcript_def fun_eq_iff intro!: arg_cong [where f = "\<lambda>f. log\<lparr>ml_transcripts := f\<rparr>"])
qed

definition activated_log ::
  "(command_id \<times> scope_id) list \<Rightarrow> activation_handle \<Rightarrow> u64 \<Rightarrow> memory_log \<Rightarrow> memory_log" where
  "activated_log rs h next log = log\<lparr>
     ml_current := (\<lambda>s. if s \<in> snd ` set rs then Some h else ml_current log s),
     ml_transcripts := (\<lambda>c. if c \<in> fst ` set rs
       then map_option (\<lambda>t. t\<lparr>lt_terminal := Some (Activated h)\<rparr>) (ml_transcripts log c)
       else ml_transcripts log c),
     ml_handles := insert h (ml_handles log),
     ml_activations := (ml_activations log)(h \<mapsto> sort (map fst rs)),
     ml_next_handle := next\<rparr>"

lemma activate_bundle_fresh:
  assumes scan: "bundle_scan log cmds {} {} [] None = Inr (rs, None)" and ne: "cmds \<noteq> []"
    and fresh: "fresh_handle (ml_handles log) (ml_next_handle log) = Some (h, next)"
  shows "log_activate_bundle cmds log = Some (Inr (Activated h), activated_log rs h next log)"
proof -
  from bundle_scan_fresh [OF scan] have rs: "map fst rs = cmds" "distinct cmds"
    "\<forall>x \<in> set rs. ready_record log x"
    by (metis append_Nil)+
  let ?log1 = "log\<lparr>ml_handles := insert h (ml_handles log), ml_next_handle := next\<rparr>"
  have "\<forall>x \<in> set rs. ml_transcripts (set_currents rs h ?log1) (fst x) \<noteq> None"
    using rs(3) by (auto simp: ready_record_def)
  from set_terminals_effect [OF _ this, of h] rs(1,2) scan fresh ne show ?thesis
    by (auto simp: log_activate_bundle_def activated_log_def set_currents_current
        Let_def fun_eq_iff intro!: memory_log.equality)
qed

text \<open>
  The four outcomes of \<open>activate_bundle\<close>: an error and a replay leave the log as it is, a
  fresh bundle writes \<open>activated_log\<close>, and an exhausted allocator does not return.
\<close>

lemma activate_bundle_cases:
  assumes "log_activate_bundle cmds log = Some (r, log')"
  obtains (error) e where "r = Inl e" "log' = log"
  | (replay) h where "r = Inr (Activated h)" "log' = log"
      "ml_activations log h = Some (sort cmds)"
  | (fresh) rs h "next" where "r = Inr (Activated h)" "log' = activated_log rs h next log"
      "h \<notin> ml_handles log" "map fst rs = cmds" "cmds \<noteq> []" "distinct cmds"
      "distinct (map snd rs)" "\<forall>x \<in> set rs. ready_record log x"
proof (cases "bundle_scan log cmds {} {} [] None")
  case (Inl e)
  with assms show ?thesis using error by (auto simp: log_activate_bundle_def split: if_splits)
next
  case (Inr out)
  obtain rs replay where out: "out = (rs, replay)" by fastforce
  show ?thesis
  proof (cases replay)
    case (Some h)
    with assms Inr out error replay show ?thesis
      by (auto simp: log_activate_bundle_def split: if_splits)
  next
    case None
    with Inr out have scan: "bundle_scan log cmds {} {} [] None = Inr (rs, None)" by simp
    from bundle_scan_fresh [OF scan] have rs: "map fst rs = cmds" "distinct cmds"
      "distinct (map snd rs)" "\<forall>x \<in> set rs. ready_record log x"
      by (metis append_Nil)+
    show ?thesis
    proof (cases "cmds = []")
      case True
      with assms show ?thesis using error by (auto simp: log_activate_bundle_def)
    next
      case False
      with assms scan obtain h "next" where
        fresh: "fresh_handle (ml_handles log) (ml_next_handle log) = Some (h, next)"
        by (auto simp: log_activate_bundle_def split: option.splits)
      from activate_bundle_fresh [OF scan False fresh] assms
      have "r = Inr (Activated h)" "log' = activated_log rs h next log" by simp_all
      with fresh_handle_result [OF fresh] rs False show ?thesis
        using that(3) by blast
    qed
  qed
qed

section \<open>The log as a state machine\<close>

inductive log_step :: "memory_log \<Rightarrow> memory_log \<Rightarrow> bool" where
  step_genesis: "log_step log (snd (install_genesis s h log))"
| step_begin: "log_step log (snd (log_begin s c p ps log))"
| step_post: "log_step log (snd (log_post c ph role payload log))"
| step_close: "log_step log (snd (log_close_phase c ph log))"
| step_abort: "log_step log (snd (log_abort c log))"
| step_activate: "log_activate_bundle cs log = Some (r, log') \<Longrightarrow> log_step log log'"

abbreviation log_steps :: "memory_log \<Rightarrow> memory_log \<Rightarrow> bool" where
  "log_steps \<equiv> log_step\<^sup>*\<^sup>*"

abbreviation log_reachable :: "memory_log \<Rightarrow> bool" where
  "log_reachable \<equiv> log_steps empty_log"

text \<open>What a reachable log keeps, per transcript and per activation.\<close>

definition transcript_inv :: "memory_log \<Rightarrow> command_id \<Rightarrow> log_transcript \<Rightarrow> bool" where
  "transcript_inv log c t \<longleftrightarrow>
     lt_predecessor t \<in> ml_handles log \<and> ml_current log (lt_scope t) \<noteq> None
     \<and> (\<forall>h. lt_terminal t = Some (Activated h) \<longrightarrow>
          lt_next_phase t = None \<and> ml_current log (lt_scope t) \<noteq> Some (lt_predecessor t)
          \<and> (\<exists>cs. ml_activations log h = Some cs \<and> c \<in> set cs))"

definition activation_inv :: "memory_log \<Rightarrow> activation_handle \<Rightarrow> command_id list \<Rightarrow> bool" where
  "activation_inv log h cs \<longleftrightarrow> h \<in> ml_handles log \<and> cs \<noteq> [] \<and> sorted cs \<and> distinct cs
     \<and> distinct (map (\<lambda>c. map_option lt_scope (ml_transcripts log c)) cs)
     \<and> (\<forall>c \<in> set cs. \<exists>t. ml_transcripts log c = Some t \<and> lt_terminal t = Some (Activated h))"

definition single_successors :: "memory_log \<Rightarrow> bool" where
  "single_successors log \<longleftrightarrow> (\<forall>c c' t t' h h'.
     ml_transcripts log c = Some t \<longrightarrow> lt_terminal t = Some (Activated h) \<longrightarrow>
     ml_transcripts log c' = Some t' \<longrightarrow> lt_terminal t' = Some (Activated h') \<longrightarrow>
     lt_scope t = lt_scope t' \<longrightarrow> lt_predecessor t = lt_predecessor t' \<longrightarrow> c = c')"

definition log_inv :: "memory_log \<Rightarrow> bool" where
  "log_inv log \<longleftrightarrow>
     (\<forall>s h. ml_current log s = Some h \<longrightarrow> h \<in> ml_handles log)
     \<and> (\<forall>c t. ml_transcripts log c = Some t \<longrightarrow> transcript_inv log c t)
     \<and> (\<forall>h cs. ml_activations log h = Some cs \<longrightarrow> activation_inv log h cs)
     \<and> single_successors log"

lemma log_invI:
  assumes "\<And>s h. ml_current log s = Some h \<Longrightarrow> h \<in> ml_handles log"
    and "\<And>c t. ml_transcripts log c = Some t \<Longrightarrow> transcript_inv log c t"
    and "\<And>h cs. ml_activations log h = Some cs \<Longrightarrow> activation_inv log h cs"
    and "single_successors log"
  shows "log_inv log"
  using assms by (simp add: log_inv_def)

lemma log_invD:
  assumes "log_inv log"
  shows "ml_current log s = Some h \<Longrightarrow> h \<in> ml_handles log"
    and "ml_transcripts log c = Some t \<Longrightarrow> transcript_inv log c t"
    and "ml_activations log h = Some cs \<Longrightarrow> activation_inv log h cs"
    and "single_successors log"
  using assms by (simp_all add: log_inv_def)

lemma log_inv_empty: "log_inv empty_log"
  by (simp add: log_inv_def empty_log_def single_successors_def)

lemma log_inv_genesis:
  assumes "log_inv log"
  shows "log_inv (snd (install_genesis s h log))"
proof (cases "s \<in> dom (ml_current log)")
  case True
  with assms show ?thesis by (simp add: install_genesis_def)
next
  case False
  let ?log = "log\<lparr>ml_current := (ml_current log)(s \<mapsto> h), ml_handles := insert h (ml_handles log)\<rparr>"
  have "transcript_inv ?log c t" if "ml_transcripts log c = Some t" for c t
    using log_invD(2) [OF assms that] False by (auto simp: transcript_inv_def)
  with False log_invD [OF assms] have "log_inv ?log"
    by (intro log_invI) (auto simp: activation_inv_def single_successors_def split: if_splits)
  with False show ?thesis by (simp add: install_genesis_def)
qed

text \<open>
  Begin, post, close and abort rewrite one transcript without activating it: one lemma
  covers the four.
\<close>

lemma log_inv_put:
  assumes inv: "log_inv log"
    and scope: "lt_predecessor t \<in> ml_handles log" "ml_current log (lt_scope t) \<noteq> None"
    and fresh: "\<And>h. lt_terminal t \<noteq> Some (Activated h)"
    and old: "\<And>t0 h. ml_transcripts log c = Some t0 \<Longrightarrow> lt_terminal t0 \<noteq> Some (Activated h)"
  shows "log_inv (put_transcript c t log)"
proof (rule log_invI)
  show "transcript_inv (put_transcript c t log) c' t'"
    if "ml_transcripts (put_transcript c t log) c' = Some t'" for c' t'
    using that log_invD(2) [OF inv, of c' t'] scope fresh
    by (auto simp: put_transcript_def transcript_inv_def split: if_splits)
  show "activation_inv (put_transcript c t log) h cs"
    if "ml_activations (put_transcript c t log) h = Some cs" for h cs
  proof -
    from that have act: "activation_inv log h cs"
      by (auto simp: put_transcript_def intro: log_invD(3) [OF inv])
    with old have c: "c \<notin> set cs" by (auto simp: activation_inv_def)
    then have eq: "map (\<lambda>c'. map_option lt_scope (ml_transcripts (put_transcript c t log) c')) cs
        = map (\<lambda>c'. map_option lt_scope (ml_transcripts log c')) cs"
      by (intro map_cong) (auto simp: put_transcript_def)
    have "ml_transcripts (put_transcript c t log) c' = ml_transcripts log c'" if "c' \<in> set cs" for c'
      using that c by (auto simp: put_transcript_def)
    with act show ?thesis
      unfolding activation_inv_def eq by (simp add: put_transcript_def)
  qed
  show "single_successors (put_transcript c t log)"
    using log_invD(4) [OF inv] fresh by (auto simp: single_successors_def put_transcript_def)
qed (use log_invD(1) [OF inv] in \<open>auto simp: put_transcript_def\<close>)

lemma log_inv_update:
  assumes inv: "log_inv log" and t: "ml_transcripts log c = Some t"
    and alive: "\<And>h. lt_terminal t \<noteq> Some (Activated h)"
    and same: "lt_scope t' = lt_scope t" "lt_predecessor t' = lt_predecessor t"
    and fresh: "\<And>h. lt_terminal t' \<noteq> Some (Activated h)"
  shows "log_inv (put_transcript c t' log)"
  using log_inv_put [OF inv, of t' c] log_invD(2) [OF inv t] alive same fresh t
  by (auto simp: transcript_inv_def)

lemma log_inv_begin: "log_inv log \<Longrightarrow> log_inv (snd (log_begin s c p ps log))"
  by (auto simp: log_begin_def intro!: log_inv_put dest: log_invD(1) split: option.splits)

lemma log_inv_post: "log_inv log \<Longrightarrow> log_inv (snd (log_post c ph role payload log))"
  by (auto simp: log_post_def intro!: log_inv_update split: option.splits)

lemma log_inv_close: "log_inv log \<Longrightarrow> log_inv (snd (log_close_phase c ph log))"
  by (auto simp: log_close_phase_def intro!: log_inv_update split: option.splits)

lemma log_inv_abort: "log_inv log \<Longrightarrow> log_inv (snd (log_abort c log))"
  by (auto simp: log_abort_def intro!: log_inv_update split: option.splits terminal.splits)

lemma activated_transcripts:
  assumes "ml_transcripts (activated_log rs h n log) c = Some t"
  obtains t0 where "ml_transcripts log c = Some t0"
    "lt_scope t = lt_scope t0" "lt_predecessor t = lt_predecessor t0"
    "lt_parameters t = lt_parameters t0" "lt_posts t = lt_posts t0"
    "lt_next_phase t = lt_next_phase t0"
    "lt_terminal t = (if c \<in> fst ` set rs then Some (Activated h) else lt_terminal t0)"
  using assms by (auto simp: activated_log_def split: if_splits)

lemma ready_in:
  assumes "\<forall>x \<in> set rs. ready_record log x" "c \<in> fst ` set rs" "ml_transcripts log c = Some t"
  shows "(c, lt_scope t) \<in> set rs" "lt_terminal t = None" "lt_next_phase t = None"
    "ml_current log (lt_scope t) = Some (lt_predecessor t)"
  using assms by (auto simp: ready_record_def)

lemma log_inv_activated:
  assumes inv: "log_inv log" and h: "h \<notin> ml_handles log" and rs: "rs \<noteq> []"
    and dist: "distinct (map fst rs)" "distinct (map snd rs)"
    and ready: "\<forall>x \<in> set rs. ready_record log x"
  shows "log_inv (activated_log rs h n log)" (is "log_inv ?log")
proof (rule log_invI)
  show "transcript_inv ?log c t" if t: "ml_transcripts ?log c = Some t" for c t
  proof -
    from t obtain t0 where t0: "ml_transcripts log c = Some t0"
      and eq: "lt_scope t = lt_scope t0" "lt_predecessor t = lt_predecessor t0"
        "lt_next_phase t = lt_next_phase t0"
        "lt_terminal t = (if c \<in> fst ` set rs then Some (Activated h) else lt_terminal t0)"
      by (rule activated_transcripts)
    from log_invD(2) [OF inv t0] have old: "transcript_inv log c t0" .
    then have "lt_predecessor t0 \<noteq> h" using h by (auto simp: transcript_inv_def)
    moreover have "h' \<noteq> h" if "ml_activations log h' = Some cs" for h' cs
      using log_invD(3) [OF inv that] h by (auto simp: activation_inv_def)
    ultimately show ?thesis
      using old eq ready_in [OF ready _ t0]
      by (force simp: transcript_inv_def activated_log_def)
  qed
  show "activation_inv ?log h' cs" if cs: "ml_activations ?log h' = Some cs" for h' cs
  proof (cases "h' = h")
    case True
    with cs have "cs = sort (map fst rs)" by (simp add: activated_log_def)
    moreover from this rs have "cs \<noteq> []" by (metis length_0_conv length_map length_sort)
    moreover have "\<exists>t. ml_transcripts ?log c = Some t \<and> lt_terminal t = Some (Activated h)"
      if "c \<in> fst ` set rs" for c
    proof -
      from that ready obtain t where "ml_transcripts log c = Some t"
        by (auto simp: ready_record_def)
      with that show ?thesis by (simp add: activated_log_def)
    qed
    moreover have "distinct (map (\<lambda>c. map_option lt_scope (ml_transcripts ?log c)) cs)"
    proof -
      have "map_option lt_scope (ml_transcripts ?log (fst x)) = Some (snd x)" if "x \<in> set rs" for x
        using that ready by (auto simp: ready_record_def activated_log_def)
      then have "map (\<lambda>c. map_option lt_scope (ml_transcripts ?log c)) (map fst rs)
          = map Some (map snd rs)" by simp
      moreover have "distinct (map Some (map snd rs))"
        using dist(2) by (simp add: distinct_map inj_on_def)
      ultimately have "distinct (map (\<lambda>c. map_option lt_scope (ml_transcripts ?log c)) (map fst rs))"
        by (simp only:)
      with \<open>cs = sort (map fst rs)\<close> show ?thesis
        by (metis mset_eq_imp_distinct_iff mset_map mset_sort)
    qed
    ultimately show ?thesis
      using True dist(1) by (simp add: activation_inv_def) (simp add: activated_log_def)
  next
    case False
    with cs have "activation_inv log h' cs"
      by (auto simp: activated_log_def intro: log_invD(3) [OF inv])
    moreover have "map_option lt_scope (ml_transcripts ?log c) = map_option lt_scope (ml_transcripts log c)" for c
      by (cases "ml_transcripts log c") (simp_all add: activated_log_def)
    moreover have "c \<notin> fst ` set rs"
      if "ml_transcripts log c = Some t" "lt_terminal t = Some (Activated h')" for c t
      using that ready by (auto simp: ready_record_def)
    ultimately show ?thesis
      by (fastforce simp: activation_inv_def activated_log_def)
  qed
  show "single_successors ?log"
    unfolding single_successors_def
  proof (intro allI impI)
    fix c c' t t' k k'
    assume t: "ml_transcripts ?log c = Some t" "lt_terminal t = Some (Activated k)"
      and t': "ml_transcripts ?log c' = Some t'" "lt_terminal t' = Some (Activated k')"
      and same: "lt_scope t = lt_scope t'" "lt_predecessor t = lt_predecessor t'"
    from t(1) obtain t0 where t0: "ml_transcripts log c = Some t0" "lt_scope t = lt_scope t0"
      "lt_predecessor t = lt_predecessor t0"
      "lt_terminal t = (if c \<in> fst ` set rs then Some (Activated h) else lt_terminal t0)"
      by (rule activated_transcripts)
    from t'(1) obtain t1 where t1: "ml_transcripts log c' = Some t1" "lt_scope t' = lt_scope t1"
      "lt_predecessor t' = lt_predecessor t1"
      "lt_terminal t' = (if c' \<in> fst ` set rs then Some (Activated h) else lt_terminal t1)"
      by (rule activated_transcripts)
    note inv0 = log_invD(2) [OF inv t0(1)] and inv1 = log_invD(2) [OF inv t1(1)]
    show "c = c'"
    proof (cases "c \<in> fst ` set rs \<longleftrightarrow> c' \<in> fst ` set rs")
      case True
      show ?thesis
      proof (cases "c \<in> fst ` set rs")
        case True
        with \<open>c \<in> fst ` set rs \<longleftrightarrow> c' \<in> fst ` set rs\<close> have "(c, lt_scope t0) \<in> set rs"
          "(c', lt_scope t1) \<in> set rs"
          using ready_in(1) [OF ready _ t0(1)] ready_in(1) [OF ready _ t1(1)] by simp_all
        with dist(2) same t0(2) t1(2) show ?thesis by (fastforce simp: distinct_map inj_on_def)
      next
        case False
        with True log_invD(4) [OF inv] t t' t0 t1 same show ?thesis
          unfolding single_successors_def by (metis (full_types))
      qed
    next
      case False
      with ready_in(4) [OF ready _ t0(1)] ready_in(4) [OF ready _ t1(1)] t t' t0 t1 same inv0 inv1
      show ?thesis by (auto simp: transcript_inv_def split: if_splits)
    qed
  qed
qed (use log_invD(1) [OF inv] in \<open>auto simp: activated_log_def split: if_splits\<close>)

lemma log_inv_activate:
  assumes "log_inv log" "log_activate_bundle cs log = Some (r, log')"
  shows "log_inv log'"
  using assms(2)
proof (cases rule: activate_bundle_cases)
  case (fresh rs h n)
  with assms(1) show ?thesis by (auto intro!: log_inv_activated)
qed (use assms(1) in simp_all)

lemma log_step_inv: "log_step log log' \<Longrightarrow> log_inv log \<Longrightarrow> log_inv log'"
  by (induction rule: log_step.induct)
     (auto intro: log_inv_genesis log_inv_begin log_inv_post log_inv_close log_inv_abort
       log_inv_activate)

lemma log_steps_inv: "log_steps log log' \<Longrightarrow> log_inv log \<Longrightarrow> log_inv log'"
  by (induction rule: rtranclp_induct) (auto intro: log_step_inv)

lemma reachable_inv: "log_reachable log \<Longrightarrow> log_inv log"
  by (rule log_steps_inv [OF _ log_inv_empty])

section \<open>Append-only history\<close>

definition next_rank :: "log_phase option \<Rightarrow> nat" where
  "next_rank p = (case p of None \<Rightarrow> 3 | Some ph \<Rightarrow> phase_rank ph)"

text \<open>
  What a later version of a transcript keeps: its command, every post, every closed phase
  as it was, and its decision.
\<close>

definition transcript_extends :: "log_transcript \<Rightarrow> log_transcript \<Rightarrow> bool" where
  "transcript_extends t t' \<longleftrightarrow>
     lt_scope t' = lt_scope t \<and> lt_predecessor t' = lt_predecessor t
     \<and> lt_parameters t' = lt_parameters t \<and> lt_posts t \<subseteq>\<^sub>m lt_posts t'
     \<and> next_rank (lt_next_phase t) \<le> next_rank (lt_next_phase t')
     \<and> (\<forall>ph role. phase_rank ph < next_rank (lt_next_phase t) \<longrightarrow>
          lt_posts t' (ph, role) = lt_posts t (ph, role))
     \<and> (lt_terminal t \<noteq> None \<longrightarrow>
          lt_terminal t' = lt_terminal t \<and> lt_posts t' = lt_posts t)"

definition log_extends :: "memory_log \<Rightarrow> memory_log \<Rightarrow> bool" where
  "log_extends log log' \<longleftrightarrow>
     (\<forall>c t. ml_transcripts log c = Some t \<longrightarrow>
        (\<exists>t'. ml_transcripts log' c = Some t' \<and> transcript_extends t t'))
     \<and> ml_activations log \<subseteq>\<^sub>m ml_activations log' \<and> ml_handles log \<subseteq> ml_handles log'"

lemma transcript_extends_refl [simp]: "transcript_extends t t"
  by (simp add: transcript_extends_def)

lemma transcript_extends_trans:
  "transcript_extends t t' \<Longrightarrow> transcript_extends t' t'' \<Longrightarrow> transcript_extends t t''"
  unfolding transcript_extends_def by (auto intro: map_le_trans)

lemma log_extends_refl [simp]: "log_extends log log"
  by (simp add: log_extends_def)

lemma log_extends_trans: "log_extends l l' \<Longrightarrow> log_extends l' l'' \<Longrightarrow> log_extends l l''"
  unfolding log_extends_def
  by (auto intro: map_le_trans) (metis transcript_extends_trans)

lemma log_extends_decided:
  assumes "log_extends log log'" "ml_transcripts log c = Some t" "lt_terminal t = Some d"
  obtains t' where "ml_transcripts log' c = Some t'" "lt_terminal t' = Some d"
    "lt_scope t' = lt_scope t" "lt_predecessor t' = lt_predecessor t"
proof -
  from assms(1,2) obtain t' where "ml_transcripts log' c = Some t'" "transcript_extends t t'"
    unfolding log_extends_def by blast
  with assms(3) that show thesis unfolding transcript_extends_def by simp
qed

lemma log_extends_put:
  "(\<And>t0. ml_transcripts log c = Some t0 \<Longrightarrow> transcript_extends t0 t) \<Longrightarrow>
     log_extends log (put_transcript c t log)"
  by (auto simp: log_extends_def put_transcript_def)

lemma phase_after_rank: "next_rank (phase_after ph) = Suc (phase_rank ph)"
  by (cases ph) (simp_all add: next_rank_def)

lemma post_extends:
  assumes "lt_posts t (ph, role) = None" "lt_terminal t = None" "lt_next_phase t = Some ph"
  shows "transcript_extends t (t\<lparr>lt_posts := (lt_posts t)((ph, role) \<mapsto> payload)\<rparr>)"
  using assms by (auto simp: transcript_extends_def next_rank_def map_le_def)

lemma log_step_extends: "log_step log log' \<Longrightarrow> log_inv log \<Longrightarrow> log_extends log log'"
proof (induction rule: log_step.induct)
  case (step_genesis log s h)
  then show ?case by (auto simp: install_genesis_def log_extends_def)
next
  case (step_begin log s c p ps)
  then show ?case by (auto simp: log_begin_def split: option.splits intro!: log_extends_put)
next
  case (step_post log c ph role payload)
  then show ?case
    by (auto simp: log_post_def split: option.splits intro!: log_extends_put post_extends)
next
  case (step_close log c ph)
  have "transcript_extends t (t\<lparr>lt_next_phase := phase_after ph\<rparr>)"
    if "lt_terminal t = None" "lt_next_phase t = Some ph" for t
    using that phase_after_rank [of ph] by (simp add: transcript_extends_def next_rank_def)
  then show ?case
    by (auto simp: log_close_phase_def split: option.splits intro!: log_extends_put)
next
  case (step_abort log c)
  have "transcript_extends t (t\<lparr>lt_terminal := Some Aborted\<rparr>)" if "lt_terminal t = None" for t
    using that by (simp add: transcript_extends_def)
  then show ?case
    by (auto simp: log_abort_def split: option.splits terminal.splits intro!: log_extends_put)
next
  case (step_activate cs log r log')
  from step_activate(1) show ?case
  proof (cases rule: activate_bundle_cases)
    case (fresh rs h n)
    have "ml_activations log h = None"
      using log_invD(3) [OF step_activate(2), of h] fresh(3)
      by (cases "ml_activations log h") (auto simp: activation_inv_def)
    moreover have "lt_terminal t = None" if "ml_transcripts log c = Some t" "c \<in> fst ` set rs"
      for c t using ready_in(2) [OF fresh(8) that(2,1)] .
    ultimately show ?thesis
      using fresh(2) by (auto simp: log_extends_def activated_log_def transcript_extends_def map_le_def)
  qed simp_all
qed

lemma log_steps_extends:
  assumes "log_steps log log'" "log_inv log"
  shows "log_extends log log'"
  using assms
proof (induction rule: rtranclp_induct)
  case (step l l')
  then show ?case by (metis log_extends_trans log_step_extends log_steps_inv)
qed simp

text \<open>A step never writes the posts or the phase of a transcript with a stale predecessor.\<close>

lemma stale_step:
  assumes "log_step log log'" "ml_transcripts log c = Some t"
    and "ml_current log (lt_scope t) \<noteq> Some (lt_predecessor t)"
  obtains t' where "ml_transcripts log' c = Some t'" "lt_scope t' = lt_scope t"
    "lt_predecessor t' = lt_predecessor t" "lt_posts t' = lt_posts t"
    "lt_next_phase t' = lt_next_phase t"
  using assms
proof (induction arbitrary: thesis rule: log_step.induct)
  case (step_activate cs log r log')
  from step_activate(1) show ?case
  proof (cases rule: activate_bundle_cases)
    case (fresh rs h n)
    have "c \<notin> fst ` set rs"
      using ready_in(4) [OF fresh(8) _ step_activate(3)] step_activate(4) by blast
    with fresh(2) step_activate(2,3) show ?thesis by (auto simp: activated_log_def)
  qed (use step_activate in auto)
qed (force simp: install_genesis_def log_begin_def log_post_def log_close_phase_def log_abort_def
      put_transcript_def split: option.splits terminal.splits if_splits)+

lemma log_inv_finite: "log_reachable log \<Longrightarrow> finite (ml_handles log)"
proof (induction rule: rtranclp_induct)
  case (step l l')
  from step(2,3) show ?case
  proof (induction rule: log_step.induct)
    case (step_activate cs log r log')
    from step_activate(1) show ?case
      by (cases rule: activate_bundle_cases) (use step_activate(2) in \<open>auto simp: activated_log_def\<close>)
  qed (auto simp: install_genesis_def log_begin_def log_post_def log_close_phase_def log_abort_def
      put_transcript_def split: option.splits terminal.splits)
qed (simp add: empty_log_def)

end
