(* ===== verification/Ksnf_Log_Claims.thy ===== *)
theory Ksnf_Log_Claims
  imports Ksnf_Log_Proofs
begin

text \<open>
  The activation log's guarantees, each with a run of the log on which it is exercised: two
  scopes, two candidates on one scope, and the bundle that activates one of them.
\<close>

section \<open>A concrete run\<close>

definition demo_log :: memory_log where
  "demo_log = snd (log_begin (Ident 1) (Ident 12) (Ident 70) [2]
     (snd (log_begin (Ident 2) (Ident 11) (Ident 71) [1]
       (snd (log_begin (Ident 1) (Ident 10) (Ident 70) [0]
         (snd (install_genesis (Ident 2) (Ident 71)
           (snd (install_genesis (Ident 1) (Ident 70) empty_log)))))))))"

definition close_all :: "command_id \<Rightarrow> memory_log \<Rightarrow> memory_log" where
  "close_all c log = snd (log_close_phase c ReceiptPhase
     (snd (log_close_phase c OpenPhase (snd (log_close_phase c CommitPhase log)))))"

definition demo_closed :: memory_log where
  "demo_closed = close_all (Ident 12) (close_all (Ident 11) (close_all (Ident 10) demo_log))"

definition demo_commands :: "command_id list" where
  "demo_commands = [Ident 11, Ident 10]"

definition demo_activated :: memory_log where
  "demo_activated = snd (the (log_activate_bundle demo_commands demo_closed))"

lemma close_all_steps: "log_steps log (close_all c log)"
  unfolding close_all_def
  by (meson log_step.step_close r_into_rtranclp rtranclp_trans)

lemma demo_log_reachable: "log_reachable demo_log"
  unfolding demo_log_def
  by (meson log_step.step_begin log_step.step_genesis rtranclp.rtrancl_into_rtrancl
      rtranclp.rtrancl_refl)

lemma demo_closed_reachable: "log_reachable demo_closed"
  unfolding demo_closed_def
  by (meson demo_log_reachable close_all_steps rtranclp_trans)

lemmas demo_eval = demo_closed_def close_all_def demo_log_def install_genesis_def log_begin_def
  log_close_phase_def put_transcript_def empty_log_def less_log_phase_def

lemma demo_closed_transcripts:
  "ml_transcripts demo_closed (Ident 10) = Some
     \<lparr>lt_scope = Ident 1, lt_predecessor = Ident 70, lt_parameters = [0], lt_posts = Map.empty,
      lt_next_phase = None, lt_terminal = None\<rparr>"
  "ml_transcripts demo_closed (Ident 11) = Some
     \<lparr>lt_scope = Ident 2, lt_predecessor = Ident 71, lt_parameters = [1], lt_posts = Map.empty,
      lt_next_phase = None, lt_terminal = None\<rparr>"
  "ml_transcripts demo_closed (Ident 12) = Some
     \<lparr>lt_scope = Ident 1, lt_predecessor = Ident 70, lt_parameters = [2], lt_posts = Map.empty,
      lt_next_phase = None, lt_terminal = None\<rparr>"
  by (simp_all add: demo_eval)

lemma demo_closed_rest:
  "ml_current demo_closed = [Ident 1 \<mapsto> Ident 70, Ident 2 \<mapsto> Ident 71]"
  "ml_handles demo_closed = {Ident 70, Ident 71}"
  "ml_activations demo_closed = Map.empty"
  "ml_next_handle demo_closed = 0"
  by (simp_all add: demo_eval fun_eq_iff insert_commute)

lemma demo_scan: "bundle_scan demo_closed demo_commands {} {} [] None =
    Inr ([(Ident 11, Ident 2), (Ident 10, Ident 1)], None)"
  by (simp add: demo_commands_def demo_closed_transcripts demo_closed_rest)

lemma demo_activation:
  obtains h n where "log_activate_bundle demo_commands demo_closed =
      Some (Inr (Activated h), demo_activated)"
    "demo_activated = activated_log [(Ident 11, Ident 2), (Ident 10, Ident 1)] h n demo_closed"
    "h \<notin> {Ident 70, Ident 71}"
proof -
  have "\<not> range counter_handle \<subseteq> ml_handles demo_closed"
    by (rule few_handles_fresh) (simp_all add: demo_closed_rest)
  then obtain h n where fresh:
    "fresh_handle (ml_handles demo_closed) (ml_next_handle demo_closed) = Some (h, n)"
    by (rule fresh_handle_total)
  from activate_bundle_fresh [OF demo_scan _ fresh]
  have act: "log_activate_bundle demo_commands demo_closed = Some (Inr (Activated h),
      activated_log [(Ident 11, Ident 2), (Ident 10, Ident 1)] h n demo_closed)"
    by (simp add: demo_commands_def)
  from fresh_handle_notin [OF fresh] have "h \<notin> {Ident 70, Ident 71}"
    by (simp add: demo_closed_rest)
  with act that show thesis by (simp add: demo_activated_def)
qed

lemma demo_activated_eq:
  obtains h n where "demo_activated =
      activated_log [(Ident 11, Ident 2), (Ident 10, Ident 1)] h n demo_closed"
proof (rule demo_activation)
  fix h n
  assume "demo_activated = activated_log [(Ident 11, Ident 2), (Ident 10, Ident 1)] h n demo_closed"
  then show thesis by (rule that)
qed

lemma demo_activated_entries:
  assumes "demo_activated = activated_log [(Ident 11, Ident 2), (Ident 10, Ident 1)] h n demo_closed"
  shows "ml_transcripts demo_activated (Ident 10) = Some
     \<lparr>lt_scope = Ident 1, lt_predecessor = Ident 70, lt_parameters = [0], lt_posts = Map.empty,
      lt_next_phase = None, lt_terminal = Some (Activated h)\<rparr>"
    and "ml_transcripts demo_activated (Ident 12) = ml_transcripts demo_closed (Ident 12)"
    and "ml_activations demo_activated h = Some [Ident 10, Ident 11]"
  unfolding assms
  by (simp_all add: activated_log_def demo_closed_transcripts less_eq_ident_def less_ident_def)

lemma demo_activated_steps: "log_steps demo_closed demo_activated"
  using demo_activation by (metis log_step.step_activate r_into_rtranclp)

lemma demo_activated_reachable: "log_reachable demo_activated"
  using demo_closed_reachable demo_activated_steps by (rule rtranclp_trans)

section \<open>The guarantees\<close>

text \<open>
  C5. One successor per predecessor: in every reachable log, two activated commands on the
  same scope with the same predecessor are the same command.
\<close>

theorem log_single_successor:
  assumes "log_reachable log"
    and "ml_transcripts log c = Some t" "lt_terminal t = Some (Activated h)"
    and "ml_transcripts log c' = Some t'" "lt_terminal t' = Some (Activated h')"
    and "lt_scope t = lt_scope t'" "lt_predecessor t = lt_predecessor t'"
  shows "c = c'"
proof -
  from assms(1) have "single_successors log" by (intro log_invD(4) reachable_inv)
  with assms(2-) show ?thesis unfolding single_successors_def by blast
qed

theorem log_single_successor_witness:
  "{c. \<exists>t h. ml_transcripts demo_activated c = Some t \<and> lt_terminal t = Some (Activated h)
     \<and> lt_scope t = Ident 1 \<and> lt_predecessor t = Ident 70} = {Ident 10}"
proof -
  obtain h n where act: "demo_activated =
      activated_log [(Ident 11, Ident 2), (Ident 10, Ident 1)] h n demo_closed"
    by (rule demo_activated_eq)
  note t = demo_activated_entries(1) [OF act]
  show ?thesis
  proof (intro set_eqI iffI; clarsimp)
    fix c t' h'
    assume "ml_transcripts demo_activated c = Some t'" "lt_terminal t' = Some (Activated h')"
      "lt_scope t' = Ident 1" "lt_predecessor t' = Ident 70"
    then show "c = Ident 10"
      by (intro log_single_successor [OF demo_activated_reachable _ _ t]) simp_all
  qed (simp add: t)
qed

text \<open>
  Handles are injective: a reachable log names each activated bundle by one handle, and
  a command by the handle of the one bundle it belongs to.
\<close>

theorem log_handle_injective:
  assumes "log_reachable log"
    and "ml_activations log h = Some cs" "ml_activations log h' = Some cs'"
    and "set cs \<inter> set cs' \<noteq> {}"
  shows "h = h' \<and> cs = cs'"
proof -
  from assms(1) have inv: "log_inv log" by (rule reachable_inv)
  from assms(4) obtain c where "c \<in> set cs" "c \<in> set cs'" by blast
  with log_invD(3) [OF inv assms(2)] log_invD(3) [OF inv assms(3)] have "h = h'"
    by (fastforce simp: activation_inv_def)
  with assms(2,3) show ?thesis by simp
qed

theorem log_handle_injective_witness:
  "\<exists>h. {h'. \<exists>cs. ml_activations demo_activated h' = Some cs \<and> Ident 10 \<in> set cs} = {h}"
proof -
  obtain h n where act: "demo_activated =
      activated_log [(Ident 11, Ident 2), (Ident 10, Ident 1)] h n demo_closed"
    by (rule demo_activated_eq)
  note h = demo_activated_entries(3) [OF act]
  have "h' = h" if "ml_activations demo_activated h' = Some cs" "Ident 10 \<in> set cs" for h' cs
  proof -
    have "Ident 10 \<in> set cs \<inter> set [Ident 10, Ident 11]" using that(2) by simp
    then have "set cs \<inter> set [Ident 10, Ident 11] \<noteq> {}" by blast
    from log_handle_injective [OF demo_activated_reachable that(1) h this]
    show ?thesis by (rule conjunct1)
  qed
  moreover have "\<exists>cs. ml_activations demo_activated h = Some cs \<and> Ident 10 \<in> set cs"
    by (intro exI conjI, rule h) simp
  ultimately show ?thesis by blast
qed

text \<open>
  The history is append-only: whatever a later log holds, it extends the earlier one.
  No post, closed phase, decision or activation is lost or changed.
\<close>

theorem log_append_only:
  assumes "log_reachable log" "log_steps log log'"
  shows "log_extends log log'"
  using assms(2) reachable_inv [OF assms(1)] by (rule log_steps_extends)

theorem log_append_only_witness: "log_extends demo_closed demo_activated"
  by (rule log_append_only [OF demo_closed_reachable demo_activated_steps])

text \<open>
  C28. Activation is a compare-and-set that returns: if every command is ready (receipts
  closed, no decision, predecessor current), their scopes differ, and fewer than 2 to the 64
  handles exist, then the bundle activates under a handle never used before, every scope of
  the bundle moves to it and every other scope stays.
\<close>

theorem log_activate_ready:
  assumes "log_reachable log" "card (ml_handles log) < 2 ^ 64" "cmds \<noteq> []" "distinct cmds"
    and ready: "\<forall>c \<in> set cmds. \<exists>t. ml_transcripts log c = Some t \<and> lt_terminal t = None
      \<and> lt_next_phase t = None \<and> ml_current log (lt_scope t) = Some (lt_predecessor t)"
    and scopes: "distinct (map (\<lambda>c. map_option lt_scope (ml_transcripts log c)) cmds)"
  shows "\<exists>h log'. log_activate_bundle cmds log = Some (Inr (Activated h), log')
     \<and> h \<notin> ml_handles log \<and> ml_activations log' h = Some (sort cmds)
     \<and> (\<forall>s. ml_current log' s =
          (if \<exists>c \<in> set cmds. \<exists>t. ml_transcripts log c = Some t \<and> lt_scope t = s
           then Some h else ml_current log s))"
proof -
  let ?rec = "\<lambda>c. (c, lt_scope (the (ml_transcripts log c)))"
  have scan: "bundle_scan log cmds seen ss rs None = Inr (rs @ map ?rec cmds, None)"
    if "distinct cmds" "set cmds \<inter> seen = {}"
      "distinct (map (\<lambda>c. map_option lt_scope (ml_transcripts log c)) cmds)"
      "\<forall>c \<in> set cmds. lt_scope (the (ml_transcripts log c)) \<notin> ss"
      "\<forall>c \<in> set cmds. \<exists>t. ml_transcripts log c = Some t \<and> lt_terminal t = None
        \<and> lt_next_phase t = None \<and> ml_current log (lt_scope t) = Some (lt_predecessor t)"
    for cmds seen ss rs
    using that
  proof (induction cmds arbitrary: seen ss rs)
    case (Cons c cmds)
    then obtain t where t: "ml_transcripts log c = Some t" "lt_terminal t = None"
      "lt_next_phase t = None" "ml_current log (lt_scope t) = Some (lt_predecessor t)" by auto
    have "lt_scope (the (ml_transcripts log c')) \<noteq> lt_scope t" if "c' \<in> set cmds" for c'
      using that Cons.prems(3,5) t(1) by (force simp: image_iff)
    with Cons t show ?case by auto
  qed simp
  from reachable_inv [OF assms(1)] log_inv_finite [OF assms(1)] assms(2)
  obtain h n where fresh: "fresh_handle (ml_handles log) (ml_next_handle log) = Some (h, n)"
    by (metis few_handles_fresh fresh_handle_total)
  have "bundle_scan log cmds {} {} [] None = Inr (map ?rec cmds, None)"
    using scan [OF assms(4) _ scopes _ ready, of "{}" "{}" "[]"] by simp
  note act = activate_bundle_fresh [OF this assms(3) fresh]
  have "s \<in> snd ` set (map ?rec cmds) \<longleftrightarrow>
      (\<exists>c \<in> set cmds. \<exists>t. ml_transcripts log c = Some t \<and> lt_scope t = s)" for s
    using ready by (force simp: image_iff)
  then show ?thesis
    using act fresh_handle_notin [OF fresh] by (auto simp: activated_log_def comp_def)
qed

theorem log_activate_ready_witness:
  "\<exists>h log'. log_activate_bundle demo_commands demo_closed = Some (Inr (Activated h), log')
     \<and> h \<notin> ml_handles demo_closed"
proof -
  have "\<exists>h log'. log_activate_bundle demo_commands demo_closed = Some (Inr (Activated h), log')
     \<and> h \<notin> ml_handles demo_closed \<and> ml_activations log' h = Some (sort demo_commands)
     \<and> (\<forall>s. ml_current log' s =
          (if \<exists>c \<in> set demo_commands. \<exists>t. ml_transcripts demo_closed c = Some t \<and> lt_scope t = s
           then Some h else ml_current demo_closed s))"
    by (rule log_activate_ready [OF demo_closed_reachable])
       (simp_all add: demo_commands_def demo_closed_transcripts demo_closed_rest)
  then show ?thesis by blast
qed

text \<open>
  C38. An activation is replayed exactly: once a bundle has activated, asking for it again, in
  any order and after any further steps, returns the same handle and leaves the log alone.
\<close>

theorem log_activation_replay:
  assumes "log_reachable log" "ml_activations log h = Some cs" "log_steps log log'"
    and "mset cmds = mset cs"
  shows "log_activate_bundle cmds log' = Some (Inr (Activated h), log')"
proof -
  from assms have reach: "log_reachable log'" and ext: "log_extends log log'"
    by (auto intro: rtranclp_trans log_steps_extends reachable_inv)
  from ext assms(2) have cs: "ml_activations log' h = Some cs"
    by (auto simp: log_extends_def map_le_def dom_def)
  have cs_inv: "activation_inv log' h cs" by (rule log_invD(3) [OF reachable_inv [OF reach] cs])
  let ?scope = "\<lambda>c. map_option lt_scope (ml_transcripts log' c)"
  have scan: "bundle_scan log' cmds seen ss [] replay =
      Inr ([], if cmds = [] then replay else Some h)"
    if "replay \<in> {None, Some h}" "distinct cmds" "set cmds \<subseteq> set cs" "set cmds \<inter> seen = {}"
      "distinct (map ?scope cmds)" "?scope ` set cmds \<inter> Some ` ss = {}" for cmds seen ss replay
    using that
  proof (induction cmds arbitrary: seen ss replay)
    case (Cons c cmds)
    then obtain t where t: "ml_transcripts log' c = Some t" "lt_terminal t = Some (Activated h)"
      using cs_inv by (auto simp: activation_inv_def)
    have "bundle_scan log' cmds (insert c seen) (insert (lt_scope t) ss) [] (Some h) =
        Inr ([], if cmds = [] then Some h else Some h)"
      using Cons.prems t by (intro Cons.IH) auto
    with Cons.prems t show ?case by auto
  qed simp
  have cmds: "cmds \<noteq> []" "distinct cmds" "set cmds = set cs" "sort cmds = cs"
    "distinct (map ?scope cmds)"
    using assms(4) cs_inv mset_eq_imp_distinct_iff [OF assms(4)] mset_eq_setD [OF assms(4)]
      mset_eq_imp_distinct_iff [of "map ?scope cmds" "map ?scope cs"]
    by (auto simp: activation_inv_def properties_for_sort)
  with scan [of None cmds "{}" "{}"] cs show ?thesis by (simp add: log_activate_bundle_def)
qed

theorem log_activation_replay_witness:
  "\<exists>h. log_activate_bundle demo_commands demo_activated = Some (Inr (Activated h), demo_activated)"
proof -
  obtain h n where act: "demo_activated =
      activated_log [(Ident 11, Ident 2), (Ident 10, Ident 1)] h n demo_closed"
    by (rule demo_activated_eq)
  have "ml_activations demo_activated h = Some [Ident 10, Ident 11]"
    by (rule demo_activated_entries(3) [OF act])
  from log_activation_replay [OF demo_activated_reachable this rtranclp.rtrancl_refl, of demo_commands]
  show ?thesis by (simp add: demo_commands_def)
qed

text \<open>
  C34. A losing candidate is frozen out: once a command has activated on a scope, every other
  command on that scope with the same predecessor can never again post, advance a phase or
  activate, whatever steps follow.
\<close>

theorem log_stale_frozen:
  assumes "log_reachable log"
    and won: "ml_transcripts log c = Some t" "lt_terminal t = Some (Activated h)"
    and lost: "ml_transcripts log c' = Some t'" "c' \<noteq> c"
      "lt_scope t' = lt_scope t" "lt_predecessor t' = lt_predecessor t"
    and later: "log_steps log log'"
  shows "\<exists>u. ml_transcripts log' c' = Some u \<and> lt_posts u = lt_posts t'
     \<and> lt_next_phase u = lt_next_phase t' \<and> (\<forall>k. lt_terminal u \<noteq> Some (Activated k))"
proof -
  have "\<exists>u. ml_transcripts log' c' = Some u \<and> lt_posts u = lt_posts t'
      \<and> lt_next_phase u = lt_next_phase t' \<and> lt_scope u = lt_scope t
      \<and> lt_predecessor u = lt_predecessor t" (is "?frozen log'")
    using later
  proof (induction rule: rtranclp_induct)
    case (step l l')
    then obtain u where u: "ml_transcripts l c' = Some u" "lt_posts u = lt_posts t'"
      "lt_next_phase u = lt_next_phase t'" "lt_scope u = lt_scope t"
      "lt_predecessor u = lt_predecessor t" by blast
    from log_steps_extends [OF step(1) reachable_inv [OF assms(1)]] won obtain v where v:
      "ml_transcripts l c = Some v" "lt_terminal v = Some (Activated h)"
      "lt_scope v = lt_scope t" "lt_predecessor v = lt_predecessor t"
      by (rule log_extends_decided)
    from log_invD(2) [OF log_steps_inv [OF step(1) reachable_inv [OF assms(1)]] v(1)] v(2-)
    have "ml_current l (lt_scope u) \<noteq> Some (lt_predecessor u)"
      by (simp add: transcript_inv_def u)
    from stale_step [OF step(2) u(1) this] u show ?case by metis
  qed (use lost in blast)
  then obtain u where u: "ml_transcripts log' c' = Some u" "lt_posts u = lt_posts t'"
    "lt_next_phase u = lt_next_phase t'" "lt_scope u = lt_scope t"
    "lt_predecessor u = lt_predecessor t" by blast
  from log_steps_extends [OF later reachable_inv [OF assms(1)]] won obtain v where v:
    "ml_transcripts log' c = Some v" "lt_terminal v = Some (Activated h)"
    "lt_scope v = lt_scope t" "lt_predecessor v = lt_predecessor t"
    by (rule log_extends_decided)
  have "single_successors log'"
    by (rule log_invD(4) [OF log_steps_inv [OF later reachable_inv [OF assms(1)]]])
  with u v lost(2) have "lt_terminal u \<noteq> Some (Activated k)" for k
    unfolding single_successors_def by metis
  with u show ?thesis by blast
qed

theorem log_stale_frozen_witness:
  "\<nexists>log' u k. log_steps demo_activated log' \<and> ml_transcripts log' (Ident 12) = Some u
     \<and> lt_terminal u = Some (Activated k)"
proof -
  obtain h n where act: "demo_activated =
      activated_log [(Ident 11, Ident 2), (Ident 10, Ident 1)] h n demo_closed"
    by (rule demo_activated_eq)
  let ?t = "\<lparr>lt_scope = Ident 1, lt_predecessor = Ident 70, lt_parameters = [0],
    lt_posts = Map.empty, lt_next_phase = None, lt_terminal = Some (Activated h)\<rparr>"
  have t: "ml_transcripts demo_activated (Ident 10) = Some ?t"
    by (rule demo_activated_entries(1) [OF act])
  note t' = demo_activated_entries(2) [OF act, unfolded demo_closed_transcripts]
  show ?thesis
    using log_stale_frozen [OF demo_activated_reachable t _ t'] by fastforce
qed

end
