(* ===== verification/Ksnf_Exposure.thy ===== *)
theory Ksnf_Exposure
  imports Ksnf_Types "HOL-Library.Product_Lexorder"
begin

text \<open>
  The audit ledger for the joint corruption restriction (\<open>src/exposure.rs\<close>): member blocks,
  activated epochs and the exposed candidates, and the audit of condition (1).
\<close>

section \<open>Block specifications\<close>

record member_block_spec =
  mbs_block :: block_id
  mbs_person :: person_id
  mbs_threshold :: u16
  mbs_devices :: "device_id set"

definition member_block_spec_new ::
  "block_id \<Rightarrow> person_id \<Rightarrow> u16 \<Rightarrow> device_id list \<Rightarrow> member_block_spec result" where
  "member_block_spec_new block person threshold devices =
     (if card (set devices) \<noteq> length devices then Inl DuplicateParticipant
      else if threshold = 0 \<or> card (set devices) < unat threshold then Inl SupportMismatch
      else Inr \<lparr>mbs_block = block, mbs_person = person, mbs_threshold = threshold,
                mbs_devices = set devices\<rparr>)"

record target_group =
  tg_person :: person_id
  tg_threshold :: u16
  tg_devices :: "device_id set"

definition target_group_new :: "person_id \<Rightarrow> u16 \<Rightarrow> device_id list \<Rightarrow> target_group result" where
  "target_group_new person threshold devices =
     (if card (set devices) \<noteq> length devices then Inl DuplicateParticipant
      else if threshold = 0 \<or> card (set devices) < unat threshold then Inl SupportMismatch
      else Inr \<lparr>tg_person = person, tg_threshold = threshold, tg_devices = set devices\<rparr>)"

datatype exposure_violation =
  ActivatedEpochViolation vault_id outer_epoch nat nat
| OuterCandidateViolation command_id nat nat
| MemberCandidateViolation command_id person_id

section \<open>The ledger\<close>

record member_block =
  mb_person :: person_id
  mb_threshold :: u16
  mb_devices :: "device_id set"
  mb_revealed :: "device_id set"

definition block_controlled :: "member_block \<Rightarrow> bool" where
  "block_controlled b \<longleftrightarrow> unat (mb_threshold b) \<le> card (mb_revealed b)"

record epoch_record =
  er_threshold :: u16
  er_people :: "(person_id \<times> block_id) list"

record outer_candidate =
  oc_command :: command_id
  oc_threshold :: u16
  oc_controlled :: nat

record member_candidate =
  mc_command :: command_id
  mc_person :: person_id
  mc_source_controlled :: bool
  mc_target_controlled :: bool

record exposure_ledger =
  el_corrupt :: "device_id set"
  el_blocks :: "block_id \<Rightarrow> member_block option"
  el_epochs :: "((vault_id \<times> outer_epoch) \<times> epoch_record) list"
  el_outer :: "outer_candidate list"
  el_member :: "member_candidate list"

definition ledger_new :: "device_id list \<Rightarrow> exposure_ledger" where
  "ledger_new corrupt = \<lparr>el_corrupt = set corrupt, el_blocks = Map.empty, el_epochs = [],
     el_outer = [], el_member = []\<rparr>"

text \<open>The loop of \<open>register_epoch\<close>: the people and the pending blocks so far.\<close>

fun register_specs ::
  "exposure_ledger \<Rightarrow> (person_id \<times> block_id) list \<Rightarrow> (block_id \<times> member_block) list
     \<Rightarrow> member_block_spec list
     \<Rightarrow> ((person_id \<times> block_id) list \<times> (block_id \<times> member_block) list) result" where
  "register_specs led people pending [] = Inr (people, pending)"
| "register_specs led people pending (spec # specs) =
     (if mbs_person spec \<in> fst ` set people \<or> el_blocks led (mbs_block spec) \<noteq> None
         \<or> mbs_block spec \<in> fst ` set pending
      then Inl DuplicateParticipant
      else register_specs led (bt_insert (mbs_person spec) (mbs_block spec) people)
             (pending @ [(mbs_block spec,
                \<lparr>mb_person = mbs_person spec, mb_threshold = mbs_threshold spec,
                 mb_devices = mbs_devices spec,
                 mb_revealed = mbs_devices spec \<inter> el_corrupt led\<rparr>)]) specs)"

definition insert_blocks ::
  "(block_id \<times> member_block) list \<Rightarrow> (block_id \<Rightarrow> member_block option)
     \<Rightarrow> (block_id \<Rightarrow> member_block option)" where
  "insert_blocks pending blocks = fold (\<lambda>(b, r) m. m(b \<mapsto> r)) pending blocks"

definition register_epoch ::
  "vault_id \<Rightarrow> outer_epoch \<Rightarrow> u16 \<Rightarrow> member_block_spec list \<Rightarrow> exposure_ledger
     \<Rightarrow> unit result \<times> exposure_ledger" where
  "register_epoch vault epoch threshold specs led =
     (if threshold = 0 \<or> length specs < unat threshold then (Inl SupportMismatch, led)
      else if (vault, epoch) \<in> fst ` set (el_epochs led) then (Inl ReplayMismatch, led)
      else case register_specs led [] [] specs of
        Inl e \<Rightarrow> (Inl e, led)
      | Inr (people, pending) \<Rightarrow>
          (Inr (), led\<lparr>el_blocks := insert_blocks pending (el_blocks led),
             el_epochs := bt_insert (vault, epoch)
               \<lparr>er_threshold = threshold, er_people = people\<rparr> (el_epochs led)\<rparr>))"

definition ledger_reveal ::
  "block_id \<Rightarrow> device_id \<Rightarrow> exposure_ledger \<Rightarrow> unit result \<times> exposure_ledger" where
  "ledger_reveal block recipient led =
     (case el_blocks led block of
        None \<Rightarrow> (Inl ParticipantNotFound, led)
      | Some b \<Rightarrow>
          if recipient \<notin> mb_devices b then (Inl ParticipantNotFound, led)
          else (Inr (), led\<lparr>el_blocks := (el_blocks led)(block \<mapsto>
                  b\<lparr>mb_revealed := insert recipient (mb_revealed b)\<rparr>)\<rparr>))"

definition corrupt_count :: "exposure_ledger \<Rightarrow> target_group \<Rightarrow> nat" where
  "corrupt_count led target = card (tg_devices target \<inter> el_corrupt led)"

definition candidate_exists :: "exposure_ledger \<Rightarrow> command_id \<Rightarrow> bool" where
  "candidate_exists led command \<longleftrightarrow>
     list_ex (\<lambda>c. oc_command c = command) (el_outer led)
     \<or> list_ex (\<lambda>c. mc_command c = command) (el_member led)"

definition group_controlled :: "exposure_ledger \<Rightarrow> target_group \<Rightarrow> bool" where
  "group_controlled led target \<longleftrightarrow> unat (tg_threshold target) \<le> corrupt_count led target"

definition expose_outer_candidate ::
  "command_id \<Rightarrow> u16 \<Rightarrow> target_group list \<Rightarrow> exposure_ledger \<Rightarrow> unit result \<times> exposure_ledger"
  where
  "expose_outer_candidate command threshold targets led =
     (if threshold = 0 \<or> length targets < unat threshold then (Inl SupportMismatch, led)
      else if candidate_exists led command then (Inl ReplayMismatch, led)
      else if card (set (map tg_person targets)) \<noteq> length targets
        then (Inl DuplicateParticipant, led)
      else (Inr (), led\<lparr>el_outer := el_outer led @
             [\<lparr>oc_command = command, oc_threshold = threshold,
               oc_controlled = length (filter (group_controlled led) targets)\<rparr>]\<rparr>))"

definition expose_member_candidate ::
  "command_id \<Rightarrow> block_id \<Rightarrow> target_group \<Rightarrow> exposure_ledger \<Rightarrow> unit result \<times> exposure_ledger"
  where
  "expose_member_candidate command source target led =
     (if candidate_exists led command then (Inl ReplayMismatch, led)
      else case el_blocks led source of
        None \<Rightarrow> (Inl ParticipantNotFound, led)
      | Some b \<Rightarrow>
          if mb_person b \<noteq> tg_person target then (Inl ParticipantMismatch, led)
          else (Inr (), led\<lparr>el_member := el_member led @
                 [\<lparr>mc_command = command, mc_person = tg_person target,
                   mc_source_controlled = block_controlled b,
                   mc_target_controlled = group_controlled led target\<rparr>]\<rparr>))"

definition block_is_controlled :: "exposure_ledger \<Rightarrow> block_id \<Rightarrow> bool" where
  "block_is_controlled led block \<longleftrightarrow>
     (case el_blocks led block of None \<Rightarrow> False | Some b \<Rightarrow> block_controlled b)"

definition epoch_violations ::
  "exposure_ledger \<Rightarrow> (vault_id \<times> outer_epoch) \<times> epoch_record \<Rightarrow> exposure_violation list" where
  "epoch_violations led entry =
     (case entry of ((vault, epoch), record) \<Rightarrow>
        let controlled = length (filter (block_is_controlled led) (map snd (er_people record)));
            limit = unat (er_threshold record) - 1
        in if limit < controlled then [ActivatedEpochViolation vault epoch controlled limit]
           else [])"

definition outer_violations :: "outer_candidate \<Rightarrow> exposure_violation list" where
  "outer_violations c =
     (let limit = unat (oc_threshold c) - 1 in
      if limit < oc_controlled c
      then [OuterCandidateViolation (oc_command c) (oc_controlled c) limit] else [])"

definition member_violations :: "member_candidate \<Rightarrow> exposure_violation list" where
  "member_violations c =
     (if \<not> mc_source_controlled c \<and> mc_target_controlled c
      then [MemberCandidateViolation (mc_command c) (mc_person c)] else [])"

definition ledger_audit :: "exposure_ledger \<Rightarrow> exposure_violation list" where
  "ledger_audit led =
     concat (map (epoch_violations led) (el_epochs led))
     @ concat (map outer_violations (el_outer led))
     @ concat (map member_violations (el_member led))"

section \<open>Runs of the ledger\<close>

inductive ledger_step :: "exposure_ledger \<Rightarrow> exposure_ledger \<Rightarrow> bool" where
  ledger_register: "register_epoch v e t specs led = (r, led') \<Longrightarrow>
    list_all (\<lambda>s. \<exists>ds. member_block_spec_new (mbs_block s) (mbs_person s) (mbs_threshold s) ds
       = Inr s) specs \<Longrightarrow> ledger_step led led'"
| ledger_reveals: "ledger_reveal b d led = (r, led') \<Longrightarrow> ledger_step led led'"
| ledger_outer: "expose_outer_candidate c t ts led = (r, led') \<Longrightarrow> ledger_step led led'"
| ledger_member: "expose_member_candidate c b t led = (r, led') \<Longrightarrow> ledger_step led led'"

inductive_cases ledger_stepE: "ledger_step led led'"

abbreviation ledger_steps :: "exposure_ledger \<Rightarrow> exposure_ledger \<Rightarrow> bool" where
  "ledger_steps \<equiv> ledger_step\<^sup>*\<^sup>*"

text \<open>
  The invariant of a block, an epoch and the ledger: corrupt recipients are revealed from the
  start, only the block's own devices are, thresholds are positive, and an epoch lists each
  person once, in order, over registered blocks of that person.
\<close>

definition block_inv :: "device_id set \<Rightarrow> member_block \<Rightarrow> bool" where
  "block_inv corrupt b \<longleftrightarrow> finite (mb_devices b) \<and> 0 < mb_threshold b
     \<and> unat (mb_threshold b) \<le> card (mb_devices b)
     \<and> mb_devices b \<inter> corrupt \<subseteq> mb_revealed b \<and> mb_revealed b \<subseteq> mb_devices b"

definition epoch_inv :: "exposure_ledger \<Rightarrow> epoch_record \<Rightarrow> bool" where
  "epoch_inv led r \<longleftrightarrow> 0 < er_threshold r \<and> unat (er_threshold r) \<le> length (er_people r)
     \<and> bt_sorted (er_people r) \<and> distinct (map snd (er_people r))
     \<and> (\<forall>(p, b) \<in> set (er_people r). \<exists>m. el_blocks led b = Some m \<and> mb_person m = p)"

definition ledger_inv :: "exposure_ledger \<Rightarrow> bool" where
  "ledger_inv led \<longleftrightarrow> finite (el_corrupt led)
     \<and> (\<forall>b m. el_blocks led b = Some m \<longrightarrow> block_inv (el_corrupt led) m)
     \<and> bt_sorted (el_epochs led) \<and> (\<forall>(k, r) \<in> set (el_epochs led). epoch_inv led r)
     \<and> (\<forall>c \<in> set (el_outer led). 0 < oc_threshold c)
     \<and> distinct (map oc_command (el_outer led) @ map mc_command (el_member led))"

end
