(* ===== verification/Ksnf_Exposure_Claims.thy ===== *)
theory Ksnf_Exposure_Claims
  imports Ksnf_Exposure_Proofs
begin

text \<open>
  What the audit decides: an empty report is exactly condition (1) of the paper, a candidate's
  report counts the controlled target people, and no reported violation is ever withdrawn.
\<close>

section \<open>Condition (1)\<close>

definition controlled_people :: "exposure_ledger \<Rightarrow> epoch_record \<Rightarrow> person_id set" where
  "controlled_people led r = {p. \<exists>b m. (p, b) \<in> set (er_people r) \<and> el_blocks led b = Some m
     \<and> unat (mb_threshold m) \<le> card (mb_revealed m)}"

definition condition_one :: "exposure_ledger \<Rightarrow> bool" where
  "condition_one led \<longleftrightarrow>
     (\<forall>(k, r) \<in> set (el_epochs led). card (controlled_people led r) < unat (er_threshold r))
     \<and> (\<forall>c \<in> set (el_outer led). oc_controlled c < unat (oc_threshold c))
     \<and> (\<forall>c \<in> set (el_member led). mc_target_controlled c \<longrightarrow> mc_source_controlled c)"

lemma count_by_key:
  "distinct (map fst xs) \<Longrightarrow>
     length (filter P (map snd xs)) = card {p. \<exists>b. (p, b) \<in> set xs \<and> P b}"
proof -
  assume dist: "distinct (map fst xs)"
  let ?ys = "filter (\<lambda>x. P (snd x)) xs"
  have "{p. \<exists>b. (p, b) \<in> set xs \<and> P b} = set (map fst ?ys)" by force
  moreover have "distinct (map fst ?ys)" using dist by (simp add: distinct_map_filter)
  ultimately show ?thesis
    using distinct_card [of "map fst ?ys"] by (simp add: filter_map comp_def)
qed

lemma epoch_count:
  assumes "epoch_inv led r"
  shows "length (filter (block_is_controlled led \<circ> snd) (er_people r)) =
    card (controlled_people led r)"
proof -
  have "distinct (map fst (er_people r))"
    using assms by (simp add: epoch_inv_def strict_sorted_iff)
  from count_by_key [OF this] have "length (filter (block_is_controlled led \<circ> snd) (er_people r)) =
      card {p. \<exists>b. (p, b) \<in> set (er_people r) \<and> block_is_controlled led b}"
    by (simp add: filter_map)
  then show ?thesis
    by (auto simp: controlled_people_def block_is_controlled_def block_controlled_def
        split: option.splits intro!: arg_cong [of _ _ card])
qed

lemma word_pos_unat: "0 < (w :: u16) \<Longrightarrow> 0 < unat w"
  by (simp add: word_less_nat_alt)

lemma epoch_violations_eq:
  assumes "epoch_inv led r"
  shows "epoch_violations led ((v, e), r) =
    (if unat (er_threshold r) \<le> card (controlled_people led r)
     then [ActivatedEpochViolation v e (card (controlled_people led r)) (unat (er_threshold r) - 1)]
     else [])"
  using word_pos_unat [of "er_threshold r"] assms
  by (auto simp: epoch_violations_def epoch_count [OF assms] Let_def epoch_inv_def)

lemma set_ledger_audit:
  "v \<in> set (ledger_audit led) \<longleftrightarrow>
     (\<exists>x \<in> set (el_epochs led). v \<in> set (epoch_violations led x))
     \<or> (\<exists>c \<in> set (el_outer led). v \<in> set (outer_violations c))
     \<or> (\<exists>c \<in> set (el_member led). v \<in> set (member_violations c))"
  by (auto simp: ledger_audit_def)

lemma controlled_people_mono:
  assumes "ledger_inv led'" "ledger_extends led led'"
  shows "controlled_people led r \<subseteq> controlled_people led' r"
proof
  fix p
  assume "p \<in> controlled_people led r"
  then obtain b m where b: "(p, b) \<in> set (er_people r)" "el_blocks led b = Some m"
    "unat (mb_threshold m) \<le> card (mb_revealed m)" by (auto simp: controlled_people_def)
  with assms(2) obtain m' where m': "el_blocks led' b = Some m'" "mb_threshold m' = mb_threshold m"
    "mb_revealed m \<subseteq> mb_revealed m'" unfolding ledger_extends_def by blast
  with assms(1) have "finite (mb_revealed m')"
    by (meson block_inv_def finite_subset ledger_inv_def)
  with m' have "card (mb_revealed m) \<le> card (mb_revealed m')" by (intro card_mono)
  with b m' show "p \<in> controlled_people led' r" by (auto simp: controlled_people_def)
qed

lemma controlled_people_finite: "finite (controlled_people led r)"
proof (rule finite_subset)
  show "controlled_people led r \<subseteq> fst ` set (er_people r)"
    by (force simp: controlled_people_def)
qed simp

text \<open>The later report of a violation: the same clause, of at least the same size.\<close>

fun violation_kept :: "exposure_violation \<Rightarrow> exposure_violation \<Rightarrow> bool" where
  "violation_kept (ActivatedEpochViolation v e n k) (ActivatedEpochViolation v' e' n' k') \<longleftrightarrow>
     v = v' \<and> e = e' \<and> k = k' \<and> n \<le> n'"
| "violation_kept x y \<longleftrightarrow> x = y"

section \<open>A concrete run\<close>

definition demo_spec :: "block_id \<Rightarrow> person_id \<Rightarrow> device_id list \<Rightarrow> member_block_spec" where
  "demo_spec b p ds = \<lparr>mbs_block = b, mbs_person = p, mbs_threshold = 2, mbs_devices = set ds\<rparr>"

definition demo_registered :: exposure_ledger where
  "demo_registered = snd (register_epoch (Ident 1) 0 1
     [demo_spec (Ident 50) (Ident 5) [Ident 20, Ident 21]] (ledger_new [Ident 20]))"

definition demo_exposed :: exposure_ledger where
  "demo_exposed = snd (ledger_reveal (Ident 50) (Ident 21) demo_registered)"

definition demo_group :: "person_id \<Rightarrow> device_id list \<Rightarrow> target_group" where
  "demo_group p ds = \<lparr>tg_person = p, tg_threshold = 1, tg_devices = set ds\<rparr>"

lemma demo_registered_steps: "ledger_steps (ledger_new [Ident 20]) demo_registered"
proof -
  have "member_block_spec_new (Ident 50) (Ident 5) 2 [Ident 20, Ident 21] =
      Inr (demo_spec (Ident 50) (Ident 5) [Ident 20, Ident 21])"
    by (simp add: member_block_spec_new_def demo_spec_def)
  then show ?thesis
    unfolding demo_registered_def
    by (intro r_into_rtranclp ledger_register [OF prod.collapse [symmetric]])
       (auto simp: demo_spec_def)
qed

lemma demo_exposed_steps: "ledger_steps demo_registered demo_exposed"
  unfolding demo_exposed_def
  by (intro r_into_rtranclp ledger_reveals [OF prod.collapse [symmetric]])

lemma demo_exposed_reachable: "ledger_steps (ledger_new [Ident 20]) demo_exposed"
  using demo_registered_steps demo_exposed_steps by (rule rtranclp_trans)

lemmas demo_exposure_eval = demo_exposed_def demo_registered_def register_epoch_def demo_spec_def
  ledger_new_def insert_blocks_def ledger_reveal_def

lemma demo_exposed_audit: "ledger_audit demo_exposed = [ActivatedEpochViolation (Ident 1) 0 1 0]"
  by (simp add: ledger_audit_def demo_exposure_eval epoch_violations_def block_is_controlled_def
      block_controlled_def insert_commute)

text \<open>
  A second run, over two people with a corrupt device each: revealing the first person's other
  device violates the epoch, revealing the second person's raises the count.
\<close>

definition demo_pair_epoch :: exposure_ledger where
  "demo_pair_epoch = snd (register_epoch (Ident 1) 0 1
     [demo_spec (Ident 50) (Ident 5) [Ident 20, Ident 21],
      demo_spec (Ident 51) (Ident 6) [Ident 22, Ident 23]] (ledger_new [Ident 20, Ident 22]))"

definition demo_pair :: exposure_ledger where
  "demo_pair = snd (ledger_reveal (Ident 50) (Ident 21) demo_pair_epoch)"

definition demo_pair_later :: exposure_ledger where
  "demo_pair_later = snd (ledger_reveal (Ident 51) (Ident 23) demo_pair)"

lemma demo_pair_reachable: "ledger_steps (ledger_new [Ident 20, Ident 22]) demo_pair"
proof -
  have specs: "member_block_spec_new (Ident 50) (Ident 5) 2 [Ident 20, Ident 21] =
      Inr (demo_spec (Ident 50) (Ident 5) [Ident 20, Ident 21])"
    "member_block_spec_new (Ident 51) (Ident 6) 2 [Ident 22, Ident 23] =
      Inr (demo_spec (Ident 51) (Ident 6) [Ident 22, Ident 23])"
    by (simp_all add: member_block_spec_new_def demo_spec_def)
  then have "ledger_step (ledger_new [Ident 20, Ident 22]) demo_pair_epoch"
    unfolding demo_pair_epoch_def
    by (intro ledger_register [OF prod.collapse [symmetric]]) (auto simp: demo_spec_def)
  moreover have "ledger_step demo_pair_epoch demo_pair"
    unfolding demo_pair_def by (intro ledger_reveals [OF prod.collapse [symmetric]])
  ultimately show ?thesis by (meson converse_rtranclp_into_rtranclp r_into_rtranclp)
qed

lemma demo_pair_later_steps: "ledger_steps demo_pair demo_pair_later"
  unfolding demo_pair_later_def
  by (intro r_into_rtranclp ledger_reveals [OF prod.collapse [symmetric]])

lemmas demo_pair_eval = demo_pair_epoch_def demo_pair_def demo_pair_later_def demo_exposure_eval

lemma demo_pair_audit: "ledger_audit demo_pair = [ActivatedEpochViolation (Ident 1) 0 1 0]"
  by (simp add: ledger_audit_def demo_pair_eval epoch_violations_def block_is_controlled_def
      block_controlled_def insert_commute)

lemma demo_pair_later_audit: "ledger_audit demo_pair_later = [ActivatedEpochViolation (Ident 1) 0 2 0]"
  by (simp add: ledger_audit_def demo_pair_eval epoch_violations_def block_is_controlled_def
      block_controlled_def insert_commute)

section \<open>Claims\<close>

text \<open>
  C16. The audit decides condition (1): on every ledger the operations reach, the report is empty
  exactly when each activated epoch has fewer controlled people than its outer threshold, each
  exposed outer candidate had fewer controlled targets than its own, and no uncontrolled source
  member was exposed to a controlled target group.
\<close>

theorem exposure_audit_exact:
  assumes "ledger_steps (ledger_new corrupt) led"
  shows "ledger_audit led = [] \<longleftrightarrow> condition_one led"
proof -
  have inv: "ledger_inv led" by (rule ledger_reachable_inv [OF assms])
  have "epoch_violations led x = [] \<longleftrightarrow>
      card (controlled_people led (snd x)) < unat (er_threshold (snd x))"
    if "x \<in> set (el_epochs led)" for x
  proof -
    obtain v e r where x: "x = ((v, e), r)" by (metis prod.collapse)
    with that inv have "epoch_inv led r" by (auto simp: ledger_inv_def)
    with x show ?thesis by (simp add: epoch_violations_eq)
  qed
  moreover have "outer_violations c = [] \<longleftrightarrow> oc_controlled c < unat (oc_threshold c)"
    if "c \<in> set (el_outer led)" for c
    using that inv word_pos_unat [of "oc_threshold c"]
    by (auto simp: ledger_inv_def outer_violations_def Let_def)
  ultimately show ?thesis
    by (auto simp: ledger_audit_def condition_one_def member_violations_def)
qed

theorem exposure_audit_exact_witness: "\<not> condition_one demo_exposed"
  using exposure_audit_exact [OF demo_exposed_reachable] demo_exposed_audit by simp

text \<open>
  C37. Violations are permanent: whatever a reachable ledger reports, every later ledger still
  reports, with the same vault, epoch and limit and at least as many controlled people.
\<close>

theorem exposure_violations_permanent:
  assumes "ledger_steps (ledger_new corrupt) led" "ledger_steps led led'"
    and "v \<in> set (ledger_audit led)"
  shows "\<exists>v' \<in> set (ledger_audit led'). violation_kept v v'"
proof -
  have inv: "ledger_inv led" by (rule ledger_reachable_inv [OF assms(1)])
  have inv': "ledger_inv led'" by (rule ledger_inv_steps [OF assms(2) inv])
  have ext: "ledger_extends led led'" by (rule ledger_steps_extends [OF assms(2)])
  from assms(3) consider
    (epoch) k r where "(k, r) \<in> set (el_epochs led)" "v \<in> set (epoch_violations led (k, r))"
  | (outer) c where "c \<in> set (el_outer led)" "v \<in> set (outer_violations c)"
  | (member) c where "c \<in> set (el_member led)" "v \<in> set (member_violations c)"
    by (auto simp: set_ledger_audit)
  then show ?thesis
  proof cases
    case epoch
    obtain vt ep where k: "k = (vt, ep)" by (cases k)
    from epoch(1) ext have kr: "(k, r) \<in> set (el_epochs led')" by (auto simp: ledger_extends_def)
    from epoch(1) inv have r: "epoch_inv led r" by (auto simp: ledger_inv_def)
    from kr inv' have r': "epoch_inv led' r" by (auto simp: ledger_inv_def)
    have "card (controlled_people led r) \<le> card (controlled_people led' r)"
      by (intro card_mono controlled_people_finite controlled_people_mono inv' ext)
    with epoch(2) have "\<exists>v' \<in> set (epoch_violations led' (k, r)). violation_kept v v'"
      by (auto simp: k epoch_violations_eq [OF r] epoch_violations_eq [OF r'] split: if_splits)
    with kr show ?thesis unfolding Bex_def set_ledger_audit by blast
  next
    case outer
    then have "violation_kept v v"
      by (cases v) (auto simp: outer_violations_def Let_def split: if_splits)
    moreover have "c \<in> set (el_outer led')"
      using outer(1) ext by (auto simp: ledger_extends_def dest: set_mono_prefix)
    ultimately show ?thesis using outer(2) unfolding Bex_def set_ledger_audit by blast
  next
    case member
    then have "violation_kept v v"
      by (cases v) (auto simp: member_violations_def split: if_splits)
    moreover have "c \<in> set (el_member led')"
      using member(1) ext by (auto simp: ledger_extends_def dest: set_mono_prefix)
    ultimately show ?thesis using member(2) unfolding Bex_def set_ledger_audit by blast
  qed
qed

theorem exposure_violations_permanent_witness:
  "fst (ledger_reveal (Ident 51) (Ident 23) demo_pair) = Inr ()
   \<and> ledger_audit demo_pair_later = [ActivatedEpochViolation (Ident 1) 0 2 0]
   \<and> (\<exists>v' \<in> set (ledger_audit demo_pair_later).
        violation_kept (ActivatedEpochViolation (Ident 1) 0 1 0) v')"
proof (intro conjI)
  show "fst (ledger_reveal (Ident 51) (Ident 23) demo_pair) = Inr ()"
    by (simp add: demo_pair_eval)
  show "ledger_audit demo_pair_later = [ActivatedEpochViolation (Ident 1) 0 2 0]"
    by (rule demo_pair_later_audit)
  have "ActivatedEpochViolation (Ident 1) 0 1 0 \<in> set (ledger_audit demo_pair)"
    by (simp add: demo_pair_audit)
  with exposure_violations_permanent [OF demo_pair_reachable demo_pair_later_steps]
  show "\<exists>v' \<in> set (ledger_audit demo_pair_later).
      violation_kept (ActivatedEpochViolation (Ident 1) 0 1 0) v'" by blast
qed

text \<open>
  Exposing an outer candidate counts controlled target people: after a successful exposure
  the audit gains a violation of that command exactly when the targets whose corrupt devices
  reach their own threshold are at least as many as the candidate's threshold, and everything
  else it reports is as before.
\<close>

theorem exposure_outer_candidate_counted:
  assumes "expose_outer_candidate c t targets led = (Inr (), led')"
  defines "n \<equiv> card {p. \<exists>g \<in> set targets. tg_person g = p
      \<and> unat (tg_threshold g) \<le> card (tg_devices g \<inter> el_corrupt led)}"
  shows "set (ledger_audit led') = set (ledger_audit led) \<union>
    (if unat t \<le> n then {OuterCandidateViolation c n (unat t - 1)} else {})"
proof -
  from assms(1) have t: "0 < unat t" and dist: "distinct (map tg_person targets)"
    and led': "led' = led\<lparr>el_outer := el_outer led @ [\<lparr>oc_command = c, oc_threshold = t,
       oc_controlled = length (filter (group_controlled led) targets)\<rparr>]\<rparr>"
    by (auto simp: expose_outer_candidate_def card_distinct unat_gt_0 split: if_splits)
  let ?gs = "filter (group_controlled led) targets"
  have "length ?gs = card (set (map tg_person ?gs))"
    using dist distinct_card [of "map tg_person ?gs"] by (simp add: distinct_map_filter)
  also have "set (map tg_person ?gs) = {p. \<exists>g \<in> set targets. tg_person g = p
      \<and> unat (tg_threshold g) \<le> card (tg_devices g \<inter> el_corrupt led)}"
    by (auto simp: group_controlled_def corrupt_count_def)
  finally have n: "length ?gs = n" by (simp add: n_def)
  have "block_is_controlled led' = block_is_controlled led"
    by (intro ext) (simp add: led' block_is_controlled_def)
  then have "epoch_violations led' = epoch_violations led"
    by (intro ext) (simp add: epoch_violations_def)
  with t n show ?thesis
    by (auto simp: set_ledger_audit led' outer_violations_def Let_def)
qed

theorem exposure_outer_candidate_counted_witness:
  "OuterCandidateViolation (Ident 9) 1 0 \<in> set (ledger_audit (snd (expose_outer_candidate (Ident 9) 1
     [demo_group (Ident 5) [Ident 20], demo_group (Ident 6) [Ident 22]] demo_registered)))"
proof -
  let ?gs = "[demo_group (Ident 5) [Ident 20], demo_group (Ident 6) [Ident 22]]"
  have corrupt: "el_corrupt demo_registered = {Ident 20}"
    by (simp add: demo_exposure_eval)
  have "expose_outer_candidate (Ident 9) 1 ?gs demo_registered =
      (Inr (), snd (expose_outer_candidate (Ident 9) 1 ?gs demo_registered))"
    by (simp add: expose_outer_candidate_def demo_group_def candidate_exists_def demo_exposure_eval)
  note counted = exposure_outer_candidate_counted [OF this]
  have "{p. \<exists>g \<in> set ?gs. tg_person g = p
      \<and> unat (tg_threshold g) \<le> card (tg_devices g \<inter> el_corrupt demo_registered)} = {Ident 5}"
    by (auto simp: demo_group_def corrupt)
  from counted [unfolded this] show ?thesis by simp
qed

end
