(* ===== verification/Ksnf_Profile.thy ===== *)
theory Ksnf_Profile
  imports Ksnf_Types
begin

text \<open>
  Protocol profiles (\<open>src/profile.rs\<close>), group elements and points (\<open>src/algebra.rs\<close>) and the
  hash front (\<open>src/hash.rs\<close>). The prime-order group and the hash functions come from crates
  that are not part of the repository: they are the fields of \<open>group_crate\<close> and the hash
  arguments of the two profiles, and \<open>group_ok\<close> states what their documentation promises.
\<close>

section \<open>The group crate\<close>

text \<open>The errors of \<open>frost_core::Group::deserialize\<close>.\<close>

datatype group_error =
  MalformedElement | InvalidIdentityElement | InvalidNonPrimeOrderElement

record ('s, 'g) group_crate =
  gc_generator :: 'g
  gc_smul :: "'s \<Rightarrow> 'g \<Rightarrow> 'g"
  gc_scalar_len :: nat
  gc_point_len :: nat
  gc_ser_scalar :: "'s \<Rightarrow> bytes"
  gc_deser_scalar :: "bytes \<Rightarrow> 's option"
  gc_enc_point :: "'g \<Rightarrow> bytes"
  gc_deser_point :: "bytes \<Rightarrow> group_error + 'g"
  gc_scalar_of_u64 :: "u64 \<Rightarrow> 's"

datatype hash_domain = DealDomain | MemberDomain | NonceDomain | BindDomain

record ('s, 'g) profile = "('s, 'g) group_crate" +
  pf_wire_id :: u8
  pf_protocol_id :: bytes
  pf_material_magic :: bytes
  pf_journal_magic :: bytes
  pf_signature_len :: nat
  pf_hash_to_scalar :: "hash_domain \<Rightarrow> bytes \<Rightarrow> 's result"
  pf_challenge :: "bytes \<Rightarrow> bytes \<Rightarrow> bytes \<Rightarrow> 's result"
  pf_encode_signature :: "bytes \<Rightarrow> bytes \<Rightarrow> bytes"
  pf_decode_signature :: "bytes \<Rightarrow> (bytes \<times> bytes) result"

section \<open>The two profiles\<close>

definition ascii_bytes :: "string \<Rightarrow> bytes" where
  "ascii_bytes s = map (\<lambda>c. word_of_nat (of_char c)) s"

text \<open>The two fixed-length splits of \<open>decode_signature\<close>.\<close>

definition split_signature :: "nat \<Rightarrow> nat \<Rightarrow> bytes \<Rightarrow> (bytes \<times> bytes) result" where
  "split_signature len at bs =
     (if length bs \<noteq> len then Inl LengthMismatch else Inr (take at bs, drop at bs))"

fun secp256k1_dst :: "hash_domain \<Rightarrow> bytes" where
  "secp256k1_dst DealDomain = ascii_bytes ''KSNF/v1/deal''"
| "secp256k1_dst MemberDomain = ascii_bytes ''KSNF/v1/member''"
| "secp256k1_dst NonceDomain = ascii_bytes ''KSNF/v1/nonce''"
| "secp256k1_dst BindDomain = ascii_bytes ''KSNF/v1/bind''"

definition secp256k1_challenge_preimage :: "bytes \<Rightarrow> bytes \<Rightarrow> bytes \<Rightarrow> bytes result" where
  "secp256k1_challenge_preimage nonce key message =
     (if 2 ^ 32 \<le> length message then Inl LengthOverflow
      else Inr ([1] @ nonce @ key @ be_bytes 4 (length message) @ message))"

text \<open>
  \<open>h2f message dst\<close> stands for \<open>hash_to_field\<close> of the hash-to-curve crate.
\<close>

definition secp256k1_profile ::
  "('s, 'g) group_crate \<Rightarrow> (bytes \<Rightarrow> bytes \<Rightarrow> 's option) \<Rightarrow> ('s, 'g) profile" where
  "secp256k1_profile crate h2f =
     group_crate.extend crate \<lparr>pf_wire_id = 1,
       pf_protocol_id = ascii_bytes ''coupery-ksnf/v1'',
       pf_material_magic = ascii_bytes ''KSNFMAT1'',
       pf_journal_magic = ascii_bytes ''KSNFJNL1'',
       pf_signature_len = 65,
       pf_hash_to_scalar = (\<lambda>domain message. ok_or HashToField (h2f message (secp256k1_dst domain))),
       pf_challenge = (\<lambda>nonce key message.
         and_then (secp256k1_challenge_preimage nonce key message)
           (\<lambda>preimage. ok_or HashToField (h2f preimage (ascii_bytes ''KSNF/v1/challenge'')))),
       pf_encode_signature = (\<lambda>nonce response. nonce @ response),
       pf_decode_signature = split_signature 65 33\<rparr>"

fun domain_tag :: "hash_domain \<Rightarrow> u8" where
  "domain_tag DealDomain = 1"
| "domain_tag MemberDomain = 2"
| "domain_tag NonceDomain = 3"
| "domain_tag BindDomain = 4"

definition ed25519_omega :: bytes where
  "ed25519_omega = [0xed] @ replicate 30 0xff @ [0x7f]"

definition ed25519_hash_preimage :: "hash_domain \<Rightarrow> bytes \<Rightarrow> bytes" where
  "ed25519_hash_preimage domain message =
     ed25519_omega @ [domain_tag domain] @ be_bytes 8 (length message) @ message"

text \<open>\<open>h2\<close> stands for \<open>Ed25519Sha512::H2\<close>.\<close>

definition ed25519_profile ::
  "('s, 'g) group_crate \<Rightarrow> (bytes \<Rightarrow> 's) \<Rightarrow> ('s, 'g) profile" where
  "ed25519_profile crate h2 =
     group_crate.extend crate \<lparr>pf_wire_id = 2,
       pf_protocol_id = ascii_bytes ''coupery-ksnf/ed25519/v1'',
       pf_material_magic = ascii_bytes ''KSNFE1M1'',
       pf_journal_magic = ascii_bytes ''KSNFE1J1'',
       pf_signature_len = 64,
       pf_hash_to_scalar = (\<lambda>domain message. Inr (h2 (ed25519_hash_preimage domain message))),
       pf_challenge = (\<lambda>nonce key message. Inr (h2 (nonce @ key @ message))),
       pf_encode_signature = (\<lambda>nonce response. nonce @ response),
       pf_decode_signature = split_signature 64 32\<rparr>"

section \<open>Elements and points\<close>

text \<open>
  \<open>Element\<close> is a raw group element, \<open>Point\<close> one that \<open>point_new\<close> has let through, and
  the keys and share points wrap them; all are the group element. \<open>SecretScalar\<close> is the
  scalar (clearing on drop has no functional effect).
\<close>

definition element_from_scalar :: "('s, 'g, 'z) profile_scheme \<Rightarrow> 's \<Rightarrow> 'g" where
  "element_from_scalar P s = gc_smul P s (gc_generator P)"

definition point_new :: "'g::zero \<Rightarrow> 'g result" where
  "point_new g = (if g = 0 then Inl IdentityPoint else Inr g)"

definition point_from_scalar :: "('s, 'g::zero, 'z) profile_scheme \<Rightarrow> 's \<Rightarrow> 'g result" where
  "point_from_scalar P s = point_new (gc_smul P s (gc_generator P))"

definition point_to_bytes :: "('s, 'g, 'z) profile_scheme \<Rightarrow> 'g \<Rightarrow> bytes" where
  "point_to_bytes P g = gc_enc_point P g"

fun point_error :: "group_error \<Rightarrow> ksnf_error" where
  "point_error InvalidIdentityElement = IdentityPoint"
| "point_error _ = InvalidPoint"

definition point_from_bytes ::
  "('s, 'g::zero, 'z) profile_scheme \<Rightarrow> bytes \<Rightarrow> 'g result" where
  "point_from_bytes P bs =
     (if length bs \<noteq> gc_point_len P then Inl LengthMismatch
      else and_then (map_err point_error (gc_deser_point P bs)) point_new)"

definition point_width :: "('s, 'g, 'z) profile_scheme \<Rightarrow> nat" where
  "point_width P = length (gc_enc_point P (gc_generator P))"

definition element_to_bytes :: "('s, 'g::zero, 'z) profile_scheme \<Rightarrow> 'g \<Rightarrow> bytes" where
  "element_to_bytes P g =
     (if g = 0 then replicate (point_width P + 1) 0 else 1 # gc_enc_point P g)"

definition element_from_bytes ::
  "('s, 'g::zero, 'z) profile_scheme \<Rightarrow> bytes \<Rightarrow> 'g result" where
  "element_from_bytes P bs =
     (if length bs \<noteq> point_width P + 1 then Inl LengthMismatch
      else if hd bs = 0 then
        (if list_all (\<lambda>b. b = 0) (tl bs) then Inr 0 else Inl InvalidIdentity)
      else if hd bs = 1 then point_from_bytes P (tl bs)
      else Inl InvalidElementTag)"

section \<open>What the group crate promises\<close>

text \<open>
  A prime-order group written additively over its scalar field, with canonical fixed-length
  encodings: decoding inverts encoding, and a string that decodes is the encoding of its value.
\<close>

definition group_ok :: "('s::field, 'g::ab_group_add, 'z) profile_scheme \<Rightarrow> bool" where
  "group_ok P \<longleftrightarrow>
     (\<forall>a b g. gc_smul P (a + b) g = gc_smul P a g + gc_smul P b g)
     \<and> (\<forall>a g h. gc_smul P a (g + h) = gc_smul P a g + gc_smul P a h)
     \<and> (\<forall>a b g. gc_smul P (a * b) g = gc_smul P a (gc_smul P b g))
     \<and> (\<forall>g. gc_smul P 1 g = g)
     \<and> (\<forall>a. gc_smul P a (gc_generator P) = 0 \<longrightarrow> a = 0)
     \<and> (\<forall>v. gc_scalar_of_u64 P v = of_nat (unat v))
     \<and> (\<forall>s. length (gc_ser_scalar P s) = gc_scalar_len P
            \<and> gc_deser_scalar P (gc_ser_scalar P s) = Some s)
     \<and> (\<forall>bs s. length bs = gc_scalar_len P \<longrightarrow> gc_deser_scalar P bs = Some s
            \<longrightarrow> gc_ser_scalar P s = bs)
     \<and> (\<forall>g. g \<noteq> 0 \<longrightarrow> length (gc_enc_point P g) = gc_point_len P
            \<and> gc_deser_point P (gc_enc_point P g) = Inr g)
     \<and> (\<forall>bs g. length bs = gc_point_len P \<longrightarrow> gc_deser_point P bs = Inr g
            \<longrightarrow> gc_enc_point P g = bs)"

text \<open>
  What the profile's own byte functions give: the signature codec splits what it joined.
\<close>

definition signature_codec_ok :: "('s::field, 'g::ab_group_add, 'z) profile_scheme \<Rightarrow> bool" where
  "signature_codec_ok P \<longleftrightarrow>
     (\<forall>n r. length n = gc_point_len P \<longrightarrow> length r = gc_scalar_len P \<longrightarrow>
        pf_decode_signature P (pf_encode_signature P n r) = Inr (n, r))
     \<and> (\<forall>bs n r. pf_decode_signature P bs = Inr (n, r) \<longrightarrow>
        length n = gc_point_len P \<and> length r = gc_scalar_len P \<and> pf_encode_signature P n r = bs)"

lemma smul_add: "group_ok P \<Longrightarrow> gc_smul P (a + b) g = gc_smul P a g + gc_smul P b g"
  and smul_add_right: "group_ok P \<Longrightarrow> gc_smul P a (g + h) = gc_smul P a g + gc_smul P a h"
  and smul_mult: "group_ok P \<Longrightarrow> gc_smul P (a * b) g = gc_smul P a (gc_smul P b g)"
  and smul_one: "group_ok P \<Longrightarrow> gc_smul P 1 g = g"
  and generator_order: "group_ok P \<Longrightarrow> gc_smul P a (gc_generator P) = 0 \<Longrightarrow> a = 0"
  and scalar_of_u64: "group_ok P \<Longrightarrow> gc_scalar_of_u64 P v = of_nat (unat v)"
  and length_ser_scalar: "group_ok P \<Longrightarrow> length (gc_ser_scalar P s) = gc_scalar_len P"
  and deser_ser_scalar: "group_ok P \<Longrightarrow> gc_deser_scalar P (gc_ser_scalar P s) = Some s"
  and ser_deser_scalar: "group_ok P \<Longrightarrow> length bs = gc_scalar_len P \<Longrightarrow>
     gc_deser_scalar P bs = Some s \<Longrightarrow> gc_ser_scalar P s = bs"
  and length_enc_point: "group_ok P \<Longrightarrow> g \<noteq> 0 \<Longrightarrow> length (gc_enc_point P g) = gc_point_len P"
  and deser_enc_point: "group_ok P \<Longrightarrow> g \<noteq> 0 \<Longrightarrow> gc_deser_point P (gc_enc_point P g) = Inr g"
  and enc_deser_point: "group_ok P \<Longrightarrow> length bs = gc_point_len P \<Longrightarrow>
     gc_deser_point P bs = Inr g \<Longrightarrow> gc_enc_point P g = bs"
  by (simp_all add: group_ok_def)

lemma smul_zero: "group_ok P \<Longrightarrow> gc_smul P 0 g = 0"
  using smul_add [of P 0 0 g] by simp

lemma smul_zero_right: "group_ok P \<Longrightarrow> gc_smul P a 0 = 0"
  using smul_add_right [of P a 0 0] by simp

lemma smul_minus: "group_ok P \<Longrightarrow> gc_smul P (- a) g = - gc_smul P a g"
  using smul_add [of P a "- a" g] smul_zero [of P g] by (simp add: minus_unique)

lemma smul_diff: "group_ok P \<Longrightarrow> gc_smul P (a - b) g = gc_smul P a g - gc_smul P b g"
  using smul_add [of P a "- b" g] smul_minus [of P b g] by simp

lemma generator_nonzero: "group_ok P \<Longrightarrow> gc_generator P \<noteq> 0"
  using generator_order [of P 1] smul_zero_right [of P 1] by auto

lemma generator_inject:
  assumes "group_ok P"
  shows "gc_smul P a (gc_generator P) = gc_smul P b (gc_generator P) \<longleftrightarrow> a = b"
proof
  assume "gc_smul P a (gc_generator P) = gc_smul P b (gc_generator P)"
  then have "gc_smul P (a - b) (gc_generator P) = 0" by (simp add: smul_diff assms)
  from generator_order [OF assms this] show "a = b" by simp
qed simp

lemma element_from_scalar_inject:
  "group_ok P \<Longrightarrow> element_from_scalar P a = element_from_scalar P b \<longleftrightarrow> a = b"
  by (simp add: element_from_scalar_def generator_inject)

lemma element_from_scalar_zero:
  "group_ok P \<Longrightarrow> element_from_scalar P a = 0 \<longleftrightarrow> a = 0"
  using element_from_scalar_inject [of P a 0] by (simp add: element_from_scalar_def smul_zero)

lemma element_from_scalar_add:
  "group_ok P \<Longrightarrow> element_from_scalar P (a + b) = element_from_scalar P a + element_from_scalar P b"
  by (simp add: element_from_scalar_def smul_add)

lemma element_from_scalar_mult:
  "group_ok P \<Longrightarrow> element_from_scalar P (a * b) = gc_smul P a (element_from_scalar P b)"
  by (simp add: element_from_scalar_def smul_mult)

lemma point_new_Inr [result_simps]: "point_new g = Inr h \<longleftrightarrow> g \<noteq> 0 \<and> h = g"
  by (auto simp: point_new_def)

lemma point_width_eq: "group_ok P \<Longrightarrow> point_width P = gc_point_len P"
  by (simp add: point_width_def length_enc_point generator_nonzero)

lemma point_from_to_bytes:
  "group_ok P \<Longrightarrow> g \<noteq> 0 \<Longrightarrow> point_from_bytes P (point_to_bytes P g) = Inr g"
  by (simp add: point_from_bytes_def point_to_bytes_def length_enc_point deser_enc_point point_new_def)

lemma point_from_bytes_Inr:
  "group_ok P \<Longrightarrow> point_from_bytes P bs = Inr g \<Longrightarrow> g \<noteq> 0 \<and> point_to_bytes P g = bs"
  by (auto simp: point_from_bytes_def point_to_bytes_def result_simps enc_deser_point
      split: if_splits)

lemma length_element_to_bytes:
  "group_ok P \<Longrightarrow> length (element_to_bytes P g) = gc_point_len P + 1"
  by (simp add: element_to_bytes_def point_width_eq length_enc_point)

lemma element_from_to_bytes:
  "group_ok P \<Longrightarrow> element_from_bytes P (element_to_bytes P g) = Inr g"
  using point_from_to_bytes [of P g]
  by (auto simp: element_from_bytes_def element_to_bytes_def point_width_eq length_enc_point
      point_to_bytes_def list_all_iff)

lemma element_from_bytes_Inr:
  assumes "group_ok P" "element_from_bytes P bs = Inr g"
  shows "element_to_bytes P g = bs"
proof -
  from assms have len: "length bs = gc_point_len P + 1"
    by (auto simp: element_from_bytes_def point_width_eq split: if_splits)
  then obtain t r where bs: "bs = t # r" "length r = gc_point_len P" by (cases bs) auto
  show ?thesis
  proof (cases "t = 0")
    case True
    with assms bs have "g = 0" "r = replicate (length r) 0"
      by (auto simp: element_from_bytes_def point_width_eq list_all_iff map_replicate_const
          split: if_splits intro!: replicate_eqI)
    with assms(1) bs True show ?thesis by (simp add: element_to_bytes_def point_width_eq)
  next
    case False
    with assms bs have "t = 1" "point_from_bytes P r = Inr g"
      by (auto simp: element_from_bytes_def split: if_splits)
    with point_from_bytes_Inr [OF assms(1)] bs show ?thesis
      by (auto simp: element_to_bytes_def point_to_bytes_def)
  qed
qed

lemma secp256k1_signature_codec:
  "gc_point_len c = 33 \<Longrightarrow> gc_scalar_len c = 32 \<Longrightarrow>
     signature_codec_ok (secp256k1_profile c h)"
  by (auto simp: signature_codec_ok_def secp256k1_profile_def group_crate.defs split_signature_def
      split: if_splits)

lemma ed25519_signature_codec:
  "gc_point_len c = 32 \<Longrightarrow> gc_scalar_len c = 32 \<Longrightarrow>
     signature_codec_ok (ed25519_profile c h)"
  by (auto simp: signature_codec_ok_def ed25519_profile_def group_crate.defs split_signature_def
      split: if_splits)

end
