(* ===== verification/Ksnf_Encoding.thy ===== *)
theory Ksnf_Encoding
  imports Ksnf_Profile
begin

text \<open>
  Canonical protocol encoding (\<open>src/encoding.rs\<close>). \<open>Encoder\<close> is a buffer every \<open>put\<close> method
  appends to, so a \<open>put\<close> is the bytes it appends and \<open>finish\<close> the concatenation;
  \<open>Decoder\<close> is the input and the offset, and a \<open>get\<close> returns a value and the moved decoder.
  The locale \<open>codec\<close> is the contract of a matching pair.
\<close>

section \<open>Encoder\<close>

definition put_u8 :: "u8 \<Rightarrow> bytes" where
  "put_u8 v = [v]"

definition put_u16 :: "u16 \<Rightarrow> bytes" where
  "put_u16 v = be_bytes 2 (unat v)"

definition put_u32 :: "u32 \<Rightarrow> bytes" where
  "put_u32 v = be_bytes 4 (unat v)"

definition put_u64 :: "u64 \<Rightarrow> bytes" where
  "put_u64 v = be_bytes 8 (unat v)"

definition put_bytes :: "bytes \<Rightarrow> bytes result" where
  "put_bytes v = (if 2 ^ 32 \<le> length v then Inl LengthOverflow
                  else Inr (put_u32 (word_of_nat (length v)) @ v))"

definition put_scalar :: "('s, 'g, 'z) profile_scheme \<Rightarrow> 's \<Rightarrow> bytes" where
  "put_scalar P s = gc_ser_scalar P s"

definition put_point :: "('s, 'g, 'z) profile_scheme \<Rightarrow> 'g \<Rightarrow> bytes" where
  "put_point P g = point_to_bytes P g"

definition put_element :: "('s, 'g::zero, 'z) profile_scheme \<Rightarrow> 'g \<Rightarrow> bytes" where
  "put_element P g = element_to_bytes P g"

section \<open>Decoder\<close>

record decoder =
  dc_input :: bytes
  dc_offset :: nat

definition decoder_new :: "bytes \<Rightarrow> decoder" where
  "decoder_new input = \<lparr>dc_input = input, dc_offset = 0\<rparr>"

definition read_slice :: "nat \<Rightarrow> decoder \<Rightarrow> (bytes \<times> decoder) result" where
  "read_slice len d =
     (let start = dc_offset d; end' = start + len in
      if 2 ^ 64 \<le> end' then Inl LengthOverflow
      else if length (dc_input d) < end' then Inl (UnexpectedEnd start len)
      else Inr (take len (drop start (dc_input d)), d\<lparr>dc_offset := end'\<rparr>))"

definition get_u8 :: "decoder \<Rightarrow> (u8 \<times> decoder) result" where
  "get_u8 d = and_then (read_slice 1 d) (\<lambda>(bs, d). Inr (hd bs, d))"

definition get_u16 :: "decoder \<Rightarrow> (u16 \<times> decoder) result" where
  "get_u16 d = and_then (read_slice 2 d) (\<lambda>(bs, d). Inr (word_of_nat (be_val bs), d))"

definition get_u32 :: "decoder \<Rightarrow> (u32 \<times> decoder) result" where
  "get_u32 d = and_then (read_slice 4 d) (\<lambda>(bs, d). Inr (word_of_nat (be_val bs), d))"

definition get_u64 :: "decoder \<Rightarrow> (u64 \<times> decoder) result" where
  "get_u64 d = and_then (read_slice 8 d) (\<lambda>(bs, d). Inr (word_of_nat (be_val bs), d))"

definition get_fixed :: "nat \<Rightarrow> decoder \<Rightarrow> (bytes \<times> decoder) result" where
  "get_fixed n d = read_slice n d"

definition get_bytes :: "decoder \<Rightarrow> (bytes \<times> decoder) result" where
  "get_bytes d = and_then (get_u32 d) (\<lambda>(len, d). read_slice (unat len) d)"

definition get_scalar :: "('s::zero, 'g, 'z) profile_scheme \<Rightarrow> decoder \<Rightarrow> ('s \<times> decoder) result"
  where
  "get_scalar P d = and_then (read_slice (length (gc_ser_scalar P 0)) d) (\<lambda>(bs, d).
     if length bs \<noteq> gc_scalar_len P then Inl LengthMismatch
     else and_then (ok_or InvalidScalar (gc_deser_scalar P bs)) (\<lambda>s. Inr (s, d)))"

definition get_point :: "('s, 'g::zero, 'z) profile_scheme \<Rightarrow> decoder \<Rightarrow> ('g \<times> decoder) result"
  where
  "get_point P d = and_then (read_slice (point_width P) d) (\<lambda>(bs, d).
     and_then (point_from_bytes P bs) (\<lambda>g. Inr (g, d)))"

definition get_element :: "('s, 'g::zero, 'z) profile_scheme \<Rightarrow> decoder \<Rightarrow> ('g \<times> decoder) result"
  where
  "get_element P d = and_then (read_slice (point_width P + 1) d) (\<lambda>(bs, d).
     and_then (element_from_bytes P bs) (\<lambda>g. Inr (g, d)))"

definition decoder_finish :: "decoder \<Rightarrow> unit result" where
  "decoder_finish d =
     (if dc_offset d = length (dc_input d) then Inr () else Inl (TrailingBytes (dc_offset d)))"

section \<open>Positions\<close>

text \<open>The unread part of a decoder, and the decoder moved over \<open>n\<close> bytes of it.\<close>

definition dc_rest :: "decoder \<Rightarrow> bytes" where
  "dc_rest d = drop (dc_offset d) (dc_input d)"

definition advance :: "nat \<Rightarrow> decoder \<Rightarrow> decoder" where
  "advance n d = d\<lparr>dc_offset := dc_offset d + n\<rparr>"

definition dc_ok :: "decoder \<Rightarrow> bool" where
  "dc_ok d \<longleftrightarrow> dc_offset d \<le> length (dc_input d) \<and> length (dc_input d) < 2 ^ 64"

lemma dc_ok_new [simp]: "dc_ok (decoder_new bs) \<longleftrightarrow> length bs < 2 ^ 64"
  by (simp add: dc_ok_def decoder_new_def)

lemma dc_rest_new [simp]: "dc_rest (decoder_new bs) = bs"
  by (simp add: dc_rest_def decoder_new_def)

lemma dc_rest_advance [simp]: "dc_rest (advance n d) = drop n (dc_rest d)"
  by (simp add: dc_rest_def advance_def add.commute)

lemma advance_advance [simp]: "advance n (advance m d) = advance (m + n) d"
  by (simp add: advance_def add.assoc)

lemma advance_zero [simp]: "advance 0 d = d"
  by (simp add: advance_def)

lemma dc_ok_advance: "dc_ok d \<Longrightarrow> n \<le> length (dc_rest d) \<Longrightarrow> dc_ok (advance n d)"
  by (auto simp: dc_ok_def dc_rest_def advance_def)

lemma dc_ok_read: "dc_ok d \<Longrightarrow> dc_rest d = bs @ r \<Longrightarrow> dc_ok (advance (length bs) d)"
  by (rule dc_ok_advance) simp_all

lemma read_slice_eq:
  assumes "dc_ok d" "dc_rest d = bs @ r" "length bs = n"
  shows "read_slice n d = Inr (bs, advance n d)"
proof -
  have "take n (drop (dc_offset d) (dc_input d)) = bs"
    using assms(2,3) by (simp add: dc_rest_def)
  moreover have "dc_offset d + n \<le> length (dc_input d)"
  proof -
    have "length (dc_input d) - dc_offset d = length bs + length r"
      using arg_cong [OF assms(2), of length] by (simp only: dc_rest_def length_drop length_append)
    with assms(1,3) show ?thesis unfolding dc_ok_def by linarith
  qed
  moreover have "dc_offset d + n < 2 ^ 64" using calculation(2) assms(1) by (simp add: dc_ok_def)
  ultimately show ?thesis by (simp add: read_slice_def advance_def)
qed

lemma read_slice_Inr:
  assumes "read_slice n d = Inr (bs, d')"
  shows "dc_rest d = bs @ dc_rest d'" "length bs = n" "d' = advance n d"
proof -
  from assms have eq: "bs = take n (dc_rest d)" "dc_offset d + n \<le> length (dc_input d)"
    "d' = advance n d"
    by (auto simp: read_slice_def Let_def advance_def dc_rest_def split: if_splits)
  then show "d' = advance n d" "dc_rest d = bs @ dc_rest d'" "length bs = n"
    by (simp_all add: dc_rest_def advance_def drop_drop [symmetric] add.commute del: drop_drop)
qed

lemma read_slice_offset: "read_slice n d = Inr (bs, d') \<Longrightarrow> dc_ok d \<Longrightarrow> dc_ok d'"
  by (metis read_slice_Inr dc_ok_read)

section \<open>The codec contract\<close>

locale codec =
  fixes enc :: "'a \<Rightarrow> bytes"
    and dec :: "decoder \<Rightarrow> ('a \<times> decoder) result"
    and valid :: "'a \<Rightarrow> bool"
  assumes dec_enc: "dc_ok d \<Longrightarrow> valid x \<Longrightarrow> dc_rest d = enc x @ r \<Longrightarrow>
      dec d = Inr (x, advance (length (enc x)) d)"
    and dec_canonical: "dc_ok d \<Longrightarrow> dec d = Inr (x, d') \<Longrightarrow>
      valid x \<and> dc_rest d = enc x @ dc_rest d' \<and> d' = advance (length (enc x)) d"
begin

lemma dec_moves: "dc_ok d \<Longrightarrow> dec d = Inr (x, d') \<Longrightarrow> dc_ok d'"
  by (metis dec_canonical dc_ok_read)

text \<open>No encoding is a proper prefix of another: concatenations split in one way.\<close>

lemma enc_prefix_free:
  assumes "enc x @ r = enc y @ s" "valid x" "valid y" "length (enc x @ r) < 2 ^ 64"
  shows "x = y \<and> r = s"
proof -
  let ?d = "decoder_new (enc x @ r)"
  have "dec ?d = Inr (x, advance (length (enc x)) ?d)"
    using assms by (intro dec_enc [where r = r]) auto
  moreover have "dec ?d = Inr (y, advance (length (enc y)) ?d)"
    using assms by (intro dec_enc [where r = s]) auto
  ultimately show ?thesis using assms(1) by simp
qed

lemma enc_inj: "enc x = enc y \<Longrightarrow> valid x \<Longrightarrow> valid y \<Longrightarrow> length (enc x) < 2 ^ 64 \<Longrightarrow> x = y"
  using enc_prefix_free [of x "[]" y "[]"] by simp

text \<open>A buffer that is one encoding decodes and finishes; one that decodes and finishes is it.\<close>

lemma whole_buffer:
  assumes "length bs < 2 ^ 64"
  shows "(\<exists>d. dec (decoder_new bs) = Inr (x, d) \<and> decoder_finish d = Inr ()) \<longleftrightarrow>
    valid x \<and> bs = enc x"
proof
  assume "\<exists>d. dec (decoder_new bs) = Inr (x, d) \<and> decoder_finish d = Inr ()"
  then obtain d where d: "dec (decoder_new bs) = Inr (x, d)" "decoder_finish d = Inr ()" by blast
  from d(2) have "dc_rest d = []"
    by (simp add: decoder_finish_def dc_rest_def split: if_splits)
  with dec_canonical [OF _ d(1)] assms show "valid x \<and> bs = enc x" by simp
next
  assume "valid x \<and> bs = enc x"
  with assms have "dec (decoder_new bs) = Inr (x, advance (length bs) (decoder_new bs))"
    using dec_enc [of "decoder_new bs" x "[]"] by simp
  moreover have "decoder_finish (advance (length bs) (decoder_new bs)) = Inr ()"
    by (simp add: decoder_finish_def advance_def decoder_new_def)
  ultimately show "\<exists>d. dec (decoder_new bs) = Inr (x, d) \<and> decoder_finish d = Inr ()" by blast
qed

end

text \<open>A fixed-width codec: bytes of one length and a partial inverse on them.\<close>

lemma codec_fixed_width:
  assumes "\<And>x. valid x \<Longrightarrow> length (enc x) = n \<and> val (enc x) = Inr x"
    and "\<And>bs x. length bs = n \<Longrightarrow> val bs = Inr x \<Longrightarrow> valid x \<and> enc x = bs"
    and "\<And>d. dec d = and_then (read_slice n d) (\<lambda>(bs, d). and_then (val bs) (\<lambda>x. Inr (x, d)))"
  shows "codec enc dec valid"
proof
  fix d x r
  assume "dc_ok d" "valid x" "dc_rest d = enc x @ r"
  then show "dec d = Inr (x, advance (length (enc x)) d)"
    using assms(1) [of x] read_slice_eq [of d "enc x" r n] by (simp add: assms(3))
next
  fix d x d'
  assume "dec d = Inr (x, d')"
  then obtain bs where bs: "read_slice n d = Inr (bs, d')" "val bs = Inr x"
    by (auto simp: assms(3) result_simps)
  note r = read_slice_Inr [OF bs(1)]
  from assms(2) [OF r(2) bs(2)] have x: "valid x" "enc x = bs" by simp_all
  show "valid x \<and> dc_rest d = enc x @ dc_rest d' \<and> d' = advance (length (enc x)) d"
    unfolding x(2) r(2) using x(1) r(1,3) by blast
qed

lemma word_codec:
  fixes enc :: "'w::len word \<Rightarrow> bytes"
  assumes "8 * n = LENGTH('w)" "\<And>v. enc v = be_bytes n (unat v)"
    and "\<And>d. dec d = and_then (read_slice n d) (\<lambda>(bs, d). Inr (word_of_nat (be_val bs), d))"
  shows "codec enc dec (\<lambda>_. True)"
proof (rule codec_fixed_width [where n = n and val = "\<lambda>bs. Inr (word_of_nat (be_val bs))"])
  have width: "(256 :: nat) ^ n = 2 ^ LENGTH('w)"
    by (simp add: assms(1) [symmetric] power_mult)
  fix x
  show "length (enc x) = n \<and> Inr (word_of_nat (be_val (enc x))) = Inr x"
    using unsigned_less [of x] by (simp add: assms(2) be_val_be_bytes width)
  fix bs
  assume "length bs = n" "Inr (word_of_nat (be_val bs)) = Inr x"
  moreover have "be_val bs < 2 ^ LENGTH('w)" if "length bs = n"
    using be_val_less [of bs] that width by simp
  ultimately show "True \<and> enc x = bs"
    using be_bytes_be_val [of bs] by (auto simp: assms(2) unat_of_nat)
qed (simp add: assms(3))

interpretation u8_codec: codec put_u8 get_u8 "\<lambda>_. True"
proof (rule codec_fixed_width [where n = 1 and val = "\<lambda>bs. Inr (hd bs)"])
  show "length bs = 1 \<Longrightarrow> Inr (hd bs) = Inr x \<Longrightarrow> True \<and> put_u8 x = bs" for bs x
    by (cases bs) (auto simp: put_u8_def)
qed (simp_all add: put_u8_def get_u8_def)

interpretation u16_codec: codec put_u16 get_u16 "\<lambda>_. True"
  by (rule word_codec [where n = 2]) (simp_all add: put_u16_def get_u16_def)

interpretation u32_codec: codec put_u32 get_u32 "\<lambda>_. True"
  by (rule word_codec [where n = 4]) (simp_all add: put_u32_def get_u32_def)

interpretation u64_codec: codec put_u64 get_u64 "\<lambda>_. True"
  by (rule word_codec [where n = 8]) (simp_all add: put_u64_def get_u64_def)

lemma fixed_codec: "codec (\<lambda>bs. bs) (get_fixed n) (\<lambda>bs. length bs = n)"
  by (rule codec_fixed_width [where n = n and val = Inr])
     (auto simp: get_fixed_def and_then_def split: sum.splits)

text \<open>Length-prefixed bytes; \<open>put_bytes\<close> succeeds exactly on the lengths that fit.\<close>

interpretation bytes_codec: codec "\<lambda>v. put_u32 (word_of_nat (length v)) @ v" get_bytes
  "\<lambda>v. length v < 2 ^ 32"
proof
  fix d :: decoder and x r :: bytes
  assume d: "dc_ok d" "length x < 2 ^ 32" "dc_rest d = (put_u32 (word_of_nat (length x)) @ x) @ r"
  then have "get_u32 d = Inr (word_of_nat (length x), advance 4 d)"
    using u32_codec.dec_enc [of d "word_of_nat (length x)" "x @ r"] by (simp add: put_u32_def)
  moreover have "unat (word_of_nat (length x) :: u32) = length x"
    using d(2) by (simp add: unat_of_nat)
  moreover have "read_slice (length x) (advance 4 d) = Inr (x, advance (length x) (advance 4 d))"
    using d by (intro read_slice_eq [where r = r] dc_ok_advance) (auto simp: put_u32_def)
  ultimately show "get_bytes d =
      Inr (x, advance (length (put_u32 (word_of_nat (length x)) @ x)) d)"
    by (simp add: get_bytes_def put_u32_def)
next
  fix d d' :: decoder and x :: bytes
  assume "dc_ok d" "get_bytes d = Inr (x, d')"
  then obtain len e where e: "get_u32 d = Inr (len, e)" "read_slice (unat len) e = Inr (x, d')"
    by (auto simp: get_bytes_def result_simps)
  note x = read_slice_Inr [OF e(2)] and l = u32_codec.dec_canonical [OF \<open>dc_ok d\<close> e(1)]
  have len: "word_of_nat (length x) = len" unfolding x(2) by simp
  have "length x < 2 ^ 32" unfolding x(2) using unsigned_less [of len] by simp
  moreover have "dc_rest d = put_u32 len @ x @ dc_rest d'"
    by (rule trans [OF conjunct1 [OF conjunct2 [OF l]]]) (simp only: x(1))
  moreover have "d' = advance (length (put_u32 len @ x)) d"
  proof -
    have "e = advance 4 d" using l by (simp add: put_u32_def)
    then show ?thesis unfolding x(3) x(2) [symmetric] by (simp add: put_u32_def)
  qed
  ultimately show "length x < 2 ^ 32
      \<and> dc_rest d = (put_u32 (word_of_nat (length x)) @ x) @ dc_rest d'
      \<and> d' = advance (length (put_u32 (word_of_nat (length x)) @ x)) d"
    unfolding len append_assoc by blast
qed

lemma scalar_codec:
  assumes "group_ok P"
  shows "codec (put_scalar P) (get_scalar P) (\<lambda>_. True)"
proof (rule codec_fixed_width [where n = "gc_scalar_len P"
      and val = "\<lambda>bs. ok_or InvalidScalar (gc_deser_scalar P bs)"])
  fix d
  have "get_scalar P d = and_then (read_slice (gc_scalar_len P) d) (\<lambda>(bs, d).
      if length bs \<noteq> gc_scalar_len P then Inl LengthMismatch
      else and_then (ok_or InvalidScalar (gc_deser_scalar P bs)) (\<lambda>s. Inr (s, d)))"
    by (simp add: get_scalar_def length_ser_scalar [OF assms])
  also have "\<dots> = and_then (read_slice (gc_scalar_len P) d) (\<lambda>(bs, d).
      and_then (ok_or InvalidScalar (gc_deser_scalar P bs)) (\<lambda>s. Inr (s, d)))"
    by (auto simp: and_then_def split: sum.splits dest: read_slice_Inr(2))
  finally show "get_scalar P d = \<dots>" .
qed (simp_all add: put_scalar_def length_ser_scalar deser_ser_scalar ser_deser_scalar assms
    result_simps)

lemma point_codec:
  assumes "group_ok P"
  shows "codec (put_point P) (get_point P) (\<lambda>g. g \<noteq> 0)"
proof (rule codec_fixed_width [where n = "gc_point_len P" and val = "point_from_bytes P"])
  show "length (put_point P x) = gc_point_len P \<and> point_from_bytes P (put_point P x) = Inr x"
    if "x \<noteq> 0" for x
    using that assms point_from_to_bytes [OF assms that]
    by (simp add: put_point_def point_to_bytes_def length_enc_point)
  show "x \<noteq> 0 \<and> put_point P x = bs" if "point_from_bytes P bs = Inr x" for bs x
    using point_from_bytes_Inr [OF assms that] by (simp add: put_point_def)
qed (simp add: get_point_def point_width_eq assms)

lemma element_codec:
  assumes "group_ok P"
  shows "codec (put_element P) (get_element P) (\<lambda>_. True)"
proof (rule codec_fixed_width [where n = "gc_point_len P + 1" and val = "element_from_bytes P"])
  show "length (put_element P x) = gc_point_len P + 1
      \<and> element_from_bytes P (put_element P x) = Inr x" for x
    by (simp add: put_element_def length_element_to_bytes element_from_to_bytes assms)
  show "True \<and> put_element P x = bs" if "element_from_bytes P bs = Inr x" for bs x
    using element_from_bytes_Inr [OF assms that] by (simp add: put_element_def)
qed (simp add: get_element_def point_width_eq assms)

lemma length_put [simp]:
  "length (put_u8 a) = 1" "length (put_u16 b) = 2" "length (put_u32 c) = 4" "length (put_u64 e) = 8"
  by (simp_all add: put_u8_def put_u16_def put_u32_def put_u64_def)

lemma put_inject [simp]:
  "put_u8 a = put_u8 a' \<longleftrightarrow> a = a'" "put_u16 b = put_u16 b' \<longleftrightarrow> b = b'"
  "put_u32 c = put_u32 c' \<longleftrightarrow> c = c'" "put_u64 e = put_u64 e' \<longleftrightarrow> e = e'"
  using u8_codec.enc_inj [of a a'] u16_codec.enc_inj [of b b'] u32_codec.enc_inj [of c c']
    u64_codec.enc_inj [of e e'] by auto

section \<open>Sequencing\<close>

type_synonym 'a getter = "decoder \<Rightarrow> ('a \<times> decoder) result"

text \<open>The reads of a \<open>from_bytes\<close> body in order, each failing with \<open>?\<close>.\<close>

definition get_then :: "'a getter \<Rightarrow> ('a \<Rightarrow> 'b getter) \<Rightarrow> 'b getter" where
  "get_then g k d = and_then (g d) (\<lambda>(x, d'). k x d')"

definition get_return :: "'a \<Rightarrow> 'a getter" where
  "get_return x d = Inr (x, d)"

definition get_ensure :: "ksnf_error \<Rightarrow> bool \<Rightarrow> unit getter" where
  "get_ensure e b d = and_then (ensure e b) (\<lambda>_. Inr ((), d))"

definition get_result :: "'a result \<Rightarrow> 'a getter" where
  "get_result r d = and_then r (\<lambda>x. Inr (x, d))"

definition get_ident :: "'k ident getter" where
  "get_ident = get_then (get_fixed 32) (\<lambda>bs. get_return (ident_of_bytes bs))"

fun get_many :: "nat \<Rightarrow> 'a getter \<Rightarrow> 'a list getter" where
  "get_many 0 g = get_return []"
| "get_many (Suc n) g = get_then g (\<lambda>x. get_then (get_many n g) (\<lambda>xs. get_return (x # xs)))"

text \<open>A whole buffer: the reads, then \<open>finish\<close>.\<close>

definition decode_all :: "'a getter \<Rightarrow> bytes \<Rightarrow> 'a result" where
  "decode_all g bs = and_then (g (decoder_new bs)) (\<lambda>(x, d).
     and_then (decoder_finish d) (\<lambda>_. Inr x))"

text \<open>
  \<open>reads d bs d'\<close>: the decoder moved from \<open>d\<close> to \<open>d'\<close> over exactly \<open>bs\<close>. A getter
  \<open>parses\<close> a relation when it succeeds exactly on the prefixes the relation allows, returning
  the value it relates them to; the relation of a sequence is the sequence of the relations.
\<close>

definition reads :: "decoder \<Rightarrow> bytes \<Rightarrow> decoder \<Rightarrow> bool" where
  "reads d bs d' \<longleftrightarrow> dc_rest d = bs @ dc_rest d' \<and> d' = advance (length bs) d"

definition parses :: "'a getter \<Rightarrow> ('a \<Rightarrow> bytes \<Rightarrow> bool) \<Rightarrow> bool" where
  "parses g R \<longleftrightarrow> (\<forall>d x d'. dc_ok d \<longrightarrow>
     g d = Inr (x, d') \<longleftrightarrow> (\<exists>bs. reads d bs d' \<and> R x bs))"

lemma reads_ok: "dc_ok d \<Longrightarrow> reads d bs d' \<Longrightarrow> dc_ok d'"
  by (metis reads_def dc_ok_read)

lemma reads_Nil [simp]: "reads d [] d' \<longleftrightarrow> d' = d"
  by (auto simp: reads_def)

lemma reads_append: "reads d (as @ cs) d' \<longleftrightarrow> (\<exists>d1. reads d as d1 \<and> reads d1 cs d')"
proof
  assume r: "reads d (as @ cs) d'"
  then have "reads d as (advance (length as) d)"
    unfolding reads_def by (metis append_assoc append_eq_conv_conj dc_rest_advance)
  moreover have "reads (advance (length as) d) cs d'"
    using r calculation unfolding reads_def
    by (metis advance_advance append_assoc length_append same_append_eq)
  ultimately show "\<exists>d1. reads d as d1 \<and> reads d1 cs d'" by blast
next
  assume "\<exists>d1. reads d as d1 \<and> reads d1 cs d'"
  then show "reads d (as @ cs) d'"
    unfolding reads_def by (metis advance_advance append_assoc length_append)
qed

lemma parses_cong: "parses g R \<Longrightarrow> (\<And>x bs. R x bs \<longleftrightarrow> R' x bs) \<Longrightarrow> parses g R'"
  by (simp add: parses_def)

lemma parses_codec:
  assumes "codec enc dec valid"
  shows "parses dec (\<lambda>x bs. valid x \<and> bs = enc x)"
  unfolding parses_def
proof (intro allI impI iffI)
  fix d x d'
  assume "dc_ok d" "dec d = Inr (x, d')"
  from codec.dec_canonical [OF assms this]
  show "\<exists>bs. reads d bs d' \<and> valid x \<and> bs = enc x" unfolding reads_def by blast
next
  fix d x d'
  assume d: "dc_ok d" and "\<exists>bs. reads d bs d' \<and> valid x \<and> bs = enc x"
  then have "reads d (enc x) d'" "valid x" by blast+
  then show "dec d = Inr (x, d')"
    using codec.dec_enc [OF assms d] unfolding reads_def by metis
qed

lemma parses_then:
  assumes "parses g R" "\<And>x. parses (k x) (S x)"
  shows "parses (get_then g k) (\<lambda>y bs. \<exists>x as cs. bs = as @ cs \<and> R x as \<and> S x y cs)"
  unfolding parses_def
proof (intro allI impI)
  fix d y d'
  assume d: "dc_ok d"
  have "get_then g k d = Inr (y, d') \<longleftrightarrow> (\<exists>x d1. g d = Inr (x, d1) \<and> k x d1 = Inr (y, d'))"
    by (auto simp: get_then_def and_then_Inr_iff)
  also have "\<dots> \<longleftrightarrow> (\<exists>x d1 as. reads d as d1 \<and> R x as \<and> k x d1 = Inr (y, d'))"
    using assms(1) d unfolding parses_def by metis
  also have "\<dots> \<longleftrightarrow> (\<exists>x d1 as cs. reads d as d1 \<and> R x as \<and> reads d1 cs d' \<and> S x y cs)"
    using assms(2) reads_ok [OF d] unfolding parses_def by metis
  also have "\<dots> \<longleftrightarrow> (\<exists>bs. reads d bs d' \<and> (\<exists>x as cs. bs = as @ cs \<and> R x as \<and> S x y cs))"
    using reads_append by metis
  finally show "get_then g k d = Inr (y, d') \<longleftrightarrow>
      (\<exists>bs. reads d bs d' \<and> (\<exists>x as cs. bs = as @ cs \<and> R x as \<and> S x y cs))" .
qed

lemma parses_return: "parses (get_return v) (\<lambda>x bs. x = v \<and> bs = [])"
  by (auto simp: parses_def get_return_def)

lemma parses_ensure: "parses (get_ensure e b) (\<lambda>_ bs. b \<and> bs = [])"
  by (auto simp: parses_def get_ensure_def result_simps)

lemma parses_result: "parses (get_result r) (\<lambda>x bs. r = Inr x \<and> bs = [])"
  by (auto simp: parses_def get_result_def result_simps)

lemma parses_then_return:
  assumes "parses g R"
  shows "parses (get_then g (\<lambda>x. get_return (f x))) (\<lambda>y bs. \<exists>x. y = f x \<and> R x bs)"
  by (rule parses_cong [OF parses_then [OF assms parses_return]]) auto

lemma parses_many:
  assumes "parses g (\<lambda>x bs. V x \<and> bs = enc x)"
  shows "parses (get_many n g)
    (\<lambda>xs bs. length xs = n \<and> (\<forall>x \<in> set xs. V x) \<and> bs = concat (map enc xs))"
proof (induction n)
  case 0
  show ?case by (auto intro: parses_cong [OF parses_return])
next
  case (Suc n)
  have "parses (get_many (Suc n) g) (\<lambda>y bs. \<exists>x as cs. bs = as @ cs \<and> (V x \<and> as = enc x)
      \<and> (\<exists>xs as' cs'. cs = as' @ cs'
          \<and> (length xs = n \<and> (\<forall>x \<in> set xs. V x) \<and> as' = concat (map enc xs))
          \<and> y = x # xs \<and> cs' = []))"
    unfolding get_many.simps by (intro parses_then parses_return assms Suc.IH)
  then show ?case by (rule parses_cong) (auto simp: length_Suc_conv)
qed

theorem decode_all_iff:
  assumes "parses g R" "length bs < 2 ^ 64"
  shows "decode_all g bs = Inr x \<longleftrightarrow> R x bs"
proof -
  have ok: "dc_ok (decoder_new bs)" using assms(2) by simp
  have "decode_all g bs = Inr x \<longleftrightarrow>
      (\<exists>d. g (decoder_new bs) = Inr (x, d) \<and> decoder_finish d = Inr ())"
    by (auto simp: decode_all_def and_then_Inr_iff)
  also have "\<dots> \<longleftrightarrow> (\<exists>d cs. reads (decoder_new bs) cs d \<and> R x cs \<and> decoder_finish d = Inr ())"
    using assms(1) ok unfolding parses_def by metis
  also have "\<dots> \<longleftrightarrow> R x bs"
  proof
    assume "\<exists>d cs. reads (decoder_new bs) cs d \<and> R x cs \<and> decoder_finish d = Inr ()"
    then obtain d cs where cs: "reads (decoder_new bs) cs d" "R x cs" "decoder_finish d = Inr ()"
      by blast
    from cs(3) have "dc_rest d = []" by (simp add: decoder_finish_def dc_rest_def split: if_splits)
    with cs(1) have "bs = cs" unfolding reads_def by (metis append_Nil2 dc_rest_new)
    with cs(2) show "R x bs" by simp
  next
    assume "R x bs"
    moreover have "reads (decoder_new bs) bs (advance (length bs) (decoder_new bs))"
      by (simp add: reads_def)
    moreover have "decoder_finish (advance (length bs) (decoder_new bs)) = Inr ()"
      by (simp add: decoder_finish_def advance_def decoder_new_def)
    ultimately show "\<exists>d cs. reads (decoder_new bs) cs d \<and> R x cs \<and> decoder_finish d = Inr ()"
      by blast
  qed
  finally show ?thesis .
qed

interpretation ident_codec: codec ident_bytes get_ident "\<lambda>_. True"
proof (rule codec_fixed_width [where n = 32 and val = "\<lambda>bs. Inr (ident_of_bytes bs)"])
  show "get_ident d = and_then (read_slice 32 d) (\<lambda>(bs, d).
      and_then (Inr (ident_of_bytes bs)) (\<lambda>x. Inr (x, d)))" for d
    by (simp add: get_ident_def get_then_def get_fixed_def get_return_def)
qed (auto simp: ident_bytes_of_bytes)

text \<open>A length-prefixed value that a second decoder reads.\<close>

lemma parses_nested:
  assumes "\<And>x. parses (k x) (S x)"
  shows "parses (get_then get_bytes (\<lambda>v. get_then (get_result (f v)) k))
    (\<lambda>y bs. \<exists>v x cs. bs = put_u32 (word_of_nat (length v)) @ v @ cs \<and> length v < 2 ^ 32
       \<and> f v = Inr x \<and> S x y cs)"
  by (rule parses_cong [OF parses_then [OF parses_codec [OF bytes_codec.codec_axioms]
        parses_then [OF parses_result assms]]]) auto

text \<open>The relations of the primitive getters, and the rules that build the others.\<close>

definition bytes_form :: "bytes \<Rightarrow> bytes" where
  "bytes_form v = put_u32 (word_of_nat (length v)) @ v"

lemma put_bytes_form [result_simps]:
  "put_bytes v = Inr bs \<longleftrightarrow> length v < 2 ^ 32 \<and> bs = bytes_form v"
  by (auto simp: put_bytes_def bytes_form_def)

lemmas parses_prims [codec_simps] =
  parses_codec [OF u8_codec.codec_axioms] parses_codec [OF u16_codec.codec_axioms]
  parses_codec [OF u32_codec.codec_axioms] parses_codec [OF u64_codec.codec_axioms]
  parses_codec [OF ident_codec.codec_axioms]
  parses_codec [OF bytes_codec.codec_axioms, folded bytes_form_def]
  parses_return parses_ensure parses_result

lemma parses_scalar: "group_ok P \<Longrightarrow> parses (get_scalar P) (\<lambda>x bs. True \<and> bs = put_scalar P x)"
  by (rule parses_codec [OF scalar_codec])

lemma parses_point: "group_ok P \<Longrightarrow> parses (get_point P) (\<lambda>g bs. g \<noteq> 0 \<and> bs = put_point P g)"
  by (rule parses_codec [OF point_codec])

lemma parses_element: "group_ok P \<Longrightarrow> parses (get_element P) (\<lambda>g bs. True \<and> bs = put_element P g)"
  by (rule parses_codec [OF element_codec])

lemmas parses_intros = parses_then parses_prims parses_scalar parses_point parses_element

end
