(* ===== verification/Ksnf_Shamir.thy ===== *)
theory Ksnf_Shamir
  imports Ksnf_Profile
begin

text \<open>
  Shamir polynomial operations (\<open>src/shamir.rs\<close>) and their public counterpart
  \<open>evaluate_commitments\<close> (\<open>src/genesis.rs\<close>). The locale \<open>horner\<close> is the contract both
  evaluations rest on, a field acting on an additive group; interpolation at zero is proved
  once there.
\<close>

section \<open>Nodes and polynomials\<close>

text \<open>A \<open>Node\<close> is the nonzero scalar \<open>node_new\<close> lets through.\<close>

definition node_new :: "'s::zero \<Rightarrow> 's result" where
  "node_new v = (if v = 0 then Inl ZeroNode else Inr v)"

definition node_from_u64 :: "('s::zero, 'g, 'z) profile_scheme \<Rightarrow> u64 \<Rightarrow> 's result" where
  "node_from_u64 P v = node_new (gc_scalar_of_u64 P v)"

text \<open>A \<open>Polynomial\<close> is its coefficients, constant first.\<close>

definition polynomial_new :: "'s list \<Rightarrow> 's list result" where
  "polynomial_new cs = (if cs = [] then Inl EmptyInput else Inr cs)"

text \<open>\<open>draw\<close> stands for \<open>Field::random\<close> on the caller's generator state.\<close>

fun draws :: "('r \<Rightarrow> 's \<times> 'r) \<Rightarrow> nat \<Rightarrow> 'r \<Rightarrow> 's list \<times> 'r" where
  "draws draw 0 rng = ([], rng)"
| "draws draw (Suc n) rng =
     (let (x, rng1) = draw rng; (xs, rng2) = draws draw n rng1 in (x # xs, rng2))"

definition polynomial_sample ::
  "('r \<Rightarrow> 's \<times> 'r) \<Rightarrow> nat \<Rightarrow> 's \<Rightarrow> 'r \<Rightarrow> 's list result \<times> 'r" where
  "polynomial_sample draw threshold constant rng =
     (if threshold = 0 then (Inl EmptyInput, rng)
      else let (cs, rng') = draws draw (threshold - 1) rng in (polynomial_new (constant # cs), rng'))"

definition polynomial_evaluate :: "'s::field list \<Rightarrow> 's \<Rightarrow> 's" where
  "polynomial_evaluate cs node = foldl (\<lambda>acc c. acc * node + c) 0 (rev cs)"

definition polynomial_commitments :: "('s, 'g, 'z) profile_scheme \<Rightarrow> 's list \<Rightarrow> 'g list" where
  "polynomial_commitments P cs = map (element_from_scalar P) cs"

definition evaluate_commitments ::
  "('s, 'g::ab_group_add, 'z) profile_scheme \<Rightarrow> 'g list \<Rightarrow> 's \<Rightarrow> 'g" where
  "evaluate_commitments P gs node = foldl (\<lambda>value g. gc_smul P node value + g) 0 (rev gs)"

section \<open>Interpolation\<close>

definition validate_support :: "'s list \<Rightarrow> unit result" where
  "validate_support nodes =
     (if nodes = [] then Inl EmptyInput
      else scan_prior (\<lambda>prior n. if n \<in> set prior then Inl DuplicateNode else Inr ()) [] nodes)"

text \<open>The inner loop of \<open>lagrange_at_zero\<close>: numerator and denominator of coefficient \<open>i\<close>.\<close>

definition lagrange_products :: "'s::field list \<Rightarrow> nat \<Rightarrow> 's \<Rightarrow> 's \<times> 's" where
  "lagrange_products nodes i node_i =
     foldl (\<lambda>(num, den) (j, node_j).
        if i = j then (num, den) else (num * (0 - node_j), den * (node_i - node_j)))
       (1, 1) (enumerate 0 nodes)"

definition field_invert :: "'s::field \<Rightarrow> 's option" where
  "field_invert x = (if x = 0 then None else Some (inverse x))"

definition lagrange_at_zero :: "'s::field list \<Rightarrow> 's list result" where
  "lagrange_at_zero nodes =
     and_then (validate_support nodes) (\<lambda>_.
       collect_results (\<lambda>(i, node_i).
         let (num, den) = lagrange_products nodes i node_i in
         and_then (ok_or DuplicateNode (field_invert den)) (\<lambda>inv. Inr (num * inv)))
         (enumerate 0 nodes))"

definition interpolate_constant :: "'s::field list \<Rightarrow> 's list \<Rightarrow> 's result" where
  "interpolate_constant nodes values =
     (if length nodes \<noteq> length values then Inl LengthMismatch
      else and_then (lagrange_at_zero nodes) (\<lambda>row.
        Inr (foldl (\<lambda>sum (c, v). sum + c * v) 0 (zip row values))))"

section \<open>The Lagrange row\<close>

text \<open>The coefficient of node \<open>x\<close> at zero over a set of nodes.\<close>

definition lagrange :: "'s::field set \<Rightarrow> 's \<Rightarrow> 's" where
  "lagrange A x = (\<Prod>y \<in> A - {x}. - y / (x - y))"

lemma lagrange_remove:
  "finite A \<Longrightarrow> y \<in> A \<Longrightarrow> y \<noteq> x \<Longrightarrow>
     lagrange A x = lagrange (A - {y}) x * (- y / (x - y))"
  unfolding lagrange_def
  by (subst prod.remove [of _ y]) (auto simp: mult.commute Diff_insert2 [symmetric] insert_commute
      Diff_insert [symmetric])

lemma lagrange_remove_mult:
  "finite A \<Longrightarrow> y \<in> A \<Longrightarrow> y \<noteq> x \<Longrightarrow> lagrange A x * (x - y) = - y * lagrange (A - {y}) x"
  by (simp add: lagrange_remove [of A y x])

lemma aitken_identity:
  fixes a b x l :: "'s::field"
  assumes "x \<noteq> a" "x \<noteq> b"
  shows "(a - b) * (l * (- a / (x - a)) * (- b / (x - b))) =
    - b * (l * (- a / (x - a))) + a * (l * (- b / (x - b)))"
  using assms by (simp add: divide_simps) (simp add: algebra_simps)

lemma lagrange_sum_one:
  fixes A :: "'s::field set"
  assumes "finite A" "A \<noteq> {}"
  shows "(\<Sum>x \<in> A. lagrange A x) = 1"
  using assms
proof (induction "card A" arbitrary: A rule: less_induct)
  case less
  show ?case
  proof (cases "\<exists>a. A = {a}")
    case True
    then show ?thesis by (auto simp: lagrange_def)
  next
    case False
    with less.prems obtain a b where ab: "a \<in> A" "b \<in> A" "a \<noteq> b"
      by (metis insertI1 subset_singletonD subsetI singletonD empty_iff)
    define p q where "p = (\<lambda>x. if x = b then 0 else lagrange (A - {b}) x)"
      and "q = (\<lambda>x. if x = a then 0 else lagrange (A - {a}) x)"
    have aitken: "(a - b) * lagrange A x = - b * p x + a * q x" if "x \<in> A" for x
    proof -
      consider "x = a" | "x = b" | "x \<noteq> a" "x \<noteq> b" by blast
      then show ?thesis
      proof cases
        case 1
        with ab lagrange_remove [of A b a] less.prems show ?thesis
          by (simp add: p_def q_def field_simps)
      next
        case 2
        with ab lagrange_remove [of A a b] less.prems show ?thesis
          by (simp add: p_def q_def field_simps)
      next
        case 3
        define l where "l = lagrange (A - {b} - {a}) x"
        have "A - {a} - {b} = A - {b} - {a}" by blast
        with ab 3 less.prems lagrange_remove [of A b x] lagrange_remove [of "A - {b}" a x]
          lagrange_remove [of "A - {a}" b x]
        have eqs: "lagrange A x = l * (- a / (x - a)) * (- b / (x - b))"
          "lagrange (A - {b}) x = l * (- a / (x - a))" "lagrange (A - {a}) x = l * (- b / (x - b))"
          by (simp_all add: l_def)
        have "p x = lagrange (A - {b}) x" "q x = lagrange (A - {a}) x"
          using 3 by (simp_all add: p_def q_def)
        then show ?thesis unfolding eqs using aitken_identity [OF 3] by simp
      qed
    qed
    have "(\<Sum>x \<in> A. p x) = (\<Sum>x \<in> A - {b}. lagrange (A - {b}) x)"
      using less.prems ab by (simp add: p_def sum.remove [of A b])
    also have "\<dots> = 1"
      using less.prems ab by (intro less.hyps) (auto simp: card_gt_0_iff)
    finally have p: "(\<Sum>x \<in> A. p x) = 1" .
    have "(\<Sum>x \<in> A. q x) = (\<Sum>x \<in> A - {a}. lagrange (A - {a}) x)"
      using less.prems ab by (simp add: q_def sum.remove [of A a])
    also have "\<dots> = 1"
      using less.prems ab by (intro less.hyps) (auto simp: card_gt_0_iff)
    finally have q: "(\<Sum>x \<in> A. q x) = 1" .
    have "(a - b) * (\<Sum>x \<in> A. lagrange A x) = (\<Sum>x \<in> A. - b * p x + a * q x)"
      by (simp add: sum_distrib_left aitken)
    also have "\<dots> = - b * (\<Sum>x \<in> A. p x) + a * (\<Sum>x \<in> A. q x)"
      by (simp only: sum.distrib sum_distrib_left)
    also have "\<dots> = a - b" by (simp add: p q)
    finally show ?thesis using ab by simp
  qed
qed

section \<open>Evaluation over an action\<close>

locale horner =
  fixes act :: "'s::field \<Rightarrow> 'g::ab_group_add \<Rightarrow> 'g"
  assumes act_add: "act (a + b) g = act a g + act b g"
    and act_add_right: "act a (g + h) = act a g + act a h"
    and act_mult: "act (a * b) g = act a (act b g)"
    and act_one: "act 1 g = g"
begin

definition eval :: "'g list \<Rightarrow> 's \<Rightarrow> 'g" where
  "eval gs x = foldl (\<lambda>acc g. act x acc + g) 0 (rev gs)"

lemma eval_simps [simp]:
  "eval [] x = 0"
  "eval (g # gs) x = act x (eval gs x) + g"
  by (simp_all add: eval_def)

lemma act_zero_right [simp]: "act a 0 = 0"
  using act_add_right [of a 0 0] by simp

lemma act_zero [simp]: "act 0 g = 0"
  using act_add [of 0 0 g] by simp

lemma act_minus: "act (- a) g = - act a g"
  using act_add [of a "- a" g] by (simp add: minus_unique)

lemma act_sum_right: "act a (\<Sum>x \<in> A. f x) = (\<Sum>x \<in> A. act a (f x))"
  by (induction A rule: infinite_finite_induct) (simp_all add: act_add_right)

lemma act_sum: "act (\<Sum>x \<in> A. f x) g = (\<Sum>x \<in> A. act (f x) g)"
  by (induction A rule: infinite_finite_induct) (simp_all add: act_add)

lemma act_diff: "act (a - b) g = act a g - act b g"
  using act_add [of a "- b" g] by (simp add: act_minus)

lemma eval_zero: "eval gs 0 = (if gs = [] then 0 else hd gs)"
  by (cases gs) simp_all

text \<open>Synthetic division by a node.\<close>

lemma eval_divide:
  "\<exists>qs. length qs = length gs - 1 \<and> (\<forall>y. eval gs y = eval gs x + act (y - x) (eval qs y))"
proof (induction gs)
  case (Cons g gs)
  show ?case
  proof (cases "gs = []")
    case False
    from Cons obtain qs where qs: "length qs = length gs - 1"
      "\<And>y. eval gs y = eval gs x + act (y - x) (eval qs y)" by blast
    have "eval (g # gs) y = eval (g # gs) x + act (y - x) (eval (eval gs x # qs) y)" for y
    proof -
      have "act y (eval gs y) = act y (eval gs x) + act (y - x) (act y (eval qs y))"
        by (simp add: qs(2) [of y] act_add_right act_mult [symmetric] mult.commute)
      moreover have "act y (eval gs x) = act x (eval gs x) + act (y - x) (eval gs x)"
        by (simp add: act_add [symmetric])
      ultimately show ?thesis by (simp add: act_add_right)
    qed
    moreover have "length (eval gs x # qs) = length (g # gs) - 1"
      using qs(1) False by (cases gs) auto
    ultimately show ?thesis by blast
  qed (auto intro!: exI [of _ "[]"])
qed (auto intro!: exI [of _ "[]"])

text \<open>Interpolation at zero is exact once the nodes are as many as the coefficients.\<close>

theorem interpolation:
  assumes "finite A" "length gs \<le> card A"
  shows "(\<Sum>x \<in> A. act (lagrange A x) (eval gs x)) = eval gs 0"
  using assms
proof (induction "length gs" arbitrary: gs A)
  case (Suc n)
  then have "A \<noteq> {}" by auto
  then obtain a where a: "a \<in> A" by blast
  obtain qs where qs: "length qs = length gs - 1"
    "\<And>y. eval gs y = eval gs a + act (y - a) (eval qs y)"
    using eval_divide [of gs a] by blast
  have step: "act (lagrange A x) (act (x - a) (eval qs x)) =
      act (- a) (act (lagrange (A - {a}) x) (eval qs x))" if "x \<in> A - {a}" for x
  proof -
    have "lagrange A x * (x - a) = - a * lagrange (A - {a}) x"
      using that a Suc.prems by (intro lagrange_remove_mult) auto
    then show ?thesis by (metis act_mult)
  qed
  have "(\<Sum>x \<in> A. act (lagrange A x) (eval gs x)) =
      (\<Sum>x \<in> A. act (lagrange A x) (eval gs a) + act (lagrange A x) (act (x - a) (eval qs x)))"
    by (intro sum.cong refl) (metis qs(2) act_add_right)
  also have "\<dots> = eval gs a + (\<Sum>x \<in> A. act (lagrange A x) (act (x - a) (eval qs x)))"
    using lagrange_sum_one [OF Suc.prems(1) \<open>A \<noteq> {}\<close>]
    by (simp add: sum.distrib act_sum [symmetric] act_one)
  also have "(\<Sum>x \<in> A. act (lagrange A x) (act (x - a) (eval qs x))) =
      (\<Sum>x \<in> A - {a}. act (- a) (act (lagrange (A - {a}) x) (eval qs x)))"
    using a Suc.prems step by (simp add: sum.remove)
  also have "\<dots> = act (- a) (eval qs 0)"
    using Suc.hyps(1) [of qs "A - {a}"] Suc.hyps(2) Suc.prems a qs(1)
    by (simp add: act_sum_right [symmetric])
  also have "eval gs a + act (- a) (eval qs 0) = eval gs 0" using qs(2) [of 0] by simp
  finally show ?case .
qed simp

end

interpretation scalar: horner "(*) :: 's::field \<Rightarrow> 's \<Rightarrow> 's"
  by unfold_locales (simp_all add: algebra_simps)

lemma group_horner: "group_ok P \<Longrightarrow> horner (gc_smul P)"
  by unfold_locales (simp_all add: smul_add smul_add_right smul_mult smul_one)

lemma polynomial_evaluate_eval: "polynomial_evaluate cs x = scalar.eval cs x"
  by (simp add: polynomial_evaluate_def scalar.eval_def mult.commute)

lemma evaluate_commitments_eval:
  "group_ok P \<Longrightarrow> evaluate_commitments P gs x = horner.eval (gc_smul P) gs x"
  by (simp add: evaluate_commitments_def horner.eval_def [OF group_horner])

section \<open>What the functions compute\<close>

lemma validate_support_Inr [result_simps]:
  "validate_support nodes = Inr u \<longleftrightarrow> nodes \<noteq> [] \<and> distinct nodes"
  using distinct_prior [of nodes "\<lambda>x. x"]
  by (auto simp: validate_support_def scan_prior_Inr_iff result_simps split: if_splits)

lemma validate_support_Inl:
  "validate_support nodes = Inl e \<Longrightarrow> e = (if nodes = [] then EmptyInput else DuplicateNode)"
proof -
  have "scan_prior (\<lambda>prior n. if n \<in> set prior then Inl DuplicateNode else Inr ()) pre xs = Inl e
      \<Longrightarrow> e = DuplicateNode" for pre and xs :: "'a list"
    by (induction xs arbitrary: pre) (auto simp: and_then_Inl_iff split: if_splits)
  then show "validate_support nodes = Inl e \<Longrightarrow>
      e = (if nodes = [] then EmptyInput else DuplicateNode)"
    by (auto simp: validate_support_def split: if_splits)
qed

lemma lagrange_products_eq:
  assumes "distinct nodes" "i < length nodes"
  shows "lagrange_products nodes i (nodes ! i) =
    (\<Prod>y \<in> set nodes - {nodes ! i}. - y, \<Prod>y \<in> set nodes - {nodes ! i}. nodes ! i - y)"
proof -
  let ?x = "nodes ! i"
  have fold: "foldl (\<lambda>(num, den) (j, y). if i = j then (num, den)
        else (num * (0 - y), den * (?x - y))) (n, d) (enumerate k ys) =
      (n * prod_list (map (\<lambda>y. - y) (filter ((\<noteq>) ?x) ys)),
       d * prod_list (map (\<lambda>y. ?x - y) (filter ((\<noteq>) ?x) ys)))"
    if "\<forall>j < length ys. (i = k + j) = (?x = ys ! j)" for n d k ys
    using that
  proof (induction ys arbitrary: n d k)
    case (Cons y ys)
    have "\<forall>j < length ys. (i = Suc k + j) = (?x = ys ! j)"
    proof (intro allI impI)
      fix j
      assume "j < length ys"
      then show "(i = Suc k + j) = (?x = ys ! j)" using Cons.prems [rule_format, of "Suc j"] by simp
    qed
    note IH = Cons.IH [OF this]
    have "(i = k) = (?x = y)" using Cons.prems [rule_format, of 0] by simp
    with IH show ?case by (cases "i = k") (simp_all add: mult.assoc)
  qed simp
  have "\<forall>j < length nodes. (i = 0 + j) = (?x = nodes ! j)"
    using assms by (auto simp: nth_eq_iff_index_eq)
  from fold [OF this, of 1 1] have "lagrange_products nodes i ?x =
      (prod_list (map (\<lambda>y. - y) (filter ((\<noteq>) ?x) nodes)),
       prod_list (map (\<lambda>y. ?x - y) (filter ((\<noteq>) ?x) nodes)))"
    by (simp add: lagrange_products_def)
  moreover have "prod_list (map f (filter ((\<noteq>) ?x) nodes)) = (\<Prod>y \<in> set nodes - {?x}. f y)"
    for f :: "'a \<Rightarrow> 'a"
  proof -
    have "set (filter ((\<noteq>) ?x) nodes) = set nodes - {?x}" by auto
    with assms(1) show ?thesis by (metis distinct_filter prod.distinct_set_conv_list)
  qed
  ultimately show ?thesis by simp
qed

theorem lagrange_at_zero_eq:
  assumes "nodes \<noteq> []" "distinct nodes"
  shows "lagrange_at_zero nodes = Inr (map (lagrange (set nodes)) nodes)"
proof -
  let ?f = "\<lambda>(i, node_i). let (num, den) = lagrange_products nodes i node_i in
      and_then (ok_or DuplicateNode (field_invert den)) (\<lambda>inv. Inr (num * inv))"
  have "?f p = Inr (lagrange (set nodes) (snd p))" if "p \<in> set (enumerate 0 nodes)" for p
  proof -
    obtain i x where ix: "p = (i, x)" by (cases p)
    with that have p: "p = (i, nodes ! i)" "i < length nodes"
      by (simp_all add: in_set_enumerate_eq)
    have "(\<Prod>y \<in> set nodes - {nodes ! i}. nodes ! i - y) \<noteq> 0" by (subst prod_zero_iff) auto
    moreover have "(\<Prod>y \<in> set nodes - {nodes ! i}. - y)
        * inverse (\<Prod>y \<in> set nodes - {nodes ! i}. nodes ! i - y) = lagrange (set nodes) (nodes ! i)"
      unfolding lagrange_def prod_dividef by (simp only: divide_inverse)
    ultimately show ?thesis
      using p assms by (simp add: lagrange_products_eq field_invert_def)
  qed
  then have "collect_results ?f (enumerate 0 nodes) =
      Inr (map (\<lambda>p. lagrange (set nodes) (snd p)) (enumerate 0 nodes))"
    by (rule collect_results_map)
  also have "map (\<lambda>p. lagrange (set nodes) (snd p)) (enumerate 0 nodes) =
      map (lagrange (set nodes)) (map snd (enumerate 0 nodes))"
    by (simp only: map_map comp_def)
  also have "\<dots> = map (lagrange (set nodes)) nodes" by (simp only: map_snd_enumerate)
  finally show ?thesis
    using assms validate_support_Inr [of nodes "()"]
    by (simp add: lagrange_at_zero_def)
qed

lemma lagrange_at_zero_Inr [result_simps]:
  "lagrange_at_zero nodes = Inr row \<longleftrightarrow>
     nodes \<noteq> [] \<and> distinct nodes \<and> row = map (lagrange (set nodes)) nodes"
  using validate_support_Inr [of nodes "()"] lagrange_at_zero_eq [of nodes]
  by (auto simp: lagrange_at_zero_def and_then_Inr_iff)

lemma foldl_dot:
  "foldl (\<lambda>sum (c, v). sum + c * v) (s :: 's::field) (zip (map f xs) (map g xs)) =
     s + (\<Sum>x\<leftarrow>xs. f x * g x)"
  by (induction xs arbitrary: s) (simp_all add: add.assoc)

lemma interpolate_constant_map:
  assumes "nodes \<noteq> []" "distinct nodes"
  shows "interpolate_constant nodes (map f nodes) = Inr (\<Sum>x \<in> set nodes. lagrange (set nodes) x * f x)"
  using assms
  by (simp add: interpolate_constant_def lagrange_at_zero_eq foldl_dot sum_list_distinct_conv_sum_set)

lemma evaluate_commitments_commit:
  assumes "group_ok P"
  shows "evaluate_commitments P (polynomial_commitments P cs) x =
    element_from_scalar P (polynomial_evaluate cs x)"
proof -
  have "horner.eval (gc_smul P) (map (element_from_scalar P) cs) x =
      element_from_scalar P (scalar.eval cs x)"
    by (induction cs)
       (simp_all add: horner.eval_simps [OF group_horner [OF assms]] element_from_scalar_add
          element_from_scalar_mult element_from_scalar_zero assms)
  then show ?thesis
    by (simp add: evaluate_commitments_eval assms polynomial_commitments_def polynomial_evaluate_eval)
qed

end
