(* ===== verification/Ksnf_Support.thy ===== *)
theory Ksnf_Support
  imports Ksnf_Shamir
begin

text \<open>
  Accepted signing supports (\<open>src/support.rs\<close>) and the affine share translation with its
  key scopes (\<open>src/keys.rs\<close>).
\<close>

section \<open>Keys\<close>

record anchor_id =
  an_vault :: vault_id
  an_person :: person_id
  an_identity :: activation_handle
  an_member :: activation_handle

record key_epoch =
  ke_outer :: outer_epoch
  ke_inner :: inner_epoch
  ke_anchor :: anchor_id

lemma anchor_id_eq [record_eqs]:
  "a = \<lparr>an_vault = v, an_person = p, an_identity = i, an_member = m\<rparr> \<longleftrightarrow>
     an_vault a = v \<and> an_person a = p \<and> an_identity a = i \<and> an_member a = m"
  by (cases a) auto

lemma key_epoch_eq [record_eqs]:
  "e = \<lparr>ke_outer = u, ke_inner = i, ke_anchor = a\<rparr> \<longleftrightarrow>
     ke_outer e = u \<and> ke_inner e = i \<and> ke_anchor e = a"
  by (cases e) auto

definition anchor_share :: "'s::field \<Rightarrow> 's \<Rightarrow> 's" where
  "anchor_share member identity = member - identity"

definition signing_share :: "'s::field \<Rightarrow> 's \<Rightarrow> 's" where
  "signing_share identity anchor = identity + anchor"

definition verify_anchor :: "'g::ab_group_add \<Rightarrow> 'g \<Rightarrow> 'g \<Rightarrow> bool" where
  "verify_anchor identity anchor member \<longleftrightarrow> identity + anchor = member"

lemma signing_share_anchor [simp]: "signing_share i (anchor_share m i) = m"
  by (simp add: signing_share_def anchor_share_def)

lemma verify_anchor_iff:
  "group_ok P \<Longrightarrow> verify_anchor (element_from_scalar P i) (element_from_scalar P a)
     (element_from_scalar P m) \<longleftrightarrow> m = signing_share i a"
  by (auto simp: verify_anchor_def signing_share_def element_from_scalar_add [symmetric]
      element_from_scalar_inject)

section \<open>Participants\<close>

record ('s, 'g) device_participant =
  dp_device :: device_id
  dp_node :: 's
  dp_share :: 'g

lemma device_participant_eq [record_eqs]:
  "p = \<lparr>dp_device = d, dp_node = n, dp_share = s\<rparr> \<longleftrightarrow>
     dp_device p = d \<and> dp_node p = n \<and> dp_share p = s"
  by (cases p) auto

record ('s, 'g) person_participant =
  pp_person :: person_id
  pp_slot :: slot
  pp_node :: 's
  pp_member :: 'g

record 's inner_coefficient =
  ic_device :: device_id
  ic_scalar :: 's

record ('s, 'g) outer_coefficient =
  ocf_person :: person_id
  ocf_slot :: slot
  ocf_member :: 'g
  ocf_scalar :: 's

record 's source_weight =
  sw_device :: device_id
  sw_scalar :: 's

record ('s, 'g) inner_support =
  is_participants :: "('s, 'g) device_participant list"
  is_coefficients :: "'s list"

record ('s, 'g) outer_support =
  os_participants :: "('s, 'g) person_participant list"
  os_coefficients :: "'s list"

section \<open>Supports\<close>

definition reject_duplicate_devices :: "('s, 'g) device_participant list \<Rightarrow> unit result" where
  "reject_duplicate_devices ps =
     scan_prior (\<lambda>prior p. if dp_device p \<in> dp_device ` set prior
        then Inl DuplicateParticipant else Inr ()) [] ps"

definition reject_duplicate_people :: "('s, 'g) person_participant list \<Rightarrow> unit result" where
  "reject_duplicate_people ps =
     scan_prior (\<lambda>prior p.
        if pp_slot p \<in> pp_slot ` set prior then Inl DuplicateSlot
        else if pp_person p \<in> pp_person ` set prior then Inl DuplicateParticipant
        else Inr ()) [] ps"

definition inner_support_new ::
  "('s::field, 'g) device_participant list \<Rightarrow> ('s, 'g) inner_support result" where
  "inner_support_new participants =
     (if participants = [] then Inl EmptyInput
      else let ps = sort_key dp_device participants in
        and_then (reject_duplicate_devices ps) (\<lambda>_.
        and_then (lagrange_at_zero (map dp_node ps)) (\<lambda>cs.
        Inr \<lparr>is_participants = ps, is_coefficients = cs\<rparr>)))"

text \<open>An index into \<open>participants\<close> is one into \<open>coefficients\<close>: they are built together.\<close>

definition inner_coefficient_of ::
  "('s, 'g) inner_support \<Rightarrow> device_id \<Rightarrow> 's inner_coefficient result" where
  "inner_coefficient_of s device =
     and_then (ok_or ParticipantNotFound
         (search_key (dp_device \<circ> fst) device (zip (is_participants s) (is_coefficients s))))
       (\<lambda>(_, c). Inr \<lparr>ic_device = device, ic_scalar = c\<rparr>)"

definition inner_participant ::
  "('s, 'g) inner_support \<Rightarrow> device_id \<Rightarrow> ('s, 'g) device_participant result" where
  "inner_participant s device =
     ok_or ParticipantNotFound (search_key dp_device device (is_participants s))"

definition inner_source_weight ::
  "('s, 'g) inner_support \<Rightarrow> device_id \<Rightarrow> 's source_weight result" where
  "inner_source_weight s device =
     and_then (inner_coefficient_of s device) (\<lambda>c.
       Inr \<lparr>sw_device = device, sw_scalar = ic_scalar c\<rparr>)"

definition outer_support_new ::
  "('s::field, 'g) person_participant list \<Rightarrow> ('s, 'g) outer_support result" where
  "outer_support_new participants =
     (if participants = [] then Inl EmptyInput
      else let ps = sort_key pp_slot participants in
        and_then (reject_duplicate_people ps) (\<lambda>_.
        and_then (lagrange_at_zero (map pp_node ps)) (\<lambda>cs.
        Inr \<lparr>os_participants = ps, os_coefficients = cs\<rparr>)))"

definition outer_coefficient_of ::
  "('s, 'g) outer_support \<Rightarrow> person_id \<Rightarrow> ('s, 'g) outer_coefficient result" where
  "outer_coefficient_of s person =
     and_then (ok_or ParticipantNotFound
         (find (\<lambda>q. pp_person (fst q) = person) (zip (os_participants s) (os_coefficients s))))
       (\<lambda>(p, c). Inr \<lparr>ocf_person = person, ocf_slot = pp_slot p, ocf_member = pp_member p,
                     ocf_scalar = c\<rparr>)"

definition outer_participant ::
  "('s, 'g) outer_support \<Rightarrow> slot \<Rightarrow> ('s, 'g) person_participant result" where
  "outer_participant s sl =
     ok_or ParticipantNotFound (search_key pp_slot sl (os_participants s))"

definition outer_source_weight ::
  "('s::times, 'g) outer_support \<Rightarrow> person_id \<Rightarrow> ('s, 'h) inner_support \<Rightarrow> device_id
     \<Rightarrow> 's source_weight result" where
  "outer_source_weight s person inner device =
     and_then (outer_coefficient_of s person) (\<lambda>o'.
     and_then (inner_coefficient_of inner device) (\<lambda>i.
       Inr \<lparr>sw_device = device, sw_scalar = ocf_scalar o' * ic_scalar i\<rparr>))"

section \<open>Well-formed supports\<close>

definition inner_support_ok :: "('s::field, 'g) inner_support \<Rightarrow> bool" where
  "inner_support_ok s \<longleftrightarrow> is_participants s \<noteq> []
     \<and> sorted_wrt (<) (map dp_device (is_participants s))
     \<and> distinct (map dp_node (is_participants s))
     \<and> is_coefficients s = map (lagrange (dp_node ` set (is_participants s)) \<circ> dp_node)
         (is_participants s)"

definition outer_support_ok :: "('s::field, 'g) outer_support \<Rightarrow> bool" where
  "outer_support_ok s \<longleftrightarrow> os_participants s \<noteq> []
     \<and> sorted_wrt (<) (map pp_slot (os_participants s))
     \<and> distinct (map pp_person (os_participants s)) \<and> distinct (map pp_node (os_participants s))
     \<and> os_coefficients s = map (lagrange (pp_node ` set (os_participants s)) \<circ> pp_node)
         (os_participants s)"

lemma reject_duplicate_devices_Inr [result_simps]:
  "reject_duplicate_devices ps = Inr u \<longleftrightarrow> distinct (map dp_device ps)"
  by (simp add: reject_duplicate_devices_def scan_prior_Inr_iff distinct_prior [symmetric]
      if_Inl_eq_Inr)

lemma reject_duplicate_people_Inr [result_simps]:
  "reject_duplicate_people ps = Inr u \<longleftrightarrow>
     distinct (map pp_slot ps) \<and> distinct (map pp_person ps)"
  by (auto simp: reject_duplicate_people_def scan_prior_Inr_iff distinct_prior [symmetric]
      if_Inl_eq_Inr)

lemma distinct_map_sort_key:
  fixes key :: "'a \<Rightarrow> 'k::linorder"
  shows "distinct (map f (sort_key key xs)) \<longleftrightarrow> distinct (map f xs)"
proof -
  have "mset (map f (sort_key key xs)) = mset (map f xs)" by simp
  then show ?thesis by (rule mset_eq_imp_distinct_iff)
qed

lemma sort_key_eq_Nil [simp]: "sort_key (key :: 'a \<Rightarrow> 'k::linorder) xs = [] \<longleftrightarrow> xs = []"
  by (metis length_0_conv length_sort)

lemma inner_support_new_Inr:
  "inner_support_new ps = Inr s \<longleftrightarrow>
     ps \<noteq> [] \<and> distinct (map dp_device ps) \<and> distinct (map dp_node ps)
     \<and> inner_support_ok s \<and> is_participants s = sort_key dp_device ps"
proof -
  have "inner_support_new ps = Inr s \<longleftrightarrow>
      ps \<noteq> [] \<and> distinct (map dp_device ps) \<and> distinct (map dp_node ps)
      \<and> s = \<lparr>is_participants = sort_key dp_device ps,
             is_coefficients = map (lagrange (dp_node ` set ps) \<circ> dp_node) (sort_key dp_device ps)\<rparr>"
    by (auto simp: inner_support_new_def Let_def result_simps distinct_map_sort_key)
  then show ?thesis
    by (cases s)
       (auto simp: inner_support_ok_def strict_sorted_iff distinct_map_sort_key)
qed

lemma outer_support_new_Inr:
  "outer_support_new ps = Inr s \<longleftrightarrow>
     ps \<noteq> [] \<and> distinct (map pp_slot ps) \<and> distinct (map pp_person ps) \<and> distinct (map pp_node ps)
     \<and> outer_support_ok s \<and> os_participants s = sort_key pp_slot ps"
proof -
  have "outer_support_new ps = Inr s \<longleftrightarrow>
      ps \<noteq> [] \<and> distinct (map pp_slot ps) \<and> distinct (map pp_person ps) \<and> distinct (map pp_node ps)
      \<and> s = \<lparr>os_participants = sort_key pp_slot ps,
             os_coefficients = map (lagrange (pp_node ` set ps) \<circ> pp_node) (sort_key pp_slot ps)\<rparr>"
    by (auto simp: outer_support_new_def Let_def result_simps distinct_map_sort_key)
  then show ?thesis
    by (cases s)
       (auto simp: outer_support_ok_def strict_sorted_iff distinct_map_sort_key)
qed

lemma inner_support_devices:
  "inner_support_ok s \<Longrightarrow> distinct (map dp_device (is_participants s))"
  by (simp add: inner_support_ok_def strict_sorted_iff)

lemma outer_support_slots:
  "outer_support_ok s \<Longrightarrow> distinct (map pp_slot (os_participants s))"
  by (simp add: outer_support_ok_def strict_sorted_iff)

lemma inner_participant_Inr:
  "inner_support_ok s \<Longrightarrow>
     inner_participant s d = Inr p \<longleftrightarrow> p \<in> set (is_participants s) \<and> dp_device p = d"
  using search_key_distinct [OF inner_support_devices, of s p]
  by (auto simp: inner_participant_def result_simps dest: search_key_SomeD)

lemma outer_participant_Inr:
  "outer_support_ok s \<Longrightarrow>
     outer_participant s sl = Inr p \<longleftrightarrow> p \<in> set (os_participants s) \<and> pp_slot p = sl"
  using search_key_distinct [OF outer_support_slots, of s p]
  by (auto simp: outer_participant_def result_simps dest: search_key_SomeD)

lemma inner_coefficient_of_participant:
  assumes "inner_support_ok s" "p \<in> set (is_participants s)"
  shows "inner_coefficient_of s (dp_device p) = Inr \<lparr>ic_device = dp_device p,
    ic_scalar = lagrange (dp_node ` set (is_participants s)) (dp_node p)\<rparr>"
proof -
  let ?f = "lagrange (dp_node ` set (is_participants s)) \<circ> dp_node"
  have z: "zip (is_participants s) (is_coefficients s) = map (\<lambda>p. (p, ?f p)) (is_participants s)"
    using assms(1) by (simp add: inner_support_ok_def zip_map2 zip_same_conv_map)
  have "distinct (map (dp_device \<circ> fst) (map (\<lambda>p. (p, ?f p)) (is_participants s)))"
    using inner_support_devices [OF assms(1)] by (simp add: comp_def)
  from search_key_distinct [OF this, of "(p, ?f p)"] assms(2) show ?thesis
    by (auto simp: inner_coefficient_of_def z)
qed

lemma inner_coefficient_of_Inl:
  assumes "inner_support_ok s" "d \<notin> dp_device ` set (is_participants s)"
  shows "inner_coefficient_of s d = Inl ParticipantNotFound"
proof -
  have "search_key (dp_device \<circ> fst) d (zip (is_participants s) (is_coefficients s)) = None"
    using assms(2) by (auto simp: search_key_None_iff dest: set_zip_leftD)
  then show ?thesis by (simp add: inner_coefficient_of_def)
qed

lemma find_distinct:
  "distinct (map f xs) \<Longrightarrow> x \<in> set xs \<Longrightarrow> find (\<lambda>y. f y = f x) xs = Some x"
  by (induction xs) (auto simp: image_iff)

lemma outer_coefficient_of_participant:
  assumes "outer_support_ok s" "p \<in> set (os_participants s)"
  shows "outer_coefficient_of s (pp_person p) = Inr \<lparr>ocf_person = pp_person p,
    ocf_slot = pp_slot p, ocf_member = pp_member p,
    ocf_scalar = lagrange (pp_node ` set (os_participants s)) (pp_node p)\<rparr>"
proof -
  let ?f = "lagrange (pp_node ` set (os_participants s)) \<circ> pp_node"
  have z: "zip (os_participants s) (os_coefficients s) = map (\<lambda>p. (p, ?f p)) (os_participants s)"
    using assms(1) by (simp add: outer_support_ok_def zip_map2 zip_same_conv_map)
  have "distinct (map (pp_person \<circ> fst) (map (\<lambda>p. (p, ?f p)) (os_participants s)))"
    using assms(1) by (simp add: comp_def outer_support_ok_def)
  from find_distinct [OF this, of "(p, ?f p)"] assms(2) show ?thesis
    by (auto simp: outer_coefficient_of_def z case_prod_beta comp_def)
qed

end
