(* ===== verification/Ksnf_Nonce.thy ===== *)
theory Ksnf_Nonce
  imports Ksnf_Encoding Ksnf_Support
begin

text \<open>
  The signing values and equations of \<open>src/signing.rs\<close>: dual nonces, device nonce sets,
  responses and signatures with their wire forms, and the three verification equations. The
  functions that need a transcript are in the theory \<open>Ksnf_Signing\<close>.
\<close>

section \<open>Nonces\<close>

record 'g nonce_pair =
  np_hiding :: 'g
  np_binding :: 'g

definition nonce_bind ::
  "('s, 'g::plus, 'z) profile_scheme \<Rightarrow> 'g nonce_pair \<Rightarrow> 's \<Rightarrow> 'g" where
  "nonce_bind P pair binding_factor = np_hiding pair + gc_smul P binding_factor (np_binding pair)"

record 'g device_nonce =
  dn_attempt :: leaf_attempt
  dn_nonce :: "'g nonce_pair"

abbreviation dn_device :: "'g device_nonce \<Rightarrow> device_id" where
  "dn_device e \<equiv> la_device (dn_attempt e)"

record 'g device_nonce_set =
  dns_entries :: "'g device_nonce list"
  dns_aggregate :: "'g nonce_pair"

definition sum_nonce_pairs :: "'g::ab_group_add nonce_pair list \<Rightarrow> 'g nonce_pair result" where
  "sum_nonce_pairs pairs =
     (let (hiding, binding) = foldl (\<lambda>(h, b) pair. (h + np_hiding pair, b + np_binding pair)) (0, 0) pairs in
      and_then (map_err (\<lambda>_. IdentityNonce) (point_new hiding)) (\<lambda>h.
      and_then (map_err (\<lambda>_. IdentityNonce) (point_new binding)) (\<lambda>b.
      Inr \<lparr>np_hiding = h, np_binding = b\<rparr>)))"

definition device_nonce_set_new ::
  "('s, 'g) inner_support \<Rightarrow> 'g::ab_group_add device_nonce list \<Rightarrow> 'g device_nonce_set result" where
  "device_nonce_set_new support entries =
     (let es = sort_key dn_device entries in
      if length es \<noteq> length (is_participants support) then Inl SupportMismatch
      else if any_adjacent (\<lambda>a b. dn_device a = dn_device b) es then Inl DuplicateParticipant
      else if list_ex (\<lambda>(e, p). dn_device e \<noteq> dp_device p) (zip es (is_participants support))
        then Inl SupportMismatch
      else and_then (sum_nonce_pairs (map dn_nonce es)) (\<lambda>agg.
        Inr \<lparr>dns_entries = es, dns_aggregate = agg\<rparr>))"

definition set_nonce :: "'g device_nonce_set \<Rightarrow> device_id \<Rightarrow> 'g nonce_pair result" where
  "set_nonce s device = map_sum id dn_nonce
     (ok_or ParticipantNotFound (search_key dn_device device (dns_entries s)))"

definition set_attempt :: "'g device_nonce_set \<Rightarrow> device_id \<Rightarrow> leaf_attempt result" where
  "set_attempt s device = map_sum id dn_attempt
     (ok_or ParticipantNotFound (search_key dn_device device (dns_entries s)))"

definition set_validate_support ::
  "'g device_nonce_set \<Rightarrow> ('s, 'h) inner_support \<Rightarrow> unit result" where
  "set_validate_support s support =
     (if length (dns_entries s) \<noteq> length (is_participants support)
         \<or> list_ex (\<lambda>(e, p). dn_device e \<noteq> dp_device p)
             (zip (dns_entries s) (is_participants support))
      then Inl SupportMismatch else Inr ())"

text \<open>The volatile secret nonce. \<open>respond\<close> consumes it.\<close>

record 's secret_nonce =
  sn_hiding :: 's
  sn_binding :: 's

definition nonce_new :: "'s::zero \<Rightarrow> 's \<Rightarrow> 's secret_nonce result" where
  "nonce_new hiding binding =
     (if hiding = 0 \<or> binding = 0 then Inl ZeroNonce
      else Inr \<lparr>sn_hiding = hiding, sn_binding = binding\<rparr>)"

text \<open>The rejection loop of \<open>random_nonzero\<close>: \<open>None\<close> is a generator that only draws zero.\<close>

partial_function (option) random_nonzero ::
  "('r \<Rightarrow> 's::zero \<times> 'r) \<Rightarrow> 'r \<Rightarrow> ('s \<times> 'r) option" where
  "random_nonzero draw rng =
     (let (x, rng') = draw rng in if x \<noteq> 0 then Some (x, rng') else random_nonzero draw rng')"

definition nonce_sample ::
  "('r \<Rightarrow> 's::zero \<times> 'r) \<Rightarrow> 'r \<Rightarrow> ('s secret_nonce \<times> 'r) option" where
  "nonce_sample draw rng =
     (case random_nonzero draw rng of
        None \<Rightarrow> None
      | Some (h, rng1) \<Rightarrow>
          (case random_nonzero draw rng1 of
             None \<Rightarrow> None
           | Some (b, rng2) \<Rightarrow> Some (\<lparr>sn_hiding = h, sn_binding = b\<rparr>, rng2)))"

definition nonce_commitments ::
  "('s, 'g::zero, 'z) profile_scheme \<Rightarrow> 's secret_nonce \<Rightarrow> 'g nonce_pair result" where
  "nonce_commitments P n =
     and_then (point_from_scalar P (sn_hiding n)) (\<lambda>h.
     and_then (point_from_scalar P (sn_binding n)) (\<lambda>b.
     Inr \<lparr>np_hiding = h, np_binding = b\<rparr>))"

definition nonce_respond ::
  "'s::field secret_nonce \<Rightarrow> 's \<Rightarrow> 's \<Rightarrow> 's \<Rightarrow> 's \<Rightarrow> 's" where
  "nonce_respond n binding_factor challenge coefficient share =
     sn_hiding n + binding_factor * sn_binding n + challenge * coefficient * share"

section \<open>Responses\<close>

record 's device_response =
  dr_attempt :: leaf_attempt
  dr_scalar :: 's

abbreviation dr_device :: "'s device_response \<Rightarrow> device_id" where
  "dr_device r \<equiv> la_device (dr_attempt r)"

definition device_response_to_bytes ::
  "('s, 'g) profile \<Rightarrow> 's device_response \<Rightarrow> bytes" where
  "device_response_to_bytes P r =
     pf_wire_id P # ident_bytes (dr_device r)
       @ be_bytes 8 (unat (la_sequence (dr_attempt r))) @ gc_ser_scalar P (dr_scalar r)"

text \<open>\<open>get_u8\<close> and the comparison with the profile's wire identifier.\<close>

definition expect_version :: "('s, 'g) profile \<Rightarrow> unit getter" where
  "expect_version P = get_then get_u8 (\<lambda>v.
     get_ensure UnsupportedVersion (v = pf_wire_id P))"

definition device_response_from_bytes ::
  "('s::zero, 'g) profile \<Rightarrow> bytes \<Rightarrow> 's device_response result" where
  "device_response_from_bytes P bs =
     (if length bs \<noteq> 73 then Inl LengthMismatch
      else decode_all
        (get_then (expect_version P) (\<lambda>_.
         get_then get_ident (\<lambda>device.
         get_then get_u64 (\<lambda>sequence.
         get_then (get_scalar P) (\<lambda>scalar.
         get_return \<lparr>dr_attempt = \<lparr>la_device = device, la_sequence = sequence\<rparr>,
                     dr_scalar = scalar\<rparr>))))) bs)"

record 's member_response =
  mr_slot :: slot
  mr_scalar :: 's

definition member_response_to_bytes ::
  "('s, 'g) profile \<Rightarrow> 's member_response \<Rightarrow> bytes" where
  "member_response_to_bytes P r =
     pf_wire_id P # be_bytes 2 (unat (mr_slot r)) @ gc_ser_scalar P (mr_scalar r)"

definition member_response_from_bytes ::
  "('s::zero, 'g) profile \<Rightarrow> bytes \<Rightarrow> 's member_response result" where
  "member_response_from_bytes P bs =
     (if length bs \<noteq> 35 then Inl LengthMismatch
      else decode_all
        (get_then (expect_version P) (\<lambda>_.
         get_then get_u16 (\<lambda>slot.
         get_then (get_scalar P) (\<lambda>scalar.
         get_return \<lparr>mr_slot = slot, mr_scalar = scalar\<rparr>)))) bs)"

section \<open>Signatures and equations\<close>

record ('s, 'g) signature =
  sg_nonce :: 'g
  sg_response :: 's

definition signature_to_bytes ::
  "('s, 'g) profile \<Rightarrow> ('s, 'g) signature \<Rightarrow> bytes" where
  "signature_to_bytes P s =
     pf_encode_signature P (point_to_bytes P (sg_nonce s)) (gc_ser_scalar P (sg_response s))"

definition signature_from_bytes ::
  "('s, 'g::zero) profile \<Rightarrow> bytes \<Rightarrow> ('s, 'g) signature result" where
  "signature_from_bytes P bs =
     and_then (pf_decode_signature P bs) (\<lambda>(n, r).
     and_then (point_from_bytes P n) (\<lambda>nonce.
     and_then (ok_or InvalidScalar (gc_deser_scalar P r)) (\<lambda>response.
     Inr \<lparr>sg_nonce = nonce, sg_response = response\<rparr>)))"

definition binding_factor :: "('s, 'g) profile \<Rightarrow> bytes \<Rightarrow> 's result" where
  "binding_factor P preimage = pf_hash_to_scalar P BindDomain preimage"

definition schnorr_challenge :: "('s, 'g) profile \<Rightarrow> 'g \<Rightarrow> 'g \<Rightarrow> bytes \<Rightarrow> 's result" where
  "schnorr_challenge P nonce key message =
     pf_challenge P (point_to_bytes P nonce) (point_to_bytes P key) message"

definition signature_verify ::
  "('s, 'g::ab_group_add) profile \<Rightarrow> ('s, 'g) signature \<Rightarrow> 'g \<Rightarrow> bytes \<Rightarrow> unit result" where
  "signature_verify P s key message =
     and_then (schnorr_challenge P (sg_nonce s) key message) (\<lambda>c.
       if element_from_scalar P (sg_response s) = sg_nonce s + gc_smul P c key
       then Inr () else Inl InvalidSignature)"

definition aggregate_nonce ::
  "('s, 'g::ab_group_add, 'z) profile_scheme \<Rightarrow> ('g nonce_pair \<times> 's) list \<Rightarrow> 'g result" where
  "aggregate_nonce P pairs =
     (if pairs = [] then Inl EmptyInput
      else map_err (\<lambda>_. IdentityNonce)
        (point_new (foldl (\<lambda>sum (pair, b). sum + nonce_bind P pair b) 0 pairs)))"

definition verify_device ::
  "('s::times, 'g::ab_group_add, 'z) profile_scheme \<Rightarrow> 's \<Rightarrow> 'g nonce_pair \<Rightarrow> 's \<Rightarrow> 's \<Rightarrow> 's \<Rightarrow> 'g
     \<Rightarrow> unit result" where
  "verify_device P response nonce b c coefficient share =
     (if element_from_scalar P response = nonce_bind P nonce b + gc_smul P (c * coefficient) share
      then Inr () else Inl InvalidPartial)"

definition verify_member ::
  "('s::times, 'g::ab_group_add, 'z) profile_scheme \<Rightarrow> 's \<Rightarrow> 'g nonce_pair \<Rightarrow> 's \<Rightarrow> 's \<Rightarrow> 's \<Rightarrow> 'g
     \<Rightarrow> unit result" where
  "verify_member P response nonce b c outer_coefficient member =
     (if element_from_scalar P response
         = nonce_bind P nonce b + gc_smul P (c * outer_coefficient) member
      then Inr () else Inl InvalidPartial)"

section \<open>Facts\<close>

lemma map_sum_Inr [result_simps]: "map_sum f g r = Inr y \<longleftrightarrow> (\<exists>x. r = Inr x \<and> y = g x)"
  by (cases r) auto

lemma foldl_nonce_pairs:
  "foldl (\<lambda>(h, b) pair. (h + np_hiding pair, b + np_binding pair)) (h, b) pairs =
     (h + (\<Sum>p\<leftarrow>pairs. np_hiding p), b + (\<Sum>p\<leftarrow>pairs. np_binding p :: 'g::ab_group_add))"
  by (induction pairs arbitrary: h b) (simp_all add: add.assoc)

lemma sum_nonce_pairs_Inr [result_simps]:
  "sum_nonce_pairs pairs = Inr agg \<longleftrightarrow>
     (\<Sum>p\<leftarrow>pairs. np_hiding p) \<noteq> 0 \<and> (\<Sum>p\<leftarrow>pairs. np_binding p) \<noteq> 0
     \<and> agg = \<lparr>np_hiding = \<Sum>p\<leftarrow>pairs. np_hiding p, np_binding = \<Sum>p\<leftarrow>pairs. np_binding p\<rparr>"
  by (auto simp: sum_nonce_pairs_def foldl_nonce_pairs result_simps)

lemma not_list_ex_zip:
  "length xs = length ys \<Longrightarrow> \<not> list_ex (\<lambda>(x, y). f x \<noteq> g y) (zip xs ys) \<longleftrightarrow> map f xs = map g ys"
  by (induction xs ys rule: list_induct2) auto

definition nonce_set_ok :: "('s, 'g::ab_group_add) inner_support \<Rightarrow> 'g device_nonce_set \<Rightarrow> bool"
  where
  "nonce_set_ok support s \<longleftrightarrow>
     map dn_device (dns_entries s) = map dp_device (is_participants support)
     \<and> np_hiding (dns_aggregate s) = (\<Sum>e\<leftarrow>dns_entries s. np_hiding (dn_nonce e))
     \<and> np_binding (dns_aggregate s) = (\<Sum>e\<leftarrow>dns_entries s. np_binding (dn_nonce e))
     \<and> np_hiding (dns_aggregate s) \<noteq> 0 \<and> np_binding (dns_aggregate s) \<noteq> 0"

lemma device_nonce_set_new_Inr:
  "device_nonce_set_new support entries = Inr s \<Longrightarrow>
     nonce_set_ok support s \<and> dns_entries s = sort_key dn_device entries"
  by (auto simp: device_nonce_set_new_def Let_def result_simps nonce_set_ok_def not_list_ex_zip
      comp_def split: if_splits)

lemma set_validate_support_Inr [result_simps]:
  "set_validate_support s support = Inr u \<longleftrightarrow>
     map dn_device (dns_entries s) = map dp_device (is_participants support)"
  using not_list_ex_zip [of "dns_entries s" "is_participants support" dn_device dp_device]
  by (auto simp: set_validate_support_def dest: map_eq_imp_length_eq)

lemma set_nonce_entry:
  assumes "distinct (map dn_device (dns_entries s))" "e \<in> set (dns_entries s)"
  shows "set_nonce s (dn_device e) = Inr (dn_nonce e)"
    and "set_attempt s (dn_device e) = Inr (dn_attempt e)"
  using search_key_distinct [OF assms] by (simp_all add: set_nonce_def set_attempt_def)

lemma random_nonzero_nonzero:
  fixes draw :: "'r \<Rightarrow> 's::zero \<times> 'r"
  assumes "random_nonzero draw rng = Some (x, rng')"
  shows "x \<noteq> 0"
proof -
  let ?P = "\<lambda>(draw :: 'r \<Rightarrow> 's \<times> 'r) (rng :: 'r) r. fst r \<noteq> 0"
  have "?P draw rng (x, rng')"
  proof (rule random_nonzero.raw_induct [where P = ?P, OF _ assms])
    fix f :: "('r \<Rightarrow> 's \<times> 'r) \<Rightarrow> 'r \<Rightarrow> ('s \<times> 'r) option" and draw rng r
    assume IH: "\<And>draw rng r. f draw rng = Some r \<Longrightarrow> ?P draw rng r"
      and eq: "(let (x, rng') = draw rng in if x \<noteq> 0 then Some (x, rng') else f draw rng') = Some r"
    then show "?P draw rng r" by (cases "fst (draw rng) = 0") (auto simp: case_prod_beta)
  qed
  then show ?thesis by simp
qed

text \<open>A generator that draws a nonzero scalar within \<open>n\<close> more draws is enough.\<close>

lemma random_nonzero_total:
  assumes "fst (draw (((\<lambda>r. snd (draw r)) ^^ n) rng)) \<noteq> 0"
  shows "\<exists>x rng'. random_nonzero draw rng = Some (x, rng')"
  using assms
proof (induction n arbitrary: rng)
  case 0
  then show ?case by (subst random_nonzero.simps) (auto split: prod.splits)
next
  case (Suc n)
  have "((\<lambda>r. snd (draw r)) ^^ n) (snd (draw rng)) = ((\<lambda>r. snd (draw r)) ^^ Suc n) rng"
    by (simp only: funpow_Suc_right comp_apply)
  with Suc show ?case by (subst random_nonzero.simps) (auto split: prod.splits)
qed

lemma point_from_scalar_Inr [result_simps]:
  "point_from_scalar P s = Inr g \<longleftrightarrow> element_from_scalar P s \<noteq> 0 \<and> g = element_from_scalar P s"
  by (auto simp: point_from_scalar_def element_from_scalar_def result_simps)

lemma nonce_commitments_Inr:
  "group_ok P \<Longrightarrow> nonce_commitments P n = Inr c \<longleftrightarrow> sn_hiding n \<noteq> 0 \<and> sn_binding n \<noteq> 0
     \<and> c = \<lparr>np_hiding = element_from_scalar P (sn_hiding n),
            np_binding = element_from_scalar P (sn_binding n)\<rparr>"
  by (auto simp: nonce_commitments_def result_simps element_from_scalar_zero)

lemma nonce_bind_commitments:
  "group_ok P \<Longrightarrow> nonce_bind P \<lparr>np_hiding = element_from_scalar P h,
      np_binding = element_from_scalar P b\<rparr> f = element_from_scalar P (h + f * b)"
  by (simp add: nonce_bind_def element_from_scalar_add element_from_scalar_mult)

lemma foldl_sum_list:
  "foldl (\<lambda>sum x. sum + f x) (a :: 'g::ab_group_add) xs = a + (\<Sum>x\<leftarrow>xs. f x)"
  by (induction xs arbitrary: a) (simp_all add: add.assoc)

lemma aggregate_nonce_Inr [result_simps]:
  "aggregate_nonce P pairs = Inr n \<longleftrightarrow> pairs \<noteq> [] \<and> n \<noteq> 0
     \<and> n = (\<Sum>(pair, b)\<leftarrow>pairs. nonce_bind P pair b)"
  by (auto simp: aggregate_nonce_def result_simps foldl_sum_list case_prod_beta')

lemma verify_device_Inr [result_simps]:
  "verify_device P z n b c k share = Inr u \<longleftrightarrow>
     element_from_scalar P z = nonce_bind P n b + gc_smul P (c * k) share"
  by (simp add: verify_device_def)

lemma verify_member_Inr [result_simps]:
  "verify_member P z n b c k member = Inr u \<longleftrightarrow>
     element_from_scalar P z = nonce_bind P n b + gc_smul P (c * k) member"
  by (simp add: verify_member_def)

lemma signature_verify_Inr [result_simps]:
  "signature_verify P s key m = Inr u \<longleftrightarrow> (\<exists>c. schnorr_challenge P (sg_nonce s) key m = Inr c
     \<and> element_from_scalar P (sg_response s) = sg_nonce s + gc_smul P c key)"
  by (auto simp: signature_verify_def result_simps)

text \<open>A device's response satisfies its own equation.\<close>

lemma respond_verifies:
  assumes "group_ok P" "nonce_commitments P n = Inr pair"
  shows "element_from_scalar P (nonce_respond n b c k x) =
    nonce_bind P pair b + gc_smul P (c * k) (element_from_scalar P x)"
  using assms
  by (auto simp: nonce_commitments_Inr nonce_bind_commitments nonce_respond_def
      element_from_scalar_add element_from_scalar_mult)

text \<open>The wire forms.\<close>

lemma nonce_pair_eq [record_eqs]:
  "n = \<lparr>np_hiding = h, np_binding = b\<rparr> \<longleftrightarrow> np_hiding n = h \<and> np_binding n = b"
  by (cases n) auto

lemma device_response_eq [record_eqs]:
  "r = \<lparr>dr_attempt = a, dr_scalar = s\<rparr> \<longleftrightarrow> dr_attempt r = a \<and> dr_scalar r = s"
  by (cases r) auto

lemma member_response_eq [record_eqs]:
  "r = \<lparr>mr_slot = sl, mr_scalar = s\<rparr> \<longleftrightarrow> mr_slot r = sl \<and> mr_scalar r = s"
  by (cases r) auto

lemma parses_version [codec_simps]:
  "parses (expect_version P) (\<lambda>_ bs. bs = put_u8 (pf_wire_id P))"
  unfolding expect_version_def
  by (rule parses_cong, (rule parses_intros)+) auto

lemma device_response_from_bytes_iff:
  assumes "group_ok P" "gc_scalar_len P = 32"
  shows "device_response_from_bytes P bs = Inr r \<longleftrightarrow> bs = device_response_to_bytes P r"
proof (cases "length bs = 73")
  case True
  have "parses (get_then (expect_version P) (\<lambda>_. get_then get_ident (\<lambda>device.
      get_then get_u64 (\<lambda>sequence. get_then (get_scalar P) (\<lambda>scalar.
      get_return \<lparr>dr_attempt = \<lparr>la_device = device, la_sequence = sequence\<rparr>, dr_scalar = scalar\<rparr>)))))
    (\<lambda>r bs. bs = device_response_to_bytes P r)"
    by (rule parses_cong, (rule parses_intros parses_version assms(1))+)
       (auto simp: device_response_to_bytes_def put_u8_def put_u64_def put_scalar_def
          record_eqs)
  from decode_all_iff [OF this, of bs r] True show ?thesis
    by (simp add: device_response_from_bytes_def)
next
  case False
  then show ?thesis
    using assms by (auto simp: device_response_from_bytes_def device_response_to_bytes_def
        length_ser_scalar)
qed

lemma member_response_from_bytes_iff:
  assumes "group_ok P" "gc_scalar_len P = 32"
  shows "member_response_from_bytes P bs = Inr r \<longleftrightarrow> bs = member_response_to_bytes P r"
proof (cases "length bs = 35")
  case True
  have "parses (get_then (expect_version P) (\<lambda>_. get_then get_u16 (\<lambda>slot.
      get_then (get_scalar P) (\<lambda>scalar. get_return \<lparr>mr_slot = slot, mr_scalar = scalar\<rparr>))))
    (\<lambda>r bs. bs = member_response_to_bytes P r)"
    by (rule parses_cong, (rule parses_intros parses_version assms(1))+)
       (auto simp: member_response_to_bytes_def put_u8_def put_u16_def put_scalar_def
          record_eqs)
  from decode_all_iff [OF this, of bs r] True show ?thesis
    by (simp add: member_response_from_bytes_def)
next
  case False
  then show ?thesis
    using assms by (auto simp: member_response_from_bytes_def member_response_to_bytes_def
        length_ser_scalar)
qed

lemma signature_round_trip:
  assumes "group_ok P" "signature_codec_ok P" "sg_nonce s \<noteq> 0"
  shows "signature_from_bytes P (signature_to_bytes P s) = Inr s"
  using assms point_from_to_bytes [OF assms(1,3)]
  by (simp add: signature_from_bytes_def signature_to_bytes_def signature_codec_ok_def
      length_ser_scalar deser_ser_scalar point_to_bytes_def length_enc_point)

lemma signature_canonical:
  assumes "group_ok P" "signature_codec_ok P" "signature_from_bytes P bs = Inr s"
  shows "signature_to_bytes P s = bs \<and> sg_nonce s \<noteq> 0"
  using assms point_from_bytes_Inr [OF assms(1)] ser_deser_scalar [OF assms(1)]
  by (fastforce simp: signature_from_bytes_def signature_to_bytes_def signature_codec_ok_def
      result_simps)

end
