(* ===== verification/Ksnf_Transcript.thy ===== *)
theory Ksnf_Transcript
  imports Ksnf_Nonce
begin

text \<open>
  Canonical signing transcripts (\<open>src/transcript.rs\<close>): private member bodies and their public
  commitments, root prepackages and packages, reservations, and the hashes of one package.
  A \<open>from_bytes\<close> is its reads in order followed by the checks the code makes after them.
\<close>

section \<open>Data\<close>

record ('s, 'g) member_body =
  bd_identity :: 'g
  bd_member :: 'g
  bd_epoch :: key_epoch
  bd_inner :: "('s, 'g) inner_support"
  bd_outer :: "('s, 'g) outer_coefficient"

record ('s, 'g) member_record =
  rc_slot :: slot
  rc_member :: 'g
  rc_commitment :: 's

record root_context =
  cx_vault :: vault_id
  cx_epoch :: outer_epoch
  cx_ceremony :: command_id

record ('s, 'g) root_entry =
  re_record :: "('s, 'g) member_record"
  re_nonce :: "'g nonce_pair"

abbreviation re_slot :: "('s, 'g) root_entry \<Rightarrow> slot" where
  "re_slot e \<equiv> rc_slot (re_record e)"

record 'g member_nonce =
  mn_slot :: slot
  mn_nonce :: "'g nonce_pair"

record ('s, 'g) root_prepackage =
  rp_key :: 'g
  rp_message :: bytes
  rp_context :: root_context
  rp_records :: "('s, 'g) member_record list"

record ('s, 'g) root_package =
  rt_key :: 'g
  rt_message :: bytes
  rt_context :: root_context
  rt_entries :: "('s, 'g) root_entry list"

record ('s, 'g) member_opening =
  op_salt :: 's
  op_body :: "('s, 'g) member_body"

record ('s, 'g) member_reservation =
  rv_prepackage :: "('s, 'g) root_prepackage"
  rv_opening :: "('s, 'g) member_opening"

record ('s, 'g) member_transcript =
  mt_root :: "('s, 'g) root_package"
  mt_opening :: "('s, 'g) member_opening"

record ('s, 'g) signing_context =
  sc_root :: "('s, 'g) root_package"
  sc_bindings :: "(slot \<times> 's) list"
  sc_nonce :: 'g
  sc_challenge :: 's

abbreviation bd_slot :: "('s, 'g) member_body \<Rightarrow> slot" where
  "bd_slot b \<equiv> ocf_slot (bd_outer b)"

abbreviation rv_slot :: "('s, 'g) member_reservation \<Rightarrow> slot" where
  "rv_slot r \<equiv> bd_slot (op_body (rv_opening r))"

abbreviation mt_body :: "('s, 'g) member_transcript \<Rightarrow> ('s, 'g) member_body" where
  "mt_body t \<equiv> op_body (mt_opening t)"

section \<open>Shared encodings\<close>

definition count_u16 :: "nat \<Rightarrow> u16 result" where
  "count_u16 n = (if 2 ^ 16 \<le> n then Inl LengthOverflow else Inr (word_of_nat n))"

definition encode_key_epoch :: "key_epoch \<Rightarrow> bytes" where
  "encode_key_epoch e =
     put_u64 (ke_outer e) @ put_u64 (ke_inner e)
     @ ident_bytes (an_vault (ke_anchor e)) @ ident_bytes (an_person (ke_anchor e))
     @ ident_bytes (an_identity (ke_anchor e)) @ ident_bytes (an_member (ke_anchor e))"

definition decode_key_epoch :: "key_epoch getter" where
  "decode_key_epoch =
     get_then get_u64 (\<lambda>outer. get_then get_u64 (\<lambda>inner.
     get_then get_ident (\<lambda>vault. get_then get_ident (\<lambda>person.
     get_then get_ident (\<lambda>identity. get_then get_ident (\<lambda>member.
     get_return \<lparr>ke_outer = outer, ke_inner = inner,
       ke_anchor = \<lparr>an_vault = vault, an_person = person, an_identity = identity,
                    an_member = member\<rparr>\<rparr>))))))"

definition encode_record :: "('s, 'g) profile \<Rightarrow> ('s, 'g) member_record \<Rightarrow> bytes" where
  "encode_record P r =
     put_u16 (rc_slot r) @ put_point P (rc_member r) @ put_scalar P (rc_commitment r)"

definition decode_record :: "('s::zero, 'g::zero) profile \<Rightarrow> ('s, 'g) member_record getter" where
  "decode_record P =
     get_then get_u16 (\<lambda>slot. get_then (get_point P) (\<lambda>member. get_then (get_scalar P) (\<lambda>c.
     get_return \<lparr>rc_slot = slot, rc_member = member, rc_commitment = c\<rparr>)))"

definition encode_root_prefix ::
  "('s, 'g) profile \<Rightarrow> 'g \<Rightarrow> bytes \<Rightarrow> root_context \<Rightarrow> bytes result" where
  "encode_root_prefix P key message context =
     and_then (put_bytes message) (\<lambda>m.
     and_then (put_bytes (pf_protocol_id P)) (\<lambda>p.
     Inr (put_u8 (pf_wire_id P) @ put_point P key @ m @ p
       @ ident_bytes (cx_vault context) @ put_u64 (cx_epoch context)
       @ ident_bytes (cx_ceremony context))))"

definition decode_protocol :: "('s, 'g) profile \<Rightarrow> unit getter" where
  "decode_protocol P = get_then get_bytes (\<lambda>b.
     get_ensure ProtocolMismatch (b = pf_protocol_id P))"

definition decode_root_context :: "root_context getter" where
  "decode_root_context =
     get_then get_ident (\<lambda>vault. get_then get_u64 (\<lambda>epoch. get_then get_ident (\<lambda>ceremony.
     get_return \<lparr>cx_vault = vault, cx_epoch = epoch, cx_ceremony = ceremony\<rparr>)))"

section \<open>Member bodies and records\<close>

definition member_body_new ::
  "'g \<Rightarrow> 'g \<Rightarrow> key_epoch \<Rightarrow> ('s, 'g) inner_support \<Rightarrow> ('s, 'g) outer_coefficient
     \<Rightarrow> ('s, 'g) member_body result" where
  "member_body_new identity member epoch inner outer =
     (if an_person (ke_anchor epoch) \<noteq> ocf_person outer then Inl ParticipantMismatch
      else if member \<noteq> ocf_member outer then Inl SupportMismatch
      else Inr \<lparr>bd_identity = identity, bd_member = member, bd_epoch = epoch, bd_inner = inner,
                bd_outer = outer\<rparr>)"

definition encode_participant ::
  "('s, 'g::zero) profile \<Rightarrow> ('s, 'g) device_participant \<Rightarrow> 's \<Rightarrow> bytes" where
  "encode_participant P p c =
     ident_bytes (dp_device p) @ put_scalar P (dp_node p) @ put_element P (dp_share p)
     @ put_scalar P c"

definition decode_participant ::
  "('s::zero, 'g::zero) profile \<Rightarrow> (('s, 'g) device_participant \<times> 's) getter" where
  "decode_participant P =
     get_then get_ident (\<lambda>device. get_then (get_scalar P) (\<lambda>n. get_then (get_result (node_new n))
     (\<lambda>node. get_then (get_element P) (\<lambda>share. get_then (get_scalar P) (\<lambda>c.
     get_return (\<lparr>dp_device = device, dp_node = node, dp_share = share\<rparr>, c))))))"

definition member_body_to_bytes ::
  "('s, 'g::zero) profile \<Rightarrow> ('s, 'g) member_body \<Rightarrow> bytes result" where
  "member_body_to_bytes P b =
     and_then (count_u16 (length (is_participants (bd_inner b)))) (\<lambda>count.
     and_then (collect_results (\<lambda>p.
         and_then (inner_coefficient_of (bd_inner b) (dp_device p)) (\<lambda>c.
         Inr (encode_participant P p (ic_scalar c)))) (is_participants (bd_inner b))) (\<lambda>ps.
     Inr (put_u8 (pf_wire_id P) @ put_point P (bd_identity b) @ put_point P (bd_member b)
       @ encode_key_epoch (bd_epoch b) @ put_u16 count @ concat ps
       @ ident_bytes (ocf_person (bd_outer b)) @ put_u16 (ocf_slot (bd_outer b))
       @ put_scalar P (ocf_scalar (bd_outer b)))))"

text \<open>The comparison of the recomputed coefficients with the encoded ones.\<close>

definition check_coefficients ::
  "('s, 'g) inner_support \<Rightarrow> 's list \<Rightarrow> unit result" where
  "check_coefficients inner encoded =
     map_sum id (\<lambda>_. ()) (collect_results (\<lambda>(p, e).
       and_then (inner_coefficient_of inner (dp_device p)) (\<lambda>c.
       ensure CoefficientMismatch (ic_scalar c = e))) (zip (is_participants inner) encoded))"

definition body_getter ::
  "('s::zero, 'g::zero) profile \<Rightarrow> ('g \<times> 'g \<times> key_epoch \<times> (('s, 'g) device_participant \<times> 's) list
     \<times> person_id \<times> slot \<times> 's) getter" where
  "body_getter P =
     get_then (expect_version P) (\<lambda>_. get_then (get_point P) (\<lambda>identity.
       get_then (get_point P) (\<lambda>member. get_then decode_key_epoch (\<lambda>epoch.
       get_then get_u16 (\<lambda>count. get_then (get_ensure EmptyInput (count \<noteq> 0)) (\<lambda>_.
       get_then (get_many (unat count) (decode_participant P)) (\<lambda>entries.
       get_then get_ident (\<lambda>person. get_then get_u16 (\<lambda>slot. get_then (get_scalar P) (\<lambda>c.
       get_return (identity, member, epoch, entries, person, slot, c)))))))))))"

definition member_body_from_bytes ::
  "('s::field, 'g::zero) profile \<Rightarrow> bytes \<Rightarrow> ('s, 'g) outer_support
     \<Rightarrow> ('s, 'g) member_body result" where
  "member_body_from_bytes P bs outer_support =
     and_then (decode_all (body_getter P) bs)
     (\<lambda>(identity, member, epoch, entries, person, slot, encoded_outer).
     and_then (inner_support_new (map fst entries)) (\<lambda>inner.
     if is_participants inner \<noteq> map fst entries then Inl InvalidTranscript
     else and_then (check_coefficients inner (map snd entries)) (\<lambda>_.
     and_then (outer_coefficient_of outer_support person) (\<lambda>outer.
     if ocf_slot outer \<noteq> slot \<or> ocf_scalar outer \<noteq> encoded_outer then Inl CoefficientMismatch
     else member_body_new identity member epoch inner outer))))"

definition member_record_commit ::
  "('s, 'g::zero) profile \<Rightarrow> ('s, 'g) member_body \<Rightarrow> 's \<Rightarrow> ('s, 'g) member_record result" where
  "member_record_commit P body salt =
     and_then (member_body_to_bytes P body) (\<lambda>body_bytes.
     and_then (put_bytes (ascii_bytes ''member'')) (\<lambda>label.
     and_then (put_bytes body_bytes) (\<lambda>encoded.
     and_then (pf_hash_to_scalar P MemberDomain
         (put_u8 (pf_wire_id P) @ label @ put_scalar P salt @ encoded)) (\<lambda>c.
     Inr \<lparr>rc_slot = ocf_slot (bd_outer body), rc_member = bd_member body, rc_commitment = c\<rparr>))))"

definition member_record_to_bytes :: "('s, 'g) profile \<Rightarrow> ('s, 'g) member_record \<Rightarrow> bytes" where
  "member_record_to_bytes P r = put_u8 (pf_wire_id P) @ encode_record P r"

definition member_record_from_bytes ::
  "('s::zero, 'g::zero) profile \<Rightarrow> bytes \<Rightarrow> ('s, 'g) member_record result" where
  "member_record_from_bytes P bs =
     decode_all (get_then (expect_version P) (\<lambda>_. decode_record P)) bs"

section \<open>Root prepackages\<close>

definition prepackage_to_bytes ::
  "('s, 'g) profile \<Rightarrow> ('s, 'g) root_prepackage \<Rightarrow> bytes result" where
  "prepackage_to_bytes P p =
     and_then (encode_root_prefix P (rp_key p) (rp_message p) (rp_context p)) (\<lambda>prefix.
     and_then (count_u16 (length (rp_records p))) (\<lambda>count.
     Inr (prefix @ put_u16 count @ concat (map (encode_record P) (rp_records p)))))"

definition reject_duplicate_records :: "('s, 'g) member_record list \<Rightarrow> unit result" where
  "reject_duplicate_records rs =
     (if any_adjacent (\<lambda>a b. rc_slot a = rc_slot b) rs then Inl DuplicateSlot else Inr ())"

definition ensure_sorted_records :: "('s, 'g) member_record list \<Rightarrow> unit result" where
  "ensure_sorted_records = ensure_sorted_by rc_slot DuplicateSlot InvalidTranscript"

definition prepackage_validate_support ::
  "('s, 'g) root_prepackage \<Rightarrow> ('s, 'g) outer_support \<Rightarrow> unit result" where
  "prepackage_validate_support p support =
     (if length (rp_records p) \<noteq> length (os_participants support) then Inl SupportMismatch
      else if list_ex (\<lambda>(r, q). rc_slot r \<noteq> pp_slot q \<or> rc_member r \<noteq> pp_member q)
        (zip (rp_records p) (os_participants support)) then Inl SupportMismatch
      else Inr ())"

definition prepackage_new ::
  "('s, 'g) profile \<Rightarrow> 'g \<Rightarrow> bytes \<Rightarrow> root_context \<Rightarrow> ('s, 'g) outer_support
     \<Rightarrow> ('s, 'g) member_record list \<Rightarrow> ('s, 'g) root_prepackage result" where
  "prepackage_new P key message context outer_support records =
     (if records = [] then Inl EmptyInput
      else let rs = sort_key rc_slot records;
               p = \<lparr>rp_key = key, rp_message = message, rp_context = context, rp_records = rs\<rparr>
      in and_then (reject_duplicate_records rs) (\<lambda>_.
         and_then (prepackage_validate_support p outer_support) (\<lambda>_.
         and_then (prepackage_to_bytes P p) (\<lambda>_. Inr p))))"

definition prepackage_getter ::
  "('s::zero, 'g::zero) profile \<Rightarrow> ('s, 'g) root_prepackage getter" where
  "prepackage_getter P =
     get_then (expect_version P) (\<lambda>_. get_then (get_point P) (\<lambda>key.
       get_then get_bytes (\<lambda>message. get_then (decode_protocol P) (\<lambda>_.
       get_then decode_root_context (\<lambda>context. get_then get_u16 (\<lambda>count.
       get_then (get_ensure EmptyInput (count \<noteq> 0)) (\<lambda>_.
       get_then (get_many (unat count) (decode_record P)) (\<lambda>records.
       get_return \<lparr>rp_key = key, rp_message = message, rp_context = context,
                   rp_records = records\<rparr>))))))))"

definition prepackage_from_bytes ::
  "('s::zero, 'g::zero) profile \<Rightarrow> bytes \<Rightarrow> ('s, 'g) root_prepackage result" where
  "prepackage_from_bytes P bs =
     and_then (decode_all (prepackage_getter P) bs)
     (\<lambda>p. and_then (ensure_sorted_records (rp_records p)) (\<lambda>_. Inr p))"

definition prepackage_record ::
  "('s, 'g) root_prepackage \<Rightarrow> slot \<Rightarrow> ('s, 'g) member_record result" where
  "prepackage_record p sl = ok_or ParticipantNotFound (search_key rc_slot sl (rp_records p))"

section \<open>Root packages\<close>

definition encode_public :: "('s, 'g) profile \<Rightarrow> ('s, 'g) root_entry \<Rightarrow> bytes" where
  "encode_public P e =
     put_u16 (re_slot e) @ put_point P (rc_member (re_record e))
     @ put_point P (np_hiding (re_nonce e)) @ put_point P (np_binding (re_nonce e))"

definition package_to_bytes :: "('s, 'g) profile \<Rightarrow> ('s, 'g) root_package \<Rightarrow> bytes result" where
  "package_to_bytes P p =
     and_then (encode_root_prefix P (rt_key p) (rt_message p) (rt_context p)) (\<lambda>prefix.
     and_then (count_u16 (length (rt_entries p))) (\<lambda>count.
     Inr (prefix @ put_u16 count @ concat (map (encode_public P) (rt_entries p))
       @ put_u16 count @ concat (map (encode_record P \<circ> re_record) (rt_entries p)))))"

definition package_finalize ::
  "('s, 'g) profile \<Rightarrow> ('s, 'g) root_prepackage \<Rightarrow> ('s, 'g) outer_support
     \<Rightarrow> 'g member_nonce list \<Rightarrow> ('s, 'g) root_package result" where
  "package_finalize P prepackage outer_support nonces =
     and_then (prepackage_validate_support prepackage outer_support) (\<lambda>_.
     let ns = sort_key mn_slot nonces in
     if length ns \<noteq> length (rp_records prepackage) then Inl SupportMismatch
     else if any_adjacent (\<lambda>a b. mn_slot a = mn_slot b) ns then Inl DuplicateSlot
     else and_then (collect_results (\<lambda>(r, n).
         if rc_slot r \<noteq> mn_slot n then Inl SupportMismatch
         else Inr \<lparr>re_record = r, re_nonce = mn_nonce n\<rparr>) (zip (rp_records prepackage) ns)) (\<lambda>es.
       let p = \<lparr>rt_key = rp_key prepackage, rt_message = rp_message prepackage,
                rt_context = rp_context prepackage, rt_entries = es\<rparr>
       in and_then (package_to_bytes P p) (\<lambda>_. Inr p)))"

definition package_new ::
  "('s, 'g) profile \<Rightarrow> 'g \<Rightarrow> bytes \<Rightarrow> root_context \<Rightarrow> ('s, 'g) outer_support
     \<Rightarrow> ('s, 'g) root_entry list \<Rightarrow> ('s, 'g) root_package result" where
  "package_new P key message context outer_support entries =
     and_then (prepackage_new P key message context outer_support (map re_record entries))
       (\<lambda>p. package_finalize P p outer_support
         (map (\<lambda>e. \<lparr>mn_slot = re_slot e, mn_nonce = re_nonce e\<rparr>) entries))"

definition decode_public ::
  "('s::zero, 'g::zero) profile \<Rightarrow> (slot \<times> 'g \<times> 'g nonce_pair) getter" where
  "decode_public P =
     get_then get_u16 (\<lambda>slot. get_then (get_point P) (\<lambda>member. get_then (get_point P) (\<lambda>hiding.
     get_then (get_point P) (\<lambda>binding.
     get_return (slot, member, \<lparr>np_hiding = hiding, np_binding = binding\<rparr>)))))"

text \<open>The second loop: one record for every public triple.\<close>

fun decode_entries ::
  "('s::zero, 'g::zero) profile \<Rightarrow> (slot \<times> 'g \<times> 'g nonce_pair) list
     \<Rightarrow> ('s, 'g) root_entry list getter" where
  "decode_entries P [] = get_return []"
| "decode_entries P ((slot, member, nonce) # public) =
     get_then (decode_record P) (\<lambda>r.
     get_then (get_ensure InvalidTranscript (rc_slot r = slot \<and> rc_member r = member)) (\<lambda>_.
     get_then (decode_entries P public) (\<lambda>es.
     get_return (\<lparr>re_record = r, re_nonce = nonce\<rparr> # es))))"

definition ensure_sorted_slots :: "('s, 'g) root_entry list \<Rightarrow> unit result" where
  "ensure_sorted_slots = ensure_sorted_by re_slot DuplicateSlot InvalidTranscript"

definition package_getter ::
  "('s::zero, 'g::zero) profile \<Rightarrow> ('s, 'g) root_package getter" where
  "package_getter P =
     get_then (expect_version P) (\<lambda>_. get_then (get_point P) (\<lambda>key.
       get_then get_bytes (\<lambda>message. get_then (decode_protocol P) (\<lambda>_.
       get_then decode_root_context (\<lambda>context. get_then get_u16 (\<lambda>public_count.
       get_then (get_ensure EmptyInput (public_count \<noteq> 0)) (\<lambda>_.
       get_then (get_many (unat public_count) (decode_public P)) (\<lambda>public.
       get_then get_u16 (\<lambda>record_count.
       get_then (get_ensure LengthMismatch (public_count = record_count)) (\<lambda>_.
       get_then (decode_entries P public) (\<lambda>entries.
       get_return \<lparr>rt_key = key, rt_message = message, rt_context = context,
                   rt_entries = entries\<rparr>)))))))))))"

definition package_from_bytes ::
  "('s::zero, 'g::zero) profile \<Rightarrow> bytes \<Rightarrow> ('s, 'g) root_package result" where
  "package_from_bytes P bs =
     and_then (decode_all (package_getter P) bs)
     (\<lambda>p. and_then (ensure_sorted_slots (rt_entries p)) (\<lambda>_. Inr p))"

definition package_validate_support ::
  "('s, 'g) root_package \<Rightarrow> ('s, 'g) outer_support \<Rightarrow> unit result" where
  "package_validate_support p support =
     (if length (rt_entries p) \<noteq> length (os_participants support) then Inl SupportMismatch
      else if list_ex (\<lambda>(e, q). re_slot e \<noteq> pp_slot q \<or> rc_member (re_record e) \<noteq> pp_member q)
        (zip (rt_entries p) (os_participants support)) then Inl SupportMismatch
      else Inr ())"

definition package_entry :: "('s, 'g) root_package \<Rightarrow> slot \<Rightarrow> ('s, 'g) root_entry result" where
  "package_entry p sl = ok_or ParticipantNotFound (search_key re_slot sl (rt_entries p))"

definition package_prepackage :: "('s, 'g) root_package \<Rightarrow> ('s, 'g) root_prepackage" where
  "package_prepackage p =
     \<lparr>rp_key = rt_key p, rp_message = rt_message p, rp_context = rt_context p,
      rp_records = map re_record (rt_entries p)\<rparr>"

definition binding_preimage ::
  "('s, 'g) profile \<Rightarrow> ('s, 'g) root_package \<Rightarrow> slot \<Rightarrow> bytes result" where
  "binding_preimage P p sl =
     and_then (ok_or ParticipantNotFound (search_index re_slot sl (rt_entries p))) (\<lambda>index.
     and_then (package_to_bytes P p) (\<lambda>bs.
     and_then (put_bytes bs) (\<lambda>encoded.
     and_then (count_u16 index) (\<lambda>i.
     Inr (put_u8 (pf_wire_id P) @ encoded @ put_u16 i)))))"

section \<open>Openings, reservations and transcripts\<close>

definition opening_sample ::
  "('r \<Rightarrow> 's \<times> 'r) \<Rightarrow> ('s, 'g) member_body \<Rightarrow> 'r \<Rightarrow> ('s, 'g) member_opening \<times> 'r" where
  "opening_sample draw body rng =
     (let (salt, rng') = draw rng in (\<lparr>op_salt = salt, op_body = body\<rparr>, rng'))"

definition opening_to_bytes ::
  "('s, 'g::zero) profile \<Rightarrow> ('s, 'g) member_opening \<Rightarrow> bytes result" where
  "opening_to_bytes P opn =
     and_then (member_body_to_bytes P (op_body opn)) (\<lambda>body.
     and_then (put_bytes body) (\<lambda>encoded.
     Inr (put_u8 (pf_wire_id P) @ put_scalar P (op_salt opn) @ encoded)))"

definition opening_getter ::
  "('s::field, 'g::zero) profile \<Rightarrow> ('s, 'g) outer_support \<Rightarrow> ('s, 'g) member_opening getter" where
  "opening_getter P outer_support =
     get_then (expect_version P) (\<lambda>_. get_then (get_scalar P) (\<lambda>salt.
       get_then get_bytes (\<lambda>body_bytes.
       get_then (get_result (member_body_from_bytes P body_bytes outer_support)) (\<lambda>body.
       get_return \<lparr>op_salt = salt, op_body = body\<rparr>))))"

definition opening_from_bytes ::
  "('s::field, 'g::zero) profile \<Rightarrow> bytes \<Rightarrow> ('s, 'g) outer_support
     \<Rightarrow> ('s, 'g) member_opening result" where
  "opening_from_bytes P bs outer_support =
     decode_all (opening_getter P outer_support) bs"

definition opening_record ::
  "('s, 'g::zero) profile \<Rightarrow> ('s, 'g) member_opening \<Rightarrow> ('s, 'g) member_record result" where
  "opening_record P opn = member_record_commit P (op_body opn) (op_salt opn)"

definition reservation_new ::
  "('s, 'g::zero) profile \<Rightarrow> ('s, 'g) root_prepackage \<Rightarrow> ('s, 'g) member_opening
     \<Rightarrow> ('s, 'g) outer_support \<Rightarrow> ('s, 'g) member_reservation result" where
  "reservation_new P prepackage opening outer_support =
     and_then (prepackage_validate_support prepackage outer_support) (\<lambda>_.
     let body = op_body opening in
     if ke_outer (bd_epoch body) \<noteq> cx_epoch (rp_context prepackage)
        \<or> an_vault (ke_anchor (bd_epoch body)) \<noteq> cx_vault (rp_context prepackage)
     then Inl InvalidTranscript
     else and_then (prepackage_record prepackage (bd_slot body)) (\<lambda>published.
          and_then (opening_record P opening) (\<lambda>computed.
          if published \<noteq> computed then Inl CommitmentMismatch
          else Inr \<lparr>rv_prepackage = prepackage, rv_opening = opening\<rparr>)))"

definition reservation_getter ::
  "('s::field, 'g::zero) profile \<Rightarrow> ('s, 'g) outer_support
     \<Rightarrow> (('s, 'g) root_prepackage \<times> slot \<times> ('s, 'g) member_opening \<times> session_id \<times> u64) getter" where
  "reservation_getter P outer_support =
     get_then (expect_version P) (\<lambda>_. get_then get_bytes (\<lambda>pb.
       get_then (get_result (prepackage_from_bytes P pb)) (\<lambda>prepackage.
       get_then get_u16 (\<lambda>slot. get_then get_bytes (\<lambda>ob.
       get_then (get_result (opening_from_bytes P ob outer_support)) (\<lambda>opening.
       get_then get_ident (\<lambda>session. get_then get_u64 (\<lambda>expiry.
       get_return (prepackage, slot, opening, session, expiry)))))))))"

definition reservation_from_bytes ::
  "('s::field, 'g::zero) profile \<Rightarrow> bytes \<Rightarrow> ('s, 'g) outer_support
     \<Rightarrow> (('s, 'g) member_reservation \<times> session_id \<times> u64) result" where
  "reservation_from_bytes P bs outer_support =
     and_then (decode_all (reservation_getter P outer_support) bs)
     (\<lambda>(prepackage, slot, opening, session, expiry).
     and_then (reservation_new P prepackage opening outer_support) (\<lambda>reservation.
     if rv_slot reservation \<noteq> slot then Inl InvalidTranscript
     else Inr (reservation, session, expiry)))"

definition reservation_to_bytes ::
  "('s, 'g::zero) profile \<Rightarrow> ('s, 'g) member_reservation \<Rightarrow> session_id \<Rightarrow> u64 \<Rightarrow> bytes result" where
  "reservation_to_bytes P r session expiry =
     and_then (prepackage_to_bytes P (rv_prepackage r)) (\<lambda>pb.
     and_then (put_bytes pb) (\<lambda>prepackage.
     and_then (opening_to_bytes P (rv_opening r)) (\<lambda>ob.
     and_then (put_bytes ob) (\<lambda>opening.
     Inr (put_u8 (pf_wire_id P) @ prepackage @ put_u16 (rv_slot r) @ opening
       @ ident_bytes session @ put_u64 expiry)))))"

definition transcript_finalize ::
  "('s, 'g) root_package \<Rightarrow> ('s, 'g) member_reservation \<Rightarrow> ('s, 'g) member_transcript result" where
  "transcript_finalize root reservation =
     (if package_prepackage root \<noteq> rv_prepackage reservation then Inl InvalidTranscript
      else Inr \<lparr>mt_root = root, mt_opening = rv_opening reservation\<rparr>)"

definition transcript_new ::
  "('s, 'g::zero) profile \<Rightarrow> ('s, 'g) root_package \<Rightarrow> ('s, 'g) member_opening
     \<Rightarrow> ('s, 'g) outer_support \<Rightarrow> ('s, 'g) member_transcript result" where
  "transcript_new P root opening outer_support =
     and_then (reservation_new P (package_prepackage root) opening outer_support)
       (transcript_finalize root)"

section \<open>Signing contexts\<close>

definition signing_context_new ::
  "('s, 'g::ab_group_add) profile \<Rightarrow> ('s, 'g) root_package \<Rightarrow> ('s, 'g) signing_context result" where
  "signing_context_new P root =
     and_then (collect_results (\<lambda>e.
         and_then (binding_preimage P root (re_slot e)) (\<lambda>preimage.
         and_then (binding_factor P preimage) (\<lambda>b.
         Inr (re_slot e, re_nonce e, b)))) (rt_entries root)) (\<lambda>bs.
     and_then (aggregate_nonce P (map (\<lambda>(_, n, b). (n, b)) bs)) (\<lambda>nonce.
     and_then (schnorr_challenge P nonce (rt_key root) (rt_message root)) (\<lambda>c.
     Inr \<lparr>sc_root = root, sc_bindings = map (\<lambda>(sl, _, b). (sl, b)) bs, sc_nonce = nonce,
          sc_challenge = c\<rparr>)))"

definition context_binding :: "('s, 'g) signing_context \<Rightarrow> slot \<Rightarrow> 's result" where
  "context_binding c sl = map_sum id snd
     (ok_or ParticipantNotFound (search_key fst sl (sc_bindings c)))"

end
