(* ===== verification/Ksnf_Signing.thy ===== *)
theory Ksnf_Signing
  imports Ksnf_Transcript
begin

text \<open>
  Producing and aggregating responses (\<open>src/signing.rs\<close>): a device's response, a member's
  aggregation of its devices, and the outer aggregation into one signature. A loop over zipped
  lists is a recursion over the zip with the running sum.
\<close>

definition validate_member_inputs ::
  "('s, 'g) member_transcript \<Rightarrow> ('s, 'g) signing_context \<Rightarrow> 'g device_nonce_set \<Rightarrow> unit result" where
  "validate_member_inputs transcript signing nonces =
     (if mt_root transcript \<noteq> sc_root signing then Inl InvalidTranscript
      else and_then (set_validate_support nonces (bd_inner (mt_body transcript))) (\<lambda>_.
           and_then (package_entry (mt_root transcript) (bd_slot (mt_body transcript))) (\<lambda>e.
           if re_nonce e \<noteq> dns_aggregate nonces then Inl NonceMismatch else Inr ())))"

definition respond_device ::
  "('s::field, 'g::ab_group_add) profile \<Rightarrow> 's secret_nonce \<Rightarrow> ('s, 'g) member_transcript
     \<Rightarrow> ('s, 'g) signing_context \<Rightarrow> 'g device_nonce_set \<Rightarrow> device_id \<Rightarrow> 's
     \<Rightarrow> 's device_response result" where
  "respond_device P nonce transcript signing nonces device share =
     and_then (validate_member_inputs transcript signing nonces) (\<lambda>_.
     and_then (inner_participant (bd_inner (mt_body transcript)) device) (\<lambda>participant.
     if dp_share participant \<noteq> element_from_scalar P share then Inl ShareMismatch
     else and_then (nonce_commitments P nonce) (\<lambda>computed.
     and_then (set_nonce nonces device) (\<lambda>published.
     if computed \<noteq> published then Inl NonceMismatch
     else and_then (inner_coefficient_of (bd_inner (mt_body transcript)) device) (\<lambda>inner.
     and_then (context_binding signing (bd_slot (mt_body transcript))) (\<lambda>binding.
     let outer = bd_outer (mt_body transcript);
         response = nonce_respond nonce binding (sc_challenge signing)
           (ic_scalar inner * ocf_scalar outer) share
     in and_then (set_attempt nonces device) (\<lambda>attempt.
        Inr \<lparr>dr_attempt = attempt, dr_scalar = response\<rparr>)))))))"

fun member_loop ::
  "('s::field, 'g::ab_group_add) profile \<Rightarrow> ('s, 'g) signing_context \<Rightarrow> 'g device_nonce_set
     \<Rightarrow> ('s, 'g) inner_support \<Rightarrow> 's \<Rightarrow> 's
     \<Rightarrow> ('s device_response \<times> ('s, 'g) device_participant) list \<Rightarrow> 's \<Rightarrow> 's result" where
  "member_loop P signing nonces support binding outer [] response = Inr response"
| "member_loop P signing nonces support binding outer ((partial, participant) # rest) response =
     (if dr_device partial \<noteq> dp_device participant then Inl SupportMismatch
      else and_then (set_attempt nonces (dr_device partial)) (\<lambda>attempt.
      if dr_attempt partial \<noteq> attempt then Inl AttemptMismatch
      else and_then (inner_coefficient_of support (dr_device partial)) (\<lambda>inner.
      and_then (set_nonce nonces (dr_device partial)) (\<lambda>nonce.
      and_then (verify_device P (dr_scalar partial) nonce binding (sc_challenge signing)
          (ic_scalar inner * outer) (dp_share participant)) (\<lambda>_.
      member_loop P signing nonces support binding outer rest (response + dr_scalar partial))))))"

definition aggregate_member ::
  "('s::field, 'g::ab_group_add) profile \<Rightarrow> ('s, 'g) member_transcript \<Rightarrow> ('s, 'g) signing_context
     \<Rightarrow> 'g device_nonce_set \<Rightarrow> 's device_response list \<Rightarrow> 's member_response result" where
  "aggregate_member P transcript signing nonces responses =
     and_then (validate_member_inputs transcript signing nonces) (\<lambda>_.
     let support = bd_inner (mt_body transcript) in
     if length responses \<noteq> length (is_participants support) then Inl SupportMismatch
     else let sorted = sort_key dr_device responses in
     if any_adjacent (\<lambda>a b. dr_device a = dr_device b) sorted then Inl DuplicateParticipant
     else and_then (context_binding signing (bd_slot (mt_body transcript))) (\<lambda>binding.
     let outer = ocf_scalar (bd_outer (mt_body transcript)) in
     and_then (member_loop P signing nonces support binding outer
         (zip sorted (is_participants support)) 0) (\<lambda>response.
     and_then (verify_member P response (dns_aggregate nonces) binding (sc_challenge signing)
         outer (bd_member (mt_body transcript))) (\<lambda>_.
     Inr \<lparr>mr_slot = bd_slot (mt_body transcript), mr_scalar = response\<rparr>))))"

fun signature_loop ::
  "('s::field, 'g::ab_group_add) profile \<Rightarrow> ('s, 'g) signing_context \<Rightarrow> ('s, 'g) outer_support
     \<Rightarrow> (('s member_response \<times> ('s, 'g) person_participant) \<times> ('s, 'g) root_entry) list
     \<Rightarrow> 's \<Rightarrow> 's result" where
  "signature_loop P signing support [] response = Inr response"
| "signature_loop P signing support (((partial, participant), entry) # rest) response =
     (if mr_slot partial \<noteq> pp_slot participant \<or> re_slot entry \<noteq> pp_slot participant
      then Inl SupportMismatch
      else and_then (outer_coefficient_of support (pp_person participant)) (\<lambda>coefficient.
      and_then (context_binding signing (mr_slot partial)) (\<lambda>binding.
      and_then (verify_member P (mr_scalar partial) (re_nonce entry) binding
          (sc_challenge signing) (ocf_scalar coefficient) (pp_member participant)) (\<lambda>_.
      signature_loop P signing support rest (response + mr_scalar partial)))))"

definition aggregate_signature ::
  "('s::field, 'g::ab_group_add) profile \<Rightarrow> ('s, 'g) signing_context \<Rightarrow> ('s, 'g) outer_support
     \<Rightarrow> 's member_response list \<Rightarrow> ('s, 'g) signature result" where
  "aggregate_signature P signing support responses =
     and_then (package_validate_support (sc_root signing) support) (\<lambda>_.
     if length responses \<noteq> length (os_participants support) then Inl SupportMismatch
     else let sorted = sort_key mr_slot responses in
     if any_adjacent (\<lambda>a b. mr_slot a = mr_slot b) sorted then Inl DuplicateSlot
     else and_then (signature_loop P signing support
         (zip (zip sorted (os_participants support)) (rt_entries (sc_root signing))) 0) (\<lambda>response.
     let signature = \<lparr>sg_nonce = sc_nonce signing, sg_response = response\<rparr> in
     and_then (signature_verify P signature (rt_key (sc_root signing))
         (rt_message (sc_root signing))) (\<lambda>_.
     Inr signature)))"

end
