(* ===== verification/Ksnf_Transcript_Proofs.thy ===== *)
theory Ksnf_Transcript_Proofs
  imports Ksnf_Transcript
begin

text \<open>
  The wire forms of the transcript types: each \<open>from_bytes\<close> accepts exactly the bytes its
  \<open>to_bytes\<close> writes for a well-formed value, so the encodings are canonical and injective.
\<close>

lemma member_record_eq [record_eqs]:
  "r = \<lparr>rc_slot = sl, rc_member = m, rc_commitment = c\<rparr> \<longleftrightarrow>
     rc_slot r = sl \<and> rc_member r = m \<and> rc_commitment r = c"
  by (cases r) auto

lemma root_context_eq [record_eqs]:
  "x = \<lparr>cx_vault = v, cx_epoch = e, cx_ceremony = c\<rparr> \<longleftrightarrow>
     cx_vault x = v \<and> cx_epoch x = e \<and> cx_ceremony x = c"
  by (cases x) auto

lemma root_entry_eq [record_eqs]:
  "e = \<lparr>re_record = r, re_nonce = n\<rparr> \<longleftrightarrow> re_record e = r \<and> re_nonce e = n"
  by (cases e) auto

lemma root_prepackage_eq [record_eqs]:
  "p = \<lparr>rp_key = k, rp_message = m, rp_context = c, rp_records = rs\<rparr> \<longleftrightarrow>
     rp_key p = k \<and> rp_message p = m \<and> rp_context p = c \<and> rp_records p = rs"
  by (cases p) auto

lemma root_package_eq [record_eqs]:
  "p = \<lparr>rt_key = k, rt_message = m, rt_context = c, rt_entries = es\<rparr> \<longleftrightarrow>
     rt_key p = k \<and> rt_message p = m \<and> rt_context p = c \<and> rt_entries p = es"
  by (cases p) auto

lemma member_opening_eq [record_eqs]:
  "opn = \<lparr>op_salt = s, op_body = b\<rparr> \<longleftrightarrow> op_salt opn = s \<and> op_body opn = b"
  by (cases opn) auto

lemma member_body_eq [record_eqs]:
  "x = \<lparr>bd_identity = i, bd_member = m, bd_epoch = e, bd_inner = n, bd_outer = u\<rparr> \<longleftrightarrow>
     bd_identity x = i \<and> bd_member x = m \<and> bd_epoch x = e \<and> bd_inner x = n \<and> bd_outer x = u"
  by (cases x) auto

section \<open>Parts\<close>

lemma count_u16_Inr [result_simps]:
  "count_u16 n = Inr c \<longleftrightarrow> n < 2 ^ 16 \<and> c = word_of_nat n"
  by (auto simp: count_u16_def)

lemma count_u16_unat: "n < 2 ^ 16 \<Longrightarrow> unat c = n \<longleftrightarrow> c = (word_of_nat n :: u16)"
  by (auto simp: unat_of_nat)

lemma parses_key_epoch: "parses decode_key_epoch (\<lambda>e bs. bs = encode_key_epoch e)"
  unfolding decode_key_epoch_def
  by (rule parses_cong, (rule parses_intros)+) (auto simp: encode_key_epoch_def record_eqs)

lemma parses_root_context: "parses decode_root_context
    (\<lambda>c bs. bs = ident_bytes (cx_vault c) @ put_u64 (cx_epoch c) @ ident_bytes (cx_ceremony c))"
  unfolding decode_root_context_def
  by (rule parses_cong, (rule parses_intros)+) (auto simp: record_eqs)

lemma parses_protocol: "parses (decode_protocol P)
    (\<lambda>_ bs. length (pf_protocol_id P) < 2 ^ 32 \<and> bs = bytes_form (pf_protocol_id P))"
  unfolding decode_protocol_def
  by (rule parses_cong, (rule parses_intros)+) auto

lemma parses_record:
  "group_ok P \<Longrightarrow> parses (decode_record P) (\<lambda>r bs. rc_member r \<noteq> 0 \<and> bs = encode_record P r)"
  unfolding decode_record_def
  by (rule parses_cong, (rule parses_intros | assumption)+)
     (auto simp: encode_record_def record_eqs)

definition encode_triple :: "('s, 'g) profile \<Rightarrow> slot \<times> 'g \<times> 'g nonce_pair \<Rightarrow> bytes" where
  "encode_triple P t = put_u16 (fst t) @ put_point P (fst (snd t))
     @ put_point P (np_hiding (snd (snd t))) @ put_point P (np_binding (snd (snd t)))"

lemma parses_public:
  "group_ok P \<Longrightarrow> parses (decode_public P) (\<lambda>t bs. (fst (snd t) \<noteq> 0
     \<and> np_hiding (snd (snd t)) \<noteq> 0 \<and> np_binding (snd (snd t)) \<noteq> 0) \<and> bs = encode_triple P t)"
  unfolding decode_public_def
  by (rule parses_cong, (rule parses_intros | assumption)+)
     (auto simp: encode_triple_def record_eqs)

lemma parses_participant:
  "group_ok P \<Longrightarrow> parses (decode_participant P)
     (\<lambda>x bs. dp_node (fst x) \<noteq> 0 \<and> bs = encode_participant P (fst x) (snd x))"
  unfolding decode_participant_def
  by (rule parses_cong, (rule parses_intros | assumption)+)
     (auto simp: encode_participant_def record_eqs node_new_def)

abbreviation triple_of :: "('s, 'g) root_entry \<Rightarrow> slot \<times> 'g \<times> 'g nonce_pair" where
  "triple_of e \<equiv> (re_slot e, rc_member (re_record e), re_nonce e)"

lemma parses_entries:
  assumes "group_ok P"
  shows "parses (decode_entries P ts) (\<lambda>es bs. map triple_of es = ts
    \<and> (\<forall>e \<in> set es. rc_member (re_record e) \<noteq> 0)
    \<and> bs = concat (map (encode_record P \<circ> re_record) es))"
proof (induction ts)
  case Nil
  show ?case by (auto intro: parses_cong [OF parses_return])
next
  case (Cons t ts)
  obtain sl m n where t: "t = (sl, m, n)" by (cases t)
  show ?case
    unfolding t decode_entries.simps
    by (rule parses_cong, (rule parses_intros parses_record assms Cons.IH)+)
       (auto simp: record_eqs Cons_eq_map_conv)
qed

section \<open>Records, prepackages and packages\<close>

theorem member_record_from_bytes_iff:
  assumes "group_ok P" "length bs < 2 ^ 64"
  shows "member_record_from_bytes P bs = Inr r \<longleftrightarrow>
    rc_member r \<noteq> 0 \<and> bs = member_record_to_bytes P r"
proof -
  have "parses (get_then (expect_version P) (\<lambda>_. decode_record P))
      (\<lambda>r bs. rc_member r \<noteq> 0 \<and> bs = member_record_to_bytes P r)"
    by (rule parses_cong, (rule parses_then parses_version parses_record assms)+)
       (auto simp: member_record_to_bytes_def)
  from decode_all_iff [OF this assms(2)] show ?thesis
    by (simp add: member_record_from_bytes_def)
qed

definition prepackage_ok :: "('s, 'g::zero) root_prepackage \<Rightarrow> bool" where
  "prepackage_ok p \<longleftrightarrow> rp_key p \<noteq> 0 \<and> rp_records p \<noteq> []
     \<and> sorted_wrt (<) (map rc_slot (rp_records p)) \<and> (\<forall>r \<in> set (rp_records p). rc_member r \<noteq> 0)"

definition package_ok :: "('s, 'g::zero) root_package \<Rightarrow> bool" where
  "package_ok p \<longleftrightarrow> rt_key p \<noteq> 0 \<and> rt_entries p \<noteq> []
     \<and> sorted_wrt (<) (map re_slot (rt_entries p))
     \<and> (\<forall>e \<in> set (rt_entries p). rc_member (re_record e) \<noteq> 0
          \<and> np_hiding (re_nonce e) \<noteq> 0 \<and> np_binding (re_nonce e) \<noteq> 0)"

lemma encode_root_prefix_Inr [result_simps]:
  "encode_root_prefix P key m c = Inr bs \<longleftrightarrow> length m < 2 ^ 32 \<and> length (pf_protocol_id P) < 2 ^ 32
     \<and> bs = put_u8 (pf_wire_id P) @ put_point P key @ bytes_form m @ bytes_form (pf_protocol_id P)
          @ ident_bytes (cx_vault c) @ put_u64 (cx_epoch c) @ ident_bytes (cx_ceremony c)"
  by (auto simp: encode_root_prefix_def result_simps)

lemma unat_eq_count:
  "length xs = unat (c :: u16) \<longleftrightarrow> length xs < 2 ^ 16 \<and> c = word_of_nat (length xs)"
  using unsigned_less [of c] by (auto simp: unat_of_nat)

lemma word_of_nat_u16_zero: "n < 2 ^ 16 \<Longrightarrow> (word_of_nat n :: u16) = 0 \<longleftrightarrow> n = 0"
  by (metis count_u16_unat unat_0)

theorem prepackage_from_bytes_iff:
  assumes "group_ok P" "length bs < 2 ^ 64"
  shows "prepackage_from_bytes P bs = Inr p \<longleftrightarrow>
    prepackage_ok p \<and> prepackage_to_bytes P p = Inr bs"
proof -
  have "parses (prepackage_getter P)
      (\<lambda>p bs. rp_key p \<noteq> 0 \<and> rp_records p \<noteq> [] \<and> (\<forall>r \<in> set (rp_records p). rc_member r \<noteq> 0)
         \<and> prepackage_to_bytes P p = Inr bs)"
    unfolding prepackage_getter_def
    by (rule parses_cong, (rule parses_intros parses_version parses_protocol parses_root_context
          parses_many parses_record assms)+)
       (auto simp: prepackage_to_bytes_def record_eqs result_simps unat_eq_count
          word_of_nat_u16_zero)
  from decode_all_iff [OF this assms(2)] show ?thesis
    by (auto simp: prepackage_from_bytes_def result_simps ensure_sorted_records_def prepackage_ok_def)
qed

theorem package_from_bytes_iff:
  assumes "group_ok P" "length bs < 2 ^ 64"
  shows "package_from_bytes P bs = Inr p \<longleftrightarrow> package_ok p \<and> package_to_bytes P p = Inr bs"
proof -
  have pub: "encode_triple P \<circ> triple_of = encode_public P"
    by (simp add: fun_eq_iff encode_triple_def encode_public_def)
  have "parses (package_getter P)
      (\<lambda>p bs. rt_key p \<noteq> 0 \<and> rt_entries p \<noteq> []
         \<and> (\<forall>e \<in> set (rt_entries p). rc_member (re_record e) \<noteq> 0
              \<and> np_hiding (re_nonce e) \<noteq> 0 \<and> np_binding (re_nonce e) \<noteq> 0)
         \<and> package_to_bytes P p = Inr bs)"
    unfolding package_getter_def
    by (rule parses_cong, (rule parses_intros parses_version parses_protocol parses_root_context
          parses_many parses_public parses_entries assms)+)
       (auto simp: package_to_bytes_def record_eqs result_simps unat_eq_count
          word_of_nat_u16_zero pub)
  from decode_all_iff [OF this assms(2)] show ?thesis
    by (auto simp: package_from_bytes_def result_simps ensure_sorted_slots_def package_ok_def)
qed


section \<open>Bodies, openings and reservations\<close>

lemma check_coefficients_Inr:
  assumes "inner_support_ok s" "length es = length (is_participants s)"
  shows "check_coefficients s es = Inr u \<longleftrightarrow> es = is_coefficients s"
proof -
  let ?l = "\<lambda>p. lagrange (dp_node ` set (is_participants s)) (dp_node p)"
  have "(\<exists>ys. collect_results (\<lambda>(p, e). and_then (inner_coefficient_of s (dp_device p))
        (\<lambda>c. ensure CoefficientMismatch (ic_scalar c = e))) (zip ps es) = Inr ys)
      \<longleftrightarrow> es = map ?l ps"
    if "length es = length ps" "set ps \<subseteq> set (is_participants s)" for ps es
    using that
  proof (induction es ps rule: list_induct2)
    case (Cons e es p ps)
    then have "inner_coefficient_of s (dp_device p) = Inr \<lparr>ic_device = dp_device p, ic_scalar = ?l p\<rparr>"
      by (intro inner_coefficient_of_participant [OF assms(1)]) simp
    with Cons show ?case by (auto simp: result_simps)
  qed simp
  from this [OF assms(2) order_refl] assms(1) show ?thesis
    by (auto simp: check_coefficients_def result_simps inner_support_ok_def comp_def)
qed

text \<open>The bodies an outer support admits.\<close>

definition body_ok :: "('s::field, 'g::zero) outer_support \<Rightarrow> ('s, 'g) member_body \<Rightarrow> bool" where
  "body_ok support b \<longleftrightarrow> bd_identity b \<noteq> 0 \<and> bd_member b \<noteq> 0 \<and> inner_support_ok (bd_inner b)
     \<and> (\<forall>p \<in> set (is_participants (bd_inner b)). dp_node p \<noteq> 0)
     \<and> outer_coefficient_of support (ocf_person (bd_outer b)) = Inr (bd_outer b)
     \<and> an_person (ke_anchor (bd_epoch b)) = ocf_person (bd_outer b)
     \<and> bd_member b = ocf_member (bd_outer b)"

definition encode_body_prefix ::
  "('s, 'g::zero) profile \<Rightarrow> 'g \<Rightarrow> 'g \<Rightarrow> key_epoch \<Rightarrow> (('s, 'g) device_participant \<times> 's) list
     \<Rightarrow> person_id \<Rightarrow> slot \<Rightarrow> 's \<Rightarrow> bytes" where
  "encode_body_prefix P identity member epoch entries person sl c =
     put_u8 (pf_wire_id P) @ put_point P identity @ put_point P member @ encode_key_epoch epoch
     @ put_u16 (word_of_nat (length entries))
     @ concat (map (\<lambda>x. encode_participant P (fst x) (snd x)) entries)
     @ ident_bytes person @ put_u16 sl @ put_scalar P c"

lemma member_body_to_bytes_Inr:
  assumes "inner_support_ok (bd_inner b)"
  shows "member_body_to_bytes P b = Inr bs \<longleftrightarrow>
    length (is_participants (bd_inner b)) < 2 ^ 16
    \<and> bs = encode_body_prefix P (bd_identity b) (bd_member b) (bd_epoch b)
        (zip (is_participants (bd_inner b)) (is_coefficients (bd_inner b)))
        (ocf_person (bd_outer b)) (bd_slot b) (ocf_scalar (bd_outer b))"
proof -
  let ?s = "bd_inner b"
  let ?l = "\<lambda>p. lagrange (dp_node ` set (is_participants ?s)) (dp_node p)"
  have "collect_results (\<lambda>p. and_then (inner_coefficient_of ?s (dp_device p))
      (\<lambda>c. Inr (encode_participant P p (ic_scalar c)))) (is_participants ?s) =
      Inr (map (\<lambda>p. encode_participant P p (?l p)) (is_participants ?s))"
    using assms by (intro collect_results_map) (simp add: inner_coefficient_of_participant)
  moreover have "zip (is_participants ?s) (is_coefficients ?s) =
      map (\<lambda>p. (p, ?l p)) (is_participants ?s)"
    using assms by (simp add: inner_support_ok_def zip_map2 zip_same_conv_map)
  ultimately show ?thesis
    by (auto simp: member_body_to_bytes_def result_simps encode_body_prefix_def comp_def)
qed

lemma inner_support_new_sorted:
  assumes "inner_support_ok s"
  shows "inner_support_new (is_participants s) = Inr s"
proof -
  have "sort_key dp_device (is_participants s) = is_participants s"
    using assms by (intro sort_key_id_if_sorted) (simp add: inner_support_ok_def strict_sorted_iff)
  with assms show ?thesis
    by (simp add: inner_support_new_Inr inner_support_ok_def strict_sorted_iff)
qed

lemma outer_coefficient_person:
  "outer_coefficient_of support p = Inr c \<Longrightarrow> ocf_person c = p"
  by (auto simp: outer_coefficient_of_def result_simps)

theorem member_body_from_bytes_iff:
  assumes "group_ok P" "length bs < 2 ^ 64"
  shows "member_body_from_bytes P bs support = Inr b \<longleftrightarrow>
    body_ok support b \<and> member_body_to_bytes P b = Inr bs"
proof -
  have "parses (body_getter P)
      (\<lambda>(identity, member, epoch, entries, person, slot, c) bs. identity \<noteq> 0 \<and> member \<noteq> 0
         \<and> entries \<noteq> [] \<and> length entries < 2 ^ 16 \<and> (\<forall>x \<in> set entries. dp_node (fst x) \<noteq> 0)
         \<and> bs = encode_body_prefix P identity member epoch entries person slot c)"
    unfolding body_getter_def
    by (rule parses_cong, (rule parses_intros parses_version parses_key_epoch parses_many
          parses_participant assms)+)
       (auto simp: encode_body_prefix_def result_simps unat_eq_count word_of_nat_u16_zero)
  note raw = decode_all_iff [OF this assms(2)]
  show ?thesis
  proof
    assume "member_body_from_bytes P bs support = Inr b"
    then obtain identity member epoch entries person sl c inner outer where
      wire: "identity \<noteq> 0" "member \<noteq> 0" "length entries < 2 ^ 16"
        "\<forall>x \<in> set entries. dp_node (fst x) \<noteq> 0"
        "bs = encode_body_prefix P identity member epoch entries person sl c"
      and inner: "inner_support_new (map fst entries) = Inr inner"
        "is_participants inner = map fst entries"
        "check_coefficients inner (map snd entries) = Inr ()"
      and outer: "outer_coefficient_of support person = Inr outer" "ocf_slot outer = sl"
        "ocf_scalar outer = c"
      and b: "member_body_new identity member epoch inner outer = Inr b"
      unfolding member_body_from_bytes_def
      by (auto simp: raw result_simps split: if_splits)
    have ok: "inner_support_ok inner" using inner(1) by (simp add: inner_support_new_Inr)
    have "is_coefficients inner = map snd entries"
      using inner check_coefficients_Inr [OF ok, of "map snd entries" "()"] by simp
    with inner(2) have "zip (is_participants inner) (is_coefficients inner) = entries"
      by (simp add: zip_map_fst_snd)
    with ok inner(2) wire outer b outer_coefficient_person [OF outer(1)]
    show "body_ok support b \<and> member_body_to_bytes P b = Inr bs"
      by (auto simp: body_ok_def member_body_new_def member_body_to_bytes_Inr split: if_splits)
  next
    let ?s = "bd_inner b"
    let ?entries = "zip (is_participants ?s) (is_coefficients ?s)"
    assume b: "body_ok support b \<and> member_body_to_bytes P b = Inr bs"
    then have ok: "inner_support_ok ?s" by (simp add: body_ok_def)
    then have len: "length (is_coefficients ?s) = length (is_participants ?s)"
      "is_participants ?s \<noteq> []" by (simp_all add: inner_support_ok_def)
    then have "is_coefficients ?s \<noteq> []" by auto
    with len have fst: "map fst ?entries = is_participants ?s" "map snd ?entries = is_coefficients ?s"
      "?entries \<noteq> []" by (simp_all add: zip_eq_Nil_iff)
    have nodes: "\<forall>x \<in> set ?entries. dp_node (fst x) \<noteq> 0"
      using b by (auto simp: body_ok_def dest: set_zip_leftD)
    have "decode_all (body_getter P) bs = Inr (bd_identity b, bd_member b, bd_epoch b, ?entries,
        ocf_person (bd_outer b), bd_slot b, ocf_scalar (bd_outer b))"
      using b ok fst(3) nodes len unfolding raw by (auto simp: body_ok_def member_body_to_bytes_Inr)
    moreover have "check_coefficients ?s (is_coefficients ?s) = Inr ()"
      by (simp add: check_coefficients_Inr [OF ok len(1)])
    ultimately show "member_body_from_bytes P bs support = Inr b"
      using b unfolding member_body_from_bytes_def
      by (simp add: fst inner_support_new_sorted [OF ok] body_ok_def member_body_new_def record_eqs)
  qed
qed

lemma bytes_form_less:
  "length (bytes_form v) < 2 ^ 64 \<Longrightarrow> length v < 2 ^ 64"
  by (simp add: bytes_form_def)

theorem opening_from_bytes_iff:
  assumes "group_ok P" "length bs < 2 ^ 64"
  shows "opening_from_bytes P bs support = Inr opn \<longleftrightarrow>
    body_ok support (op_body opn) \<and> opening_to_bytes P opn = Inr bs"
proof -
  have "parses (opening_getter P support)
      (\<lambda>opn bs. \<exists>v. member_body_from_bytes P v support = Inr (op_body opn) \<and> length v < 2 ^ 32
         \<and> bs = put_u8 (pf_wire_id P) @ put_scalar P (op_salt opn) @ bytes_form v)"
    unfolding opening_getter_def
    by (rule parses_cong, (rule parses_then_return parses_intros parses_version assms)+,
        unfold member_opening_eq append_Nil2, blast)
  from decode_all_iff [OF this assms(2)]
  have "opening_from_bytes P bs support = Inr opn \<longleftrightarrow>
      (\<exists>v. member_body_from_bytes P v support = Inr (op_body opn) \<and> length v < 2 ^ 32
         \<and> bs = put_u8 (pf_wire_id P) @ put_scalar P (op_salt opn) @ bytes_form v)"
    by (simp add: opening_from_bytes_def)
  then show ?thesis
    by (auto simp: opening_to_bytes_def result_simps member_body_from_bytes_iff [OF assms(1)])
qed

definition reservation_ok ::
  "('s::field, 'g::zero) profile \<Rightarrow> ('s, 'g) outer_support \<Rightarrow> ('s, 'g) member_reservation \<Rightarrow> bool" where
  "reservation_ok P support r \<longleftrightarrow> prepackage_ok (rv_prepackage r)
     \<and> body_ok support (op_body (rv_opening r))
     \<and> reservation_new P (rv_prepackage r) (rv_opening r) support = Inr r"

lemma reservation_new_fields:
  "reservation_new P p opn support = Inr r \<Longrightarrow> rv_prepackage r = p \<and> rv_opening r = opn"
  by (auto simp: reservation_new_def result_simps Let_def split: if_splits)

theorem reservation_from_bytes_iff:
  assumes "group_ok P" "length bs < 2 ^ 64"
  shows "reservation_from_bytes P bs support = Inr (r, session, expiry) \<longleftrightarrow>
    reservation_ok P support r \<and> reservation_to_bytes P r session expiry = Inr bs"
proof -
  have "parses (reservation_getter P support)
      (\<lambda>(p, sl, opn, session, expiry) bs. \<exists>pb ob.
         (prepackage_from_bytes P pb = Inr p \<and> length pb < 2 ^ 32)
         \<and> (opening_from_bytes P ob support = Inr opn \<and> length ob < 2 ^ 32)
         \<and> bs = put_u8 (pf_wire_id P) @ bytes_form pb @ put_u16 sl @ bytes_form ob
              @ ident_bytes session @ put_u64 expiry)"
    unfolding reservation_getter_def
    apply (rule parses_cong, (rule parses_then_return parses_nested parses_intros parses_version assms)+)
    apply (rename_tac y bs, case_tac y rule: prod_cases5, hypsubst)
    apply (unfold prod.case prod.inject bytes_form_def append_assoc, rule iffI)
    apply clarify
    apply ((rule exI conjI refl append_assoc | assumption)+)[1]
    apply clarify
    apply ((rule exI conjI refl TrueI | assumption)+)[1]
    done
  note raw = decode_all_iff [OF this assms(2)]
  have inner: "prepackage_from_bytes P v = Inr p \<and> length v < 2 ^ 32 \<longleftrightarrow>
      length v < 2 ^ 32 \<and> prepackage_ok p \<and> prepackage_to_bytes P p = Inr v"
    "opening_from_bytes P v support = Inr opn \<and> length v < 2 ^ 32 \<longleftrightarrow>
      length v < 2 ^ 32 \<and> body_ok support (op_body opn) \<and> opening_to_bytes P opn = Inr v" for v p opn
    using prepackage_from_bytes_iff [OF assms(1), of v p]
      opening_from_bytes_iff [OF assms(1), of v support opn] by auto
  let ?parts = "(rv_prepackage r, rv_slot r, rv_opening r, session, expiry)"
  have "reservation_from_bytes P bs support = Inr (r, session, expiry) \<longleftrightarrow>
      decode_all (reservation_getter P support) bs = Inr ?parts
      \<and> reservation_new P (rv_prepackage r) (rv_opening r) support = Inr r"
    unfolding reservation_from_bytes_def
    by (auto simp: result_simps split: if_splits dest: reservation_new_fields)
  also have "\<dots> \<longleftrightarrow>
      (\<exists>pb ob.
         (prepackage_from_bytes P pb = Inr (rv_prepackage r) \<and> length pb < 2 ^ 32)
         \<and> (opening_from_bytes P ob support = Inr (rv_opening r) \<and> length ob < 2 ^ 32)
         \<and> bs = put_u8 (pf_wire_id P) @ bytes_form pb @ put_u16 (rv_slot r) @ bytes_form ob
              @ ident_bytes session @ put_u64 expiry)
      \<and> reservation_new P (rv_prepackage r) (rv_opening r) support = Inr r"
    unfolding raw prod.case ..
  also have "\<dots> \<longleftrightarrow> reservation_ok P support r
      \<and> reservation_to_bytes P r session expiry = Inr bs"
    unfolding inner reservation_ok_def reservation_to_bytes_def by (simp add: result_simps) blast
  finally show ?thesis .
qed

end
