(* ===== verification/Ksnf_Signing_Proofs.thy ===== *)
theory Ksnf_Signing_Proofs
  imports Ksnf_Signing Ksnf_Transcript_Proofs
begin

text \<open>
  Completeness of nested signing: when the public shares interpolate to the member point and
  the member points to the vault key, valid responses always aggregate, at both levels, and the
  responses the devices produce are valid.
\<close>

section \<open>The loops\<close>

definition device_response_ok ::
  "('s::field, 'g::ab_group_add) profile \<Rightarrow> ('s, 'g) signing_context \<Rightarrow> 'g device_nonce_set
     \<Rightarrow> ('s, 'g) inner_support \<Rightarrow> 's \<Rightarrow> 's \<Rightarrow> 's device_response
     \<Rightarrow> ('s, 'g) device_participant \<Rightarrow> bool" where
  "device_response_ok P signing nonces support binding outer r p \<longleftrightarrow>
     dr_device r = dp_device p \<and> set_attempt nonces (dr_device r) = Inr (dr_attempt r)
     \<and> (\<exists>c n. inner_coefficient_of support (dr_device r) = Inr c
          \<and> set_nonce nonces (dr_device r) = Inr n
          \<and> verify_device P (dr_scalar r) n binding (sc_challenge signing) (ic_scalar c * outer)
              (dp_share p) = Inr ())"

lemma member_loop_Inr:
  "member_loop P signing nonces support binding outer xs acc = Inr z \<longleftrightarrow>
     (\<forall>(r, p) \<in> set xs. device_response_ok P signing nonces support binding outer r p)
     \<and> z = acc + (\<Sum>(r, p)\<leftarrow>xs. dr_scalar r)"
proof (induction xs arbitrary: acc)
  case (Cons x xs)
  obtain r p where x: "x = (r, p)" by (cases x)
  have "member_loop P signing nonces support binding outer (x # xs) acc = Inr z \<longleftrightarrow>
      device_response_ok P signing nonces support binding outer r p
      \<and> member_loop P signing nonces support binding outer xs (acc + dr_scalar r) = Inr z"
    by (auto simp: x device_response_ok_def and_then_Inr_iff if_Inl_eq_Inr)
  then show ?case by (auto simp: Cons.IH x add.assoc)
qed auto

definition member_response_ok ::
  "('s::field, 'g::ab_group_add) profile \<Rightarrow> ('s, 'g) signing_context \<Rightarrow> ('s, 'g) outer_support
     \<Rightarrow> 's member_response \<Rightarrow> ('s, 'g) person_participant \<Rightarrow> ('s, 'g) root_entry \<Rightarrow> bool" where
  "member_response_ok P signing support r p e \<longleftrightarrow>
     mr_slot r = pp_slot p \<and> re_slot e = pp_slot p
     \<and> (\<exists>c b. outer_coefficient_of support (pp_person p) = Inr c
          \<and> context_binding signing (mr_slot r) = Inr b
          \<and> verify_member P (mr_scalar r) (re_nonce e) b (sc_challenge signing) (ocf_scalar c)
              (pp_member p) = Inr ())"

lemma signature_loop_Inr:
  "signature_loop P signing support xs acc = Inr z \<longleftrightarrow>
     (\<forall>((r, p), e) \<in> set xs. member_response_ok P signing support r p e)
     \<and> z = acc + (\<Sum>((r, p), e)\<leftarrow>xs. mr_scalar r)"
proof (induction xs arbitrary: acc)
  case (Cons x xs)
  obtain r p e where x: "x = ((r, p), e)" by (metis prod.collapse)
  have "signature_loop P signing support (x # xs) acc = Inr z \<longleftrightarrow>
      member_response_ok P signing support r p e
      \<and> signature_loop P signing support xs (acc + mr_scalar r) = Inr z"
    by (auto simp: x member_response_ok_def and_then_Inr_iff if_Inl_eq_Inr)
  then show ?case by (auto simp: Cons.IH x add.assoc)
qed auto

section \<open>Sums in the group\<close>

lemma element_from_scalar_sum_list:
  "group_ok P \<Longrightarrow> element_from_scalar P (\<Sum>x\<leftarrow>xs. f x) = (\<Sum>x\<leftarrow>xs. element_from_scalar P (f x))"
  by (induction xs) (simp_all add: element_from_scalar_zero element_from_scalar_add)

lemma smul_sum_list:
  "group_ok P \<Longrightarrow> gc_smul P a (\<Sum>x\<leftarrow>xs. f x) = (\<Sum>x\<leftarrow>xs. gc_smul P a (f x))"
  by (induction xs) (simp_all add: smul_zero_right smul_add_right)

lemma sum_list_zip_fst: "length xs = length ys \<Longrightarrow> (\<Sum>(x, y)\<leftarrow>zip xs ys. f x) = (\<Sum>x\<leftarrow>xs. f x)"
  by (induction xs ys rule: list_induct2) simp_all

lemma sum_list_zip_snd: "length xs = length ys \<Longrightarrow> (\<Sum>(x, y)\<leftarrow>zip xs ys. f y) = (\<Sum>y\<leftarrow>ys. f y)"
  by (induction xs ys rule: list_induct2) simp_all

text \<open>
  The public shares of a support interpolate to a point, and so do the member points.
\<close>

definition inner_key ::
  "('s::field, 'g::ab_group_add) profile \<Rightarrow> ('s, 'g) inner_support \<Rightarrow> 'g" where
  "inner_key P s = (\<Sum>p\<leftarrow>is_participants s.
     gc_smul P (lagrange (dp_node ` set (is_participants s)) (dp_node p)) (dp_share p))"

definition outer_key ::
  "('s::field, 'g::ab_group_add) profile \<Rightarrow> ('s, 'g) outer_support \<Rightarrow> 'g" where
  "outer_key P s = (\<Sum>p\<leftarrow>os_participants s.
     gc_smul P (lagrange (pp_node ` set (os_participants s)) (pp_node p)) (pp_member p))"

lemma inner_key_commitments:
  assumes "group_ok P" "inner_support_ok s" "length gs \<le> length (is_participants s)"
    and "\<forall>p \<in> set (is_participants s). dp_share p = evaluate_commitments P gs (dp_node p)"
  shows "inner_key P s = evaluate_commitments P gs 0"
proof -
  have h: "horner (gc_smul P)" by (rule group_horner [OF assms(1)])
  have dist: "distinct (map dp_node (is_participants s))"
    using assms(2) by (simp add: inner_support_ok_def)
  let ?A = "set (map dp_node (is_participants s))"
  have "inner_key P s = (\<Sum>x\<leftarrow>map dp_node (is_participants s).
      gc_smul P (lagrange ?A x) (evaluate_commitments P gs x))"
    using assms(4) by (simp add: inner_key_def comp_def cong: map_cong)
  also have "\<dots> = (\<Sum>x \<in> ?A. gc_smul P (lagrange ?A x) (evaluate_commitments P gs x))"
    by (rule sum_list_distinct_conv_sum_set [OF dist])
  also have "\<dots> = evaluate_commitments P gs 0"
    using horner.interpolation [OF h, of ?A gs] assms(3) distinct_card [OF dist]
    by (simp add: evaluate_commitments_eval assms(1))
  finally show ?thesis .
qed

lemma outer_key_commitments:
  assumes "group_ok P" "outer_support_ok s" "length gs \<le> length (os_participants s)"
    and "\<forall>p \<in> set (os_participants s). pp_member p = evaluate_commitments P gs (pp_node p)"
  shows "outer_key P s = evaluate_commitments P gs 0"
proof -
  have h: "horner (gc_smul P)" by (rule group_horner [OF assms(1)])
  have dist: "distinct (map pp_node (os_participants s))"
    using assms(2) by (simp add: outer_support_ok_def)
  let ?A = "set (map pp_node (os_participants s))"
  have "outer_key P s = (\<Sum>x\<leftarrow>map pp_node (os_participants s).
      gc_smul P (lagrange ?A x) (evaluate_commitments P gs x))"
    using assms(4) by (simp add: outer_key_def comp_def cong: map_cong)
  also have "\<dots> = (\<Sum>x \<in> ?A. gc_smul P (lagrange ?A x) (evaluate_commitments P gs x))"
    by (rule sum_list_distinct_conv_sum_set [OF dist])
  also have "\<dots> = evaluate_commitments P gs 0"
    using horner.interpolation [OF h, of ?A gs] assms(3) distinct_card [OF dist]
    by (simp add: evaluate_commitments_eval assms(1))
  finally show ?thesis .
qed

section \<open>Member aggregation\<close>

lemma validate_member_inputs_Inr [result_simps]:
  "validate_member_inputs t s nonces = Inr u \<longleftrightarrow> mt_root t = sc_root s
     \<and> map dn_device (dns_entries nonces) = map dp_device (is_participants (bd_inner (mt_body t)))
     \<and> (\<exists>e. package_entry (mt_root t) (bd_slot (mt_body t)) = Inr e
          \<and> re_nonce e = dns_aggregate nonces)"
  by (auto simp: validate_member_inputs_def result_simps)

lemma nonce_bind_sum:
  assumes "group_ok P"
  shows "(\<Sum>e\<leftarrow>es. nonce_bind P (f e) b) =
    nonce_bind P \<lparr>np_hiding = \<Sum>e\<leftarrow>es. np_hiding (f e), np_binding = \<Sum>e\<leftarrow>es. np_binding (f e)\<rparr> b"
  by (induction es)
     (simp_all add: nonce_bind_def smul_zero_right [OF assms] smul_add_right [OF assms])

lemma member_sum_verifies:
  assumes P: "group_ok P" and support: "inner_support_ok support"
    and nonces: "nonce_set_ok support nonces"
    and len: "length rs = length (is_participants support)"
    and ok: "\<forall>(r, p) \<in> set (zip rs (is_participants support)).
      device_response_ok P signing nonces support b outer r p"
  shows "element_from_scalar P (\<Sum>(r, p)\<leftarrow>zip rs (is_participants support). dr_scalar r) =
    nonce_bind P (dns_aggregate nonces) b
      + gc_smul P (sc_challenge signing * outer) (inner_key P support)"
proof -
  let ?ps = "is_participants support" and ?c = "sc_challenge signing"
  let ?l = "\<lambda>p. lagrange (dp_node ` set ?ps) (dp_node p)"
  have devs: "map dn_device (dns_entries nonces) = map dp_device ?ps"
    using nonces by (simp add: nonce_set_ok_def)
  have dist: "distinct (map dn_device (dns_entries nonces))"
    unfolding devs by (rule inner_support_devices [OF support])
  have each: "element_from_scalar P (dr_scalar (rs ! i)) = nonce_bind P (dn_nonce (dns_entries nonces ! i)) b
      + gc_smul P (?c * outer) (gc_smul P (?l (?ps ! i)) (dp_share (?ps ! i)))"
    if i: "i < length ?ps" for i
  proof -
    have "(rs ! i, ?ps ! i) \<in> set (zip rs ?ps)"
      using i len by (auto simp: set_zip)
    with ok have d: "device_response_ok P signing nonces support b outer (rs ! i) (?ps ! i)" by blast
    have entry: "i < length (dns_entries nonces)" "dn_device (dns_entries nonces ! i) = dp_device (?ps ! i)"
      using devs i by (metis length_map, metis length_map nth_map)
    have "set_nonce nonces (dp_device (?ps ! i)) = Inr (dn_nonce (dns_entries nonces ! i))"
      using set_nonce_entry(1) [OF dist, of "dns_entries nonces ! i"] entry by simp
    moreover have "inner_coefficient_of support (dp_device (?ps ! i)) =
        Inr \<lparr>ic_device = dp_device (?ps ! i), ic_scalar = ?l (?ps ! i)\<rparr>"
      using i by (intro inner_coefficient_of_participant [OF support]) simp
    ultimately have "element_from_scalar P (dr_scalar (rs ! i)) =
        nonce_bind P (dn_nonce (dns_entries nonces ! i)) b
        + gc_smul P (?c * (?l (?ps ! i) * outer)) (dp_share (?ps ! i))"
      using d by (auto simp: device_response_ok_def result_simps)
    then show ?thesis by (simp add: smul_mult [OF P, symmetric] mult.assoc mult.left_commute mult.commute)
  qed
  have "element_from_scalar P (\<Sum>(r, p)\<leftarrow>zip rs ?ps. dr_scalar r) =
      (\<Sum>r\<leftarrow>rs. element_from_scalar P (dr_scalar r))"
    by (simp add: sum_list_zip_fst [OF len] element_from_scalar_sum_list [OF P])
  also have "\<dots> = (\<Sum>i < length ?ps. element_from_scalar P (dr_scalar (rs ! i)))"
    by (simp add: sum_list_sum_nth len atLeast0LessThan)
  also have "\<dots> = (\<Sum>i < length ?ps. nonce_bind P (dn_nonce (dns_entries nonces ! i)) b)
      + (\<Sum>i < length ?ps. gc_smul P (?c * outer) (gc_smul P (?l (?ps ! i)) (dp_share (?ps ! i))))"
    by (simp add: each sum.distrib)
  also have "(\<Sum>i < length ?ps. nonce_bind P (dn_nonce (dns_entries nonces ! i)) b) =
      (\<Sum>e\<leftarrow>dns_entries nonces. nonce_bind P (dn_nonce e) b)"
    using map_eq_imp_length_eq [OF devs] by (simp add: sum_list_sum_nth atLeast0LessThan)
  also have "\<dots> = nonce_bind P (dns_aggregate nonces) b"
    unfolding nonce_bind_sum [OF P] using nonces by (simp add: nonce_set_ok_def nonce_bind_def)
  also have "(\<Sum>i < length ?ps. gc_smul P (?c * outer) (gc_smul P (?l (?ps ! i)) (dp_share (?ps ! i)))) =
      gc_smul P (?c * outer) (inner_key P support)"
    unfolding inner_key_def smul_sum_list [OF P]
    by (simp add: sum_list_sum_nth atLeast0LessThan)
  finally show ?thesis .
qed

text \<open>Two strictly sorted lists over one finite set are equal: responses line up with the support.\<close>

lemma sorted_responses_align:
  assumes "inner_support_ok support" "length rs = length (is_participants support)"
    and "distinct (map dr_device rs)" "dr_device ` set rs \<subseteq> dp_device ` set (is_participants support)"
  shows "map dr_device (sort_key dr_device rs) = map dp_device (is_participants support)"
proof (rule strict_sorted_equal)
  show "sorted_wrt (<) (map dr_device (sort_key dr_device rs))"
    using assms(3) by (simp add: strict_sorted_iff distinct_map_sort_key)
  show strict: "sorted_wrt (<) (map dp_device (is_participants support))"
    using assms(1) by (simp add: inner_support_ok_def)
  have "card (dr_device ` set rs) = card (dp_device ` set (is_participants support))"
    using distinct_card [OF assms(3)] distinct_card [OF inner_support_devices [OF assms(1)]] assms(2)
    by simp
  with assms(4) show "set (map dr_device (sort_key dr_device rs)) =
      set (map dp_device (is_participants support))"
    by (simp add: card_subset_eq)
qed

theorem aggregate_member_Inr_iff:
  assumes P: "group_ok P" and inputs: "validate_member_inputs t s nonces = Inr ()"
    and support: "inner_support_ok (bd_inner (mt_body t))"
    and nonces: "nonce_set_ok (bd_inner (mt_body t)) nonces"
    and key: "inner_key P (bd_inner (mt_body t)) = bd_member (mt_body t)"
    and binding: "context_binding s (bd_slot (mt_body t)) = Inr b"
    and len: "length rs = length (is_participants (bd_inner (mt_body t)))"
    and dist: "distinct (map dr_device rs)"
  defines "z \<equiv> \<Sum>r\<leftarrow>sort_key dr_device rs. dr_scalar r"
  shows "aggregate_member P t s nonces rs = Inr m \<longleftrightarrow>
    m = \<lparr>mr_slot = bd_slot (mt_body t), mr_scalar = z\<rparr>
    \<and> (\<forall>(r, p) \<in> set (zip (sort_key dr_device rs) (is_participants (bd_inner (mt_body t)))).
        device_response_ok P s nonces (bd_inner (mt_body t)) b (ocf_scalar (bd_outer (mt_body t))) r p)"
proof -
  let ?sup = "bd_inner (mt_body t)" and ?rs = "sort_key dr_device rs"
    and ?o = "ocf_scalar (bd_outer (mt_body t))"
  let ?ok = "\<forall>(r, p) \<in> set (zip ?rs (is_participants ?sup)).
      device_response_ok P s nonces ?sup b ?o r p"
  have adj: "\<not> any_adjacent (\<lambda>a b. dr_device a = dr_device b) ?rs"
    using any_adjacent_eq_sorted [of dr_device ?rs] dist by (simp add: distinct_map_sort_key)
  have sum: "(\<Sum>(r, p)\<leftarrow>zip ?rs (is_participants ?sup). dr_scalar r) = z"
    by (simp add: z_def sum_list_zip_fst len)
  have "verify_member P z (dns_aggregate nonces) b (sc_challenge s) ?o (bd_member (mt_body t)) = Inr ()"
    if ?ok
    using member_sum_verifies [OF P support nonces _ that] len
    by (simp add: result_simps sum key)
  then show ?thesis
    unfolding aggregate_member_def
    using inputs adj len binding sum
    by (auto simp: Let_def and_then_Inr_iff member_loop_Inr)
qed

text \<open>What a device responds passes the check its member makes.\<close>

lemma respond_device_response:
  assumes P: "group_ok P" and support: "inner_support_ok (bd_inner (mt_body t))"
    and r: "respond_device P nonce t s nonces d share = Inr r"
  shows "validate_member_inputs t s nonces = Inr ()"
    and "d \<in> dp_device ` set (is_participants (bd_inner (mt_body t)))"
    and "map dn_device (dns_entries nonces) = map dp_device (is_participants (bd_inner (mt_body t)))"
    and "dr_device r = d"
    and "context_binding s (bd_slot (mt_body t)) = Inr b \<Longrightarrow>
      p \<in> set (is_participants (bd_inner (mt_body t))) \<Longrightarrow> dp_device p = d \<Longrightarrow>
      device_response_ok P s nonces (bd_inner (mt_body t)) b (ocf_scalar (bd_outer (mt_body t))) r p"
proof -
  from r obtain q pair c b' a where
    v: "validate_member_inputs t s nonces = Inr ()"
    and q: "inner_participant (bd_inner (mt_body t)) d = Inr q" "dp_share q = element_from_scalar P share"
    and n: "nonce_commitments P nonce = Inr pair" "set_nonce nonces d = Inr pair"
    and c: "inner_coefficient_of (bd_inner (mt_body t)) d = Inr c"
    and b': "context_binding s (bd_slot (mt_body t)) = Inr b'"
    and a: "set_attempt nonces d = Inr a"
    and eq: "r = \<lparr>dr_attempt = a, dr_scalar = nonce_respond nonce b' (sc_challenge s)
        (ic_scalar c * ocf_scalar (bd_outer (mt_body t))) share\<rparr>"
    by (auto simp: respond_device_def and_then_Inr_iff if_Inl_eq_Inr Let_def)
  from v show "validate_member_inputs t s nonces = Inr ()" .
  from q inner_participant_Inr [OF support] have qm: "q \<in> set (is_participants (bd_inner (mt_body t)))"
    "dp_device q = d" by auto
  then show "d \<in> dp_device ` set (is_participants (bd_inner (mt_body t)))" by auto
  from v show "map dn_device (dns_entries nonces) = map dp_device (is_participants (bd_inner (mt_body t)))"
    by (simp add: validate_member_inputs_Inr)
  from a have "la_device a = d"
    by (auto simp: set_attempt_def result_simps dest: search_key_SomeD)
  with eq show dev: "dr_device r = d" by simp
  assume b: "context_binding s (bd_slot (mt_body t)) = Inr b"
    and p: "p \<in> set (is_participants (bd_inner (mt_body t)))" "dp_device p = d"
  have "inner_participant (bd_inner (mt_body t)) d = Inr p"
    using p inner_participant_Inr [OF support] by blast
  with q have "p = q" by simp
  with b b' q show "device_response_ok P s nonces (bd_inner (mt_body t)) b
      (ocf_scalar (bd_outer (mt_body t))) r p"
    unfolding device_response_ok_def dev
    using a c n(2) eq respond_verifies [OF P n(1)] qm
    by (simp add: verify_device_Inr)
qed

section \<open>Signature aggregation\<close>

definition context_bound ::
  "('s::field, 'g::ab_group_add) profile \<Rightarrow> ('s, 'g) signing_context \<Rightarrow> bool" where
  "context_bound P s \<longleftrightarrow> map fst (sc_bindings s) = map re_slot (rt_entries (sc_root s))
     \<and> sc_nonce s = (\<Sum>(e, b)\<leftarrow>zip (rt_entries (sc_root s)) (sc_bindings s).
          nonce_bind P (re_nonce e) (snd b))"

definition context_ok ::
  "('s::field, 'g::ab_group_add) profile \<Rightarrow> ('s, 'g) signing_context \<Rightarrow> bool" where
  "context_ok P s \<longleftrightarrow> context_bound P s \<and> sc_nonce s \<noteq> 0
     \<and> schnorr_challenge P (sc_nonce s) (rt_key (sc_root s)) (rt_message (sc_root s)) =
          Inr (sc_challenge s)"

lemma signing_context_new_ok:
  assumes "signing_context_new P root = Inr s"
  shows "context_ok P s \<and> sc_root s = root"
proof -
  let ?f = "\<lambda>e. and_then (binding_preimage P root (re_slot e)) (\<lambda>preimage.
    and_then (binding_factor P preimage) (\<lambda>b. Inr (re_slot e, re_nonce e, b)))"
  from assms obtain bs where bs: "collect_results ?f (rt_entries root) = Inr bs"
    and agg: "aggregate_nonce P (map (\<lambda>(_, n, b). (n, b)) bs) = Inr (sc_nonce s)"
    and ch: "schnorr_challenge P (sc_nonce s) (rt_key root) (rt_message root) = Inr (sc_challenge s)"
    and s: "sc_root s = root" "sc_bindings s = map (\<lambda>(sl, _, b). (sl, b)) bs"
    by (auto simp: signing_context_new_def and_then_Inr_iff)
  then have bs: "list_all2 (\<lambda>e x. \<exists>b. x = (re_slot e, re_nonce e, b)) (rt_entries root) bs"
    unfolding collect_results_Inr_iff by (auto simp: and_then_Inr_iff elim!: list_all2_mono)
  from bs have "map fst (sc_bindings s) = map re_slot (rt_entries root)
      \<and> (\<Sum>(e, b)\<leftarrow>zip (rt_entries root) (sc_bindings s). nonce_bind P (re_nonce e) (snd b)) =
        (\<Sum>(pair, b)\<leftarrow>map (\<lambda>(_, n, b). (n, b)) bs. nonce_bind P pair b)"
    unfolding s(2) by (induction rule: list_all2_induct) auto
  moreover have "sc_nonce s \<noteq> 0"
    "sc_nonce s = (\<Sum>(pair, b)\<leftarrow>map (\<lambda>(_, n, b). (n, b)) bs. nonce_bind P pair b)"
    using agg unfolding aggregate_nonce_Inr by blast+
  ultimately show ?thesis unfolding context_ok_def context_bound_def s(1) using ch by (metis s(1))
qed

lemma package_validate_support_Inr [result_simps]:
  "package_validate_support p support = Inr u \<longleftrightarrow>
     map (\<lambda>e. (re_slot e, rc_member (re_record e))) (rt_entries p) =
     map (\<lambda>q. (pp_slot q, pp_member q)) (os_participants support)"
proof (cases "length (rt_entries p) = length (os_participants support)")
  case True
  have "(\<lambda>(e, q). re_slot e \<noteq> pp_slot q \<or> rc_member (re_record e) \<noteq> pp_member q) =
      (\<lambda>(e, q). (re_slot e, rc_member (re_record e)) \<noteq> (pp_slot q, pp_member q))"
    by auto
  with not_list_ex_zip [OF True, of "\<lambda>e. (re_slot e, rc_member (re_record e))"
      "\<lambda>q. (pp_slot q, pp_member q)"] True show ?thesis
    by (auto simp: package_validate_support_def)
next
  case False
  then show ?thesis by (auto simp: package_validate_support_def dest: map_eq_imp_length_eq)
qed

lemma signature_sum_verifies:
  assumes P: "group_ok P" and support: "outer_support_ok support" and ctx: "context_bound P s"
    and root: "package_validate_support (sc_root s) support = Inr ()"
    and len: "length rs = length (os_participants support)"
    and ok: "\<forall>((r, p), e) \<in> set (zip (zip rs (os_participants support)) (rt_entries (sc_root s))).
      member_response_ok P s support r p e"
  shows "element_from_scalar P (\<Sum>r\<leftarrow>rs. mr_scalar r) =
    sc_nonce s + gc_smul P (sc_challenge s) (outer_key P support)"
proof -
  let ?ps = "os_participants support" and ?es = "rt_entries (sc_root s)"
    and ?bs = "sc_bindings s" and ?c = "sc_challenge s"
  let ?l = "\<lambda>p. lagrange (pp_node ` set ?ps) (pp_node p)"
  have slots: "map re_slot ?es = map pp_slot ?ps"
    using arg_cong [OF root [unfolded package_validate_support_Inr], of "map fst"]
    by (simp add: comp_def)
  have lens: "length ?es = length ?ps" "length ?bs = length ?ps"
    using map_eq_imp_length_eq [OF slots] ctx by (auto simp: context_bound_def dest: map_eq_imp_length_eq)
  have fsts: "map fst ?bs = map pp_slot ?ps" using ctx slots by (simp add: context_bound_def)
  have each: "element_from_scalar P (mr_scalar (rs ! i)) = nonce_bind P (re_nonce (?es ! i)) (snd (?bs ! i))
      + gc_smul P ?c (gc_smul P (?l (?ps ! i)) (pp_member (?ps ! i)))"
    if i: "i < length ?ps" for i
  proof -
    have "((rs ! i, ?ps ! i), ?es ! i) \<in> set (zip (zip rs ?ps) ?es)"
      using nth_mem [of i "zip (zip rs ?ps) ?es"] i len lens by simp
    with ok have d: "member_response_ok P s support (rs ! i) (?ps ! i) (?es ! i)" by blast
    have dist: "distinct (map fst ?bs)" unfolding fsts by (rule outer_support_slots [OF support])
    have "fst (?bs ! i) = pp_slot (?ps ! i)" using fsts i lens by (metis nth_map length_map)
    with search_key_distinct [OF dist, of "?bs ! i"] i lens
    have "context_binding s (pp_slot (?ps ! i)) = Inr (snd (?bs ! i))"
      by (simp add: context_binding_def)
    moreover have "outer_coefficient_of support (pp_person (?ps ! i)) =
        Inr \<lparr>ocf_person = pp_person (?ps ! i), ocf_slot = pp_slot (?ps ! i),
             ocf_member = pp_member (?ps ! i), ocf_scalar = ?l (?ps ! i)\<rparr>"
      using i by (intro outer_coefficient_of_participant [OF support]) simp
    ultimately have "element_from_scalar P (mr_scalar (rs ! i)) =
        nonce_bind P (re_nonce (?es ! i)) (snd (?bs ! i)) + gc_smul P (?c * ?l (?ps ! i)) (pp_member (?ps ! i))"
      using d by (auto simp: member_response_ok_def result_simps)
    then show ?thesis by (simp add: smul_mult [OF P])
  qed
  have "element_from_scalar P (\<Sum>r\<leftarrow>rs. mr_scalar r) =
      (\<Sum>i < length ?ps. element_from_scalar P (mr_scalar (rs ! i)))"
    unfolding element_from_scalar_sum_list [OF P]
    by (simp add: sum_list_sum_nth len atLeast0LessThan)
  also have "\<dots> = (\<Sum>i < length ?ps. nonce_bind P (re_nonce (?es ! i)) (snd (?bs ! i)))
      + (\<Sum>i < length ?ps. gc_smul P ?c (gc_smul P (?l (?ps ! i)) (pp_member (?ps ! i))))"
    by (simp add: each sum.distrib)
  also have "(\<Sum>i < length ?ps. nonce_bind P (re_nonce (?es ! i)) (snd (?bs ! i))) = sc_nonce s"
    using ctx lens by (simp add: context_bound_def sum_list_sum_nth atLeast0LessThan)
  also have "(\<Sum>i < length ?ps. gc_smul P ?c (gc_smul P (?l (?ps ! i)) (pp_member (?ps ! i)))) =
      gc_smul P ?c (outer_key P support)"
    unfolding outer_key_def smul_sum_list [OF P]
    by (simp add: sum_list_sum_nth atLeast0LessThan)
  finally show ?thesis .
qed

theorem aggregate_signature_Inr_iff:
  assumes P: "group_ok P" and support: "outer_support_ok support" and ctx: "context_ok P s"
    and root: "package_validate_support (sc_root s) support = Inr ()"
    and key: "outer_key P support = rt_key (sc_root s)"
    and len: "length rs = length (os_participants support)"
    and dist: "distinct (map mr_slot rs)"
  shows "aggregate_signature P s support rs = Inr sig \<longleftrightarrow>
    sig = \<lparr>sg_nonce = sc_nonce s, sg_response = \<Sum>r\<leftarrow>sort_key mr_slot rs. mr_scalar r\<rparr>
    \<and> (\<forall>((r, p), e) \<in> set (zip (zip (sort_key mr_slot rs) (os_participants support))
          (rt_entries (sc_root s))). member_response_ok P s support r p e)"
proof -
  let ?rs = "sort_key mr_slot rs" and ?ps = "os_participants support" and ?es = "rt_entries (sc_root s)"
  let ?ok = "\<forall>((r, p), e) \<in> set (zip (zip ?rs ?ps) ?es). member_response_ok P s support r p e"
  have adj: "\<not> any_adjacent (\<lambda>a b. mr_slot a = mr_slot b) ?rs"
    using any_adjacent_eq_sorted [of mr_slot ?rs] dist by (simp add: distinct_map_sort_key)
  have lens: "length ?es = length ?ps"
    using map_eq_imp_length_eq [OF root [unfolded package_validate_support_Inr]] .
  have "(\<Sum>((r, p), e)\<leftarrow>zip (zip ?rs ?ps) ?es. mr_scalar r) =
      (\<Sum>x\<leftarrow>zip ?rs ?ps. mr_scalar (fst x))"
    using sum_list_zip_fst [of "zip ?rs ?ps" ?es "\<lambda>x. mr_scalar (fst x)"] lens len
    by (simp add: case_prod_beta')
  also have "\<dots> = (\<Sum>r\<leftarrow>?rs. mr_scalar r)"
    using sum_list_zip_fst [of ?rs ?ps mr_scalar] len by (simp add: case_prod_beta')
  finally have sum: "(\<Sum>((r, p), e)\<leftarrow>zip (zip ?rs ?ps) ?es. mr_scalar r) = (\<Sum>r\<leftarrow>?rs. mr_scalar r)" .
  have "signature_verify P \<lparr>sg_nonce = sc_nonce s, sg_response = \<Sum>r\<leftarrow>?rs. mr_scalar r\<rparr>
      (rt_key (sc_root s)) (rt_message (sc_root s)) = Inr ()" if ?ok
  proof -
    have "schnorr_challenge P (sc_nonce s) (rt_key (sc_root s)) (rt_message (sc_root s)) =
        Inr (sc_challenge s)" using ctx unfolding context_ok_def by blast
    with signature_sum_verifies [OF P support _ root _ that] ctx len show ?thesis
      by (simp add: signature_verify_Inr key context_ok_def)
  qed
  then show ?thesis
    unfolding aggregate_signature_def
    using root adj len sum
    by (auto simp: Let_def and_then_Inr_iff signature_loop_Inr)
qed

end
