(* ===== verification/Ksnf_Fixture.thy ===== *)
theory Ksnf_Fixture
  imports Ksnf_Profile
begin

text \<open>
  A concrete group crate for the witnesses: the field of seven elements as its own group, with
  the byte lengths of secp256k1, and a profile over it whose hashes are constant.
\<close>

section \<open>The field of seven elements\<close>

typedef gf7 = "{0..<7::int}"
  by (rule exI [of _ 0]) simp

setup_lifting type_definition_gf7

lift_definition gf :: "int \<Rightarrow> gf7" is "\<lambda>n. n mod 7"
  by simp

lift_definition gf_val :: "gf7 \<Rightarrow> int" is "\<lambda>n. n" .

instantiation gf7 :: field
begin

lift_definition zero_gf7 :: gf7 is 0 by simp
lift_definition one_gf7 :: gf7 is 1 by simp
lift_definition plus_gf7 :: "gf7 \<Rightarrow> gf7 \<Rightarrow> gf7" is "\<lambda>a b. (a + b) mod 7" by simp
lift_definition minus_gf7 :: "gf7 \<Rightarrow> gf7 \<Rightarrow> gf7" is "\<lambda>a b. (a - b) mod 7" by simp
lift_definition uminus_gf7 :: "gf7 \<Rightarrow> gf7" is "\<lambda>a. (- a) mod 7" by simp
lift_definition times_gf7 :: "gf7 \<Rightarrow> gf7 \<Rightarrow> gf7" is "\<lambda>a b. (a * b) mod 7" by simp
lift_definition inverse_gf7 :: "gf7 \<Rightarrow> gf7" is "\<lambda>a. (a ^ 5) mod 7" by simp

definition divide_gf7 :: "gf7 \<Rightarrow> gf7 \<Rightarrow> gf7" where
  "divide_gf7 a b = a * inverse b"

instance
proof
  fix a b c :: gf7
  show "a * b * c = a * (b * c)"
    by transfer (simp add: mod_mult_left_eq mod_mult_right_eq mult.assoc)
  show "a * b = b * a" by transfer (simp add: mult.commute)
  show "1 * a = a" by transfer simp
  show "a + b + c = a + (b + c)"
    by transfer (simp add: mod_add_left_eq mod_add_right_eq add.assoc)
  show "a + b = b + a" by transfer (simp add: add.commute)
  show "0 + a = a" by transfer simp
  show "- a + a = 0" by transfer (simp add: mod_add_left_eq)
  show "a - b = a + - b" by transfer (simp add: mod_add_right_eq)
  show "(a + b) * c = a * c + b * c"
    by transfer (simp add: mod_mult_left_eq mod_add_eq distrib_right)
  show "(0 :: gf7) \<noteq> 1" by transfer simp
  show "a \<noteq> 0 \<Longrightarrow> inverse a * a = 1"
  proof transfer
    fix n :: int
    assume "n \<in> {0..<7}" "n \<noteq> 0"
    then consider "n = 1" | "n = 2" | "n = 3" | "n = 4" | "n = 5" | "n = 6" by fastforce
    then show "n ^ 5 mod 7 * n mod 7 = 1" by cases simp_all
  qed
  show "a div b = a * inverse b" by (simp add: divide_gf7_def)
  show "inverse (0 :: gf7) = 0" by transfer simp
qed

end

text \<open>Evaluation on the representatives.\<close>

lemma gf_eval [simp]:
  "gf a + gf b = gf (a + b)" "gf a - gf b = gf (a - b)" "gf a * gf b = gf (a * b)"
  "- gf a = gf (- a)" "inverse (gf a) = gf (a ^ 5)" "gf a = gf b \<longleftrightarrow> a mod 7 = b mod 7"
  "gf a / gf b = gf (a * b ^ 5)"
proof -
  show "gf a + gf b = gf (a + b)" by transfer (simp add: mod_add_eq)
  show "gf a - gf b = gf (a - b)" by transfer (simp add: mod_diff_eq)
  show mult: "gf a * gf b = gf (a * b)" for a b by transfer (simp add: mod_mult_eq)
  show "- gf a = gf (- a)" by transfer (simp add: mod_minus_eq)
  show inv: "inverse (gf a) = gf (a ^ 5)" for a by transfer (simp add: power_mod)
  show "gf a = gf b \<longleftrightarrow> a mod 7 = b mod 7" by transfer simp
  show "gf a / gf b = gf (a * b ^ 5)" by (simp add: divide_gf7_def mult inv)
qed

lemma gf_zero: "0 = gf 0" and gf_one: "1 = gf 1"
  by (transfer, simp)+

lemma gf_zero_iff [simp]:
  "gf a = 0 \<longleftrightarrow> a mod 7 = 0" "0 = gf a \<longleftrightarrow> a mod 7 = 0"
  "gf a = 1 \<longleftrightarrow> a mod 7 = 1" "1 = gf a \<longleftrightarrow> a mod 7 = 1"
  by (auto simp: gf_zero gf_one)

lemma gf_units [simp]:
  "gf a + 0 = gf a" "0 + gf a = gf a" "1 * gf a = gf a" "gf a * 1 = gf a"
  "0 - gf a = gf (- a)" "gf a - 0 = gf a"
  by simp_all

lemma gf_mod: "gf a = gf (a mod 7)"
  by simp

lemma gf_val_gf [simp]: "gf_val (gf a) = a mod 7"
  by transfer simp

lemma gf_gf_val [simp]: "gf (gf_val x) = x"
  by transfer simp

lemma gf_val_bounds: "0 \<le> gf_val x" "gf_val x < 7"
  by (transfer, simp)+

lemma gf_of_nat: "of_nat n = gf (int n)"
  by (induction n) (simp_all add: gf_zero gf_one)

section \<open>The crate\<close>

text \<open>
  The group is the field. A point is a tag and a coordinate, and a point and its opposite share
  their coordinate: the tag is 2 for the lower half of the field and 3 for the upper one.
\<close>

definition toy_scalar_bytes :: "gf7 \<Rightarrow> bytes" where
  "toy_scalar_bytes s = be_bytes 32 (nat (gf_val s))"

definition toy_scalar_of :: "bytes \<Rightarrow> gf7 option" where
  "toy_scalar_of bs = (if be_val bs < 7 then Some (gf (int (be_val bs))) else None)"

definition toy_point_bytes :: "gf7 \<Rightarrow> bytes" where
  "toy_point_bytes g = (if gf_val g \<le> 3 then 2 # toy_scalar_bytes g else 3 # toy_scalar_bytes (- g))"

definition toy_point_of :: "bytes \<Rightarrow> group_error + gf7" where
  "toy_point_of bs = (case toy_scalar_of (tl bs) of
     None \<Rightarrow> Inl MalformedElement
   | Some x \<Rightarrow> if x = 0 then Inl InvalidIdentityElement
       else if gf_val x > 3 then Inl MalformedElement
       else if hd bs = 2 then Inr x else if hd bs = 3 then Inr (- x) else Inl MalformedElement)"

definition toy_crate :: "(gf7, gf7) group_crate" where
  "toy_crate = \<lparr>gc_generator = 1, gc_smul = (*), gc_scalar_len = 32, gc_point_len = 33,
     gc_ser_scalar = toy_scalar_bytes, gc_deser_scalar = toy_scalar_of,
     gc_enc_point = toy_point_bytes, gc_deser_point = toy_point_of,
     gc_scalar_of_u64 = (\<lambda>v. gf (int (unat v)))\<rparr>"

definition toy_profile :: "(gf7, gf7) profile" where
  "toy_profile = secp256k1_profile toy_crate (\<lambda>message dst. Some (gf 3))"

lemma toy_scalar_val: "be_val (toy_scalar_bytes s) = nat (gf_val s)"
proof -
  have "nat (gf_val s) < 7" using gf_val_bounds [of s] by simp
  also have "(7 :: nat) < 256 ^ 32" by simp
  finally show ?thesis by (simp add: toy_scalar_bytes_def be_val_be_bytes)
qed

lemma length_toy_scalar [simp]: "length (toy_scalar_bytes s) = 32"
  by (simp add: toy_scalar_bytes_def)

lemma toy_scalar_round [simp]: "toy_scalar_of (toy_scalar_bytes s) = Some s"
  using gf_val_bounds [of s] by (simp add: toy_scalar_of_def toy_scalar_val)

lemma toy_scalar_canonical: "length bs = 32 \<Longrightarrow> toy_scalar_of bs = Some s \<Longrightarrow> toy_scalar_bytes s = bs"
  using be_bytes_be_val [of bs]
  by (auto simp: toy_scalar_of_def toy_scalar_bytes_def split: if_splits)

lemma toy_profile_fields [simp]:
  "gc_generator toy_profile = 1" "gc_smul toy_profile = (*)" "gc_scalar_len toy_profile = 32"
  "gc_point_len toy_profile = 33" "gc_ser_scalar toy_profile = toy_scalar_bytes"
  "gc_deser_scalar toy_profile = toy_scalar_of"
  "gc_enc_point toy_profile = toy_point_bytes" "gc_deser_point toy_profile = toy_point_of"
  "gc_scalar_of_u64 toy_profile = (\<lambda>v. gf (int (unat v)))"
  "pf_wire_id toy_profile = 1" "pf_protocol_id toy_profile = ascii_bytes ''coupery-ksnf/v1''"
  "pf_material_magic toy_profile = ascii_bytes ''KSNFMAT1''"
  "pf_journal_magic toy_profile = ascii_bytes ''KSNFJNL1''"
  "pf_hash_to_scalar toy_profile d m = Inr (gf 3)"
  by (simp_all add: toy_profile_def secp256k1_profile_def toy_crate_def group_crate.defs)

lemma toy_challenge [simp]:
  "length m < 2 ^ 32 \<Longrightarrow> pf_challenge toy_profile n k m = Inr (gf 3)"
  by (simp add: toy_profile_def secp256k1_profile_def group_crate.defs
      secp256k1_challenge_preimage_def)

lemma gf_val_uminus: "g \<noteq> 0 \<Longrightarrow> gf_val (- g) = 7 - gf_val g"
proof -
  assume "g \<noteq> 0"
  then have "gf_val g \<noteq> 0" by (metis gf_gf_val gf_zero)
  moreover have "gf_val (- g) = (- gf_val g) mod 7" by transfer simp
  ultimately show ?thesis using gf_val_bounds [of g] by (simp add: zmod_zminus1_eq_if)
qed

lemma length_toy_point [simp]: "length (toy_point_bytes g) = 33"
  by (simp add: toy_point_bytes_def)

lemma toy_point_round: "g \<noteq> 0 \<Longrightarrow> toy_point_of (toy_point_bytes g) = Inr g"
  using gf_val_bounds [of g] by (auto simp: toy_point_of_def toy_point_bytes_def gf_val_uminus)

lemma toy_point_canonical:
  assumes "length bs = 33" "toy_point_of bs = Inr g"
  shows "toy_point_bytes g = bs"
proof -
  obtain t r where bs: "bs = t # r" "length r = 32" using assms(1) by (cases bs) auto
  from assms(2) obtain x where x: "toy_scalar_of r = Some x" "x \<noteq> 0" "\<not> gf_val x > 3"
    "t = 2 \<and> g = x \<or> t = 3 \<and> g = - x"
    by (auto simp: toy_point_of_def bs split: option.splits if_splits)
  then show ?thesis using toy_scalar_canonical [OF bs(2) x(1)]
    by (auto simp: toy_point_bytes_def bs gf_val_uminus)
qed

lemma toy_element [simp]: "element_from_scalar toy_profile s = s"
  by (simp add: element_from_scalar_def)

lemma toy_group_ok [simp]: "group_ok toy_profile"
  by (simp add: group_ok_def distrib_left distrib_right mult.assoc gf_of_nat toy_scalar_canonical
      toy_point_round toy_point_canonical)

lemma toy_signature_codec_ok [simp]: "signature_codec_ok toy_profile"
  by (simp add: toy_profile_def secp256k1_signature_codec toy_crate_def)

end
