(* ===== verification/Ksnf_Demo.thy ===== *)
theory Ksnf_Demo
  imports Ksnf_Signing_Proofs Ksnf_Fixture
begin

text \<open>
  A signing run over the fixture: two people, one of them with two devices. The witnesses of the
  signing and leaf theorems evaluate it.
\<close>

section \<open>A concrete run\<close>

definition demo_people :: "(gf7, gf7) person_participant list" where
  "demo_people = [\<lparr>pp_person = Ident 2, pp_slot = 2, pp_node = gf 2, pp_member = gf 4\<rparr>,
     \<lparr>pp_person = Ident 1, pp_slot = 1, pp_node = gf 1, pp_member = gf 1\<rparr>]"

definition demo_outer :: "(gf7, gf7) outer_support" where
  "demo_outer = \<lparr>os_participants = rev demo_people, os_coefficients = [gf 2, gf 6]\<rparr>"

definition demo_devices :: "(gf7, gf7) device_participant list" where
  "demo_devices = [\<lparr>dp_device = Ident 20, dp_node = gf 1, dp_share = gf 3\<rparr>,
     \<lparr>dp_device = Ident 21, dp_node = gf 2, dp_share = gf 5\<rparr>]"

definition demo_inner :: "(gf7, gf7) inner_support" where
  "demo_inner = \<lparr>is_participants = demo_devices, is_coefficients = [gf 2, gf 6]\<rparr>"

definition demo_single :: "(gf7, gf7) inner_support" where
  "demo_single = \<lparr>is_participants = [\<lparr>dp_device = Ident 30, dp_node = gf 1, dp_share = gf 4\<rparr>],
     is_coefficients = [1]\<rparr>"

definition demo_attempt :: "device_id \<Rightarrow> leaf_attempt" where
  "demo_attempt d = \<lparr>la_device = d, la_sequence = 1\<rparr>"

definition demo_nonces :: "gf7 device_nonce_set" where
  "demo_nonces = \<lparr>dns_entries =
      [\<lparr>dn_attempt = demo_attempt (Ident 20), dn_nonce = \<lparr>np_hiding = gf 1, np_binding = gf 1\<rparr>\<rparr>,
       \<lparr>dn_attempt = demo_attempt (Ident 21), dn_nonce = \<lparr>np_hiding = gf 2, np_binding = gf 1\<rparr>\<rparr>],
     dns_aggregate = \<lparr>np_hiding = gf 3, np_binding = gf 2\<rparr>\<rparr>"

definition demo_single_nonces :: "gf7 device_nonce_set" where
  "demo_single_nonces = \<lparr>dns_entries =
      [\<lparr>dn_attempt = demo_attempt (Ident 30), dn_nonce = \<lparr>np_hiding = gf 1, np_binding = gf 2\<rparr>\<rparr>],
     dns_aggregate = \<lparr>np_hiding = gf 1, np_binding = gf 2\<rparr>\<rparr>"

definition demo_context :: root_context where
  "demo_context = \<lparr>cx_vault = Ident 9, cx_epoch = 3, cx_ceremony = Ident 8\<rparr>"

definition demo_message :: bytes where
  "demo_message = replicate 32 7"

lemma demo_message_length [simp]: "length demo_message = 32"
  by (simp add: demo_message_def)

definition demo_root :: "(gf7, gf7) root_package" where
  "demo_root = \<lparr>rt_key = gf 5, rt_message = demo_message, rt_context = demo_context, rt_entries =
     [\<lparr>re_record = \<lparr>rc_slot = 1, rc_member = gf 1, rc_commitment = gf 3\<rparr>,
       re_nonce = \<lparr>np_hiding = gf 3, np_binding = gf 2\<rparr>\<rparr>,
      \<lparr>re_record = \<lparr>rc_slot = 2, rc_member = gf 4, rc_commitment = gf 3\<rparr>,
       re_nonce = \<lparr>np_hiding = gf 1, np_binding = gf 2\<rparr>\<rparr>]\<rparr>"

definition demo_epoch :: "person_id \<Rightarrow> key_epoch" where
  "demo_epoch p = \<lparr>ke_outer = 3, ke_inner = 0, ke_anchor = \<lparr>an_vault = Ident 9, an_person = p,
     an_identity = Ident 70, an_member = Ident 71\<rparr>\<rparr>"

definition demo_body :: "(gf7, gf7) member_body" where
  "demo_body = \<lparr>bd_identity = gf 2, bd_member = gf 1, bd_epoch = demo_epoch (Ident 1),
     bd_inner = demo_inner, bd_outer = \<lparr>ocf_person = Ident 1, ocf_slot = 1, ocf_member = gf 1,
       ocf_scalar = gf 2\<rparr>\<rparr>"

definition demo_single_body :: "(gf7, gf7) member_body" where
  "demo_single_body = \<lparr>bd_identity = gf 2, bd_member = gf 4, bd_epoch = demo_epoch (Ident 2),
     bd_inner = demo_single, bd_outer = \<lparr>ocf_person = Ident 2, ocf_slot = 2, ocf_member = gf 4,
       ocf_scalar = gf 6\<rparr>\<rparr>"

definition demo_transcript :: "(gf7, gf7) member_body \<Rightarrow> (gf7, gf7) member_transcript" where
  "demo_transcript b = \<lparr>mt_root = demo_root, mt_opening = \<lparr>op_salt = gf 1, op_body = b\<rparr>\<rparr>"

definition demo_signing :: "(gf7, gf7) signing_context" where
  "demo_signing = \<lparr>sc_root = demo_root, sc_bindings = [(1, gf 3), (2, gf 3)], sc_nonce = gf 2,
     sc_challenge = gf 3\<rparr>"

definition demo_response :: "device_id \<Rightarrow> int \<Rightarrow> gf7 device_response" where
  "demo_response d z = \<lparr>dr_attempt = demo_attempt d, dr_scalar = gf z\<rparr>"

lemmas demo_signing_defs = demo_people_def demo_outer_def demo_devices_def demo_inner_def
  demo_single_def demo_attempt_def demo_nonces_def demo_single_nonces_def demo_context_def
  demo_root_def demo_epoch_def demo_body_def demo_single_body_def demo_transcript_def
  demo_signing_def demo_response_def

lemma demo_outer_new: "outer_support_new demo_people = Inr demo_outer"
  by (simp add: demo_signing_defs outer_support_new_def reject_duplicate_people_def
      lagrange_at_zero_def validate_support_def lagrange_products_def field_invert_def
      word_le_nat_alt)

lemma demo_inner_new: "inner_support_new (rev demo_devices) = Inr demo_inner"
  by (simp add: demo_signing_defs inner_support_new_def reject_duplicate_devices_def
      lagrange_at_zero_def validate_support_def lagrange_products_def field_invert_def
      less_eq_ident_def less_ident_def)

lemma demo_nonces_new: "device_nonce_set_new demo_inner (dns_entries demo_nonces) = Inr demo_nonces"
  by (simp add: demo_signing_defs device_nonce_set_new_def sum_nonce_pairs_def point_new_def
      less_eq_ident_def less_ident_def gf_zero)

lemma demo_root_short: "\<exists>bs. package_to_bytes toy_profile demo_root = Inr bs \<and> length bs < 2 ^ 10"
  by (simp add: package_to_bytes_def encode_root_prefix_def demo_signing_defs put_bytes_def
      count_u16_def ascii_bytes_def encode_public_def encode_record_def put_point_def
      put_scalar_def point_to_bytes_def)

lemma demo_root_bytes:
  obtains bs where "package_to_bytes toy_profile demo_root = Inr bs" "length bs < 2 ^ 32"
  using demo_root_short by auto

lemma demo_signing_new: "signing_context_new toy_profile demo_root = Inr demo_signing"
proof -
  obtain bs where bs: "package_to_bytes toy_profile demo_root = Inr bs" "length bs < 2 ^ 32"
    by (rule demo_root_bytes)
  then have "\<exists>x. binding_preimage toy_profile demo_root sl = Inr x" if "sl = 1 \<or> sl = 2" for sl
    using that by (auto simp: binding_preimage_def demo_root_def search_index_def put_bytes_def
        count_u16_def)
  then obtain x y where eqs: "binding_preimage toy_profile demo_root 1 = Inr x"
    "binding_preimage toy_profile demo_root 2 = Inr y" by blast
  have "rt_key demo_root = gf 5" "rt_message demo_root = demo_message" "rt_entries demo_root =
     [\<lparr>re_record = \<lparr>rc_slot = 1, rc_member = gf 1, rc_commitment = gf 3\<rparr>,
       re_nonce = \<lparr>np_hiding = gf 3, np_binding = gf 2\<rparr>\<rparr>,
      \<lparr>re_record = \<lparr>rc_slot = 2, rc_member = gf 4, rc_commitment = gf 3\<rparr>,
       re_nonce = \<lparr>np_hiding = gf 1, np_binding = gf 2\<rparr>\<rparr>]"
    by (simp_all add: demo_root_def)
  with eqs show ?thesis
    by (simp add: signing_context_new_def binding_factor_def aggregate_nonce_def
        point_new_def nonce_bind_def schnorr_challenge_def demo_signing_def)
qed

lemma demo_respond:
  "respond_device toy_profile \<lparr>sn_hiding = gf 1, sn_binding = gf 1\<rparr> (demo_transcript demo_body)
     demo_signing demo_nonces (Ident 20) (gf 3) = Inr (demo_response (Ident 20) 5)"
  "respond_device toy_profile \<lparr>sn_hiding = gf 2, sn_binding = gf 1\<rparr> (demo_transcript demo_body)
     demo_signing demo_nonces (Ident 21) (gf 5) = Inr (demo_response (Ident 21) 3)"
  by (simp_all add: demo_signing_defs respond_device_def validate_member_inputs_def
      set_validate_support_def package_entry_def inner_participant_def nonce_commitments_def
      point_from_scalar_def point_new_def set_nonce_def inner_coefficient_of_def context_binding_def
      set_attempt_def nonce_respond_def)

lemma demo_aggregate:
  "aggregate_member toy_profile (demo_transcript demo_body) demo_signing demo_nonces
     [demo_response (Ident 21) 3, demo_response (Ident 20) 5] = Inr \<lparr>mr_slot = 1, mr_scalar = gf 1\<rparr>"
  "aggregate_member toy_profile (demo_transcript demo_single_body) demo_signing demo_single_nonces
     [demo_response (Ident 30) 2] = Inr \<lparr>mr_slot = 2, mr_scalar = gf 2\<rparr>"
  by (simp_all add: demo_signing_defs aggregate_member_def validate_member_inputs_def
      set_validate_support_def package_entry_def set_nonce_def inner_coefficient_of_def
      context_binding_def set_attempt_def verify_device_def verify_member_def nonce_bind_def
      less_eq_ident_def less_ident_def)


definition demo_reservation :: "(gf7, gf7) member_reservation" where
  "demo_reservation = \<lparr>rv_prepackage = package_prepackage demo_root,
     rv_opening = \<lparr>op_salt = gf 1, op_body = demo_body\<rparr>\<rparr>"

lemma demo_outer_ok: "outer_support_ok demo_outer"
  using demo_outer_new unfolding outer_support_new_Inr by blast

lemma demo_inner_ok: "inner_support_ok demo_inner"
  using demo_inner_new unfolding inner_support_new_Inr by blast

lemma demo_body_bytes:
  "\<exists>bs. member_body_to_bytes toy_profile demo_body = Inr bs \<and> length bs < 2 ^ 10"
  by (simp add: member_body_to_bytes_def demo_signing_defs put_bytes_def inner_coefficient_of_def
      encode_participant_def count_u16_def encode_key_epoch_def put_point_def put_scalar_def
      point_to_bytes_def put_element_def element_to_bytes_def)

lemma demo_reservation_new:
  "reservation_new toy_profile (package_prepackage demo_root) \<lparr>op_salt = gf 1, op_body = demo_body\<rparr>
     demo_outer = Inr demo_reservation"
proof -
  obtain bs where "member_body_to_bytes toy_profile demo_body = Inr bs" "length bs < 2 ^ 10"
    using demo_body_bytes by blast
  then have "opening_record toy_profile \<lparr>op_salt = gf 1, op_body = demo_body\<rparr> =
      Inr \<lparr>rc_slot = 1, rc_member = gf 1, rc_commitment = gf 3\<rparr>"
    by (simp add: opening_record_def member_record_commit_def put_bytes_def ascii_bytes_def)
       (simp add: demo_body_def)
  then show ?thesis
    by (simp add: reservation_new_def demo_reservation_def Let_def prepackage_validate_support_def
        prepackage_record_def package_prepackage_def)
       (simp add: demo_signing_defs)
qed

lemma demo_reservation_ok: "reservation_ok toy_profile demo_outer demo_reservation"
proof -
  have "prepackage_ok (package_prepackage demo_root)"
    by (simp add: prepackage_ok_def package_prepackage_def demo_root_def)
  moreover have "body_ok demo_outer demo_body"
    using demo_inner_ok
    by (auto simp: body_ok_def demo_body_def outer_coefficient_of_def demo_epoch_def)
       (auto simp: demo_outer_def demo_people_def demo_inner_def demo_devices_def gf_zero)
  ultimately show ?thesis
    using demo_reservation_new by (simp add: reservation_ok_def demo_reservation_def)
qed

definition demo_bytes :: bytes where
  "demo_bytes = (case reservation_to_bytes toy_profile demo_reservation (Ident 5) 77 of
     Inl e \<Rightarrow> [] | Inr bs \<Rightarrow> bs)"

lemma demo_bytes:
  "reservation_to_bytes toy_profile demo_reservation (Ident 5) 77 = Inr demo_bytes"
  "length demo_bytes < 2 ^ 32" "length demo_bytes < 2 ^ 20"
proof -
  obtain b where "member_body_to_bytes toy_profile demo_body = Inr b" "length b < 2 ^ 10"
    using demo_body_bytes by blast
  then obtain ob where ob: "opening_to_bytes toy_profile \<lparr>op_salt = gf 1, op_body = demo_body\<rparr> = Inr ob"
    "length ob < 2 ^ 11"
    by (auto simp: opening_to_bytes_def put_bytes_def put_scalar_def)
  have "\<exists>pb. prepackage_to_bytes toy_profile (package_prepackage demo_root) = Inr pb \<and> length pb < 2 ^ 11"
    by (simp add: prepackage_to_bytes_def package_prepackage_def encode_root_prefix_def
        demo_signing_defs put_bytes_def count_u16_def ascii_bytes_def encode_record_def
        put_point_def put_scalar_def point_to_bytes_def)
  then obtain pb where pb: "prepackage_to_bytes toy_profile (package_prepackage demo_root) = Inr pb"
    "length pb < 2 ^ 11" by blast
  have "\<exists>bs. reservation_to_bytes toy_profile demo_reservation (Ident 5) 77 = Inr bs
      \<and> length bs < 2 ^ 20"
    using ob pb by (simp add: reservation_to_bytes_def demo_reservation_def put_bytes_def)
  then show "reservation_to_bytes toy_profile demo_reservation (Ident 5) 77 = Inr demo_bytes"
    "length demo_bytes < 2 ^ 32" "length demo_bytes < 2 ^ 20" by (auto simp: demo_bytes_def)
qed

lemma demo_bytes_decode:
  "reservation_from_bytes toy_profile demo_bytes demo_outer = Inr (demo_reservation, Ident 5, 77)"
proof -
  have "length demo_bytes < 2 ^ 64" using demo_bytes(2) by simp
  with demo_reservation_ok demo_bytes(1) show ?thesis
    by (simp add: reservation_from_bytes_iff)
qed

end
