(* ===== verification/Ksnf_Signing_Complete.thy ===== *)
theory Ksnf_Signing_Complete
  imports Ksnf_Signing_Proofs
begin

text \<open>
  The two aggregations complete, over any support whose shares interpolate to a key: responses
  that devices made line up with the support and pass every check, and so do member responses
  that aggregation returned. The plain and the Taproot theorems both rest on these.
\<close>

section \<open>Keys\<close>

text \<open>A support whose shares lie on a short enough polynomial interpolates to its constant.\<close>

lemma inner_support_key:
  assumes P: "group_ok P" and new: "inner_support_new ps = Inr support"
    and shares: "set ps \<subseteq> {p. dp_share p = evaluate_commitments P (g # gs) (dp_node p)}" "length gs < length ps"
  shows "inner_support_ok support" "inner_key P support = g" "length (is_participants support) = length ps"
proof -
  show ok: "inner_support_ok support" and len: "length (is_participants support) = length ps"
    using new by (simp_all add: inner_support_new_Inr)
  have "is_participants support = sort_key dp_device ps" using new by (simp add: inner_support_new_Inr)
  then show "inner_key P support = g"
    using inner_key_commitments [OF P ok, of "g # gs"] shares
    by (auto simp: evaluate_commitments_eval P horner.eval_zero [OF group_horner [OF P]])
qed

lemma outer_support_key:
  assumes P: "group_ok P" and new: "outer_support_new people = Inr support"
    and members: "set people \<subseteq> {p. pp_member p = evaluate_commitments P (g # gs) (pp_node p)}"
      "length gs < length people"
  shows "outer_support_ok support" "outer_key P support = g" "length (os_participants support) = length people"
proof -
  show ok: "outer_support_ok support" and len: "length (os_participants support) = length people"
    using new by (simp_all add: outer_support_new_Inr)
  have "os_participants support = sort_key pp_slot people" using new by (simp add: outer_support_new_Inr)
  then show "outer_key P support = g"
    using outer_key_commitments [OF P ok, of "g # gs"] members
    by (auto simp: evaluate_commitments_eval P horner.eval_zero [OF group_horner [OF P]])
qed

section \<open>Members\<close>

lemma member_completes:
  assumes P: "group_ok P" and support: "inner_support_ok (bd_inner (mt_body t))"
    and nonces: "nonce_set_ok (bd_inner (mt_body t)) nonces"
    and key: "inner_key P (bd_inner (mt_body t)) = bd_member (mt_body t)"
    and len: "length rs = length (is_participants (bd_inner (mt_body t)))" and dist: "distinct (map dr_device rs)"
    and made: "\<And>r. r \<in> set rs \<Longrightarrow> \<exists>nonce d share. respond_device P nonce t s nonces d share = Inr r"
  shows "aggregate_member P t s nonces rs =
    Inr \<lparr>mr_slot = bd_slot (mt_body t), mr_scalar = \<Sum>r\<leftarrow>rs. dr_scalar r\<rparr>"
proof -
  let ?sup = "bd_inner (mt_body t)" and ?rs = "sort_key dr_device rs"
  note resp = respond_device_response [OF P support]
  have "is_participants ?sup \<noteq> []" using support by (simp add: inner_support_ok_def)
  with len obtain r0 where "r0 \<in> set rs" by (cases rs) auto
  then obtain nonce d share where r0: "respond_device P nonce t s nonces d share = Inr r0"
    using made by blast
  then obtain b where b: "context_binding s (bd_slot (mt_body t)) = Inr b"
    by (auto simp: respond_device_def and_then_Inr_iff if_Inl_eq_Inr Let_def)
  have "dr_device r \<in> dp_device ` set (is_participants ?sup)" if m: "r \<in> set rs" for r
  proof -
    obtain nonce d share where mk: "respond_device P nonce t s nonces d share = Inr r"
      using made [OF m] by blast
    from resp(2) [OF mk] resp(4) [OF mk] show ?thesis by simp
  qed
  then have align: "map dr_device ?rs = map dp_device (is_participants ?sup)"
    using len dist by (intro sorted_responses_align [OF support]) auto
  have ok: "device_response_ok P s nonces ?sup b (ocf_scalar (bd_outer (mt_body t))) r p"
    if "(r, p) \<in> set (zip ?rs (is_participants ?sup))" for r p
  proof -
    from that obtain i where i: "i < length ?rs" "i < length (is_participants ?sup)"
      "r = ?rs ! i" "p = is_participants ?sup ! i" by (auto simp: set_zip)
    with align have "dr_device r = dp_device p" by (metis nth_map)
    moreover from that have mem: "r \<in> set rs" "p \<in> set (is_participants ?sup)"
      by (auto dest: set_zip_leftD set_zip_rightD)
    moreover obtain nonce d share where mk: "respond_device P nonce t s nonces d share = Inr r"
      using made [OF mem(1)] by blast
    note resp(4) [OF mk] resp(5) [OF mk b mem(2)]
    ultimately show ?thesis by simp
  qed
  have sum: "(\<Sum>r\<leftarrow>?rs. dr_scalar r) = (\<Sum>r\<leftarrow>rs. dr_scalar r)"
    by (simp flip: sum_mset_sum_list)
  from aggregate_member_Inr_iff [OF P resp(1) [OF r0] support nonces key b len dist] ok
  show ?thesis unfolding sum by blast
qed

lemma aggregate_member_response:
  assumes "aggregate_member P t s nonces responses = Inr r"
  shows "mr_slot r = bd_slot (mt_body t)" "mt_root t = sc_root s"
    and "\<exists>e b. package_entry (sc_root s) (mr_slot r) = Inr e
      \<and> context_binding s (mr_slot r) = Inr b
      \<and> verify_member P (mr_scalar r) (re_nonce e) b (sc_challenge s)
          (ocf_scalar (bd_outer (mt_body t))) (bd_member (mt_body t)) = Inr ()"
  using assms
  by (auto simp: aggregate_member_def validate_member_inputs_Inr and_then_Inr_iff if_Inl_eq_Inr Let_def)

lemma outer_coefficient_of_Inr:
  assumes "outer_support_ok s" "outer_coefficient_of s x = Inr c"
  shows "\<exists>q \<in> set (os_participants s). pp_person q = x \<and> ocf_person c = x
    \<and> ocf_slot c = pp_slot q \<and> ocf_member c = pp_member q"
proof (cases "x \<in> pp_person ` set (os_participants s)")
  case True
  then obtain q where q: "q \<in> set (os_participants s)" "x = pp_person q" by blast
  with outer_coefficient_of_participant [OF assms(1) q(1)] assms(2) show ?thesis
    by (intro bexI [of _ q]) auto
next
  case False
  then have "find (\<lambda>q. pp_person (fst q) = x) (zip (os_participants s) (os_coefficients s)) = None"
    by (auto simp: find_None_iff dest: set_zip_leftD)
  with assms(2) show ?thesis by (auto simp: outer_coefficient_of_def)
qed

section \<open>Signatures\<close>

text \<open>A response that the aggregation of a member of the support returned.\<close>

definition member_made ::
  "('s::field, 'g::ab_group_add) profile \<Rightarrow> ('s, 'g) signing_context \<Rightarrow> ('s, 'g) outer_support
     \<Rightarrow> 's member_response \<Rightarrow> bool" where
  "member_made P s support r \<longleftrightarrow> (\<exists>t nonces responses. aggregate_member P t s nonces responses = Inr r
     \<and> outer_coefficient_of support (ocf_person (bd_outer (mt_body t))) = Inr (bd_outer (mt_body t))
     \<and> bd_member (mt_body t) = ocf_member (bd_outer (mt_body t)))"

lemma made_at_slot:
  assumes sup: "outer_support_ok support" and root: "package_validate_support (sc_root s) support = Inr ()"
    and made: "member_made P s support x"
  obtains q where "q \<in> set (os_participants support)" "pp_slot q = mr_slot x"
    "\<And>e. e \<in> set (rt_entries (sc_root s)) \<Longrightarrow> re_slot e = mr_slot x \<Longrightarrow> member_response_ok P s support x q e"
proof -
  let ?ps = "os_participants support" and ?es = "rt_entries (sc_root s)"
  from made obtain t nonces responses where t: "aggregate_member P t s nonces responses = Inr x"
    and c: "outer_coefficient_of support (ocf_person (bd_outer (mt_body t))) = Inr (bd_outer (mt_body t))"
    and m: "bd_member (mt_body t) = ocf_member (bd_outer (mt_body t))" by (auto simp: member_made_def)
  note res = aggregate_member_response [OF t]
  obtain q where q: "q \<in> set ?ps" "pp_person q = ocf_person (bd_outer (mt_body t))"
    "pp_slot q = bd_slot (mt_body t)" "pp_member q = ocf_member (bd_outer (mt_body t))"
    using outer_coefficient_of_Inr [OF sup c] by auto
  have slots: "map re_slot ?es = map pp_slot ?ps"
    using arg_cong [OF root [unfolded package_validate_support_Inr], of "map fst"] by (simp add: comp_def)
  have "member_response_ok P s support x q e" if "e \<in> set ?es" "re_slot e = mr_slot x" for e
  proof -
    have "distinct (map re_slot ?es)" unfolding slots by (rule outer_support_slots [OF sup])
    from search_key_distinct [OF this that(1)] that(2)
    have "package_entry (sc_root s) (mr_slot x) = Inr e" by (simp add: package_entry_def)
    then show ?thesis using res(1,3) q c m that(2) unfolding member_response_ok_def by auto
  qed
  with q res(1) show thesis by (intro that [of q]) simp_all
qed

lemma responses_align:
  assumes sup: "outer_support_ok support" and root: "package_validate_support (sc_root s) support = Inr ()"
    and len: "length rs = length (os_participants support)" and dist: "distinct (map mr_slot rs)"
    and made: "\<And>x. x \<in> set rs \<Longrightarrow> member_made P s support x"
  shows "\<forall>((r, p), e) \<in> set (zip (zip (sort_key mr_slot rs) (os_participants support)) (rt_entries (sc_root s))).
    member_response_ok P s support r p e"
proof -
  let ?rs = "sort_key mr_slot rs" and ?ps = "os_participants support" and ?es = "rt_entries (sc_root s)"
  have slots: "map re_slot ?es = map pp_slot ?ps"
    using arg_cong [OF root [unfolded package_validate_support_Inr], of "map fst"] by (simp add: comp_def)
  have "mr_slot x \<in> set (map pp_slot ?ps)" if "x \<in> set rs" for x
    using made_at_slot [OF sup root made [OF that]] by (metis image_eqI set_map)
  then have "set (map mr_slot rs) \<subseteq> set (map pp_slot ?ps)" by auto
  then have "set (map mr_slot rs) = set (map pp_slot ?ps)"
    using distinct_card [OF dist] distinct_card [OF outer_support_slots [OF sup]] len
    by (intro card_subset_eq) simp_all
  then have align: "map mr_slot ?rs = map pp_slot ?ps"
    using dist sup
    by (intro strict_sorted_equal) (auto simp: strict_sorted_iff distinct_map_sort_key outer_support_ok_def)
  have "member_response_ok P s support x q e" if "((x, q), e) \<in> set (zip (zip ?rs ?ps) ?es)" for x q e
  proof -
    from that obtain i where i: "i < length ?rs" "i < length ?ps" "i < length ?es"
      "x = ?rs ! i" "q = ?ps ! i" "e = ?es ! i" by (auto simp: set_zip)
    with align slots have eqs: "mr_slot x = pp_slot q" "re_slot e = pp_slot q" by (metis nth_map)+
    from i have mem: "x \<in> set rs" "q \<in> set ?ps" "e \<in> set ?es" by (metis nth_mem set_sort)+
    obtain q' where q': "q' \<in> set ?ps" "pp_slot q' = mr_slot x"
      "re_slot e = mr_slot x \<Longrightarrow> member_response_ok P s support x q' e"
      using made_at_slot [OF sup root made [OF mem(1)]] mem(3) by metis
    with eqs mem have "q' = q" using outer_support_slots [OF sup] by (metis inj_on_eq_iff distinct_map)
    with q' eqs show ?thesis by simp
  qed
  then show ?thesis by blast
qed

lemma signing_completes:
  assumes P: "group_ok P" and sup: "outer_support_ok support" and key: "outer_key P support = rt_key root"
    and ctx: "signing_context_new P root = Inr s" and root: "package_validate_support root support = Inr ()"
    and len: "length rs = length (os_participants support)" and dist: "distinct (map mr_slot rs)"
    and made: "\<And>x. x \<in> set rs \<Longrightarrow> member_made P s support x"
  shows "\<exists>signature. aggregate_signature P s support rs = Inr signature
    \<and> signature_verify P signature (rt_key root) (rt_message root) = Inr ()"
proof -
  have ok: "context_ok P s" and r: "sc_root s = root" using signing_context_new_ok [OF ctx] by auto
  have valid: "package_validate_support (sc_root s) support = Inr ()" by (simp add: r root)
  have "\<exists>signature. aggregate_signature P s support rs = Inr signature"
    using aggregate_signature_Inr_iff [OF P sup ok valid _ len dist] key
      responses_align [OF sup valid len dist made] unfolding r by blast
  then show ?thesis
    by (auto simp: aggregate_signature_def and_then_Inr_iff if_Inl_eq_Inr Let_def r)
qed

end
