(* ===== verification/Ksnf_Signing_Claims.thy ===== *)
theory Ksnf_Signing_Claims
  imports Ksnf_Demo Ksnf_Signing_Complete
begin

text \<open>
  The guarantees of interpolation, the wire forms and nested signing.
\<close>

section \<open>Auxiliary facts\<close>

lemma sorted_key_unique:
  assumes "mset xs = mset ys" "distinct (map f ys)" "sorted (map f xs)"
  shows "xs = sort_key f ys"
proof (rule map_sorted_distinct_set_unique)
  have eq: "mset (sort_key f ys) = mset ys" by simp
  show "inj_on f (set xs \<union> set (sort_key f ys))"
    using assms(1,2) by (metis Un_absorb distinct_map mset_eq_setD set_sort)
  show "sorted (map f xs)" "sorted (map f (sort_key f ys))" using assms(3) by simp_all
  show "distinct (map f xs)" using assms(1,2) by (metis mset_eq_imp_distinct_iff mset_map)
  show "distinct (map f (sort_key f ys))"
    using assms(2) by (simp add: distinct_map_sort_key)
  show "set xs = set (sort_key f ys)" using assms(1) by (metis mset_eq_setD set_sort)
qed

lemma foldl_dot_nth:
  fixes s :: "'a::comm_ring_1"
  assumes "length row = length vals"
  shows "foldl (\<lambda>sum (c, v). sum + c * v) s (zip row vals) =
    s + (\<Sum>i < length row. row ! i * vals ! i)"
  using assms
  by (induction row vals arbitrary: s rule: list_induct2)
     (simp_all add: add.assoc sum.lessThan_Suc_shift del: sum.lessThan_Suc)

section \<open>Interpolation\<close>

text \<open>
  Reconstruction: interpolating at distinct nodes the values of a polynomial with no more
  coefficients than nodes returns its constant, whatever the order of the nodes.
\<close>

theorem shamir_reconstructs:
  assumes "polynomial_new cs = Inr p" "distinct nodes" "length p \<le> length nodes"
  shows "interpolate_constant nodes (map (polynomial_evaluate p) nodes) = Inr (hd cs)"
proof -
  from assms(1) have p: "p = cs" "cs \<noteq> []" by (auto simp: polynomial_new_def split: if_splits)
  with assms(3) have "nodes \<noteq> []" by auto
  with assms(2) have "interpolate_constant nodes (map (polynomial_evaluate p) nodes) =
      Inr (\<Sum>x \<in> set nodes. lagrange (set nodes) x * polynomial_evaluate p x)"
    by (rule interpolate_constant_map [rotated])
  also have "(\<Sum>x \<in> set nodes. lagrange (set nodes) x * polynomial_evaluate p x) = hd cs"
    using scalar.interpolation [of "set nodes" p] assms(2,3) p
    by (simp add: polynomial_evaluate_eval distinct_card scalar.eval_zero)
  finally show ?thesis .
qed

theorem shamir_reconstructs_witness:
  "interpolate_constant [gf 4, gf 1, gf 2] (map (polynomial_evaluate [gf 5, gf 3]) [gf 4, gf 1, gf 2]) =
     Inr (gf 5)"
  using shamir_reconstructs [of "[gf 5, gf 3]" "[gf 5, gf 3]" "[gf 4, gf 1, gf 2]"]
  by (simp add: polynomial_new_def)

text \<open>
  Interpolation is total: its result is decided by the lengths and the nodes, with the errors
  in the order of the code's checks and otherwise the Lagrange sum.
\<close>

theorem interpolate_constant_cases:
  "interpolate_constant nodes values =
     (if length nodes \<noteq> length values then Inl LengthMismatch
      else if nodes = [] then Inl EmptyInput
      else if \<not> distinct nodes then Inl DuplicateNode
      else Inr (\<Sum>i < length nodes. lagrange (set nodes) (nodes ! i) * values ! i))"
proof (cases "nodes \<noteq> [] \<and> distinct nodes")
  case True
  then show ?thesis
    by (simp add: interpolate_constant_def lagrange_at_zero_eq foldl_dot_nth [where s = 0])
next
  case False
  then have "validate_support nodes \<noteq> Inr ()" by (simp add: validate_support_Inr)
  then obtain e where e: "validate_support nodes = Inl e" by (cases "validate_support nodes") auto
  from validate_support_Inl [OF e] e False show ?thesis
    by (auto simp: interpolate_constant_def lagrange_at_zero_def)
qed

text \<open>
  Public evaluation is evaluation in the exponent: evaluating the commitments of a polynomial
  at a node gives the public element of the share at that node.
\<close>

theorem feldman_evaluation:
  assumes "group_ok P"
  shows "evaluate_commitments P (polynomial_commitments P cs) node = g
    \<longleftrightarrow> g = element_from_scalar P (polynomial_evaluate cs node)"
  using evaluate_commitments_commit [OF assms] by auto

theorem feldman_evaluation_witness:
  "evaluate_commitments toy_profile (polynomial_commitments toy_profile [gf 5, gf 3]) (gf 2) = gf 4"
  using feldman_evaluation [OF toy_group_ok, of "[gf 5, gf 3]" "gf 2" "gf 4"]
  by (simp add: polynomial_evaluate_def gf_zero)

section \<open>Supports\<close>

text \<open>
  A support is canonical: construction succeeds exactly on a nonempty list with distinct
  devices and nodes, and then depends only on which participants were listed, which it holds
  sorted with their Lagrange coefficients.
\<close>

theorem inner_support_canonical:
  "(inner_support_new ps = Inr s \<longleftrightarrow>
      ps \<noteq> [] \<and> distinct (map dp_device ps) \<and> distinct (map dp_node ps)
      \<and> sorted_wrt (<) (map dp_device (is_participants s)) \<and> mset (is_participants s) = mset ps
      \<and> is_coefficients s = map (lagrange (dp_node ` set ps) \<circ> dp_node) (is_participants s))"
proof
  assume "inner_support_new ps = Inr s"
  then show "ps \<noteq> [] \<and> distinct (map dp_device ps) \<and> distinct (map dp_node ps)
      \<and> sorted_wrt (<) (map dp_device (is_participants s)) \<and> mset (is_participants s) = mset ps
      \<and> is_coefficients s = map (lagrange (dp_node ` set ps) \<circ> dp_node) (is_participants s)"
    unfolding inner_support_new_Inr inner_support_ok_def by auto
next
  assume r: "ps \<noteq> [] \<and> distinct (map dp_device ps) \<and> distinct (map dp_node ps)
      \<and> sorted_wrt (<) (map dp_device (is_participants s)) \<and> mset (is_participants s) = mset ps
      \<and> is_coefficients s = map (lagrange (dp_node ` set ps) \<circ> dp_node) (is_participants s)"
  then have "is_participants s = sort_key dp_device ps"
    by (intro sorted_key_unique) (auto simp: strict_sorted_iff)
  moreover from r have "set (is_participants s) = set ps" by (metis mset_eq_setD)
  moreover have "distinct (map dp_node (is_participants s))"
    using r by (metis mset_eq_imp_distinct_iff mset_map)
  moreover have "is_participants s \<noteq> []" using r by auto
  ultimately show "inner_support_new ps = Inr s"
    using r unfolding inner_support_new_Inr inner_support_ok_def by simp
qed

theorem inner_support_canonical_witness: 
  "inner_support_new (rev demo_devices) = Inr demo_inner \<and> mset (is_participants demo_inner) = mset demo_devices"
  using inner_support_canonical [of "rev demo_devices" demo_inner] demo_inner_new by simp

section \<open>Wire forms\<close>

text \<open>
  C32. Root packages are canonical on the wire: for every byte string that fits in memory,
  decoding succeeds with a package exactly when the package is well formed and the string is its
  encoding.
\<close>

theorem package_wire_canonical:
  assumes "group_ok P" "length bs < 2 ^ 64"
  shows "package_from_bytes P bs = Inr p \<longleftrightarrow> package_ok p \<and> package_to_bytes P p = Inr bs"
  by (rule package_from_bytes_iff [OF assms])

theorem package_wire_canonical_witness:
  "\<exists>bs. package_from_bytes toy_profile bs = Inr demo_root"
proof -
  obtain bs where bs: "package_to_bytes toy_profile demo_root = Inr bs" "length bs < 2 ^ 32"
    by (rule demo_root_bytes)
  moreover have "package_ok demo_root" by (simp add: package_ok_def demo_signing_defs)
  ultimately show ?thesis
    using package_wire_canonical [OF toy_group_ok, of bs demo_root] by auto
qed

text \<open>
  Device responses are canonical on the wire: the only bytes that decode to a response are
  the 73 it encodes to.
\<close>

theorem device_response_wire_canonical:
  assumes "group_ok P" "gc_scalar_len P = 32"
  shows "device_response_from_bytes P bs = Inr r \<longleftrightarrow> bs = device_response_to_bytes P r"
  by (rule device_response_from_bytes_iff [OF assms])

theorem device_response_wire_canonical_witness:
  "device_response_from_bytes toy_profile
     (device_response_to_bytes toy_profile (demo_response (Ident 20) 5)) =
     Inr (demo_response (Ident 20) 5)"
  by (subst device_response_wire_canonical) simp_all

text \<open>
  Signatures are canonical on the wire: a nonidentity nonce and a response decode from their
  encoding, and bytes that decode are the encoding of what they decode to.
\<close>

theorem signature_wire_canonical:
  assumes "group_ok P" "signature_codec_ok P"
  shows "signature_from_bytes P bs = Inr s \<longleftrightarrow> sg_nonce s \<noteq> 0 \<and> bs = signature_to_bytes P s"
  using signature_round_trip [OF assms, of s] signature_canonical [OF assms, of bs s] by auto

theorem signature_wire_canonical_witness:
  "signature_from_bytes toy_profile
     (signature_to_bytes toy_profile \<lparr>sg_nonce = gf 2, sg_response = gf 3\<rparr>) =
     Inr \<lparr>sg_nonce = gf 2, sg_response = gf 3\<rparr>"
  by (subst signature_wire_canonical) simp_all

text \<open>
  C31. Reservations are canonical on the wire: bytes decode under a support exactly to the
  reservations whose prepackage and opening are well formed and consistent with the support, and
  are the encoding of what they decode to, with the session and the expiry.
\<close>

theorem reservation_wire_canonical:
  assumes "group_ok P" "length bs < 2 ^ 64"
  shows "reservation_from_bytes P bs support = Inr (r, session, expiry) \<longleftrightarrow>
    reservation_ok P support r \<and> reservation_to_bytes P r session expiry = Inr bs"
  by (rule reservation_from_bytes_iff [OF assms])

theorem reservation_wire_canonical_witness:
  "reservation_from_bytes toy_profile demo_bytes demo_outer = Inr (demo_reservation, Ident 5, 77)"
  using reservation_wire_canonical [OF toy_group_ok, of demo_bytes demo_outer demo_reservation
      "Ident 5" 77] demo_bytes demo_reservation_ok by simp

section \<open>Nested signing\<close>

text \<open>
  C11. Member aggregation is complete: the responses that every device of the support produces,
  in any order, always aggregate when the public shares of the support come from the member's
  polynomial; the result carries the member's slot and the sum of the responses.
\<close>

theorem member_aggregation_complete:
  assumes "group_ok P" "inner_support_new ps = Inr (bd_inner (mt_body t))"
    and "device_nonce_set_new (bd_inner (mt_body t)) entries = Inr nonces"
    and "set ps \<subseteq> {p. dp_share p = evaluate_commitments P (bd_member (mt_body t) # gs) (dp_node p)}"
    and "length gs < length ps"
    and "length rs = length ps" "distinct (map dr_device rs)"
    and "set rs \<subseteq> {r. \<exists>nonce device share. respond_device P nonce t s nonces device share = Inr r}"
  shows "aggregate_member P t s nonces rs =
    Inr \<lparr>mr_slot = bd_slot (mt_body t), mr_scalar = \<Sum>r\<leftarrow>rs. dr_scalar r\<rparr>"
proof -
  note support = inner_support_key [OF assms(1,2,4,5)]
  have nonces: "nonce_set_ok (bd_inner (mt_body t)) nonces"
    using device_nonce_set_new_Inr [OF assms(3)] by simp
  have "\<exists>nonce d share. respond_device P nonce t s nonces d share = Inr r" if "r \<in> set rs" for r
    using assms(8) that by blast
  then show ?thesis using member_completes [OF assms(1) support(1) nonces support(2) _ assms(7)] support(3) assms(6)
    by simp
qed

theorem member_aggregation_complete_witness:
  "aggregate_member toy_profile (demo_transcript demo_body) demo_signing demo_nonces
     [demo_response (Ident 21) 3, demo_response (Ident 20) 5] = Inr \<lparr>mr_slot = 1, mr_scalar = gf 1\<rparr>"
proof -
  have body: "mt_body (demo_transcript demo_body) = demo_body" "bd_inner demo_body = demo_inner"
    "bd_member demo_body = gf 1" "bd_slot demo_body = 1"
    by (simp_all add: demo_transcript_def demo_body_def)
  have "aggregate_member toy_profile (demo_transcript demo_body) demo_signing demo_nonces
      [demo_response (Ident 21) 3, demo_response (Ident 20) 5] =
    Inr \<lparr>mr_slot = bd_slot (mt_body (demo_transcript demo_body)),
         mr_scalar = \<Sum>r\<leftarrow>[demo_response (Ident 21) 3, demo_response (Ident 20) 5]. dr_scalar r\<rparr>"
  proof (rule member_aggregation_complete [where gs = "[gf 2]", OF toy_group_ok])
    show "inner_support_new (rev demo_devices) = Inr (bd_inner (mt_body (demo_transcript demo_body)))"
      by (simp add: body demo_inner_new)
    show "device_nonce_set_new (bd_inner (mt_body (demo_transcript demo_body)))
        (dns_entries demo_nonces) = Inr demo_nonces"
      by (simp add: body demo_nonces_new)
    show "set [demo_response (Ident 21) 3, demo_response (Ident 20) 5] \<subseteq>
        {r. \<exists>nonce device share. respond_device toy_profile nonce (demo_transcript demo_body)
          demo_signing demo_nonces device share = Inr r}"
      using demo_respond by auto
  qed (simp_all add: body demo_devices_def evaluate_commitments_def gf_zero demo_response_def demo_attempt_def)
  then show ?thesis by (simp add: body demo_response_def)
qed

text \<open>
  C2. Outer aggregation is complete: when the member points of the support come from a
  polynomial whose constant is the vault key, and every response is what the aggregation of a
  member of the support returned, the aggregation returns a signature and it verifies under the
  vault key.
\<close>

theorem nested_signing_complete:
  assumes "group_ok P" "outer_support_new people = Inr support"
    and "signing_context_new P root = Inr s" "package_validate_support root support = Inr ()"
    and "set people \<subseteq> {p. pp_member p = evaluate_commitments P (rt_key root # gs) (pp_node p)}"
    and "length gs < length people"
    and "length rs = length people" "distinct (map mr_slot rs)"
    and "set rs \<subseteq> {r. \<exists>t nonces responses. aggregate_member P t s nonces responses = Inr r
      \<and> outer_coefficient_of support (ocf_person (bd_outer (mt_body t))) = Inr (bd_outer (mt_body t))
      \<and> bd_member (mt_body t) = ocf_member (bd_outer (mt_body t))}"
  shows "\<exists>signature. aggregate_signature P s support rs = Inr signature
    \<and> signature_verify P signature (rt_key root) (rt_message root) = Inr ()"
proof -
  note sup = outer_support_key [OF assms(1,2,5,6)]
  have len: "length rs = length (os_participants support)" by (simp add: sup(3) assms(7))
  have made: "member_made P s support r" if "r \<in> set rs" for r
    using assms(9) that unfolding member_made_def by blast
  show ?thesis by (rule signing_completes [OF assms(1) sup(1,2) assms(3,4) len assms(8) made])
qed

theorem nested_signing_complete_witness:
  "\<exists>signature. aggregate_signature toy_profile demo_signing demo_outer
     [\<lparr>mr_slot = 2, mr_scalar = gf 2\<rparr>, \<lparr>mr_slot = 1, mr_scalar = gf 1\<rparr>] = Inr signature
    \<and> signature_verify toy_profile signature (gf 5) demo_message = Inr ()"
proof -
  have root: "rt_key demo_root = gf 5" "rt_message demo_root = demo_message"
    by (simp_all add: demo_root_def)
  have "\<exists>signature. aggregate_signature toy_profile demo_signing demo_outer
     [\<lparr>mr_slot = 2, mr_scalar = gf 2\<rparr>, \<lparr>mr_slot = 1, mr_scalar = gf 1\<rparr>] = Inr signature
    \<and> signature_verify toy_profile signature (rt_key demo_root) (rt_message demo_root) = Inr ()"
  proof (rule nested_signing_complete [where gs = "[gf 3]", OF toy_group_ok demo_outer_new demo_signing_new])
    show "set [\<lparr>mr_slot = 2, mr_scalar = gf 2\<rparr>, \<lparr>mr_slot = 1, mr_scalar = gf 1\<rparr>] \<subseteq>
      {r. \<exists>t nonces responses. aggregate_member toy_profile t demo_signing nonces responses = Inr r
        \<and> outer_coefficient_of demo_outer (ocf_person (bd_outer (mt_body t))) = Inr (bd_outer (mt_body t))
        \<and> bd_member (mt_body t) = ocf_member (bd_outer (mt_body t))}"
    proof -
      have "outer_coefficient_of demo_outer (ocf_person (bd_outer (mt_body (demo_transcript b)))) =
          Inr (bd_outer (mt_body (demo_transcript b)))
        \<and> bd_member (mt_body (demo_transcript b)) = ocf_member (bd_outer (mt_body (demo_transcript b)))"
        if "b = demo_body \<or> b = demo_single_body" for b
        using that by (auto simp: outer_coefficient_of_def demo_signing_defs)
      then show ?thesis using demo_aggregate by auto
    qed
  qed (simp_all add: demo_people_def root evaluate_commitments_def gf_zero
      package_validate_support_def demo_root_def demo_outer_def)
  then show ?thesis by (simp add: root)
qed

end
