(* ===== verification/Ksnf_Shape.thy ===== *)
theory Ksnf_Shape
  imports Ksnf_Transcript
begin

text \<open>
  Redistribution shapes, roles and commands (\<open>src/dealing/shape.rs\<close>). The ordered sets the code
  collects are sets: only membership, insertion and equality are used of them.
\<close>

section \<open>Target shapes\<close>

record 's target_device =
  td_device :: device_id
  td_node :: 's

record 's single_shape =
  ss_threshold :: u16
  ss_devices :: "'s target_device list"

definition reject_device_duplicates :: "'s target_device list \<Rightarrow> unit result" where
  "reject_device_duplicates =
     scan_prior (\<lambda>prior d.
       if list_ex (\<lambda>p. td_device p = td_device d) prior then Inl DuplicateParticipant
       else if list_ex (\<lambda>p. td_node p = td_node d) prior then Inl DuplicateNode
       else Inr ()) []"

definition single_shape_new :: "u16 \<Rightarrow> 's target_device list \<Rightarrow> 's single_shape result" where
  "single_shape_new threshold devices =
     (if threshold = 0 \<or> length devices < unat threshold then Inl SupportMismatch
      else let ds = sort_key td_device devices in
      and_then (reject_device_duplicates ds) (\<lambda>_.
      Inr \<lparr>ss_threshold = threshold, ss_devices = ds\<rparr>))"

definition shape_device :: "'s single_shape \<Rightarrow> device_id \<Rightarrow> 's target_device result" where
  "shape_device shape device =
     ok_or ParticipantNotFound (search_key td_device device (ss_devices shape))"

record 's outer_target =
  ot_person :: person_id
  ot_node :: 's
  ot_inner :: "'s single_shape"

record 's outer_shape =
  oh_threshold :: u16
  oh_people :: "'s outer_target list"

fun insert_devices :: "'s target_device list \<Rightarrow> device_id set \<Rightarrow> device_id set result" where
  "insert_devices [] devices = Inr devices"
| "insert_devices (d # ds) devices =
     (if td_device d \<in> devices then Inl DuplicateParticipant
      else insert_devices ds (insert (td_device d) devices))"

fun outer_scan ::
  "'s outer_target list \<Rightarrow> device_id set \<Rightarrow> 's outer_target list \<Rightarrow> unit result" where
  "outer_scan prior devices [] = Inr ()"
| "outer_scan prior devices (p # ps) =
     (if list_ex (\<lambda>q. ot_person q = ot_person p) prior then Inl DuplicateParticipant
      else if list_ex (\<lambda>q. ot_node q = ot_node p) prior then Inl DuplicateNode
      else and_then (insert_devices (ss_devices (ot_inner p)) devices)
        (\<lambda>devices'. outer_scan (prior @ [p]) devices' ps))"

definition outer_shape_new :: "u16 \<Rightarrow> 's outer_target list \<Rightarrow> 's outer_shape result" where
  "outer_shape_new threshold people =
     (if threshold = 0 \<or> length people < unat threshold then Inl SupportMismatch
      else let ps = sort_key ot_person people in
      and_then (outer_scan [] {} ps) (\<lambda>_. Inr \<lparr>oh_threshold = threshold, oh_people = ps\<rparr>))"

definition shape_person :: "'s outer_shape \<Rightarrow> person_id \<Rightarrow> 's outer_target result" where
  "shape_person shape person =
     ok_or ParticipantNotFound (search_key ot_person person (oh_people shape))"

datatype 's target_shape = SingleShape "'s single_shape" | OuterShape "'s outer_shape"

datatype target_id = TargetSingle device_id | TargetOuter person_id device_id

fun target_device_of :: "target_id \<Rightarrow> device_id" where
  "target_device_of (TargetSingle device) = device"
| "target_device_of (TargetOuter person device) = device"

fun shape_targets :: "'s target_shape \<Rightarrow> target_id list" where
  "shape_targets (SingleShape shape) = map (TargetSingle \<circ> td_device) (ss_devices shape)"
| "shape_targets (OuterShape shape) =
     concat (map (\<lambda>p. map (TargetOuter (ot_person p) \<circ> td_device) (ss_devices (ot_inner p)))
       (oh_people shape))"

fun shape_target_node :: "'s target_shape \<Rightarrow> target_id \<Rightarrow> 's result" where
  "shape_target_node (SingleShape shape) (TargetSingle device) =
     and_then (shape_device shape device) (\<lambda>d. Inr (td_node d))"
| "shape_target_node (OuterShape shape) (TargetOuter person device) =
     and_then (shape_person shape person) (\<lambda>p.
     and_then (shape_device (ot_inner p) device) (\<lambda>d. Inr (td_node d)))"
| "shape_target_node (SingleShape shape) (TargetOuter person device) = Inl ParticipantMismatch"
| "shape_target_node (OuterShape shape) (TargetSingle device) = Inl ParticipantMismatch"

definition encode_single_shape :: "('s, 'g) profile \<Rightarrow> 's single_shape \<Rightarrow> bytes result" where
  "encode_single_shape P shape =
     and_then (count_u16 (length (ss_devices shape))) (\<lambda>n.
     Inr (put_u16 (ss_threshold shape) @ put_u16 n
       @ concat (map (\<lambda>d. ident_bytes (td_device d) @ put_scalar P (td_node d)) (ss_devices shape))))"

fun encode_shape :: "('s, 'g) profile \<Rightarrow> 's target_shape \<Rightarrow> bytes result" where
  "encode_shape P (SingleShape shape) =
     and_then (encode_single_shape P shape) (\<lambda>bs. Inr (put_u8 0 @ bs))"
| "encode_shape P (OuterShape shape) =
     and_then (count_u16 (length (oh_people shape))) (\<lambda>n.
     and_then (collect_results (\<lambda>p. and_then (encode_single_shape P (ot_inner p)) (\<lambda>bs.
         Inr (ident_bytes (ot_person p) @ put_scalar P (ot_node p) @ bs))) (oh_people shape)) (\<lambda>ps.
     Inr (put_u8 1 @ put_u16 (oh_threshold shape) @ put_u16 n @ concat ps)))"

fun encode_target :: "target_id \<Rightarrow> bytes" where
  "encode_target (TargetSingle device) = put_u8 0 @ ident_bytes device"
| "encode_target (TargetOuter person device) = put_u8 1 @ ident_bytes person @ ident_bytes device"

definition decode_target :: "target_id getter" where
  "decode_target =
     get_then get_u8 (\<lambda>tag.
     if tag = 0 then get_then get_ident (\<lambda>device. get_return (TargetSingle device))
     else if tag = 1 then get_then get_ident (\<lambda>person. get_then get_ident (\<lambda>device.
       get_return (TargetOuter person device)))
     else get_result (Inl InvalidTranscript))"

text \<open>The derived orders: the first constructor is below the second, then the fields in turn.\<close>

instantiation target_id :: linorder
begin

fun less_eq_target_id :: "target_id \<Rightarrow> target_id \<Rightarrow> bool" where
  "less_eq_target_id (TargetSingle d) (TargetSingle d') = (d \<le> d')"
| "less_eq_target_id (TargetSingle d) (TargetOuter p' d') = True"
| "less_eq_target_id (TargetOuter p d) (TargetSingle d') = False"
| "less_eq_target_id (TargetOuter p d) (TargetOuter p' d') = (p < p' \<or> p = p' \<and> d \<le> d')"

definition less_target_id :: "target_id \<Rightarrow> target_id \<Rightarrow> bool" where
  "less_target_id t t' \<longleftrightarrow> t \<le> t' \<and> \<not> t' \<le> t"

instance
proof
  fix t t' t'' :: target_id
  show "t < t' \<longleftrightarrow> t \<le> t' \<and> \<not> t' \<le> t" by (rule less_target_id_def)
  show "t \<le> t" by (cases t) auto
  show "t \<le> t' \<Longrightarrow> t' \<le> t'' \<Longrightarrow> t \<le> t''" by (cases t; cases t'; cases t'') auto
  show "t \<le> t' \<Longrightarrow> t' \<le> t \<Longrightarrow> t = t'" by (cases t; cases t') auto
  show "t \<le> t' \<or> t' \<le> t" by (cases t; cases t') auto
qed

end

section \<open>Roles\<close>

datatype role_id = RoleSource device_id | RoleRefresher device_id

fun role_device :: "role_id \<Rightarrow> device_id" where
  "role_device (RoleSource device) = device"
| "role_device (RoleRefresher device) = device"

fun encode_role :: "role_id \<Rightarrow> bytes" where
  "encode_role (RoleSource device) = put_u8 0 @ ident_bytes device"
| "encode_role (RoleRefresher device) = put_u8 1 @ ident_bytes device"

definition decode_role :: "role_id getter" where
  "decode_role =
     get_then get_u8 (\<lambda>tag.
     if tag = 0 then get_then get_ident (\<lambda>device. get_return (RoleSource device))
     else if tag = 1 then get_then get_ident (\<lambda>device. get_return (RoleRefresher device))
     else get_result (Inl InvalidTranscript))"

instantiation role_id :: linorder
begin

fun less_eq_role_id :: "role_id \<Rightarrow> role_id \<Rightarrow> bool" where
  "less_eq_role_id (RoleSource d) (RoleSource d') = (d \<le> d')"
| "less_eq_role_id (RoleSource d) (RoleRefresher d') = True"
| "less_eq_role_id (RoleRefresher d) (RoleSource d') = False"
| "less_eq_role_id (RoleRefresher d) (RoleRefresher d') = (d \<le> d')"

definition less_role_id :: "role_id \<Rightarrow> role_id \<Rightarrow> bool" where
  "less_role_id r r' \<longleftrightarrow> r \<le> r' \<and> \<not> r' \<le> r"

instance
proof
  fix r r' r'' :: role_id
  show "r < r' \<longleftrightarrow> r \<le> r' \<and> \<not> r' \<le> r" by (rule less_role_id_def)
  show "r \<le> r" by (cases r) auto
  show "r \<le> r' \<Longrightarrow> r' \<le> r'' \<Longrightarrow> r \<le> r''" by (cases r; cases r'; cases r'') auto
  show "r \<le> r' \<Longrightarrow> r' \<le> r \<Longrightarrow> r = r'" by (cases r; cases r') auto
  show "r \<le> r' \<or> r' \<le> r" by (cases r; cases r') auto
qed

end

record ('s, 'g) role_spec =
  sp_role :: role_id
  sp_constant :: 'g
  sp_source :: "('g \<times> 's source_weight) option"

definition role_source ::
  "('s, 'g) profile \<Rightarrow> device_id \<Rightarrow> 'g \<Rightarrow> 's source_weight \<Rightarrow> ('s, 'g) role_spec result" where
  "role_source P device share weight =
     (if device \<noteq> sw_device weight then Inl ParticipantMismatch
      else Inr \<lparr>sp_role = RoleSource device, sp_constant = gc_smul P (sw_scalar weight) share,
                sp_source = Some (share, weight)\<rparr>)"

definition role_refresher :: "device_id \<Rightarrow> ('s, 'g::zero) role_spec" where
  "role_refresher device = \<lparr>sp_role = RoleRefresher device, sp_constant = 0, sp_source = None\<rparr>"

section \<open>Commands\<close>

record ('s, 'g) command =
  cm_scope :: scope_id
  cm_command :: command_id
  cm_predecessor :: activation_handle
  cm_anchor :: 'g
  cm_shape :: "'s target_shape"
  cm_roles :: "('s, 'g) role_spec list"

fun is_source :: "role_id \<Rightarrow> bool" where
  "is_source (RoleSource device) = True"
| "is_source (RoleRefresher device) = False"

definition command_new ::
  "scope_id \<Rightarrow> command_id \<Rightarrow> activation_handle \<Rightarrow> 'g \<Rightarrow> 's target_shape
     \<Rightarrow> ('s, 'g::ab_group_add) role_spec list \<Rightarrow> ('s, 'g) command result" where
  "command_new scope command predecessor anchor shape roles =
     (let rs = sort_key sp_role roles in
      if rs = [] then Inl EmptyInput
      else if any_adjacent (\<lambda>a b. sp_role a = sp_role b) rs then Inl DuplicateParticipant
      else if foldl (\<lambda>sum r. sum + sp_constant r) 0 (filter (is_source \<circ> sp_role) rs) \<noteq> anchor
        then Inl ShareMismatch
      else if set (map (role_device \<circ> sp_role) (filter (\<lambda>r. \<not> is_source (sp_role r)) rs))
          \<noteq> set (map target_device_of (shape_targets shape)) then Inl SupportMismatch
      else Inr \<lparr>cm_scope = scope, cm_command = command, cm_predecessor = predecessor,
                cm_anchor = anchor, cm_shape = shape, cm_roles = rs\<rparr>)"

definition encode_role_spec ::
  "('s::zero, 'g::zero) profile \<Rightarrow> ('s, 'g) role_spec \<Rightarrow> bytes" where
  "encode_role_spec P r =
     encode_role (sp_role r) @ put_element P (sp_constant r)
     @ (case sp_source r of
          Some (share, weight) \<Rightarrow> put_element P share @ put_scalar P (sw_scalar weight)
        | None \<Rightarrow> put_element P 0 @ put_scalar P 0)"

definition command_to_bytes ::
  "('s::zero, 'g::zero) profile \<Rightarrow> ('s, 'g) command \<Rightarrow> bytes result" where
  "command_to_bytes P c =
     and_then (encode_shape P (cm_shape c)) (\<lambda>shape.
     and_then (count_u16 (length (cm_roles c))) (\<lambda>n.
     Inr (put_u8 (pf_wire_id P) @ ident_bytes (cm_scope c) @ ident_bytes (cm_command c)
       @ ident_bytes (cm_predecessor c) @ put_point P (cm_anchor c) @ shape @ put_u16 n
       @ concat (map (encode_role_spec P) (cm_roles c)))))"

definition command_verify_bytes ::
  "('s::zero, 'g::zero) profile \<Rightarrow> ('s, 'g) command \<Rightarrow> bytes \<Rightarrow> unit result" where
  "command_verify_bytes P c bs =
     and_then (command_to_bytes P c) (\<lambda>own. if own = bs then Inr () else Inl CommandMismatch)"

definition command_role :: "('s, 'g) command \<Rightarrow> role_id \<Rightarrow> ('s, 'g) role_spec result" where
  "command_role c role = ok_or ParticipantNotFound (search_key sp_role role (cm_roles c))"

end
