(* ===== verification/Ksnf_Contribution.thy ===== *)
theory Ksnf_Contribution
  imports Ksnf_Shape
begin

text \<open>
  Contributions to a redistribution (\<open>src/dealing/contribution.rs\<close>): public coefficient points,
  openings, private deliveries, and one role's sampled contribution with its commitment.
\<close>

section \<open>Coefficient points\<close>

datatype 'g contribution_points =
    SinglePoints "'g list"
  | OuterPoints "'g list" "(person_id \<times> 'g list) list"

definition first_point :: "'g list \<Rightarrow> 'g option" where
  "first_point ps = (if ps = [] then None else Some (hd ps))"

fun points_constant :: "'g contribution_points \<Rightarrow> 'g result" where
  "points_constant (SinglePoints points) = ok_or EmptyInput (first_point points)"
| "points_constant (OuterPoints outer members) = ok_or EmptyInput (first_point outer)"

fun points_member_constant :: "'g contribution_points \<Rightarrow> person_id \<Rightarrow> 'g result" where
  "points_member_constant (SinglePoints points) person = Inl SupportMismatch"
| "points_member_constant (OuterPoints outer members) person =
     and_then (ok_or ParticipantNotFound (search_key fst person members)) (\<lambda>(_, points).
     ok_or EmptyInput (first_point points))"

text \<open>Two copies of the same evaluation exist in the code; the model has one.\<close>

abbreviation evaluate_points ::
  "('s, 'g::ab_group_add, 'z) profile_scheme \<Rightarrow> 'g list \<Rightarrow> 's \<Rightarrow> 'g" where
  "evaluate_points \<equiv> evaluate_commitments"

fun points_validate ::
  "('s, 'g::ab_group_add, 'z) profile_scheme \<Rightarrow> 'g contribution_points \<Rightarrow> 's target_shape \<Rightarrow> 'g
     \<Rightarrow> unit result" where
  "points_validate P (SinglePoints points) (SingleShape target) constant =
     (if length points \<noteq> unat (ss_threshold target) \<or> first_point points \<noteq> Some constant
      then Inl SupportMismatch else Inr ())"
| "points_validate P (OuterPoints outer members) (OuterShape target) constant =
     (if length outer \<noteq> unat (oh_threshold target) \<or> first_point outer \<noteq> Some constant
        \<or> length members \<noteq> length (oh_people target) then Inl SupportMismatch
      else if list_ex (\<lambda>((person, points), t). person \<noteq> ot_person t
          \<or> length points \<noteq> unat (ss_threshold (ot_inner t))
          \<or> first_point points \<noteq> Some (evaluate_points P outer (ot_node t)))
        (zip members (oh_people target)) then Inl SupportMismatch
      else Inr ())"
| "points_validate P (SinglePoints points) (OuterShape target) constant = Inl SupportMismatch"
| "points_validate P (OuterPoints outer members) (SingleShape target) constant = Inl SupportMismatch"

definition encode_points :: "('s, 'g::zero) profile \<Rightarrow> 'g list \<Rightarrow> bytes result" where
  "encode_points P points =
     and_then (count_u16 (length points)) (\<lambda>n.
     Inr (put_u16 n @ concat (map (put_element P) points)))"

fun points_to_bytes :: "('s, 'g::zero) profile \<Rightarrow> 'g contribution_points \<Rightarrow> bytes result" where
  "points_to_bytes P (SinglePoints points) =
     and_then (encode_points P points) (\<lambda>bs. Inr (put_u8 (pf_wire_id P) @ put_u8 0 @ bs))"
| "points_to_bytes P (OuterPoints outer members) =
     and_then (encode_points P outer) (\<lambda>bs.
     and_then (count_u16 (length members)) (\<lambda>n.
     and_then (collect_results (\<lambda>(person, points). and_then (encode_points P points) (\<lambda>ps.
         Inr (ident_bytes person @ ps))) members) (\<lambda>ms.
     Inr (put_u8 (pf_wire_id P) @ put_u8 1 @ bs @ put_u16 n @ concat ms))))"

definition decode_points :: "('s, 'g::zero) profile \<Rightarrow> 'g list getter" where
  "decode_points P =
     get_then get_u16 (\<lambda>n.
     get_then (get_ensure EmptyInput (n \<noteq> 0)) (\<lambda>_. get_many (unat n) (get_element P)))"

definition points_getter :: "('s, 'g::zero) profile \<Rightarrow> 'g contribution_points getter" where
  "points_getter P =
     get_then (expect_version P) (\<lambda>_. get_then get_u8 (\<lambda>tag.
     if tag = 0 then get_then (decode_points P) (\<lambda>points. get_return (SinglePoints points))
     else if tag = 1 then
       get_then (decode_points P) (\<lambda>outer. get_then get_u16 (\<lambda>n.
       get_then (get_ensure EmptyInput (n \<noteq> 0)) (\<lambda>_.
       get_then (get_many (unat n) (get_then get_ident (\<lambda>person.
         get_then (decode_points P) (\<lambda>points. get_return (person, points))))) (\<lambda>members.
       get_then (get_ensure InvalidTranscript (\<not> any_adjacent (\<lambda>a b. fst b \<le> fst a) members)) (\<lambda>_.
       get_return (OuterPoints outer members))))))
     else get_result (Inl InvalidTranscript)))"

definition points_from_bytes ::
  "('s, 'g::zero) profile \<Rightarrow> bytes \<Rightarrow> 'g contribution_points result" where
  "points_from_bytes P bs = decode_all (points_getter P) bs"

definition points_evaluate ::
  "('s, 'g::ab_group_add, 'z) profile_scheme \<Rightarrow> 'g contribution_points \<Rightarrow> 's target_shape
     \<Rightarrow> target_id \<Rightarrow> 'g result" where
  "points_evaluate P points shape target =
     and_then (shape_target_node shape target) (\<lambda>node.
     case (points, target) of
       (SinglePoints ps, TargetSingle device) \<Rightarrow> Inr (evaluate_points P ps node)
     | (OuterPoints outer members, TargetOuter person device) \<Rightarrow>
         and_then (ok_or ParticipantNotFound (search_key fst person members)) (\<lambda>(_, ps).
         Inr (evaluate_points P ps node))
     | _ \<Rightarrow> Inl ParticipantMismatch)"

definition add_points :: "'g::ab_group_add list \<Rightarrow> 'g list \<Rightarrow> 'g list result" where
  "add_points left right =
     (if length left \<noteq> length right then Inl LengthMismatch
      else Inr (map (\<lambda>(l, r). l + r) (zip left right)))"

text \<open>
  The code adds in place and drops the half-updated aggregate on an error; the model returns the
  sum.
\<close>

fun points_add ::
  "'g::ab_group_add contribution_points \<Rightarrow> 'g contribution_points \<Rightarrow> 'g contribution_points result"
where
  "points_add (SinglePoints left) (SinglePoints right) =
     and_then (add_points left right) (\<lambda>ps. Inr (SinglePoints ps))"
| "points_add (OuterPoints left_outer left) (OuterPoints right_outer right) =
     and_then (add_points left_outer right_outer) (\<lambda>outer.
     if length left \<noteq> length right then Inl LengthMismatch
     else and_then (collect_results (\<lambda>((p, ls), (q, rs)).
         if p \<noteq> q then Inl ParticipantMismatch
         else and_then (add_points ls rs) (\<lambda>ps. Inr (p, ps))) (zip left right)) (\<lambda>members.
       Inr (OuterPoints outer members)))"
| "points_add (SinglePoints left) (OuterPoints outer members) = Inl SupportMismatch"
| "points_add (OuterPoints outer members) (SinglePoints right) = Inl SupportMismatch"

section \<open>Openings\<close>

record ('s, 'g) deal_opening =
  do_role :: role_id
  do_points :: "'g contribution_points"
  do_salt :: 's

definition deal_opening_to_bytes ::
  "('s, 'g::zero) profile \<Rightarrow> ('s, 'g) deal_opening \<Rightarrow> bytes result" where
  "deal_opening_to_bytes P o' =
     and_then (points_to_bytes P (do_points o')) (\<lambda>ps.
     and_then (put_bytes ps) (\<lambda>encoded.
     Inr (put_u8 (pf_wire_id P) @ encode_role (do_role o') @ encoded @ put_scalar P (do_salt o'))))"

definition deal_opening_getter :: "('s::zero, 'g::zero) profile \<Rightarrow> ('s, 'g) deal_opening getter" where
  "deal_opening_getter P =
     get_then (expect_version P) (\<lambda>_. get_then decode_role (\<lambda>role. get_then get_bytes (\<lambda>bs.
     get_then (get_result (points_from_bytes P bs)) (\<lambda>points. get_then (get_scalar P) (\<lambda>salt.
     get_return \<lparr>do_role = role, do_points = points, do_salt = salt\<rparr>)))))"

definition deal_opening_from_bytes ::
  "('s::zero, 'g::zero) profile \<Rightarrow> bytes \<Rightarrow> ('s, 'g) deal_opening result" where
  "deal_opening_from_bytes P bs = decode_all (deal_opening_getter P) bs"

definition contribution_commitment ::
  "('s::zero, 'g::zero) profile \<Rightarrow> ('s, 'g) command \<Rightarrow> role_id \<Rightarrow> 'g contribution_points \<Rightarrow> 's
     \<Rightarrow> 's result" where
  "contribution_commitment P command role points salt =
     and_then (put_bytes (ascii_bytes ''deal'')) (\<lambda>label.
     and_then (command_to_bytes P command) (\<lambda>cb.
     and_then (put_bytes cb) (\<lambda>encoded_command.
     and_then (points_to_bytes P points) (\<lambda>pb.
     and_then (put_bytes pb) (\<lambda>encoded_points.
     pf_hash_to_scalar P DealDomain
       (put_u8 (pf_wire_id P) @ label @ encoded_command @ encode_role role @ encoded_points
         @ put_scalar P salt))))))"

definition deal_opening_commitment ::
  "('s::zero, 'g::zero) profile \<Rightarrow> ('s, 'g) deal_opening \<Rightarrow> ('s, 'g) command \<Rightarrow> 's result" where
  "deal_opening_commitment P o' command =
     contribution_commitment P command (do_role o') (do_points o') (do_salt o')"

definition aggregate_points ::
  "('s, 'g::ab_group_add) deal_opening list \<Rightarrow> 'g contribution_points result" where
  "aggregate_points openings =
     (if openings = [] then Inl EmptyInput
      else foldl (\<lambda>aggregate o'. and_then aggregate (\<lambda>a. points_add a (do_points o')))
        (Inr (do_points (hd openings))) (tl openings))"

section \<open>Sampled contributions\<close>

record 's private_share =
  ps_command :: command_id
  ps_role :: role_id
  ps_target :: target_id
  ps_value :: 's

datatype 's secret_block =
    SingleBlock "'s list"
  | OuterBlock "'s list" "(person_id \<times> 's list) list"

text \<open>The inner polynomials of an outer block, one for every person, with the source's state.\<close>

fun sample_members ::
  "('r \<Rightarrow> 's::field \<times> 'r) \<Rightarrow> 's list \<Rightarrow> 's outer_target list \<Rightarrow> 'r
     \<Rightarrow> (person_id \<times> 's list) list result \<times> 'r" where
  "sample_members draw outer [] rng = (Inr [], rng)"
| "sample_members draw outer (p # ps) rng =
     (case polynomial_sample draw (unat (ss_threshold (ot_inner p)))
        (polynomial_evaluate outer (ot_node p)) rng of
       (Inl e, rng') \<Rightarrow> (Inl e, rng')
     | (Inr member, rng') \<Rightarrow>
         (case sample_members draw outer ps rng' of
           (Inl e, rng'') \<Rightarrow> (Inl e, rng'')
         | (Inr members, rng'') \<Rightarrow> (Inr ((ot_person p, member) # members), rng'')))"

fun block_sample ::
  "('r \<Rightarrow> 's::field \<times> 'r) \<Rightarrow> 's target_shape \<Rightarrow> 's \<Rightarrow> 'r \<Rightarrow> 's secret_block result \<times> 'r" where
  "block_sample draw (SingleShape target) constant rng =
     (case polynomial_sample draw (unat (ss_threshold target)) constant rng of
       (Inl e, rng') \<Rightarrow> (Inl e, rng')
     | (Inr p, rng') \<Rightarrow> (Inr (SingleBlock p), rng'))"
| "block_sample draw (OuterShape target) constant rng =
     (case polynomial_sample draw (unat (oh_threshold target)) constant rng of
       (Inl e, rng') \<Rightarrow> (Inl e, rng')
     | (Inr outer, rng') \<Rightarrow>
         (case sample_members draw outer (oh_people target) rng' of
           (Inl e, rng'') \<Rightarrow> (Inl e, rng'')
         | (Inr members, rng'') \<Rightarrow> (Inr (OuterBlock outer members), rng'')))"

fun block_points :: "('s, 'g, 'z) profile_scheme \<Rightarrow> 's secret_block \<Rightarrow> 'g contribution_points" where
  "block_points P (SingleBlock p) = SinglePoints (polynomial_commitments P p)"
| "block_points P (OuterBlock outer members) =
     OuterPoints (polynomial_commitments P outer)
       (map (\<lambda>(person, p). (person, polynomial_commitments P p)) members)"

definition block_evaluate ::
  "'s::field secret_block \<Rightarrow> 's target_shape \<Rightarrow> target_id \<Rightarrow> 's result" where
  "block_evaluate block shape target =
     and_then (shape_target_node shape target) (\<lambda>node.
     case (block, target) of
       (SingleBlock p, TargetSingle device) \<Rightarrow> Inr (polynomial_evaluate p node)
     | (OuterBlock outer members, TargetOuter person device) \<Rightarrow>
         and_then (ok_or ParticipantNotFound (search_key fst person members)) (\<lambda>(_, p).
         Inr (polynomial_evaluate p node))
     | _ \<Rightarrow> Inl ParticipantMismatch)"

record ('s, 'g) contribution =
  cn_command :: command_id
  cn_role :: role_id
  cn_block :: "'s secret_block"
  cn_points :: "'g contribution_points"
  cn_salt :: 's
  cn_commitment :: 's

definition contribution_sample ::
  "('s::field, 'g::ab_group_add) profile \<Rightarrow> ('r \<Rightarrow> 's \<times> 'r) \<Rightarrow> ('s, 'g) command
     \<Rightarrow> ('s, 'g) role_spec \<Rightarrow> 's \<Rightarrow> 'r \<Rightarrow> ('s, 'g) contribution result \<times> 'r" where
  "contribution_sample P draw command spec constant rng =
     (if element_from_scalar P constant \<noteq> sp_constant spec then (Inl ShareMismatch, rng)
      else case block_sample draw (cm_shape command) constant rng of
        (Inl e, rng') \<Rightarrow> (Inl e, rng')
      | (Inr block, rng') \<Rightarrow>
          let points = block_points P block in
          case points_validate P points (cm_shape command) (sp_constant spec) of
            Inl e \<Rightarrow> (Inl e, rng')
          | Inr _ \<Rightarrow>
              let (salt, rng'') = draw rng' in
              (and_then (contribution_commitment P command (sp_role spec) points salt) (\<lambda>c.
                 Inr \<lparr>cn_command = cm_command command, cn_role = sp_role spec, cn_block = block,
                      cn_points = points, cn_salt = salt, cn_commitment = c\<rparr>), rng''))"

definition contribution_source ::
  "('s::field, 'g::ab_group_add) profile \<Rightarrow> ('r \<Rightarrow> 's \<times> 'r) \<Rightarrow> ('s, 'g) command \<Rightarrow> device_id \<Rightarrow> 's
     \<Rightarrow> 'r \<Rightarrow> ('s, 'g) contribution result \<times> 'r" where
  "contribution_source P draw command device source_share rng =
     (case and_then (command_role command (RoleSource device)) (\<lambda>spec.
         and_then (ok_or ParticipantMismatch (sp_source spec)) (\<lambda>(share_point, weight).
         if element_from_scalar P source_share \<noteq> share_point then Inl ShareMismatch
         else Inr (spec, source_share * sw_scalar weight))) of
       Inl e \<Rightarrow> (Inl e, rng)
     | Inr (spec, constant) \<Rightarrow> contribution_sample P draw command spec constant rng)"

definition contribution_refresher ::
  "('s::field, 'g::ab_group_add) profile \<Rightarrow> ('r \<Rightarrow> 's \<times> 'r) \<Rightarrow> ('s, 'g) command \<Rightarrow> device_id
     \<Rightarrow> 'r \<Rightarrow> ('s, 'g) contribution result \<times> 'r" where
  "contribution_refresher P draw command device rng =
     (case command_role command (RoleRefresher device) of
       Inl e \<Rightarrow> (Inl e, rng)
     | Inr spec \<Rightarrow> contribution_sample P draw command spec 0 rng)"

definition contribution_opening :: "('s, 'g) contribution \<Rightarrow> ('s, 'g) deal_opening" where
  "contribution_opening c =
     \<lparr>do_role = cn_role c, do_points = cn_points c, do_salt = cn_salt c\<rparr>"

definition contribution_share ::
  "('s::field, 'g) contribution \<Rightarrow> ('s, 'g) command \<Rightarrow> target_id \<Rightarrow> 's private_share result" where
  "contribution_share c command target =
     (if cn_command c \<noteq> cm_command command then Inl CommandMismatch
      else and_then (block_evaluate (cn_block c) (cm_shape command) target) (\<lambda>value.
        Inr \<lparr>ps_command = cn_command c, ps_role = cn_role c, ps_target = target, ps_value = value\<rparr>))"

end
