(* ===== verification/Ksnf_Target.thy ===== *)
theory Ksnf_Target
  imports Ksnf_Contribution Ksnf_Log
begin

text \<open>
  The target's side of a redistribution (\<open>src/dealing/target.rs\<close>): the common view of a
  candidate, receipts, the accumulation of private shares, and the share that is installed once
  the log decides. An ordered map that is iterated is a list sorted by its keys.
\<close>

section \<open>Views and receipts\<close>

record ('s, 'g) candidate_view =
  vw_command :: "('s, 'g) command"
  vw_commitments :: "(role_id \<times> 's) list"
  vw_openings :: "('s, 'g) deal_opening list"
  vw_bytes :: bytes
  vw_aggregate :: "'g contribution_points"

definition view_opening :: "('s, 'g) candidate_view \<Rightarrow> role_id \<Rightarrow> ('s, 'g) deal_opening result" where
  "view_opening view role = ok_or ParticipantNotFound (search_key do_role role (vw_openings view))"

record target_receipt =
  tr_command :: command_id
  tr_target :: target_id
  tr_view :: bytes

definition receipt_to_bytes :: "('s, 'g) profile \<Rightarrow> target_receipt \<Rightarrow> bytes result" where
  "receipt_to_bytes P r =
     and_then (put_bytes (tr_view r)) (\<lambda>view.
     Inr (put_u8 (pf_wire_id P) @ ident_bytes (tr_command r) @ encode_target (tr_target r) @ view))"

definition receipt_getter :: "('s, 'g) profile \<Rightarrow> target_receipt getter" where
  "receipt_getter P =
     get_then (expect_version P) (\<lambda>_. get_then get_ident (\<lambda>command.
     get_then decode_target (\<lambda>target. get_then get_bytes (\<lambda>view.
     get_return \<lparr>tr_command = command, tr_target = target, tr_view = view\<rparr>))))"

definition receipt_from_bytes :: "('s, 'g) profile \<Rightarrow> bytes \<Rightarrow> target_receipt result" where
  "receipt_from_bytes P bs = decode_all (receipt_getter P) bs"

section \<open>Pending and installed shares\<close>

record ('s, 'g) pending_share =
  pn_target :: target_id
  pn_shape :: "'s target_shape"
  pn_share :: 's
  pn_public :: 'g
  pn_points :: "'g contribution_points"

record ('s, 'g) installed_share =
  in_target :: target_id
  in_shape :: "'s target_shape"
  in_handle :: activation_handle
  in_share :: 's
  in_public :: 'g
  in_points :: "'g contribution_points"

fun pending_resolve ::
  "('s, 'g, 'z) profile_scheme \<Rightarrow> ('s, 'g) pending_share \<Rightarrow> terminal
     \<Rightarrow> ('s, 'g) installed_share option result" where
  "pending_resolve P p Aborted = Inr None"
| "pending_resolve P p (Activated handle) =
     (if element_from_scalar P (pn_share p) \<noteq> pn_public p then Inl ShareMismatch
      else Inr (Some \<lparr>in_target = pn_target p, in_shape = pn_shape p, in_handle = handle,
                      in_share = pn_share p, in_public = pn_public p, in_points = pn_points p\<rparr>))"

section \<open>Accumulation\<close>

record ('s, 'g) target_accumulator =
  ta_view :: "('s, 'g) candidate_view"
  ta_target :: target_id
  ta_shares :: "(role_id \<times> 's) list"

definition accumulator_new ::
  "('s, 'g) candidate_view \<Rightarrow> target_id \<Rightarrow> ('s, 'g) target_accumulator result" where
  "accumulator_new view target =
     and_then (shape_target_node (cm_shape (vw_command view)) target) (\<lambda>_.
     Inr \<lparr>ta_view = view, ta_target = target, ta_shares = []\<rparr>)"

definition accumulator_receive ::
  "('s, 'g::ab_group_add, 'z) profile_scheme \<Rightarrow> 's private_share \<Rightarrow> ('s, 'g) target_accumulator
     \<Rightarrow> unit result \<times> ('s, 'g) target_accumulator" where
  "accumulator_receive P share acc =
     (if ps_command share \<noteq> cm_command (vw_command (ta_view acc)) \<or> ps_target share \<noteq> ta_target acc
      then (Inl InvalidTranscript, acc)
      else case and_then (view_opening (ta_view acc) (ps_role share)) (\<lambda>opening.
          points_evaluate P (do_points opening) (cm_shape (vw_command (ta_view acc))) (ta_target acc)) of
        Inl e \<Rightarrow> (Inl e, acc)
      | Inr expected \<Rightarrow>
          if element_from_scalar P (ps_value share) \<noteq> expected then (Inl ShareMismatch, acc)
          else case map_of (ta_shares acc) (ps_role share) of
            Some existing \<Rightarrow>
              (if existing = ps_value share then Inr () else Inl ReplayMismatch, acc)
          | None \<Rightarrow>
              (Inr (), acc\<lparr>ta_shares := bt_insert (ps_role share) (ps_value share) (ta_shares acc)\<rparr>))"

definition accumulator_finish ::
  "('s::field, 'g::ab_group_add, 'z) profile_scheme \<Rightarrow> ('s, 'g) target_accumulator
     \<Rightarrow> (target_receipt \<times> ('s, 'g) pending_share) result" where
  "accumulator_finish P acc =
     (let command = vw_command (ta_view acc) in
      if length (ta_shares acc) \<noteq> length (cm_roles command)
         \<or> list_ex (\<lambda>r. map_of (ta_shares acc) (sp_role r) = None) (cm_roles command)
      then Inl SupportMismatch
      else let value = foldl (\<lambda>sum (_, share). sum + share) 0 (ta_shares acc) in
      and_then (points_evaluate P (vw_aggregate (ta_view acc)) (cm_shape command) (ta_target acc))
      (\<lambda>public.
        if element_from_scalar P value \<noteq> public then Inl ShareMismatch
        else Inr (\<lparr>tr_command = cm_command command, tr_target = ta_target acc,
                   tr_view = vw_bytes (ta_view acc)\<rparr>,
                  \<lparr>pn_target = ta_target acc, pn_shape = cm_shape command, pn_share = value,
                   pn_public = public, pn_points = vw_aggregate (ta_view acc)\<rparr>)))"

end
