(* ===== verification/Ksnf_Genesis.thy ===== *)
theory Ksnf_Genesis
  imports Ksnf_Transcript
begin

text \<open>
  Import and validation of an existing sharing (\<open>src/genesis.rs\<close>): public polynomials, devices
  and people, the validated public genesis of a vault, its supports, and the attachment of one
  device's secret shares. A point type wraps a nonzero group element, an element or a share
  point any group element; a binary search over a list the constructor sorted is the search for
  its key.
\<close>

section \<open>Public data\<close>

record 'g public_polynomial =
  gp_constant :: 'g
  gp_commitments :: "'g list"

definition public_polynomial_new :: "'g::zero list \<Rightarrow> 'g public_polynomial result" where
  "public_polynomial_new commitments =
     and_then (ok_or EmptyInput (if commitments = [] then None else Some (hd commitments)))
     (\<lambda>constant. and_then (point_new constant)
     (\<lambda>point. Inr \<lparr>gp_constant = point, gp_commitments = commitments\<rparr>))"

definition gp_threshold :: "'g public_polynomial \<Rightarrow> nat" where
  "gp_threshold p = length (gp_commitments p)"

definition gp_evaluate ::
  "('s, 'g::ab_group_add, 'z) profile_scheme \<Rightarrow> 'g public_polynomial \<Rightarrow> 's \<Rightarrow> 'g" where
  "gp_evaluate P p node = evaluate_commitments P (gp_commitments p) node"

definition gp_verifies ::
  "('s, 'g::ab_group_add, 'z) profile_scheme \<Rightarrow> 'g public_polynomial \<Rightarrow> 's \<Rightarrow> 'g \<Rightarrow> bool" where
  "gp_verifies P p node share \<longleftrightarrow> gp_evaluate P p node = share"

record ('s, 'g) public_device =
  gd_device :: device_id
  gd_node :: 's
  gd_identity_share :: 'g
  gd_member_share :: 'g

record ('s, 'g) public_person =
  gq_person :: person_id
  gq_outer_node :: 's
  gq_identity :: "'g public_polynomial"
  gq_member :: "'g public_polynomial"
  gq_devices :: "('s, 'g) public_device list"

definition public_person_new ::
  "('s, 'g::ab_group_add) profile \<Rightarrow> person_id \<Rightarrow> 's \<Rightarrow> 'g public_polynomial
     \<Rightarrow> 'g public_polynomial \<Rightarrow> ('s, 'g) public_device list \<Rightarrow> ('s, 'g) public_person result" where
  "public_person_new P person outer_node identity member devices =
     (if gp_threshold identity \<noteq> gp_threshold member then Inl LengthMismatch
      else if length devices < gp_threshold identity then Inl SupportMismatch
      else let ds = sort_key gd_device devices in
      if any_adjacent (\<lambda>a b. gd_device a = gd_device b) ds then Inl DuplicateParticipant
      else and_then (scan_prior (\<lambda>prior d.
          if list_ex (\<lambda>p. gd_node p = gd_node d) prior then Inl DuplicateNode
          else if \<not> gp_verifies P identity (gd_node d) (gd_identity_share d)
               \<or> \<not> gp_verifies P member (gd_node d) (gd_member_share d) then Inl ShareMismatch
          else Inr ()) [] ds) (\<lambda>_.
        Inr \<lparr>gq_person = person, gq_outer_node = outer_node, gq_identity = identity,
             gq_member = member, gq_devices = ds\<rparr>))"

definition identity_key :: "('s, 'g) public_person \<Rightarrow> 'g" where
  "identity_key p = gp_constant (gq_identity p)"

definition member_point :: "('s, 'g) public_person \<Rightarrow> 'g" where
  "member_point p = gp_constant (gq_member p)"

definition gq_threshold :: "('s, 'g) public_person \<Rightarrow> nat" where
  "gq_threshold p = gp_threshold (gq_member p)"

definition gq_device :: "('s, 'g) public_person \<Rightarrow> device_id \<Rightarrow> ('s, 'g) public_device result" where
  "gq_device p device = ok_or ParticipantNotFound (search_key gd_device device (gq_devices p))"

section \<open>A vault's genesis\<close>

record ('s, 'g) public_genesis =
  vg_vault :: vault_id
  vg_outer :: "'g public_polynomial"
  vg_people :: "('s, 'g) public_person list"

definition genesis_validate ::
  "('s, 'g::ab_group_add) profile \<Rightarrow> vault_id \<Rightarrow> 'g public_polynomial
     \<Rightarrow> ('s, 'g) public_person list \<Rightarrow> ('s, 'g) public_genesis result" where
  "genesis_validate P vault outer people =
     (if length people < gp_threshold outer then Inl SupportMismatch
      else let ps = sort_key gq_person people in
      if any_adjacent (\<lambda>a b. gq_person a = gq_person b) ps then Inl DuplicateParticipant
      else and_then (scan_prior (\<lambda>prior p.
          if list_ex (\<lambda>q. gq_outer_node q = gq_outer_node p) prior then Inl DuplicateNode
          else if gp_evaluate P outer (gq_outer_node p) \<noteq> member_point p then Inl ShareMismatch
          else Inr ()) [] ps) (\<lambda>_.
        Inr \<lparr>vg_vault = vault, vg_outer = outer, vg_people = ps\<rparr>))"

definition vault_key :: "('s, 'g) public_genesis \<Rightarrow> 'g" where
  "vault_key g = gp_constant (vg_outer g)"

definition vg_threshold :: "('s, 'g) public_genesis \<Rightarrow> nat" where
  "vg_threshold g = gp_threshold (vg_outer g)"

definition genesis_person ::
  "('s, 'g) public_genesis \<Rightarrow> person_id \<Rightarrow> ('s, 'g) public_person result" where
  "genesis_person g person = ok_or ParticipantNotFound (search_key gq_person person (vg_people g))"

definition genesis_outer_support ::
  "('s::field, 'g) public_genesis \<Rightarrow> person_id list \<Rightarrow> ('s, 'g) outer_support result" where
  "genesis_outer_support g people =
     (if length people \<noteq> vg_threshold g then Inl SupportMismatch
      else let selected = sort people in
      if any_adjacent (=) selected then Inl DuplicateParticipant
      else and_then (collect_results (\<lambda>(index, person_id).
          and_then (genesis_person g person_id) (\<lambda>person.
          and_then (count_u16 (index + 1)) (\<lambda>slot.
          Inr \<lparr>pp_person = person_id, pp_slot = slot, pp_node = gq_outer_node person,
               pp_member = member_point person\<rparr>))) (enumerate 0 selected)) outer_support_new)"

definition genesis_inner_support ::
  "('s::field, 'g) public_genesis \<Rightarrow> person_id \<Rightarrow> device_id list
     \<Rightarrow> ('s, 'g) inner_support result" where
  "genesis_inner_support g person_id devices =
     and_then (genesis_person g person_id) (\<lambda>person.
     if length devices \<noteq> gq_threshold person then Inl SupportMismatch
     else and_then (collect_results (\<lambda>device_id.
         and_then (gq_device person device_id) (\<lambda>device.
         Inr \<lparr>dp_device = device_id, dp_node = gd_node device,
              dp_share = gd_member_share device\<rparr>)) devices) inner_support_new)"

section \<open>A device's genesis\<close>

record ('s, 'g) identity_map =
  im_commitments :: "'g list"
  im_devices :: "(device_id \<times> 's \<times> 'g) list"

record ('s, 'g) outer_map =
  om_commitments :: "'g list"
  om_people :: "(person_id \<times> 's \<times> 'g) list"

text \<open>The member map holds its commitments only, and is their list.\<close>

record ('s, 'g) device_genesis =
  dg_vault :: vault_id
  dg_person :: person_id
  dg_device :: device_id
  dg_outer_node :: 's
  dg_node :: 's
  dg_identity_map :: "('s, 'g) identity_map"
  dg_member_map :: "'g list"
  dg_outer_map :: "('s, 'g) outer_map"
  dg_identity_key :: 'g
  dg_member_point :: 'g
  dg_vault_key :: 'g
  dg_identity :: 's
  dg_anchor :: 's

definition attach_share ::
  "('s::field, 'g) profile \<Rightarrow> ('s, 'g) public_genesis \<Rightarrow> person_id \<Rightarrow> device_id \<Rightarrow> 's \<Rightarrow> 's
     \<Rightarrow> ('s, 'g) device_genesis result" where
  "attach_share P g person device identity member =
     and_then (and_then (genesis_person g person) (\<lambda>p. gq_device p device)) (\<lambda>public.
     if element_from_scalar P identity \<noteq> gd_identity_share public
        \<or> element_from_scalar P member \<noteq> gd_member_share public then Inl ShareMismatch
     else and_then (genesis_person g person) (\<lambda>public_person.
     Inr \<lparr>dg_vault = vg_vault g, dg_person = person, dg_device = device,
          dg_outer_node = gq_outer_node public_person, dg_node = gd_node public,
          dg_identity_map = \<lparr>im_commitments = gp_commitments (gq_identity public_person),
            im_devices = map (\<lambda>d. (gd_device d, gd_node d, gd_identity_share d))
              (gq_devices public_person)\<rparr>,
          dg_member_map = gp_commitments (gq_member public_person),
          dg_outer_map = \<lparr>om_commitments = gp_commitments (vg_outer g),
            om_people = map (\<lambda>p. (gq_person p, gq_outer_node p, member_point p)) (vg_people g)\<rparr>,
          dg_identity_key = identity_key public_person, dg_member_point = member_point public_person,
          dg_vault_key = vault_key g, dg_identity = identity,
          dg_anchor = anchor_share member identity\<rparr>))"

end
