(* ===== verification/Ksnf_Auth.thy ===== *)
theory Ksnf_Auth
  imports Ksnf_Nonce
begin

text \<open>
  Receiver-local authenticated deliveries (\<open>src/auth.rs\<close>): commitments, openings and aborts as
  the channel delivers them, and the complete views a receiver fixes. The sort of the deliveries
  by sender device is unstable in the code; a list with two deliveries of one device is refused
  whatever their order, and the first delivery, whose receiver is checked before, is then any of
  them: the model takes the first one listed.
\<close>

section \<open>Deliveries\<close>

record 's authenticated_commitment =
  ac_sender :: leaf_attempt
  ac_receiver :: leaf_attempt
  ac_session :: session_id
  ac_reservation :: bytes
  ac_commitment :: 's

record 'g authenticated_opening =
  ao_sender :: leaf_attempt
  ao_receiver :: leaf_attempt
  ao_session :: session_id
  ao_reservation :: bytes
  ao_nonce :: "'g nonce_pair"

record authenticated_abort =
  ab_sender :: leaf_attempt
  ab_receiver :: leaf_attempt
  ab_session :: session_id
  ab_reservation :: bytes

section \<open>Encodings\<close>

definition encode_attempt :: "leaf_attempt \<Rightarrow> bytes" where
  "encode_attempt a = ident_bytes (la_device a) @ put_u64 (la_sequence a)"

definition encode_view_prefix ::
  "('s, 'g) profile \<Rightarrow> leaf_attempt \<Rightarrow> session_id \<Rightarrow> bytes \<Rightarrow> nat \<Rightarrow> bytes result" where
  "encode_view_prefix P receiver session reservation entries =
     and_then (put_bytes reservation) (\<lambda>encoded.
     and_then (if 2 ^ 16 \<le> entries then Inl LengthOverflow else Inr (put_u16 (word_of_nat entries)))
     (\<lambda>n. Inr (put_u8 (pf_wire_id P) @ encode_attempt receiver @ ident_bytes session @ encoded @ n)))"

definition nonce_commitment ::
  "('s, 'g) profile \<Rightarrow> leaf_attempt \<Rightarrow> bytes \<Rightarrow> 'g nonce_pair \<Rightarrow> 's result" where
  "nonce_commitment P attempt reservation nonce =
     and_then (put_bytes (ascii_bytes ''nonce'')) (\<lambda>label.
     and_then (put_bytes reservation) (\<lambda>encoded.
     pf_hash_to_scalar P NonceDomain
       (put_u8 (pf_wire_id P) @ label @ encode_attempt attempt @ encoded
         @ put_point P (np_hiding nonce) @ put_point P (np_binding nonce))))"

section \<open>Commitment views\<close>

record 's commitment_view =
  cw_receiver :: leaf_attempt
  cw_session :: session_id
  cw_reservation :: bytes
  cw_entries :: "(leaf_attempt \<times> 's) list"

definition commitment_view_new ::
  "('f, 'g) inner_support \<Rightarrow> 's authenticated_commitment list \<Rightarrow> 's commitment_view result" where
  "commitment_view_new support deliveries =
     (let ds = sort_key (la_device \<circ> ac_sender) deliveries in
     if ds = [] then Inl EmptyInput
     else let first = hd ds; receiver = ac_receiver first; session = ac_session first;
              reservation = ac_reservation first in
     and_then (inner_participant support (la_device receiver)) (\<lambda>_.
     if length ds \<noteq> length (is_participants support) then Inl SupportMismatch
     else if any_adjacent (\<lambda>a b. la_device (ac_sender a) = la_device (ac_sender b)) ds
       then Inl DuplicateParticipant
     else and_then (collect_results (\<lambda>(d, participant).
         if la_device (ac_sender d) \<noteq> dp_device participant then Inl SupportMismatch
         else if ac_receiver d \<noteq> receiver then Inl ReceiverMismatch
         else if ac_session d \<noteq> session \<or> ac_reservation d \<noteq> reservation
           then Inl InvalidTranscript
         else Inr (ac_sender d, ac_commitment d)) (zip ds (is_participants support))) (\<lambda>entries.
       Inr \<lparr>cw_receiver = receiver, cw_session = session, cw_reservation = reservation,
            cw_entries = entries\<rparr>)))"

definition view_commitment :: "'s commitment_view \<Rightarrow> leaf_attempt \<Rightarrow> 's result" where
  "view_commitment view sender =
     and_then (ok_or ParticipantNotFound
         (search_key (la_device \<circ> fst) (la_device sender) (cw_entries view)))
       (\<lambda>(attempt, commitment). if attempt = sender then Inr commitment else Inl AttemptMismatch)"

definition commitment_view_to_bytes ::
  "('s, 'g) profile \<Rightarrow> 's commitment_view \<Rightarrow> bytes result" where
  "commitment_view_to_bytes P view =
     and_then (encode_view_prefix P (cw_receiver view) (cw_session view) (cw_reservation view)
         (length (cw_entries view))) (\<lambda>prefix.
     Inr (prefix @ concat (map (\<lambda>(sender, commitment).
       encode_attempt sender @ put_scalar P commitment) (cw_entries view))))"

section \<open>Opening views\<close>

record 'g opening_view =
  ow_receiver :: leaf_attempt
  ow_session :: session_id
  ow_reservation :: bytes
  ow_entries :: "'g device_nonce list"

definition opening_view_new ::
  "('f, 'h) inner_support \<Rightarrow> 'g authenticated_opening list \<Rightarrow> 'g opening_view result" where
  "opening_view_new support deliveries =
     (let ds = sort_key (la_device \<circ> ao_sender) deliveries in
     if ds = [] then Inl EmptyInput
     else let first = hd ds; receiver = ao_receiver first; session = ao_session first;
              reservation = ao_reservation first in
     and_then (inner_participant support (la_device receiver)) (\<lambda>_.
     if length ds \<noteq> length (is_participants support) then Inl SupportMismatch
     else if any_adjacent (\<lambda>a b. la_device (ao_sender a) = la_device (ao_sender b)) ds
       then Inl DuplicateParticipant
     else and_then (collect_results (\<lambda>(d, participant).
         if la_device (ao_sender d) \<noteq> dp_device participant then Inl SupportMismatch
         else if ao_receiver d \<noteq> receiver then Inl ReceiverMismatch
         else if ao_session d \<noteq> session \<or> ao_reservation d \<noteq> reservation
           then Inl InvalidTranscript
         else Inr \<lparr>dn_attempt = ao_sender d, dn_nonce = ao_nonce d\<rparr>)
         (zip ds (is_participants support))) (\<lambda>entries.
       Inr \<lparr>ow_receiver = receiver, ow_session = session, ow_reservation = reservation,
            ow_entries = entries\<rparr>)))"

definition opening_view_verify ::
  "('s, 'g::ab_group_add) profile \<Rightarrow> 'g opening_view \<Rightarrow> 's commitment_view
     \<Rightarrow> ('s, 'g) inner_support \<Rightarrow> 'g device_nonce_set result" where
  "opening_view_verify P view commitments support =
     (if ow_receiver view \<noteq> cw_receiver commitments \<or> ow_session view \<noteq> cw_session commitments
         \<or> ow_reservation view \<noteq> cw_reservation commitments then Inl InvalidTranscript
      else and_then (collect_results (\<lambda>e.
          and_then (nonce_commitment P (dn_attempt e) (ow_reservation view) (dn_nonce e)) (\<lambda>computed.
          and_then (view_commitment commitments (dn_attempt e)) (\<lambda>published.
          if computed \<noteq> published then Inl CommitmentMismatch else Inr ()))) (ow_entries view))
        (\<lambda>_. device_nonce_set_new support (ow_entries view)))"

definition opening_view_to_bytes ::
  "('s, 'g) profile \<Rightarrow> 'g opening_view \<Rightarrow> bytes result" where
  "opening_view_to_bytes P view =
     and_then (encode_view_prefix P (ow_receiver view) (ow_session view) (ow_reservation view)
         (length (ow_entries view))) (\<lambda>prefix.
     Inr (prefix @ concat (map (\<lambda>e. encode_attempt (dn_attempt e)
       @ put_point P (np_hiding (dn_nonce e)) @ put_point P (np_binding (dn_nonce e)))
       (ow_entries view))))"

section \<open>What the views hold\<close>

text \<open>
  Both constructors run the same checks: every delivery matches its participant, the receiver,
  the session and the reservation of the first one.
\<close>

lemma view_entries_Inr:
  assumes "length ds = length ps"
  shows "collect_results (\<lambda>(d, p). if s d \<noteq> k p then Inl e1 else if r d \<noteq> rc then Inl e2
      else if se d \<noteq> sn \<or> rv d \<noteq> res then Inl e3 else Inr (f d)) (zip ds ps) = Inr es \<longleftrightarrow>
    map s ds = map k ps \<and> (\<forall>d \<in> set ds. r d = rc \<and> se d = sn \<and> rv d = res) \<and> es = map f ds"
  using assms
  by (induction ds ps arbitrary: es rule: list_induct2) (auto simp: result_simps)

lemma view_fields:
  assumes "x \<in> S"
  shows "(I (r x) \<and> (\<forall>d \<in> S. r d = r x \<and> s d = s x \<and> b d = b x) \<and> vr = r x \<and> vs = s x \<and> vb = b x)
    \<longleftrightarrow> (I vr \<and> (\<forall>d \<in> S. r d = vr \<and> s d = vs \<and> b d = vb))"
  using assms by auto

lemma commitment_view_new_Inr:
  "commitment_view_new support ds = Inr v \<longleftrightarrow> ds \<noteq> []
     \<and> (\<exists>p. inner_participant support (la_device (cw_receiver v)) = Inr p)
     \<and> distinct (map (la_device \<circ> ac_sender) ds)
     \<and> map (la_device \<circ> ac_sender) (sort_key (la_device \<circ> ac_sender) ds) =
        map dp_device (is_participants support)
     \<and> (\<forall>d \<in> set ds. ac_receiver d = cw_receiver v \<and> ac_session d = cw_session v
          \<and> ac_reservation d = cw_reservation v)
     \<and> cw_entries v = map (\<lambda>d. (ac_sender d, ac_commitment d)) (sort_key (la_device \<circ> ac_sender) ds)"
proof (cases "length ds = length (is_participants support) \<and> ds \<noteq> []")
  case True
  let ?ds = "sort_key (la_device \<circ> ac_sender) ds"
  have hd: "hd ?ds \<in> set ds" using True by (metis hd_in_set set_sort sort_key_eq_Nil)
  have adj: "any_adjacent (\<lambda>a b. la_device (ac_sender a) = la_device (ac_sender b)) ?ds \<longleftrightarrow>
      \<not> distinct (map (la_device \<circ> ac_sender) ds)"
    using any_adjacent_eq_sorted [of "la_device \<circ> ac_sender" ?ds] by (simp add: distinct_map_sort_key)
  let ?f = "hd ?ds"
  have "commitment_view_new support ds = Inr v \<longleftrightarrow>
      (\<exists>p. inner_participant support (la_device (ac_receiver ?f)) = Inr p)
      \<and> distinct (map (la_device \<circ> ac_sender) ds)
      \<and> map (la_device \<circ> ac_sender) ?ds = map dp_device (is_participants support)
      \<and> (\<forall>d \<in> set ds. ac_receiver d = ac_receiver ?f \<and> ac_session d = ac_session ?f \<and> ac_reservation d = ac_reservation ?f)
      \<and> v = \<lparr>cw_receiver = ac_receiver ?f, cw_session = ac_session ?f, cw_reservation = ac_reservation ?f,
             cw_entries = map (\<lambda>d. (ac_sender d, ac_commitment d)) ?ds\<rparr>"
    using True adj view_entries_Inr [of ?ds "is_participants support"
        "la_device \<circ> ac_sender" dp_device SupportMismatch ac_receiver "ac_receiver ?f"
        ReceiverMismatch ac_session "ac_session ?f" ac_reservation "ac_reservation ?f" InvalidTranscript
        "\<lambda>d. (ac_sender d, ac_commitment d)"]
    unfolding commitment_view_new_def Let_def comp_def
    by (simp add: and_then_Inr_iff if_Inl_eq_Inr sort_key_eq_Nil) blast
  moreover have "v = \<lparr>cw_receiver = ac_receiver ?f, cw_session = ac_session ?f, cw_reservation = ac_reservation ?f, cw_entries = es\<rparr> \<longleftrightarrow>
      cw_receiver v = ac_receiver ?f \<and> cw_session v = ac_session ?f \<and> cw_reservation v = ac_reservation ?f \<and> cw_entries v = es" for es
    by (cases v) auto
  ultimately show ?thesis
    using True view_fields [OF hd, of "\<lambda>x. \<exists>p. inner_participant support (la_device x) = Inr p"
        ac_receiver ac_session ac_reservation "cw_receiver v" "cw_session v" "cw_reservation v"]
    by simp blast
next
  case False
  then show ?thesis
    by (auto simp: commitment_view_new_def Let_def and_then_Inr_iff if_Inl_eq_Inr
        dest: map_eq_imp_length_eq)
qed

lemma opening_view_new_Inr:
  "opening_view_new support ds = Inr v \<longleftrightarrow> ds \<noteq> []
     \<and> (\<exists>p. inner_participant support (la_device (ow_receiver v)) = Inr p)
     \<and> distinct (map (la_device \<circ> ao_sender) ds)
     \<and> map (la_device \<circ> ao_sender) (sort_key (la_device \<circ> ao_sender) ds) =
        map dp_device (is_participants support)
     \<and> (\<forall>d \<in> set ds. ao_receiver d = ow_receiver v \<and> ao_session d = ow_session v
          \<and> ao_reservation d = ow_reservation v)
     \<and> ow_entries v = map (\<lambda>d. \<lparr>dn_attempt = ao_sender d, dn_nonce = ao_nonce d\<rparr>)
          (sort_key (la_device \<circ> ao_sender) ds)"
proof (cases "length ds = length (is_participants support) \<and> ds \<noteq> []")
  case True
  let ?ds = "sort_key (la_device \<circ> ao_sender) ds"
  have hd: "hd ?ds \<in> set ds" using True by (metis hd_in_set set_sort sort_key_eq_Nil)
  have adj: "any_adjacent (\<lambda>a b. la_device (ao_sender a) = la_device (ao_sender b)) ?ds \<longleftrightarrow>
      \<not> distinct (map (la_device \<circ> ao_sender) ds)"
    using any_adjacent_eq_sorted [of "la_device \<circ> ao_sender" ?ds] by (simp add: distinct_map_sort_key)
  let ?f = "hd ?ds"
  have "opening_view_new support ds = Inr v \<longleftrightarrow>
      (\<exists>p. inner_participant support (la_device (ao_receiver ?f)) = Inr p)
      \<and> distinct (map (la_device \<circ> ao_sender) ds)
      \<and> map (la_device \<circ> ao_sender) ?ds = map dp_device (is_participants support)
      \<and> (\<forall>d \<in> set ds. ao_receiver d = ao_receiver ?f \<and> ao_session d = ao_session ?f \<and> ao_reservation d = ao_reservation ?f)
      \<and> v = \<lparr>ow_receiver = ao_receiver ?f, ow_session = ao_session ?f, ow_reservation = ao_reservation ?f,
             ow_entries = map (\<lambda>d. \<lparr>dn_attempt = ao_sender d, dn_nonce = ao_nonce d\<rparr>) ?ds\<rparr>"
    using True adj view_entries_Inr [of ?ds "is_participants support"
        "la_device \<circ> ao_sender" dp_device SupportMismatch ao_receiver "ao_receiver ?f"
        ReceiverMismatch ao_session "ao_session ?f" ao_reservation "ao_reservation ?f" InvalidTranscript
        "\<lambda>d. \<lparr>dn_attempt = ao_sender d, dn_nonce = ao_nonce d\<rparr>"]
    unfolding opening_view_new_def Let_def comp_def
    by (simp add: and_then_Inr_iff if_Inl_eq_Inr sort_key_eq_Nil) blast
  moreover have "v = \<lparr>ow_receiver = ao_receiver ?f, ow_session = ao_session ?f, ow_reservation = ao_reservation ?f, ow_entries = es\<rparr> \<longleftrightarrow>
      ow_receiver v = ao_receiver ?f \<and> ow_session v = ao_session ?f \<and> ow_reservation v = ao_reservation ?f \<and> ow_entries v = es" for es
    by (cases v) auto
  ultimately show ?thesis
    using True view_fields [OF hd, of "\<lambda>x. \<exists>p. inner_participant support (la_device x) = Inr p"
        ao_receiver ao_session ao_reservation "ow_receiver v" "ow_session v" "ow_reservation v"]
    by simp blast
next
  case False
  then show ?thesis
    by (auto simp: opening_view_new_def Let_def and_then_Inr_iff if_Inl_eq_Inr
        dest: map_eq_imp_length_eq)
qed

end
