(* ===== verification/Ksnf_Leaf.thy ===== *)
theory Ksnf_Leaf
  imports Ksnf_Target Ksnf_Genesis Ksnf_Auth Ksnf_Signing
begin

text \<open>
  One device's signing state (\<open>src/leaf.rs\<close>): the registry of installed vaults, the one live
  attempt with its stages, and activation of redistributed shares. An operation on \<open>&mut self\<close>
  takes the registry and returns its result with the new registry; dropping the live attempt is
  setting it to \<open>None\<close>.
\<close>

section \<open>State\<close>

datatype leaf_stage = Reserved | Committed | Held | Fixed

datatype response_mode = PlainMode | TaprootMode

record response_binding =
  rb_mode :: response_mode
  rb_policy_tag :: "bytes option"

definition plain_binding :: response_binding where
  "plain_binding = \<lparr>rb_mode = PlainMode, rb_policy_tag = None\<rparr>"

record ('s, 'g) commit_state =
  ct_nonce :: "'s secret_nonce option"
  ct_pair :: "'g nonce_pair"
  ct_commitment :: 's

record ('s, 'g) reveal_state =
  rl_bytes :: bytes
  rl_view :: "'s commitment_view"
  rl_viewed_pair :: "'g nonce_pair"

record 'g fixed_state =
  fx_bytes :: bytes
  fx_nonces :: "'g device_nonce_set"

record ('s, 'g) live =
  lv_attempt :: leaf_attempt
  lv_session :: session_id
  lv_vault :: vault_id
  lv_expiry :: u64
  lv_reservation_bytes :: bytes
  lv_response :: response_binding
  lv_reservation :: "('s, 'g) member_reservation option"
  lv_commit :: "('s, 'g) commit_state option"
  lv_reveal :: "('s, 'g) reveal_state option"
  lv_fixed :: "'g fixed_state option"

definition live_stage :: "('s, 'g) live \<Rightarrow> leaf_stage" where
  "live_stage live =
     (if lv_fixed live \<noteq> None then Fixed
      else if lv_reveal live \<noteq> None then Held
      else if lv_commit live \<noteq> None then Committed
      else Reserved)"

record ('s, 'g) vault_state =
  vs_outer_node :: 's
  vs_outer_epoch :: outer_epoch
  vs_member_handle :: activation_handle
  vs_member_point :: 'g
  vs_vault_key :: 'g
  vs_anchor :: 's
  vs_member_map :: "'g list"
  vs_outer_map :: "('s, 'g) outer_map"

record ('s, 'g) leaf_registry =
  lr_device :: device_id
  lr_person :: person_id
  lr_node :: 's
  lr_identity_map :: "('s, 'g) identity_map"
  lr_identity_key :: 'g
  lr_identity :: 's
  lr_inner_epoch :: inner_epoch
  lr_identity_handle :: activation_handle
  lr_vaults :: "(vault_id \<times> ('s, 'g) vault_state) list"
  lr_live :: "('s, 'g) live option"
  lr_next_sequence :: u64

section \<open>Installation\<close>

definition validate_genesis_epoch ::
  "('s, 'g) device_genesis \<Rightarrow> key_epoch \<Rightarrow> unit result" where
  "validate_genesis_epoch parts epoch =
     (if an_vault (ke_anchor epoch) = dg_vault parts \<and> an_person (ke_anchor epoch) = dg_person parts
      then Inr () else Inl EpochMismatch)"

definition genesis_vault_state ::
  "('s, 'g) device_genesis \<Rightarrow> key_epoch \<Rightarrow> ('s, 'g) vault_state" where
  "genesis_vault_state parts epoch =
     \<lparr>vs_outer_node = dg_outer_node parts, vs_outer_epoch = ke_outer epoch,
      vs_member_handle = an_member (ke_anchor epoch), vs_member_point = dg_member_point parts,
      vs_vault_key = dg_vault_key parts, vs_anchor = dg_anchor parts,
      vs_member_map = dg_member_map parts, vs_outer_map = dg_outer_map parts\<rparr>"

definition leaf_new ::
  "('s, 'g) device_genesis \<Rightarrow> key_epoch \<Rightarrow> ('s, 'g) leaf_registry result" where
  "leaf_new parts epoch =
     and_then (validate_genesis_epoch parts epoch) (\<lambda>_.
     Inr \<lparr>lr_device = dg_device parts, lr_person = dg_person parts, lr_node = dg_node parts,
          lr_identity_map = dg_identity_map parts, lr_identity_key = dg_identity_key parts,
          lr_identity = dg_identity parts, lr_inner_epoch = ke_inner epoch,
          lr_identity_handle = an_identity (ke_anchor epoch),
          lr_vaults = bt_insert (dg_vault parts) (genesis_vault_state parts epoch) [],
          lr_live = None, lr_next_sequence = 0\<rparr>)"

definition leaf_add_vault ::
  "('s, 'g) profile \<Rightarrow> ('s, 'g) device_genesis \<Rightarrow> key_epoch \<Rightarrow> ('s, 'g) leaf_registry
     \<Rightarrow> unit result \<times> ('s, 'g) leaf_registry" where
  "leaf_add_vault P parts epoch r =
     (if lr_live r \<noteq> None then (Inl Busy, r)
      else case validate_genesis_epoch parts epoch of
        Inl e \<Rightarrow> (Inl e, r)
      | Inr _ \<Rightarrow>
          if dg_device parts \<noteq> lr_device r \<or> dg_person parts \<noteq> lr_person r
             \<or> dg_node parts \<noteq> lr_node r \<or> dg_identity_map parts \<noteq> lr_identity_map r
             \<or> dg_identity_key parts \<noteq> lr_identity_key r
             \<or> element_from_scalar P (dg_identity parts) \<noteq> element_from_scalar P (lr_identity r)
             \<or> ke_inner epoch \<noteq> lr_inner_epoch r
             \<or> an_identity (ke_anchor epoch) \<noteq> lr_identity_handle r
             \<or> map_of (lr_vaults r) (dg_vault parts) \<noteq> None
          then (Inl EpochMismatch, r)
          else (Inr (), r\<lparr>lr_vaults :=
                  bt_insert (dg_vault parts) (genesis_vault_state parts epoch) (lr_vaults r)\<rparr>))"

fun leaf_add_vaults ::
  "('s, 'g) profile \<Rightarrow> (('s, 'g) device_genesis \<times> key_epoch) list \<Rightarrow> ('s, 'g) leaf_registry
     \<Rightarrow> ('s, 'g) leaf_registry result" where
  "leaf_add_vaults P [] r = Inr r"
| "leaf_add_vaults P ((device, epoch) # states) r =
     (case leaf_add_vault P device epoch r of
       (Inl e, r') \<Rightarrow> Inl e
     | (Inr _, r') \<Rightarrow> leaf_add_vaults P states r')"

fun leaf_from_vaults ::
  "('s, 'g) profile \<Rightarrow> (('s, 'g) device_genesis \<times> key_epoch) list
     \<Rightarrow> ('s, 'g) leaf_registry result" where
  "leaf_from_vaults P [] = Inl EmptyInput"
| "leaf_from_vaults P ((device, epoch) # states) =
     and_then (leaf_new device epoch) (leaf_add_vaults P states)"

section \<open>Observers\<close>

definition leaf_is_closed :: "('s, 'g) leaf_registry \<Rightarrow> leaf_attempt \<Rightarrow> bool" where
  "leaf_is_closed r attempt \<longleftrightarrow> la_device attempt = lr_device r
     \<and> la_sequence attempt < lr_next_sequence r
     \<and> (case lr_live r of None \<Rightarrow> True | Some live \<Rightarrow> lv_attempt live \<noteq> attempt)"

definition leaf_live_attempt :: "('s, 'g) leaf_registry \<Rightarrow> leaf_attempt option" where
  "leaf_live_attempt r = map_option lv_attempt (lr_live r)"

definition leaf_stage_of :: "('s, 'g) leaf_registry \<Rightarrow> leaf_stage option" where
  "leaf_stage_of r = map_option live_stage (lr_live r)"

definition leaf_live_session :: "('s, 'g) leaf_registry \<Rightarrow> session_id option" where
  "leaf_live_session r = map_option lv_session (lr_live r)"

definition leaf_epoch :: "('s, 'g) leaf_registry \<Rightarrow> vault_id \<Rightarrow> key_epoch result" where
  "leaf_epoch r vault =
     and_then (ok_or ParticipantNotFound (map_of (lr_vaults r) vault)) (\<lambda>state.
     Inr \<lparr>ke_outer = vs_outer_epoch state, ke_inner = lr_inner_epoch r,
          ke_anchor = \<lparr>an_vault = vault, an_person = lr_person r,
            an_identity = lr_identity_handle r, an_member = vs_member_handle state\<rparr>\<rparr>)"

section \<open>Validation of a reservation\<close>

fun inner_support_sum ::
  "('s::field, 'g::ab_group_add) profile \<Rightarrow> ('s, 'g) identity_map \<Rightarrow> 'g list
     \<Rightarrow> ('s, 'g) inner_support \<Rightarrow> ('s, 'g) device_participant list \<Rightarrow> 'g \<Rightarrow> 'g result" where
  "inner_support_sum P imap commitments support [] acc = Inr acc"
| "inner_support_sum P imap commitments support (p # ps) acc =
     and_then (ok_or ParticipantNotFound (search_key fst (dp_device p) (im_devices imap)))
     (\<lambda>(_, node, _).
     if dp_node p \<noteq> node \<or> dp_share p \<noteq> evaluate_commitments P commitments node
     then Inl ShareMismatch
     else and_then (inner_coefficient_of support (dp_device p)) (\<lambda>c.
       inner_support_sum P imap commitments support ps
         (acc + gc_smul P (ic_scalar c) (dp_share p))))"

definition validate_inner_support ::
  "('s::field, 'g::ab_group_add) profile \<Rightarrow> ('s, 'g) leaf_registry \<Rightarrow> ('s, 'g) vault_state
     \<Rightarrow> ('s, 'g) inner_support \<Rightarrow> unit result" where
  "validate_inner_support P r vault support =
     (if length (is_participants support) \<noteq> length (vs_member_map vault) then Inl SupportMismatch
      else and_then (inner_support_sum P (lr_identity_map r) (vs_member_map vault) support
          (is_participants support) 0) (\<lambda>reconstructed.
        if reconstructed = vs_member_point vault then Inr () else Inl ShareMismatch))"

fun outer_support_sum ::
  "('s::field, 'g::ab_group_add) profile \<Rightarrow> ('s, 'g) outer_map \<Rightarrow> ('s, 'g) outer_support
     \<Rightarrow> nat \<Rightarrow> ('s, 'g) person_participant list \<Rightarrow> 'g \<Rightarrow> 'g result" where
  "outer_support_sum P omap support index [] acc = Inr acc"
| "outer_support_sum P omap support index (p # ps) acc =
     and_then (count_u16 (index + 1)) (\<lambda>sl.
     and_then (ok_or ParticipantNotFound (search_key fst (pp_person p) (om_people omap)))
     (\<lambda>(_, node, member).
     if pp_slot p \<noteq> sl \<or> pp_node p \<noteq> node \<or> pp_member p \<noteq> member
        \<or> member \<noteq> evaluate_commitments P (om_commitments omap) node
     then Inl ShareMismatch
     else and_then (outer_coefficient_of support (pp_person p)) (\<lambda>c.
       outer_support_sum P omap support (index + 1) ps
         (acc + gc_smul P (ocf_scalar c) member))))"

definition validate_outer_support ::
  "('s::field, 'g::ab_group_add) profile \<Rightarrow> ('s, 'g) vault_state \<Rightarrow> ('s, 'g) outer_support
     \<Rightarrow> unit result" where
  "validate_outer_support P vault support =
     (if length (os_participants support) \<noteq> length (om_commitments (vs_outer_map vault))
      then Inl SupportMismatch
      else and_then (outer_support_sum P (vs_outer_map vault) support 0 (os_participants support) 0)
        (\<lambda>reconstructed. if reconstructed = vs_vault_key vault then Inr () else Inl ShareMismatch))"

definition validate_reservation ::
  "('s::field, 'g::ab_group_add) profile \<Rightarrow> ('s, 'g) leaf_registry \<Rightarrow> ('s, 'g) member_reservation
     \<Rightarrow> ('s, 'g) outer_support \<Rightarrow> vault_id result" where
  "validate_reservation P r reservation outer_support =
     (let body = op_body (rv_opening reservation); vault_id = an_vault (ke_anchor (bd_epoch body)) in
      and_then (ok_or EpochMismatch (map_of (lr_vaults r) vault_id)) (\<lambda>vault.
      and_then (leaf_epoch r vault_id) (\<lambda>epoch.
      if bd_epoch body \<noteq> epoch then Inl EpochMismatch
      else if bd_identity body \<noteq> lr_identity_key r \<or> bd_member body \<noteq> vs_member_point vault
        \<or> rp_key (rv_prepackage reservation) \<noteq> vs_vault_key vault then Inl InvalidTranscript
      else and_then (validate_inner_support P r vault (bd_inner body)) (\<lambda>_.
        and_then (validate_outer_support P vault outer_support) (\<lambda>_.
        and_then (inner_participant (bd_inner body) (lr_device r)) (\<lambda>participant.
        if dp_node participant \<noteq> lr_node r then Inl ParticipantMismatch
        else if element_from_scalar P (signing_share (lr_identity r) (vs_anchor vault))
            \<noteq> dp_share participant then Inl ShareMismatch
        else Inr vault_id))))))"

section \<open>Attempts\<close>

definition issue_attempt ::
  "('s, 'g) leaf_registry \<Rightarrow> leaf_attempt result \<times> ('s, 'g) leaf_registry" where
  "issue_attempt r =
     (case checked_succ (lr_next_sequence r) of
       None \<Rightarrow> (Inl AttemptExhausted, r)
     | Some next \<Rightarrow> (Inr \<lparr>la_device = lr_device r, la_sequence = lr_next_sequence r\<rparr>,
                     r\<lparr>lr_next_sequence := next\<rparr>))"

definition take_live ::
  "leaf_attempt \<Rightarrow> ('s, 'g) leaf_registry \<Rightarrow> ('s, 'g) live result \<times> ('s, 'g) leaf_registry" where
  "take_live attempt r =
     (if leaf_is_closed r attempt then (Inl AttemptClosed, r)
      else case lr_live r of
        None \<Rightarrow> (Inl WrongStage, r)
      | Some live \<Rightarrow>
          if lv_attempt live = attempt then (Inr live, r\<lparr>lr_live := None\<rparr>)
          else (Inl (if la_device attempt = lr_device r then Busy else AttemptMismatch), r))"

definition leaf_reserve_with ::
  "('s::field, 'g::ab_group_add) profile \<Rightarrow> session_id \<Rightarrow> u64 \<Rightarrow> bytes \<Rightarrow> response_binding
     \<Rightarrow> ('s, 'g) outer_support \<Rightarrow> (('s, 'g) member_reservation \<times> session_id \<times> u64) result
     \<Rightarrow> ('s, 'g) leaf_registry \<Rightarrow> leaf_attempt result \<times> ('s, 'g) leaf_registry" where
  "leaf_reserve_with P session now bs response outer_support parsed r =
     (case lr_live r of
       Some live \<Rightarrow>
         if lv_session live \<noteq> session then (Inl Busy, r)
         else if lv_reservation_bytes live = bs \<and> lv_response live = response
           then (Inr (lv_attempt live), r)
         else (Inl ReplayMismatch, r\<lparr>lr_live := None\<rparr>)
     | None \<Rightarrow>
         case and_then parsed (\<lambda>(reservation, parsed_session, expiry).
             if parsed_session \<noteq> session then Inl InvalidTranscript
             else if expiry \<le> now then Inl Expired
             else and_then (validate_reservation P r reservation outer_support) (\<lambda>vault.
               Inr (reservation, expiry, vault))) of
           Inl e \<Rightarrow> (Inl e, r)
         | Inr (reservation, expiry, vault) \<Rightarrow>
             (case issue_attempt r of
               (Inl e, r') \<Rightarrow> (Inl e, r')
             | (Inr attempt, r') \<Rightarrow>
                 (Inr attempt, r'\<lparr>lr_live := Some
                    \<lparr>lv_attempt = attempt, lv_session = session, lv_vault = vault,
                     lv_expiry = expiry, lv_reservation_bytes = bs, lv_response = response,
                     lv_reservation = Some reservation, lv_commit = None, lv_reveal = None,
                     lv_fixed = None\<rparr>\<rparr>)))"

definition parse_reservation ::
  "('s::field, 'g::zero) profile \<Rightarrow> bytes \<Rightarrow> ('s, 'g) outer_support
     \<Rightarrow> (('s, 'g) member_reservation \<times> session_id \<times> u64) result" where
  "parse_reservation P bs outer_support =
     and_then (reservation_from_bytes P bs outer_support) (\<lambda>(reservation, session, expiry).
     and_then (reservation_to_bytes P reservation session expiry) (\<lambda>own.
     if own \<noteq> bs then Inl InvalidTranscript else Inr (reservation, session, expiry)))"

definition leaf_reserve ::
  "('s::field, 'g::ab_group_add) profile \<Rightarrow> session_id \<Rightarrow> u64 \<Rightarrow> bytes \<Rightarrow> ('s, 'g) outer_support
     \<Rightarrow> ('s, 'g) leaf_registry \<Rightarrow> leaf_attempt result \<times> ('s, 'g) leaf_registry" where
  "leaf_reserve P session now bs outer_support =
     leaf_reserve_with P session now bs plain_binding outer_support
       (parse_reservation P bs outer_support)"

text \<open>
  Sampling draws until a scalar is nonzero, so the whole operation is a partial one: no result
  when the source never returns a nonzero scalar.
\<close>

definition leaf_commit ::
  "('s::field, 'g::zero) profile \<Rightarrow> ('r \<Rightarrow> 's \<times> 'r) \<Rightarrow> leaf_attempt \<Rightarrow> bytes
     \<Rightarrow> ('s, 'g) leaf_registry \<Rightarrow> 'r \<Rightarrow> (('s result \<times> ('s, 'g) leaf_registry) \<times> 'r) option" where
  "leaf_commit P draw attempt reservation_bytes r rng =
     (case take_live attempt r of
       (Inl e, r') \<Rightarrow> Some ((Inl e, r'), rng)
     | (Inr live, r') \<Rightarrow>
         if lv_reservation_bytes live \<noteq> reservation_bytes then Some ((Inl ReplayMismatch, r'), rng)
         else case lv_commit live of
           Some c \<Rightarrow> Some ((Inr (ct_commitment c), r'\<lparr>lr_live := Some live\<rparr>), rng)
         | None \<Rightarrow>
             (case nonce_sample draw rng of
               None \<Rightarrow> None
             | Some (nonce, rng') \<Rightarrow>
                 Some (case and_then (nonce_commitments P nonce) (\<lambda>pair.
                     and_then (nonce_commitment P attempt reservation_bytes pair) (\<lambda>commitment.
                     Inr \<lparr>ct_nonce = Some nonce, ct_pair = pair, ct_commitment = commitment\<rparr>)) of
                   Inl e \<Rightarrow> (Inl e, r')
                 | Inr c \<Rightarrow> (Inr (ct_commitment c),
                     r'\<lparr>lr_live := Some (live\<lparr>lv_commit := Some c\<rparr>)\<rparr>), rng')))"

definition leaf_reveal ::
  "('s, 'g) profile \<Rightarrow> leaf_attempt \<Rightarrow> 's authenticated_commitment list \<Rightarrow> ('s, 'g) leaf_registry
     \<Rightarrow> 'g nonce_pair result \<times> ('s, 'g) leaf_registry" where
  "leaf_reveal P attempt deliveries r =
     (case take_live attempt r of
       (Inl e, r') \<Rightarrow> (Inl e, r')
     | (Inr live, r') \<Rightarrow>
         case and_then (ok_or WrongStage (lv_reservation live)) (\<lambda>reservation.
             and_then (commitment_view_new (bd_inner (op_body (rv_opening reservation))) deliveries)
             (\<lambda>view. and_then (commitment_view_to_bytes P view) (\<lambda>bs. Inr (view, bs)))) of
           Inl e \<Rightarrow> (Inl e, r')
         | Inr (view, bs) \<Rightarrow>
             (case lv_reveal live of
               Some reveal \<Rightarrow>
                 if rl_bytes reveal \<noteq> bs then (Inl ReplayMismatch, r')
                 else (Inr (rl_viewed_pair reveal), r'\<lparr>lr_live := Some live\<rparr>)
             | None \<Rightarrow>
                 (case lv_commit live of
                   None \<Rightarrow> (Inl WrongStage, r')
                 | Some commit \<Rightarrow>
                     if cw_receiver view \<noteq> attempt \<or> cw_session view \<noteq> lv_session live
                        \<or> cw_reservation view \<noteq> lv_reservation_bytes live
                     then (Inl InvalidTranscript, r')
                     else case view_commitment view attempt of
                       Inl e \<Rightarrow> (Inl e, r')
                     | Inr own \<Rightarrow>
                         if own \<noteq> ct_commitment commit then (Inl CommitmentMismatch, r')
                         else (Inr (ct_pair commit), r'\<lparr>lr_live := Some (live\<lparr>lv_reveal := Some
                           \<lparr>rl_bytes = bs, rl_view = view, rl_viewed_pair = ct_pair commit\<rparr>\<rparr>)\<rparr>))))"

definition leaf_fix ::
  "('s, 'g::ab_group_add) profile \<Rightarrow> leaf_attempt \<Rightarrow> 'g authenticated_opening list
     \<Rightarrow> ('s, 'g) leaf_registry \<Rightarrow> 'g nonce_pair result \<times> ('s, 'g) leaf_registry" where
  "leaf_fix P attempt deliveries r =
     (case take_live attempt r of
       (Inl e, r') \<Rightarrow> (Inl e, r')
     | (Inr live, r') \<Rightarrow>
         case and_then (ok_or WrongStage (lv_reservation live)) (\<lambda>reservation.
             and_then (opening_view_new (bd_inner (op_body (rv_opening reservation))) deliveries)
             (\<lambda>view. and_then (opening_view_to_bytes P view) (\<lambda>bs. Inr (view, bs)))) of
           Inl e \<Rightarrow> (Inl e, r')
         | Inr (view, bs) \<Rightarrow>
             (case lv_fixed live of
               Some fixed \<Rightarrow>
                 if fx_bytes fixed \<noteq> bs then (Inl ReplayMismatch, r')
                 else (Inr (dns_aggregate (fx_nonces fixed)), r'\<lparr>lr_live := Some live\<rparr>)
             | None \<Rightarrow>
                 (case lv_reveal live of
                   None \<Rightarrow> (Inl WrongStage, r')
                 | Some reveal \<Rightarrow>
                     if ow_receiver view \<noteq> attempt \<or> ow_session view \<noteq> lv_session live
                        \<or> ow_reservation view \<noteq> lv_reservation_bytes live
                     then (Inl InvalidTranscript, r')
                     else case and_then (ok_or WrongStage (lv_reservation live)) (\<lambda>reservation.
                         opening_view_verify P view (rl_view reveal)
                           (bd_inner (op_body (rv_opening reservation)))) of
                       Inl e \<Rightarrow> (Inl e, r')
                     | Inr nonces \<Rightarrow>
                         (Inr (dns_aggregate nonces), r'\<lparr>lr_live := Some (live\<lparr>lv_fixed := Some
                           \<lparr>fx_bytes = bs, fx_nonces = nonces\<rparr>\<rparr>)\<rparr>))))"

record ('s, 'g) response_inputs =
  ri_nonce :: "'s secret_nonce"
  ri_reservation :: "('s, 'g) member_reservation"
  ri_nonces :: "'g device_nonce_set"
  ri_device :: device_id
  ri_share :: 's
  ri_session :: session_id
  ri_expiry :: u64

definition leaf_respond_with ::
  "leaf_attempt \<Rightarrow> response_mode \<Rightarrow> (('s::field, 'g) response_inputs \<Rightarrow> bytes \<Rightarrow> 'a result)
     \<Rightarrow> ('s, 'g) leaf_registry \<Rightarrow> 'a result \<times> ('s, 'g) leaf_registry" where
  "leaf_respond_with attempt response_mode respond r =
     (case take_live attempt r of
       (Inl e, r') \<Rightarrow> (Inl e, r')
     | (Inr live, r') \<Rightarrow>
         (if rb_mode (lv_response live) \<noteq> response_mode then Inl ProtocolMismatch
          else and_then (ok_or WrongStage (lv_fixed live)) (\<lambda>fixed.
               and_then (ok_or WrongStage (lv_commit live)) (\<lambda>commit.
               and_then (ok_or WrongStage (ct_nonce commit)) (\<lambda>nonce.
               and_then (ok_or WrongStage (lv_reservation live)) (\<lambda>reservation.
               and_then (ok_or EpochMismatch (map_of (lr_vaults r') (lv_vault live))) (\<lambda>vault.
               respond \<lparr>ri_nonce = nonce, ri_reservation = reservation,
                        ri_nonces = fx_nonces fixed, ri_device = lr_device r',
                        ri_share = signing_share (lr_identity r') (vs_anchor vault),
                        ri_session = lv_session live, ri_expiry = lv_expiry live\<rparr>
                 (lv_reservation_bytes live)))))), r'))"

definition plain_response ::
  "('s::field, 'g::ab_group_add) profile \<Rightarrow> bytes \<Rightarrow> ('s, 'g) response_inputs \<Rightarrow> bytes
     \<Rightarrow> 's device_response result" where
  "plain_response P root_bytes input _ =
     and_then (package_from_bytes P root_bytes) (\<lambda>root.
     and_then (package_to_bytes P root) (\<lambda>own.
     if own \<noteq> root_bytes then Inl InvalidTranscript
     else and_then (transcript_finalize root (ri_reservation input)) (\<lambda>transcript.
       and_then (signing_context_new P (mt_root transcript)) (\<lambda>signing.
       respond_device P (ri_nonce input) transcript signing (ri_nonces input) (ri_device input)
         (ri_share input)))))"

definition leaf_respond ::
  "('s::field, 'g::ab_group_add) profile \<Rightarrow> leaf_attempt \<Rightarrow> bytes \<Rightarrow> ('s, 'g) leaf_registry
     \<Rightarrow> 's device_response result \<times> ('s, 'g) leaf_registry" where
  "leaf_respond P attempt root_bytes =
     leaf_respond_with attempt PlainMode (plain_response P root_bytes)"

definition leaf_close ::
  "leaf_attempt \<Rightarrow> ('s, 'g) leaf_registry \<Rightarrow> unit result \<times> ('s, 'g) leaf_registry" where
  "leaf_close attempt r =
     (if leaf_is_closed r attempt then (Inl AttemptClosed, r)
      else case lr_live r of
        None \<Rightarrow> (Inl WrongStage, r)
      | Some live \<Rightarrow>
          if lv_attempt live \<noteq> attempt
          then (Inl (if la_device attempt = lr_device r then Busy else AttemptMismatch), r)
          else (Inr (), r\<lparr>lr_live := None\<rparr>))"

definition leaf_receive_abort ::
  "authenticated_abort \<Rightarrow> ('s, 'g) leaf_registry \<Rightarrow> unit result \<times> ('s, 'g) leaf_registry" where
  "leaf_receive_abort abort r =
     (if la_device (ab_receiver abort) \<noteq> lr_device r then (Inl ReceiverMismatch, r)
      else if (case lr_live r of None \<Rightarrow> False
          | Some live \<Rightarrow> lv_attempt live = ab_receiver abort \<and> lv_session live \<noteq> ab_session abort)
        then (Inl InvalidTranscript, r)
      else case take_live (ab_receiver abort) r of
        (Inl e, r') \<Rightarrow> (Inl e, r')
      | (Inr live, r') \<Rightarrow>
          (and_then (ok_or WrongStage (lv_reservation live)) (\<lambda>reservation.
             and_then (inner_participant (bd_inner (op_body (rv_opening reservation)))
                 (la_device (ab_sender abort))) (\<lambda>_.
             if lv_session live = ab_session abort
                \<and> lv_reservation_bytes live = ab_reservation abort
             then Inr () else Inl InvalidTranscript)), r'))"

definition leaf_close_expired ::
  "u64 \<Rightarrow> ('s, 'g) leaf_registry \<Rightarrow> leaf_attempt option \<times> ('s, 'g) leaf_registry" where
  "leaf_close_expired now r =
     (case lr_live r of
       None \<Rightarrow> (None, r)
     | Some live \<Rightarrow>
         if lv_expiry live \<le> now then (Some (lv_attempt live), r\<lparr>lr_live := None\<rparr>) else (None, r))"

end
