(* ===== verification/Ksnf_Activation.thy ===== *)
theory Ksnf_Activation
  imports Ksnf_Leaf
begin

text \<open>
  Installing redistributed shares into a registry (the activation half of \<open>src/leaf.rs\<close>). All
  checks come before the first write; the model computes what is to be installed as a result and
  then writes it.
\<close>

section \<open>Maps of a redistributed block\<close>

fun single_points :: "'g contribution_points \<Rightarrow> 'g list result" where
  "single_points (SinglePoints commitments) = Inr commitments"
| "single_points (OuterPoints outer members) = Inl SupportMismatch"

definition identity_map_of ::
  "('s, 'g::ab_group_add) profile \<Rightarrow> 's single_shape \<Rightarrow> 'g contribution_points
     \<Rightarrow> ('s, 'g) identity_map result" where
  "identity_map_of P shape points =
     and_then (single_points points) (\<lambda>commitments.
     if length commitments \<noteq> unat (ss_threshold shape) then Inl SupportMismatch
     else and_then (collect_results (\<lambda>t.
         and_then (points_evaluate P points (SingleShape shape) (TargetSingle (td_device t))) (\<lambda>share.
         Inr (td_device t, td_node t, share))) (ss_devices shape)) (\<lambda>devices.
       Inr \<lparr>im_commitments = commitments, im_devices = devices\<rparr>))"

definition member_map_of ::
  "'s single_shape \<Rightarrow> 'g contribution_points \<Rightarrow> 'g list result" where
  "member_map_of shape points =
     and_then (single_points points) (\<lambda>commitments.
     if length commitments \<noteq> unat (ss_threshold shape) then Inl SupportMismatch
     else Inr commitments)"

fun outer_maps_of ::
  "'s outer_shape \<Rightarrow> 'g::zero contribution_points \<Rightarrow> person_id
     \<Rightarrow> (('s, 'g) outer_map \<times> 'g list) result" where
  "outer_maps_of shape (SinglePoints points) person = Inl SupportMismatch"
| "outer_maps_of shape (OuterPoints outer members) person =
     (if length outer \<noteq> unat (oh_threshold shape) \<or> length members \<noteq> length (oh_people shape)
      then Inl SupportMismatch
      else and_then (collect_results (\<lambda>(t, (member_person, commitments)).
          if ot_person t \<noteq> member_person
             \<or> length commitments \<noteq> unat (ss_threshold (ot_inner t)) then Inl SupportMismatch
          else and_then (ok_or EmptyInput (first_point commitments)) (\<lambda>constant.
               and_then (point_new constant) (\<lambda>point. Inr (ot_person t, ot_node t, point))))
          (zip (oh_people shape) members)) (\<lambda>people.
        and_then (ok_or ParticipantNotFound (search_key fst person members)) (\<lambda>(_, commitments).
        Inr (\<lparr>om_commitments = outer, om_people = people\<rparr>, commitments))))"

definition same_roster :: "('s, 'g) identity_map \<Rightarrow> 's single_shape \<Rightarrow> bool" where
  "same_roster imap shape \<longleftrightarrow> length (im_commitments imap) = unat (ss_threshold shape)
     \<and> length (im_devices imap) = length (ss_devices shape)
     \<and> list_all (\<lambda>((device, node, _), t). device = td_device t \<and> node = td_node t)
         (zip (im_devices imap) (ss_devices shape))"

definition target_node :: "'s single_shape \<Rightarrow> device_id \<Rightarrow> 's result" where
  "target_node shape device =
     and_then (ok_or ParticipantNotFound (search_key td_device device (ss_devices shape)))
       (\<lambda>t. Inr (td_node t))"

section \<open>An inner bundle\<close>

fun check_bundle ::
  "('s, 'g) leaf_registry \<Rightarrow> ('s, 'g) installed_share \<Rightarrow> inner_epoch option
     \<Rightarrow> ((key_epoch \<times> ('s, 'g) installed_share) \<times> vault_id \<times> ('s, 'g) vault_state) list
     \<Rightarrow> inner_epoch option result" where
  "check_bundle r identity next_inner [] = Inr next_inner"
| "check_bundle r identity next_inner (((epoch, member), (vault_id, vault)) # rest) =
     (if an_vault (ke_anchor epoch) \<noteq> vault_id
         \<or> an_person (ke_anchor epoch) \<noteq> lr_person r
         \<or> ke_outer epoch \<noteq> vs_outer_epoch vault
         \<or> ke_inner epoch \<le> lr_inner_epoch r
         \<or> (case next_inner of None \<Rightarrow> False | Some inner \<Rightarrow> inner \<noteq> ke_inner epoch)
         \<or> an_identity (ke_anchor epoch) \<noteq> in_handle identity
         \<or> an_member (ke_anchor epoch) \<noteq> in_handle identity
         \<or> in_handle member \<noteq> in_handle identity
         \<or> in_target member \<noteq> TargetSingle (lr_device r)
         \<or> in_shape member \<noteq> in_shape identity
         \<or> (case in_points member of SinglePoints ps \<Rightarrow> False | OuterPoints os ms \<Rightarrow> True)
      then Inl EpochMismatch
      else and_then (points_constant (in_points member)) (\<lambda>constant.
        if constant \<noteq> vs_member_point vault then Inl EpochMismatch
        else check_bundle r identity (Some (ke_inner epoch)) rest))"

text \<open>What the checks compute: the identity map, the inner epoch, an anchor and a map per vault.\<close>

definition inner_bundle_install ::
  "('s::field, 'g::ab_group_add) profile \<Rightarrow> ('s, 'g) leaf_registry \<Rightarrow> ('s, 'g) installed_share
     \<Rightarrow> (key_epoch \<times> ('s, 'g) installed_share) list
     \<Rightarrow> (('s, 'g) identity_map \<times> inner_epoch \<times> ('s \<times> 'g list) list) result" where
  "inner_bundle_install P r identity members =
     (let ms = sort_key (\<lambda>(epoch, _). an_vault (ke_anchor epoch)) members; handle = in_handle identity in
      and_then (case in_shape identity of SingleShape shape \<Rightarrow> Inr shape
          | OuterShape shape \<Rightarrow> Inl SupportMismatch) (\<lambda>shape.
      and_then (identity_map_of P shape (in_points identity)) (\<lambda>imap.
      and_then (target_node shape (lr_device r)) (\<lambda>node.
      if length ms \<noteq> length (lr_vaults r) \<or> handle = lr_identity_handle r
         \<or> list_ex (\<lambda>(_, vault). vs_member_handle vault = handle) (lr_vaults r)
         \<or> in_target identity \<noteq> TargetSingle (lr_device r) \<or> node \<noteq> lr_node r
      then Inl EpochMismatch
      else and_then (points_constant (in_points identity)) (\<lambda>constant.
        if constant \<noteq> lr_identity_key r then Inl EpochMismatch
        else and_then (check_bundle r identity None (zip ms (lr_vaults r))) (\<lambda>next_inner.
          and_then (ok_or EmptyInput next_inner) (\<lambda>inner.
          and_then (collect_results (\<lambda>(epoch, member).
              and_then (member_map_of shape (in_points member)) (\<lambda>commitments.
              Inr (anchor_share (in_share member) (in_share identity), commitments))) ms) (\<lambda>anchors.
          Inr (imap, inner, anchors)))))))))"

definition leaf_activate_inner_bundle ::
  "('s::field, 'g::ab_group_add) profile \<Rightarrow> ('s, 'g) installed_share
     \<Rightarrow> (key_epoch \<times> ('s, 'g) installed_share) list \<Rightarrow> ('s, 'g) leaf_registry
     \<Rightarrow> unit result \<times> ('s, 'g) leaf_registry" where
  "leaf_activate_inner_bundle P identity members r =
     (case inner_bundle_install P r identity members of
       Inl e \<Rightarrow> (Inl e, r)
     | Inr (imap, inner, anchors) \<Rightarrow>
         (Inr (), r\<lparr>lr_live := None, lr_identity := in_share identity, lr_identity_map := imap,
            lr_inner_epoch := inner, lr_identity_handle := in_handle identity,
            lr_vaults := map (\<lambda>((vault_id, vault), (anchor, commitments)).
              (vault_id, vault\<lparr>vs_anchor := anchor, vs_member_handle := in_handle identity,
                               vs_member_map := commitments\<rparr>)) (zip (lr_vaults r) anchors)\<rparr>))"

definition leaf_activate_inner ::
  "('s::field, 'g::ab_group_add) profile \<Rightarrow> key_epoch \<Rightarrow> ('s, 'g) installed_share
     \<Rightarrow> ('s, 'g) installed_share \<Rightarrow> ('s, 'g) leaf_registry
     \<Rightarrow> unit result \<times> ('s, 'g) leaf_registry" where
  "leaf_activate_inner P epoch identity member =
     leaf_activate_inner_bundle P identity [(epoch, member)]"

section \<open>An outer block\<close>

definition close_vault_live :: "vault_id \<Rightarrow> ('s, 'g) leaf_registry \<Rightarrow> ('s, 'g) leaf_registry" where
  "close_vault_live vault r =
     (case lr_live r of
       None \<Rightarrow> r
     | Some live \<Rightarrow> if lv_vault live = vault then r\<lparr>lr_live := None\<rparr> else r)"

definition outer_install ::
  "('s::field, 'g::ab_group_add) profile \<Rightarrow> ('s, 'g) leaf_registry \<Rightarrow> key_epoch
     \<Rightarrow> ('s, 'g) installed_share \<Rightarrow> ('g \<times> ('s, 'g) outer_map \<times> 'g list) result" where
  "outer_install P r epoch member =
     (let anchor = ke_anchor epoch in
      and_then (case in_target member of TargetOuter person device \<Rightarrow> Inr (person, device)
          | TargetSingle device \<Rightarrow> Inl ParticipantMismatch) (\<lambda>(person, device).
      and_then (ok_or EpochMismatch (map_of (lr_vaults r) (an_vault anchor))) (\<lambda>vault.
      and_then (case in_shape member of OuterShape shape \<Rightarrow> Inr shape
          | SingleShape shape \<Rightarrow> Inl SupportMismatch) (\<lambda>shape.
      and_then (ok_or ParticipantNotFound (search_key ot_person person (oh_people shape))) (\<lambda>target.
      if an_person anchor \<noteq> lr_person r \<or> person \<noteq> lr_person r \<or> device \<noteq> lr_device r
         \<or> ot_node target \<noteq> vs_outer_node vault
         \<or> \<not> same_roster (lr_identity_map r) (ot_inner target)
         \<or> ke_outer epoch \<le> vs_outer_epoch vault \<or> ke_inner epoch \<noteq> lr_inner_epoch r
         \<or> an_identity anchor \<noteq> lr_identity_handle r \<or> an_member anchor \<noteq> in_handle member
         \<or> in_handle member = vs_member_handle vault
      then Inl EpochMismatch
      else and_then (points_constant (in_points member)) (\<lambda>constant.
        if constant \<noteq> vs_vault_key vault then Inl EpochMismatch
        else and_then (points_member_constant (in_points member) person) (\<lambda>c.
          and_then (point_new c) (\<lambda>point.
          and_then (outer_maps_of shape (in_points member) person) (\<lambda>(omap, commitments).
          Inr (point, omap, commitments))))))))))"

definition leaf_activate_outer ::
  "('s::field, 'g::ab_group_add) profile \<Rightarrow> key_epoch \<Rightarrow> ('s, 'g) installed_share
     \<Rightarrow> ('s, 'g) leaf_registry \<Rightarrow> unit result \<times> ('s, 'g) leaf_registry" where
  "leaf_activate_outer P epoch member r =
     (case outer_install P r epoch member of
       Inl e \<Rightarrow> (Inl e, r)
     | Inr (point, omap, commitments) \<Rightarrow>
         let r' = close_vault_live (an_vault (ke_anchor epoch)) r in
         (Inr (), r'\<lparr>lr_vaults := map (\<lambda>(vault_id, vault).
            if vault_id = an_vault (ke_anchor epoch)
            then (vault_id, vault\<lparr>vs_outer_epoch := ke_outer epoch,
                    vs_member_handle := an_member (ke_anchor epoch), vs_member_point := point,
                    vs_anchor := anchor_share (in_share member) (lr_identity r),
                    vs_member_map := commitments, vs_outer_map := omap\<rparr>)
            else (vault_id, vault)) (lr_vaults r')\<rparr>))"

end
