(* ===== verification/Ksnf_Leaf_Proofs.thy ===== *)
theory Ksnf_Leaf_Proofs
  imports Ksnf_Activation
begin

text \<open>
  What the operations of a registry do to its live attempt: the effect of each operation, the
  step relation over all of them, and the invariant of the live attempt.
\<close>

section \<open>Effects\<close>

definition leaf_issued :: "('s, 'g) leaf_registry \<Rightarrow> leaf_attempt \<Rightarrow> bool" where
  "leaf_issued r a \<longleftrightarrow> la_device a = lr_device r \<and> la_sequence a < lr_next_sequence r"

lemma leaf_is_closed_iff:
  "leaf_is_closed r a \<longleftrightarrow> leaf_issued r a \<and> leaf_live_attempt r \<noteq> Some a"
  by (auto simp: leaf_is_closed_def leaf_issued_def leaf_live_attempt_def split: option.splits)

text \<open>What stays of a live attempt, and the one stage that may be filled in.\<close>

definition fills :: "'a option \<Rightarrow> 'a option \<Rightarrow> bool" where
  "fills x y \<longleftrightarrow> x = None \<or> x = y"

lemma fills_simps [simp]: "fills x x" "fills None y" "fills (Some a) y \<longleftrightarrow> y = Some a"
  by (auto simp: fills_def)

lemma fills_trans: "fills x y \<Longrightarrow> fills y z \<Longrightarrow> fills x z"
  by (auto simp: fills_def)

definition live_advances :: "('s, 'g) live \<Rightarrow> ('s, 'g) live \<Rightarrow> bool" where
  "live_advances live live' \<longleftrightarrow>
     lv_attempt live' = lv_attempt live \<and> lv_session live' = lv_session live
     \<and> lv_vault live' = lv_vault live \<and> lv_expiry live' = lv_expiry live
     \<and> lv_reservation_bytes live' = lv_reservation_bytes live
     \<and> lv_response live' = lv_response live \<and> lv_reservation live' = lv_reservation live
     \<and> fills (lv_commit live) (lv_commit live') \<and> fills (lv_reveal live) (lv_reveal live')
     \<and> fills (lv_fixed live) (lv_fixed live')
     \<and> (lv_commit live = lv_commit live' \<and> lv_reveal live = lv_reveal live'
        \<or> lv_commit live = lv_commit live' \<and> lv_fixed live = lv_fixed live'
        \<or> lv_reveal live = lv_reveal live' \<and> lv_fixed live = lv_fixed live')"

lemma live_advances_refl [simp]: "live_advances live live"
  by (simp add: live_advances_def)

definition leaf_effect :: "('s, 'g) leaf_registry \<Rightarrow> ('s, 'g) leaf_registry \<Rightarrow> bool" where
  "leaf_effect r r' \<longleftrightarrow> r' = r
     \<or> (\<exists>live. lr_live r = Some live \<and> r' = r\<lparr>lr_live := None\<rparr>)
     \<or> (\<exists>live live'. lr_live r = Some live \<and> live_advances live live' \<and> r' = r\<lparr>lr_live := Some live'\<rparr>)"

lemma leaf_effect_refl [simp]: "leaf_effect r r"
  by (simp add: leaf_effect_def)

lemma leaf_effect_drop [simp]: "lr_live r = Some live \<Longrightarrow> leaf_effect r (r\<lparr>lr_live := None\<rparr>)"
  by (auto simp: leaf_effect_def)

lemma leaf_effect_advance:
  "lr_live r = Some live \<Longrightarrow> live_advances live live' \<Longrightarrow> leaf_effect r (r\<lparr>lr_live := Some live'\<rparr>)"
  unfolding leaf_effect_def by blast

lemma take_live_cases:
  obtains (refused) e where "take_live a r = (Inl e, r)"
  | (taken) live where "take_live a r = (Inr live, r\<lparr>lr_live := None\<rparr>)" "lr_live r = Some live"
      "lv_attempt live = a"
proof -
  have "(\<exists>e. take_live a r = (Inl e, r)) \<or> (\<exists>live. take_live a r = (Inr live, r\<lparr>lr_live := None\<rparr>)
      \<and> lr_live r = Some live \<and> lv_attempt live = a)"
    by (cases "lr_live r") (auto simp: take_live_def)
  with that show thesis by blast
qed

lemma take_live_live:
  "lr_live r = Some live \<Longrightarrow> lv_attempt live = a \<Longrightarrow> take_live a r = (Inr live, r\<lparr>lr_live := None\<rparr>)"
  by (simp add: take_live_def leaf_is_closed_def)

lemma leaf_commit_effect:
  assumes "leaf_commit P draw a bs r rng = Some ((res, r'), rng')"
  shows "leaf_effect r r'"
proof (cases rule: take_live_cases [of a r])
  case refused
  with assms show ?thesis by (simp add: leaf_commit_def)
next
  case (taken live)
  have adv: "leaf_effect r (r\<lparr>lr_live := Some (live\<lparr>lv_commit := Some c\<rparr>)\<rparr>)" if "lv_commit live = None" for c
    using taken(2) that by (intro leaf_effect_advance [of _ live]) (auto simp: live_advances_def)
  have same: "leaf_effect r (r\<lparr>lr_live := Some live\<rparr>)"
    using taken(2) by (intro leaf_effect_advance [of _ live]) auto
  show ?thesis
    using assms taken adv same
    by (auto simp: leaf_commit_def split: if_splits option.splits sum.splits prod.splits)
qed

lemma leaf_reveal_effect: "leaf_effect r (snd (leaf_reveal P a ds r))"
proof (cases rule: take_live_cases [of a r])
  case (taken live)
  have adv: "leaf_effect r (r\<lparr>lr_live := Some (live\<lparr>lv_reveal := Some c\<rparr>)\<rparr>)" if "lv_reveal live = None" for c
    using taken(2) that by (intro leaf_effect_advance [of _ live]) (auto simp: live_advances_def)
  have same: "leaf_effect r (r\<lparr>lr_live := Some live\<rparr>)"
    using taken(2) by (intro leaf_effect_advance [of _ live]) auto
  show ?thesis
    using taken adv same
    by (auto simp: leaf_reveal_def split: if_splits option.splits sum.splits prod.splits)
qed (simp add: leaf_reveal_def)

lemma leaf_fix_effect: "leaf_effect r (snd (leaf_fix P a ds r))"
proof (cases rule: take_live_cases [of a r])
  case (taken live)
  have adv: "leaf_effect r (r\<lparr>lr_live := Some (live\<lparr>lv_fixed := Some c\<rparr>)\<rparr>)" if "lv_fixed live = None" for c
    using taken(2) that by (intro leaf_effect_advance [of _ live]) (auto simp: live_advances_def)
  have same: "leaf_effect r (r\<lparr>lr_live := Some live\<rparr>)"
    using taken(2) by (intro leaf_effect_advance [of _ live]) auto
  show ?thesis
    using taken adv same
    by (auto simp: leaf_fix_def split: if_splits option.splits sum.splits prod.splits)
qed (simp add: leaf_fix_def)

lemma leaf_respond_with_effect: "leaf_effect r (snd (leaf_respond_with a mode f r))"
  by (cases rule: take_live_cases [of a r]) (auto simp: leaf_respond_with_def)

lemma leaf_close_effect: "leaf_effect r (snd (leaf_close a r))"
  by (auto simp: leaf_close_def split: option.splits)

lemma leaf_receive_abort_effect: "leaf_effect r (snd (leaf_receive_abort ab r))"
  by (cases rule: take_live_cases [of "ab_receiver ab" r]) (auto simp: leaf_receive_abort_def split: option.splits)

lemma leaf_close_expired_effect: "leaf_effect r (snd (leaf_close_expired now r))"
  by (auto simp: leaf_close_expired_def split: option.splits)

text \<open>A reservation in an idle registry is the one operation that issues an attempt.\<close>

lemma leaf_reserve_with_cases:
  obtains (kept) "leaf_effect r (snd (leaf_reserve_with P session now bs rb os parsed r))"
      "\<And>a. fst (leaf_reserve_with P session now bs rb os parsed r) = Inr a \<Longrightarrow> leaf_live_attempt r = Some a"
  | (issued) reservation expiry vault nxt where "lr_live r = None"
      "parsed = Inr (reservation, session, expiry)" "now < expiry"
      "validate_reservation P r reservation os = Inr vault"
      "checked_succ (lr_next_sequence r) = Some nxt"
      "leaf_reserve_with P session now bs rb os parsed r =
        (Inr \<lparr>la_device = lr_device r, la_sequence = lr_next_sequence r\<rparr>,
         r\<lparr>lr_next_sequence := nxt, lr_live := Some
           \<lparr>lv_attempt = \<lparr>la_device = lr_device r, la_sequence = lr_next_sequence r\<rparr>,
            lv_session = session, lv_vault = vault, lv_expiry = expiry, lv_reservation_bytes = bs,
            lv_response = rb, lv_reservation = Some reservation, lv_commit = None,
            lv_reveal = None, lv_fixed = None\<rparr>\<rparr>)"
proof (cases "lr_live r")
  case (Some live)
  then show ?thesis
    by (intro kept) (auto simp: leaf_reserve_with_def leaf_live_attempt_def split: if_splits)
next
  case None
  show ?thesis
  proof (cases "and_then parsed (\<lambda>(reservation, parsed_session, expiry).
      if parsed_session \<noteq> session then Inl InvalidTranscript
      else if expiry \<le> now then Inl Expired
      else and_then (validate_reservation P r reservation os) (\<lambda>vault.
        Inr (reservation, expiry, vault)))")
    case (Inl e)
    with None show ?thesis by (intro kept) (simp_all add: leaf_reserve_with_def)
  next
    case (Inr x)
    then obtain reservation expiry vault where x: "x = (reservation, expiry, vault)"
      "parsed = Inr (reservation, session, expiry)" "now < expiry"
      "validate_reservation P r reservation os = Inr vault"
      by (auto simp: and_then_Inr_iff if_Inl_eq_Inr not_le)
    show ?thesis
    proof (cases "checked_succ (lr_next_sequence r)")
      case None
      with \<open>lr_live r = None\<close> Inr x(1) show ?thesis
        by (intro kept) (simp_all add: leaf_reserve_with_def issue_attempt_def)
    next
      case (Some nxt)
      with None Inr x show ?thesis
        by (intro issued [of reservation expiry vault nxt])
          (simp_all add: leaf_reserve_with_def issue_attempt_def)
    qed
  qed
qed

section \<open>Activation keeps the attempts\<close>

text \<open>The map writes of an activation keep the vault identifiers and their order.\<close>

lemma inner_bundle_install_length:
  assumes "inner_bundle_install P r identity members = Inr (imap, inner, anchors)"
  shows "length anchors = length (lr_vaults r)" "length members = length (lr_vaults r)"
  using assms
  by (auto simp: inner_bundle_install_def Let_def and_then_Inr_iff if_Inl_eq_Inr
      dest!: collect_results_length)

lemma activate_inner_bundle_cases:
  obtains (refused) e where "leaf_activate_inner_bundle P identity members r = (Inl e, r)"
  | (installed) imap inner anchors where
      "inner_bundle_install P r identity members = Inr (imap, inner, anchors)"
      "leaf_activate_inner_bundle P identity members r = (Inr (), r\<lparr>lr_live := None,
         lr_identity := in_share identity, lr_identity_map := imap, lr_inner_epoch := inner,
         lr_identity_handle := in_handle identity,
         lr_vaults := map (\<lambda>((vault_id, vault), (anchor, commitments)).
           (vault_id, vault\<lparr>vs_anchor := anchor, vs_member_handle := in_handle identity,
                            vs_member_map := commitments\<rparr>)) (zip (lr_vaults r) anchors)\<rparr>)"
proof (cases "inner_bundle_install P r identity members")
  case (Inl e)
  then show thesis by (intro refused) (simp add: leaf_activate_inner_bundle_def)
next
  case (Inr x)
  then show thesis
    by (cases x) (auto simp: leaf_activate_inner_bundle_def intro: installed)
qed

lemma activate_inner_bundle_frame:
  "let r' = snd (leaf_activate_inner_bundle P identity members r) in
   (r' = r \<or> lr_live r' = None) \<and> lr_device r' = lr_device r \<and> lr_person r' = lr_person r
   \<and> lr_node r' = lr_node r \<and> lr_identity_key r' = lr_identity_key r
   \<and> lr_next_sequence r' = lr_next_sequence r \<and> map fst (lr_vaults r') = map fst (lr_vaults r)"
proof (cases rule: activate_inner_bundle_cases [of P identity members r])
  case (installed imap inner anchors)
  have "map fst (map (\<lambda>((vault_id, vault), (anchor, commitments)).
      (vault_id, f vault anchor commitments)) (zip vs anchors')) = map fst vs"
    if "length vs = length anchors'" for f vs anchors'
    using that by (induction vs anchors' rule: list_induct2) auto
  from this [of "lr_vaults r" anchors] inner_bundle_install_length [OF installed(1)] installed(2)
  show ?thesis by (simp add: Let_def)
qed simp

lemma close_vault_live_effect: "leaf_effect r (close_vault_live v r)"
  by (auto simp: close_vault_live_def split: option.splits)

lemma close_vault_live_fields [simp]:
  "lr_device (close_vault_live v r) = lr_device r" "lr_person (close_vault_live v r) = lr_person r"
  "lr_node (close_vault_live v r) = lr_node r"
  "lr_identity_key (close_vault_live v r) = lr_identity_key r"
  "lr_identity (close_vault_live v r) = lr_identity r"
  "lr_identity_map (close_vault_live v r) = lr_identity_map r"
  "lr_inner_epoch (close_vault_live v r) = lr_inner_epoch r"
  "lr_identity_handle (close_vault_live v r) = lr_identity_handle r"
  "lr_next_sequence (close_vault_live v r) = lr_next_sequence r"
  "lr_vaults (close_vault_live v r) = lr_vaults r"
  by (simp_all add: close_vault_live_def split: option.splits)

lemma activate_outer_frame:
  "let r' = snd (leaf_activate_outer P epoch member r) in
   (lr_live r' = lr_live r \<or> lr_live r' = None) \<and> lr_device r' = lr_device r
   \<and> lr_person r' = lr_person r \<and> lr_node r' = lr_node r \<and> lr_identity_key r' = lr_identity_key r
   \<and> lr_next_sequence r' = lr_next_sequence r \<and> map fst (lr_vaults r') = map fst (lr_vaults r)"
  by (auto simp: leaf_activate_outer_def close_vault_live_def Let_def comp_def case_prod_beta'
      split: sum.splits option.splits)

lemma add_vault_cases:
  obtains (refused) e where "leaf_add_vault P parts epoch r = (Inl e, r)"
  | (added) "lr_live r = None" "map_of (lr_vaults r) (dg_vault parts) = None"
      "validate_genesis_epoch parts epoch = Inr ()" "dg_device parts = lr_device r"
      "dg_person parts = lr_person r" "dg_node parts = lr_node r"
      "dg_identity_map parts = lr_identity_map r" "dg_identity_key parts = lr_identity_key r"
      "element_from_scalar P (dg_identity parts) = element_from_scalar P (lr_identity r)"
      "leaf_add_vault P parts epoch r = (Inr (), r\<lparr>lr_vaults :=
         bt_insert (dg_vault parts) (genesis_vault_state parts epoch) (lr_vaults r)\<rparr>)"
proof -
  have "(\<exists>e. leaf_add_vault P parts epoch r = (Inl e, r)) \<or>
    (lr_live r = None \<and> map_of (lr_vaults r) (dg_vault parts) = None
      \<and> validate_genesis_epoch parts epoch = Inr () \<and> dg_device parts = lr_device r
      \<and> dg_person parts = lr_person r \<and> dg_node parts = lr_node r
      \<and> dg_identity_map parts = lr_identity_map r \<and> dg_identity_key parts = lr_identity_key r
      \<and> element_from_scalar P (dg_identity parts) = element_from_scalar P (lr_identity r)
      \<and> leaf_add_vault P parts epoch r = (Inr (), r\<lparr>lr_vaults :=
         bt_insert (dg_vault parts) (genesis_vault_state parts epoch) (lr_vaults r)\<rparr>))"
    by (auto simp: leaf_add_vault_def split: sum.splits)
  then show thesis
    by (elim disjE exE conjE) (rule refused, assumption, rule added, assumption+)
qed

section \<open>Steps and runs\<close>

text \<open>
  Every operation of the registry is a step; a response the operation returned is its event. The
  reservation parser and the response function are arbitrary, so the steps cover the Taproot
  entry points, which pass others.
\<close>

inductive leaf_step ::
  "('s::field, 'g::ab_group_add) profile \<Rightarrow> ('r \<Rightarrow> 's \<times> 'r) \<Rightarrow> ('s, 'g) leaf_registry
     \<Rightarrow> (leaf_attempt \<times> 's device_response) option \<Rightarrow> ('s, 'g) leaf_registry \<Rightarrow> bool"
  for P :: "('s::field, 'g::ab_group_add) profile" and draw :: "'r \<Rightarrow> 's \<times> 'r" where
  step_add_vault: "leaf_add_vault P parts epoch r = (res, r') \<Longrightarrow> leaf_step P draw r None r'"
| step_reserve: "leaf_reserve_with P session now bs rb os parsed r = (res, r') \<Longrightarrow>
    leaf_step P draw r None r'"
| step_commit: "leaf_commit P draw a bs r rng = Some ((res, r'), rng') \<Longrightarrow> leaf_step P draw r None r'"
| step_reveal: "leaf_reveal P a cs r = (res, r') \<Longrightarrow> leaf_step P draw r None r'"
| step_fix: "leaf_fix P a os r = (res, r') \<Longrightarrow> leaf_step P draw r None r'"
| step_refused: "leaf_respond_with a mode f r = (Inl e :: 's device_response result, r') \<Longrightarrow> leaf_step P draw r None r'"
| step_respond: "leaf_respond_with a mode f r = (Inr x, r') \<Longrightarrow> leaf_step P draw r (Some (a, x)) r'"
| step_close: "leaf_close a r = (res, r') \<Longrightarrow> leaf_step P draw r None r'"
| step_abort: "leaf_receive_abort ab r = (res, r') \<Longrightarrow> leaf_step P draw r None r'"
| step_expire: "leaf_close_expired now r = (res, r') \<Longrightarrow> leaf_step P draw r None r'"
| step_activate_inner: "leaf_activate_inner_bundle P identity members r = (res, r') \<Longrightarrow>
    leaf_step P draw r None r'"
| step_activate_outer: "leaf_activate_outer P epoch member r = (res, r') \<Longrightarrow>
    leaf_step P draw r None r'"

inductive leaf_run ::
  "('s::field, 'g::ab_group_add) profile \<Rightarrow> ('r \<Rightarrow> 's \<times> 'r) \<Rightarrow> ('s, 'g) leaf_registry
     \<Rightarrow> (leaf_attempt \<times> 's device_response) list \<Rightarrow> ('s, 'g) leaf_registry \<Rightarrow> bool"
  for P :: "('s::field, 'g::ab_group_add) profile" and draw :: "'r \<Rightarrow> 's \<times> 'r" where
  run_refl: "leaf_run P draw r [] r"
| run_silent: "leaf_run P draw r es r' \<Longrightarrow> leaf_step P draw r' None r'' \<Longrightarrow> leaf_run P draw r es r''"
| run_event: "leaf_run P draw r es r' \<Longrightarrow> leaf_step P draw r' (Some e) r'' \<Longrightarrow>
    leaf_run P draw r (es @ [e]) r''"

lemma leaf_run_trans:
  "leaf_run P draw r' fs r'' \<Longrightarrow> leaf_run P draw r es r' \<Longrightarrow> leaf_run P draw r (es @ fs) r''"
  by (induction rule: leaf_run.induct) (auto intro: run_silent run_event simp flip: append_assoc)

lemmas leaf_steps = step_add_vault step_reserve step_commit step_reveal step_fix step_refused
  step_respond step_close step_abort step_expire step_activate_inner step_activate_outer

section \<open>Closure\<close>

definition leaf_progress :: "('s, 'g) leaf_registry \<Rightarrow> ('s, 'g) leaf_registry \<Rightarrow> bool" where
  "leaf_progress r r' \<longleftrightarrow> lr_device r' = lr_device r \<and> lr_next_sequence r \<le> lr_next_sequence r'
     \<and> (\<forall>a. leaf_live_attempt r' = Some a \<longrightarrow> leaf_live_attempt r = Some a \<or> \<not> leaf_issued r a)"

lemma leaf_progress_refl [simp]: "leaf_progress r r"
  by (simp add: leaf_progress_def)

lemma leaf_effect_progress: "leaf_effect r r' \<Longrightarrow> leaf_progress r r'"
  by (auto simp: leaf_effect_def leaf_progress_def leaf_live_attempt_def live_advances_def)

lemma leaf_issued_mono: "leaf_progress r r' \<Longrightarrow> leaf_issued r a \<Longrightarrow> leaf_issued r' a"
  by (auto simp: leaf_progress_def leaf_issued_def)

lemma leaf_progress_trans: "leaf_progress r r' \<Longrightarrow> leaf_progress r' r'' \<Longrightarrow> leaf_progress r r''"
  using leaf_issued_mono [of r r'] unfolding leaf_progress_def by (metis order_trans)

lemma leaf_step_progress: "leaf_step P draw r e r' \<Longrightarrow> leaf_progress r r'"
proof (induction rule: leaf_step.induct)
  case (step_add_vault parts epoch r res r')
  then show ?case
    by (cases rule: add_vault_cases [of P parts epoch r])
      (auto simp: leaf_progress_def leaf_live_attempt_def)
next
  case (step_reserve session now bs rb os parsed r res r')
  show ?case
  proof (cases rule: leaf_reserve_with_cases [of r P session now bs rb os parsed])
    case kept
    with step_reserve show ?thesis by (auto intro: leaf_effect_progress)
  next
    case (issued reservation expiry vault nxt)
    from checked_succ_less [OF issued(5)] issued(1,6) step_reserve show ?thesis
      by (auto simp: leaf_progress_def leaf_live_attempt_def leaf_issued_def)
  qed
next
  case (step_activate_inner identity members r res r')
  then show ?case
    using activate_inner_bundle_frame [of P identity members r]
    by (auto simp: Let_def leaf_progress_def leaf_live_attempt_def)
next
  case (step_activate_outer epoch member r res r')
  then show ?case
    using activate_outer_frame [of P epoch member r]
    by (auto simp: Let_def leaf_progress_def leaf_live_attempt_def)
qed (metis leaf_effect_progress snd_conv leaf_commit_effect leaf_reveal_effect leaf_fix_effect
    leaf_respond_with_effect leaf_close_effect leaf_receive_abort_effect leaf_close_expired_effect)+

lemma leaf_run_progress: "leaf_run P draw r es r' \<Longrightarrow> leaf_progress r r'"
  by (induction rule: leaf_run.induct) (auto intro: leaf_progress_trans leaf_step_progress)

lemma leaf_closed_mono: "leaf_progress r r' \<Longrightarrow> leaf_is_closed r a \<Longrightarrow> leaf_is_closed r' a"
  by (auto simp: leaf_is_closed_iff leaf_progress_def leaf_issued_def)

section \<open>The invariant of the live attempt\<close>

text \<open>
  The live attempt is the last one issued, its vault is installed, and its stages are filled in
  order: the commitment opens to the nonce that is kept, the held view carries it, and the fixed
  openings open the commitments of the held view.
\<close>

definition commit_inv ::
  "('s::field, 'g::ab_group_add) profile \<Rightarrow> ('s, 'g) live \<Rightarrow> ('s, 'g) commit_state \<Rightarrow> bool" where
  "commit_inv P live c \<longleftrightarrow> (\<exists>n. ct_nonce c = Some n \<and> nonce_commitments P n = Inr (ct_pair c))
     \<and> nonce_commitment P (lv_attempt live) (lv_reservation_bytes live) (ct_pair c) =
        Inr (ct_commitment c)"

definition reveal_inv :: "('s, 'g) live \<Rightarrow> ('s, 'g) commit_state \<Rightarrow> ('s, 'g) reveal_state \<Rightarrow> bool" where
  "reveal_inv live c v \<longleftrightarrow> rl_viewed_pair v = ct_pair c
     \<and> cw_receiver (rl_view v) = lv_attempt live \<and> cw_session (rl_view v) = lv_session live
     \<and> cw_reservation (rl_view v) = lv_reservation_bytes live
     \<and> view_commitment (rl_view v) (lv_attempt live) = Inr (ct_commitment c)"

definition fixed_inv ::
  "('s::field, 'g::ab_group_add) profile \<Rightarrow> ('s, 'g) live \<Rightarrow> ('s, 'g) reveal_state
     \<Rightarrow> 'g fixed_state \<Rightarrow> bool" where
  "fixed_inv P live v f \<longleftrightarrow>
     (\<exists>reservation. lv_reservation live = Some reservation
        \<and> nonce_set_ok (bd_inner (op_body (rv_opening reservation))) (fx_nonces f))
     \<and> (\<forall>e \<in> set (dns_entries (fx_nonces f)). \<exists>c.
          nonce_commitment P (dn_attempt e) (lv_reservation_bytes live) (dn_nonce e) = Inr c
          \<and> view_commitment (rl_view v) (dn_attempt e) = Inr c)"

definition live_inv ::
  "('s::field, 'g::ab_group_add) profile \<Rightarrow> ('s, 'g) leaf_registry \<Rightarrow> ('s, 'g) live \<Rightarrow> bool" where
  "live_inv P r live \<longleftrightarrow> la_device (lv_attempt live) = lr_device r
     \<and> checked_succ (la_sequence (lv_attempt live)) = Some (lr_next_sequence r)
     \<and> lv_vault live \<in> fst ` set (lr_vaults r)
     \<and> lv_reservation live \<noteq> None
     \<and> (\<forall>c. lv_commit live = Some c \<longrightarrow> commit_inv P live c)
     \<and> (\<forall>v. lv_reveal live = Some v \<longrightarrow> (\<exists>c. lv_commit live = Some c \<and> reveal_inv live c v))
     \<and> (\<forall>f. lv_fixed live = Some f \<longrightarrow> (\<exists>v. lv_reveal live = Some v \<and> fixed_inv P live v f))"

definition leaf_inv ::
  "('s::field, 'g::ab_group_add) profile \<Rightarrow> ('s, 'g) leaf_registry \<Rightarrow> bool" where
  "leaf_inv P r \<longleftrightarrow> bt_sorted (lr_vaults r)
     \<and> (\<forall>live. lr_live r = Some live \<longrightarrow> live_inv P r live)"

lemma leaf_inv_live: "leaf_inv P r \<Longrightarrow> lr_live r = Some live \<Longrightarrow> live_inv P r live"
  by (simp add: leaf_inv_def)

lemma leaf_inv_drop [simp]: "leaf_inv P r \<Longrightarrow> leaf_inv P (r\<lparr>lr_live := None\<rparr>)"
  by (simp add: leaf_inv_def)

lemma leaf_inv_put:
  "leaf_inv P r \<Longrightarrow> live_inv P r live \<Longrightarrow> leaf_inv P (r\<lparr>lr_live := Some live\<rparr>)"
  by (simp add: leaf_inv_def live_inv_def)

lemma leaf_inv_issued: "leaf_inv P r \<Longrightarrow> leaf_live_attempt r = Some a \<Longrightarrow> leaf_issued r a"
  by (auto simp: leaf_inv_def leaf_live_attempt_def live_inv_def leaf_issued_def
      dest!: checked_succ_less)

lemma leaf_new_inv: "leaf_new parts epoch = Inr r \<Longrightarrow> leaf_inv P r"
  by (auto simp: leaf_new_def leaf_inv_def and_then_Inr_iff)

lemma leaf_inv_add_vault:
  assumes "leaf_inv P r" "leaf_add_vault P parts epoch r = (res, r')"
  shows "leaf_inv P r'"
proof (cases rule: add_vault_cases [of P parts epoch r])
  case refused
  with assms show ?thesis by simp
next
  case added
  with assms show ?thesis by (auto simp: leaf_inv_def bt_insert_sorted)
qed

lemma validate_reservation_vault:
  "validate_reservation P r reservation os = Inr vault \<Longrightarrow> vault \<in> fst ` set (lr_vaults r)"
  by (auto simp: validate_reservation_def Let_def result_simps dest!: map_of_SomeD intro: rev_image_eqI)

lemma leaf_inv_reserve:
  assumes "leaf_inv P r" "leaf_reserve_with P session now bs rb os parsed r = (res, r')"
  shows "leaf_inv P r'"
proof (cases rule: leaf_reserve_with_cases [of r P session now bs rb os parsed])
  case kept
  with assms have "leaf_effect r r'" by simp
  show ?thesis
  proof (cases "lr_live r")
    case None
    with \<open>leaf_effect r r'\<close> assms(1) show ?thesis by (auto simp: leaf_effect_def)
  next
    case (Some live)
    with assms show ?thesis by (auto simp: leaf_reserve_with_def split: if_splits)
  qed
next
  case (issued reservation expiry vault nxt)
  from issued(6) assms(2) have "r' = snd (leaf_reserve_with P session now bs rb os parsed r)" by simp
  then show ?thesis
    unfolding issued(6) using assms(1) issued(5) validate_reservation_vault [OF issued(4)]
    by (simp add: leaf_inv_def live_inv_def)
qed

lemma leaf_inv_commit:
  assumes "leaf_inv P r" "leaf_commit P draw a bs r rng = Some ((res, r'), rng')"
  shows "leaf_inv P r'"
proof (cases rule: take_live_cases [of a r])
  case refused
  with assms show ?thesis by (simp add: leaf_commit_def)
next
  case (taken live)
  note inv = leaf_inv_live [OF assms(1) taken(2)]
  have put: "leaf_inv P (r\<lparr>lr_live := Some (live\<lparr>lv_commit := Some
      \<lparr>ct_nonce = Some n, ct_pair = pair, ct_commitment = c\<rparr>\<rparr>)\<rparr>)"
    if "lv_commit live = None" "nonce_commitments P n = Inr pair"
      "nonce_commitment P a (lv_reservation_bytes live) pair = Inr c" for n pair c
    using that inv taken(3)
    by (intro leaf_inv_put [OF assms(1)]) (auto simp: live_inv_def commit_inv_def)
  have same: "leaf_inv P (r\<lparr>lr_live := Some live\<rparr>)" by (rule leaf_inv_put [OF assms(1) inv])
  show ?thesis
    using assms taken put same
    by (auto simp: leaf_commit_def and_then_Inr_iff
        split: if_splits option.splits sum.splits prod.splits)
qed

lemma leaf_inv_reveal:
  assumes "leaf_inv P r" "leaf_reveal P a ds r = (res, r')"
  shows "leaf_inv P r'"
proof (cases rule: take_live_cases [of a r])
  case refused
  with assms show ?thesis by (simp add: leaf_reveal_def)
next
  case (taken live)
  note inv = leaf_inv_live [OF assms(1) taken(2)]
  have put: "leaf_inv P (r\<lparr>lr_live := Some (live\<lparr>lv_reveal := Some
      \<lparr>rl_bytes = b, rl_view = view, rl_viewed_pair = ct_pair c\<rparr>\<rparr>)\<rparr>)"
    if "lv_reveal live = None" "lv_commit live = Some c" "cw_receiver view = a"
      "cw_session view = lv_session live" "cw_reservation view = lv_reservation_bytes live"
      "view_commitment view a = Inr (ct_commitment c)" for b view c
    using that inv taken(3)
    by (intro leaf_inv_put [OF assms(1)]) (auto simp: live_inv_def commit_inv_def reveal_inv_def)
  have same: "leaf_inv P (r\<lparr>lr_live := Some live\<rparr>)" by (rule leaf_inv_put [OF assms(1) inv])
  show ?thesis
    using assms taken put same
    by (auto simp: leaf_reveal_def split: if_splits option.splits sum.splits prod.splits)
qed

lemma opening_view_verify_Inr:
  "opening_view_verify P view cv support = Inr nonces \<Longrightarrow>
     ow_reservation view = cw_reservation cv
     \<and> (\<forall>e \<in> set (ow_entries view). \<exists>c. nonce_commitment P (dn_attempt e) (ow_reservation view)
          (dn_nonce e) = Inr c \<and> view_commitment cv (dn_attempt e) = Inr c)
     \<and> device_nonce_set_new support (ow_entries view) = Inr nonces"
  by (auto simp: opening_view_verify_def and_then_Inr_iff if_Inl_eq_Inr collect_results_Inr_iff
      list_all2_conv_all_nth in_set_conv_nth)

lemma leaf_inv_fix:
  assumes "leaf_inv P r" "leaf_fix P a ds r = (res, r')"
  shows "leaf_inv P r'"
proof (cases rule: take_live_cases [of a r])
  case refused
  with assms show ?thesis by (simp add: leaf_fix_def)
next
  case (taken live)
  note inv = leaf_inv_live [OF assms(1) taken(2)]
  have put: "leaf_inv P (r\<lparr>lr_live := Some (live\<lparr>lv_fixed := Some
      \<lparr>fx_bytes = b, fx_nonces = nonces\<rparr>\<rparr>)\<rparr>)"
    if "lv_fixed live = None" "lv_reveal live = Some v" "lv_reservation live = Some reservation"
      "ow_reservation view = lv_reservation_bytes live"
      "opening_view_verify P view (rl_view v) (bd_inner (op_body (rv_opening reservation))) = Inr nonces"
    for b v reservation view nonces
  proof (rule leaf_inv_put [OF assms(1)])
    note ver = opening_view_verify_Inr [OF that(5)]
    then have "nonce_set_ok (bd_inner (op_body (rv_opening reservation))) nonces
        \<and> dns_entries nonces = sort_key dn_device (ow_entries view)"
      by (intro device_nonce_set_new_Inr) blast
    with ver that have "fixed_inv P live v \<lparr>fx_bytes = b, fx_nonces = nonces\<rparr>"
      by (auto simp: fixed_inv_def)
    with that inv taken(3) show "live_inv P r (live\<lparr>lv_fixed := Some
        \<lparr>fx_bytes = b, fx_nonces = nonces\<rparr>\<rparr>)"
      by (auto simp: live_inv_def commit_inv_def reveal_inv_def fixed_inv_def)
  qed
  have same: "leaf_inv P (r\<lparr>lr_live := Some live\<rparr>)" by (rule leaf_inv_put [OF assms(1) inv])
  show ?thesis
    using assms taken same
    by (auto simp: leaf_fix_def and_then_Inr_iff ok_or_Inr_iff intro!: put
        split: if_splits option.splits sum.splits prod.splits)
qed

text \<open>The remaining operations only drop the live attempt or write the maps.\<close>

lemma leaf_respond_with_cases:
  "snd (leaf_respond_with a mode f r) = r \<or> snd (leaf_respond_with a mode f r) = r\<lparr>lr_live := None\<rparr>"
  by (cases rule: take_live_cases [of a r]) (auto simp: leaf_respond_with_def)

lemma leaf_receive_abort_cases:
  "snd (leaf_receive_abort ab r) = r \<or> snd (leaf_receive_abort ab r) = r\<lparr>lr_live := None\<rparr>"
  by (cases rule: take_live_cases [of "ab_receiver ab" r])
     (auto simp: leaf_receive_abort_def split: option.splits)

lemma leaf_inv_maps:
  assumes "leaf_inv P r" "lr_live r' = lr_live r \<or> lr_live r' = None" "lr_device r' = lr_device r"
    and "lr_next_sequence r' = lr_next_sequence r" "map fst (lr_vaults r') = map fst (lr_vaults r)"
  shows "leaf_inv P r'"
proof -
  have "fst ` set (lr_vaults r') = fst ` set (lr_vaults r)" using assms(5) by (metis set_map)
  with assms show ?thesis by (auto simp: leaf_inv_def live_inv_def)
qed

lemma leaf_step_inv: "leaf_step P draw r e r' \<Longrightarrow> leaf_inv P r \<Longrightarrow> leaf_inv P r'"
proof (induction rule: leaf_step.induct)
  case (step_activate_inner identity members r res r')
  then show ?case
    using activate_inner_bundle_frame [of P identity members r]
    by (auto simp: Let_def intro: leaf_inv_maps [of P r])
next
  case (step_activate_outer epoch member r res r')
  then show ?case
    using activate_outer_frame [of P epoch member r]
    by (auto simp: Let_def intro: leaf_inv_maps [of P r])
next
  case (step_refused a mode f r e r')
  then show ?case using leaf_respond_with_cases [of a mode f r] by auto
next
  case (step_respond a mode f r x r')
  then show ?case using leaf_respond_with_cases [of a mode f r] by auto
next
  case (step_abort ab r res r')
  then show ?case using leaf_receive_abort_cases [of ab r] by auto
next
  case (step_close a r res r')
  then show ?case by (auto simp: leaf_close_def split: if_splits option.splits)
next
  case (step_expire now r res r')
  then show ?case by (auto simp: leaf_close_expired_def split: if_splits option.splits)
qed (blast intro: leaf_inv_add_vault leaf_inv_reserve leaf_inv_commit leaf_inv_reveal leaf_inv_fix)+

lemma leaf_run_inv: "leaf_run P draw r es r' \<Longrightarrow> leaf_inv P r \<Longrightarrow> leaf_inv P r'"
  by (induction rule: leaf_run.induct) (auto intro: leaf_step_inv)
section \<open>Responding\<close>

lemma respond_closed: "leaf_is_closed r a \<Longrightarrow> leaf_respond_with a mode f r = (Inl AttemptClosed, r)"
  by (simp add: leaf_respond_with_def take_live_def)

lemma respond_live:
  "leaf_live_attempt r = Some a \<Longrightarrow> \<exists>res. leaf_respond_with a mode f r = (res, r\<lparr>lr_live := None\<rparr>)"
  by (auto simp: leaf_live_attempt_def leaf_respond_with_def take_live_live)

lemma respond_Inr:
  assumes "leaf_respond_with a mode f r = (Inr x, r')"
  shows "\<exists>live fixed commit nonce reservation vault. lr_live r = Some live \<and> lv_attempt live = a
    \<and> r' = r\<lparr>lr_live := None\<rparr> \<and> rb_mode (lv_response live) = mode
    \<and> lv_fixed live = Some fixed \<and> lv_commit live = Some commit \<and> ct_nonce commit = Some nonce
    \<and> lv_reservation live = Some reservation \<and> map_of (lr_vaults r) (lv_vault live) = Some vault
    \<and> f \<lparr>ri_nonce = nonce, ri_reservation = reservation, ri_nonces = fx_nonces fixed,
         ri_device = lr_device r, ri_share = signing_share (lr_identity r) (vs_anchor vault),
         ri_session = lv_session live, ri_expiry = lv_expiry live\<rparr> (lv_reservation_bytes live) = Inr x"
proof (cases rule: take_live_cases [of a r])
  case refused
  with assms show ?thesis by (simp add: leaf_respond_with_def)
next
  case (taken live)
  with assms show ?thesis
    by (auto simp: leaf_respond_with_def and_then_Inr_iff if_Inl_eq_Inr ok_or_Inr_iff)
qed

lemma leaf_run_responses:
  assumes "leaf_run P draw r es r'" "leaf_inv P r"
  shows "leaf_inv P r' \<and> distinct (map fst es) \<and> (\<forall>a \<in> fst ` set es. leaf_is_closed r' a)"
  using assms
proof (induction rule: leaf_run.induct)
  case (run_silent r es r' r'')
  then show ?case
    using leaf_step_inv leaf_closed_mono [OF leaf_step_progress] by blast
next
  case (run_event r es r' e r'')
  then have inv: "leaf_inv P r'" and dist: "distinct (map fst es)"
    and closed: "\<forall>a \<in> fst ` set es. leaf_is_closed r' a" by auto
  from run_event.hyps(2) obtain mode f where step: "leaf_respond_with (fst e) mode f r' = (Inr (snd e), r'')"
    by (auto elim: leaf_step.cases)
  from respond_Inr [OF step] have live: "leaf_live_attempt r' = Some (fst e)"
    and r'': "r'' = r'\<lparr>lr_live := None\<rparr>" by (auto simp: leaf_live_attempt_def)
  have "leaf_is_closed r'' (fst e)"
    using leaf_inv_issued [OF inv live]
    by (simp add: r'' leaf_is_closed_iff leaf_issued_def leaf_live_attempt_def)
  moreover have "\<not> leaf_is_closed r' (fst e)" using live by (simp add: leaf_is_closed_iff)
  then have "fst e \<notin> fst ` set es" using closed by blast
  ultimately show ?case
    using leaf_step_inv [OF run_event.hyps(2) inv] dist closed
      leaf_closed_mono [OF leaf_step_progress [OF run_event.hyps(2)]] by auto
qed simp

section \<open>Replays\<close>

lemma take_live_put:
  "lv_attempt live = a \<Longrightarrow> take_live a (r\<lparr>lr_live := Some live\<rparr>) = (Inr live, r\<lparr>lr_live := None\<rparr>)"
  by (simp add: take_live_def leaf_is_closed_def)

lemma commit_Inr:
  assumes "leaf_commit P draw a bs r rng = Some ((Inr c, r'), rng')"
  shows "\<exists>live st. r' = r\<lparr>lr_live := Some live\<rparr> \<and> lv_attempt live = a \<and> lv_reservation_bytes live = bs
    \<and> lv_commit live = Some st \<and> ct_commitment st = c"
proof (cases rule: take_live_cases [of a r])
  case refused
  with assms show ?thesis by (simp add: leaf_commit_def)
next
  case (taken live)
  show ?thesis
  proof (cases "lv_commit live")
    case (Some st)
    with assms taken show ?thesis
      by (intro exI [of _ live] exI [of _ st]) (auto simp: leaf_commit_def split: if_splits)
  next
    case None
    with assms taken obtain n rng1 where "nonce_sample draw rng = Some (n, rng1)"
      by (auto simp: leaf_commit_def split: if_splits option.splits)
    with None assms taken show ?thesis
      by (auto simp: leaf_commit_def split: if_splits sum.splits)
  qed
qed

lemma commit_replay:
  assumes "leaf_commit P draw a bs r rng = Some ((Inr c, r'), rng')"
  shows "leaf_commit P draw' a bs r' rng'' = Some ((Inr c, r'), rng'')"
proof -
  from commit_Inr [OF assms] obtain live st where "r' = r\<lparr>lr_live := Some live\<rparr>" "lv_attempt live = a"
    "lv_reservation_bytes live = bs" "lv_commit live = Some st" "ct_commitment st = c" by blast
  then show ?thesis by (simp add: leaf_commit_def take_live_put)
qed

text \<open>The view a live attempt makes of its deliveries, with its bytes.\<close>

definition held_view ::
  "('s, 'g) profile \<Rightarrow> ('s, 'g) live \<Rightarrow> 's authenticated_commitment list
     \<Rightarrow> ('s commitment_view \<times> bytes) result" where
  "held_view P live deliveries =
     and_then (ok_or WrongStage (lv_reservation live)) (\<lambda>reservation.
     and_then (commitment_view_new (bd_inner (op_body (rv_opening reservation))) deliveries)
     (\<lambda>view. and_then (commitment_view_to_bytes P view) (\<lambda>bs. Inr (view, bs))))"

definition fixed_view ::
  "('s, 'g) profile \<Rightarrow> ('s, 'g) live \<Rightarrow> 'g authenticated_opening list
     \<Rightarrow> ('g opening_view \<times> bytes) result" where
  "fixed_view P live deliveries =
     and_then (ok_or WrongStage (lv_reservation live)) (\<lambda>reservation.
     and_then (opening_view_new (bd_inner (op_body (rv_opening reservation))) deliveries)
     (\<lambda>view. and_then (opening_view_to_bytes P view) (\<lambda>bs. Inr (view, bs))))"

lemma reveal_Inr:
  assumes "leaf_reveal P a ds r = (Inr pair, r')"
  shows "\<exists>live v view. r' = r\<lparr>lr_live := Some live\<rparr> \<and> lv_attempt live = a
    \<and> held_view P live ds = Inr (view, rl_bytes v) \<and> lv_reveal live = Some v
    \<and> rl_viewed_pair v = pair"
proof (cases rule: take_live_cases [of a r])
  case refused
  with assms show ?thesis by (simp add: leaf_reveal_def)
next
  case (taken live)
  have r: "r\<lparr>lr_live := Some live\<rparr> = r" using taken(2) by simp
  note step = assms [unfolded leaf_reveal_def taken(1) prod.case sum.case, folded held_view_def]
  then obtain view bs where view: "held_view P live ds = Inr (view, bs)"
    by (auto split: sum.splits)
  show ?thesis
  proof (cases "lv_reveal live")
    case (Some v)
    with step view taken(3) show ?thesis
      by (intro exI [of _ live] exI [of _ v] exI [of _ view]) (auto split: if_splits)
  next
    case None
    with step view obtain c where c: "lv_commit live = Some c" "pair = ct_pair c"
      "r' = r\<lparr>lr_live := Some (live\<lparr>lv_reveal := Some
        \<lparr>rl_bytes = bs, rl_view = view, rl_viewed_pair = ct_pair c\<rparr>\<rparr>)\<rparr>"
      by (auto split: if_splits option.splits sum.splits)
    with view taken(3) show ?thesis by (auto simp: held_view_def)
  qed
qed

lemma reveal_replay:
  assumes "leaf_reveal P a ds r = (Inr pair, r')"
  shows "leaf_reveal P a ds r' = (Inr pair, r')"
proof -
  from reveal_Inr [OF assms] obtain live v view where "r' = r\<lparr>lr_live := Some live\<rparr>"
    "lv_attempt live = a" "held_view P live ds = Inr (view, rl_bytes v)" "lv_reveal live = Some v"
    "rl_viewed_pair v = pair" by blast
  then show ?thesis by (simp add: leaf_reveal_def take_live_put flip: held_view_def)
qed

lemma fix_Inr:
  assumes "leaf_fix P a ds r = (Inr pair, r')"
  shows "\<exists>live f view. r' = r\<lparr>lr_live := Some live\<rparr> \<and> lv_attempt live = a
    \<and> fixed_view P live ds = Inr (view, fx_bytes f) \<and> lv_fixed live = Some f
    \<and> dns_aggregate (fx_nonces f) = pair"
proof (cases rule: take_live_cases [of a r])
  case refused
  with assms show ?thesis by (simp add: leaf_fix_def)
next
  case (taken live)
  note step = assms [unfolded leaf_fix_def taken(1) prod.case sum.case, folded fixed_view_def]
  then obtain view bs where view: "fixed_view P live ds = Inr (view, bs)"
    by (auto split: sum.splits)
  show ?thesis
  proof (cases "lv_fixed live")
    case (Some f)
    with step view taken(3) show ?thesis
      by (intro exI [of _ live] exI [of _ f] exI [of _ view]) (auto split: if_splits)
  next
    case None
    with step view obtain nonces where c: "pair = dns_aggregate nonces"
      "r' = r\<lparr>lr_live := Some (live\<lparr>lv_fixed := Some \<lparr>fx_bytes = bs, fx_nonces = nonces\<rparr>\<rparr>)\<rparr>"
      by (auto split: if_splits option.splits sum.splits)
    with view taken(3) show ?thesis by (auto simp: fixed_view_def)
  qed
qed

lemma fix_replay:
  assumes "leaf_fix P a ds r = (Inr pair, r')"
  shows "leaf_fix P a ds r' = (Inr pair, r')"
proof -
  from fix_Inr [OF assms] obtain live f view where "r' = r\<lparr>lr_live := Some live\<rparr>"
    "lv_attempt live = a" "fixed_view P live ds = Inr (view, fx_bytes f)" "lv_fixed live = Some f"
    "dns_aggregate (fx_nonces f) = pair" by blast
  then show ?thesis by (simp add: leaf_fix_def take_live_put flip: fixed_view_def)
qed

section \<open>The abstract attempt\<close>

text \<open>
  One attempt from outside: not issued, live in a stage, or closed. A step leaves it, opens it at
  the first stage, moves it one stage on, or closes it.
\<close>

datatype attempt_state = Unissued | LiveAt leaf_stage | Closed

definition attempt_of :: "('s, 'g) leaf_registry \<Rightarrow> leaf_attempt \<Rightarrow> attempt_state" where
  "attempt_of r a =
     (case lr_live r of
       Some live \<Rightarrow> if lv_attempt live = a then LiveAt (live_stage live)
         else if leaf_issued r a then Closed else Unissued
     | None \<Rightarrow> if leaf_issued r a then Closed else Unissued)"

fun stage_after :: "leaf_stage \<Rightarrow> leaf_stage option" where
  "stage_after Reserved = Some Committed"
| "stage_after Committed = Some Held"
| "stage_after Held = Some Fixed"
| "stage_after Fixed = None"

inductive attempt_step :: "attempt_state \<Rightarrow> attempt_state \<Rightarrow> bool" where
  attempt_stays: "attempt_step s s"
| attempt_opens: "attempt_step Unissued (LiveAt Reserved)"
| attempt_moves: "stage_after s = Some s' \<Longrightarrow> attempt_step (LiveAt s) (LiveAt s')"
| attempt_closes: "attempt_step (LiveAt s) Closed"

inductive_cases from_closed: "attempt_step Closed s"
inductive_cases to_fixed: "attempt_step s (LiveAt Fixed)"

lemma live_stage_advances:
  assumes "live_inv P r live" "live_inv P r live'" "live_advances live live'"
  shows "attempt_step (LiveAt (live_stage live)) (LiveAt (live_stage live'))"
proof -
  let ?stage = "\<lambda>c v f. if f then Fixed else if v then Held else if c then Committed else Reserved"
  have moves: "?stage c' v' f' = ?stage c v f \<or> stage_after (?stage c v f) = Some (?stage c' v' f')"
    if "v \<longrightarrow> c" "f \<longrightarrow> v" "v' \<longrightarrow> c'" "f' \<longrightarrow> v'" "c \<longrightarrow> c'" "v \<longrightarrow> v'" "f \<longrightarrow> f'"
      "c = c' \<and> v = v' \<or> c = c' \<and> f = f' \<or> v = v' \<and> f = f'" for c v f c' v' f' :: bool
    using that by (cases c; cases v; cases f; cases c'; cases v'; cases f') simp_all
  have "lv_reveal live \<noteq> None \<longrightarrow> lv_commit live \<noteq> None" "lv_fixed live \<noteq> None \<longrightarrow> lv_reveal live \<noteq> None"
    "lv_reveal live' \<noteq> None \<longrightarrow> lv_commit live' \<noteq> None" "lv_fixed live' \<noteq> None \<longrightarrow> lv_reveal live' \<noteq> None"
    using assms(1,2) by (auto simp: live_inv_def)
  moreover have "lv_commit live \<noteq> None \<longrightarrow> lv_commit live' \<noteq> None"
    "lv_reveal live \<noteq> None \<longrightarrow> lv_reveal live' \<noteq> None" "lv_fixed live \<noteq> None \<longrightarrow> lv_fixed live' \<noteq> None"
    using assms(3) by (auto simp: live_advances_def fills_def)
  moreover have "(lv_commit live \<noteq> None) = (lv_commit live' \<noteq> None)
      \<and> (lv_reveal live \<noteq> None) = (lv_reveal live' \<noteq> None)
    \<or> (lv_commit live \<noteq> None) = (lv_commit live' \<noteq> None)
      \<and> (lv_fixed live \<noteq> None) = (lv_fixed live' \<noteq> None)
    \<or> (lv_reveal live \<noteq> None) = (lv_reveal live' \<noteq> None)
      \<and> (lv_fixed live \<noteq> None) = (lv_fixed live' \<noteq> None)"
    using assms(3) unfolding live_advances_def by metis
  ultimately have "live_stage live' = live_stage live
      \<or> stage_after (live_stage live) = Some (live_stage live')"
    unfolding live_stage_def by (rule moves)
  then show ?thesis by (auto intro: attempt_step.intros)
qed

lemma effect_attempt_step:
  assumes "leaf_effect r r'" "leaf_inv P r" "leaf_inv P r'"
  shows "attempt_step (attempt_of r a) (attempt_of r' a)"
proof -
  have issued: "leaf_issued r (lv_attempt live)" if "lr_live r = Some live" for live
    using leaf_inv_issued [OF assms(2)] that by (simp add: leaf_live_attempt_def)
  have step: "attempt_step (LiveAt (live_stage live)) (LiveAt (live_stage live'))"
    if "lr_live r = Some live" "live_advances live live'" "r' = r\<lparr>lr_live := Some live'\<rparr>" for live live'
  proof (rule live_stage_advances [OF leaf_inv_live [OF assms(2) that(1)] _ that(2)])
    show "live_inv P r live'"
      using leaf_inv_live [OF assms(3), of live'] that(3) by (simp add: live_inv_def)
  qed
  from assms(1) show ?thesis
    unfolding leaf_effect_def
  proof (elim disjE exE conjE)
    assume "r' = r"
    then show ?thesis by (simp add: attempt_stays)
  next
    fix live assume live: "lr_live r = Some live" "r' = r\<lparr>lr_live := None\<rparr>"
    then show ?thesis
      using issued [OF live(1)]
      by (cases "lv_attempt live = a")
        (auto simp: attempt_of_def leaf_issued_def intro: attempt_closes attempt_stays)
  next
    fix live live' assume live: "lr_live r = Some live" "live_advances live live'"
      "r' = r\<lparr>lr_live := Some live'\<rparr>"
    then have "lv_attempt live' = lv_attempt live" by (simp add: live_advances_def)
    then show ?thesis
      using live(1,3) step [OF live] by (simp add: attempt_of_def leaf_issued_def attempt_stays)
  qed
qed

lemma maps_attempt_step:
  assumes "leaf_inv P r" "lr_live r' = lr_live r \<or> lr_live r' = None" "lr_device r' = lr_device r"
    and "lr_next_sequence r' = lr_next_sequence r"
  shows "attempt_step (attempt_of r a) (attempt_of r' a)"
proof -
  have eq: "leaf_issued r' a = leaf_issued r a" using assms(3,4) by (simp add: leaf_issued_def)
  show ?thesis
  proof (cases "lr_live r' = lr_live r")
    case True
    then show ?thesis by (simp add: attempt_of_def eq attempt_stays)
  next
    case False
    with assms(2) obtain live where live: "lr_live r = Some live" "lr_live r' = None"
      by (cases "lr_live r") auto
    with leaf_inv_issued [OF assms(1)] have "leaf_issued r (lv_attempt live)"
      by (simp add: leaf_live_attempt_def)
    with live eq show ?thesis
      by (auto simp: attempt_of_def intro: attempt_closes attempt_stays)
  qed
qed

lemma leaf_step_refines:
  "leaf_step P draw r e r' \<Longrightarrow> leaf_inv P r \<Longrightarrow> attempt_step (attempt_of r a) (attempt_of r' a)"
proof (induction rule: leaf_step.induct)
  case (step_add_vault parts epoch r res r')
  then show ?case
    by (cases rule: add_vault_cases [of P parts epoch r])
      (auto intro: maps_attempt_step)
next
  case (step_reserve session now bs rb os parsed r res r')
  then have inv': "leaf_inv P r'" by (metis leaf_inv_reserve)
  show ?case
  proof (cases rule: leaf_reserve_with_cases [of r P session now bs rb os parsed])
    case kept
    with step_reserve inv' show ?thesis by (auto intro: effect_attempt_step)
  next
    case (issued reservation expiry vault nxt)
    from issued(6) step_reserve have r': "r' = snd (leaf_reserve_with P session now bs rb os parsed r)"
      by simp
    have "la_sequence a < nxt \<longleftrightarrow> la_sequence a < lr_next_sequence r \<or> la_sequence a = lr_next_sequence r"
      using checked_succ_unat [OF issued(5)] by (auto simp: word_less_nat_alt less_Suc_eq word_unat_eq_iff)
    moreover have "a = \<lparr>la_device = lr_device r, la_sequence = lr_next_sequence r\<rparr> \<longleftrightarrow>
        la_device a = lr_device r \<and> la_sequence a = lr_next_sequence r" by (cases a) simp
    ultimately show ?thesis
      unfolding r' issued(6) using issued(1)
      by (auto simp: attempt_of_def leaf_issued_def live_stage_def intro: attempt_step.intros)
  qed
next
  case (step_activate_inner identity members r res r')
  then show ?case
    using activate_inner_bundle_frame [of P identity members r]
    by (auto simp: Let_def intro: maps_attempt_step)
next
  case (step_activate_outer epoch member r res r')
  then show ?case
    using activate_outer_frame [of P epoch member r]
    by (auto simp: Let_def intro: maps_attempt_step)
next
  case (step_commit a bs r rng res r' rng')
  then show ?case by (metis leaf_inv_commit leaf_commit_effect effect_attempt_step)
next
  case (step_reveal a cs r res r')
  then show ?case by (metis leaf_inv_reveal leaf_reveal_effect effect_attempt_step snd_conv)
next
  case (step_fix a os r res r')
  then show ?case by (metis leaf_inv_fix leaf_fix_effect effect_attempt_step snd_conv)
next
  case (step_refused a mode f r e r')
  then show ?case
    using leaf_respond_with_cases [of a mode f r] by (auto intro: maps_attempt_step)
next
  case (step_respond a mode f r x r')
  then show ?case
    using leaf_respond_with_cases [of a mode f r] by (auto intro: maps_attempt_step)
next
  case (step_abort ab r res r')
  then show ?case using leaf_receive_abort_cases [of ab r] by (auto intro: maps_attempt_step)
next
  case (step_close a r res r')
  then show ?case
    by (auto simp: leaf_close_def split: if_splits option.splits intro: maps_attempt_step)
next
  case (step_expire now r res r')
  then show ?case
    by (auto simp: leaf_close_expired_def split: if_splits option.splits intro: maps_attempt_step)
qed

end
