(* ===== verification/Ksnf_Genesis_Proofs.thy ===== *)
theory Ksnf_Genesis_Proofs
  imports Ksnf_Genesis Ksnf_Signing_Proofs
begin

text \<open>
  What the constructors of a genesis guarantee, and what its supports and attached shares are.
\<close>

definition public_polynomial_ok :: "'g::zero public_polynomial \<Rightarrow> bool" where
  "public_polynomial_ok p \<longleftrightarrow> gp_commitments p \<noteq> [] \<and> hd (gp_commitments p) = gp_constant p
     \<and> gp_constant p \<noteq> 0"

definition public_person_ok ::
  "('s::field, 'g::ab_group_add) profile \<Rightarrow> ('s, 'g) public_person \<Rightarrow> bool" where
  "public_person_ok P p \<longleftrightarrow> gp_threshold (gq_identity p) = gp_threshold (gq_member p)
     \<and> gp_threshold (gq_member p) \<le> length (gq_devices p)
     \<and> sorted_wrt (<) (map gd_device (gq_devices p)) \<and> distinct (map gd_node (gq_devices p))
     \<and> (\<forall>d \<in> set (gq_devices p). gd_identity_share d = gp_evaluate P (gq_identity p) (gd_node d)
          \<and> gd_member_share d = gp_evaluate P (gq_member p) (gd_node d))"

definition genesis_ok ::
  "('s::field, 'g::ab_group_add) profile \<Rightarrow> ('s, 'g) public_genesis \<Rightarrow> bool" where
  "genesis_ok P g \<longleftrightarrow> vg_threshold g \<le> length (vg_people g)
     \<and> sorted_wrt (<) (map gq_person (vg_people g)) \<and> distinct (map gq_outer_node (vg_people g))
     \<and> (\<forall>p \<in> set (vg_people g). gp_evaluate P (vg_outer g) (gq_outer_node p) = member_point p)"

lemma public_polynomial_new_Inr:
  "public_polynomial_new cs = Inr p \<longleftrightarrow> public_polynomial_ok p \<and> gp_commitments p = cs"
  by (cases p) (auto simp: public_polynomial_new_def public_polynomial_ok_def result_simps point_new_Inr)

lemma gp_evaluate_zero:
  assumes "group_ok P" "public_polynomial_ok p"
  shows "gp_evaluate P p 0 = gp_constant p"
  using assms horner.eval_zero [OF group_horner [OF assms(1)]]
  by (simp add: gp_evaluate_def evaluate_commitments_eval public_polynomial_ok_def)

text \<open>The scan of both constructors: new nodes, and a check of its own for every entry.\<close>

lemma scan_nodes_Inr:
  "scan_prior (\<lambda>prior x. if list_ex (\<lambda>p. f p = f x) prior then Inl e1
      else if bad x then Inl e2 else Inr ()) [] xs = Inr u \<longleftrightarrow>
    distinct (map f xs) \<and> (\<forall>x \<in> set xs. \<not> bad x)"
proof -
  have "list_ex (\<lambda>p. f p = f x) ys \<longleftrightarrow> f x \<in> f ` set ys" for x ys
    by (auto simp: list_ex_iff image_iff) metis+
  then show ?thesis
    by (auto simp: scan_prior_Inr_iff distinct_prior [symmetric] if_Inl_eq_Inr all_set_conv_all_nth)
qed

lemma public_person_new_Inr:
  "public_person_new P person node identity member ds = Inr p \<longleftrightarrow>
     distinct (map gd_device ds) \<and> public_person_ok P p \<and> gq_person p = person
     \<and> gq_outer_node p = node \<and> gq_identity p = identity \<and> gq_member p = member
     \<and> gq_devices p = sort_key gd_device ds"
proof -
  have adj: "any_adjacent (\<lambda>a b. gd_device a = gd_device b) (sort_key gd_device ds) \<longleftrightarrow>
      \<not> distinct (map gd_device ds)"
    using any_adjacent_eq_sorted [of gd_device "sort_key gd_device ds"]
    by (simp add: distinct_map_sort_key)
  have p: "p = \<lparr>gq_person = a, gq_outer_node = b, gq_identity = c, gq_member = d, gq_devices = e\<rparr>
      \<longleftrightarrow> gq_person p = a \<and> gq_outer_node p = b \<and> gq_identity p = c \<and> gq_member p = d
        \<and> gq_devices p = e" for a b c d e
    by (cases p) auto
  have "public_person_new P person node identity member ds = Inr p \<longleftrightarrow>
      gp_threshold identity = gp_threshold member \<and> gp_threshold identity \<le> length ds
      \<and> distinct (map gd_device ds) \<and> distinct (map gd_node (sort_key gd_device ds))
      \<and> (\<forall>d \<in> set ds. gp_verifies P identity (gd_node d) (gd_identity_share d)
           \<and> gp_verifies P member (gd_node d) (gd_member_share d))
      \<and> gq_person p = person \<and> gq_outer_node p = node \<and> gq_identity p = identity
      \<and> gq_member p = member \<and> gq_devices p = sort_key gd_device ds"
    unfolding public_person_new_def Let_def
    by (auto simp: adj and_then_Inr_iff if_Inl_eq_Inr scan_nodes_Inr p)
  then show ?thesis
    by (auto simp: public_person_ok_def gp_verifies_def strict_sorted_iff distinct_map_sort_key)
qed

lemma genesis_validate_Inr:
  "genesis_validate P vault outer people = Inr g \<longleftrightarrow>
     distinct (map gq_person people) \<and> genesis_ok P g \<and> vg_vault g = vault \<and> vg_outer g = outer
     \<and> vg_people g = sort_key gq_person people"
proof -
  have adj: "any_adjacent (\<lambda>a b. gq_person a = gq_person b) (sort_key gq_person people) \<longleftrightarrow>
      \<not> distinct (map gq_person people)"
    using any_adjacent_eq_sorted [of gq_person "sort_key gq_person people"]
    by (simp add: distinct_map_sort_key)
  have g: "g = \<lparr>vg_vault = a, vg_outer = b, vg_people = c\<rparr> \<longleftrightarrow>
      vg_vault g = a \<and> vg_outer g = b \<and> vg_people g = c" for a b c
    by (cases g) auto
  have "genesis_validate P vault outer people = Inr g \<longleftrightarrow> gp_threshold outer \<le> length people
      \<and> distinct (map gq_person people) \<and> distinct (map gq_outer_node (sort_key gq_person people))
      \<and> (\<forall>p \<in> set people. gp_evaluate P outer (gq_outer_node p) = member_point p)
      \<and> vg_vault g = vault \<and> vg_outer g = outer \<and> vg_people g = sort_key gq_person people"
    unfolding genesis_validate_def Let_def
    by (auto simp: adj and_then_Inr_iff if_Inl_eq_Inr scan_nodes_Inr g)
  then show ?thesis
    by (auto simp: genesis_ok_def vg_threshold_def strict_sorted_iff distinct_map_sort_key)
qed

lemma genesis_person_Inr:
  assumes "genesis_ok P g"
  shows "genesis_person g x = Inr p \<longleftrightarrow> p \<in> set (vg_people g) \<and> gq_person p = x"
  using search_key_distinct [of gq_person "vg_people g" p] assms
  by (auto simp: genesis_person_def genesis_ok_def result_simps strict_sorted_iff dest: search_key_SomeD)

lemma gq_device_Inr:
  assumes "public_person_ok P p"
  shows "gq_device p x = Inr d \<longleftrightarrow> d \<in> set (gq_devices p) \<and> gd_device d = x"
  using search_key_distinct [of gd_device "gq_devices p" d] assms
  by (auto simp: gq_device_def public_person_ok_def result_simps strict_sorted_iff dest: search_key_SomeD)

text \<open>
  A genesis is built from values the constructors returned, as the types of the code ensure.
\<close>

definition polynomial_built :: "'g::zero public_polynomial \<Rightarrow> bool" where
  "polynomial_built p \<longleftrightarrow> (\<exists>cs. public_polynomial_new cs = Inr p)"

definition person_built ::
  "('s::field, 'g::ab_group_add) profile \<Rightarrow> ('s, 'g) public_person \<Rightarrow> bool" where
  "person_built P p \<longleftrightarrow> (\<exists>person node identity member ds. polynomial_built identity
     \<and> polynomial_built member \<and> public_person_new P person node identity member ds = Inr p)"

definition genesis_built ::
  "('s::field, 'g::ab_group_add) profile \<Rightarrow> ('s, 'g) public_genesis \<Rightarrow> bool" where
  "genesis_built P g \<longleftrightarrow> (\<exists>vault outer people. polynomial_built outer
     \<and> set people \<subseteq> Collect (person_built P) \<and> genesis_validate P vault outer people = Inr g)"

lemma person_builtD:
  assumes "person_built P p"
  shows "public_person_ok P p" "public_polynomial_ok (gq_identity p)" "public_polynomial_ok (gq_member p)"
  using assms
  by (auto simp: person_built_def polynomial_built_def public_polynomial_new_Inr public_person_new_Inr)

lemma genesis_builtD:
  assumes "genesis_built P g"
  shows "genesis_ok P g" "public_polynomial_ok (vg_outer g)" "set (vg_people g) \<subseteq> Collect (person_built P)"
  using assms
  by (auto simp: genesis_built_def polynomial_built_def public_polynomial_new_Inr genesis_validate_Inr)

lemma genesis_inner_support_built:
  assumes P: "group_ok P" and g: "genesis_built P g" and q: "genesis_person g person = Inr q"
    and s: "genesis_inner_support g person devices = Inr s"
  shows "inner_support_ok s" "length (is_participants s) = gq_threshold q"
    and "\<forall>p \<in> set (is_participants s). \<exists>d \<in> set (gq_devices q). dp_device p = gd_device d
      \<and> dp_node p = gd_node d \<and> dp_share p = gp_evaluate P (gq_member q) (gd_node d)"
    and "inner_key P s = member_point q"
proof -
  have ok: "public_person_ok P q" "public_polynomial_ok (gq_member q)"
    using genesis_builtD [OF g] genesis_person_Inr [of P g person q] q person_builtD by blast+
  from s q obtain ps where ps: "collect_results (\<lambda>device_id.
      and_then (gq_device q device_id) (\<lambda>device. Inr \<lparr>dp_device = device_id,
        dp_node = gd_node device, dp_share = gd_member_share device\<rparr>)) devices = Inr ps"
    and len: "length devices = gq_threshold q" and new: "inner_support_new ps = Inr s"
    by (auto simp: genesis_inner_support_def and_then_Inr_iff if_Inl_eq_Inr)
  from new show sok: "inner_support_ok s" by (simp add: inner_support_new_Inr)
  from new have parts: "is_participants s = sort_key dp_device ps" by (simp add: inner_support_new_Inr)
  from collect_results_length [OF ps] len
  show n: "length (is_participants s) = gq_threshold q" by (simp add: parts)
  have each: "\<exists>d \<in> set (gq_devices q). dp_device p = gd_device d
      \<and> dp_node p = gd_node d \<and> dp_share p = gp_evaluate P (gq_member q) (gd_node d)"
    if "p \<in> set ps" for p
  proof -
    from that ps obtain x where "and_then (gq_device q x) (\<lambda>device. Inr \<lparr>dp_device = x,
        dp_node = gd_node device, dp_share = gd_member_share device\<rparr>) = Inr p"
      by (auto simp: collect_results_Inr_iff list_all2_conv_all_nth in_set_conv_nth)
    then show ?thesis
      using ok(1) by (auto simp: and_then_Inr_iff gq_device_Inr [OF ok(1)] public_person_ok_def)
  qed
  then show all: "\<forall>p \<in> set (is_participants s). \<exists>d \<in> set (gq_devices q). dp_device p = gd_device d
      \<and> dp_node p = gd_node d \<and> dp_share p = gp_evaluate P (gq_member q) (gd_node d)"
    by (simp add: parts)
  have "inner_key P s = evaluate_commitments P (gp_commitments (gq_member q)) 0"
    using all n by (intro inner_key_commitments [OF P sok])
      (auto simp: gp_evaluate_def gq_threshold_def gp_threshold_def)
  then show "inner_key P s = member_point q"
    using gp_evaluate_zero [OF P ok(2)] by (simp add: gp_evaluate_def member_point_def)
qed

lemma genesis_outer_support_built:
  assumes P: "group_ok P" and g: "genesis_built P g"
    and s: "genesis_outer_support g people = Inr s"
  shows "outer_support_ok s" "length (os_participants s) = vg_threshold g"
    and "map (unat \<circ> pp_slot) (os_participants s) = [1..<Suc (vg_threshold g)]"
    and "map pp_person (os_participants s) = sort people"
    and "\<forall>p \<in> set (os_participants s). \<exists>q \<in> set (vg_people g). pp_person p = gq_person q
      \<and> pp_node p = gq_outer_node q \<and> pp_member p = member_point q
      \<and> pp_member p = gp_evaluate P (vg_outer g) (pp_node p)"
    and "outer_key P s = vault_key g"
proof -
  let ?sel = "sort people"
  let ?f = "\<lambda>(index, person_id). and_then (genesis_person g person_id) (\<lambda>person.
      and_then (count_u16 (index + 1)) (\<lambda>slot. Inr \<lparr>pp_person = person_id, pp_slot = slot,
        pp_node = gq_outer_node person, pp_member = member_point person\<rparr>))"
  have ok: "genesis_ok P g" "public_polynomial_ok (vg_outer g)" using genesis_builtD [OF g] by blast+
  from s obtain ps where ps: "collect_results ?f (enumerate 0 ?sel) = Inr ps"
    and len: "length people = vg_threshold g" and new: "outer_support_new ps = Inr s"
    by (auto simp: genesis_outer_support_def and_then_Inr_iff if_Inl_eq_Inr Let_def)
  have n: "length ps = vg_threshold g" using collect_results_length [OF ps] len by simp
  have each: "unat (pp_slot (ps ! i)) = Suc i \<and> pp_person (ps ! i) = ?sel ! i
      \<and> (\<exists>q \<in> set (vg_people g). pp_person (ps ! i) = gq_person q
        \<and> pp_node (ps ! i) = gq_outer_node q \<and> pp_member (ps ! i) = member_point q)"
    if i: "i < vg_threshold g" for i
  proof -
    have "?f (i, ?sel ! i) = Inr (ps ! i)"
      using ps i len by (auto simp: collect_results_Inr_iff list_all2_conv_all_nth nth_enumerate_eq)
    then obtain q w where q: "genesis_person g (?sel ! i) = Inr q" and w: "count_u16 (Suc i) = Inr w"
      and eq: "ps ! i = \<lparr>pp_person = ?sel ! i, pp_slot = w, pp_node = gq_outer_node q,
        pp_member = member_point q\<rparr>"
      by (auto simp: and_then_Inr_iff)
    from w have "unat w = Suc i"
      using count_u16_unat [of "Suc i" w] by (auto simp: count_u16_def split: if_splits)
    with q eq show ?thesis by (auto simp: genesis_person_Inr [OF ok(1)] intro!: bexI [of _ q])
  qed
  have slots: "map (unat \<circ> pp_slot) ps = [1..<Suc (vg_threshold g)]"
    using each n by (intro nth_equalityI) (auto simp: nth_append)
  have "sorted_wrt (<) (map (unat \<circ> pp_slot) ps)" unfolding slots by (rule sorted_wrt_upt)
  then have "sorted_wrt (<) (map pp_slot ps)"
    by (simp add: sorted_wrt_map word_less_nat_alt comp_def)
  then have id: "sort_key pp_slot ps = ps"
    by (simp add: sort_key_id_if_sorted strict_sorted_iff)
  with new have parts: "os_participants s = ps" and sok: "outer_support_ok s"
    by (simp_all add: outer_support_new_Inr)
  show "outer_support_ok s" by fact
  show n': "length (os_participants s) = vg_threshold g" by (simp add: parts n)
  show "map (unat \<circ> pp_slot) (os_participants s) = [1..<Suc (vg_threshold g)]"
    by (simp add: parts slots)
  show "map pp_person (os_participants s) = sort people"
    unfolding parts using each n len by (intro nth_equalityI) auto
  show all: "\<forall>p \<in> set (os_participants s). \<exists>q \<in> set (vg_people g). pp_person p = gq_person q
      \<and> pp_node p = gq_outer_node q \<and> pp_member p = member_point q
      \<and> pp_member p = gp_evaluate P (vg_outer g) (pp_node p)"
  proof
    fix p assume "p \<in> set (os_participants s)"
    then obtain i where i: "i < vg_threshold g" "p = ps ! i" using n by (auto simp: parts in_set_conv_nth)
    from each [OF i(1)] obtain q where q: "q \<in> set (vg_people g)" "pp_person p = gq_person q"
      "pp_node p = gq_outer_node q" "pp_member p = member_point q" by (auto simp: i(2))
    with ok(1) show "\<exists>q \<in> set (vg_people g). pp_person p = gq_person q
      \<and> pp_node p = gq_outer_node q \<and> pp_member p = member_point q
      \<and> pp_member p = gp_evaluate P (vg_outer g) (pp_node p)"
      by (intro bexI [of _ q]) (auto simp: genesis_ok_def)
  qed
  have "outer_key P s = evaluate_commitments P (gp_commitments (vg_outer g)) 0"
    using all n' by (intro outer_key_commitments [OF P sok])
      (auto simp: gp_evaluate_def vg_threshold_def gp_threshold_def)
  then show "outer_key P s = vault_key g"
    using gp_evaluate_zero [OF P ok(2)] by (simp add: gp_evaluate_def vault_key_def)
qed

text \<open>An attached device holds shares that verify against the maps it carries.\<close>

lemma attach_share_built:
  assumes P: "group_ok P" and g: "genesis_built P g"
    and dg: "attach_share P g person device identity member = Inr dg"
  shows "\<exists>q d. genesis_person g person = Inr q \<and> gq_device q device = Inr d
    \<and> dg_vault dg = vg_vault g \<and> dg_person dg = person \<and> dg_device dg = device
    \<and> dg_outer_node dg = gq_outer_node q \<and> dg_node dg = gd_node d
    \<and> dg_identity_map dg = \<lparr>im_commitments = gp_commitments (gq_identity q),
         im_devices = map (\<lambda>d. (gd_device d, gd_node d, gd_identity_share d)) (gq_devices q)\<rparr>
    \<and> dg_member_map dg = gp_commitments (gq_member q)
    \<and> dg_outer_map dg = \<lparr>om_commitments = gp_commitments (vg_outer g),
         om_people = map (\<lambda>p. (gq_person p, gq_outer_node p, member_point p)) (vg_people g)\<rparr>
    \<and> dg_identity_key dg = identity_key q \<and> dg_member_point dg = member_point q
    \<and> dg_vault_key dg = vault_key g \<and> dg_identity dg = identity
    \<and> signing_share (dg_identity dg) (dg_anchor dg) = member
    \<and> element_from_scalar P identity = evaluate_commitments P (gp_commitments (gq_identity q)) (gd_node d)
    \<and> element_from_scalar P member = evaluate_commitments P (gp_commitments (gq_member q)) (gd_node d)"
proof -
  from dg obtain q d where q: "genesis_person g person = Inr q" "gq_device q device = Inr d"
    and e: "element_from_scalar P identity = gd_identity_share d"
      "element_from_scalar P member = gd_member_share d"
    by (auto simp: attach_share_def and_then_Inr_iff if_Inl_eq_Inr)
  have ok: "public_person_ok P q"
    using genesis_builtD [OF g] genesis_person_Inr [of P g person q] q person_builtD by blast
  with q have "gd_identity_share d = gp_evaluate P (gq_identity q) (gd_node d)"
    "gd_member_share d = gp_evaluate P (gq_member q) (gd_node d)"
    by (auto simp: gq_device_Inr [OF ok] public_person_ok_def)
  with dg q e show ?thesis
    by (auto simp: attach_share_def and_then_Inr_iff if_Inl_eq_Inr gp_evaluate_def)
qed

end
