(* ===== verification/Ksnf_Leaf_Demo.thy ===== *)
theory Ksnf_Leaf_Demo
  imports Ksnf_Leaf_Proofs Ksnf_Genesis_Proofs Ksnf_Demo
begin

text \<open>
  The fixture's genesis and one device's run through reservation, commitment, both views and the
  response. The witnesses about genesis and the leaf evaluate it.
\<close>

section \<open>Genesis\<close>

definition demo_polynomial :: "gf7 list \<Rightarrow> gf7 public_polynomial" where
  "demo_polynomial cs = \<lparr>gp_constant = hd cs, gp_commitments = cs\<rparr>"

definition demo_first :: "(gf7, gf7) public_person" where
  "demo_first = \<lparr>gq_person = Ident 1, gq_outer_node = gf 1, gq_identity = demo_polynomial [gf 2, gf 1],
     gq_member = demo_polynomial [gf 1, gf 2], gq_devices =
       [\<lparr>gd_device = Ident 20, gd_node = gf 1, gd_identity_share = gf 3, gd_member_share = gf 3\<rparr>,
        \<lparr>gd_device = Ident 21, gd_node = gf 2, gd_identity_share = gf 4, gd_member_share = gf 5\<rparr>]\<rparr>"

definition demo_second :: "(gf7, gf7) public_person" where
  "demo_second = \<lparr>gq_person = Ident 2, gq_outer_node = gf 2, gq_identity = demo_polynomial [gf 2],
     gq_member = demo_polynomial [gf 4], gq_devices =
       [\<lparr>gd_device = Ident 30, gd_node = gf 1, gd_identity_share = gf 2, gd_member_share = gf 4\<rparr>]\<rparr>"

definition demo_genesis :: "(gf7, gf7) public_genesis" where
  "demo_genesis = \<lparr>vg_vault = Ident 9, vg_outer = demo_polynomial [gf 5, gf 3],
     vg_people = [demo_first, demo_second]\<rparr>"

lemma demo_polynomial_new: "cs \<noteq> [] \<Longrightarrow> hd cs \<noteq> 0 \<Longrightarrow> public_polynomial_new cs = Inr (demo_polynomial cs)"
  by (simp add: public_polynomial_new_Inr public_polynomial_ok_def demo_polynomial_def)

lemma demo_evaluate [simp]:
  "gp_evaluate toy_profile (demo_polynomial cs) x = foldr (\<lambda>c acc. acc * x + c) cs 0"
  by (simp add: gp_evaluate_def demo_polynomial_def evaluate_commitments_def foldl_conv_foldr mult.commute)

lemma demo_first_new:
  "public_person_new toy_profile (Ident 1) (gf 1) (demo_polynomial [gf 2, gf 1])
     (demo_polynomial [gf 1, gf 2]) (rev (gq_devices demo_first)) = Inr demo_first"
  by (simp add: public_person_new_Inr public_person_ok_def demo_first_def gp_threshold_def
      less_ident_def less_eq_ident_def gf_zero) (simp add: demo_polynomial_def)

lemma demo_second_new:
  "public_person_new toy_profile (Ident 2) (gf 2) (demo_polynomial [gf 2])
     (demo_polynomial [gf 4]) (gq_devices demo_second) = Inr demo_second"
  by (simp add: public_person_new_Inr public_person_ok_def demo_second_def gp_threshold_def
      less_ident_def less_eq_ident_def gf_zero) (simp add: demo_polynomial_def)

lemma demo_genesis_new:
  "genesis_validate toy_profile (Ident 9) (demo_polynomial [gf 5, gf 3]) [demo_second, demo_first] =
     Inr demo_genesis"
  by (simp add: genesis_validate_Inr genesis_ok_def demo_genesis_def vg_threshold_def gp_threshold_def
      demo_first_def demo_second_def member_point_def less_ident_def less_eq_ident_def gf_zero)
     (simp add: demo_polynomial_def word_le_nat_alt less_eq_ident_def)

lemma demo_genesis_built: "genesis_built toy_profile demo_genesis"
proof -
  have p: "polynomial_built (demo_polynomial cs)" if "cs \<noteq> []" "hd cs \<noteq> 0" for cs
    using demo_polynomial_new [OF that] by (auto simp: polynomial_built_def)
  have "person_built toy_profile demo_first"
    using demo_first_new p [of "[gf 2, gf 1]"] p [of "[gf 1, gf 2]"]
    unfolding person_built_def by (simp add: gf_zero) blast
  moreover have "person_built toy_profile demo_second"
    using demo_second_new p [of "[gf 2]"] p [of "[gf 4]"]
    unfolding person_built_def by (simp add: gf_zero) blast
  ultimately have "set [demo_second, demo_first] \<subseteq> Collect (person_built toy_profile)" by simp
  moreover have "polynomial_built (demo_polynomial [gf 5, gf 3])" by (rule p) (simp_all add: gf_zero)
  ultimately show ?thesis using demo_genesis_new unfolding genesis_built_def by blast
qed

lemma demo_genesis_inner: "genesis_inner_support demo_genesis (Ident 1) [Ident 21, Ident 20] = Inr demo_inner"
  using demo_inner_new
  by (simp add: genesis_inner_support_def genesis_person_def gq_threshold_def gp_threshold_def
      gq_device_def demo_genesis_def demo_first_def demo_polynomial_def demo_devices_def)

lemma demo_outer_sorted: "outer_support_new (rev demo_people) = Inr demo_outer"
  unfolding outer_support_new_Inr using demo_outer_ok
  by (simp add: demo_outer_def demo_people_def word_le_nat_alt)

lemma demo_genesis_outer: "genesis_outer_support demo_genesis [Ident 2, Ident 1] = Inr demo_outer"
  using demo_outer_sorted
  by (simp add: genesis_outer_support_def genesis_person_def vg_threshold_def gp_threshold_def
      demo_genesis_def demo_first_def demo_second_def demo_polynomial_def demo_people_def
      member_point_def count_u16_def less_eq_ident_def word_le_nat_alt)

definition demo_device :: "(gf7, gf7) device_genesis" where
  "demo_device = \<lparr>dg_vault = Ident 9, dg_person = Ident 1, dg_device = Ident 20,
     dg_outer_node = gf 1, dg_node = gf 1,
     dg_identity_map = \<lparr>im_commitments = [gf 2, gf 1],
       im_devices = [(Ident 20, gf 1, gf 3), (Ident 21, gf 2, gf 4)]\<rparr>,
     dg_member_map = [gf 1, gf 2],
     dg_outer_map = \<lparr>om_commitments = [gf 5, gf 3],
       om_people = [(Ident 1, gf 1, gf 1), (Ident 2, gf 2, gf 4)]\<rparr>,
     dg_identity_key = gf 2, dg_member_point = gf 1, dg_vault_key = gf 5, dg_identity = gf 3,
     dg_anchor = 0\<rparr>"

lemma demo_attach: "attach_share toy_profile demo_genesis (Ident 1) (Ident 20) (gf 3) (gf 3) = Inr demo_device"
  by (simp add: attach_share_def genesis_person_def gq_device_def demo_genesis_def demo_first_def
      demo_second_def demo_polynomial_def demo_device_def identity_key_def member_point_def
      vault_key_def anchor_share_def)

section \<open>The run\<close>

definition demo_vault :: "(gf7, gf7) vault_state" where
  "demo_vault = \<lparr>vs_outer_node = gf 1, vs_outer_epoch = 3, vs_member_handle = Ident 71,
     vs_member_point = gf 1, vs_vault_key = gf 5, vs_anchor = 0, vs_member_map = [gf 1, gf 2],
     vs_outer_map = \<lparr>om_commitments = [gf 5, gf 3],
       om_people = [(Ident 1, gf 1, gf 1), (Ident 2, gf 2, gf 4)]\<rparr>\<rparr>"

definition demo_leaf :: "(gf7, gf7) leaf_registry" where
  "demo_leaf = \<lparr>lr_device = Ident 20, lr_person = Ident 1, lr_node = gf 1,
     lr_identity_map = \<lparr>im_commitments = [gf 2, gf 1],
       im_devices = [(Ident 20, gf 1, gf 3), (Ident 21, gf 2, gf 4)]\<rparr>,
     lr_identity_key = gf 2, lr_identity = gf 3, lr_inner_epoch = 0, lr_identity_handle = Ident 70,
     lr_vaults = [(Ident 9, demo_vault)], lr_live = None, lr_next_sequence = 0\<rparr>"

lemma demo_leaf_new: "leaf_new demo_device (demo_epoch (Ident 1)) = Inr demo_leaf"
  by (simp add: leaf_new_def validate_genesis_epoch_def demo_device_def demo_epoch_def demo_leaf_def
      genesis_vault_state_def demo_vault_def)

lemma demo_leaf_inv [simp]: "leaf_inv toy_profile demo_leaf"
  by (rule leaf_new_inv [OF demo_leaf_new])

definition demo_own :: leaf_attempt where
  "demo_own = \<lparr>la_device = Ident 20, la_sequence = 0\<rparr>"

text \<open>The run is that of any reservation bytes and response binding; the plain one is its instance.\<close>

definition demo_live_of :: "bytes \<Rightarrow> response_binding \<Rightarrow> (gf7, gf7) live" where
  "demo_live_of bs rb = \<lparr>lv_attempt = demo_own, lv_session = Ident 5, lv_vault = Ident 9, lv_expiry = 77,
     lv_reservation_bytes = bs, lv_response = rb,
     lv_reservation = Some demo_reservation, lv_commit = None, lv_reveal = None, lv_fixed = None\<rparr>"

definition demo_reserved_of :: "bytes \<Rightarrow> response_binding \<Rightarrow> (gf7, gf7) leaf_registry" where
  "demo_reserved_of bs rb = demo_leaf\<lparr>lr_next_sequence := 1, lr_live := Some (demo_live_of bs rb)\<rparr>"

abbreviation "demo_live \<equiv> demo_live_of demo_bytes plain_binding"
abbreviation "demo_reserved \<equiv> demo_reserved_of demo_bytes plain_binding"

lemmas demo_live_def = demo_live_of_def
lemmas demo_reserved_def = demo_reserved_of_def

lemma demo_parse: "parse_reservation toy_profile demo_bytes demo_outer = Inr (demo_reservation, Ident 5, 77)"
  using demo_bytes by (simp add: parse_reservation_def demo_bytes_decode)

lemma demo_validate: "validate_reservation toy_profile demo_leaf demo_reservation demo_outer = Inr (Ident 9)"
  by (simp add: validate_reservation_def demo_reservation_def demo_leaf_def demo_vault_def
      demo_signing_defs leaf_epoch_def package_prepackage_def validate_inner_support_def
      validate_outer_support_def inner_coefficient_of_def outer_coefficient_of_def count_u16_def
      inner_participant_def evaluate_commitments_def signing_share_def gf_zero)

lemma demo_reserve_with:
  assumes "parsed = Inr (demo_reservation, Ident 5, 77)"
  shows "leaf_reserve_with toy_profile (Ident 5) 1 bs rb demo_outer parsed demo_leaf =
    (Inr demo_own, demo_reserved_of bs rb)"
proof -
  have "lr_live demo_leaf = None" "lr_next_sequence demo_leaf = 0" "lr_device demo_leaf = Ident 20"
    by (simp_all add: demo_leaf_def)
  then show ?thesis
    using assms demo_validate
    by (simp add: leaf_reserve_with_def issue_attempt_def checked_succ_def
      demo_reserved_def demo_live_def demo_own_def word_le_nat_alt)
qed

lemma demo_reserve:
  "leaf_reserve toy_profile (Ident 5) 1 demo_bytes demo_outer demo_leaf = (Inr demo_own, demo_reserved)"
  unfolding leaf_reserve_def by (rule demo_reserve_with [OF demo_parse])

definition demo_draw :: "unit \<Rightarrow> gf7 \<times> unit" where
  "demo_draw u = (gf 1, u)"

definition demo_commit_state :: "(gf7, gf7) commit_state" where
  "demo_commit_state = \<lparr>ct_nonce = Some \<lparr>sn_hiding = gf 1, sn_binding = gf 1\<rparr>,
     ct_pair = \<lparr>np_hiding = gf 1, np_binding = gf 1\<rparr>, ct_commitment = gf 3\<rparr>"

definition demo_committed_of :: "bytes \<Rightarrow> response_binding \<Rightarrow> (gf7, gf7) leaf_registry" where
  "demo_committed_of bs rb = demo_leaf\<lparr>lr_next_sequence := 1,
     lr_live := Some ((demo_live_of bs rb)\<lparr>lv_commit := Some demo_commit_state\<rparr>)\<rparr>"

abbreviation "demo_committed \<equiv> demo_committed_of demo_bytes plain_binding"

lemmas demo_committed_def = demo_committed_of_def

lemma demo_sample: "nonce_sample demo_draw () = Some (\<lparr>sn_hiding = gf 1, sn_binding = gf 1\<rparr>, ())"
  by (subst nonce_sample_def) (simp add: random_nonzero.simps demo_draw_def)

lemma demo_nonce_commitment [simp]:
  "length bs < 2 ^ 32 \<Longrightarrow> nonce_commitment toy_profile a bs pair = Inr (gf 3)"
  by (simp add: nonce_commitment_def put_bytes_def ascii_bytes_def)

lemma demo_commit:
  assumes "length bs < 2 ^ 32"
  shows "leaf_commit toy_profile demo_draw demo_own bs (demo_reserved_of bs rb) () =
     Some ((Inr (gf 3), demo_committed_of bs rb), ())"
  using demo_sample assms
  by (simp add: leaf_commit_def take_live_def leaf_is_closed_def demo_reserved_def demo_live_def
      nonce_commitments_def point_from_scalar_def point_new_def demo_committed_def
      demo_commit_state_def)

definition demo_sibling :: leaf_attempt where
  "demo_sibling = \<lparr>la_device = Ident 21, la_sequence = 6\<rparr>"

definition demo_deliveries :: "bytes \<Rightarrow> gf7 authenticated_commitment list" where
  "demo_deliveries bs = map (\<lambda>a. \<lparr>ac_sender = a, ac_receiver = demo_own, ac_session = Ident 5,
     ac_reservation = bs, ac_commitment = gf 3\<rparr>) [demo_sibling, demo_own]"

definition demo_view :: "bytes \<Rightarrow> gf7 commitment_view" where
  "demo_view bs = \<lparr>cw_receiver = demo_own, cw_session = Ident 5, cw_reservation = bs,
     cw_entries = [(demo_own, gf 3), (demo_sibling, gf 3)]\<rparr>"

definition demo_view_bytes :: "bytes \<Rightarrow> bytes" where
  "demo_view_bytes bs =
     (case commitment_view_to_bytes toy_profile (demo_view bs) of Inl e \<Rightarrow> [] | Inr bs \<Rightarrow> bs)"

definition demo_held_of :: "bytes \<Rightarrow> response_binding \<Rightarrow> (gf7, gf7) leaf_registry" where
  "demo_held_of bs rb = demo_leaf\<lparr>lr_next_sequence := 1,
     lr_live := Some ((demo_live_of bs rb)\<lparr>lv_commit := Some demo_commit_state, lv_reveal := Some
       \<lparr>rl_bytes = demo_view_bytes bs, rl_view = demo_view bs,
        rl_viewed_pair = \<lparr>np_hiding = gf 1, np_binding = gf 1\<rparr>\<rparr>\<rparr>)\<rparr>"

abbreviation "demo_held \<equiv> demo_held_of demo_bytes plain_binding"

lemmas demo_held_def = demo_held_of_def

lemma demo_view_bytes:
  assumes "length bs < 2 ^ 32"
  shows "commitment_view_to_bytes toy_profile (demo_view bs) = Inr (demo_view_bytes bs)"
proof -
  have "\<exists>vs. commitment_view_to_bytes toy_profile (demo_view bs) = Inr vs"
    using assms
    by (simp add: commitment_view_to_bytes_def demo_view_def encode_view_prefix_def put_bytes_def)
  then show ?thesis by (auto simp: demo_view_bytes_def)
qed

lemma demo_view_new: "commitment_view_new demo_inner (demo_deliveries bs) = Inr (demo_view bs)"
  by (simp add: commitment_view_new_def demo_deliveries_def demo_own_def demo_sibling_def
      demo_inner_def demo_devices_def inner_participant_def demo_view_def
      less_eq_ident_def less_ident_def Let_def)

lemma demo_reservation_inner: "bd_inner (op_body (rv_opening demo_reservation)) = demo_inner"
  by (simp add: demo_reservation_def demo_body_def)

lemma demo_reveal:
  assumes "length bs < 2 ^ 32"
  shows "leaf_reveal toy_profile demo_own (demo_deliveries bs) (demo_committed_of bs rb) =
     (Inr \<lparr>np_hiding = gf 1, np_binding = gf 1\<rparr>, demo_held_of bs rb)"
proof -
  have "take_live demo_own (demo_committed_of bs rb) =
      (Inr ((demo_live_of bs rb)\<lparr>lv_commit := Some demo_commit_state\<rparr>),
       (demo_committed_of bs rb)\<lparr>lr_live := None\<rparr>)"
    by (simp add: take_live_def leaf_is_closed_def demo_committed_def demo_live_def)
  moreover have "view_commitment (demo_view bs) demo_own = Inr (gf 3)"
    by (simp add: view_commitment_def demo_view_def)
  ultimately show ?thesis
    using demo_view_new demo_view_bytes [OF assms]
    by (simp add: leaf_reveal_def demo_live_def demo_reservation_inner demo_commit_state_def)
       (simp add: demo_view_def demo_held_def demo_committed_def demo_live_def demo_commit_state_def)
qed

definition demo_openings :: "bytes \<Rightarrow> gf7 authenticated_opening list" where
  "demo_openings bs = map (\<lambda>(a, h). \<lparr>ao_sender = a, ao_receiver = demo_own, ao_session = Ident 5,
     ao_reservation = bs, ao_nonce = \<lparr>np_hiding = gf h, np_binding = gf 1\<rparr>\<rparr>)
     [(demo_own, 1), (demo_sibling, 2)]"

definition demo_pairs :: "gf7 device_nonce list" where
  "demo_pairs = [\<lparr>dn_attempt = demo_own, dn_nonce = \<lparr>np_hiding = gf 1, np_binding = gf 1\<rparr>\<rparr>,
     \<lparr>dn_attempt = demo_sibling, dn_nonce = \<lparr>np_hiding = gf 2, np_binding = gf 1\<rparr>\<rparr>]"

definition demo_opening_view :: "bytes \<Rightarrow> gf7 opening_view" where
  "demo_opening_view bs = \<lparr>ow_receiver = demo_own, ow_session = Ident 5, ow_reservation = bs,
     ow_entries = demo_pairs\<rparr>"

definition demo_opening_bytes :: "bytes \<Rightarrow> bytes" where
  "demo_opening_bytes bs =
     (case opening_view_to_bytes toy_profile (demo_opening_view bs) of Inl e \<Rightarrow> [] | Inr bs \<Rightarrow> bs)"

definition demo_set :: "gf7 device_nonce_set" where
  "demo_set = \<lparr>dns_entries = demo_pairs, dns_aggregate = \<lparr>np_hiding = gf 3, np_binding = gf 2\<rparr>\<rparr>"

definition demo_fixed_of :: "bytes \<Rightarrow> response_binding \<Rightarrow> (gf7, gf7) leaf_registry" where
  "demo_fixed_of bs rb = (demo_held_of bs rb)\<lparr>lr_live := map_option (lv_fixed_update (\<lambda>_. Some
     \<lparr>fx_bytes = demo_opening_bytes bs, fx_nonces = demo_set\<rparr>)) (lr_live (demo_held_of bs rb))\<rparr>"

abbreviation "demo_fixed \<equiv> demo_fixed_of demo_bytes plain_binding"

lemmas demo_fixed_def = demo_fixed_of_def

lemma demo_opening_bytes:
  assumes "length bs < 2 ^ 32"
  shows "opening_view_to_bytes toy_profile (demo_opening_view bs) = Inr (demo_opening_bytes bs)"
proof -
  have "\<exists>vs. opening_view_to_bytes toy_profile (demo_opening_view bs) = Inr vs"
    using assms
    by (simp add: opening_view_to_bytes_def demo_opening_view_def demo_pairs_def encode_view_prefix_def
        put_bytes_def)
  then show ?thesis by (auto simp: demo_opening_bytes_def)
qed

lemma demo_opening_new: "opening_view_new demo_inner (demo_openings bs) = Inr (demo_opening_view bs)"
  by (simp add: opening_view_new_def demo_openings_def demo_own_def demo_sibling_def demo_pairs_def
      demo_inner_def demo_devices_def inner_participant_def demo_opening_view_def
      less_eq_ident_def less_ident_def Let_def)

lemma demo_opening_verify:
  assumes "length bs < 2 ^ 32"
  shows "opening_view_verify toy_profile (demo_opening_view bs) (demo_view bs) demo_inner = Inr demo_set"
  using assms
  by (simp add: opening_view_verify_def demo_opening_view_def demo_view_def view_commitment_def demo_pairs_def
      demo_own_def demo_sibling_def device_nonce_set_new_def demo_inner_def demo_devices_def
      sum_nonce_pairs_def point_new_def demo_set_def less_eq_ident_def less_ident_def gf_zero)

lemma demo_fix:
  assumes "length bs < 2 ^ 32"
  shows "leaf_fix toy_profile demo_own (demo_openings bs) (demo_held_of bs rb) =
     (Inr \<lparr>np_hiding = gf 3, np_binding = gf 2\<rparr>, demo_fixed_of bs rb)"
proof -
  obtain live where live: "lr_live (demo_held_of bs rb) = Some live" by (simp add: demo_held_def)
  then have "take_live demo_own (demo_held_of bs rb) = (Inr live, (demo_held_of bs rb)\<lparr>lr_live := None\<rparr>)"
    by (intro take_live_live) (auto simp: demo_held_def demo_live_def)
  moreover from live have "lv_reservation live = Some demo_reservation" "lv_fixed live = None"
    "lv_session live = Ident 5" "lv_reservation_bytes live = bs"
    "map_option rl_view (lv_reveal live) = Some (demo_view bs)"
    by (auto simp: demo_held_def demo_live_def)
  moreover have "ow_receiver (demo_opening_view bs) = demo_own" "ow_session (demo_opening_view bs) = Ident 5"
    "ow_reservation (demo_opening_view bs) = bs" by (simp_all add: demo_opening_view_def)
  ultimately show ?thesis
    using demo_opening_new demo_opening_bytes [OF assms] demo_opening_verify [OF assms] live
    by (auto simp: leaf_fix_def demo_reservation_inner demo_fixed_def)
       (simp_all add: demo_set_def)
qed

text \<open>The fixed attempt answers with what the response function makes of its inputs.\<close>

definition demo_final :: "(gf7, gf7) leaf_registry" where
  "demo_final = demo_leaf\<lparr>lr_next_sequence := 1\<rparr>"

definition demo_inputs :: "(gf7, gf7) response_inputs" where
  "demo_inputs = \<lparr>ri_nonce = \<lparr>sn_hiding = gf 1, sn_binding = gf 1\<rparr>, ri_reservation = demo_reservation,
     ri_nonces = demo_set, ri_device = Ident 20, ri_share = gf 3, ri_session = Ident 5, ri_expiry = 77\<rparr>"

lemma demo_respond_with:
  assumes "rb_mode rb = mode" "f demo_inputs bs = Inr x"
  shows "leaf_respond_with demo_own mode f (demo_fixed_of bs rb) = (Inr x, demo_final)"
proof -
  obtain live where live: "lr_live (demo_fixed_of bs rb) = Some live" by (simp add: demo_fixed_def demo_held_def)
  then have "take_live demo_own (demo_fixed_of bs rb) = (Inr live, (demo_fixed_of bs rb)\<lparr>lr_live := None\<rparr>)"
    by (intro take_live_live) (auto simp: demo_fixed_def demo_held_def demo_live_def)
  moreover from live have "lv_reservation live = Some demo_reservation"
    "lv_fixed live = Some \<lparr>fx_bytes = demo_opening_bytes bs, fx_nonces = demo_set\<rparr>"
    "lv_session live = Ident 5" "lv_reservation_bytes live = bs" "lv_expiry live = 77"
    "lv_commit live = Some demo_commit_state" "lv_vault live = Ident 9" "lv_response live = rb"
    by (auto simp: demo_fixed_def demo_held_def demo_live_def)
  moreover have "lr_vaults demo_final = [(Ident 9, demo_vault)]" "lr_identity demo_final = gf 3"
    "lr_device demo_final = Ident 20" "(demo_fixed_of bs rb)\<lparr>lr_live := None\<rparr> = demo_final"
    by (simp_all add: demo_fixed_def demo_held_def demo_leaf_def demo_final_def)
  moreover have "signing_share (gf 3) (vs_anchor demo_vault) = gf 3"
    by (simp add: signing_share_def demo_vault_def)
  ultimately show ?thesis
    using assms by (simp add: leaf_respond_with_def demo_commit_state_def demo_inputs_def)
qed

definition demo_root_wire :: bytes where
  "demo_root_wire = (case package_to_bytes toy_profile demo_root of Inl e \<Rightarrow> [] | Inr bs \<Rightarrow> bs)"

lemma demo_root_wire:
  "package_from_bytes toy_profile demo_root_wire = Inr demo_root"
  "package_to_bytes toy_profile demo_root = Inr demo_root_wire"
proof -
  obtain bs where bs: "package_to_bytes toy_profile demo_root = Inr bs" "length bs < 2 ^ 32"
    by (rule demo_root_bytes)
  have "package_ok demo_root" by (simp add: package_ok_def demo_signing_defs)
  with bs show "package_from_bytes toy_profile demo_root_wire = Inr demo_root"
    "package_to_bytes toy_profile demo_root = Inr demo_root_wire"
    by (simp_all add: demo_root_wire_def package_from_bytes_iff)
qed

lemma demo_leaf_respond:
  "leaf_respond toy_profile demo_own demo_root_wire demo_fixed =
     (Inr \<lparr>dr_attempt = demo_own, dr_scalar = gf 5\<rparr>, demo_final)"
proof -
  have "respond_device toy_profile \<lparr>sn_hiding = gf 1, sn_binding = gf 1\<rparr> (demo_transcript demo_body)
      demo_signing demo_set (Ident 20) (gf 3) = Inr \<lparr>dr_attempt = demo_own, dr_scalar = gf 5\<rparr>"
    by (simp add: demo_signing_defs respond_device_def validate_member_inputs_def
      set_validate_support_def package_entry_def inner_participant_def nonce_commitments_def
      point_from_scalar_def point_new_def set_nonce_def inner_coefficient_of_def context_binding_def
      set_attempt_def nonce_respond_def demo_set_def demo_pairs_def demo_own_def demo_sibling_def)
  moreover have "transcript_finalize demo_root demo_reservation = Inr (demo_transcript demo_body)"
    by (simp add: transcript_finalize_def demo_reservation_def demo_transcript_def)
  moreover have "mt_root (demo_transcript demo_body) = demo_root" by (simp add: demo_transcript_def)
  ultimately have "plain_response toy_profile demo_root_wire demo_inputs demo_bytes =
      Inr \<lparr>dr_attempt = demo_own, dr_scalar = gf 5\<rparr>"
    by (simp add: plain_response_def demo_inputs_def demo_root_wire demo_signing_new)
  then show ?thesis
    unfolding leaf_respond_def by (intro demo_respond_with) (simp_all add: plain_binding_def)
qed

lemmas demo_leaf_defs = demo_leaf_def demo_live_def demo_reserved_def demo_committed_def
  demo_held_def demo_fixed_def demo_final_def

lemma demo_rounds:
  assumes "length bs < 2 ^ 32"
  shows "leaf_run toy_profile demo_draw (demo_reserved_of bs rb) [] (demo_fixed_of bs rb)"
proof -
  note silent = run_silent [OF _ step_commit] run_silent [OF _ step_reveal] run_silent [OF _ step_fix]
  show ?thesis
    by (rule silent(3) [OF silent(2) [OF silent(1) [OF run_refl
          demo_commit [OF assms]] demo_reveal [OF assms]] demo_fix [OF assms]])
qed

lemma demo_run_fixed: "leaf_run toy_profile demo_draw demo_leaf [] demo_fixed"
proof -
  have "leaf_run toy_profile demo_draw demo_leaf [] demo_reserved"
    by (rule run_silent [OF run_refl step_reserve [OF demo_reserve [unfolded leaf_reserve_def]]])
  from leaf_run_trans [OF demo_rounds [OF demo_bytes(2), of plain_binding] this] show ?thesis by simp
qed

lemma demo_run:
  "leaf_run toy_profile demo_draw demo_leaf [(demo_own, \<lparr>dr_attempt = demo_own, dr_scalar = gf 5\<rparr>)] demo_final"
proof -
  from run_event [OF demo_run_fixed step_respond [OF demo_leaf_respond [unfolded leaf_respond_def]]]
  show ?thesis by simp
qed

end
