(* ===== verification/Ksnf_Leaf_Support.thy ===== *)
theory Ksnf_Leaf_Support
  imports Ksnf_Leaf_Proofs Ksnf_Genesis_Proofs
begin

text \<open>
  Which reservations a registry accepts: the checks of \<open>validate_reservation\<close> as one predicate
  over the maps the registry holds, and that what genesis hands out satisfies them.
\<close>

section \<open>The two supports\<close>

text \<open>An inner support is drawn from the roster, with the shares the member map commits to.\<close>

definition inner_fits ::
  "('s::field, 'g::ab_group_add) profile \<Rightarrow> ('s, 'g) identity_map \<Rightarrow> 'g list
     \<Rightarrow> ('s, 'g) device_participant \<Rightarrow> bool" where
  "inner_fits P imap commitments p \<longleftrightarrow> (\<exists>i. search_key fst (dp_device p) (im_devices imap) = Some
       (dp_device p, dp_node p, i))
     \<and> dp_share p = evaluate_commitments P commitments (dp_node p)"

lemma inner_support_sum_Inr:
  assumes "inner_support_ok s" "set ps \<subseteq> set (is_participants s)"
  shows "inner_support_sum P imap cs s ps acc = Inr k \<longleftrightarrow>
    (\<forall>p \<in> set ps. inner_fits P imap cs p)
    \<and> k = acc + (\<Sum>p\<leftarrow>ps. gc_smul P (lagrange (dp_node ` set (is_participants s)) (dp_node p)) (dp_share p))"
  using assms(2)
proof (induction ps arbitrary: acc)
  case (Cons p ps)
  then have coeff: "inner_coefficient_of s (dp_device p) = Inr \<lparr>ic_device = dp_device p,
      ic_scalar = lagrange (dp_node ` set (is_participants s)) (dp_node p)\<rparr>"
    by (simp add: inner_coefficient_of_participant [OF assms(1)])
  show ?case
  proof (cases "search_key fst (dp_device p) (im_devices imap)")
    case None
    then show ?thesis by (simp add: inner_fits_def)
  next
    case (Some x)
    then obtain n i where x: "x = (dp_device p, n, i)" by (cases x) (auto dest: search_key_SomeD)
    have "inner_support_sum P imap cs s (p # ps) acc = Inr k \<longleftrightarrow>
        inner_fits P imap cs p \<and> inner_support_sum P imap cs s ps (acc +
          gc_smul P (lagrange (dp_node ` set (is_participants s)) (dp_node p)) (dp_share p)) = Inr k"
      using coeff Some by (auto simp: x inner_fits_def)
    with Cons show ?thesis by (auto simp: add.assoc)
  qed
qed auto

lemma validate_inner_support_Inr:
  assumes "inner_support_ok s"
  shows "validate_inner_support P r v s = Inr u \<longleftrightarrow>
    length (is_participants s) = length (vs_member_map v)
    \<and> (\<forall>p \<in> set (is_participants s). inner_fits P (lr_identity_map r) (vs_member_map v) p)
    \<and> inner_key P s = vs_member_point v"
  by (auto simp: validate_inner_support_def and_then_Inr_iff inner_support_sum_Inr [OF assms subset_refl]
      inner_key_def if_Inl_eq_Inr)

definition outer_fits ::
  "('s::field, 'g::ab_group_add) profile \<Rightarrow> ('s, 'g) outer_map \<Rightarrow> nat
     \<Rightarrow> ('s, 'g) person_participant \<Rightarrow> bool" where
  "outer_fits P omap index p \<longleftrightarrow> count_u16 (index + 1) = Inr (pp_slot p)
     \<and> search_key fst (pp_person p) (om_people omap) = Some (pp_person p, pp_node p, pp_member p)
     \<and> pp_member p = evaluate_commitments P (om_commitments omap) (pp_node p)"

lemma outer_support_sum_Inr:
  assumes "outer_support_ok s" "set ps \<subseteq> set (os_participants s)"
  shows "outer_support_sum P omap s index ps acc = Inr k \<longleftrightarrow>
    (\<forall>(i, p) \<in> set (enumerate index ps). outer_fits P omap i p)
    \<and> k = acc + (\<Sum>p\<leftarrow>ps. gc_smul P (lagrange (pp_node ` set (os_participants s)) (pp_node p)) (pp_member p))"
  using assms(2)
proof (induction ps arbitrary: acc index)
  case (Cons p ps)
  then have coeff: "outer_coefficient_of s (pp_person p) = Inr \<lparr>ocf_person = pp_person p,
      ocf_slot = pp_slot p, ocf_member = pp_member p,
      ocf_scalar = lagrange (pp_node ` set (os_participants s)) (pp_node p)\<rparr>"
    by (simp add: outer_coefficient_of_participant [OF assms(1)])
  have "outer_support_sum P omap s index (p # ps) acc = Inr k \<longleftrightarrow>
      outer_fits P omap index p \<and> outer_support_sum P omap s (Suc index) ps (acc +
        gc_smul P (lagrange (pp_node ` set (os_participants s)) (pp_node p)) (pp_member p)) = Inr k"
  proof (cases "search_key fst (pp_person p) (om_people omap)")
    case None
    then show ?thesis by (auto simp: outer_fits_def and_then_Inr_iff)
  next
    case (Some x)
    then obtain n m where x: "x = (pp_person p, n, m)" by (cases x) (auto dest: search_key_SomeD)
    show ?thesis
      using coeff Some by (auto simp: x outer_fits_def and_then_Inr_iff if_Inl_eq_Inr)
  qed
  with Cons show ?case by (auto simp: add.assoc)
qed auto

lemma validate_outer_support_Inr:
  assumes "outer_support_ok s"
  shows "validate_outer_support P v s = Inr u \<longleftrightarrow>
    length (os_participants s) = length (om_commitments (vs_outer_map v))
    \<and> (\<forall>(i, p) \<in> set (enumerate 0 (os_participants s)). outer_fits P (vs_outer_map v) i p)
    \<and> outer_key P s = vs_vault_key v"
  by (auto simp: validate_outer_support_def and_then_Inr_iff
      outer_support_sum_Inr [OF assms subset_refl] outer_key_def if_Inl_eq_Inr)

section \<open>The whole reservation\<close>

definition reservation_fits ::
  "('s::field, 'g::ab_group_add) profile \<Rightarrow> ('s, 'g) leaf_registry \<Rightarrow> ('s, 'g) member_reservation
     \<Rightarrow> ('s, 'g) outer_support \<Rightarrow> vault_id \<Rightarrow> bool" where
  "reservation_fits P r reservation support vault \<longleftrightarrow>
     (let body = op_body (rv_opening reservation); inner = bd_inner body in
      leaf_epoch r vault = Inr (bd_epoch body)
      \<and> (\<exists>v. map_of (lr_vaults r) vault = Some v
          \<and> bd_identity body = lr_identity_key r \<and> bd_member body = vs_member_point v
          \<and> rp_key (rv_prepackage reservation) = vs_vault_key v
          \<and> length (is_participants inner) = length (vs_member_map v)
          \<and> (\<forall>p \<in> set (is_participants inner). inner_fits P (lr_identity_map r) (vs_member_map v) p)
          \<and> inner_key P inner = vs_member_point v
          \<and> length (os_participants support) = length (om_commitments (vs_outer_map v))
          \<and> (\<forall>(i, p) \<in> set (enumerate 0 (os_participants support)). outer_fits P (vs_outer_map v) i p)
          \<and> outer_key P support = vs_vault_key v
          \<and> (\<exists>p \<in> set (is_participants inner). dp_device p = lr_device r \<and> dp_node p = lr_node r
              \<and> element_from_scalar P (signing_share (lr_identity r) (vs_anchor v)) = dp_share p)))"

lemma leaf_epoch_Inr:
  "leaf_epoch r vault = Inr e \<longleftrightarrow> (\<exists>v. map_of (lr_vaults r) vault = Some v
     \<and> ke_outer e = vs_outer_epoch v \<and> ke_inner e = lr_inner_epoch r
     \<and> ke_anchor e = \<lparr>an_vault = vault, an_person = lr_person r,
          an_identity = lr_identity_handle r, an_member = vs_member_handle v\<rparr>)"
  by (cases e) (auto simp: leaf_epoch_def and_then_Inr_iff ok_or_Inr_iff)

lemma validate_reservation_Inr:
  assumes inner: "inner_support_ok (bd_inner (op_body (rv_opening reservation)))"
    and outer: "outer_support_ok support"
  shows "validate_reservation P r reservation support = Inr vault \<longleftrightarrow>
    reservation_fits P r reservation support vault"
  unfolding validate_reservation_def reservation_fits_def Let_def
  by (auto simp: and_then_Inr_iff if_Inl_eq_Inr ok_or_Inr_iff validate_inner_support_Inr [OF inner]
      validate_outer_support_Inr [OF outer] inner_participant_Inr [OF inner] leaf_epoch_Inr)

text \<open>A registry that is free takes a reservation exactly when its bytes are canonical and it fits.\<close>

lemma leaf_reserve_free:
  assumes "group_ok P" "outer_support_ok support" "length bs < 2 ^ 64" "lr_live r = None"
  shows "leaf_reserve P session now bs support r = (Inr a, r') \<longleftrightarrow>
    (\<exists>reservation expiry vault nxt. reservation_ok P support reservation
       \<and> reservation_to_bytes P reservation session expiry = Inr bs \<and> now < expiry
       \<and> reservation_fits P r reservation support vault
       \<and> checked_succ (lr_next_sequence r) = Some nxt
       \<and> a = \<lparr>la_device = lr_device r, la_sequence = lr_next_sequence r\<rparr>
       \<and> r' = r\<lparr>lr_next_sequence := nxt, lr_live := Some
           \<lparr>lv_attempt = a, lv_session = session, lv_vault = vault, lv_expiry = expiry,
            lv_reservation_bytes = bs, lv_response = plain_binding,
            lv_reservation = Some reservation, lv_commit = None, lv_reveal = None, lv_fixed = None\<rparr>\<rparr>)"
proof -
  have parse: "parse_reservation P bs support = Inr (reservation, s, e) \<longleftrightarrow>
      reservation_ok P support reservation \<and> reservation_to_bytes P reservation s e = Inr bs"
    for reservation s e
    using reservation_from_bytes_iff [OF assms(1,3), of support reservation s e]
    by (auto simp: parse_reservation_def and_then_Inr_iff if_Inl_eq_Inr)
  have fits: "validate_reservation P r reservation support = Inr vault \<longleftrightarrow>
      reservation_fits P r reservation support vault"
    if "reservation_ok P support reservation" for reservation vault
    using that assms(2) by (intro validate_reservation_Inr)
      (auto simp: reservation_ok_def body_ok_def)
  let ?parsed = "and_then (parse_reservation P bs support) (\<lambda>(reservation, parsed_session, expiry).
      if parsed_session \<noteq> session then Inl InvalidTranscript
      else if expiry \<le> now then Inl Expired
      else and_then (validate_reservation P r reservation support) (\<lambda>vault.
        Inr (reservation, expiry, vault)))"
  have parsed: "?parsed = Inr (reservation, expiry, vault) \<longleftrightarrow> reservation_ok P support reservation
      \<and> reservation_to_bytes P reservation session expiry = Inr bs \<and> now < expiry
      \<and> reservation_fits P r reservation support vault" for reservation expiry vault
    by (auto simp: and_then_Inr_iff if_Inl_eq_Inr parse fits not_le)
  let ?live = "\<lambda>reservation expiry vault. \<lparr>lv_attempt = a, lv_session = session, lv_vault = vault,
      lv_expiry = expiry, lv_reservation_bytes = bs, lv_response = plain_binding,
      lv_reservation = Some reservation, lv_commit = None, lv_reveal = None, lv_fixed = None\<rparr>"
  have "leaf_reserve P session now bs support r = (Inr a, r') \<longleftrightarrow>
      (\<exists>reservation expiry vault nxt. ?parsed = Inr (reservation, expiry, vault)
         \<and> checked_succ (lr_next_sequence r) = Some nxt
         \<and> a = \<lparr>la_device = lr_device r, la_sequence = lr_next_sequence r\<rparr>
         \<and> r' = r\<lparr>lr_next_sequence := nxt, lr_live := Some (?live reservation expiry vault)\<rparr>)"
    using assms(4)
    by (cases "?parsed"; cases "checked_succ (lr_next_sequence r)")
      (auto simp: leaf_reserve_def leaf_reserve_with_def issue_attempt_def)
  then show ?thesis by (simp only: parsed conj_assoc)
qed

section \<open>What genesis hands out\<close>

lemma genesis_leaf_fits:
  assumes P: "group_ok P" and g: "genesis_built P g"
    and dg: "attach_share P g person device identity member = Inr dg"
    and new: "leaf_new dg epoch = Inr r"
    and inner: "genesis_inner_support g person devices = Inr inner"
    and outer: "genesis_outer_support g people = Inr outer" and dev: "device \<in> set devices"
    and body: "bd_inner body = inner" "bd_epoch body = epoch" "bd_identity body = dg_identity_key dg"
      "bd_member body = dg_member_point dg" "op_body (rv_opening reservation) = body"
      "rp_key (rv_prepackage reservation) = vault_key g"
  shows "reservation_fits P r reservation outer (vg_vault g)"
proof -
  from attach_share_built [OF P g dg] obtain q d where q: "genesis_person g person = Inr q"
    and d: "gq_device q device = Inr d"
    and fields: "dg_vault dg = vg_vault g" "dg_person dg = person" "dg_device dg = device"
      "dg_node dg = gd_node d"
      "dg_identity_map dg = \<lparr>im_commitments = gp_commitments (gq_identity q),
         im_devices = map (\<lambda>d. (gd_device d, gd_node d, gd_identity_share d)) (gq_devices q)\<rparr>"
      "dg_member_map dg = gp_commitments (gq_member q)"
      "dg_outer_map dg = \<lparr>om_commitments = gp_commitments (vg_outer g),
         om_people = map (\<lambda>p. (gq_person p, gq_outer_node p, member_point p)) (vg_people g)\<rparr>"
      "dg_member_point dg = member_point q" "dg_vault_key dg = vault_key g" "dg_identity dg = identity"
      "signing_share (dg_identity dg) (dg_anchor dg) = member"
    and share: "element_from_scalar P member =
      evaluate_commitments P (gp_commitments (gq_member q)) (gd_node d)"
    by blast
  have gok: "genesis_ok P g" and qok: "public_person_ok P q"
    using genesis_builtD [OF g] genesis_person_Inr [of P g person q] q person_builtD by blast+
  have roster: "distinct (map gd_device (gq_devices q))" "distinct (map gq_person (vg_people g))"
    using gok qok by (simp_all add: genesis_ok_def public_person_ok_def strict_sorted_iff)
  note ib = genesis_inner_support_built [OF P g q inner]
  note ob = genesis_outer_support_built [OF P g outer]
  have reg: "lr_vaults r = [(vg_vault g, genesis_vault_state dg epoch)]" "lr_device r = device"
    "lr_node r = gd_node d" "lr_identity_map r = dg_identity_map dg" "lr_identity r = identity"
    "lr_identity_key r = dg_identity_key dg"
    and ep: "leaf_epoch r (vg_vault g) = Inr epoch"
    using new fields
    by (auto simp: leaf_new_def validate_genesis_epoch_def and_then_Inr_iff if_Inl_eq_Inr leaf_epoch_Inr
        genesis_vault_state_def anchor_id_eq split: if_splits)
  have search_d: "search_key fst (gd_device x)
      (map (\<lambda>d. (gd_device d, gd_node d, gd_identity_share d)) (gq_devices q)) =
      Some (gd_device x, gd_node x, gd_identity_share x)" if "x \<in> set (gq_devices q)" for x
    using search_key_distinct [of fst "map (\<lambda>d. (gd_device d, gd_node d, gd_identity_share d)) (gq_devices q)"
        "(gd_device x, gd_node x, gd_identity_share x)"] roster(1) that by (simp add: comp_def)
  have search_p: "search_key fst (gq_person x)
      (map (\<lambda>p. (gq_person p, gq_outer_node p, member_point p)) (vg_people g)) =
      Some (gq_person x, gq_outer_node x, member_point x)" if "x \<in> set (vg_people g)" for x
    using search_key_distinct [of fst "map (\<lambda>p. (gq_person p, gq_outer_node p, member_point p)) (vg_people g)"
        "(gq_person x, gq_outer_node x, member_point x)"] roster(2) that by (simp add: comp_def)
  have inners: "inner_fits P (lr_identity_map r) (dg_member_map dg) p" if "p \<in> set (is_participants inner)" for p
    using ib(3) that by (auto simp: inner_fits_def reg fields search_d gp_evaluate_def)
  have count_unat: "count_u16 (unat w) = Inr w" for w
    using unsigned_less [of w, where 'a = nat] by (simp add: count_u16_def)
  have outers: "outer_fits P (dg_outer_map dg) i p"
    if "(i, p) \<in> set (enumerate 0 (os_participants outer))" for i p
  proof -
    from that have i: "i < length (os_participants outer)" "p = os_participants outer ! i"
      by (auto simp: in_set_enumerate_eq)
    then have "unat (pp_slot p) = Suc i"
      using arg_cong [OF ob(3), of "\<lambda>xs. xs ! i"] ob(2) by (simp add: nth_append split: if_splits)
    then have "count_u16 (Suc i) = Inr (pp_slot p)"
      using count_unat [of "pp_slot p"] by simp
    moreover from ob(5) i obtain x where "x \<in> set (vg_people g)" "pp_person p = gq_person x"
      "pp_node p = gq_outer_node x" "pp_member p = member_point x"
      "pp_member p = gp_evaluate P (vg_outer g) (pp_node p)" by (metis nth_mem)
    ultimately show ?thesis
      using search_p [of x] by (simp add: outer_fits_def fields gp_evaluate_def)
  qed
  have own: "\<exists>p \<in> set (is_participants inner). dp_device p = device \<and> dp_node p = gd_node d
      \<and> element_from_scalar P member = dp_share p"
  proof -
    from inner q obtain ps where ps: "collect_results (\<lambda>device_id.
        and_then (gq_device q device_id) (\<lambda>device. Inr \<lparr>dp_device = device_id,
          dp_node = gd_node device, dp_share = gd_member_share device\<rparr>)) devices = Inr ps"
      and s: "inner_support_new ps = Inr inner"
      by (auto simp: genesis_inner_support_def and_then_Inr_iff if_Inl_eq_Inr)
    from dev obtain i where i: "i < length devices" "devices ! i = device"
      by (auto simp: in_set_conv_nth)
    with ps have "ps ! i \<in> set ps" "and_then (gq_device q device) (\<lambda>x. Inr \<lparr>dp_device = device,
          dp_node = gd_node x, dp_share = gd_member_share x\<rparr>) = Inr (ps ! i)"
      by (auto simp: collect_results_Inr_iff list_all2_conv_all_nth)
    then have "ps ! i \<in> set (is_participants inner)" "ps ! i = \<lparr>dp_device = device,
        dp_node = gd_node d, dp_share = gd_member_share d\<rparr>"
      using d s by (simp_all add: inner_support_new_Inr)
    moreover have "gd_member_share d = gp_evaluate P (gq_member q) (gd_node d)"
      using d qok by (auto simp: gq_device_Inr [OF qok] public_person_ok_def)
    ultimately show ?thesis
      using share by (intro bexI [of _ "ps ! i"]) (simp_all add: gp_evaluate_def)
  qed
  have "signing_share identity (dg_anchor dg) = member" using fields(10,11) by simp
  then show ?thesis
    unfolding reservation_fits_def Let_def
    using ep inners outers own ib(2,4) ob(2,6)
    by (auto simp: body reg fields genesis_vault_state_def gq_threshold_def vg_threshold_def
        gp_threshold_def)
qed

end
