(* ===== verification/Ksnf_Leaf_Claims.thy ===== *)
theory Ksnf_Leaf_Claims
  imports Ksnf_Leaf_Demo Ksnf_Leaf_Support
begin

text \<open>
  The guarantees of genesis and of one device's registry, over any run of its operations.
\<close>

section \<open>Genesis\<close>

text \<open>
  C22. Genesis composes with the registry: the reservation whose supports genesis hands out, under
  the epoch and keys of an attached device of the inner support, passes every check of that
  device's registry.
\<close>

theorem genesis_reservation_accepted:
  assumes "group_ok P" "genesis_built P g"
    and "attach_share P g person device identity member = Inr dg" "leaf_new dg epoch = Inr r"
    and "genesis_inner_support g person devices = Inr inner" "device \<in> set devices"
    and "genesis_outer_support g people = Inr outer"
    and "op_body (rv_opening reservation) = \<lparr>bd_identity = dg_identity_key dg,
      bd_member = dg_member_point dg, bd_epoch = epoch, bd_inner = inner, bd_outer = coefficient\<rparr>"
    and "rp_key (rv_prepackage reservation) = vault_key g"
  shows "validate_reservation P r reservation outer = Inr (vg_vault g)"
proof -
  have "inner_support_ok inner" "outer_support_ok outer"
    using assms(5,7) by (auto simp: genesis_inner_support_def genesis_outer_support_def Let_def
        and_then_Inr_iff if_Inl_eq_Inr inner_support_new_Inr outer_support_new_Inr)
  moreover have "reservation_fits P r reservation outer (vg_vault g)"
    by (rule genesis_leaf_fits [OF assms(1-5,7,6) _ _ _ _ assms(8,9)]) simp_all
  ultimately show ?thesis by (simp add: validate_reservation_Inr assms(8))
qed

theorem genesis_reservation_accepted_witness:
  "validate_reservation toy_profile demo_leaf demo_reservation demo_outer = Inr (Ident 9)"
proof -
  have "op_body (rv_opening demo_reservation) = \<lparr>bd_identity = dg_identity_key demo_device,
      bd_member = dg_member_point demo_device, bd_epoch = demo_epoch (Ident 1), bd_inner = demo_inner,
      bd_outer = bd_outer demo_body\<rparr>" "rp_key (rv_prepackage demo_reservation) = vault_key demo_genesis"
    "vg_vault demo_genesis = Ident 9"
    by (simp_all add: demo_reservation_def demo_body_def demo_device_def package_prepackage_def
        demo_root_def vault_key_def demo_genesis_def demo_polynomial_def)
  then show ?thesis
    using genesis_reservation_accepted [OF toy_group_ok demo_genesis_built demo_attach demo_leaf_new
        demo_genesis_inner _ demo_genesis_outer, of demo_reservation "bd_outer demo_body"] by simp
qed

text \<open>
  An attached share is the holder's evaluation of the committed polynomials: the identity
  share and the signing share of the attached device verify against the maps it carries, at its
  own node, and their keys are the constants of those maps.
\<close>

theorem attached_shares_verify:
  assumes "group_ok P" "genesis_built P g"
    and "attach_share P g person device identity member = Inr dg"
  shows "element_from_scalar P (dg_identity dg) =
      evaluate_commitments P (im_commitments (dg_identity_map dg)) (dg_node dg)
    \<and> element_from_scalar P (signing_share (dg_identity dg) (dg_anchor dg)) =
      evaluate_commitments P (dg_member_map dg) (dg_node dg)
    \<and> evaluate_commitments P (im_commitments (dg_identity_map dg)) 0 = dg_identity_key dg
    \<and> evaluate_commitments P (dg_member_map dg) 0 = dg_member_point dg
    \<and> evaluate_commitments P (om_commitments (dg_outer_map dg)) 0 = dg_vault_key dg
    \<and> evaluate_commitments P (om_commitments (dg_outer_map dg)) (dg_outer_node dg) = dg_member_point dg"
proof -
  from attach_share_built [OF assms] obtain q d where q: "genesis_person g person = Inr q" "gq_device q device = Inr d"
    and dg: "dg_outer_node dg = gq_outer_node q" "dg_node dg = gd_node d"
      "dg_identity_map dg = \<lparr>im_commitments = gp_commitments (gq_identity q),
         im_devices = map (\<lambda>d. (gd_device d, gd_node d, gd_identity_share d)) (gq_devices q)\<rparr>"
      "dg_member_map dg = gp_commitments (gq_member q)"
      "dg_outer_map dg = \<lparr>om_commitments = gp_commitments (vg_outer g),
         om_people = map (\<lambda>p. (gq_person p, gq_outer_node p, member_point p)) (vg_people g)\<rparr>"
      "dg_identity_key dg = identity_key q" "dg_member_point dg = member_point q"
      "dg_vault_key dg = vault_key g" "dg_identity dg = identity"
      "signing_share (dg_identity dg) (dg_anchor dg) = member"
      "element_from_scalar P identity = evaluate_commitments P (gp_commitments (gq_identity q)) (gd_node d)"
      "element_from_scalar P member = evaluate_commitments P (gp_commitments (gq_member q)) (gd_node d)"
    by blast
  have ok: "genesis_ok P g" "public_polynomial_ok (vg_outer g)" "q \<in> set (vg_people g)"
    "public_polynomial_ok (gq_identity q)" "public_polynomial_ok (gq_member q)"
    using genesis_builtD [OF assms(2)] genesis_person_Inr [of P g person q] q person_builtD by blast+
  have "gp_evaluate P (vg_outer g) (gq_outer_node q) = member_point q"
    using ok(1,3) by (simp add: genesis_ok_def)
  then show ?thesis
    using dg gp_evaluate_zero [OF assms(1) ok(2)] gp_evaluate_zero [OF assms(1) ok(4)]
      gp_evaluate_zero [OF assms(1) ok(5)]
    by (simp add: gp_evaluate_def identity_key_def member_point_def vault_key_def)
qed

theorem attached_shares_verify_witness:
  "element_from_scalar toy_profile (signing_share (dg_identity demo_device) (dg_anchor demo_device)) =
     evaluate_commitments toy_profile (dg_member_map demo_device) (dg_node demo_device)
   \<and> signing_share (dg_identity demo_device) (dg_anchor demo_device) = gf 3"
proof
  show "signing_share (dg_identity demo_device) (dg_anchor demo_device) = gf 3"
    by (simp add: demo_device_def signing_share_def)
qed (use attached_shares_verify [OF toy_group_ok demo_genesis_built demo_attach] in blast)

section \<open>Reservations\<close>

text \<open>
  C24. A free registry issues an attempt exactly for the canonical bytes of a consistent
  reservation that has not expired and fits the installed maps: its epoch, the keys, the roster,
  the shares of both supports and the device's own share; the attempt takes the next sequence
  number and becomes live with that reservation and nothing else.
\<close>

theorem leaf_reserve_exact:
  assumes "group_ok P" "outer_support_ok support" "length bs < 2 ^ 64" "lr_live r = None"
  shows "leaf_reserve P session now bs support r = (Inr a, r') \<longleftrightarrow>
    (\<exists>reservation expiry vault nxt. reservation_ok P support reservation
       \<and> reservation_to_bytes P reservation session expiry = Inr bs \<and> now < expiry
       \<and> reservation_fits P r reservation support vault
       \<and> checked_succ (lr_next_sequence r) = Some nxt
       \<and> a = \<lparr>la_device = lr_device r, la_sequence = lr_next_sequence r\<rparr>
       \<and> r' = r\<lparr>lr_next_sequence := nxt, lr_live := Some
           \<lparr>lv_attempt = a, lv_session = session, lv_vault = vault, lv_expiry = expiry,
            lv_reservation_bytes = bs, lv_response = plain_binding,
            lv_reservation = Some reservation, lv_commit = None, lv_reveal = None, lv_fixed = None\<rparr>\<rparr>)"
  by (rule leaf_reserve_free [OF assms])

theorem leaf_reserve_exact_witness:
  "reservation_fits toy_profile demo_leaf demo_reservation demo_outer (Ident 9)"
proof -
  have "length demo_bytes < 2 ^ 64" "lr_live demo_leaf = None"
    using demo_bytes(2) by (simp_all add: demo_leaf_def)
  from leaf_reserve_exact [OF toy_group_ok demo_outer_ok this, of "Ident 5" 1 demo_own demo_reserved]
  obtain reservation expiry vault nxt where made:
    "reservation_fits toy_profile demo_leaf reservation demo_outer vault"
    "demo_reserved = demo_leaf\<lparr>lr_next_sequence := nxt, lr_live := Some
       \<lparr>lv_attempt = demo_own, lv_session = Ident 5, lv_vault = vault, lv_expiry = expiry,
        lv_reservation_bytes = demo_bytes, lv_response = plain_binding,
        lv_reservation = Some reservation, lv_commit = None, lv_reveal = None, lv_fixed = None\<rparr>\<rparr>"
    using demo_reserve by blast
  from arg_cong [OF made(2), of lr_live] made(1) show ?thesis
    by (simp add: demo_reserved_def demo_live_def)
qed

text \<open>
  C39. The sequence counter never wraps: with a valid reservation a free registry issues the
  current number and moves to the next one, except at the largest number, where it reports
  exhaustion and stays as it is.
\<close>

theorem leaf_sequence_bounds:
  assumes "lr_live r = None" "parse_reservation P bs support = Inr (reservation, session, expiry)"
    and "now < expiry" "validate_reservation P r reservation support = Inr vault"
  shows "if unat (lr_next_sequence r) + 1 < 2 ^ 64
    then fst (leaf_reserve P session now bs support r) =
        Inr \<lparr>la_device = lr_device r, la_sequence = lr_next_sequence r\<rparr>
      \<and> unat (lr_next_sequence (snd (leaf_reserve P session now bs support r))) =
        unat (lr_next_sequence r) + 1
    else leaf_reserve P session now bs support r = (Inl AttemptExhausted, r)"
proof -
  have top: "lr_next_sequence r = - 1 \<longleftrightarrow> \<not> unat (lr_next_sequence r) + 1 < 2 ^ 64"
    using unsigned_less [of "lr_next_sequence r", where 'a = nat]
    by (auto simp: word_unat_eq_iff unsigned_minus_1_eq_mask mask_eq_exp_minus_1)
  show ?thesis
  proof (cases "lr_next_sequence r = - 1")
    case True
    with assms show ?thesis
      unfolding if_not_P [OF top [THEN iffD1, OF True]]
      by (simp add: leaf_reserve_def leaf_reserve_with_def issue_attempt_def not_le [symmetric]
          checked_succ_def)
  next
    case False
    then have "checked_succ (lr_next_sequence r) = Some (lr_next_sequence r + 1)"
      by (simp add: checked_succ_def)
    with assms checked_succ_unat [OF this] False top show ?thesis
      by (simp add: leaf_reserve_def leaf_reserve_with_def issue_attempt_def not_le [symmetric])
  qed
qed

theorem leaf_sequence_bounds_witness:
  "leaf_reserve toy_profile (Ident 5) 1 demo_bytes demo_outer (demo_leaf\<lparr>lr_next_sequence := -1\<rparr>) =
     (Inl AttemptExhausted, demo_leaf\<lparr>lr_next_sequence := -1\<rparr>)"
proof -
  let ?r = "demo_leaf\<lparr>lr_next_sequence := -1\<rparr>"
  have "leaf_epoch ?r vault = leaf_epoch demo_leaf vault"
    "validate_inner_support toy_profile ?r v s = validate_inner_support toy_profile demo_leaf v s" for vault v s
    by (simp_all add: validate_inner_support_def leaf_epoch_def)
  then have "validate_reservation toy_profile ?r demo_reservation demo_outer
      = validate_reservation toy_profile demo_leaf demo_reservation demo_outer"
    by (simp add: validate_reservation_def Let_def cong: if_cong)
  moreover have "unat (- 1 :: 64 word) = 2 ^ 64 - 1" by (simp add: unsigned_minus_1_eq_mask mask_eq_exp_minus_1)
  ultimately show ?thesis
    using leaf_sequence_bounds [of "demo_leaf\<lparr>lr_next_sequence := -1\<rparr>" toy_profile demo_bytes demo_outer
        demo_reservation "Ident 5" 77 1 "Ident 9"] demo_parse demo_validate
    by (simp add: word_less_nat_alt) (simp add: demo_leaf_def)
qed

section \<open>Runs of a registry\<close>

text \<open>
  C7. One response per attempt: in any run of a new registry - reservations, rounds, responses of
  either mode, closures, aborts, expiry, new vaults and activations in any order - no attempt is
  answered twice, and an answered attempt stays closed to every later response.
\<close>

theorem leaf_single_response:
  assumes "leaf_new parts epoch = Inr r" "leaf_run P draw r es r'" "e \<in> set es"
  shows "distinct (map fst es) \<and> leaf_is_closed r' (fst e)
    \<and> leaf_respond_with (fst e) mode f r' = (Inl AttemptClosed, r')"
  using leaf_run_responses [OF assms(2) leaf_new_inv [OF assms(1)]] assms(3)
  by (auto intro: respond_closed)

theorem leaf_single_response_witness:
  "leaf_respond toy_profile demo_own demo_root_wire demo_final = (Inl AttemptClosed, demo_final)"
  using leaf_single_response [OF demo_leaf_new demo_run, of "(demo_own, \<lparr>dr_attempt = demo_own, dr_scalar = gf 5\<rparr>)"
      PlainMode "plain_response toy_profile demo_root_wire"]
  by (simp add: leaf_respond_def)

text \<open>
  C17. Refinement: seen from one attempt, every step of a registry is a step of the four-stage
  machine - it stays, opens in the first stage, moves one stage on or closes - and a response is
  given in the last stage only and closes the attempt.
\<close>

theorem leaf_refines_attempt:
  assumes "leaf_new parts epoch = Inr r0" "leaf_run P draw r0 es r" "leaf_step P draw r e r'"
  shows "attempt_step (attempt_of r a) (attempt_of r' a)
    \<and> (e = Some (a, x) \<longrightarrow> attempt_of r a = LiveAt Fixed \<and> attempt_of r' a = Closed)"
proof
  have inv: "leaf_inv P r" by (rule leaf_run_inv [OF assms(2) leaf_new_inv [OF assms(1)]])
  show "attempt_step (attempt_of r a) (attempt_of r' a)" by (rule leaf_step_refines [OF assms(3) inv])
  show "e = Some (a, x) \<longrightarrow> attempt_of r a = LiveAt Fixed \<and> attempt_of r' a = Closed"
  proof
    assume "e = Some (a, x)"
    with assms(3) obtain mode f where step: "leaf_respond_with a mode f r = (Inr x, r')"
      by (auto elim: leaf_step.cases)
    from respond_Inr [OF step] obtain live fixed where live: "lr_live r = Some live"
      "lv_attempt live = a" "lv_fixed live = Some fixed" "r' = r\<lparr>lr_live := None\<rparr>" by blast
    then show "attempt_of r a = LiveAt Fixed \<and> attempt_of r' a = Closed"
      using leaf_inv_issued [OF inv, of a]
      by (simp add: attempt_of_def live_stage_def leaf_live_attempt_def leaf_issued_def)
  qed
qed

theorem leaf_refines_attempt_witness:
  "attempt_of demo_fixed demo_own = LiveAt Fixed \<and> attempt_of demo_final demo_own = Closed"
  using leaf_refines_attempt [OF demo_leaf_new demo_run_fixed
      step_respond [OF demo_leaf_respond [unfolded leaf_respond_def]], of demo_own "\<lparr>dr_attempt = demo_own, dr_scalar = gf 5\<rparr>"] by simp

text \<open>
  C29. Openings are bound before they are seen: whenever an attempt holds fixed openings, its own
  published nonces are those of its secret nonce, its view carries its own commitment, the fixed
  set has exactly the support's devices, and every nonce pair in it opens the commitment that
  device had in the held view.
\<close>

theorem leaf_openings_bound:
  assumes "leaf_new parts epoch = Inr r0" "leaf_run P draw r0 es r"
    and "lr_live r = Some live" "lv_fixed live = Some fixed"
  shows "\<exists>reservation v c n. lv_reservation live = Some reservation \<and> lv_reveal live = Some v
    \<and> lv_commit live = Some c \<and> ct_nonce c = Some n
    \<and> nonce_commitments P n = Inr (ct_pair c)
    \<and> nonce_commitment P (lv_attempt live) (lv_reservation_bytes live) (ct_pair c) =
        view_commitment (rl_view v) (lv_attempt live)
    \<and> map dn_device (dns_entries (fx_nonces fixed)) =
        map dp_device (is_participants (bd_inner (op_body (rv_opening reservation))))
    \<and> (\<forall>e \<in> set (dns_entries (fx_nonces fixed)).
        nonce_commitment P (dn_attempt e) (lv_reservation_bytes live) (dn_nonce e) =
        view_commitment (rl_view v) (dn_attempt e))"
proof -
  have inv: "live_inv P r live"
    by (rule leaf_inv_live [OF leaf_run_inv [OF assms(2) leaf_new_inv [OF assms(1)]] assms(3)])
  with assms(4) obtain v c where v: "lv_reveal live = Some v" "fixed_inv P live v fixed"
    and c: "lv_commit live = Some c" "reveal_inv live c v" "commit_inv P live c"
    unfolding live_inv_def by blast
  moreover from c(3) obtain n where "ct_nonce c = Some n" "nonce_commitments P n = Inr (ct_pair c)"
    unfolding commit_inv_def by blast
  moreover from v(2) obtain reservation where "lv_reservation live = Some reservation"
    "nonce_set_ok (bd_inner (op_body (rv_opening reservation))) (fx_nonces fixed)"
    unfolding fixed_inv_def by blast
  ultimately show ?thesis
    by (intro exI [of _ reservation] exI [of _ v] exI [of _ c] exI [of _ n])
      (auto simp: fixed_inv_def reveal_inv_def commit_inv_def nonce_set_ok_def)
qed

theorem leaf_openings_bound_witness:
  "nonce_commitment toy_profile demo_sibling demo_bytes \<lparr>np_hiding = gf 2, np_binding = gf 1\<rparr> =
     view_commitment (demo_view demo_bytes) demo_sibling"
proof -
  obtain live where live: "lr_live demo_fixed = Some live" by (simp add: demo_fixed_def demo_held_def)
  then have fields: "lv_fixed live = Some \<lparr>fx_bytes = demo_opening_bytes demo_bytes, fx_nonces = demo_set\<rparr>"
    "map_option rl_view (lv_reveal live) = Some (demo_view demo_bytes)" "lv_reservation_bytes live = demo_bytes"
    by (auto simp: demo_leaf_defs)
  have "\<lparr>dn_attempt = demo_sibling, dn_nonce = \<lparr>np_hiding = gf 2, np_binding = gf 1\<rparr>\<rparr>
      \<in> set (dns_entries demo_set)" by (simp add: demo_set_def demo_pairs_def)
  then show ?thesis
    using leaf_openings_bound [OF demo_leaf_new demo_run_fixed live fields(1)] fields(2,3) by fastforce
qed

text \<open>
  C33. The response of an attempt passes its member's check: under the package and transcript it
  answers, it verifies against the device's public share and its published nonces in the fixed
  set, with the device's coefficient and the member's binding factor.
\<close>

theorem leaf_response_verifies:
  assumes "group_ok P" "leaf_respond P a root_bytes r = (Inr x, r')"
    and "lr_live r = Some live" "lv_reservation live = Some reservation"
    and "inner_support_ok (bd_inner (op_body (rv_opening reservation)))"
  shows "\<exists>root t s fixed p b. package_from_bytes P root_bytes = Inr root
    \<and> transcript_finalize root reservation = Inr t \<and> signing_context_new P root = Inr s
    \<and> lv_fixed live = Some fixed
    \<and> inner_participant (bd_inner (mt_body t)) (lr_device r) = Inr p
    \<and> context_binding s (bd_slot (mt_body t)) = Inr b
    \<and> device_response_ok P s (fx_nonces fixed) (bd_inner (mt_body t)) b
        (ocf_scalar (bd_outer (mt_body t))) x p"
proof -
  from respond_Inr [OF assms(2) [unfolded leaf_respond_def]] assms(3,4)
  obtain fixed nonce share session expiry bs where fixed: "lv_fixed live = Some fixed"
    and resp: "plain_response P root_bytes \<lparr>ri_nonce = nonce, ri_reservation = reservation,
      ri_nonces = fx_nonces fixed, ri_device = lr_device r, ri_share = share, ri_session = session,
      ri_expiry = expiry\<rparr> bs = Inr x"
    by auto
  then obtain root t s where root: "package_from_bytes P root_bytes = Inr root"
    and t: "transcript_finalize root reservation = Inr t" and s: "signing_context_new P (mt_root t) = Inr s"
    and r: "respond_device P nonce t s (fx_nonces fixed) (lr_device r) share = Inr x"
    by (auto simp: plain_response_def and_then_Inr_iff if_Inl_eq_Inr)
  from t have mt: "mt_root t = root" "mt_body t = op_body (rv_opening reservation)"
    by (auto simp: transcript_finalize_def if_Inl_eq_Inr)
  from r obtain p b where p: "inner_participant (bd_inner (mt_body t)) (lr_device r) = Inr p"
    and b: "context_binding s (bd_slot (mt_body t)) = Inr b"
    by (auto simp: respond_device_def and_then_Inr_iff if_Inl_eq_Inr Let_def)
  have support: "inner_support_ok (bd_inner (mt_body t))" using assms(5) mt(2) by simp
  note q = p [unfolded inner_participant_Inr [OF support]]
  have "device_response_ok P s (fx_nonces fixed) (bd_inner (mt_body t)) b
      (ocf_scalar (bd_outer (mt_body t))) x p"
    using respond_device_response(5) [OF assms(1) support r b] q by blast
  with root t s [unfolded mt(1)] fixed p b show ?thesis by blast
qed

theorem leaf_response_verifies_witness:
  "\<exists>p b. device_response_ok toy_profile demo_signing demo_set demo_inner b (gf 2)
     \<lparr>dr_attempt = demo_own, dr_scalar = gf 5\<rparr> p"
proof -
  obtain live where live: "lr_live demo_fixed = Some live" by (simp add: demo_fixed_def demo_held_def)
  then have fields: "lv_fixed live = Some \<lparr>fx_bytes = demo_opening_bytes demo_bytes, fx_nonces = demo_set\<rparr>"
    "lv_reservation live = Some demo_reservation" by (auto simp: demo_leaf_defs)
  have "inner_support_ok (bd_inner (op_body (rv_opening demo_reservation)))"
    by (simp add: demo_reservation_inner demo_inner_ok)
  from leaf_response_verifies [OF toy_group_ok demo_leaf_respond live fields(2) this]
  obtain t s p b where t: "transcript_finalize demo_root demo_reservation = Inr t"
    "signing_context_new toy_profile demo_root = Inr s"
    "device_response_ok toy_profile s demo_set (bd_inner (mt_body t)) b
        (ocf_scalar (bd_outer (mt_body t))) \<lparr>dr_attempt = demo_own, dr_scalar = gf 5\<rparr> p"
    by (auto simp: fields(1) demo_root_wire)
  from t(1) have "mt_body t = demo_body"
    by (auto simp: transcript_finalize_def if_Inl_eq_Inr demo_reservation_def)
  with t(2,3) show ?thesis by (auto simp: demo_signing_new demo_body_def)
qed

text \<open>
  C35. A failed round burns the attempt: whatever error a commit, reveal or fix of the live attempt
  reports, the attempt is closed afterwards.
\<close>

theorem leaf_error_closes:
  assumes "leaf_new parts epoch = Inr r0" "leaf_run P draw r0 es r" "leaf_live_attempt r = Some a"
    and "leaf_reveal P a ds r = (Inl e, r') \<or> leaf_fix P a os r = (Inl e, r')
      \<or> leaf_commit P draw a bs r rng = Some ((Inl e, r'), rng')"
  shows "leaf_is_closed r' a"
proof -
  have inv: "leaf_inv P r" by (rule leaf_run_inv [OF assms(2) leaf_new_inv [OF assms(1)]])
  from assms(3) obtain live where live: "lr_live r = Some live" "lv_attempt live = a"
    by (auto simp: leaf_live_attempt_def)
  from assms(4) have "r' = r\<lparr>lr_live := None\<rparr>"
  proof (elim disjE)
    assume "leaf_reveal P a ds r = (Inl e, r')"
    then show ?thesis
      by (auto simp: leaf_reveal_def take_live_live [OF live] split: sum.splits option.splits if_splits)
  next
    assume "leaf_fix P a os r = (Inl e, r')"
    then show ?thesis
      by (auto simp: leaf_fix_def take_live_live [OF live] split: sum.splits option.splits if_splits)
  next
    assume "leaf_commit P draw a bs r rng = Some ((Inl e, r'), rng')"
    then show ?thesis
      by (auto simp: leaf_commit_def take_live_live [OF live] split: sum.splits option.splits if_splits)
  qed
  with leaf_inv_issued [OF inv assms(3)] show ?thesis
    by (simp add: leaf_is_closed_iff leaf_issued_def leaf_live_attempt_def)
qed

theorem leaf_error_closes_witness:
  "leaf_is_closed (demo_fixed\<lparr>lr_live := None\<rparr>) demo_own"
proof -
  obtain live where live: "lr_live demo_fixed = Some live" "lv_attempt live = demo_own"
    "lv_reservation live = Some demo_reservation"
    by (simp add: demo_leaf_defs)
  have "leaf_fix toy_profile demo_own [] demo_fixed =
      (Inl EmptyInput, demo_fixed\<lparr>lr_live := None\<rparr>)"
    by (simp add: leaf_fix_def take_live_live [OF live(1,2)] live(3) demo_reservation_inner
        opening_view_new_def demo_inner_def demo_devices_def)
  then show ?thesis
    using leaf_error_closes [OF demo_leaf_new demo_run_fixed, of demo_own "[]" EmptyInput _ "[]"]
      live(1,2) by (simp add: leaf_live_attempt_def)
qed

text \<open>
  Replays are idempotent: repeating a successful commit, reveal or fix with the same message
  returns the same value from the new state, leaves it as it is and draws nothing.
\<close>

theorem leaf_rounds_replay:
  assumes "leaf_commit P draw a bs r1 rng = Some ((Inr c, r1'), rng')"
    and "leaf_reveal P a ds r2 = (Inr pair, r2')" "leaf_fix P a os r3 = (Inr agg, r3')"
  shows "leaf_commit P draw a bs r1' rng'' = Some ((Inr c, r1'), rng'')
    \<and> leaf_reveal P a ds r2' = (Inr pair, r2') \<and> leaf_fix P a os r3' = (Inr agg, r3')"
  by (intro conjI commit_replay [OF assms(1)] reveal_replay [OF assms(2)] fix_replay [OF assms(3)])

theorem leaf_rounds_replay_witness:
  "leaf_fix toy_profile demo_own (demo_openings demo_bytes) demo_fixed =
     (Inr \<lparr>np_hiding = gf 3, np_binding = gf 2\<rparr>, demo_fixed)"
  using leaf_rounds_replay [OF demo_commit [OF demo_bytes(2)] demo_reveal [OF demo_bytes(2)] demo_fix [OF demo_bytes(2)]] by blast

text \<open>
  C40. A commit returns: over a source from which every state eventually draws a nonzero scalar,
  sampling both nonces ends and the commit has a result.
\<close>

theorem leaf_commit_returns:
  assumes "\<forall>rng. \<exists>n. fst (draw (((\<lambda>s. snd (draw s)) ^^ n) rng)) \<noteq> 0"
  shows "\<exists>res r' rng'. leaf_commit P draw a bs r rng = Some ((res, r'), rng')"
proof -
  have some: "\<exists>x rng'. random_nonzero draw rng = Some (x, rng')" for rng
  proof -
    from assms obtain n where "fst (draw (((\<lambda>s. snd (draw s)) ^^ n) rng)) \<noteq> 0" by blast
    then show ?thesis by (rule random_nonzero_total)
  qed
  from some [of rng] obtain x rng1 where x: "random_nonzero draw rng = Some (x, rng1)" by blast
  from some [of rng1] obtain y rng2 where "random_nonzero draw rng1 = Some (y, rng2)" by blast
  with x have "nonce_sample draw rng = Some (\<lparr>sn_hiding = x, sn_binding = y\<rparr>, rng2)"
    by (simp add: nonce_sample_def)
  then show ?thesis
    by (auto simp: leaf_commit_def split: prod.splits sum.splits option.splits)
qed

theorem leaf_commit_returns_witness:
  "\<exists>res r'. leaf_commit toy_profile demo_draw demo_own demo_bytes demo_reserved () = Some ((res, r'), ())"
  using leaf_commit_returns [of demo_draw toy_profile demo_own demo_bytes demo_reserved "()"]
  by (simp add: demo_draw_def)

text \<open>
  Closed is final: once an attempt of this device is closed, every later state of a run finds
  it closed, and rounds, closing and responses all refuse it without changing the registry.
\<close>

theorem leaf_closed_forever:
  assumes "leaf_is_closed r a" "leaf_run P draw r es r'"
  shows "leaf_is_closed r' a \<and> leaf_commit P draw a bs r' rng = Some ((Inl AttemptClosed, r'), rng)
    \<and> leaf_reveal P a ds r' = (Inl AttemptClosed, r') \<and> leaf_fix P a os r' = (Inl AttemptClosed, r')
    \<and> leaf_respond P a root r' = (Inl AttemptClosed, r') \<and> leaf_close a r' = (Inl AttemptClosed, r')"
  using leaf_closed_mono [OF leaf_run_progress [OF assms(2)] assms(1)]
  by (simp add: leaf_commit_def leaf_reveal_def leaf_fix_def leaf_respond_def respond_closed
      leaf_close_def take_live_def)

theorem leaf_closed_forever_witness:
  "leaf_close demo_own demo_final = (Inl AttemptClosed, demo_final)"
proof -
  have "leaf_is_closed demo_final demo_own"
    by (simp add: leaf_is_closed_def demo_leaf_defs demo_own_def)
  then show ?thesis
    using leaf_closed_forever [of demo_final demo_own toy_profile demo_draw "[]" demo_final] run_refl
    by blast
qed

end
