(* ===== verification/Ksnf_Candidate.thy ===== *)
theory Ksnf_Candidate
  imports Ksnf_Target
begin

text \<open>
  One redistribution transcript and the bundle of a person's inner transcripts
  (\<open>src/dealing/candidate.rs\<close>). Both run over any implementation of the trait \<open>LogAct\<close>: the
  record \<open>log_act\<close> holds its operations, over a state of its own. Activation is partial because
  an implementation's handle allocation may be; every other operation returns. An operation on
  \<open>&mut self\<close> and \<open>&mut log\<close> returns its result with both new states.
\<close>

section \<open>The log as an interface\<close>

record 'l log_act =
  lg_begin :: "scope_id \<Rightarrow> command_id \<Rightarrow> activation_handle \<Rightarrow> bytes \<Rightarrow> 'l \<Rightarrow> unit result \<times> 'l"
  lg_post :: "command_id \<Rightarrow> log_phase \<Rightarrow> bytes \<Rightarrow> bytes \<Rightarrow> 'l \<Rightarrow> unit result \<times> 'l"
  lg_close_phase :: "command_id \<Rightarrow> log_phase \<Rightarrow> 'l \<Rightarrow> unit result \<times> 'l"
  lg_abort :: "command_id \<Rightarrow> 'l \<Rightarrow> terminal result \<times> 'l"
  lg_activate :: "command_id \<Rightarrow> 'l \<Rightarrow> (terminal result \<times> 'l) option"
  lg_activate_bundle :: "command_id list \<Rightarrow> 'l \<Rightarrow> (terminal result \<times> 'l) option"

definition memory_act :: "memory_log log_act" where
  "memory_act = \<lparr>lg_begin = log_begin, lg_post = log_post, lg_close_phase = log_close_phase,
     lg_abort = log_abort, lg_activate = log_activate, lg_activate_bundle = log_activate_bundle\<rparr>"

section \<open>One candidate\<close>

datatype candidate_stage = CommitStage | OpenStage | ReceiptStage | ReadyStage | TerminalStage

record ('s, 'g) candidate =
  ca_command :: "('s, 'g) command"
  ca_commitments :: "(role_id \<times> 's) list"
  ca_commit_closed :: bool
  ca_openings :: "(role_id \<times> ('s, 'g) deal_opening) list"
  ca_receipts :: "(target_id \<times> target_receipt) list"
  ca_view :: "('s, 'g) candidate_view option"
  ca_terminal :: "terminal option"
  ca_stage :: candidate_stage

abbreviation ca_id :: "('s, 'g) candidate \<Rightarrow> command_id" where
  "ca_id c \<equiv> cm_command (ca_command c)"

definition abort_with ::
  "'l log_act \<Rightarrow> ksnf_error \<Rightarrow> ('s, 'g) candidate \<Rightarrow> 'l
     \<Rightarrow> 'a result \<times> ('s, 'g) candidate \<times> 'l" where
  "abort_with L error c log =
     (case lg_abort L (ca_id c) log of
       (Inr t, log') \<Rightarrow> (Inl error, c\<lparr>ca_terminal := Some t, ca_stage := TerminalStage\<rparr>, log')
     | (Inl _, log') \<Rightarrow> (Inl error, c\<lparr>ca_stage := TerminalStage\<rparr>, log'))"

definition candidate_new ::
  "('s::zero, 'g::zero) profile \<Rightarrow> 'l log_act \<Rightarrow> ('s, 'g) command \<Rightarrow> 'l
     \<Rightarrow> ('s, 'g) candidate result \<times> 'l" where
  "candidate_new P L command log =
     (case command_to_bytes P command of
       Inl e \<Rightarrow> (Inl e, log)
     | Inr bs \<Rightarrow>
         (case lg_begin L (cm_scope command) (cm_command command) (cm_predecessor command) bs log of
           (Inl e, log') \<Rightarrow> (Inl e, log')
         | (Inr _, log') \<Rightarrow>
             (Inr \<lparr>ca_command = command, ca_commitments = [], ca_commit_closed = False,
                   ca_openings = [], ca_receipts = [], ca_view = None, ca_terminal = None,
                   ca_stage = CommitStage\<rparr>, log')))"

definition candidate_commit ::
  "('s, 'g) profile \<Rightarrow> 'l log_act \<Rightarrow> role_id \<Rightarrow> 's \<Rightarrow> ('s, 'g) candidate \<Rightarrow> 'l
     \<Rightarrow> unit result \<times> ('s, 'g) candidate \<times> 'l" where
  "candidate_commit P L role commitment c log =
     (case map_of (ca_commitments c) role of
       Some existing \<Rightarrow>
         if existing = commitment then (Inr (), c, log) else abort_with L ReplayMismatch c log
     | None \<Rightarrow>
         if ca_stage c \<noteq> CommitStage \<or> command_role (ca_command c) role = Inl ParticipantNotFound
         then abort_with L WrongStage c log
         else case lg_post L (ca_id c) CommitPhase (encode_role role) (put_scalar P commitment) log of
           (Inl e, log') \<Rightarrow> abort_with L e c log'
         | (Inr _, log') \<Rightarrow>
             (Inr (), c\<lparr>ca_commitments := bt_insert role commitment (ca_commitments c)\<rparr>, log'))"

definition candidate_close_commitments ::
  "'l log_act \<Rightarrow> ('s, 'g) candidate \<Rightarrow> 'l \<Rightarrow> unit result \<times> ('s, 'g) candidate \<times> 'l" where
  "candidate_close_commitments L c log =
     (if ca_commit_closed c then (Inr (), c, log)
      else if ca_terminal c \<noteq> None then (Inl AlreadyTerminal, c, log)
      else if ca_stage c \<noteq> CommitStage
         \<or> length (ca_commitments c) \<noteq> length (cm_roles (ca_command c))
         \<or> list_ex (\<lambda>r. map_of (ca_commitments c) (sp_role r) = None) (cm_roles (ca_command c))
      then abort_with L SupportMismatch c log
      else case lg_close_phase L (ca_id c) CommitPhase log of
        (Inl e, log') \<Rightarrow> abort_with L e c log'
      | (Inr _, log') \<Rightarrow> (Inr (), c\<lparr>ca_commit_closed := True, ca_stage := OpenStage\<rparr>, log'))"

text \<open>The checks of an opening, in the order the code makes them, up to its bytes.\<close>

definition check_opening ::
  "('s::field, 'g::ab_group_add) profile \<Rightarrow> ('s, 'g) candidate \<Rightarrow> ('s, 'g) deal_opening
     \<Rightarrow> bytes result" where
  "check_opening P c opening =
     and_then (command_role (ca_command c) (do_role opening)) (\<lambda>spec.
     and_then (points_validate P (do_points opening) (cm_shape (ca_command c)) (sp_constant spec)) (\<lambda>_.
     and_then (ok_or CommitmentMismatch (map_of (ca_commitments c) (do_role opening))) (\<lambda>commitment.
     and_then (deal_opening_commitment P opening (ca_command c)) (\<lambda>own.
     if own \<noteq> commitment then Inl CommitmentMismatch else deal_opening_to_bytes P opening))))"

definition candidate_open ::
  "('s::field, 'g::ab_group_add) profile \<Rightarrow> 'l log_act \<Rightarrow> ('s, 'g) deal_opening
     \<Rightarrow> ('s, 'g) candidate \<Rightarrow> 'l \<Rightarrow> unit result \<times> ('s, 'g) candidate \<times> 'l" where
  "candidate_open P L opening c log =
     (case map_of (ca_openings c) (do_role opening) of
       Some existing \<Rightarrow>
         if existing = opening then (Inr (), c, log) else abort_with L ReplayMismatch c log
     | None \<Rightarrow>
         if ca_stage c \<noteq> OpenStage then abort_with L WrongStage c log
         else case check_opening P c opening of
           Inl e \<Rightarrow> abort_with L e c log
         | Inr bs \<Rightarrow>
             (case lg_post L (ca_id c) OpenPhase (encode_role (do_role opening)) bs log of
               (Inl e, log') \<Rightarrow> abort_with L e c log'
             | (Inr _, log') \<Rightarrow>
                 (Inr (), c\<lparr>ca_openings := bt_insert (do_role opening) opening (ca_openings c)\<rparr>, log')))"

text \<open>A released contribution is the contribution itself, from which shares may be taken.\<close>

definition candidate_open_contribution ::
  "('s::field, 'g::ab_group_add) profile \<Rightarrow> 'l log_act \<Rightarrow> ('s, 'g) contribution
     \<Rightarrow> ('s, 'g) candidate \<Rightarrow> 'l \<Rightarrow> ('s, 'g) contribution result \<times> ('s, 'g) candidate \<times> 'l" where
  "candidate_open_contribution P L contribution c log =
     (case candidate_open P L (contribution_opening contribution) c log of
       (Inl e, c', log') \<Rightarrow> (Inl e, c', log')
     | (Inr _, c', log') \<Rightarrow> (Inr contribution, c', log'))"

definition encode_candidate_view ::
  "('s::zero, 'g::zero) profile \<Rightarrow> ('s, 'g) command \<Rightarrow> (role_id \<times> 's) list
     \<Rightarrow> ('s, 'g) deal_opening list \<Rightarrow> bytes result" where
  "encode_candidate_view P command commitments openings =
     and_then (command_to_bytes P command) (\<lambda>cb.
     and_then (put_bytes cb) (\<lambda>encoded_command.
     and_then (count_u16 (length commitments)) (\<lambda>n.
     and_then (count_u16 (length openings)) (\<lambda>m.
     and_then (collect_results (\<lambda>o'. and_then (deal_opening_to_bytes P o') put_bytes) openings) (\<lambda>os.
     Inr (put_u8 (pf_wire_id P) @ encoded_command @ put_u16 n
       @ concat (map (\<lambda>(role, commitment). encode_role role @ put_scalar P commitment) commitments)
       @ put_u16 m @ concat os))))))"

definition build_view ::
  "('s::field, 'g::ab_group_add) profile \<Rightarrow> ('s, 'g) candidate \<Rightarrow> ('s, 'g) candidate_view result" where
  "build_view P c =
     (let openings = map snd (ca_openings c) in
      and_then (aggregate_points openings) (\<lambda>aggregate.
      and_then (points_validate P aggregate (cm_shape (ca_command c)) (cm_anchor (ca_command c))) (\<lambda>_.
      and_then (encode_candidate_view P (ca_command c) (ca_commitments c) openings) (\<lambda>bs.
      Inr \<lparr>vw_command = ca_command c, vw_commitments = ca_commitments c, vw_openings = openings,
           vw_bytes = bs, vw_aggregate = aggregate\<rparr>))))"

definition candidate_close_openings ::
  "('s::field, 'g::ab_group_add) profile \<Rightarrow> 'l log_act \<Rightarrow> ('s, 'g) candidate \<Rightarrow> 'l
     \<Rightarrow> ('s, 'g) candidate_view result \<times> ('s, 'g) candidate \<times> 'l" where
  "candidate_close_openings P L c log =
     (case ca_view c of
       Some view \<Rightarrow> (Inr view, c, log)
     | None \<Rightarrow>
         if ca_stage c \<noteq> OpenStage
            \<or> length (ca_openings c) \<noteq> length (cm_roles (ca_command c))
            \<or> list_ex (\<lambda>r. map_of (ca_openings c) (sp_role r) = None) (cm_roles (ca_command c))
         then abort_with L SupportMismatch c log
         else case build_view P c of
           Inl e \<Rightarrow> abort_with L e c log
         | Inr view \<Rightarrow>
             (case lg_close_phase L (ca_id c) OpenPhase log of
               (Inl e, log') \<Rightarrow> abort_with L e c log'
             | (Inr _, log') \<Rightarrow>
                 (Inr view, c\<lparr>ca_stage := ReceiptStage, ca_view := Some view\<rparr>, log')))"

definition candidate_receipt ::
  "('s, 'g) profile \<Rightarrow> 'l log_act \<Rightarrow> target_receipt \<Rightarrow> ('s, 'g) candidate \<Rightarrow> 'l
     \<Rightarrow> unit result \<times> ('s, 'g) candidate \<times> 'l" where
  "candidate_receipt P L receipt c log =
     (case map_of (ca_receipts c) (tr_target receipt) of
       Some existing \<Rightarrow>
         if existing = receipt then (Inr (), c, log) else abort_with L ReplayMismatch c log
     | None \<Rightarrow>
         if ca_stage c \<noteq> ReceiptStage \<or> tr_command receipt \<noteq> ca_id c
            \<or> tr_target receipt \<notin> set (shape_targets (cm_shape (ca_command c)))
         then abort_with L InvalidTranscript c log
         else case ca_view c of
           None \<Rightarrow> abort_with L WrongStage c log
         | Some view \<Rightarrow>
             if tr_view receipt \<noteq> vw_bytes view then abort_with L InvalidTranscript c log
             else case receipt_to_bytes P receipt of
               Inl e \<Rightarrow> abort_with L e c log
             | Inr bs \<Rightarrow>
                 (case lg_post L (ca_id c) ReceiptPhase (encode_target (tr_target receipt)) bs log of
                   (Inl e, log') \<Rightarrow> abort_with L e c log'
                 | (Inr _, log') \<Rightarrow>
                     (Inr (), c\<lparr>ca_receipts := bt_insert (tr_target receipt) receipt (ca_receipts c)\<rparr>,
                      log')))"

definition candidate_prepare ::
  "'l log_act \<Rightarrow> ('s, 'g) candidate \<Rightarrow> 'l \<Rightarrow> unit result \<times> ('s, 'g) candidate \<times> 'l" where
  "candidate_prepare L c log =
     (if ca_stage c = ReadyStage then (Inr (), c, log)
      else if ca_stage c \<noteq> ReceiptStage
         \<or> length (ca_receipts c) \<noteq> length (shape_targets (cm_shape (ca_command c)))
      then abort_with L SupportMismatch c log
      else case lg_close_phase L (ca_id c) ReceiptPhase log of
        (Inl e, log') \<Rightarrow> abort_with L e c log'
      | (Inr _, log') \<Rightarrow> (Inr (), c\<lparr>ca_stage := ReadyStage\<rparr>, log'))"

definition candidate_activate ::
  "'l log_act \<Rightarrow> ('s, 'g) candidate \<Rightarrow> 'l
     \<Rightarrow> (terminal result \<times> ('s, 'g) candidate \<times> 'l) option" where
  "candidate_activate L c log =
     (case ca_terminal c of
       Some (Activated h) \<Rightarrow> Some (Inr (Activated h), c, log)
     | Some Aborted \<Rightarrow> Some (Inl AlreadyTerminal, c, log)
     | None \<Rightarrow>
         (case candidate_prepare L c log of
           (Inl e, c', log') \<Rightarrow> Some (Inl e, c', log')
         | (Inr _, c', log') \<Rightarrow>
             (case lg_activate L (ca_id c') log' of
               None \<Rightarrow> None
             | Some (Inr t, log'') \<Rightarrow>
                 Some (Inr t, c'\<lparr>ca_stage := TerminalStage, ca_terminal := Some t\<rparr>, log'')
             | Some (Inl e, log'') \<Rightarrow> Some (abort_with L e c' log''))))"

definition candidate_abort ::
  "'l log_act \<Rightarrow> ('s, 'g) candidate \<Rightarrow> 'l \<Rightarrow> terminal result \<times> ('s, 'g) candidate \<times> 'l" where
  "candidate_abort L c log =
     (case ca_terminal c of
       Some Aborted \<Rightarrow> (Inr Aborted, c, log)
     | Some (Activated _) \<Rightarrow> (Inl AlreadyTerminal, c, log)
     | None \<Rightarrow>
         (case lg_abort L (ca_id c) log of
           (Inl e, log') \<Rightarrow> (Inl e, c, log')
         | (Inr t, log') \<Rightarrow>
             (Inr t, c\<lparr>ca_stage := TerminalStage, ca_terminal := Some t\<rparr>, log')))"

section \<open>The inner bundle\<close>

text \<open>The bundle is its ordered map of candidates. Loops over it run the log through.\<close>

type_synonym ('s, 'g) inner_bundle = "(command_id \<times> ('s, 'g) candidate) list"

fun abort_each ::
  "'l log_act \<Rightarrow> (('s, 'g) candidate \<Rightarrow> bool) \<Rightarrow> ('s, 'g) inner_bundle \<Rightarrow> 'l
     \<Rightarrow> ksnf_error list \<times> ('s, 'g) inner_bundle \<times> 'l" where
  "abort_each L p [] log = ([], [], log)"
| "abort_each L p ((k, c) # cs) log =
     (if p c then
        (case candidate_abort L c log of (r, c', log') \<Rightarrow>
        (case abort_each L p cs log' of (es, cs', log'') \<Rightarrow>
          ((case r of Inl e \<Rightarrow> [e] | Inr _ \<Rightarrow> []) @ es, (k, c') # cs', log'')))
      else (case abort_each L p cs log of (es, cs', log') \<Rightarrow> (es, (k, c) # cs', log')))"

fun each_until ::
  "(('s, 'g) candidate \<Rightarrow> 'l \<Rightarrow> 'a result \<times> ('s, 'g) candidate \<times> 'l) \<Rightarrow> ('s, 'g) inner_bundle \<Rightarrow> 'l
     \<Rightarrow> (command_id \<times> 'a) list result \<times> ('s, 'g) inner_bundle \<times> 'l" where
  "each_until f [] log = (Inr [], [], log)"
| "each_until f ((k, c) # cs) log =
     (case f c log of
       (Inl e, c', log') \<Rightarrow> (Inl e, (k, c') # cs, log')
     | (Inr a, c', log') \<Rightarrow>
         (case each_until f cs log' of
           (Inl e, cs', log'') \<Rightarrow> (Inl e, (k, c') # cs', log'')
         | (Inr as, cs', log'') \<Rightarrow> (Inr ((k, a) # as), (k, c') # cs', log'')))"

text \<open>\<open>InnerBundle::fail\<close>: every component without a decision is aborted.\<close>

definition bundle_fail ::
  "'l log_act \<Rightarrow> ksnf_error \<Rightarrow> ('s, 'g) inner_bundle \<Rightarrow> 'l
     \<Rightarrow> 'a result \<times> ('s, 'g) inner_bundle \<times> 'l" where
  "bundle_fail L error cs log =
     (case abort_each L (\<lambda>c. ca_terminal c = None) cs log of (_, cs', log') \<Rightarrow> (Inl error, cs', log'))"

fun start_candidates ::
  "('s::zero, 'g::zero) profile \<Rightarrow> 'l log_act \<Rightarrow> ('s, 'g) command list \<Rightarrow> ('s, 'g) inner_bundle \<Rightarrow> 'l
     \<Rightarrow> ('s, 'g) inner_bundle result \<times> 'l" where
  "start_candidates P L [] cs log = (Inr cs, log)"
| "start_candidates P L (command # commands) cs log =
     (case candidate_new P L command log of
       (Inr c, log') \<Rightarrow> start_candidates P L commands (bt_insert (cm_command command) c cs) log'
     | (Inl e, log') \<Rightarrow>
         (case abort_each L (\<lambda>_. True) cs log' of (_, _, log'') \<Rightarrow> (Inl e, log'')))"

fun is_single :: "'s target_shape \<Rightarrow> bool" where
  "is_single (SingleShape shape) = True"
| "is_single (OuterShape shape) = False"

definition bundle_new ::
  "('s::zero, 'g::zero) profile \<Rightarrow> 'l log_act \<Rightarrow> ('s, 'g) command list \<Rightarrow> 'l
     \<Rightarrow> ('s, 'g) inner_bundle result \<times> 'l" where
  "bundle_new P L commands log =
     (let cs = sort_key cm_command commands in
      if length commands < 2 then (Inl SupportMismatch, log)
      else if any_adjacent (\<lambda>a b. cm_command a = cm_command b) cs then (Inl DuplicateParticipant, log)
      else if card (set (map cm_scope cs)) \<noteq> length cs then (Inl DuplicateParticipant, log)
      else let shape = cm_shape (hd cs) in
      if \<not> is_single shape \<or> list_ex (\<lambda>c. cm_shape c \<noteq> shape) cs then (Inl SupportMismatch, log)
      else start_candidates P L cs [] log)"

text \<open>One component's operation: an unknown command or an error fails the whole bundle.\<close>

definition bundle_at ::
  "'l log_act \<Rightarrow> command_id \<Rightarrow> (('s, 'g) candidate \<Rightarrow> 'l \<Rightarrow> 'a result \<times> ('s, 'g) candidate \<times> 'l)
     \<Rightarrow> ('s, 'g) inner_bundle \<Rightarrow> 'l \<Rightarrow> 'a result \<times> ('s, 'g) inner_bundle \<times> 'l" where
  "bundle_at L command f cs log =
     (case map_of cs command of
       None \<Rightarrow> bundle_fail L ParticipantNotFound cs log
     | Some c \<Rightarrow>
         (case f c log of
           (Inr a, c', log') \<Rightarrow> (Inr a, bt_insert command c' cs, log')
         | (Inl e, c', log') \<Rightarrow> bundle_fail L e (bt_insert command c' cs) log'))"

definition bundle_each ::
  "'l log_act \<Rightarrow> (('s, 'g) candidate \<Rightarrow> 'l \<Rightarrow> 'a result \<times> ('s, 'g) candidate \<times> 'l)
     \<Rightarrow> ('s, 'g) inner_bundle \<Rightarrow> 'l
     \<Rightarrow> (command_id \<times> 'a) list result \<times> ('s, 'g) inner_bundle \<times> 'l" where
  "bundle_each L f cs log =
     (case each_until f cs log of
       (Inl e, cs', log') \<Rightarrow> bundle_fail L e cs' log'
     | (Inr as, cs', log') \<Rightarrow> (Inr as, cs', log'))"

definition bundle_command :: "command_id \<Rightarrow> ('s, 'g) inner_bundle \<Rightarrow> ('s, 'g) command result" where
  "bundle_command command cs =
     and_then (ok_or ParticipantNotFound (map_of cs command)) (\<lambda>c. Inr (ca_command c))"

definition bundle_commit ::
  "('s, 'g) profile \<Rightarrow> 'l log_act \<Rightarrow> command_id \<Rightarrow> role_id \<Rightarrow> 's \<Rightarrow> ('s, 'g) inner_bundle \<Rightarrow> 'l
     \<Rightarrow> unit result \<times> ('s, 'g) inner_bundle \<times> 'l" where
  "bundle_commit P L command role commitment =
     bundle_at L command (candidate_commit P L role commitment)"

definition bundle_close_commitments ::
  "'l log_act \<Rightarrow> ('s, 'g) inner_bundle \<Rightarrow> 'l \<Rightarrow> unit result \<times> ('s, 'g) inner_bundle \<times> 'l" where
  "bundle_close_commitments L cs log =
     (case bundle_each L (candidate_close_commitments L) cs log of
       (Inl e, cs', log') \<Rightarrow> (Inl e, cs', log')
     | (Inr _, cs', log') \<Rightarrow> (Inr (), cs', log'))"

definition bundle_open ::
  "('s::field, 'g::ab_group_add) profile \<Rightarrow> 'l log_act \<Rightarrow> command_id \<Rightarrow> ('s, 'g) deal_opening
     \<Rightarrow> ('s, 'g) inner_bundle \<Rightarrow> 'l \<Rightarrow> unit result \<times> ('s, 'g) inner_bundle \<times> 'l" where
  "bundle_open P L command opening = bundle_at L command (candidate_open P L opening)"

definition bundle_open_contribution ::
  "('s::field, 'g::ab_group_add) profile \<Rightarrow> 'l log_act \<Rightarrow> command_id \<Rightarrow> ('s, 'g) contribution
     \<Rightarrow> ('s, 'g) inner_bundle \<Rightarrow> 'l \<Rightarrow> ('s, 'g) contribution result \<times> ('s, 'g) inner_bundle \<times> 'l" where
  "bundle_open_contribution P L command contribution =
     bundle_at L command (candidate_open_contribution P L contribution)"

definition bundle_close_openings ::
  "('s::field, 'g::ab_group_add) profile \<Rightarrow> 'l log_act \<Rightarrow> ('s, 'g) inner_bundle \<Rightarrow> 'l
     \<Rightarrow> (command_id \<times> ('s, 'g) candidate_view) list result \<times> ('s, 'g) inner_bundle \<times> 'l" where
  "bundle_close_openings P L = bundle_each L (candidate_close_openings P L)"

definition bundle_receipt ::
  "('s, 'g) profile \<Rightarrow> 'l log_act \<Rightarrow> target_receipt \<Rightarrow> ('s, 'g) inner_bundle \<Rightarrow> 'l
     \<Rightarrow> unit result \<times> ('s, 'g) inner_bundle \<times> 'l" where
  "bundle_receipt P L receipt = bundle_at L (tr_command receipt) (candidate_receipt P L receipt)"

definition abort_all ::
  "'l log_act \<Rightarrow> ksnf_error \<Rightarrow> ('s, 'g) inner_bundle \<Rightarrow> 'l
     \<Rightarrow> 'a result \<times> ('s, 'g) inner_bundle \<times> 'l" where
  "abort_all L error cs log =
     (case abort_each L (\<lambda>_. True) cs log of (_, cs', log') \<Rightarrow> (Inl error, cs', log'))"

definition activate_candidates ::
  "'l log_act \<Rightarrow> ('s, 'g) inner_bundle \<Rightarrow> 'l
     \<Rightarrow> (terminal result \<times> ('s, 'g) inner_bundle \<times> 'l) option" where
  "activate_candidates L cs log =
     (if cs = [] then Some (Inl EmptyInput, cs, log)
      else let shape = cm_shape (ca_command (snd (hd cs))) in
      if \<not> is_single shape \<or> list_ex (\<lambda>(_, c). cm_shape (ca_command c) \<noteq> shape) cs
      then Some (abort_all L SupportMismatch cs log)
      else case ca_terminal (snd (hd cs)) of
        Some t \<Rightarrow>
          Some (if list_all (\<lambda>(_, c). ca_terminal c = Some t) cs
            then (case t of Activated h \<Rightarrow> Inr (Activated h) | Aborted \<Rightarrow> Inl AlreadyTerminal)
            else Inl AlreadyTerminal, cs, log)
      | None \<Rightarrow>
          if list_ex (\<lambda>(_, c). ca_terminal c \<noteq> None) cs then Some (Inl AlreadyTerminal, cs, log)
          else case each_until (candidate_prepare L) cs log of
            (Inl e, cs', log') \<Rightarrow> Some (abort_all L e cs' log')
          | (Inr _, cs', log') \<Rightarrow>
              (case lg_activate_bundle L (map (ca_id \<circ> snd) cs') log' of
                None \<Rightarrow> None
              | Some (Inr t, log'') \<Rightarrow>
                  Some (Inr t, map (\<lambda>(k, c). (k, c\<lparr>ca_stage := TerminalStage,
                    ca_terminal := Some t\<rparr>)) cs', log'')
              | Some (Inl e, log'') \<Rightarrow> Some (abort_all L e cs' log'')))"

definition bundle_activate ::
  "'l log_act \<Rightarrow> ('s, 'g) inner_bundle \<Rightarrow> 'l
     \<Rightarrow> (terminal result \<times> ('s, 'g) inner_bundle \<times> 'l) option" where
  "bundle_activate L = activate_candidates L"

definition bundle_abort ::
  "'l log_act \<Rightarrow> ('s, 'g) inner_bundle \<Rightarrow> 'l \<Rightarrow> terminal result \<times> ('s, 'g) inner_bundle \<times> 'l" where
  "bundle_abort L cs log =
     (case abort_each L (\<lambda>_. True) cs log of
       ([], cs', log') \<Rightarrow> (Inr Aborted, cs', log')
     | (e # _, cs', log') \<Rightarrow> (Inl e, cs', log'))"

end
