(* ===== verification/Ksnf_Candidate_Proofs.thy ===== *)
theory Ksnf_Candidate_Proofs
  imports Ksnf_Candidate Ksnf_Log_Proofs
begin

text \<open>
  What a candidate and a bundle guarantee over any log that keeps its contract: the locale
  \<open>log_contract\<close> states the documented promises of \<open>LogAct\<close> about decisions, the clients'
  lemmas are proved in it, and \<open>MemoryLog\<close> is shown to be an instance.
\<close>

section \<open>The contract\<close>

locale log_contract =
  fixes L :: "'l log_act" and decided :: "'l \<Rightarrow> command_id \<Rightarrow> terminal option"
  assumes begin_decided: "lg_begin L scope c p bs l = (r, l') \<Longrightarrow> decided l' = decided l"
    and post_decided: "lg_post L c phase role bs l = (r, l') \<Longrightarrow> decided l' = decided l"
    and close_decided: "lg_close_phase L c phase l = (r, l') \<Longrightarrow> decided l' = decided l"
    and abort_Inl: "lg_abort L c l = (Inl e, l') \<Longrightarrow> decided l' = decided l"
    and abort_Inr: "lg_abort L c l = (Inr t, l') \<Longrightarrow> t = Aborted
      \<and> decided l' = (decided l)(c \<mapsto> Aborted) \<and> (\<forall>h. decided l c \<noteq> Some (Activated h))"
    and activate_Inl: "lg_activate L c l = Some (Inl e, l') \<Longrightarrow> decided l' = decided l"
    and activate_Inr: "lg_activate L c l = Some (Inr t, l') \<Longrightarrow> (\<exists>h. t = Activated h)
      \<and> decided l' = (decided l)(c \<mapsto> t) \<and> (decided l c = None \<or> decided l c = Some t)"
    and bundle_Inl: "lg_activate_bundle L cs l = Some (Inl e, l') \<Longrightarrow> decided l' = decided l"
    and bundle_Inr: "lg_activate_bundle L cs l = Some (Inr t, l') \<Longrightarrow> (\<exists>h. t = Activated h)
      \<and> decided l' = (\<lambda>c. if c \<in> set cs then Some t else decided l c)
      \<and> (\<forall>c \<in> set cs. decided l c = None \<or> decided l c = Some t)"

definition memory_decided :: "memory_log \<Rightarrow> command_id \<Rightarrow> terminal option" where
  "memory_decided log c = Option.bind (ml_transcripts log c) lt_terminal"

lemma activate_bundle_decides:
  assumes "log_activate_bundle cmds log = Some (Inr t, log')" "c \<in> set cmds"
  shows "memory_decided log' c = Some t"
proof (cases "bundle_scan log cmds {} {} [] None")
  case (Inl e)
  with assms show ?thesis by (auto simp: log_activate_bundle_def split: if_splits)
next
  case (Inr out)
  obtain rs replay where out: "out = (rs, replay)" by (cases out)
  show ?thesis
  proof (cases replay)
    case (Some h)
    with bundle_scan_no_records [OF Inr [unfolded out Some]] assms Inr out show ?thesis
      by (auto simp: log_activate_bundle_def memory_decided_def split: if_splits)
  next
    case None
    from assms(2) have "cmds \<noteq> []" by auto
    with assms(1) Inr out None obtain h nxt where
      fresh: "fresh_handle (ml_handles log) (ml_next_handle log) = Some (h, nxt)"
      by (auto simp: log_activate_bundle_def split: option.splits)
    note scan = Inr [unfolded out None]
    from bundle_scan_fresh [OF scan] have rs: "map fst rs = cmds" "\<forall>x \<in> set rs. ready_record log x"
      by (metis append_Nil)+
    from activate_bundle_fresh [OF scan \<open>cmds \<noteq> []\<close> fresh] assms(1)
    have "t = Activated h" "log' = activated_log rs h nxt log" by simp_all
    with rs assms(2) show ?thesis
      by (force simp: memory_decided_def activated_log_def ready_record_def)
  qed
qed

lemma memory_bundle_Inr:
  assumes "log_activate_bundle cs l = Some (Inr t, l')"
  shows "(\<exists>h. t = Activated h)
    \<and> memory_decided l' = (\<lambda>c. if c \<in> set cs then Some t else memory_decided l c)
    \<and> (\<forall>c \<in> set cs. memory_decided l c = None \<or> memory_decided l c = Some t)"
  using assms
proof (cases rule: activate_bundle_cases)
  case (replay h)
  with activate_bundle_decides [OF assms] show ?thesis by (auto simp: fun_eq_iff)
next
  case (fresh rs h nxt)
  have same: "memory_decided l' c = memory_decided l c" if "c \<notin> set cs" for c
  proof -
    from that have "c \<notin> fst ` set rs" unfolding fresh(4) [symmetric] by simp
    then show ?thesis by (simp add: fresh(2) memory_decided_def activated_log_def)
  qed
  have "memory_decided l c = None" if "c \<in> set cs" for c
    using that fresh(8) unfolding fresh(4) [symmetric]
    by (fastforce simp: memory_decided_def ready_record_def)
  with same activate_bundle_decides [OF assms] fresh(1) show ?thesis by (auto simp: fun_eq_iff)
qed simp

lemma memory_bundle_Inl: "log_activate_bundle cs l = Some (Inl e, l') \<Longrightarrow> l' = l"
  by (erule activate_bundle_cases) auto

interpretation memory: log_contract memory_act memory_decided
proof
  fix l l' :: memory_log and c scope p bs r
  assume "lg_begin memory_act scope c p bs l = (r, l')"
  then show "memory_decided l' = memory_decided l"
    by (auto simp: memory_act_def log_begin_def memory_decided_def put_transcript_def fun_eq_iff
        split: option.splits if_splits)
next
  fix l l' :: memory_log and c phase role bs r
  assume "lg_post memory_act c phase role bs l = (r, l')"
  then show "memory_decided l' = memory_decided l"
    by (auto simp: memory_act_def log_post_def memory_decided_def put_transcript_def fun_eq_iff
        split: option.splits if_splits)
next
  fix l l' :: memory_log and c phase r
  assume "lg_close_phase memory_act c phase l = (r, l')"
  then show "memory_decided l' = memory_decided l"
    by (auto simp: memory_act_def log_close_phase_def memory_decided_def put_transcript_def fun_eq_iff
        split: option.splits if_splits)
next
  fix l l' :: memory_log and c e
  assume "lg_abort memory_act c l = (Inl e, l')"
  then show "memory_decided l' = memory_decided l"
    by (auto simp: memory_act_def log_abort_def split: option.splits terminal.splits)
next
  fix l l' :: memory_log and c t
  assume "lg_abort memory_act c l = (Inr t, l')"
  then show "t = Aborted \<and> memory_decided l' = (memory_decided l)(c \<mapsto> Aborted)
      \<and> (\<forall>h. memory_decided l c \<noteq> Some (Activated h))"
    by (auto simp: memory_act_def log_abort_def memory_decided_def put_transcript_def fun_eq_iff
        split: option.splits terminal.splits)
next
  fix l l' :: memory_log and c e
  assume "lg_activate memory_act c l = Some (Inl e, l')"
  then show "memory_decided l' = memory_decided l"
    by (auto simp: memory_act_def log_activate_def dest: memory_bundle_Inl)
next
  fix l l' :: memory_log and c t
  assume "lg_activate memory_act c l = Some (Inr t, l')"
  then show "(\<exists>h. t = Activated h) \<and> memory_decided l' = (memory_decided l)(c \<mapsto> t)
      \<and> (memory_decided l c = None \<or> memory_decided l c = Some t)"
    using memory_bundle_Inr [of "[c]" l t l']
    by (auto simp: memory_act_def log_activate_def fun_eq_iff)
next
  fix l l' :: memory_log and cs e
  assume "lg_activate_bundle memory_act cs l = Some (Inl e, l')"
  then show "memory_decided l' = memory_decided l"
    by (auto simp: memory_act_def dest: memory_bundle_Inl)
next
  fix l l' :: memory_log and cs t
  assume "lg_activate_bundle memory_act cs l = Some (Inr t, l')"
  then show "(\<exists>h. t = Activated h)
      \<and> memory_decided l' = (\<lambda>c. if c \<in> set cs then Some t else memory_decided l c)
      \<and> (\<forall>c \<in> set cs. memory_decided l c = None \<or> memory_decided l c = Some t)"
    using memory_bundle_Inr by (simp add: memory_act_def)
qed


section \<open>Quiet operations\<close>

text \<open>
  Every operation but activation is quiet: it leaves the decisions as they are, or aborts this
  command, which was not activated, in the log and in the candidate.
\<close>

definition quiet ::
  "('l \<Rightarrow> command_id \<Rightarrow> terminal option) \<Rightarrow> ('s, 'g) candidate \<Rightarrow> 'l \<Rightarrow> ('s, 'g) candidate \<Rightarrow> 'l \<Rightarrow> bool"
  where
  "quiet decided c l c' l' \<longleftrightarrow> ca_command c' = ca_command c
     \<and> (ca_terminal c' = ca_terminal c \<and> decided l' = decided l
        \<or> ca_terminal c' = Some Aborted \<and> decided l' = (decided l)(ca_id c \<mapsto> Aborted)
          \<and> (\<forall>h. decided l (ca_id c) \<noteq> Some (Activated h)))"

lemma quiet_refl [simp]: "quiet decided c l c l"
  by (simp add: quiet_def)

definition agrees ::
  "('l \<Rightarrow> command_id \<Rightarrow> terminal option) \<Rightarrow> 'l \<Rightarrow> ('s, 'g) candidate \<Rightarrow> bool" where
  "agrees decided l c \<longleftrightarrow> (\<forall>t. ca_terminal c = Some t \<longrightarrow> decided l (ca_id c) = Some t)"

lemma quiet_agrees: "quiet decided c l c' l' \<Longrightarrow> agrees decided l c \<Longrightarrow> agrees decided l' c'"
  by (auto simp: quiet_def agrees_def)

lemma quiet_other:
  "quiet decided c l c' l' \<Longrightarrow> agrees decided l d \<Longrightarrow> ca_id d \<noteq> ca_id c \<Longrightarrow> agrees decided l' d"
  by (auto simp: quiet_def agrees_def)

lemma quiet_activated:
  "quiet decided c l c' l' \<Longrightarrow> agrees decided l c \<Longrightarrow>
     ca_terminal c' = Some (Activated h) \<longleftrightarrow> ca_terminal c = Some (Activated h)"
  by (auto simp: quiet_def agrees_def)

lemma quiet_keeps: "quiet decided c l c' l' \<Longrightarrow> decided l x = Some t \<Longrightarrow> decided l' x = Some t"
  by (cases t) (auto simp: quiet_def)

context log_contract
begin

lemma abort_with_quiet:
  assumes "abort_with L e c l = (r, c', l')" "decided l = decided l0"
  shows "quiet decided c l0 c' l'"
  using assms by (auto simp: abort_with_def quiet_def split: prod.splits sum.splits
      dest: abort_Inl abort_Inr)

lemma commit_quiet: "candidate_commit P L role k c l = (r, c', l') \<Longrightarrow> quiet decided c l c' l'"
  by (auto simp: candidate_commit_def split: option.splits if_splits prod.splits sum.splits
      dest: post_decided elim!: abort_with_quiet) (auto simp: quiet_def dest: post_decided)

lemma close_commitments_quiet:
  "candidate_close_commitments L c l = (r, c', l') \<Longrightarrow> quiet decided c l c' l'"
  by (auto simp: candidate_close_commitments_def split: if_splits prod.splits sum.splits
      dest: close_decided elim!: abort_with_quiet) (auto simp: quiet_def dest: close_decided)

lemma open_quiet: "candidate_open P L opening c l = (r, c', l') \<Longrightarrow> quiet decided c l c' l'"
  by (auto simp: candidate_open_def split: option.splits if_splits prod.splits sum.splits
      dest: post_decided elim!: abort_with_quiet) (auto simp: quiet_def dest: post_decided)

lemma open_contribution_quiet:
  "candidate_open_contribution P L n c l = (r, c', l') \<Longrightarrow> quiet decided c l c' l'"
  by (auto simp: candidate_open_contribution_def split: prod.splits sum.splits dest: open_quiet)

lemma close_openings_quiet:
  "candidate_close_openings P L c l = (r, c', l') \<Longrightarrow> quiet decided c l c' l'"
  by (auto simp: candidate_close_openings_def split: option.splits if_splits prod.splits sum.splits
      dest: close_decided elim!: abort_with_quiet) (auto simp: quiet_def dest: close_decided)

lemma receipt_quiet: "candidate_receipt P L x c l = (r, c', l') \<Longrightarrow> quiet decided c l c' l'"
  by (auto simp: candidate_receipt_def split: option.splits if_splits prod.splits sum.splits
      dest: post_decided elim!: abort_with_quiet) (auto simp: quiet_def dest: post_decided)

lemma prepare_quiet: "candidate_prepare L c l = (r, c', l') \<Longrightarrow> quiet decided c l c' l'"
  by (auto simp: candidate_prepare_def split: if_splits prod.splits sum.splits
      dest: close_decided elim!: abort_with_quiet) (auto simp: quiet_def dest: close_decided)

lemma abort_quiet: "candidate_abort L c l = (r, c', l') \<Longrightarrow> quiet decided c l c' l'"
  by (auto simp: candidate_abort_def quiet_def split: option.splits terminal.splits prod.splits sum.splits
      dest: abort_Inl abort_Inr)

lemma new_agrees:
  assumes "candidate_new P L command l = (Inr c, l')"
  shows "agrees decided l' c \<and> decided l' = decided l \<and> ca_command c = command \<and> ca_terminal c = None"
  using assms by (auto simp: candidate_new_def agrees_def split: sum.splits prod.splits dest: begin_decided)

lemmas quiet_ops = commit_quiet close_commitments_quiet open_quiet open_contribution_quiet
  close_openings_quiet receipt_quiet prepare_quiet abort_quiet

text \<open>Activation decides this command and no other, and never against a decision.\<close>

lemma activate_agrees:
  assumes "candidate_activate L c l = Some (r, c', l')" "agrees decided l c"
  shows "agrees decided l' c' \<and> ca_command c' = ca_command c
    \<and> (\<forall>x t. decided l x = Some t \<longrightarrow> decided l' x = Some t)
    \<and> (\<forall>x. x \<noteq> ca_id c \<longrightarrow> decided l' x = decided l x)
    \<and> (\<forall>t. r = Inr t \<longrightarrow> ca_terminal c' = Some t)"
proof (cases "ca_terminal c")
  case (Some t)
  with assms show ?thesis by (auto simp: candidate_activate_def split: terminal.splits)
next
  case None
  obtain r1 c1 l1 where prep: "candidate_prepare L c l = (r1, c1, l1)" by (metis prod_cases3)
  note q = prepare_quiet [OF prep]
  have ag: "agrees decided l1 c1" by (rule quiet_agrees [OF q assms(2)])
  have id: "ca_command c1 = ca_command c" "\<forall>x. x \<noteq> ca_id c \<longrightarrow> decided l1 x = decided l x"
    using q by (auto simp: quiet_def)
  show ?thesis
  proof (cases r1)
    case (Inl e)
    with None prep assms(1) ag id quiet_keeps [OF q] show ?thesis
      by (auto simp: candidate_activate_def)
  next
    case (Inr u)
    with None prep assms(1) obtain r2 l2 where act: "lg_activate L (ca_id c1) l1 = Some (r2, l2)"
      by (auto simp: candidate_activate_def split: option.splits)
    show ?thesis
    proof (cases r2)
      case (Inr t)
      with None prep \<open>r1 = Inr u\<close> act assms(1) have out: "r = Inr t" "l' = l2"
        "c' = c1\<lparr>ca_stage := TerminalStage, ca_terminal := Some t\<rparr>"
        by (auto simp: candidate_activate_def)
      from activate_Inr [OF act [unfolded Inr]] id quiet_keeps [OF q] show ?thesis
        unfolding out by (auto simp: agrees_def)
    next
      case (Inl e)
      with None prep \<open>r1 = Inr u\<close> act assms(1) have ab: "abort_with L e c1 l2 = (r, c', l')"
        by (auto simp: candidate_activate_def)
      note q2 = abort_with_quiet [OF ab activate_Inl [OF act [unfolded Inl]]]
      have "r \<noteq> Inr t" for t
        using ab by (auto simp: abort_with_def split: prod.splits sum.splits)
      with quiet_agrees [OF q2 ag] id quiet_keeps [OF q2 quiet_keeps [OF q]] q2 show ?thesis
        by (auto simp: quiet_def)
    qed
  qed
qed

end


section \<open>What a candidate holds\<close>

text \<open>
  The order of the rounds as an invariant: every opening matches a commitment that was posted
  while no opening could be, a view is made of all openings, and receipts are for that view.
\<close>

definition opening_ok ::
  "('s::field, 'g::ab_group_add) profile \<Rightarrow> ('s, 'g) candidate \<Rightarrow> role_id \<Rightarrow> ('s, 'g) deal_opening \<Rightarrow> bool"
  where
  "opening_ok P c role opening \<longleftrightarrow> do_role opening = role
     \<and> (\<exists>spec k. command_role (ca_command c) role = Inr spec
        \<and> points_validate P (do_points opening) (cm_shape (ca_command c)) (sp_constant spec) = Inr ()
        \<and> map_of (ca_commitments c) role = Some k
        \<and> deal_opening_commitment P opening (ca_command c) = Inr k)"

abbreviation ca_roles :: "('s, 'g) candidate \<Rightarrow> role_id set" where
  "ca_roles c \<equiv> sp_role ` set (cm_roles (ca_command c))"

abbreviation ca_targets :: "('s, 'g) candidate \<Rightarrow> target_id list" where
  "ca_targets c \<equiv> shape_targets (cm_shape (ca_command c))"

definition rounds_inv ::
  "('s::field, 'g::ab_group_add) profile \<Rightarrow> ('s, 'g) candidate \<Rightarrow> bool" where
  "rounds_inv P c \<longleftrightarrow>
     bt_sorted (ca_commitments c) \<and> bt_sorted (ca_openings c) \<and> bt_sorted (ca_receipts c)
     \<and> fst ` set (ca_commitments c) \<subseteq> ca_roles c
     \<and> (ca_commit_closed c \<longrightarrow> fst ` set (ca_commitments c) = ca_roles c)
     \<and> (ca_openings c \<noteq> [] \<longrightarrow> ca_commit_closed c)
     \<and> (\<forall>x \<in> set (ca_openings c). opening_ok P c (fst x) (snd x))
     \<and> (\<forall>v. ca_view c = Some v \<longrightarrow> fst ` set (ca_openings c) = ca_roles c \<and> build_view P c = Inr v)
     \<and> (\<forall>x \<in> set (ca_receipts c). tr_target (snd x) = fst x \<and> tr_command (snd x) = ca_id c
         \<and> fst x \<in> set (ca_targets c) \<and> (\<exists>v. ca_view c = Some v \<and> tr_view (snd x) = vw_bytes v))"

definition stage_inv :: "('s, 'g) candidate \<Rightarrow> bool" where
  "stage_inv c \<longleftrightarrow> (ca_terminal c \<noteq> None \<longrightarrow> ca_stage c = TerminalStage)
     \<and> (ca_commit_closed c \<longrightarrow> ca_stage c \<noteq> CommitStage)
     \<and> (ca_view c \<noteq> None \<longrightarrow> ca_stage c \<notin> {CommitStage, OpenStage})
     \<and> (ca_stage c \<in> {OpenStage, ReceiptStage, ReadyStage} \<longrightarrow> ca_commit_closed c)
     \<and> (ca_stage c \<in> {ReceiptStage, ReadyStage} \<longrightarrow> ca_view c \<noteq> None)
     \<and> (ca_stage c = ReadyStage \<or> (\<exists>h. ca_terminal c = Some (Activated h)) \<longrightarrow>
         ca_view c \<noteq> None \<and> length (ca_receipts c) = length (ca_targets c))"

definition cand_inv ::
  "('s::field, 'g::ab_group_add) profile \<Rightarrow> ('s, 'g) candidate \<Rightarrow> bool" where
  "cand_inv P c \<longleftrightarrow> rounds_inv P c \<and> stage_inv c"

definition candidate_complete ::
  "('s::field, 'g::ab_group_add) profile \<Rightarrow> ('s, 'g) candidate \<Rightarrow> bool" where
  "candidate_complete P c \<longleftrightarrow>
     (\<forall>role \<in> ca_roles c. \<exists>opening. map_of (ca_openings c) role = Some opening
        \<and> opening_ok P c role opening)
     \<and> (\<exists>v. ca_view c = Some v \<and> build_view P c = Inr v
        \<and> (\<forall>t \<in> set (ca_targets c). \<exists>x. map_of (ca_receipts c) t = Some x
            \<and> tr_command x = ca_id c \<and> tr_view x = vw_bytes v))"

lemma bt_lookup:
  "bt_sorted m \<Longrightarrow> (k, v) \<in> set m \<Longrightarrow> map_of m k = Some v"
  by (auto simp: strict_sorted_iff intro!: map_of_is_SomeI)

lemma inv_complete:
  assumes "cand_inv P c" "ca_view c \<noteq> None" "length (ca_receipts c) = length (ca_targets c)"
  shows "candidate_complete P c"
proof -
  note inv = assms(1) [unfolded cand_inv_def rounds_inv_def]
  from assms(2) obtain v where v: "ca_view c = Some v" by blast
  have sub: "fst ` set (ca_receipts c) \<subseteq> set (ca_targets c)" using inv by blast
  have "card (fst ` set (ca_receipts c)) = length (ca_receipts c)"
    using inv distinct_card [of "map fst (ca_receipts c)"] by (simp add: strict_sorted_iff)
  then have keys: "fst ` set (ca_receipts c) = set (ca_targets c)"
    using card_subset_eq [OF _ sub] card_mono [OF _ sub] card_length [of "ca_targets c"] assms(3) by simp
  have "\<exists>x. map_of (ca_receipts c) t = Some x \<and> tr_command x = ca_id c \<and> tr_view x = vw_bytes v"
    if t: "t \<in> set (ca_targets c)" for t
  proof -
    from t have "t \<in> fst ` set (ca_receipts c)" by (simp only: keys)
    then obtain x where x: "(t, x) \<in> set (ca_receipts c)" by (auto simp only: image_iff prod.collapse [symmetric] fst_conv)
    have "\<forall>x \<in> set (ca_receipts c). tr_command (snd x) = ca_id c
        \<and> (\<exists>v. ca_view c = Some v \<and> tr_view (snd x) = vw_bytes v)" using inv by blast
    from bspec [OF this x] v have "tr_command x = ca_id c \<and> tr_view x = vw_bytes v" by simp
    moreover have "map_of (ca_receipts c) t = Some x" using inv bt_lookup [OF _ x] by blast
    ultimately show ?thesis by blast
  qed
  moreover have "\<exists>opening. map_of (ca_openings c) role = Some opening \<and> opening_ok P c role opening"
    if role: "role \<in> ca_roles c" for role
  proof -
    have "fst ` set (ca_openings c) = ca_roles c" using inv v by blast
    with role have "role \<in> fst ` set (ca_openings c)" by (simp only:)
    then obtain opn where o: "(role, opn) \<in> set (ca_openings c)"
      by (auto simp only: image_iff prod.collapse [symmetric] fst_conv)
    have "\<forall>x \<in> set (ca_openings c). opening_ok P c (fst x) (snd x)" using inv by blast
    from bspec [OF this o] have "opening_ok P c role opn" by simp
    moreover have "map_of (ca_openings c) role = Some opn" using inv bt_lookup [OF _ o] by blast
    ultimately show ?thesis by blast
  qed
  ultimately show ?thesis using v inv by (auto simp: candidate_complete_def)
qed

lemma rounds_inv_cong:
  assumes "rounds_inv P c" "ca_command c' = ca_command c" "ca_commitments c' = ca_commitments c"
    "ca_commit_closed c' = ca_commit_closed c" "ca_openings c' = ca_openings c"
    "ca_receipts c' = ca_receipts c" "ca_view c' = ca_view c"
  shows "rounds_inv P c'"
proof -
  have "build_view P c' = build_view P c" using assms by (simp add: build_view_def)
  moreover have "opening_ok P c' = opening_ok P c" using assms by (simp add: opening_ok_def fun_eq_iff)
  ultimately show ?thesis using assms by (simp add: rounds_inv_def)
qed

text \<open>Losing the transcript keeps what was posted.\<close>

lemma cand_inv_dead:
  assumes "cand_inv P c" "t = ca_terminal c \<or> t = Some Aborted"
  shows "cand_inv P (c\<lparr>ca_terminal := t, ca_stage := TerminalStage\<rparr>)"
proof -
  have "rounds_inv P (c\<lparr>ca_terminal := t, ca_stage := TerminalStage\<rparr>)"
    using assms(1) by (rule rounds_inv_cong [OF conjunct1 [OF iffD1 [OF cand_inv_def]]]) simp_all
  moreover from assms(2) have "stage_inv (c\<lparr>ca_terminal := t, ca_stage := TerminalStage\<rparr>)"
  proof
    assume "t = ca_terminal c"
    with assms(1) show ?thesis by (simp add: cand_inv_def stage_inv_def)
  next
    assume "t = Some Aborted"
    with assms(1) show ?thesis by (simp add: cand_inv_def stage_inv_def)
  qed
  ultimately show ?thesis by (simp add: cand_inv_def)
qed

lemma map_of_None_roles:
  "list_ex (\<lambda>r. map_of m (sp_role r) = None) rs \<longleftrightarrow> \<not> sp_role ` set rs \<subseteq> fst ` set m"
  by (auto simp: list_ex_iff map_of_eq_None_iff)

context log_contract
begin

lemma abort_with_dead:
  assumes "abort_with L e c l = (r, c', l')" "cand_inv P c"
  shows "cand_inv P c'"
  using assms cand_inv_dead [OF assms(2), of "ca_terminal c"]
    cand_inv_dead [OF assms(2), of "Some Aborted"]
  by (auto simp: abort_with_def split: prod.splits sum.splits dest: abort_Inr)

lemma commit_inv:
  assumes "candidate_commit P L role k c l = (r, c', l')" "cand_inv P c"
  shows "cand_inv P c'"
proof -
  have put: "cand_inv P (c\<lparr>ca_commitments := bt_insert role k (ca_commitments c)\<rparr>)"
    if "ca_stage c = CommitStage" "command_role (ca_command c) role \<noteq> Inl ParticipantNotFound"
  proof -
    from that assms(2) have empty: "ca_openings c = []" "ca_view c = None" "\<not> ca_commit_closed c"
      by (auto simp: cand_inv_def rounds_inv_def stage_inv_def)
    from that(2) have "role \<in> ca_roles c"
      by (auto simp: command_role_def search_key_None_iff ok_or_def split: option.splits
          dest: search_key_SomeD)
    with assms(2) empty that(1) show ?thesis
      by (auto simp: cand_inv_def rounds_inv_def stage_inv_def)
  qed
  show ?thesis
    using assms put
    by (auto simp: candidate_commit_def split: option.splits if_splits prod.splits sum.splits
        elim!: abort_with_dead)
qed

lemma close_commitments_inv:
  assumes "candidate_close_commitments L c l = (r, c', l')" "cand_inv P c"
  shows "cand_inv P c'"
proof -
  have put: "cand_inv P (c\<lparr>ca_commit_closed := True, ca_stage := OpenStage\<rparr>)"
    if "ca_terminal c = None" "ca_stage c = CommitStage" "ca_roles c \<subseteq> fst ` set (ca_commitments c)"
  proof -
    from that assms(2) have empty: "ca_openings c = []" "ca_view c = None"
      by (auto simp: cand_inv_def rounds_inv_def stage_inv_def)
    from assms(2) that(3) have "fst ` set (ca_commitments c) = ca_roles c"
      by (intro subset_antisym) (simp_all add: cand_inv_def rounds_inv_def)
    then have "rounds_inv P (c\<lparr>ca_commit_closed := True, ca_stage := OpenStage\<rparr>)"
      using assms(2) empty by (simp add: cand_inv_def rounds_inv_def)
    moreover have "stage_inv (c\<lparr>ca_commit_closed := True, ca_stage := OpenStage\<rparr>)"
      using assms(2) empty that(1,2) by (simp add: cand_inv_def stage_inv_def)
    ultimately show ?thesis by (simp add: cand_inv_def)
  qed
  show ?thesis
    using assms put
    by (auto simp: candidate_close_commitments_def map_of_None_roles
        split: if_splits prod.splits sum.splits elim!: abort_with_dead)
qed

lemma open_inv:
  assumes "candidate_open P L opn c l = (r, c', l')" "cand_inv P c"
  shows "cand_inv P c'"
proof -
  have put: "cand_inv P (c\<lparr>ca_openings := bt_insert (do_role opn) opn (ca_openings c)\<rparr>)"
    if stage: "ca_stage c = OpenStage" and fresh: "map_of (ca_openings c) (do_role opn) = None"
      and check: "check_opening P c opn = Inr bs" for bs
  proof -
    let ?c = "c\<lparr>ca_openings := bt_insert (do_role opn) opn (ca_openings c)\<rparr>"
    from stage assms(2) have empty: "ca_view c = None" "ca_commit_closed c"
      by (auto simp: cand_inv_def stage_inv_def)
    have same: "opening_ok P ?c = opening_ok P c" by (simp add: opening_ok_def fun_eq_iff)
    from check have ok: "opening_ok P c (do_role opn) opn"
      by (auto simp: check_opening_def opening_ok_def and_then_Inr_iff ok_or_Inr_iff if_Inl_eq_Inr)
    from fresh have "set (bt_insert (do_role opn) opn (ca_openings c)) =
        insert (do_role opn, opn) (set (ca_openings c))"
      by (intro set_bt_insert) (simp add: map_of_eq_None_iff)
    then have "rounds_inv P ?c"
      using assms(2) empty ok unfolding cand_inv_def rounds_inv_def same by simp
    moreover have "stage_inv ?c" using assms(2) by (simp add: cand_inv_def stage_inv_def)
    ultimately show ?thesis by (simp add: cand_inv_def)
  qed
  show ?thesis
    using assms put
    by (auto simp: candidate_open_def split: option.splits if_splits prod.splits sum.splits
        elim!: abort_with_dead)
qed

lemma close_openings_inv:
  assumes "candidate_close_openings P L c l = (r, c', l')" "cand_inv P c"
  shows "cand_inv P c' \<and> (\<forall>v. r = Inr v \<longrightarrow> ca_view c' = Some v)"
proof -
  have put: "cand_inv P (c\<lparr>ca_stage := ReceiptStage, ca_view := Some v\<rparr>)"
    if stage: "ca_stage c = OpenStage" and all: "ca_roles c \<subseteq> fst ` set (ca_openings c)"
      and view: "build_view P c = Inr v" for v
  proof -
    let ?c = "c\<lparr>ca_stage := ReceiptStage, ca_view := Some v\<rparr>"
    note inv = assms(2) [unfolded cand_inv_def rounds_inv_def]
    from stage assms(2) have old: "ca_view c = None" "ca_commit_closed c" "ca_terminal c = None"
      by (auto simp: cand_inv_def stage_inv_def)
    have same: "opening_ok P ?c = opening_ok P c" by (simp add: opening_ok_def fun_eq_iff)
    have "build_view P ?c = Inr v" using view by (simp add: build_view_def)
    moreover have "ca_receipts c = []"
    proof (rule ccontr)
      assume "ca_receipts c \<noteq> []"
      then obtain t x where "(t, x) \<in> set (ca_receipts c)" by (metis list.set_sel(1) prod.collapse)
      with assms(2) old(1) show False by (simp add: cand_inv_def rounds_inv_def)
    qed
    moreover have "fst ` set (ca_openings c) = ca_roles c"
    proof (rule subset_antisym [OF _ all])
      have ok: "\<forall>x \<in> set (ca_openings c). opening_ok P c (fst x) (snd x)" using inv by blast
      show "fst ` set (ca_openings c) \<subseteq> ca_roles c"
      proof (rule image_subsetI)
        fix x assume "x \<in> set (ca_openings c)"
        with ok obtain spec where "command_role (ca_command c) (fst x) = Inr spec"
          unfolding opening_ok_def by blast
        then have "search_key sp_role (fst x) (cm_roles (ca_command c)) = Some spec"
          by (simp add: command_role_def ok_or_Inr_iff)
        from search_key_SomeD [OF this] show "fst x \<in> ca_roles c" by (metis imageI)
      qed
    qed
    ultimately have "rounds_inv P ?c"
      using assms(2) unfolding cand_inv_def rounds_inv_def same by simp
    moreover have "stage_inv ?c" using assms(2) old by (simp add: cand_inv_def stage_inv_def)
    ultimately show ?thesis by (simp add: cand_inv_def)
  qed
  have "r \<noteq> Inr v" if "abort_with L e c l0 = (r, c', l')" for e l0 v
    using that by (auto simp: abort_with_def split: prod.splits sum.splits)
  then show ?thesis
    using assms put
    by (auto simp: candidate_close_openings_def map_of_None_roles
        split: option.splits if_splits prod.splits sum.splits elim!: abort_with_dead)
qed

lemma receipt_inv:
  assumes "candidate_receipt P L x c l = (r, c', l')" "cand_inv P c"
  shows "cand_inv P c'"
proof -
  have put: "cand_inv P (c\<lparr>ca_receipts := bt_insert (tr_target x) x (ca_receipts c)\<rparr>)"
    if stage: "ca_stage c = ReceiptStage" and fresh: "map_of (ca_receipts c) (tr_target x) = None"
      and ok: "tr_command x = ca_id c" "tr_target x \<in> set (ca_targets c)" "ca_view c = Some v"
        "tr_view x = vw_bytes v" for v
  proof -
    let ?c = "c\<lparr>ca_receipts := bt_insert (tr_target x) x (ca_receipts c)\<rparr>"
    from stage assms(2) have old: "ca_terminal c = None" by (auto simp: cand_inv_def stage_inv_def)
    have same: "opening_ok P ?c = opening_ok P c" by (simp add: opening_ok_def fun_eq_iff)
    have "build_view P ?c = build_view P c" by (simp add: build_view_def)
    moreover from fresh have "set (bt_insert (tr_target x) x (ca_receipts c)) =
        insert (tr_target x, x) (set (ca_receipts c))"
      by (intro set_bt_insert) (simp add: map_of_eq_None_iff)
    ultimately have "rounds_inv P ?c"
      using assms(2) ok unfolding cand_inv_def rounds_inv_def same by simp
    moreover have "stage_inv ?c" using assms(2) stage old by (simp add: cand_inv_def stage_inv_def)
    ultimately show ?thesis by (simp add: cand_inv_def)
  qed
  show ?thesis
    using assms put
    by (auto simp: candidate_receipt_def split: option.splits if_splits prod.splits sum.splits
        elim!: abort_with_dead)
qed

lemma prepare_inv:
  assumes "candidate_prepare L c l = (r, c', l')" "cand_inv P c"
  shows "cand_inv P c' \<and> (\<forall>u. r = Inr u \<longrightarrow> ca_stage c' = ReadyStage)"
proof -
  have put: "cand_inv P (c\<lparr>ca_stage := ReadyStage\<rparr>)"
    if stage: "ca_stage c = ReceiptStage" and all: "length (ca_receipts c) = length (ca_targets c)"
  proof -
    have "rounds_inv P (c\<lparr>ca_stage := ReadyStage\<rparr>)"
      using assms(2) by (rule rounds_inv_cong [OF conjunct1 [OF iffD1 [OF cand_inv_def]]]) simp_all
    moreover have "stage_inv (c\<lparr>ca_stage := ReadyStage\<rparr>)"
      using assms(2) stage all by (simp add: cand_inv_def stage_inv_def)
    ultimately show ?thesis by (simp add: cand_inv_def)
  qed
  have "r \<noteq> Inr u" if "abort_with L e c l0 = (r, c', l')" for e l0 u
    using that by (auto simp: abort_with_def split: prod.splits sum.splits)
  then show ?thesis
    using assms put
    by (auto simp: candidate_prepare_def split: if_splits prod.splits sum.splits elim!: abort_with_dead)
qed

lemma activated_inv:
  assumes "cand_inv P c" "ca_stage c = ReadyStage"
  shows "cand_inv P (c\<lparr>ca_stage := TerminalStage, ca_terminal := Some t\<rparr>)"
proof -
  have "rounds_inv P (c\<lparr>ca_stage := TerminalStage, ca_terminal := Some t\<rparr>)"
    using assms(1) by (rule rounds_inv_cong [OF conjunct1 [OF iffD1 [OF cand_inv_def]]]) simp_all
  moreover have "stage_inv (c\<lparr>ca_stage := TerminalStage, ca_terminal := Some t\<rparr>)"
    using assms by (simp add: cand_inv_def stage_inv_def)
  ultimately show ?thesis by (simp add: cand_inv_def)
qed

lemma activate_inv:
  assumes "candidate_activate L c l = Some (r, c', l')" "cand_inv P c"
  shows "cand_inv P c'"
proof (cases "ca_terminal c")
  case (Some t)
  with assms show ?thesis by (auto simp: candidate_activate_def split: terminal.splits)
next
  case None
  obtain r1 c1 l1 where prep: "candidate_prepare L c l = (r1, c1, l1)" by (metis prod_cases3)
  note inv = prepare_inv [OF prep assms(2)]
  then show ?thesis
    using None prep assms(1) activated_inv [of P c1]
    by (auto simp: candidate_activate_def split: sum.splits option.splits elim!: abort_with_dead)
qed

lemma abort_inv:
  assumes "candidate_abort L c l = (r, c', l')" "cand_inv P c"
  shows "cand_inv P c'"
proof -
  have eq: "c\<lparr>ca_stage := TerminalStage, ca_terminal := Some Aborted\<rparr> =
      c\<lparr>ca_terminal := Some Aborted, ca_stage := TerminalStage\<rparr>" by (cases c) simp
  have "cand_inv P (c\<lparr>ca_stage := TerminalStage, ca_terminal := Some Aborted\<rparr>)"
    unfolding eq by (rule cand_inv_dead [OF assms(2)]) simp
  with assms show ?thesis
    by (auto simp: candidate_abort_def split: option.splits terminal.splits prod.splits sum.splits
      dest!: abort_Inr)
qed

lemma new_inv:
  assumes "candidate_new P L command l = (Inr c, l')"
  shows "cand_inv P c"
  using assms
  by (auto simp: candidate_new_def cand_inv_def rounds_inv_def stage_inv_def split: sum.splits prod.splits)

end

section \<open>Runs of a candidate\<close>

text \<open>
  Any order of a candidate's operations, with other users of the log in between: what others do
  to the log never undoes a decision.
\<close>

inductive cand_step ::
  "('s::field, 'g::ab_group_add) profile \<Rightarrow> 'l log_act \<Rightarrow> ('l \<Rightarrow> command_id \<Rightarrow> terminal option)
     \<Rightarrow> ('s, 'g) candidate \<times> 'l \<Rightarrow> ('s, 'g) candidate \<times> 'l \<Rightarrow> bool"
  for P :: "('s::field, 'g::ab_group_add) profile" and L :: "'l log_act" and decided where
  cs_commit: "candidate_commit P L role k c l = (r, c', l') \<Longrightarrow> cand_step P L decided (c, l) (c', l')"
| cs_close_commitments: "candidate_close_commitments L c l = (r, c', l') \<Longrightarrow>
    cand_step P L decided (c, l) (c', l')"
| cs_open: "candidate_open P L opn c l = (r, c', l') \<Longrightarrow> cand_step P L decided (c, l) (c', l')"
| cs_open_contribution: "candidate_open_contribution P L n c l = (r, c', l') \<Longrightarrow>
    cand_step P L decided (c, l) (c', l')"
| cs_close_openings: "candidate_close_openings P L c l = (r, c', l') \<Longrightarrow>
    cand_step P L decided (c, l) (c', l')"
| cs_receipt: "candidate_receipt P L x c l = (r, c', l') \<Longrightarrow> cand_step P L decided (c, l) (c', l')"
| cs_activate: "candidate_activate L c l = Some (r, c', l') \<Longrightarrow> cand_step P L decided (c, l) (c', l')"
| cs_abort: "candidate_abort L c l = (r, c', l') \<Longrightarrow> cand_step P L decided (c, l) (c', l')"
| cs_others: "\<forall>x t. decided l x = Some t \<longrightarrow> decided l' x = Some t \<Longrightarrow>
    cand_step P L decided (c, l) (c, l')"

inductive_cases cand_step_elim: "cand_step P L decided (c, l) (c', l')"

abbreviation cand_run ::
  "('s::field, 'g::ab_group_add) profile \<Rightarrow> 'l log_act \<Rightarrow> ('l \<Rightarrow> command_id \<Rightarrow> terminal option)
     \<Rightarrow> ('s, 'g) candidate \<times> 'l \<Rightarrow> ('s, 'g) candidate \<times> 'l \<Rightarrow> bool" where
  "cand_run P L decided \<equiv> (cand_step P L decided)\<^sup>*\<^sup>*"

context log_contract
begin

lemma open_contribution_inv:
  "candidate_open_contribution P L n c l = (r, c', l') \<Longrightarrow> cand_inv P c \<Longrightarrow> cand_inv P c'"
  by (auto simp: candidate_open_contribution_def split: prod.splits sum.splits dest: open_inv)

lemma step_invs:
  assumes "cand_step P L decided (c, l) (c', l')" "cand_inv P c" "agrees decided l c"
  shows "cand_inv P c' \<and> agrees decided l' c' \<and> ca_command c' = ca_command c"
proof -
  have q: "agrees decided l' c' \<and> ca_command c' = ca_command c" if "quiet decided c l c' l'"
    using quiet_agrees [OF that assms(3)] that by (simp add: quiet_def)
  from assms(1) show ?thesis
  proof (rule cand_step_elim)
    fix role k r assume op: "candidate_commit P L role k c l = (r, c', l')"
    show ?thesis using q [OF commit_quiet [OF op]] commit_inv [OF op assms(2)] by simp
  next
    fix r assume op: "candidate_close_commitments L c l = (r, c', l')"
    show ?thesis using q [OF close_commitments_quiet [OF op]] close_commitments_inv [OF op assms(2)] by simp
  next
    fix opn r assume op: "candidate_open P L opn c l = (r, c', l')"
    show ?thesis using q [OF open_quiet [OF op]] open_inv [OF op assms(2)] by simp
  next
    fix n r assume op: "candidate_open_contribution P L n c l = (r, c', l')"
    show ?thesis using q [OF open_contribution_quiet [OF op]] open_contribution_inv [OF op assms(2)] by simp
  next
    fix r assume op: "candidate_close_openings P L c l = (r, c', l')"
    show ?thesis using q [OF close_openings_quiet [OF op]] close_openings_inv [OF op assms(2)] by simp
  next
    fix x r assume op: "candidate_receipt P L x c l = (r, c', l')"
    show ?thesis using q [OF receipt_quiet [OF op]] receipt_inv [OF op assms(2)] by simp
  next
    fix r assume op: "candidate_activate L c l = Some (r, c', l')"
    show ?thesis using activate_agrees [OF op assms(3)] activate_inv [OF op assms(2)] by simp
  next
    fix r assume op: "candidate_abort L c l = (r, c', l')"
    show ?thesis using q [OF abort_quiet [OF op]] abort_inv [OF op assms(2)] by simp
  next
    assume "c' = c" "\<forall>x t. decided l x = Some t \<longrightarrow> decided l' x = Some t"
    then show ?thesis using assms(2,3) by (simp add: agrees_def)
  qed
qed

lemma run_invs:
  assumes "cand_run P L decided (c, l) (c', l')" "cand_inv P c" "agrees decided l c"
  shows "cand_inv P c' \<and> agrees decided l' c' \<and> ca_command c' = ca_command c"
  using assms(1)
proof (induction rule: rtranclp_induct2)
  case (step c1 l1 c2 l2)
  then show ?case using step_invs [of P c1 l1 c2 l2] by auto
qed (use assms(2,3) in simp)

end

end
