(* ===== verification/Ksnf_Dealing_Proofs.thy ===== *)
theory Ksnf_Dealing_Proofs
  imports Ksnf_Candidate_Proofs Ksnf_Signing_Proofs
begin

text \<open>
  The arithmetic of a redistribution: adding coefficient points adds their evaluations, so the
  shares a target accepted always sum to a share of the aggregated points, and what an honest
  contributor deals is accepted.
\<close>

section \<open>Adding points\<close>

lemma add_points_Inr:
  "add_points ls rs = Inr ps \<longleftrightarrow> length ls = length rs \<and> ps = map (\<lambda>(l, r). l + r) (zip ls rs)"
  by (auto simp: add_points_def)

lemma evaluate_add_points:
  assumes "group_ok P" "add_points ls rs = Inr ps"
  shows "evaluate_commitments P ps x = evaluate_commitments P ls x + evaluate_commitments P rs x"
proof -
  note h = group_horner [OF assms(1)]
  from assms(2) have len: "length ls = length rs" and ps: "ps = map (\<lambda>(l, r). l + r) (zip ls rs)"
    by (simp_all add: add_points_Inr)
  from len have "horner.eval (gc_smul P) (map (\<lambda>(l, r). l + r) (zip ls rs)) x =
      horner.eval (gc_smul P) ls x + horner.eval (gc_smul P) rs x"
    by (induction ls rs rule: list_induct2)
      (simp_all add: horner.eval_simps [OF h] horner.act_add_right [OF h] algebra_simps)
  then show ?thesis by (simp add: ps evaluate_commitments_eval assms(1))
qed

lemma search_added:
  assumes "length left = length right"
    and "collect_results (\<lambda>((p, ls), (q, rs)). if p \<noteq> q then Inl ParticipantMismatch
        else and_then (add_points ls rs) (\<lambda>ps. Inr (p, ps))) (zip left right) = Inr members"
  shows "search_key fst person left = None \<and> search_key fst person right = None
      \<and> search_key fst person members = None
    \<or> (\<exists>ls rs ps. search_key fst person left = Some (person, ls)
      \<and> search_key fst person right = Some (person, rs)
      \<and> search_key fst person members = Some (person, ps) \<and> add_points ls rs = Inr ps)"
  using assms
proof (induction left right arbitrary: members rule: list_induct2)
  case (Cons l left r right)
  obtain p ls q rs where x: "l = (p, ls)" "r = (q, rs)" by (metis prod.collapse)
  from Cons.prems obtain ps ms where ps: "p = q" "add_points ls rs = Inr ps" "members = (p, ps) # ms"
    and rest: "collect_results (\<lambda>((p, ls), (q, rs)). if p \<noteq> q then Inl ParticipantMismatch
        else and_then (add_points ls rs) (\<lambda>ps. Inr (p, ps))) (zip left right) = Inr ms"
    by (auto simp: x and_then_Inr_iff split: if_splits)
  from Cons.IH [OF rest] show ?case by (auto simp: x ps(1,3) ps(2) [unfolded ps(1)])
qed simp

lemma points_evaluate_add:
  assumes P: "group_ok P" and add: "points_add a b = Inr c"
  shows "points_evaluate P c shape t = and_then (points_evaluate P a shape t) (\<lambda>x.
    and_then (points_evaluate P b shape t) (\<lambda>y. Inr (x + y)))"
proof (cases "shape_target_node shape t")
  case (Inl e)
  then show ?thesis by (simp add: points_evaluate_def)
next
  case node: (Inr n)
  show ?thesis
  proof (cases a)
    case a: (SinglePoints left)
    with add obtain right ps where "b = SinglePoints right" "add_points left right = Inr ps"
      "c = SinglePoints ps" by (cases b) (auto simp: and_then_Inr_iff)
    with a node show ?thesis
      by (cases t) (simp_all add: points_evaluate_def evaluate_add_points [OF P])
  next
    case a: (OuterPoints louter left)
    with add obtain router right outer members where b: "b = OuterPoints router right"
      and len: "length left = length right" and c: "c = OuterPoints outer members"
      and ms: "collect_results (\<lambda>((p, ls), (q, rs)). if p \<noteq> q then Inl ParticipantMismatch
        else and_then (add_points ls rs) (\<lambda>ps. Inr (p, ps))) (zip left right) = Inr members"
      by (cases b) (auto simp: and_then_Inr_iff if_Inl_eq_Inr)
    show ?thesis
    proof (cases t)
      case (TargetOuter person device)
      from search_added [OF len ms, of person] node TargetOuter show ?thesis
        by (auto simp: a b c points_evaluate_def evaluate_add_points [OF P])
    next
      case (TargetSingle device)
      with node show ?thesis by (simp add: a b c points_evaluate_def)
    qed
  qed
qed

text \<open>An aggregate evaluates to the sum of its openings' evaluations.\<close>

lemma fold_add_evaluate:
  assumes P: "group_ok P"
    and "foldl (\<lambda>aggregate o'. and_then aggregate (\<lambda>a. points_add a (do_points o'))) (Inr a) os = Inr c"
    and "points_evaluate P a shape t = Inr x"
    and "list_all2 (\<lambda>o' y. points_evaluate P (do_points o') shape t = Inr y) os ys"
  shows "points_evaluate P c shape t = Inr (x + sum_list ys)"
  using assms(2-4)
proof (induction os arbitrary: a x ys)
  case (Cons o' os)
  have stuck: "foldl (\<lambda>aggregate o'. and_then aggregate (\<lambda>a. points_add a (do_points o'))) (Inl e) os = Inl e"
    for e by (induction os) auto
  from Cons.prems(1) stuck obtain b where b: "points_add a (do_points o') = Inr b"
    and rest: "foldl (\<lambda>aggregate o'. and_then aggregate (\<lambda>a. points_add a (do_points o'))) (Inr b) os = Inr c"
    by (cases "points_add a (do_points o')") auto
  from Cons.prems(3) obtain y zs where ys: "ys = y # zs" "points_evaluate P (do_points o') shape t = Inr y"
    and zs: "list_all2 (\<lambda>o' y. points_evaluate P (do_points o') shape t = Inr y) os zs"
    by (auto simp: list_all2_Cons1)
  have "points_evaluate P b shape t = Inr (x + y)"
    using points_evaluate_add [OF P b] Cons.prems(2) ys(2) by simp
  from Cons.IH [OF rest this zs] show ?case by (simp add: ys(1) add.assoc)
qed simp

lemma aggregate_evaluate:
  assumes "group_ok P" "aggregate_points os = Inr c"
    and "list_all2 (\<lambda>o' y. points_evaluate P (do_points o') shape t = Inr y) os ys"
  shows "points_evaluate P c shape t = Inr (sum_list ys)"
proof -
  from assms(2) have "os \<noteq> []" by (auto simp: aggregate_points_def split: if_splits)
  then obtain o' os' where os: "os = o' # os'" by (cases os) auto
  with assms(3) obtain y zs where "ys = y # zs" "points_evaluate P (do_points o') shape t = Inr y"
    "list_all2 (\<lambda>o' y. points_evaluate P (do_points o') shape t = Inr y) os' zs"
    by (auto simp: list_all2_Cons1)
  with fold_add_evaluate [OF assms(1), of "do_points o'" os' c shape t y zs] assms(2) show ?thesis
    by (simp add: aggregate_points_def os)
qed

section \<open>Accumulation\<close>

definition accumulator_inv ::
  "('s::field, 'g::ab_group_add) profile \<Rightarrow> ('s, 'g) target_accumulator \<Rightarrow> bool" where
  "accumulator_inv P a \<longleftrightarrow> bt_sorted (ta_shares a)
     \<and> (\<forall>x \<in> set (ta_shares a). \<exists>opn. view_opening (ta_view a) (fst x) = Inr opn
        \<and> points_evaluate P (do_points opn) (cm_shape (vw_command (ta_view a))) (ta_target a) =
          Inr (element_from_scalar P (snd x)))"

lemma accumulator_new_inv:
  "accumulator_new v t = Inr a \<Longrightarrow> accumulator_inv P a \<and> ta_view a = v \<and> ta_target a = t"
  by (auto simp: accumulator_new_def accumulator_inv_def and_then_Inr_iff)

lemma accumulator_receive_inv:
  assumes "accumulator_inv P a" "accumulator_receive P s a = (r, a')"
  shows "accumulator_inv P a' \<and> ta_view a' = ta_view a \<and> ta_target a' = ta_target a"
proof -
  have "accumulator_inv P (a\<lparr>ta_shares := bt_insert (ps_role s) (ps_value s) (ta_shares a)\<rparr>)"
    if "view_opening (ta_view a) (ps_role s) = Inr opn"
      and "points_evaluate P (do_points opn) (cm_shape (vw_command (ta_view a))) (ta_target a) =
        Inr (element_from_scalar P (ps_value s))"
      and "map_of (ta_shares a) (ps_role s) = None" for opn
  proof -
    from that(3) have "set (bt_insert (ps_role s) (ps_value s) (ta_shares a)) =
        insert (ps_role s, ps_value s) (set (ta_shares a))"
      by (intro set_bt_insert) (simp add: map_of_eq_None_iff)
    with assms(1) that(1,2) show ?thesis by (simp add: accumulator_inv_def)
  qed
  with assms show ?thesis
    by (auto simp: accumulator_receive_def and_then_Inr_iff split: if_splits sum.splits option.splits)
qed

definition receive_all ::
  "('s::field, 'g::ab_group_add) profile \<Rightarrow> 's private_share list \<Rightarrow> ('s, 'g) target_accumulator
     \<Rightarrow> ('s, 'g) target_accumulator" where
  "receive_all P shares a = foldl (\<lambda>a s. snd (accumulator_receive P s a)) a shares"

lemma receive_all_inv:
  "accumulator_inv P a \<Longrightarrow> accumulator_inv P (receive_all P shares a)
     \<and> ta_view (receive_all P shares a) = ta_view a \<and> ta_target (receive_all P shares a) = ta_target a"
proof (induction shares arbitrary: a)
  case (Cons s shares)
  then show ?case
    using accumulator_receive_inv [OF Cons.prems, of s "fst (accumulator_receive P s a)"
        "snd (accumulator_receive P s a)"]
    by (simp add: receive_all_def)
qed (simp add: receive_all_def)

text \<open>
  With one accepted share for every role, the sum of the shares is the secret behind the
  aggregated points at the target's node.
\<close>

lemma accumulated_sum:
  assumes P: "group_ok P" and inv: "accumulator_inv P a"
    and opn: "map do_role (vw_openings (ta_view a)) = map fst (ta_shares a)"
    and agg: "aggregate_points (vw_openings (ta_view a)) = Inr (vw_aggregate (ta_view a))"
  shows "points_evaluate P (vw_aggregate (ta_view a)) (cm_shape (vw_command (ta_view a))) (ta_target a) =
    Inr (element_from_scalar P (\<Sum>x\<leftarrow>ta_shares a. snd x))"
proof -
  let ?os = "vw_openings (ta_view a)" and ?shape = "cm_shape (vw_command (ta_view a))"
  have "distinct (map fst (ta_shares a))" using inv by (simp add: accumulator_inv_def strict_sorted_iff)
  then have dist: "distinct (map do_role ?os)" by (simp add: opn)
  have "list_all2 (\<lambda>o' y. points_evaluate P (do_points o') ?shape (ta_target a) = Inr y) ?os
      (map (element_from_scalar P \<circ> snd) (ta_shares a))"
  proof (rule list_all2_all_nthI)
    show len: "length ?os = length (map (element_from_scalar P \<circ> snd) (ta_shares a))"
      using map_eq_imp_length_eq [OF opn] by simp
    fix i assume i: "i < length ?os"
    with len have share: "ta_shares a ! i \<in> set (ta_shares a)" by simp
    have role: "do_role (?os ! i) = fst (ta_shares a ! i)"
      using arg_cong [OF opn, of "\<lambda>xs. xs ! i"] i len by simp
    from search_key_distinct [OF dist nth_mem [OF i]]
    have "view_opening (ta_view a) (fst (ta_shares a ! i)) = Inr (?os ! i)"
      by (simp add: view_opening_def role)
    moreover from inv share obtain o' where "view_opening (ta_view a) (fst (ta_shares a ! i)) = Inr o'"
      "points_evaluate P (do_points o') ?shape (ta_target a) =
        Inr (element_from_scalar P (snd (ta_shares a ! i)))"
      unfolding accumulator_inv_def by blast
    ultimately show "points_evaluate P (do_points (?os ! i)) ?shape (ta_target a) =
        Inr (map (element_from_scalar P \<circ> snd) (ta_shares a) ! i)"
      using i len by simp
  qed
  from aggregate_evaluate [OF P agg this] show ?thesis
    by (simp add: element_from_scalar_sum_list [OF P] comp_def)
qed

lemma foldl_shares: "foldl (\<lambda>sum (_, share). sum + share) (s :: 's::ab_group_add) xs = s + (\<Sum>x\<leftarrow>xs. snd x)"
  by (induction xs arbitrary: s) (simp_all add: case_prod_beta add.assoc)

text \<open>The openings of a candidate's view are those of its roles, in the roles' order.\<close>

lemma view_roles:
  assumes "cand_inv P c" "ca_view c = Some v"
  shows "map do_role (vw_openings v) = map fst (ca_openings c)" "vw_command v = ca_command c"
    and "fst ` set (ca_openings c) = ca_roles c" "bt_sorted (ca_openings c)"
    and "aggregate_points (vw_openings v) = Inr (vw_aggregate v)"
    and "points_validate P (vw_aggregate v) (cm_shape (ca_command c)) (cm_anchor (ca_command c)) = Inr ()"
proof -
  have inv: "bt_sorted (ca_openings c)" "\<forall>x \<in> set (ca_openings c). opening_ok P c (fst x) (snd x)"
    "fst ` set (ca_openings c) = ca_roles c" "build_view P c = Inr v"
    using assms by (auto simp: cand_inv_def rounds_inv_def)
  from inv(4) have v: "vw_openings v = map snd (ca_openings c)" "vw_command v = ca_command c"
    "aggregate_points (map snd (ca_openings c)) = Inr (vw_aggregate v)"
    "points_validate P (vw_aggregate v) (cm_shape (ca_command c)) (cm_anchor (ca_command c)) = Inr ()"
    by (auto simp: build_view_def Let_def and_then_Inr_iff)
  show "map do_role (vw_openings v) = map fst (ca_openings c)"
    using inv(2) by (simp add: v(1) opening_ok_def)
  show "vw_command v = ca_command c" "fst ` set (ca_openings c) = ca_roles c"
    "bt_sorted (ca_openings c)" "aggregate_points (vw_openings v) = Inr (vw_aggregate v)"
    "points_validate P (vw_aggregate v) (cm_shape (ca_command c)) (cm_anchor (ca_command c)) = Inr ()"
    using inv v by simp_all
qed

section \<open>Honest contributions\<close>

definition block_dealt ::
  "('s::field, 'g::ab_group_add) profile \<Rightarrow> 's secret_block \<Rightarrow> 's target_shape \<Rightarrow> bool" where
  "block_dealt P block shape \<longleftrightarrow> (\<forall>t. points_evaluate P (block_points P block) shape t =
     and_then (block_evaluate block shape t) (\<lambda>v. Inr (element_from_scalar P v)))"

lemma block_evaluates:
  assumes P: "group_ok P"
  shows "block_dealt P block shape"
proof -
  have search: "search_key fst person (map (\<lambda>(q, p). (q, polynomial_commitments P p)) ms) =
      map_option (\<lambda>(q, p). (q, polynomial_commitments P p)) (search_key fst person ms)"
    for person and ms :: "(person_id \<times> 'a list) list"
    by (induction ms) auto
  have "points_evaluate P (block_points P block) shape t =
     and_then (block_evaluate block shape t) (\<lambda>v. Inr (element_from_scalar P v))" for t
  proof (cases "shape_target_node shape t")
    case (Inl e)
    then show ?thesis by (simp add: points_evaluate_def block_evaluate_def)
  next
    case node: (Inr n)
    show ?thesis
    proof (cases block)
      case (SingleBlock p)
      with node show ?thesis
        by (cases t) (simp_all add: points_evaluate_def block_evaluate_def evaluate_commitments_commit [OF P])
    next
      case (OuterBlock outer members)
      show ?thesis
      proof (cases t)
        case (TargetOuter person device)
        with node show ?thesis
          by (cases "search_key fst person members")
            (auto simp: OuterBlock points_evaluate_def block_evaluate_def
              evaluate_commitments_commit [OF P] search)
      next
        case (TargetSingle device)
        with node show ?thesis by (simp add: OuterBlock points_evaluate_def block_evaluate_def)
      qed
    qed
  qed
  then show ?thesis by (simp add: block_dealt_def)
qed

lemma contribution_sample_Inr:
  assumes "contribution_sample P draw command spec k rng = (Inr n, rng')"
  shows "cn_command n = cm_command command \<and> cn_role n = sp_role spec
    \<and> cn_points n = block_points P (cn_block n)
    \<and> points_validate P (cn_points n) (cm_shape command) (sp_constant spec) = Inr ()
    \<and> deal_opening_commitment P (contribution_opening n) command = Inr (cn_commitment n)"
  using assms
  by (auto simp: contribution_sample_def Let_def and_then_Inr_iff deal_opening_commitment_def
      contribution_opening_def split: if_splits sum.splits prod.splits)

lemma command_role_Inr:
  "command_role command role = Inr spec \<Longrightarrow> sp_role spec = role \<and> spec \<in> set (cm_roles command)"
  by (auto simp: command_role_def ok_or_Inr_iff dest: search_key_SomeD)

lemma contribution_made:
  assumes "contribution_source P draw command device secret rng = (Inr n, rng')
    \<or> contribution_refresher P draw command device rng = (Inr n, rng')"
  shows "\<exists>spec. command_role command (cn_role n) = Inr spec \<and> cn_command n = cm_command command
    \<and> cn_points n = block_points P (cn_block n)
    \<and> points_validate P (cn_points n) (cm_shape command) (sp_constant spec) = Inr ()
    \<and> deal_opening_commitment P (contribution_opening n) command = Inr (cn_commitment n)"
  using assms
proof
  assume "contribution_source P draw command device secret rng = (Inr n, rng')"
  then obtain spec k where spec: "command_role command (RoleSource device) = Inr spec"
    and made: "contribution_sample P draw command spec k rng = (Inr n, rng')"
    by (auto simp: contribution_source_def and_then_Inr_iff split: sum.splits prod.splits if_splits)
  from contribution_sample_Inr [OF made] command_role_Inr [OF spec] spec show ?thesis by auto
next
  assume "contribution_refresher P draw command device rng = (Inr n, rng')"
  then obtain spec where spec: "command_role command (RoleRefresher device) = Inr spec"
    and made: "contribution_sample P draw command spec 0 rng = (Inr n, rng')"
    by (auto simp: contribution_refresher_def split: sum.splits)
  from contribution_sample_Inr [OF made] command_role_Inr [OF spec] spec show ?thesis by auto
qed

end
