(* ===== verification/Ksnf_Dealing_Points.thy ===== *)
theory Ksnf_Dealing_Points
  imports Ksnf_Dealing_Proofs
begin

text \<open>
  Valid points add up to valid points: the openings of all roles of a command aggregate, and the
  constant of the aggregate is the anchor.
\<close>

section \<open>Validity as a relation\<close>

definition member_valid ::
  "('s, 'g::ab_group_add, 'z) profile_scheme \<Rightarrow> 'g list \<Rightarrow> person_id \<times> 'g list \<Rightarrow> 's outer_target \<Rightarrow> bool"
  where
  "member_valid P outer m t \<longleftrightarrow> fst m = ot_person t \<and> length (snd m) = unat (ss_threshold (ot_inner t))
     \<and> first_point (snd m) = Some (evaluate_commitments P outer (ot_node t))"

lemma points_validate_Single:
  "points_validate P ps (SingleShape s) k = Inr u \<longleftrightarrow>
     (\<exists>cs. ps = SinglePoints cs \<and> length cs = unat (ss_threshold s) \<and> first_point cs = Some k)"
  by (cases ps) (auto simp: if_Inl_eq_Inr)

lemma points_validate_Outer:
  "points_validate P ps (OuterShape s) k = Inr u \<longleftrightarrow>
     (\<exists>outer ms. ps = OuterPoints outer ms \<and> length outer = unat (oh_threshold s)
        \<and> first_point outer = Some k \<and> list_all2 (member_valid P outer) ms (oh_people s))"
proof -
  have "list_all2 (member_valid P outer) ms ts \<longleftrightarrow> length ms = length ts
      \<and> \<not> list_ex (\<lambda>((person, points), t). person \<noteq> ot_person t
          \<or> length points \<noteq> unat (ss_threshold (ot_inner t))
          \<or> first_point points \<noteq> Some (evaluate_commitments P outer (ot_node t))) (zip ms ts)"
    for outer ms ts
    by (auto simp: list_all2_iff member_valid_def list_ex_iff)
  then show ?thesis by (cases ps) (auto simp: if_Inl_eq_Inr)
qed

lemma first_point_Some: "first_point ps = Some k \<longleftrightarrow> (\<exists>qs. ps = k # qs)"
  by (cases ps) (auto simp: first_point_def)

lemma add_points_first:
  assumes "length a = length b" "first_point a = Some k" "first_point b = Some m"
  shows "\<exists>c. add_points a b = Inr c \<and> length c = length a \<and> first_point c = Some (k + m)"
  using assms by (auto simp: add_points_def first_point_Some)

lemma points_add_valid:
  assumes P: "group_ok P" and a: "points_validate P a shape k = Inr ()"
    and b: "points_validate P b shape m = Inr ()"
  shows "\<exists>c. points_add a b = Inr c \<and> points_validate P c shape (k + m) = Inr ()"
proof (cases shape)
  case (SingleShape s)
  with a b obtain as bs where ab: "a = SinglePoints as" "b = SinglePoints bs"
    "length as = unat (ss_threshold s)" "length bs = unat (ss_threshold s)"
    "first_point as = Some k" "first_point bs = Some m"
    by (auto simp: points_validate_Single)
  from add_points_first [of as bs k m] ab obtain cs where "add_points as bs = Inr cs"
    "length cs = length as" "first_point cs = Some (k + m)" by auto
  with ab show ?thesis by (auto simp: SingleShape)
next
  case (OuterShape s)
  with a b obtain ao as bo bs where ab: "a = OuterPoints ao as" "b = OuterPoints bo bs"
    and out: "length ao = unat (oh_threshold s)" "length bo = unat (oh_threshold s)"
      "first_point ao = Some k" "first_point bo = Some m"
    and as: "list_all2 (member_valid P ao) as (oh_people s)"
    and bs: "list_all2 (member_valid P bo) bs (oh_people s)"
    by (auto simp: points_validate_Outer)
  from add_points_first [of ao bo k m] out obtain co where co: "add_points ao bo = Inr co"
    "length co = unat (oh_threshold s)" "first_point co = Some (k + m)" by auto
  let ?f = "\<lambda>((p, ls), (q, rs)). if p \<noteq> q then Inl ParticipantMismatch
      else and_then (add_points ls rs) (\<lambda>ps. Inr (p, ps))"
  have "\<exists>cs. collect_results ?f (zip as bs) = Inr cs \<and> list_all2 (member_valid P co) cs ts"
    if "list_all2 (member_valid P ao) as ts" "list_all2 (member_valid P bo) bs ts" for ts as bs
    using that
  proof (induction ts arbitrary: as bs rule: list.induct)
    case (Cons t ts)
    from Cons.prems obtain x as' y bs' where x: "as = x # as'" "bs = y # bs'"
      "member_valid P ao x t" "member_valid P bo y t"
      "list_all2 (member_valid P ao) as' ts" "list_all2 (member_valid P bo) bs' ts"
      by (auto simp: list_all2_Cons2)
    from Cons.IH [OF x(5,6)] obtain cs where cs: "collect_results ?f (zip as' bs') = Inr cs"
      "list_all2 (member_valid P co) cs ts" by blast
    from add_points_first [of "snd x" "snd y"] x(3,4) obtain c where c: "add_points (snd x) (snd y) = Inr c"
      "length c = unat (ss_threshold (ot_inner t))"
      "first_point c = Some (evaluate_commitments P ao (ot_node t) + evaluate_commitments P bo (ot_node t))"
      by (auto simp: member_valid_def)
    then have "member_valid P co (ot_person t, c) t"
      by (simp add: member_valid_def evaluate_add_points [OF P co(1)])
    moreover have "?f (x, y) = Inr (ot_person t, c)"
      using x(3,4) c(1) by (cases x; cases y) (simp add: member_valid_def)
    then have "collect_results ?f (zip as bs) = Inr ((ot_person t, c) # cs)"
      using cs(1) by (simp only: x(1,2) zip_Cons_Cons collect_results.simps and_then_simps)
    ultimately show ?case using cs(2) by blast
  qed auto
  from this [OF as bs] obtain cs where "collect_results ?f (zip as bs) = Inr cs"
    "list_all2 (member_valid P co) cs (oh_people s)" by blast
  moreover have "length as = length bs" using as bs by (simp add: list_all2_lengthD)
  ultimately show ?thesis
    using co by (auto simp: ab OuterShape points_validate_Outer simp del: points_validate.simps)
qed

section \<open>The aggregate of a command\<close>

lemma aggregate_valid:
  assumes P: "group_ok P" and ne: "os \<noteq> []"
    and each: "list_all2 (\<lambda>o' k. points_validate P (do_points o') shape k = Inr ()) os ks"
  shows "\<exists>c. aggregate_points os = Inr c \<and> points_validate P c shape (sum_list ks) = Inr ()"
proof -
  have fold: "\<exists>c. foldl (\<lambda>aggregate o'. and_then aggregate (\<lambda>a. points_add a (do_points o'))) (Inr a) os =
        Inr c \<and> points_validate P c shape (k + sum_list ks) = Inr ()"
    if "points_validate P a shape k = Inr ()"
      "list_all2 (\<lambda>o' k. points_validate P (do_points o') shape k = Inr ()) os ks" for a k os ks
    using that
  proof (induction os arbitrary: a k ks rule: list.induct)
    case (Cons o' os)
    then obtain m ms where ks: "ks = m # ms" "points_validate P (do_points o') shape m = Inr ()"
      "list_all2 (\<lambda>o' k. points_validate P (do_points o') shape k = Inr ()) os ms"
      by (auto simp: list_all2_Cons1)
    from points_add_valid [OF P Cons.prems(1) ks(2)] obtain b where
      "points_add a (do_points o') = Inr b" "points_validate P b shape (k + m) = Inr ()" by blast
    with Cons.IH [OF this(2) ks(3)] show ?case by (auto simp: ks(1) add.assoc)
  qed auto
  from ne obtain o' os' where os: "os = o' # os'" by (cases os) auto
  with each obtain k ks' where "ks = k # ks'" "points_validate P (do_points o') shape k = Inr ()"
    "list_all2 (\<lambda>o' k. points_validate P (do_points o') shape k = Inr ()) os' ks'"
    by (auto simp: list_all2_Cons1)
  with fold [of "do_points o'" k os' ks'] show ?thesis by (simp add: aggregate_points_def os)
qed

text \<open>Every role of a command is made by one of the two constructors.\<close>

definition specs_ok :: "('s, 'g::zero) role_spec list \<Rightarrow> bool" where
  "specs_ok specs \<longleftrightarrow> (\<forall>r \<in> set specs. \<not> is_source (sp_role r) \<longrightarrow> sp_constant r = 0)"

lemma role_refresher_ok: "\<not> is_source (sp_role (role_refresher d)) \<and> sp_constant (role_refresher d) = 0"
  by (simp add: role_refresher_def)

lemma role_source_ok: "role_source P d share weight = Inr r \<Longrightarrow> is_source (sp_role r)"
  by (auto simp: role_source_def if_Inl_eq_Inr)

definition specs_made :: "('s, 'g::zero) profile \<Rightarrow> ('s, 'g) role_spec list \<Rightarrow> bool" where
  "specs_made P specs \<longleftrightarrow> (\<forall>r \<in> set specs. (\<exists>d. r = role_refresher d)
     \<or> (\<exists>d share weight. role_source P d share weight = Inr r))"

lemma specs_made_ok: "specs_made P specs \<Longrightarrow> specs_ok specs"
  unfolding specs_made_def specs_ok_def using role_refresher_ok role_source_ok by metis

lemma command_new_Inr:
  assumes "command_new scope command predecessor anchor shape specs = Inr cmd" "specs_ok specs"
  shows "sorted_wrt (<) (map sp_role (cm_roles cmd)) \<and> cm_roles cmd \<noteq> []
    \<and> mset (cm_roles cmd) = mset specs
    \<and> sum_list (map sp_constant (cm_roles cmd)) = anchor
    \<and> cm_scope cmd = scope \<and> cm_command cmd = command \<and> cm_predecessor cmd = predecessor
    \<and> cm_anchor cmd = anchor \<and> cm_shape cmd = shape"
proof -
  let ?rs = "sort_key sp_role specs"
  from assms(1) have ne: "?rs \<noteq> []" and adj: "\<not> any_adjacent (\<lambda>a b. sp_role a = sp_role b) ?rs"
    and sum: "foldl (\<lambda>sum r. sum + sp_constant r) 0 (filter (is_source \<circ> sp_role) ?rs) = anchor"
    and cmd: "cmd = \<lparr>cm_scope = scope, cm_command = command, cm_predecessor = predecessor,
                cm_anchor = anchor, cm_shape = shape, cm_roles = ?rs\<rparr>"
    by (auto simp: command_new_def Let_def if_Inl_eq_Inr)
  have sorted: "sorted_wrt (<) (map sp_role ?rs)"
    using adj any_adjacent_eq_sorted [of sp_role ?rs] by (simp add: strict_sorted_iff)
  have fold: "foldl (\<lambda>sum r. sum + sp_constant r) s xs = s + sum_list (map sp_constant xs)"
    for s and xs :: "('a, 'b) role_spec list"
    by (induction xs arbitrary: s) (simp_all add: add.assoc)
  have "sum_list (map sp_constant (filter (is_source \<circ> sp_role) xs)) = sum_list (map sp_constant xs)"
    if "\<forall>r \<in> set xs. \<not> is_source (sp_role r) \<longrightarrow> sp_constant r = 0" for xs :: "('a, 'b) role_spec list"
    using that by (induction xs) auto
  from this [of ?rs] sum [unfolded fold] assms(2) have "sum_list (map sp_constant ?rs) = anchor"
    by (simp add: specs_ok_def)
  with sorted ne show ?thesis by (simp add: cmd)
qed

text \<open>One valid opening for every role: the aggregate is valid for the command's anchor.\<close>

lemma openings_aggregate:
  assumes P: "group_ok P" and cmd: "command_new scope command predecessor anchor shape specs = Inr cmd"
    and specs: "specs_ok specs" and roles: "map do_role os = map sp_role (cm_roles cmd)"
    and each: "\<forall>o' \<in> set os. \<exists>spec. command_role cmd (do_role o') = Inr spec
      \<and> points_validate P (do_points o') shape (sp_constant spec) = Inr ()"
  shows "\<exists>c. aggregate_points os = Inr c \<and> points_validate P c (cm_shape cmd) (cm_anchor cmd) = Inr ()"
proof -
  note c = command_new_Inr [OF cmd specs]
  have len: "length os = length (cm_roles cmd)" using map_eq_imp_length_eq [OF roles] .
  have dist: "distinct (map sp_role (cm_roles cmd))" using c by (simp add: strict_sorted_iff)
  have "list_all2 (\<lambda>o' k. points_validate P (do_points o') shape k = Inr ()) os
      (map sp_constant (cm_roles cmd))"
  proof (rule list_all2_all_nthI)
    show "length os = length (map sp_constant (cm_roles cmd))" using len by simp
    fix i assume i: "i < length os"
    have role: "do_role (os ! i) = sp_role (cm_roles cmd ! i)"
      using arg_cong [OF roles, of "\<lambda>xs. xs ! i"] i len by simp
    have mem: "cm_roles cmd ! i \<in> set (cm_roles cmd)" using i len by simp
    have "command_role cmd (do_role (os ! i)) = Inr (cm_roles cmd ! i)"
      using search_key_distinct [OF dist mem] by (simp add: command_role_def role)
    with each i show "points_validate P (do_points (os ! i)) shape (map sp_constant (cm_roles cmd) ! i) = Inr ()"
      using len nth_mem [OF i] by fastforce
  qed
  moreover have "os \<noteq> []" using len c by auto
  ultimately show ?thesis using aggregate_valid [OF P] c by metis
qed

end
