(* ===== verification/Ksnf_Dealing_Run.thy ===== *)
theory Ksnf_Dealing_Run
  imports Ksnf_Dealing_Points
begin

text \<open>
  A redistribution in which every role and every target does its part: each operation succeeds
  and the log stays in step with the candidate, up to the activation.
\<close>

section \<open>Repeating an operation\<close>

definition each_op ::
  "('x \<Rightarrow> 'c \<Rightarrow> 'l \<Rightarrow> 'a result \<times> 'c \<times> 'l) \<Rightarrow> 'x list \<Rightarrow> 'c \<Rightarrow> 'l \<Rightarrow> 'c \<times> 'l" where
  "each_op f xs c l = foldl (\<lambda>(c, l) x. snd (f x c l)) (c, l) xs"

lemma each_op_simps [simp]:
  "each_op f [] c l = (c, l)"
  "each_op f (x # xs) c l = (case f x c l of (r, c', l') \<Rightarrow> each_op f xs c' l')"
  by (simp_all add: each_op_def case_prod_beta)

text \<open>Operations that each add one key of their own.\<close>

lemma each_op_adds:
  assumes step: "\<And>x c l. I c l \<Longrightarrow> x \<in> X \<Longrightarrow> key x \<notin> K c \<Longrightarrow>
      \<exists>r l'. f x c l = (r, put x c, l') \<and> I (put x c) l'"
    and keys: "\<And>x c. K (put x c) = insert (key x) (K c)"
    and "I c l" "set xs \<subseteq> X" "distinct (map key xs)" "K c \<inter> key ` set xs = {}"
  shows "\<exists>l'. each_op f xs c l = (foldl (\<lambda>c x. put x c) c xs, l') \<and> I (foldl (\<lambda>c x. put x c) c xs) l'"
  using assms(3-6)
proof (induction xs arbitrary: c l)
  case (Cons x xs)
  from step [OF Cons.prems(1), of x] Cons.prems(2,4) obtain r l' where
    op: "f x c l = (r, put x c, l')" "I (put x c) l'" by auto
  have "K (put x c) \<inter> key ` set xs = {}" using Cons.prems(3,4) by (auto simp: keys)
  with Cons.IH [OF op(2)] Cons.prems(2,3) op(1) show ?case by auto
qed simp

definition bt_of :: "('k::linorder \<times> 'v) list \<Rightarrow> ('k \<times> 'v) list \<Rightarrow> ('k \<times> 'v) list" where
  "bt_of m xs = foldl (\<lambda>m x. bt_insert (fst x) (snd x) m) m xs"

lemma bt_of_simps [simp]:
  "bt_of m [] = m" "bt_of m (x # xs) = bt_of (bt_insert (fst x) (snd x) m) xs"
  by (simp_all add: bt_of_def)

lemma bt_of_sorted:
  assumes "distinct (map fst xs)"
  shows "bt_of [] xs = sort_key fst xs"
proof -
  have "mset (bt_of m xs) = mset m + mset xs \<and> bt_sorted (bt_of m xs)"
    if "bt_sorted m" "distinct (map fst xs)" "fst ` set m \<inter> fst ` set xs = {}" for m
    using that
  proof (induction xs arbitrary: m)
    case (Cons x xs)
    have "bt_sorted (bt_insert (fst x) (snd x) m)" using Cons.prems(1) by simp
    moreover have "fst ` set (bt_insert (fst x) (snd x) m) \<inter> fst ` set xs = {}"
      using Cons.prems(2,3) by auto
    moreover have "mset (bt_insert (fst x) (snd x) m) = add_mset x (mset m)"
      using Cons.prems(3) by (subst mset_bt_insert) auto
    ultimately show ?case using Cons.IH Cons.prems(2) by simp
  qed simp
  from this [of "[]"] assms have "mset (bt_of [] xs) = mset xs" "bt_sorted (bt_of [] xs)" by simp_all
  moreover have "inj_on fst (set xs)" using assms by (simp add: distinct_map)
  ultimately show ?thesis
    by (intro sort_key_inj_key_eq [symmetric]) (simp_all add: strict_sorted_iff)
qed

section \<open>The log in step with the candidate\<close>

lemma encode_role_inj [simp]: "encode_role r = encode_role r' \<longleftrightarrow> r = r'"
  by (cases r; cases r') (simp_all add: put_u8_def)

lemma encode_target_inj [simp]: "encode_target t = encode_target t' \<longleftrightarrow> t = t'"
  by (cases t; cases t') (simp_all add: put_u8_def)

definition in_step :: "log_phase option \<Rightarrow> ('s, 'g) candidate \<Rightarrow> log_transcript \<Rightarrow> bool" where
  "in_step phase c t \<longleftrightarrow> lt_scope t = cm_scope (ca_command c)
     \<and> lt_predecessor t = cm_predecessor (ca_command c) \<and> lt_terminal t = None
     \<and> lt_next_phase t = phase
     \<and> (\<forall>role. role \<notin> fst ` set (ca_commitments c) \<longrightarrow> lt_posts t (CommitPhase, encode_role role) = None)
     \<and> (\<forall>role. role \<notin> fst ` set (ca_openings c) \<longrightarrow> lt_posts t (OpenPhase, encode_role role) = None)
     \<and> (\<forall>target. target \<notin> fst ` set (ca_receipts c) \<longrightarrow>
          lt_posts t (ReceiptPhase, encode_target target) = None)"

definition synced :: "activation_handle set \<Rightarrow> log_phase option \<Rightarrow> ('s, 'g) candidate \<Rightarrow> memory_log \<Rightarrow> bool" where
  "synced H phase c l \<longleftrightarrow> ml_handles l = H
     \<and> ml_current l (cm_scope (ca_command c)) = Some (cm_predecessor (ca_command c))
     \<and> (\<exists>t. ml_transcripts l (ca_id c) = Some t \<and> in_step phase c t)"

lemma synced_new:
  assumes "candidate_new P memory_act command l0 = (Inr c, l)" "ml_transcripts l0 (cm_command command) = None"
  shows "synced (ml_handles l0) (Some CommitPhase) c l"
  using assms
  by (auto simp: candidate_new_def memory_act_def log_begin_def put_transcript_def synced_def in_step_def
      split: sum.splits if_splits)

lemma commit_synced:
  assumes "synced H (Some CommitPhase) c l" "ca_stage c = CommitStage" "role \<in> ca_roles c"
    and "role \<notin> fst ` set (ca_commitments c)"
  shows "\<exists>l'. candidate_commit P memory_act role k c l =
      (Inr (), c\<lparr>ca_commitments := bt_insert role k (ca_commitments c)\<rparr>, l')
    \<and> synced H (Some CommitPhase) (c\<lparr>ca_commitments := bt_insert role k (ca_commitments c)\<rparr>) l'"
proof -
  have "command_role (ca_command c) role \<noteq> Inl ParticipantNotFound"
    using assms(3) by (auto simp: command_role_def ok_or_def search_key_None_iff split: option.splits)
  moreover have "map_of (ca_commitments c) role = None" using assms(4) by (simp add: map_of_eq_None_iff)
  ultimately show ?thesis using assms
    by (auto simp: candidate_commit_def memory_act_def log_post_def put_transcript_def synced_def in_step_def)
qed

lemma open_synced:
  assumes "synced H (Some OpenPhase) c l" "ca_stage c = OpenStage" "check_opening P c opn = Inr bs"
    and "do_role opn \<notin> fst ` set (ca_openings c)"
  shows "\<exists>l'. candidate_open P memory_act opn c l =
      (Inr (), c\<lparr>ca_openings := bt_insert (do_role opn) opn (ca_openings c)\<rparr>, l')
    \<and> synced H (Some OpenPhase) (c\<lparr>ca_openings := bt_insert (do_role opn) opn (ca_openings c)\<rparr>) l'"
proof -
  have "map_of (ca_openings c) (do_role opn) = None" using assms(4) by (simp add: map_of_eq_None_iff)
  then show ?thesis using assms
    by (auto simp: candidate_open_def memory_act_def log_post_def put_transcript_def synced_def in_step_def)
qed

lemma receipt_synced:
  assumes "synced H (Some ReceiptPhase) c l" "ca_stage c = ReceiptStage" "ca_view c = Some v"
    and "tr_command x = ca_id c" "tr_target x \<in> set (ca_targets c)" "tr_view x = vw_bytes v"
    and "length (vw_bytes v) < 2 ^ 32" "tr_target x \<notin> fst ` set (ca_receipts c)"
  shows "\<exists>l'. candidate_receipt P memory_act x c l =
      (Inr (), c\<lparr>ca_receipts := bt_insert (tr_target x) x (ca_receipts c)\<rparr>, l')
    \<and> synced H (Some ReceiptPhase) (c\<lparr>ca_receipts := bt_insert (tr_target x) x (ca_receipts c)\<rparr>) l'"
proof -
  have "map_of (ca_receipts c) (tr_target x) = None" using assms(8) by (simp add: map_of_eq_None_iff)
  moreover obtain bs where "receipt_to_bytes P x = Inr bs"
    using assms(6,7) by (auto simp: receipt_to_bytes_def put_bytes_def)
  ultimately show ?thesis using assms
    by (auto simp: candidate_receipt_def memory_act_def log_post_def put_transcript_def synced_def in_step_def)
qed

lemma close_synced:
  assumes "synced H (Some phase) c l"
  shows "\<exists>l'. log_close_phase (ca_id c) phase l = (Inr (), l') \<and> synced H (phase_after phase) c l'"
  using assms by (auto simp: log_close_phase_def put_transcript_def synced_def in_step_def less_log_phase_def)

lemma synced_cong:
  assumes "synced H phase c l" "ca_command c' = ca_command c" "ca_commitments c' = ca_commitments c"
    "ca_openings c' = ca_openings c" "ca_receipts c' = ca_receipts c"
  shows "synced H phase c' l"
  using assms by (simp add: synced_def in_step_def)

lemma activate_synced:
  assumes "synced H None c l" "finite H" "card H < 2 ^ 64"
  shows "\<exists>h l'. lg_activate memory_act (ca_id c) l = Some (Inr (Activated h), l')
    \<and> h \<notin> H \<and> log_current (cm_scope (ca_command c)) l' = Some h"
proof -
  from assms have fin: "finite (ml_handles l)" "card (ml_handles l) < 2 ^ 64"
    by (simp_all add: synced_def)
  obtain h n where fresh: "fresh_handle (ml_handles l) (ml_next_handle l) = Some (h, n)"
    using fresh_handle_total [OF few_handles_fresh [OF fin]] by metis
  have "bundle_scan l [ca_id c] {} {} [] None = Inr ([(ca_id c, cm_scope (ca_command c))], None)"
    using assms by (auto simp: synced_def in_step_def)
  moreover have "ml_handles l = H" using assms(1) by (simp add: synced_def)
  ultimately show ?thesis
    using activate_bundle_fresh [OF _ _ fresh, of "[ca_id c]"] fresh_handle_notin [OF fresh]
    by (simp add: memory_act_def log_activate_def activated_log_def log_current_def)
qed

section \<open>The three rounds\<close>

lemma same_set_length:
  "distinct xs \<Longrightarrow> distinct ys \<Longrightarrow> set xs = set ys \<Longrightarrow> length xs = length ys"
  by (metis distinct_card)

lemma commits_synced:
  fixes c :: "('s, 'g) candidate" and ks :: "(role_id \<times> 's) list"
  assumes "synced H (Some CommitPhase) c l" "ca_stage c = CommitStage" "ca_commitments c = []"
    and "distinct (map fst ks)" "fst ` set ks \<subseteq> ca_roles c"
  shows "\<exists>l'. each_op (\<lambda>x. candidate_commit P memory_act (fst x) (snd x)) ks c l =
      (c\<lparr>ca_commitments := sort_key fst ks\<rparr>, l')
    \<and> synced H (Some CommitPhase) (c\<lparr>ca_commitments := sort_key fst ks\<rparr>) l'"
proof -
  let ?put = "\<lambda>(x :: role_id \<times> 's) (c :: ('s, 'g) candidate). c\<lparr>ca_commitments := bt_insert (fst x) (snd x) (ca_commitments c)\<rparr>"
  let ?I = "\<lambda>d l. synced H (Some CommitPhase) d l \<and> ca_stage d = CommitStage \<and> ca_command d = ca_command c"
  have fold: "foldl (\<lambda>c x. ?put x c) d xs = d\<lparr>ca_commitments := bt_of (ca_commitments d) xs\<rparr>" for d xs
    by (induction xs arbitrary: d) simp_all
  have "\<exists>l'. each_op (\<lambda>x. candidate_commit P memory_act (fst x) (snd x)) ks c l =
      (foldl (\<lambda>c x. ?put x c) c ks, l') \<and> ?I (foldl (\<lambda>c x. ?put x c) c ks) l'"
  proof (rule each_op_adds [where X = "{x. fst x \<in> ca_roles c}" and key = fst
        and K = "\<lambda>c. fst ` set (ca_commitments c)"])
    fix x :: "role_id \<times> 's" and d l
    assume I: "?I d l" and x: "x \<in> {x. fst x \<in> ca_roles c}" "fst x \<notin> fst ` set (ca_commitments d)"
    then obtain l' where "candidate_commit P memory_act (fst x) (snd x) d l = (Inr (), ?put x d, l')"
      "synced H (Some CommitPhase) (?put x d) l'"
      using commit_synced [of H d l "fst x" P "snd x"] by auto
    with I show "\<exists>r l'. candidate_commit P memory_act (fst x) (snd x) d l = (r, ?put x d, l') \<and> ?I (?put x d) l'"
      by simp
  qed (use assms in auto)
  with assms(3) bt_of_sorted [OF assms(4)] show ?thesis unfolding fold by auto
qed

text \<open>What a candidate in the opening round accepts.\<close>

definition opening_honest ::
  "('s::field, 'g::ab_group_add) profile \<Rightarrow> ('s, 'g) command \<Rightarrow> (role_id \<times> 's) list
     \<Rightarrow> ('s, 'g) deal_opening \<Rightarrow> bool" where
  "opening_honest P cmd ks o' \<longleftrightarrow> (\<exists>spec k bs. command_role cmd (do_role o') = Inr spec
     \<and> points_validate P (do_points o') (cm_shape cmd) (sp_constant spec) = Inr ()
     \<and> map_of ks (do_role o') = Some k \<and> deal_opening_commitment P o' cmd = Inr k
     \<and> deal_opening_to_bytes P o' = Inr bs)"

lemma opening_honest_check:
  "opening_honest P (ca_command c) ks o' \<Longrightarrow> map_of (ca_commitments c) = map_of ks \<Longrightarrow>
     \<exists>bs. check_opening P c o' = Inr bs"
  by (auto simp: opening_honest_def check_opening_def)

abbreviation with_role :: "('s, 'g) deal_opening \<Rightarrow> role_id \<times> ('s, 'g) deal_opening" where
  "with_role o' \<equiv> (do_role o', o')"

lemma opens_synced:
  fixes c :: "('s::field, 'g::ab_group_add) candidate"
  assumes "synced H (Some OpenPhase) c l" "ca_stage c = OpenStage" "ca_openings c = []"
    and "distinct (map do_role os)" "map_of (ca_commitments c) = map_of ks"
    and "\<forall>o' \<in> set os. opening_honest P (ca_command c) ks o'"
  shows "\<exists>l'. each_op (candidate_open P memory_act) os c l =
      (c\<lparr>ca_openings := map with_role (sort_key do_role os)\<rparr>, l')
    \<and> synced H (Some OpenPhase) (c\<lparr>ca_openings := map with_role (sort_key do_role os)\<rparr>) l'"
proof -
  let ?put = "\<lambda>x (c :: ('s, 'g) candidate). c\<lparr>ca_openings := bt_insert (do_role x) x (ca_openings c)\<rparr>"
  let ?I = "\<lambda>d l. synced H (Some OpenPhase) d l \<and> ca_stage d = OpenStage \<and> ca_command d = ca_command c
    \<and> ca_commitments d = ca_commitments c"
  have fold: "foldl (\<lambda>c x. ?put x c) d xs = d\<lparr>ca_openings := bt_of (ca_openings d) (map with_role xs)\<rparr>"
    for d xs by (induction xs arbitrary: d) simp_all
  have "\<exists>l'. each_op (candidate_open P memory_act) os c l =
      (foldl (\<lambda>c x. ?put x c) c os, l') \<and> ?I (foldl (\<lambda>c x. ?put x c) c os) l'"
  proof (rule each_op_adds [where X = "set os" and key = do_role
        and K = "\<lambda>c. fst ` set (ca_openings c)"])
    fix x d l
    assume I: "?I d l" and x: "x \<in> set os" "do_role x \<notin> fst ` set (ca_openings d)"
    from x(1) assms(5,6) I obtain bs where "check_opening P d x = Inr bs"
      using opening_honest_check [of P d ks x] by auto
    with I x(2) obtain l' where "candidate_open P memory_act x d l = (Inr (), ?put x d, l')"
      "synced H (Some OpenPhase) (?put x d) l'"
      using open_synced [of H d l P x] by auto
    with I show "\<exists>r l'. candidate_open P memory_act x d l = (r, ?put x d, l') \<and> ?I (?put x d) l'"
      by simp
  qed (use assms in auto)
  moreover have "bt_of [] (map with_role os) = map with_role (sort_key do_role os)"
  proof -
    have dist: "distinct (map fst (map with_role os))" using assms(4) by (simp add: comp_def)
    have "sort_key fst (map with_role os) = map with_role (sort_key do_role os)"
      using dist by (intro sort_key_inj_key_eq) (auto simp: comp_def distinct_map inj_on_def)
    then show ?thesis by (simp add: bt_of_sorted [OF dist])
  qed
  ultimately show ?thesis unfolding fold assms(3) by auto
qed

definition receipt_for :: "('s, 'g) candidate \<Rightarrow> ('s, 'g) candidate_view \<Rightarrow> target_id \<Rightarrow> target_receipt" where
  "receipt_for c v t = \<lparr>tr_command = ca_id c, tr_target = t, tr_view = vw_bytes v\<rparr>"

lemma receipts_synced:
  fixes c :: "('s, 'g) candidate"
  assumes "synced H (Some ReceiptPhase) c l" "ca_stage c = ReceiptStage" "ca_receipts c = []"
    and "ca_view c = Some v" "length (vw_bytes v) < 2 ^ 32"
    and "distinct ts" "set ts = set (ca_targets c)"
  shows "\<exists>l'. each_op (\<lambda>t. candidate_receipt P memory_act (receipt_for c v t)) ts c l =
      (c\<lparr>ca_receipts := map (\<lambda>t. (t, receipt_for c v t)) (sort ts)\<rparr>, l')
    \<and> synced H (Some ReceiptPhase) (c\<lparr>ca_receipts := map (\<lambda>t. (t, receipt_for c v t)) (sort ts)\<rparr>) l'"
proof -
  let ?row = "\<lambda>t. (t, receipt_for c v t)"
  let ?put = "\<lambda>t (c' :: ('s, 'g) candidate). c'\<lparr>ca_receipts := bt_insert t (receipt_for c v t) (ca_receipts c')\<rparr>"
  let ?I = "\<lambda>d l. synced H (Some ReceiptPhase) d l \<and> ca_stage d = ReceiptStage \<and> ca_command d = ca_command c
    \<and> ca_view d = Some v"
  have fold: "foldl (\<lambda>c x. ?put x c) d xs = d\<lparr>ca_receipts := bt_of (ca_receipts d) (map ?row xs)\<rparr>"
    for d xs by (induction xs arbitrary: d) simp_all
  have "\<exists>l'. each_op (\<lambda>t. candidate_receipt P memory_act (receipt_for c v t)) ts c l =
      (foldl (\<lambda>c x. ?put x c) c ts, l') \<and> ?I (foldl (\<lambda>c x. ?put x c) c ts) l'"
  proof (rule each_op_adds [where X = "set ts" and key = "\<lambda>t. t"
        and K = "\<lambda>c. fst ` set (ca_receipts c)"])
    fix x d l
    assume I: "?I d l" and x: "x \<in> set ts" "x \<notin> fst ` set (ca_receipts d)"
    then obtain l' where "candidate_receipt P memory_act (receipt_for c v x) d l = (Inr (), ?put x d, l')"
      "synced H (Some ReceiptPhase) (?put x d) l'"
      using receipt_synced [of H d l v "receipt_for c v x" P] assms(5,7) by (auto simp: receipt_for_def)
    with I show "\<exists>r l'. candidate_receipt P memory_act (receipt_for c v x) d l = (r, ?put x d, l')
        \<and> ?I (?put x d) l'" by simp
  qed (use assms in auto)
  moreover have "bt_of [] (map ?row ts) = map ?row (sort ts)"
  proof -
    have dist: "distinct (map fst (map ?row ts))" using assms(6) by (simp add: comp_def)
    have "sort_key fst (map ?row ts) = map ?row (sort ts)"
      by (intro sort_key_inj_key_eq) (auto simp: comp_def inj_on_def)
    then show ?thesis by (simp add: bt_of_sorted [OF dist])
  qed
  ultimately show ?thesis unfolding fold assms(3) by auto
qed

section \<open>Closing the rounds\<close>

lemma close_commitments_synced:
  assumes "synced H (Some CommitPhase) c l" "ca_stage c = CommitStage" "\<not> ca_commit_closed c"
    and "ca_terminal c = None" "length (ca_commitments c) = length (cm_roles (ca_command c))"
    and "ca_roles c \<subseteq> fst ` set (ca_commitments c)"
  shows "\<exists>l'. candidate_close_commitments memory_act c l =
      (Inr (), c\<lparr>ca_commit_closed := True, ca_stage := OpenStage\<rparr>, l')
    \<and> synced H (Some OpenPhase) (c\<lparr>ca_commit_closed := True, ca_stage := OpenStage\<rparr>) l'"
proof -
  from close_synced [OF assms(1)] obtain l' where l': "log_close_phase (ca_id c) CommitPhase l = (Inr (), l')"
    "synced H (Some OpenPhase) c l'" by auto
  have "synced H (Some OpenPhase) (c\<lparr>ca_commit_closed := True, ca_stage := OpenStage\<rparr>) l'"
    by (rule synced_cong [OF l'(2)]) simp_all
  then show ?thesis
    using l'(1) assms(2-6) by (simp add: candidate_close_commitments_def memory_act_def map_of_None_roles)
qed

lemma close_openings_synced:
  assumes "synced H (Some OpenPhase) c l" "ca_stage c = OpenStage" "ca_view c = None"
    and "length (ca_openings c) = length (cm_roles (ca_command c))"
    and "ca_roles c \<subseteq> fst ` set (ca_openings c)" "build_view P c = Inr v"
  shows "\<exists>l'. candidate_close_openings P memory_act c l =
      (Inr v, c\<lparr>ca_stage := ReceiptStage, ca_view := Some v\<rparr>, l')
    \<and> synced H (Some ReceiptPhase) (c\<lparr>ca_stage := ReceiptStage, ca_view := Some v\<rparr>) l'"
proof -
  from close_synced [OF assms(1)] obtain l' where l': "log_close_phase (ca_id c) OpenPhase l = (Inr (), l')"
    "synced H (Some ReceiptPhase) c l'" by auto
  have "synced H (Some ReceiptPhase) (c\<lparr>ca_stage := ReceiptStage, ca_view := Some v\<rparr>) l'"
    by (rule synced_cong [OF l'(2)]) simp_all
  then show ?thesis
    using l'(1) assms(2-6) by (simp add: candidate_close_openings_def memory_act_def map_of_None_roles)
qed

lemma activate_candidate_synced:
  assumes "synced H (Some ReceiptPhase) c l" "finite H" "card H < 2 ^ 64"
    and "ca_stage c = ReceiptStage" "ca_terminal c = None"
    and "length (ca_receipts c) = length (ca_targets c)"
  shows "\<exists>h l'. candidate_activate memory_act c l = Some (Inr (Activated h),
      c\<lparr>ca_stage := TerminalStage, ca_terminal := Some (Activated h)\<rparr>, l')
    \<and> h \<notin> H \<and> log_current (cm_scope (ca_command c)) l' = Some h"
proof -
  from close_synced [OF assms(1)] obtain l1 where l1: "log_close_phase (ca_id c) ReceiptPhase l = (Inr (), l1)"
    "synced H None c l1" by auto
  then have prep: "candidate_prepare memory_act c l = (Inr (), c\<lparr>ca_stage := ReadyStage\<rparr>, l1)"
    using assms(4-6) by (simp add: candidate_prepare_def memory_act_def)
  from activate_synced [OF l1(2) assms(2,3)] obtain h l' where
    "lg_activate memory_act (ca_id c) l1 = Some (Inr (Activated h), l')" "h \<notin> H"
    "log_current (cm_scope (ca_command c)) l' = Some h" by blast
  with prep assms(5) show ?thesis by (simp add: candidate_activate_def)
qed

section \<open>The whole run\<close>

text \<open>Every role commits and opens in any order, every target answers the view, then activation.\<close>

definition complete_run ::
  "('s::field, 'g::ab_group_add) profile \<Rightarrow> 'l log_act \<Rightarrow> (role_id \<times> 's) list
     \<Rightarrow> ('s, 'g) deal_opening list \<Rightarrow> target_id list \<Rightarrow> ('s, 'g) candidate \<Rightarrow> 'l
     \<Rightarrow> (terminal result \<times> ('s, 'g) candidate \<times> 'l) option" where
  "complete_run P L ks os ts c l =
     (case each_op (\<lambda>x. candidate_commit P L (fst x) (snd x)) ks c l of (c1, l1) \<Rightarrow>
      case candidate_close_commitments L c1 l1 of (_, c2, l2) \<Rightarrow>
      case each_op (candidate_open P L) os c2 l2 of (c3, l3) \<Rightarrow>
      case candidate_close_openings P L c3 l3 of
        (Inl e, c4, l4) \<Rightarrow> Some (Inl e, c4, l4)
      | (Inr v, c4, l4) \<Rightarrow>
          (case each_op (\<lambda>t. candidate_receipt P L (receipt_for c4 v t)) ts c4 l4 of (c5, l5) \<Rightarrow>
           candidate_activate L c5 l5))"

definition deal_honest ::
  "('s::field, 'g::ab_group_add) profile \<Rightarrow> ('s, 'g) command \<Rightarrow> (role_id \<times> 's) list
     \<Rightarrow> ('s, 'g) deal_opening list \<Rightarrow> target_id list \<Rightarrow> bool" where
  "deal_honest P cmd ks os ts \<longleftrightarrow> distinct (map fst ks) \<and> fst ` set ks = sp_role ` set (cm_roles cmd)
     \<and> distinct (map do_role os) \<and> do_role ` set os = sp_role ` set (cm_roles cmd)
     \<and> (\<forall>o' \<in> set os. opening_honest P cmd ks o')
     \<and> distinct ts \<and> set ts = set (shape_targets (cm_shape cmd)) \<and> distinct (shape_targets (cm_shape cmd))
     \<and> (\<exists>bs. encode_candidate_view P cmd (sort_key fst ks) (sort_key do_role os) = Inr bs
          \<and> length bs < 2 ^ 32)"

lemma map_of_sort_key: "distinct (map fst xs) \<Longrightarrow> map_of (sort_key fst xs) = map_of xs"
  by (rule map_of_inject_set [THEN iffD2])
     (simp_all add: distinct_map_sort_key)

lemma sorted_roles:
  assumes "distinct (map do_role os)" "do_role ` set os = sp_role ` set rs"
    and "sorted_wrt (<) (map sp_role rs)"
  shows "map do_role (sort_key do_role os) = map sp_role rs"
  using assms by (intro strict_sorted_equal) (simp_all add: strict_sorted_iff distinct_map_sort_key)

lemma built_view:
  assumes P: "group_ok P" and cmd: "command_new scope command predecessor anchor shape specs = Inr cmd"
    and specs: "specs_ok specs" and honest: "deal_honest P cmd ks os ts"
    and c: "ca_command c = cmd" "ca_commitments c = sort_key fst ks"
      "ca_openings c = map with_role (sort_key do_role os)"
  shows "\<exists>v. build_view P c = Inr v \<and> length (vw_bytes v) < 2 ^ 32"
proof -
  note n = command_new_Inr [OF cmd specs] and h = honest [unfolded deal_honest_def]
  have "map do_role (sort_key do_role os) = map sp_role (cm_roles cmd)"
    using h n by (intro sorted_roles) simp_all
  moreover have "\<forall>o' \<in> set (sort_key do_role os). \<exists>spec. command_role cmd (do_role o') = Inr spec
      \<and> points_validate P (do_points o') shape (sp_constant spec) = Inr ()"
    using h n by (fastforce simp: opening_honest_def)
  ultimately obtain agg where "aggregate_points (sort_key do_role os) = Inr agg"
    "points_validate P agg (cm_shape cmd) (cm_anchor cmd) = Inr ()"
    using openings_aggregate [OF P cmd specs] by blast
  moreover have "map snd (ca_openings c) = sort_key do_role os" by (simp add: c comp_def)
  ultimately show ?thesis using h by (auto simp: build_view_def c)
qed

lemma complete_run_activates:
  assumes P: "group_ok P" and cmd: "command_new scope command predecessor anchor shape specs = Inr cmd"
    and specs: "specs_ok specs" and honest: "deal_honest P cmd ks os ts"
    and new: "candidate_new P memory_act cmd l0 = (Inr c, l)" "ml_transcripts l0 command = None"
      "finite (ml_handles l0)" "card (ml_handles l0) < 2 ^ 64"
  shows "\<exists>h c' l'. complete_run P memory_act ks os ts c l = Some (Inr (Activated h), c', l')
    \<and> log_current scope l' = Some h \<and> h \<notin> ml_handles l0
    \<and> ca_terminal c' = Some (Activated h) \<and> ca_command c' = cmd
    \<and> ca_openings c' = map with_role (sort_key do_role os)"
proof -
  note n = command_new_Inr [OF cmd specs] and h = honest [unfolded deal_honest_def]
  have roles: "distinct (map sp_role (cm_roles cmd))" using n by (simp add: strict_sorted_iff)
  have c: "c = \<lparr>ca_command = cmd, ca_commitments = [], ca_commit_closed = False,
      ca_openings = [], ca_receipts = [], ca_view = None, ca_terminal = None, ca_stage = CommitStage\<rparr>"
    using new(1) by (auto simp: candidate_new_def split: sum.splits prod.splits)
  have cf [simp]: "ca_command c = cmd" "ca_commitments c = []" "\<not> ca_commit_closed c" "ca_openings c = []"
    "ca_receipts c = []" "ca_view c = None" "ca_terminal c = None" "ca_stage c = CommitStage"
    by (simp_all add: c)
  have "synced (ml_handles l0) (Some CommitPhase) c l" using synced_new [OF new(1)] new(2) n by simp
  with h obtain l1 where 1: "each_op (\<lambda>x. candidate_commit P memory_act (fst x) (snd x)) ks c l =
      (c\<lparr>ca_commitments := sort_key fst ks\<rparr>, l1)"
    "synced (ml_handles l0) (Some CommitPhase) (c\<lparr>ca_commitments := sort_key fst ks\<rparr>) l1"
    using commits_synced [of "ml_handles l0" c l ks P] by auto
  let ?c1 = "c\<lparr>ca_commitments := sort_key fst ks\<rparr>"
  let ?c2 = "?c1\<lparr>ca_commit_closed := True, ca_stage := OpenStage\<rparr>"
  have ks: "length ks = length (cm_roles cmd)"
    using h roles same_set_length [of "map fst ks" "map sp_role (cm_roles cmd)"] by simp
  obtain l2 where 2: "candidate_close_commitments memory_act ?c1 l1 = (Inr (), ?c2, l2)"
    "synced (ml_handles l0) (Some OpenPhase) ?c2 l2"
    using close_commitments_synced [OF 1(2)] ks h by auto
  have "map_of (ca_commitments ?c2) = map_of ks" using h by (simp add: map_of_sort_key)
  with h 2(2) obtain l3 where 3: "each_op (candidate_open P memory_act) os ?c2 l2 =
      (?c2\<lparr>ca_openings := map with_role (sort_key do_role os)\<rparr>, l3)"
    "synced (ml_handles l0) (Some OpenPhase) (?c2\<lparr>ca_openings := map with_role (sort_key do_role os)\<rparr>) l3"
    using opens_synced [of "ml_handles l0" ?c2 l2 os ks P] by auto
  let ?c3 = "?c2\<lparr>ca_openings := map with_role (sort_key do_role os)\<rparr>"
  obtain v where v: "build_view P ?c3 = Inr v" "length (vw_bytes v) < 2 ^ 32"
    using built_view [OF P cmd specs honest, of ?c3] by auto
  let ?c4 = "?c3\<lparr>ca_stage := ReceiptStage, ca_view := Some v\<rparr>"
  have os: "length os = length (cm_roles cmd)"
    using h roles same_set_length [of "map do_role os" "map sp_role (cm_roles cmd)"] by simp
  obtain l4 where 4: "candidate_close_openings P memory_act ?c3 l3 = (Inr v, ?c4, l4)"
    "synced (ml_handles l0) (Some ReceiptPhase) ?c4 l4"
    using close_openings_synced [OF 3(2) _ _ _ _ v(1)] os h by (auto simp: image_image)
  from 4(2) v(2) h obtain l5 where 5:
    "each_op (\<lambda>t. candidate_receipt P memory_act (receipt_for ?c4 v t)) ts ?c4 l4 =
      (?c4\<lparr>ca_receipts := map (\<lambda>t. (t, receipt_for ?c4 v t)) (sort ts)\<rparr>, l5)"
    "synced (ml_handles l0) (Some ReceiptPhase) (?c4\<lparr>ca_receipts := map (\<lambda>t. (t, receipt_for ?c4 v t)) (sort ts)\<rparr>) l5"
    using receipts_synced [of "ml_handles l0" ?c4 l4 v ts P] by auto
  let ?c5 = "?c4\<lparr>ca_receipts := map (\<lambda>t. (t, receipt_for ?c4 v t)) (sort ts)\<rparr>"
  have ts: "length ts = length (shape_targets (cm_shape cmd))"
    using h by (intro same_set_length) simp_all
  from activate_candidate_synced [OF 5(2) new(3,4)] ts n obtain x l6 where 6:
    "candidate_activate memory_act ?c5 l5 = Some (Inr (Activated x),
      ?c5\<lparr>ca_stage := TerminalStage, ca_terminal := Some (Activated x)\<rparr>, l6)"
    "x \<notin> ml_handles l0" "log_current scope l6 = Some x" by auto
  from 1(1) 2(1) 3(1) 4(1) 5(1) 6(1) have "complete_run P memory_act ks os ts c l = Some (Inr (Activated x),
      ?c5\<lparr>ca_stage := TerminalStage, ca_terminal := Some (Activated x)\<rparr>, l6)"
    by (simp add: complete_run_def)
  moreover have "ca_terminal (?c5\<lparr>ca_stage := TerminalStage, ca_terminal := Some (Activated x)\<rparr>) =
      Some (Activated x)" "ca_command (?c5\<lparr>ca_stage := TerminalStage, ca_terminal := Some (Activated x)\<rparr>) = cmd"
    "ca_openings (?c5\<lparr>ca_stage := TerminalStage, ca_terminal := Some (Activated x)\<rparr>) =
      map with_role (sort_key do_role os)"
    by simp_all
  ultimately show ?thesis using 6(2,3) by blast
qed

text \<open>It is one of the runs the safety properties speak of.\<close>

lemma each_op_run:
  assumes "\<And>x c l r c' l'. f x c l = (r, c', l') \<Longrightarrow> cand_step P L decided (c, l) (c', l')"
    and "each_op f xs c l = (c', l')"
  shows "cand_run P L decided (c, l) (c', l')"
  using assms(2)
proof (induction xs arbitrary: c l)
  case (Cons x xs)
  obtain r c1 l1 where step: "f x c l = (r, c1, l1)" by (metis prod_cases3)
  from Cons.IH [of c1 l1] Cons.prems assms(1) [OF step] step show ?case
    by (simp add: converse_rtranclp_into_rtranclp)
qed simp

lemma complete_run_run:
  assumes "complete_run P L ks os ts c l = Some (r, c', l')"
  shows "cand_run P L decided (c, l) (c', l')"
proof -
  obtain c1 l1 where 1: "each_op (\<lambda>x. candidate_commit P L (fst x) (snd x)) ks c l = (c1, l1)"
    by (metis surj_pair)
  obtain r2 c2 l2 where 2: "candidate_close_commitments L c1 l1 = (r2, c2, l2)" by (metis prod_cases3)
  obtain c3 l3 where 3: "each_op (candidate_open P L) os c2 l2 = (c3, l3)" by (metis surj_pair)
  obtain r4 c4 l4 where 4: "candidate_close_openings P L c3 l3 = (r4, c4, l4)" by (metis prod_cases3)
  have "cand_run P L decided (c, l) (c1, l1)" by (rule each_op_run [OF cs_commit 1])
  moreover have "cand_run P L decided (c2, l2) (c3, l3)" by (rule each_op_run [OF cs_open 3])
  ultimately have run: "cand_run P L decided (c, l) (c4, l4)"
    using cs_close_commitments [OF 2] cs_close_openings [OF 4]
    by (meson rtranclp.rtrancl_into_rtrancl rtranclp_trans)
  show ?thesis
  proof (cases r4)
    case (Inl e)
    with run assms 1 2 3 4 show ?thesis by (simp add: complete_run_def)
  next
    case (Inr v)
    obtain c5 l5 where 5: "each_op (\<lambda>t. candidate_receipt P L (receipt_for c4 v t)) ts c4 l4 = (c5, l5)"
      by (metis surj_pair)
    with assms 1 2 3 4 Inr have "candidate_activate L c5 l5 = Some (r, c', l')"
      by (simp add: complete_run_def)
    from rtranclp_trans [OF run each_op_run [OF cs_receipt 5]] cs_activate [OF this] show ?thesis
      by (meson rtranclp.rtrancl_into_rtrancl)
  qed
qed

end
