(* ===== verification/Ksnf_Redistribution.thy ===== *)
theory Ksnf_Redistribution
  imports Ksnf_Dealing_Run
begin

text \<open>
  What the targets end up with: an accumulator that holds a share of every role finishes, and the
  shares of enough targets reconstruct a secret behind the command's anchor.
\<close>

section \<open>Finishing\<close>

lemma accumulator_finish_Inr:
  assumes "accumulator_finish P a = Inr (receipt, p)"
  shows "points_evaluate P (vw_aggregate (ta_view a)) (cm_shape (vw_command (ta_view a))) (ta_target a) =
      Inr (element_from_scalar P (pn_share p))"
    and "receipt = \<lparr>tr_command = cm_command (vw_command (ta_view a)), tr_target = ta_target a,
      tr_view = vw_bytes (ta_view a)\<rparr>"
    and "pn_share p = (\<Sum>x\<leftarrow>ta_shares a. snd x)"
    and "p = \<lparr>pn_target = ta_target a, pn_shape = cm_shape (vw_command (ta_view a)), pn_share = pn_share p,
      pn_public = element_from_scalar P (pn_share p), pn_points = vw_aggregate (ta_view a)\<rparr>"
  using assms
  by (auto simp: accumulator_finish_def Let_def and_then_Inr_iff if_Inl_eq_Inr foldl_shares)

text \<open>A run of a candidate up to its view.\<close>

definition viewed ::
  "('s::field, 'g::ab_group_add) profile \<Rightarrow> ('s, 'g) command \<Rightarrow> ('s, 'g) candidate
     \<Rightarrow> ('s, 'g) candidate_view \<Rightarrow> bool" where
  "viewed P cmd c v \<longleftrightarrow> ca_view c = Some v \<and> (\<exists>l0 l1 c0 l. candidate_new P memory_act cmd l0 = (Inr c0, l1)
     \<and> cand_run P memory_act memory_decided (c0, l1) (c, l))"

lemma viewed_inv: "viewed P cmd c v \<Longrightarrow> cand_inv P c \<and> ca_command c = cmd \<and> ca_view c = Some v"
  using memory.run_invs memory.new_inv memory.new_agrees by (metis viewed_def)

lemma viewed_run:
  assumes "candidate_new P memory_act cmd l0 = (Inr c0, l1)"
    and "cand_run P memory_act memory_decided (c0, l1) (c, l)" "ca_terminal c = Some (Activated h)"
  shows "\<exists>v. viewed P cmd c v \<and> vw_openings v = map snd (ca_openings c)"
proof -
  have inv: "cand_inv P c"
    using memory.run_invs [OF assms(2) memory.new_inv [OF assms(1)]] memory.new_agrees [OF assms(1)] by blast
  then obtain v where v: "ca_view c = Some v" using assms(3) by (auto simp: cand_inv_def stage_inv_def)
  with inv have "build_view P c = Inr v" by (simp add: cand_inv_def rounds_inv_def)
  then have "vw_openings v = map snd (ca_openings c)"
    by (auto simp: build_view_def Let_def and_then_Inr_iff)
  with v assms(1,2) show ?thesis by (auto simp: viewed_def)
qed

lemma viewed_view:
  assumes "viewed P cmd c v" "command_new scope command predecessor anchor shape specs = Inr cmd" "specs_ok specs"
  shows "vw_command v = cmd" "map do_role (vw_openings v) = map sp_role (cm_roles cmd)"
    and "aggregate_points (vw_openings v) = Inr (vw_aggregate v)"
    and "points_validate P (vw_aggregate v) shape anchor = Inr ()"
proof -
  note i = viewed_inv [OF assms(1)]
  then have inv: "cand_inv P c" and c: "ca_command c = cmd" and v: "ca_view c = Some v" by simp_all
  note r = view_roles [OF inv v] and n = command_new_Inr [OF assms(2,3)]
  show "vw_command v = cmd" "aggregate_points (vw_openings v) = Inr (vw_aggregate v)"
    "points_validate P (vw_aggregate v) shape anchor = Inr ()"
    using r n c by simp_all
  have "map fst (ca_openings c) = map sp_role (cm_roles cmd)"
    using r(3,4) n c by (intro strict_sorted_equal) simp_all
  then show "map do_role (vw_openings v) = map sp_role (cm_roles cmd)" using r(1) by simp
qed

definition target_finishes ::
  "('s::field, 'g::ab_group_add) profile \<Rightarrow> ('s, 'g) candidate_view \<Rightarrow> target_id
     \<Rightarrow> ('s, 'g) pending_share \<Rightarrow> bool" where
  "target_finishes P v t p \<longleftrightarrow> (\<exists>a shares receipt. accumulator_new v t = Inr a
     \<and> accumulator_finish P (receive_all P shares a) = Inr (receipt, p))"

lemma target_finishes_evaluates:
  assumes "target_finishes P v t p"
  shows "points_evaluate P (vw_aggregate v) (cm_shape (vw_command v)) t = Inr (element_from_scalar P (pn_share p))"
proof -
  from assms obtain a shares receipt where a: "accumulator_new v t = Inr a"
    and fin: "accumulator_finish P (receive_all P shares a) = Inr (receipt, p)"
    by (auto simp: target_finishes_def)
  from receive_all_inv [of P a shares] accumulator_new_inv [OF a, of P] accumulator_finish_Inr(1) [OF fin]
  show ?thesis by auto
qed

section \<open>Reconstruction\<close>

lemma interpolate_public:
  assumes P: "group_ok P" and dist: "distinct nodes" and gs: "gs \<noteq> []" "length gs \<le> length nodes"
    and shares: "list_all2 (\<lambda>n s. element_from_scalar P s = evaluate_commitments P gs n) nodes shares"
  shows "\<exists>s. interpolate_constant nodes shares = Inr s \<and> element_from_scalar P s = hd gs"
proof -
  note h = group_horner [OF P]
  let ?A = "set nodes" and ?f = "\<lambda>x. lagrange (set nodes) x"
  have len: "length nodes = length shares" using shares by (rule list_all2_lengthD)
  have fold: "foldl (\<lambda>sum (c, v). sum + c * v) s (zip (map f xs) ys) = s + (\<Sum>(x, y)\<leftarrow>zip xs ys. f x * y)"
    for f :: "'a \<Rightarrow> 'a" and s xs ys
    by (induction xs ys arbitrary: s rule: list_induct2') (simp_all add: add.assoc)
  have "nodes \<noteq> []" using gs by auto
  then have "interpolate_constant nodes shares = Inr (\<Sum>(x, y)\<leftarrow>zip nodes shares. ?f x * y)"
    using dist len by (simp add: interpolate_constant_def lagrange_at_zero_eq fold)
  moreover have "element_from_scalar P (\<Sum>(x, y)\<leftarrow>zip nodes shares. f x * y) =
      (\<Sum>x\<leftarrow>nodes. gc_smul P (f x) (evaluate_commitments P gs x))" for f
    using shares
    by (induction rule: list_all2_induct)
      (simp_all add: element_from_scalar_zero element_from_scalar_add element_from_scalar_mult P)
  moreover have "(\<Sum>x\<leftarrow>nodes. gc_smul P (?f x) (evaluate_commitments P gs x)) = hd gs"
    using horner.interpolation [OF h, of ?A gs] gs distinct_card [OF dist]
    by (simp add: sum_list_distinct_conv_sum_set dist evaluate_commitments_eval P horner.eval_zero [OF h])
  ultimately show ?thesis by auto
qed

lemma list_ex_prior: "list_ex (\<lambda>p. f p = k) xs \<longleftrightarrow> k \<in> f ` set xs"
  by (auto simp: list_ex_iff)

lemma reject_device_duplicates_Inr:
  "reject_device_duplicates ds = Inr u \<longleftrightarrow> distinct (map td_device ds) \<and> distinct (map td_node ds)"
  by (auto simp: reject_device_duplicates_def scan_prior_Inr_iff distinct_prior [symmetric]
      if_Inl_eq_Inr list_ex_prior)

lemma single_shape_new_Inr:
  assumes "single_shape_new threshold ds = Inr shape"
  shows "ss_threshold shape = threshold \<and> threshold \<noteq> 0
    \<and> distinct (map td_device (ss_devices shape)) \<and> distinct (map td_node (ss_devices shape))"
  using assms
  by (auto simp: single_shape_new_def Let_def and_then_Inr_iff if_Inl_eq_Inr reject_device_duplicates_Inr)

lemma outer_scan_Inr:
  "outer_scan prior devices ts = Inr u \<Longrightarrow> distinct (map ot_person ts) \<and> distinct (map ot_node ts)
     \<and> ot_person ` set prior \<inter> ot_person ` set ts = {} \<and> ot_node ` set prior \<inter> ot_node ` set ts = {}"
proof (induction ts arbitrary: prior devices)
  case (Cons t ts)
  from Cons.prems obtain devices' where "outer_scan (prior @ [t]) devices' ts = Inr u"
    and "ot_person t \<notin> ot_person ` set prior" "ot_node t \<notin> ot_node ` set prior"
    by (auto simp: and_then_Inr_iff if_Inl_eq_Inr list_ex_prior)
  with Cons.IH [OF this(1)] show ?case by auto
qed simp

lemma outer_shape_new_Inr:
  assumes "outer_shape_new threshold ts = Inr shape"
  shows "oh_threshold shape = threshold \<and> threshold \<noteq> 0
    \<and> distinct (map ot_person (oh_people shape)) \<and> distinct (map ot_node (oh_people shape))
    \<and> set (oh_people shape) = set ts"
  using assms outer_scan_Inr [of "[]" "{}" "sort_key ot_person ts"]
  by (auto simp: outer_shape_new_def Let_def and_then_Inr_iff if_Inl_eq_Inr)

text \<open>Different keys of a shape have different nodes.\<close>

lemma distinct_found:
  assumes "distinct (map g ts)" "list_all2 (\<lambda>k t. search_key f k ts = Some t) ks us" "distinct ks"
  shows "distinct (map g us)"
  using assms(2,3)
proof (induction rule: list_all2_induct)
  case (Cons k ks t us)
  have "g u \<noteq> g t" if "u \<in> set us" for u
  proof
    assume eq: "g u = g t"
    have "\<exists>k' \<in> set ks. search_key f k' ts = Some u"
      using Cons.hyps(2) that by (induction rule: list_all2_induct) auto
    then obtain k' where "k' \<in> set ks" "search_key f k' ts = Some u" by blast
    note k' = search_key_SomeD [OF this(2)] and k = search_key_SomeD [OF Cons.hyps(1)]
    have "inj_on g (set ts)" using assms(1) by (simp add: distinct_map)
    from inj_onD [OF this eq] k k' have "k = k'" by simp
    with Cons.prems \<open>k' \<in> set ks\<close> show False by simp
  qed
  then have "g t \<notin> g ` set us" by (metis imageE)
  with Cons show ?case by simp
qed simp

text \<open>Enough shares under one row of points.\<close>

lemma row_reconstructs:
  assumes P: "group_ok P" and gs: "first_point gs = Some k" "length gs \<le> length devices"
    and devices: "distinct devices" and nodes: "distinct (map td_node ds)"
    and shares: "list_all2 (\<lambda>d s. \<exists>t. search_key td_device d ds = Some t
      \<and> element_from_scalar P s = evaluate_commitments P gs (td_node t)) devices ss"
  shows "\<exists>ts s. list_all2 (\<lambda>d t. search_key td_device d ds = Some t) devices ts
    \<and> interpolate_constant (map td_node ts) ss = Inr s \<and> element_from_scalar P s = k"
proof -
  let ?found = "\<lambda>d. the (search_key td_device d ds)"
  from shares have ts: "list_all2 (\<lambda>d t. search_key td_device d ds = Some t) devices (map ?found devices)"
    by (induction rule: list_all2_induct) auto
  have "distinct (map td_node (map ?found devices))" by (rule distinct_found [OF nodes ts devices])
  moreover from shares have "list_all2 (\<lambda>n s. element_from_scalar P s = evaluate_commitments P gs n)
      (map td_node (map ?found devices)) ss"
    by (induction rule: list_all2_induct) auto
  ultimately have "\<exists>s. interpolate_constant (map td_node (map ?found devices)) ss = Inr s
      \<and> element_from_scalar P s = hd gs"
    using gs by (intro interpolate_public [OF P]) (auto simp: first_point_Some)
  with ts gs(1) show ?thesis by (auto simp: first_point_Some)
qed

text \<open>The devices' finished shares, interpolated at their nodes of the shape.\<close>

definition interpolates ::
  "'s::field single_shape \<Rightarrow> device_id list \<Rightarrow> ('s, 'g) pending_share list \<Rightarrow> 's \<Rightarrow> bool" where
  "interpolates shape devices ps s \<longleftrightarrow> (\<exists>ts. list_all2 (\<lambda>d t. shape_device shape d = Inr t) devices ts
     \<and> interpolate_constant (map td_node ts) (map pn_share ps) = Inr s)"

lemma search_valid:
  assumes "list_all2 (member_valid P gs) rows ts" "search_key ot_person q ts = Some t"
  shows "\<exists>cs. search_key fst q rows = Some (q, cs) \<and> length cs = unat (ss_threshold (ot_inner t))
    \<and> first_point cs = Some (evaluate_commitments P gs (ot_node t))"
  using assms
proof (induction rule: list_all2_induct)
  case (Cons row rows u ts)
  then show ?case by (cases row) (auto simp: member_valid_def split: if_splits)
qed simp

lemma member_reconstructs:
  assumes P: "group_ok P" and rows: "list_all2 (member_valid P gs) rows (oh_people shape)"
    and t: "search_key ot_person (ot_person t) (oh_people shape) = Some t"
    and shape: "single_shape_new k ds = Inr (ot_inner t)"
    and view: "vw_aggregate v = OuterPoints gs rows" "cm_shape (vw_command v) = OuterShape shape"
    and devices: "distinct devices" "unat (ss_threshold (ot_inner t)) \<le> length devices"
    and fin: "list_all2 (\<lambda>d p. target_finishes P v (TargetOuter (ot_person t) d) p) devices ps"
  shows "\<exists>m. interpolates (ot_inner t) devices ps m
    \<and> element_from_scalar P m = evaluate_commitments P gs (ot_node t)"
proof -
  from search_valid [OF rows t] obtain cs where cs: "search_key fst (ot_person t) rows = Some (ot_person t, cs)"
    "length cs = unat (ss_threshold (ot_inner t))"
    "first_point cs = Some (evaluate_commitments P gs (ot_node t))" by blast
  have eval: "\<exists>u. search_key td_device d (ss_devices (ot_inner t)) = Some u
      \<and> element_from_scalar P (pn_share p) = evaluate_commitments P cs (td_node u)"
    if "target_finishes P v (TargetOuter (ot_person t) d) p" for d p
    using target_finishes_evaluates [OF that] view t cs(1)
    by (auto simp: points_evaluate_def and_then_Inr_iff shape_device_def shape_person_def ok_or_Inr_iff)
  have "list_all2 (\<lambda>d s. \<exists>u. search_key td_device d (ss_devices (ot_inner t)) = Some u
      \<and> element_from_scalar P s = evaluate_commitments P cs (td_node u)) devices (map pn_share ps)"
    using fin by (simp add: list_all2_conv_all_nth eval)
  from row_reconstructs [OF P cs(3) _ devices(1) _ this] cs(2) devices(2) single_shape_new_Inr [OF shape]
  show ?thesis by (auto simp: interpolates_def shape_device_def ok_or_Inr_iff)
qed

end
