(* ===== verification/Ksnf_Dealing_Demo.thy ===== *)
theory Ksnf_Dealing_Demo
  imports Ksnf_Redistribution Ksnf_Leaf_Demo
begin

text \<open>
  A redistribution over the fixture: one source and the two target devices as refreshers. The
  witnesses of the redistribution theorems evaluate it.
\<close>

section \<open>The command\<close>

definition demo_targets :: "gf7 target_device list" where
  "demo_targets = [\<lparr>td_device = Ident 20, td_node = gf 1\<rparr>, \<lparr>td_device = Ident 21, td_node = gf 2\<rparr>]"

definition demo_shape :: "gf7 single_shape" where
  "demo_shape = \<lparr>ss_threshold = 2, ss_devices = demo_targets\<rparr>"

definition demo_weight :: "gf7 source_weight" where
  "demo_weight = \<lparr>sw_device = Ident 50, sw_scalar = gf 1\<rparr>"

definition demo_specs :: "(gf7, gf7) role_spec list" where
  "demo_specs = [role_refresher (Ident 21), role_refresher (Ident 20),
     \<lparr>sp_role = RoleSource (Ident 50), sp_constant = gf 2, sp_source = Some (gf 2, demo_weight)\<rparr>]"

definition demo_redistribution :: "scope_id \<Rightarrow> command_id \<Rightarrow> (gf7, gf7) command" where
  "demo_redistribution scope command = \<lparr>cm_scope = scope, cm_command = command, cm_predecessor = Ident 62,
     cm_anchor = gf 2, cm_shape = SingleShape demo_shape, cm_roles = rev demo_specs\<rparr>"

lemma demo_shape_new: "single_shape_new 2 (rev demo_targets) = Inr demo_shape"
  by (simp add: single_shape_new_def demo_shape_def demo_targets_def reject_device_duplicates_def
      less_eq_ident_def)

lemma demo_command_new:
  "command_new scope command (Ident 62) (gf 2) (SingleShape demo_shape) demo_specs =
     Inr (demo_redistribution scope command)"
  by (simp add: command_new_def demo_specs_def role_refresher_def demo_redistribution_def
      demo_shape_def demo_targets_def less_eq_ident_def insert_commute gf_zero)

lemma demo_specs_made: "specs_made toy_profile demo_specs"
proof -
  have "role_source toy_profile (Ident 50) (gf 2) demo_weight =
      Inr \<lparr>sp_role = RoleSource (Ident 50), sp_constant = gf 2, sp_source = Some (gf 2, demo_weight)\<rparr>"
    by (simp add: role_source_def demo_weight_def)
  then show ?thesis by (auto simp: specs_made_def demo_specs_def)
qed

section \<open>The deal\<close>

definition demo_deal :: "role_id \<Rightarrow> int \<Rightarrow> (gf7, gf7) deal_opening" where
  "demo_deal role k = \<lparr>do_role = role, do_points = SinglePoints [gf k, gf 1], do_salt = gf 1\<rparr>"

definition demo_roles :: "role_id list" where
  "demo_roles = [RoleRefresher (Ident 20), RoleSource (Ident 50), RoleRefresher (Ident 21)]"

definition demo_commitments :: "(role_id \<times> gf7) list" where
  "demo_commitments = map (\<lambda>r. (r, gf 3)) demo_roles"

definition demo_deals :: "(gf7, gf7) deal_opening list" where
  "demo_deals = [demo_deal (RoleRefresher (Ident 20)) 0, demo_deal (RoleSource (Ident 50)) 2,
     demo_deal (RoleRefresher (Ident 21)) 0]"

definition demo_answers :: "target_id list" where
  "demo_answers = [TargetSingle (Ident 21), TargetSingle (Ident 20)]"

lemma demo_command_bytes:
  "\<exists>bs. command_to_bytes toy_profile (demo_redistribution scope command) = Inr bs \<and> length bs < 1000"
  by (simp add: command_to_bytes_def demo_redistribution_def demo_shape_def demo_targets_def
      encode_single_shape_def count_u16_def demo_specs_def role_refresher_def encode_role_spec_def
      put_point_def put_scalar_def put_element_def point_to_bytes_def element_to_bytes_def
      put_u8_def put_u16_def demo_weight_def point_width_def)

lemma demo_deal_bytes:
  "\<exists>bs. points_to_bytes toy_profile (do_points (demo_deal role k)) = Inr bs \<and> length bs < 1000"
  "\<exists>bs. deal_opening_to_bytes toy_profile (demo_deal role k) = Inr bs \<and> length bs < 2000"
proof -
  show points: "\<exists>bs. points_to_bytes toy_profile (do_points (demo_deal role k)) = Inr bs \<and> length bs < 1000"
    by (simp add: demo_deal_def encode_points_def count_u16_def put_element_def element_to_bytes_def
        put_u8_def put_u16_def point_width_def)
  have "length (encode_role role) = 33" by (cases role) (simp_all add: put_u8_def)
  with points show "\<exists>bs. deal_opening_to_bytes toy_profile (demo_deal role k) = Inr bs \<and> length bs < 2000"
    by (auto simp: deal_opening_to_bytes_def put_bytes_def put_scalar_def put_u8_def demo_deal_def put_u32_def)
qed

lemma demo_deal_commitment:
  "deal_opening_commitment toy_profile (demo_deal role k) (demo_redistribution scope command) = Inr (gf 3)"
proof -
  from demo_command_bytes [of scope command] demo_deal_bytes(1) [of role k] show ?thesis
    by (auto simp: deal_opening_commitment_def contribution_commitment_def put_bytes_def ascii_bytes_def)
qed

lemma demo_sorted:
  "sort_key do_role demo_deals = [demo_deal (RoleSource (Ident 50)) 2, demo_deal (RoleRefresher (Ident 20)) 0,
     demo_deal (RoleRefresher (Ident 21)) 0]"
  "sort_key fst demo_commitments = [(RoleSource (Ident 50), gf 3), (RoleRefresher (Ident 20), gf 3),
     (RoleRefresher (Ident 21), gf 3)]"
  by (simp_all add: demo_deals_def demo_deal_def demo_commitments_def demo_roles_def less_eq_ident_def)

lemma demo_view_encodes:
  "\<exists>bs. encode_candidate_view toy_profile (demo_redistribution scope command)
      (sort_key fst demo_commitments) (sort_key do_role demo_deals) = Inr bs \<and> length bs < 2 ^ 32"
proof -
  have "\<exists>bs. and_then (deal_opening_to_bytes toy_profile (demo_deal role k)) put_bytes = Inr bs
      \<and> length bs < 2004" for role k
    using demo_deal_bytes(2) [of role k] by (auto simp: put_bytes_def put_u32_def)
  then obtain f where f: "and_then (deal_opening_to_bytes toy_profile (demo_deal role k)) put_bytes =
      Inr (f role k)" "length (f role k) < 2004" for role k by metis
  obtain cb where cb: "command_to_bytes toy_profile (demo_redistribution scope command) = Inr cb"
    "length cb < 1000" using demo_command_bytes by blast
  have "length (f (RoleSource (Ident 50)) 2) + (length (f (RoleRefresher (Ident 20)) 0)
      + length (f (RoleRefresher (Ident 21)) 0)) < 6012"
    using f(2) [of "RoleSource (Ident 50)" 2] f(2) [of "RoleRefresher (Ident 20)" 0]
      f(2) [of "RoleRefresher (Ident 21)" 0] by simp
  with f(1) cb show ?thesis
    by (simp add: encode_candidate_view_def demo_sorted count_u16_def put_bytes_def put_scalar_def
        put_u8_def put_u16_def put_u32_def)
qed

lemma demo_honest:
  "deal_honest toy_profile (demo_redistribution scope command) demo_commitments demo_deals demo_answers"
proof -
  let ?cmd = "demo_redistribution scope command"
  have "opening_honest toy_profile ?cmd demo_commitments o'" if o': "o' \<in> set demo_deals" for o'
    using o' demo_deal_commitment [of _ _ scope command] demo_deal_bytes(2)
    by (fastforce simp: opening_honest_def demo_deals_def command_role_def demo_redistribution_def
        demo_specs_def role_refresher_def demo_commitments_def demo_roles_def demo_shape_def
        first_point_def demo_deal_def)
  moreover have "\<exists>bs. encode_candidate_view toy_profile ?cmd (sort_key fst demo_commitments)
      (sort_key do_role demo_deals) = Inr bs \<and> length bs < 2 ^ 32"
    by (rule demo_view_encodes)
  moreover have "distinct (map fst demo_commitments)" "fst ` set demo_commitments = sp_role ` set (cm_roles ?cmd)"
    "distinct (map do_role demo_deals)" "do_role ` set demo_deals = sp_role ` set (cm_roles ?cmd)"
    by (auto simp: demo_commitments_def demo_roles_def demo_redistribution_def demo_specs_def
        role_refresher_def demo_deals_def demo_deal_def)
  moreover have "distinct demo_answers" "set demo_answers = set (shape_targets (cm_shape ?cmd))"
    "distinct (shape_targets (cm_shape ?cmd))"
    by (auto simp: demo_answers_def demo_redistribution_def demo_shape_def demo_targets_def)
  ultimately show ?thesis by (simp add: deal_honest_def)
qed

text \<open>The source's own contribution, with the fixture's draws.\<close>

definition demo_contribution :: "(gf7, gf7) contribution" where
  "demo_contribution = \<lparr>cn_command = Ident 61, cn_role = RoleSource (Ident 50),
     cn_block = SingleBlock [gf 2, gf 1], cn_points = SinglePoints [gf 2, gf 1], cn_salt = gf 1,
     cn_commitment = gf 3\<rparr>"

lemma demo_contributes:
  "contribution_source toy_profile demo_draw (demo_redistribution (Ident 60) (Ident 61)) (Ident 50) (gf 2) () =
     (Inr demo_contribution, ())"
proof -
  let ?cmd = "demo_redistribution (Ident 60) (Ident 61)"
  have role: "command_role ?cmd (RoleSource (Ident 50)) = Inr \<lparr>sp_role = RoleSource (Ident 50),
      sp_constant = gf 2, sp_source = Some (gf 2, demo_weight)\<rparr>"
    by (simp add: command_role_def demo_redistribution_def demo_specs_def)
  have "contribution_commitment toy_profile ?cmd (RoleSource (Ident 50)) (SinglePoints [gf 2, gf 1]) (gf 1) = Inr (gf 3)"
    using demo_deal_commitment [of "RoleSource (Ident 50)" 2 "Ident 60" "Ident 61"]
    by (simp add: deal_opening_commitment_def demo_deal_def)
  moreover have "cm_shape ?cmd = SingleShape demo_shape" "cm_command ?cmd = Ident 61" "ss_threshold demo_shape = 2"
    by (simp_all add: demo_redistribution_def demo_shape_def)
  moreover have one: "draws demo_draw (Suc 0) () = ([gf 1], ())" by (simp add: demo_draw_def)
  ultimately show ?thesis
    by (simp add: contribution_source_def role demo_weight_def contribution_sample_def polynomial_sample_def
        polynomial_new_def demo_draw_def polynomial_commitments_def first_point_def demo_contribution_def one)
qed

lemma demo_contribution_share:
  "contribution_share demo_contribution (demo_redistribution (Ident 60) (Ident 61)) (TargetSingle (Ident 20)) =
     Inr \<lparr>ps_command = Ident 61, ps_role = RoleSource (Ident 50), ps_target = TargetSingle (Ident 20), ps_value = gf 3\<rparr>"
  by (simp add: contribution_share_def demo_contribution_def demo_redistribution_def block_evaluate_def
      shape_device_def demo_shape_def demo_targets_def polynomial_evaluate_def gf_zero)

section \<open>The run\<close>

definition demo_scopes :: memory_log where
  "demo_scopes = empty_log\<lparr>ml_current := [Ident 60 \<mapsto> Ident 62, Ident 63 \<mapsto> Ident 62],
     ml_handles := {Ident 62}\<rparr>"

lemma demo_scopes_simps [simp]:
  "ml_current demo_scopes = [Ident 60 \<mapsto> Ident 62, Ident 63 \<mapsto> Ident 62]"
  "ml_transcripts demo_scopes = Map.empty" "ml_handles demo_scopes = {Ident 62}"
  by (simp_all add: demo_scopes_def empty_log_def)

lemma demo_start:
  "\<exists>c l. candidate_new toy_profile memory_act (demo_redistribution (Ident 60) (Ident 61)) demo_scopes = (Inr c, l)"
  using demo_command_bytes [of "Ident 60" "Ident 61"]
  by (auto simp: candidate_new_def memory_act_def log_begin_def demo_redistribution_def)

lemma demo_activates:
  obtains c0 l0 h c l v where
    "candidate_new toy_profile memory_act (demo_redistribution (Ident 60) (Ident 61)) demo_scopes = (Inr c0, l0)"
    "cand_run toy_profile memory_act memory_decided (c0, l0) (c, l)"
    "ca_terminal c = Some (Activated h)"
    "viewed toy_profile (demo_redistribution (Ident 60) (Ident 61)) c v"
    "vw_openings v = sort_key do_role demo_deals"
proof -
  let ?cmd = "demo_redistribution (Ident 60) (Ident 61)"
  obtain c0 l0 where new: "candidate_new toy_profile memory_act ?cmd demo_scopes = (Inr c0, l0)"
    using demo_start by blast
  from complete_run_activates [OF toy_group_ok demo_command_new specs_made_ok [OF demo_specs_made] demo_honest new]
  obtain h c l where run: "complete_run toy_profile memory_act demo_commitments demo_deals demo_answers c0 l0 =
      Some (Inr (Activated h), c, l)"
    and c: "ca_terminal c = Some (Activated h)" "ca_openings c = map with_role (sort_key do_role demo_deals)"
    by auto
  note steps = complete_run_run [OF run, of memory_decided]
  from viewed_run [OF new steps c(1)] obtain v where
    v: "viewed toy_profile ?cmd c v" "vw_openings v = map snd (ca_openings c)" by blast
  show thesis by (rule that [OF new steps c(1) v(1)]) (simp add: v(2) c(2) comp_def)
qed

section \<open>The targets\<close>

definition demo_deliveries_to :: "target_id \<Rightarrow> int \<Rightarrow> gf7 private_share list" where
  "demo_deliveries_to t n = map (\<lambda>(role, k). \<lparr>ps_command = Ident 61, ps_role = role, ps_target = t,
     ps_value = gf (k + n)\<rparr>) [(RoleRefresher (Ident 21), 0), (RoleSource (Ident 50), 2),
     (RoleRefresher (Ident 20), 0)]"

definition demo_accumulated :: "(gf7, gf7) candidate_view \<Rightarrow> target_id \<Rightarrow> int \<Rightarrow> (gf7, gf7) target_accumulator" where
  "demo_accumulated v t n = \<lparr>ta_view = v, ta_target = t, ta_shares = [(RoleSource (Ident 50), gf (2 + n)),
     (RoleRefresher (Ident 20), gf n), (RoleRefresher (Ident 21), gf n)]\<rparr>"

definition demo_pending :: "target_id \<Rightarrow> int \<Rightarrow> (gf7, gf7) pending_share" where
  "demo_pending t n = \<lparr>pn_target = t, pn_shape = SingleShape demo_shape, pn_share = gf (2 + 3 * n),
     pn_public = gf (2 + 3 * n), pn_points = SinglePoints [gf 2, gf 3]\<rparr>"

lemma demo_accumulate:
  assumes v: "viewed toy_profile (demo_redistribution (Ident 60) (Ident 61)) c v"
    and os: "vw_openings v = sort_key do_role demo_deals"
    and t: "(d, n) \<in> {(Ident 20, 1), (Ident 21, 2)}"
  shows "accumulator_new v (TargetSingle d) = Inr \<lparr>ta_view = v, ta_target = TargetSingle d, ta_shares = []\<rparr>"
    and "receive_all toy_profile (demo_deliveries_to (TargetSingle d) n)
      \<lparr>ta_view = v, ta_target = TargetSingle d, ta_shares = []\<rparr> = demo_accumulated v (TargetSingle d) n"
    and "accumulator_finish toy_profile (demo_accumulated v (TargetSingle d) n) =
      Inr (\<lparr>tr_command = Ident 61, tr_target = TargetSingle d, tr_view = vw_bytes v\<rparr>,
        demo_pending (TargetSingle d) n)"
proof -
  note w = viewed_view [OF v demo_command_new specs_made_ok [OF demo_specs_made]]
  have shape: "cm_shape (vw_command v) = SingleShape demo_shape" "cm_command (vw_command v) = Ident 61"
    by (simp_all add: w(1) demo_redistribution_def)
  have node: "shape_target_node (SingleShape demo_shape) (TargetSingle d) = Inr (gf n)"
    using t by (auto simp: shape_device_def demo_shape_def demo_targets_def)
  from w(3) have agg: "vw_aggregate v = SinglePoints [gf 2, gf 3]"
    by (simp add: os demo_sorted aggregate_points_def demo_deal_def add_points_def)
  show "accumulator_new v (TargetSingle d) = Inr \<lparr>ta_view = v, ta_target = TargetSingle d, ta_shares = []\<rparr>"
    using node by (simp add: accumulator_new_def shape)
  have opn: "view_opening v (RoleRefresher (Ident 20)) = Inr (demo_deal (RoleRefresher (Ident 20)) 0)"
    "view_opening v (RoleRefresher (Ident 21)) = Inr (demo_deal (RoleRefresher (Ident 21)) 0)"
    "view_opening v (RoleSource (Ident 50)) = Inr (demo_deal (RoleSource (Ident 50)) 2)"
    by (simp_all add: view_opening_def os demo_sorted) (simp_all add: demo_deal_def)
  have eval: "points_evaluate toy_profile (do_points (demo_deal role k)) (SingleShape demo_shape) (TargetSingle d) =
      Inr (gf (k + n))" for role k
    using node by (simp add: points_evaluate_def demo_deal_def evaluate_commitments_def gf_zero add.commute)
  show "receive_all toy_profile (demo_deliveries_to (TargetSingle d) n)
      \<lparr>ta_view = v, ta_target = TargetSingle d, ta_shares = []\<rparr> = demo_accumulated v (TargetSingle d) n"
    by (simp add: receive_all_def demo_deliveries_to_def accumulator_receive_def shape opn eval
      demo_accumulated_def less_role_id_def less_eq_ident_def)
  show "accumulator_finish toy_profile (demo_accumulated v (TargetSingle d) n) =
      Inr (\<lparr>tr_command = Ident 61, tr_target = TargetSingle d, tr_view = vw_bytes v\<rparr>,
        demo_pending (TargetSingle d) n)"
    using node
    by (simp add: accumulator_finish_def demo_accumulated_def shape agg points_evaluate_def
        evaluate_commitments_def gf_zero demo_pending_def w(1) Let_def)
       (simp add: demo_redistribution_def demo_specs_def role_refresher_def agg ac_simps)
qed

end
