(* ===== verification/Ksnf_Outer_Demo.thy ===== *)
theory Ksnf_Outer_Demo
  imports Ksnf_Dealing_Demo Ksnf_Activation
begin

text \<open>
  A redistribution of an outer block over the fixture: two people, the first with two devices.
\<close>

section \<open>The command\<close>

definition demo_one :: "gf7 single_shape" where
  "demo_one = \<lparr>ss_threshold = 1, ss_devices = [\<lparr>td_device = Ident 30, td_node = gf 1\<rparr>]\<rparr>"

definition demo_people_targets :: "gf7 outer_target list" where
  "demo_people_targets = [\<lparr>ot_person = Ident 1, ot_node = gf 1, ot_inner = demo_shape\<rparr>,
     \<lparr>ot_person = Ident 2, ot_node = gf 2, ot_inner = demo_one\<rparr>]"

definition demo_outer_shape :: "gf7 outer_shape" where
  "demo_outer_shape = \<lparr>oh_threshold = 2, oh_people = demo_people_targets\<rparr>"

definition demo_outer_specs :: "(gf7, gf7) role_spec list" where
  "demo_outer_specs = role_refresher (Ident 30) # demo_specs"

definition demo_outer_command :: "(gf7, gf7) command" where
  "demo_outer_command = \<lparr>cm_scope = Ident 60, cm_command = Ident 64, cm_predecessor = Ident 62,
     cm_anchor = gf 2, cm_shape = OuterShape demo_outer_shape, cm_roles = rev demo_specs @ [role_refresher (Ident 30)]\<rparr>"

lemma demo_one_new: "single_shape_new 1 [\<lparr>td_device = Ident 30, td_node = gf 1\<rparr>] = Inr demo_one"
  by (simp add: single_shape_new_def demo_one_def reject_device_duplicates_def)

lemma demo_outer_shape_new: "outer_shape_new 2 (rev demo_people_targets) = Inr demo_outer_shape"
  by (simp add: outer_shape_new_def demo_outer_shape_def demo_people_targets_def demo_shape_def
      demo_targets_def demo_one_def less_eq_ident_def word_le_nat_alt)

lemma demo_outer_command_new:
  "command_new (Ident 60) (Ident 64) (Ident 62) (gf 2) (OuterShape demo_outer_shape) demo_outer_specs =
     Inr demo_outer_command"
  by (simp add: command_new_def demo_outer_specs_def demo_specs_def role_refresher_def demo_outer_command_def
      demo_outer_shape_def demo_people_targets_def demo_shape_def demo_targets_def demo_one_def
      less_eq_ident_def insert_commute gf_zero)

lemma demo_outer_specs_made: "specs_made toy_profile demo_outer_specs"
  using demo_specs_made by (auto simp: specs_made_def demo_outer_specs_def)

lemma demo_outer_bytes:
  "\<exists>bs. command_to_bytes toy_profile demo_outer_command = Inr bs \<and> length bs < 2000"
  by (simp add: command_to_bytes_def demo_outer_command_def demo_outer_shape_def demo_people_targets_def
      demo_shape_def demo_targets_def demo_one_def encode_single_shape_def count_u16_def demo_specs_def
      role_refresher_def encode_role_spec_def put_point_def put_scalar_def put_element_def
      point_to_bytes_def element_to_bytes_def put_u8_def put_u16_def demo_weight_def point_width_def)

section \<open>The deal\<close>

definition demo_outer_deal :: "role_id \<Rightarrow> int \<Rightarrow> (gf7, gf7) deal_opening" where
  "demo_outer_deal role k = \<lparr>do_role = role, do_points = OuterPoints [gf k, gf 1]
     [(Ident 1, [gf (k + 1), gf 1]), (Ident 2, [gf (k + 2)])], do_salt = gf 1\<rparr>"

definition demo_outer_deals :: "(gf7, gf7) deal_opening list" where
  "demo_outer_deals = [demo_outer_deal (RoleSource (Ident 50)) 2, demo_outer_deal (RoleRefresher (Ident 20)) 0,
     demo_outer_deal (RoleRefresher (Ident 21)) 0, demo_outer_deal (RoleRefresher (Ident 30)) 0]"

definition demo_outer_commitments :: "(role_id \<times> gf7) list" where
  "demo_outer_commitments = map (\<lambda>o'. (do_role o', gf 3)) demo_outer_deals"

lemma demo_outer_deal_bytes:
  "\<exists>bs. points_to_bytes toy_profile (do_points (demo_outer_deal role k)) = Inr bs \<and> length bs < 1000"
  "\<exists>bs. deal_opening_to_bytes toy_profile (demo_outer_deal role k) = Inr bs \<and> length bs < 2000"
proof -
  show points: "\<exists>bs. points_to_bytes toy_profile (do_points (demo_outer_deal role k)) = Inr bs \<and> length bs < 1000"
    by (simp add: demo_outer_deal_def encode_points_def count_u16_def put_element_def element_to_bytes_def
        put_u8_def put_u16_def point_width_def)
  have "length (encode_role role) = 33" by (cases role) (simp_all add: put_u8_def)
  with points show "\<exists>bs. deal_opening_to_bytes toy_profile (demo_outer_deal role k) = Inr bs \<and> length bs < 2000"
    by (auto simp: deal_opening_to_bytes_def put_bytes_def put_scalar_def put_u8_def demo_outer_deal_def put_u32_def)
qed

lemma demo_outer_commitment:
  "deal_opening_commitment toy_profile (demo_outer_deal role k) demo_outer_command = Inr (gf 3)"
  using demo_outer_bytes demo_outer_deal_bytes(1) [of role k]
  by (auto simp: deal_opening_commitment_def contribution_commitment_def put_bytes_def ascii_bytes_def)

lemma demo_outer_deals_sorted:
  "sort_key do_role demo_outer_deals = demo_outer_deals"
  "sort_key fst demo_outer_commitments = demo_outer_commitments"
  by (simp_all add: demo_outer_deals_def demo_outer_deal_def demo_outer_commitments_def less_eq_ident_def)

lemma demo_outer_view_encodes:
  "\<exists>bs. encode_candidate_view toy_profile demo_outer_command
      (sort_key fst demo_outer_commitments) (sort_key do_role demo_outer_deals) = Inr bs \<and> length bs < 2 ^ 32"
proof -
  have "\<exists>bs. and_then (deal_opening_to_bytes toy_profile (demo_outer_deal role k)) put_bytes = Inr bs
      \<and> length bs < 2004" for role k
    using demo_outer_deal_bytes(2) [of role k] by (auto simp: put_bytes_def put_u32_def)
  then obtain f where f: "and_then (deal_opening_to_bytes toy_profile (demo_outer_deal role k)) put_bytes =
      Inr (f role k)" "length (f role k) < 2004" for role k by metis
  obtain cb where cb: "command_to_bytes toy_profile demo_outer_command = Inr cb"
    "length cb < 2000" using demo_outer_bytes by blast
  have "length (f (RoleSource (Ident 50)) 2) + (length (f (RoleRefresher (Ident 20)) 0)
      + (length (f (RoleRefresher (Ident 21)) 0) + length (f (RoleRefresher (Ident 30)) 0))) < 8016"
    using f(2) [of "RoleSource (Ident 50)" 2] f(2) [of "RoleRefresher (Ident 20)" 0]
      f(2) [of "RoleRefresher (Ident 21)" 0] f(2) [of "RoleRefresher (Ident 30)" 0] by simp
  with f(1) cb show ?thesis
    unfolding demo_outer_deals_sorted
    by (simp add: encode_candidate_view_def demo_outer_commitments_def demo_outer_deals_def
        count_u16_def put_bytes_def put_scalar_def put_u8_def put_u16_def put_u32_def)
       (simp add: demo_outer_deal_def put_u8_def)
qed

abbreviation demo_outer_roles :: "(role_id \<times> int) set" where
  "demo_outer_roles \<equiv> {(RoleSource (Ident 50), 2), (RoleRefresher (Ident 20), 0),
     (RoleRefresher (Ident 21), 0), (RoleRefresher (Ident 30), 0)}"

lemma demo_outer_opening:
  assumes "(role, k) \<in> demo_outer_roles"
  shows "opening_honest toy_profile demo_outer_command demo_outer_commitments (demo_outer_deal role k)"
proof -
  have valid: "points_validate toy_profile (do_points (demo_outer_deal role k)) (OuterShape demo_outer_shape) (gf k) = Inr ()"
    by (simp add: demo_outer_deal_def demo_outer_shape_def demo_people_targets_def demo_shape_def demo_one_def
        first_point_def evaluate_commitments_def gf_zero add.commute)
  obtain spec where spec: "command_role demo_outer_command role = Inr spec" "sp_constant spec = gf k"
    using assms by (auto simp: command_role_def demo_outer_command_def demo_specs_def role_refresher_def gf_zero)
  have ks: "map_of demo_outer_commitments role = Some (gf 3)"
    using assms by (auto simp: demo_outer_commitments_def demo_outer_deals_def demo_outer_deal_def)
  obtain bs where bs: "deal_opening_to_bytes toy_profile (demo_outer_deal role k) = Inr bs"
    using demo_outer_deal_bytes(2) by blast
  have "do_role (demo_outer_deal role k) = role" "cm_shape demo_outer_command = OuterShape demo_outer_shape"
    by (simp_all add: demo_outer_deal_def demo_outer_command_def)
  then show ?thesis
    unfolding opening_honest_def
    by (intro exI [of _ spec] exI [of _ "gf 3"] exI [of _ bs]) (simp add: spec ks bs valid demo_outer_commitment)
qed

lemma demo_outer_honest:
  "deal_honest toy_profile demo_outer_command demo_outer_commitments demo_outer_deals
     (rev (shape_targets (OuterShape demo_outer_shape)))"
proof -
  have "\<forall>o' \<in> set demo_outer_deals. opening_honest toy_profile demo_outer_command demo_outer_commitments o'"
    unfolding demo_outer_deals_def by (simp add: demo_outer_opening)
  moreover note demo_outer_view_encodes
  moreover have "distinct (map fst demo_outer_commitments)"
    "fst ` set demo_outer_commitments = sp_role ` set (cm_roles demo_outer_command)"
    "distinct (map do_role demo_outer_deals)"
    "do_role ` set demo_outer_deals = sp_role ` set (cm_roles demo_outer_command)"
    by (auto simp: demo_outer_commitments_def demo_outer_command_def demo_specs_def
        role_refresher_def demo_outer_deals_def demo_outer_deal_def)
  moreover have "distinct (shape_targets (cm_shape demo_outer_command))"
    "cm_shape demo_outer_command = OuterShape demo_outer_shape"
    by (auto simp: demo_outer_command_def demo_outer_shape_def demo_people_targets_def demo_shape_def
        demo_targets_def demo_one_def)
  ultimately show ?thesis by (simp add: deal_honest_def)
qed

section \<open>The run\<close>

lemma demo_outer_viewed:
  obtains c v where "viewed toy_profile demo_outer_command c v" "vw_openings v = demo_outer_deals"
proof -
  obtain c0 l0 where new: "candidate_new toy_profile memory_act demo_outer_command demo_scopes = (Inr c0, l0)"
    using demo_outer_bytes
    by (auto simp: candidate_new_def memory_act_def log_begin_def demo_outer_command_def)
  from complete_run_activates [OF toy_group_ok demo_outer_command_new specs_made_ok [OF demo_outer_specs_made]
      demo_outer_honest new]
  obtain h c l where run: "complete_run toy_profile memory_act demo_outer_commitments demo_outer_deals
      (rev (shape_targets (OuterShape demo_outer_shape))) c0 l0 = Some (Inr (Activated h), c, l)"
    and c: "ca_terminal c = Some (Activated h)" "ca_openings c = map with_role (sort_key do_role demo_outer_deals)"
    by auto
  from viewed_run [OF new complete_run_run [OF run] c(1)] obtain v where
    v: "viewed toy_profile demo_outer_command c v" "vw_openings v = map snd (ca_openings c)" by blast
  show thesis by (rule that [OF v(1)]) (simp add: v(2) c(2) comp_def demo_outer_deals_sorted)
qed

section \<open>The targets\<close>

definition demo_outer_pending :: "target_id \<Rightarrow> int \<Rightarrow> (gf7, gf7) pending_share" where
  "demo_outer_pending t b = \<lparr>pn_target = t, pn_shape = OuterShape demo_outer_shape, pn_share = gf (2 + 4 * b),
     pn_public = gf (2 + 4 * b), pn_points = OuterPoints [gf 2, gf 4] [(Ident 1, [gf 6, gf 4]), (Ident 2, [gf 10])]\<rparr>"

lemma demo_outer_finishes:
  assumes v: "viewed toy_profile demo_outer_command c v" and os: "vw_openings v = demo_outer_deals"
    and t: "(q, d, b) \<in> {(Ident 1, Ident 20, 2), (Ident 1, Ident 21, 3), (Ident 2, Ident 30, 2)}"
  shows "target_finishes toy_profile v (TargetOuter q d) (demo_outer_pending (TargetOuter q d) b)"
proof -
  let ?t = "TargetOuter q d" and ?shape = "OuterShape demo_outer_shape"
  let ?share = "\<lambda>role k. \<lparr>ps_command = Ident 64, ps_role = role, ps_target = ?t, ps_value = gf (k + b)\<rparr>"
  note w = viewed_view [OF v demo_outer_command_new specs_made_ok [OF demo_outer_specs_made]]
  have shape: "cm_shape (vw_command v) = ?shape" "cm_command (vw_command v) = Ident 64"
    by (simp_all add: w(1) demo_outer_command_def)
  obtain n where node: "shape_target_node ?shape ?t = Inr n"
    and n: "(q, n) \<in> {(Ident 1, gf (b - 1)), (Ident 2, gf 1)}"
    using t by (auto simp: shape_person_def shape_device_def demo_outer_shape_def demo_people_targets_def
        demo_shape_def demo_targets_def demo_one_def)
  from w(3) have agg: "vw_aggregate v = OuterPoints [gf 2, gf 4] [(Ident 1, [gf 6, gf 4]), (Ident 2, [gf 10])]"
    by (simp add: os demo_outer_deals_def aggregate_points_def demo_outer_deal_def add_points_def)
  have new: "accumulator_new v ?t = Inr \<lparr>ta_view = v, ta_target = ?t, ta_shares = []\<rparr>"
    using node by (simp add: accumulator_new_def shape)
  have opn: "view_opening v role = Inr (demo_outer_deal role k)" if "(role, k) \<in> demo_outer_roles" for role k
    using that by (auto simp: view_opening_def os demo_outer_deals_def) (simp_all add: demo_outer_deal_def)
  have eval: "points_evaluate toy_profile (do_points (demo_outer_deal role k)) ?shape ?t = Inr (gf (k + b))" for role k
    using node n t
    by (auto simp: points_evaluate_def demo_outer_deal_def evaluate_commitments_def gf_zero algebra_simps
        simp del: shape_target_node.simps)
  have recv: "receive_all toy_profile [?share (RoleSource (Ident 50)) 2, ?share (RoleRefresher (Ident 20)) 0,
      ?share (RoleRefresher (Ident 21)) 0, ?share (RoleRefresher (Ident 30)) 0]
      \<lparr>ta_view = v, ta_target = ?t, ta_shares = []\<rparr> = \<lparr>ta_view = v, ta_target = ?t, ta_shares =
        [(RoleSource (Ident 50), gf (2 + b)), (RoleRefresher (Ident 20), gf b),
         (RoleRefresher (Ident 21), gf b), (RoleRefresher (Ident 30), gf b)]\<rparr>"
    by (simp add: receive_all_def accumulator_receive_def shape opn eval less_role_id_def less_eq_ident_def)
  have total: "points_evaluate toy_profile (vw_aggregate v) ?shape ?t = Inr (gf (2 + 4 * b))"
    using node n t
    by (auto simp: points_evaluate_def agg evaluate_commitments_def gf_zero simp del: shape_target_node.simps)
  have "accumulator_finish toy_profile \<lparr>ta_view = v, ta_target = ?t, ta_shares =
        [(RoleSource (Ident 50), gf (2 + b)), (RoleRefresher (Ident 20), gf b),
         (RoleRefresher (Ident 21), gf b), (RoleRefresher (Ident 30), gf b)]\<rparr> =
      Inr (\<lparr>tr_command = Ident 64, tr_target = ?t, tr_view = vw_bytes v\<rparr>, demo_outer_pending ?t b)"
    using total
    by (simp add: accumulator_finish_def shape gf_zero demo_outer_pending_def agg w(1) Let_def)
       (simp add: demo_outer_command_def demo_specs_def role_refresher_def gf_zero agg ac_simps)
  with new recv show ?thesis unfolding target_finishes_def by metis
qed

section \<open>Its activation\<close>

definition demo_installed_outer :: "(gf7, gf7) installed_share" where
  "demo_installed_outer = \<lparr>in_target = TargetOuter (Ident 1) (Ident 20), in_shape = OuterShape demo_outer_shape,
     in_handle = Ident 91, in_share = gf 5, in_public = gf 5,
     in_points = OuterPoints [gf 5, gf 3] [(Ident 1, [gf 1, gf 4]), (Ident 2, [gf 4])]\<rparr>"

definition demo_outer_epoch :: key_epoch where
  "demo_outer_epoch = \<lparr>ke_outer = 4, ke_inner = 0, ke_anchor = \<lparr>an_vault = Ident 9, an_person = Ident 1,
     an_identity = Ident 70, an_member = Ident 91\<rparr>\<rparr>"

lemma demo_outer_install:
  obtains x where "outer_install toy_profile demo_leaf demo_outer_epoch demo_installed_outer = Inr x"
proof -
  have "\<exists>x. outer_install toy_profile demo_leaf demo_outer_epoch demo_installed_outer = Inr x"
    by (simp add: outer_install_def demo_installed_outer_def demo_leaf_def demo_vault_def demo_outer_shape_def
      demo_people_targets_def demo_shape_def demo_targets_def demo_one_def demo_outer_epoch_def same_roster_def
      first_point_def point_new_def)
  then show thesis by (elim exE) (rule that)
qed

lemma demo_outer_activation:
  obtains r where "leaf_activate_outer toy_profile demo_outer_epoch demo_installed_outer demo_leaf = (Inr (), r)"
  by (rule demo_outer_install) (auto simp: leaf_activate_outer_def Let_def split: prod.splits)

end
