(* ===== verification/Ksnf_Activation_Proofs.thy ===== *)
theory Ksnf_Activation_Proofs
  imports Ksnf_Leaf_Proofs Ksnf_Genesis_Proofs
begin

text \<open>
  The shares a registry holds verify against the maps it holds, after genesis and after every
  activation of shares that verified when they were resolved.
\<close>

definition registry_shares ::
  "('s::field, 'g::ab_group_add) profile \<Rightarrow> ('s, 'g) leaf_registry \<Rightarrow> bool" where
  "registry_shares P r \<longleftrightarrow>
     (\<exists>i. search_key fst (lr_device r) (im_devices (lr_identity_map r)) = Some (lr_device r, lr_node r, i))
     \<and> element_from_scalar P (lr_identity r) =
        evaluate_commitments P (im_commitments (lr_identity_map r)) (lr_node r)
     \<and> (\<forall>x \<in> set (lr_vaults r).
        element_from_scalar P (signing_share (lr_identity r) (vs_anchor (snd x))) =
          evaluate_commitments P (vs_member_map (snd x)) (lr_node r)
        \<and> first_point (vs_member_map (snd x)) = Some (vs_member_point (snd x))
        \<and> first_point (om_commitments (vs_outer_map (snd x))) = Some (vs_vault_key (snd x)))"

text \<open>What \<open>pending_resolve\<close> checks of a share it installs.\<close>

definition share_resolved ::
  "('s::field, 'g::ab_group_add) profile \<Rightarrow> ('s, 'g) installed_share \<Rightarrow> bool" where
  "share_resolved P s \<longleftrightarrow> points_evaluate P (in_points s) (in_shape s) (in_target s) =
     Inr (element_from_scalar P (in_share s))"

lemma identity_map_of_Inr:
  assumes "identity_map_of P shape points = Inr imap"
  shows "points = SinglePoints (im_commitments imap)
    \<and> map (\<lambda>(d, n, _). (d, n)) (im_devices imap) = map (\<lambda>t. (td_device t, td_node t)) (ss_devices shape)"
proof -
  from assms obtain cs devices where cs: "points = SinglePoints cs"
    and devices: "collect_results (\<lambda>t. and_then (points_evaluate P points (SingleShape shape)
        (TargetSingle (td_device t))) (\<lambda>share. Inr (td_device t, td_node t, share))) (ss_devices shape) =
      Inr devices"
    and imap: "imap = \<lparr>im_commitments = cs, im_devices = devices\<rparr>"
    by (cases points) (auto simp: identity_map_of_def and_then_Inr_iff if_Inl_eq_Inr)
  from devices have "map (\<lambda>(d, n, _). (d, n)) devices = map (\<lambda>t. (td_device t, td_node t)) (ss_devices shape)"
    unfolding collect_results_Inr_iff
    by (induction rule: list_all2_induct) (auto simp: and_then_Inr_iff)
  then show ?thesis by (simp add: cs imap)
qed

lemma search_same_keys:
  assumes "map (\<lambda>(d, n, _). (d, n)) ds = map (\<lambda>t. (td_device t, td_node t)) ts"
    and "search_key td_device k ts = Some t"
  shows "\<exists>i. search_key fst k ds = Some (k, td_node t, i)"
  using assms
proof (induction ds arbitrary: ts)
  case (Cons d ds)
  then obtain u us where "ts = u # us" by (cases ts) auto
  with Cons show ?case by (cases d) (auto split: if_splits)
qed simp

lemma search_keys_same:
  assumes "map (\<lambda>(d, n, _). (d, n)) ds = map (\<lambda>t. (td_device t, td_node t)) ts"
    and "search_key fst k ds = Some (k, n, i)"
  shows "\<exists>t. search_key td_device k ts = Some t \<and> td_node t = n"
  using assms
proof (induction ds arbitrary: ts)
  case (Cons d ds)
  then obtain u us where "ts = u # us" by (cases ts) auto
  with Cons show ?case by (cases d) (auto split: if_splits)
qed simp

text \<open>One row of a bundle: an epoch, its member share, and the vault it is for.\<close>

definition row_ok ::
  "('s, 'g) leaf_registry \<Rightarrow> ('s, 'g) installed_share \<Rightarrow> inner_epoch
     \<Rightarrow> (key_epoch \<times> ('s, 'g) installed_share) \<times> vault_id \<times> ('s, 'g) vault_state \<Rightarrow> bool" where
  "row_ok r identity inner row \<longleftrightarrow> (case row of ((epoch, member), (vault_id, vault)) \<Rightarrow>
     ke_inner epoch = inner \<and> lr_inner_epoch r < inner \<and> ke_outer epoch = vs_outer_epoch vault
     \<and> ke_anchor epoch = \<lparr>an_vault = vault_id, an_person = lr_person r,
          an_identity = in_handle identity, an_member = in_handle identity\<rparr>
     \<and> in_handle member = in_handle identity
     \<and> in_target member = TargetSingle (lr_device r) \<and> in_shape member = in_shape identity
     \<and> points_constant (in_points member) = Inr (vs_member_point vault))"

lemma check_bundle_Cons:
  assumes "check_bundle r identity acc (((epoch, member), (vault_id, vault)) # rest) = Inr res"
  shows "row_ok r identity (ke_inner epoch) ((epoch, member), (vault_id, vault))
    \<and> (acc = None \<or> acc = Some (ke_inner epoch))
    \<and> check_bundle r identity (Some (ke_inner epoch)) rest = Inr res"
proof -
  have "(case acc of None \<Rightarrow> False | Some inner \<Rightarrow> inner \<noteq> ke_inner epoch) = (acc \<noteq> None \<and> acc \<noteq> Some (ke_inner epoch))"
    by (cases acc) auto
  with assms show ?thesis
    by (simp add: row_ok_def anchor_id_eq and_then_Inr_iff if_Inl_eq_Inr not_le)
qed

lemma check_bundle_rows:
  assumes "check_bundle r identity acc rows = Inr res"
  shows "(acc = None \<or> res = acc) \<and> (\<forall>inner. res = Some inner \<longrightarrow> (\<forall>row \<in> set rows. row_ok r identity inner row))"
  using assms
proof (induction rows arbitrary: acc)
  case (Cons row rest)
  obtain epoch member vault_id vault where row: "row = ((epoch, member), (vault_id, vault))"
    by (metis prod.collapse)
  note head = check_bundle_Cons [OF Cons.prems [unfolded row]]
  then have "res = Some (ke_inner epoch)" using Cons.IH by blast
  with head Cons.IH show ?case by (auto simp: row)
qed simp

lemma points_evaluate_single:
  assumes "points_evaluate P points (SingleShape shape) (TargetSingle d) = Inr g"
    and "points = SinglePoints cs" "target_node shape d = Inr n"
  shows "evaluate_commitments P cs n = g"
  using assms by (auto simp: points_evaluate_def target_node_def shape_device_def and_then_Inr_iff)

text \<open>What an inner installation computes from resolved shares.\<close>

lemma inner_installed:
  assumes ins: "inner_bundle_install P r identity members = Inr (imap, inner, anchors)"
    and ok: "share_resolved P identity" "\<forall>x \<in> set members. share_resolved P (snd x)"
  obtains shape where "in_shape identity = SingleShape shape"
    "identity_map_of P shape (in_points identity) = Inr imap"
    "target_node shape (lr_device r) = Inr (lr_node r)"
    "points_constant (in_points identity) = Inr (lr_identity_key r)"
    "element_from_scalar P (in_share identity) = evaluate_commitments P (im_commitments imap) (lr_node r)"
    "length anchors = length (lr_vaults r)"
    "\<And>i. i < length (lr_vaults r) \<Longrightarrow>
       element_from_scalar P (signing_share (in_share identity) (fst (anchors ! i))) =
         evaluate_commitments P (snd (anchors ! i)) (lr_node r)
       \<and> first_point (snd (anchors ! i)) = Some (vs_member_point (snd (lr_vaults r ! i)))
       \<and> length (snd (anchors ! i)) = unat (ss_threshold shape)"
proof -
  let ?ms = "sort_key (\<lambda>(epoch, _). an_vault (ke_anchor epoch)) members"
  from ins obtain shape next_inner where shape: "in_shape identity = SingleShape shape"
    and imap: "identity_map_of P shape (in_points identity) = Inr imap"
    and node: "target_node shape (lr_device r) = Inr (lr_node r)"
    and len: "length ?ms = length (lr_vaults r)"
    and target: "in_target identity = TargetSingle (lr_device r)"
    and first: "points_constant (in_points identity) = Inr (lr_identity_key r)"
    and rows: "check_bundle r identity None (zip ?ms (lr_vaults r)) = Inr next_inner"
    and inner: "next_inner = Some inner"
    and anchors: "collect_results (\<lambda>(epoch, member). and_then (member_map_of shape (in_points member))
        (\<lambda>commitments. Inr (anchor_share (in_share member) (in_share identity), commitments))) ?ms = Inr anchors"
    by (auto simp: inner_bundle_install_def Let_def and_then_Inr_iff if_Inl_eq_Inr ok_or_Inr_iff
        split: target_shape.splits)
  note im = identity_map_of_Inr [OF imap]
  have id: "element_from_scalar P (in_share identity) =
      evaluate_commitments P (im_commitments imap) (lr_node r)"
    using points_evaluate_single [OF ok(1) [unfolded share_resolved_def shape target] conjunct1 [OF im] node]
    by simp
  have vault: "element_from_scalar P (signing_share (in_share identity) (fst (anchors ! i))) =
        evaluate_commitments P (snd (anchors ! i)) (lr_node r)
      \<and> first_point (snd (anchors ! i)) = Some (vs_member_point (snd (lr_vaults r ! i)))
      \<and> length (snd (anchors ! i)) = unat (ss_threshold shape)"
    if i: "i < length (lr_vaults r)" for i
  proof -
    obtain epoch member where m: "?ms ! i = (epoch, member)" by (cases "?ms ! i")
    have "?ms ! i \<in> set ?ms" using i len by (metis nth_mem)
    then have mem: "(epoch, member) \<in> set members" by (simp add: m)
    obtain vid v where v: "lr_vaults r ! i = (vid, v)" by (cases "lr_vaults r ! i")
    have "((epoch, member), (vid, v)) \<in> set (zip ?ms (lr_vaults r))"
      using i len m v by (auto simp: in_set_zip)
    with check_bundle_rows [OF rows] inner have row: "row_ok r identity inner ((epoch, member), (vid, v))"
      by blast
    have "i < length ?ms" using i len by simp
    from list_all2_nthD [OF anchors [unfolded collect_results_Inr_iff] this]
    have "and_then (member_map_of shape (in_points member))
        (\<lambda>commitments. Inr (anchor_share (in_share member) (in_share identity), commitments)) =
        Inr (anchors ! i)"
      unfolding m by simp
    then obtain cs where cs: "in_points member = SinglePoints cs" "length cs = unat (ss_threshold shape)"
      "anchors ! i = (anchor_share (in_share member) (in_share identity), cs)"
      by (cases "in_points member") (auto simp: member_map_of_def and_then_Inr_iff if_Inl_eq_Inr)
    have "share_resolved P member" using ok(2) mem by auto
    with row have "points_evaluate P (in_points member) (SingleShape shape) (TargetSingle (lr_device r)) =
        Inr (element_from_scalar P (in_share member))"
      by (simp add: share_resolved_def row_ok_def shape)
    from points_evaluate_single [OF this cs(1) node] row show ?thesis
      by (simp add: cs v row_ok_def ok_or_Inr_iff)
  qed
  have "length anchors = length (lr_vaults r)" using collect_results_length [OF anchors] len by simp
  from that [OF shape imap node first id this vault] show thesis .
qed

text \<open>An inner activation: fresh shares for every vault, the same keys, the epoch it was given.\<close>

lemma activate_inner_shares:
  assumes P: "group_ok P" and reg: "registry_shares P r"
    and ok: "share_resolved P identity" "\<forall>x \<in> set members. share_resolved P (snd x)"
    and act: "leaf_activate_inner_bundle P identity members r = (Inr (), r')"
  shows "registry_shares P r'"
proof -
  obtain imap inner anchors where ins: "inner_bundle_install P r identity members = Inr (imap, inner, anchors)"
    and r': "r' = r\<lparr>lr_live := None, lr_identity := in_share identity, lr_identity_map := imap,
       lr_inner_epoch := inner, lr_identity_handle := in_handle identity,
       lr_vaults := map (\<lambda>((vault_id, vault), (anchor, commitments)).
           (vault_id, vault\<lparr>vs_anchor := anchor, vs_member_handle := in_handle identity,
                            vs_member_map := commitments\<rparr>)) (zip (lr_vaults r) anchors)\<rparr>"
    using act by (cases rule: activate_inner_bundle_cases [of P identity members r]) auto
  obtain shape where imap: "identity_map_of P shape (in_points identity) = Inr imap"
    and node: "target_node shape (lr_device r) = Inr (lr_node r)"
    and id: "element_from_scalar P (in_share identity) = evaluate_commitments P (im_commitments imap) (lr_node r)"
    and len: "length anchors = length (lr_vaults r)"
    and vault: "\<And>i. i < length (lr_vaults r) \<Longrightarrow>
       element_from_scalar P (signing_share (in_share identity) (fst (anchors ! i))) =
         evaluate_commitments P (snd (anchors ! i)) (lr_node r)
       \<and> first_point (snd (anchors ! i)) = Some (vs_member_point (snd (lr_vaults r ! i)))
       \<and> length (snd (anchors ! i)) = unat (ss_threshold shape)"
    using inner_installed [OF ins ok] by metis
  from node obtain t where t: "search_key td_device (lr_device r) (ss_devices shape) = Some t" "td_node t = lr_node r"
    by (auto simp: target_node_def and_then_Inr_iff ok_or_Inr_iff)
  from search_same_keys [OF conjunct2 [OF identity_map_of_Inr [OF imap]] t(1)] t(2)
  have own: "\<exists>i. search_key fst (lr_device r) (im_devices imap) = Some (lr_device r, lr_node r, i)" by simp
  from len have vaults: "lr_vaults r' ! i = (fst (lr_vaults r ! i), (snd (lr_vaults r ! i))\<lparr>vs_anchor := fst (anchors ! i),
      vs_member_handle := in_handle identity, vs_member_map := snd (anchors ! i)\<rparr>)"
    and n: "length (lr_vaults r') = length (lr_vaults r)" if "i < length (lr_vaults r)" for i
    using that by (simp_all add: r' case_prod_beta)
  have "first_point (om_commitments (vs_outer_map (snd (lr_vaults r ! i)))) =
      Some (vs_vault_key (snd (lr_vaults r ! i)))" if "i < length (lr_vaults r)" for i
    using reg nth_mem [OF that] by (simp add: registry_shares_def)
  with vault vaults have "\<forall>i < length (lr_vaults r).
      element_from_scalar P (signing_share (in_share identity) (vs_anchor (snd (lr_vaults r' ! i)))) =
        evaluate_commitments P (vs_member_map (snd (lr_vaults r' ! i))) (lr_node r)
      \<and> first_point (vs_member_map (snd (lr_vaults r' ! i))) = Some (vs_member_point (snd (lr_vaults r' ! i)))
      \<and> first_point (om_commitments (vs_outer_map (snd (lr_vaults r' ! i)))) =
        Some (vs_vault_key (snd (lr_vaults r' ! i)))"
    by simp
  moreover have "length (lr_vaults r') = length (lr_vaults r)"
    using len by (simp add: r')
  ultimately have "\<forall>x \<in> set (lr_vaults r').
      element_from_scalar P (signing_share (in_share identity) (vs_anchor (snd x))) =
        evaluate_commitments P (vs_member_map (snd x)) (lr_node r)
      \<and> first_point (vs_member_map (snd x)) = Some (vs_member_point (snd x))
      \<and> first_point (om_commitments (vs_outer_map (snd x))) = Some (vs_vault_key (snd x))"
    by (simp add: all_set_conv_all_nth)
  moreover have "lr_device r' = lr_device r" "lr_node r' = lr_node r" "lr_identity r' = in_share identity"
    "lr_identity_map r' = imap" by (simp_all add: r')
  ultimately show ?thesis using own id by (simp add: registry_shares_def)
qed

text \<open>What an outer installation computes from a resolved share.\<close>

lemma outer_installed:
  assumes ins: "outer_install P r epoch member = Inr (point, omap, commitments)"
    and reg: "registry_shares P r" and ok: "share_resolved P member"
  obtains vault shape target outer members where
    "map_of (lr_vaults r) (an_vault (ke_anchor epoch)) = Some vault"
    "in_shape member = OuterShape shape"
    "search_key ot_person (lr_person r) (oh_people shape) = Some target"
    "ot_node target = vs_outer_node vault" "same_roster (lr_identity_map r) (ot_inner target)"
    "in_points member = OuterPoints outer members"
    "outer_maps_of shape (OuterPoints outer members) (lr_person r) = Inr (omap, commitments)"
    "om_commitments omap = outer" "point \<noteq> 0"
    "element_from_scalar P (in_share member) = evaluate_commitments P commitments (lr_node r)"
    "first_point commitments = Some point" "first_point outer = Some (vs_vault_key vault)"
proof -
  from ins obtain vault shape target where target: "in_target member = TargetOuter (lr_person r) (lr_device r)"
    and vault: "map_of (lr_vaults r) (an_vault (ke_anchor epoch)) = Some vault"
    and shape: "in_shape member = OuterShape shape"
    and t: "search_key ot_person (lr_person r) (oh_people shape) = Some target"
    and node: "ot_node target = vs_outer_node vault"
    and roster: "same_roster (lr_identity_map r) (ot_inner target)"
    and key: "points_constant (in_points member) = Inr (vs_vault_key vault)"
    and point: "points_member_constant (in_points member) (lr_person r) = Inr point" "point \<noteq> 0"
    and maps: "outer_maps_of shape (in_points member) (lr_person r) = Inr (omap, commitments)"
    by (auto simp: outer_install_def Let_def and_then_Inr_iff if_Inl_eq_Inr ok_or_Inr_iff point_new_Inr
        split: target_id.splits target_shape.splits)
  from reg obtain i where own: "search_key fst (lr_device r) (im_devices (lr_identity_map r)) =
      Some (lr_device r, lr_node r, i)" by (auto simp: registry_shares_def)
  have keys: "map (\<lambda>(d, n, _). (d, n)) (im_devices (lr_identity_map r)) =
      map (\<lambda>t. (td_device t, td_node t)) (ss_devices (ot_inner target))"
    using roster by (intro nth_equalityI)
      (auto simp: same_roster_def list_all_length case_prod_beta)
  from search_keys_same [OF keys own] obtain d where
    d: "search_key td_device (lr_device r) (ss_devices (ot_inner target)) = Some d" "td_node d = lr_node r"
    by blast
  from maps obtain outer members where points: "in_points member = OuterPoints outer members"
    and omap: "om_commitments omap = outer"
    and own_map: "\<exists>p. search_key fst (lr_person r) members = Some (p, commitments)"
    by (cases "in_points member") (auto simp: and_then_Inr_iff if_Inl_eq_Inr ok_or_Inr_iff)
  have "shape_target_node (OuterShape shape) (TargetOuter (lr_person r) (lr_device r)) = Inr (lr_node r)"
    using t d by (simp add: shape_person_def shape_device_def)
  with ok own_map have share: "element_from_scalar P (in_share member) = evaluate_commitments P commitments (lr_node r)"
    by (auto simp: share_resolved_def shape target points points_evaluate_def)
  have cst: "first_point commitments = Some point" "first_point outer = Some (vs_vault_key vault)"
    using point key own_map by (auto simp: points and_then_Inr_iff ok_or_Inr_iff)
  from that [OF vault shape t node roster points maps [unfolded points] omap point(2) share cst] show thesis .
qed

text \<open>An outer activation: a fresh share and maps for one vault, under the same vault key.\<close>

lemma activate_outer_cases:
  assumes "leaf_activate_outer P epoch member r = (Inr (), r')"
  obtains point omap commitments where "outer_install P r epoch member = Inr (point, omap, commitments)"
    "r' = (close_vault_live (an_vault (ke_anchor epoch)) r)\<lparr>lr_vaults := map (\<lambda>(vault_id, vault).
            if vault_id = an_vault (ke_anchor epoch)
            then (vault_id, vault\<lparr>vs_outer_epoch := ke_outer epoch,
                    vs_member_handle := an_member (ke_anchor epoch), vs_member_point := point,
                    vs_anchor := anchor_share (in_share member) (lr_identity r),
                    vs_member_map := commitments, vs_outer_map := omap\<rparr>)
            else (vault_id, vault)) (lr_vaults r)\<rparr>"
  using assms by (auto simp: leaf_activate_outer_def Let_def split: sum.splits)

lemma activate_outer_shares:
  assumes P: "group_ok P" and reg: "registry_shares P r" and ok: "share_resolved P member"
    and sorted: "bt_sorted (lr_vaults r)"
    and act: "leaf_activate_outer P epoch member r = (Inr (), r')"
  shows "registry_shares P r'"
proof -
  from activate_outer_cases [OF act] obtain point omap commitments where
    ins: "outer_install P r epoch member = Inr (point, omap, commitments)"
    and r': "r' = (close_vault_live (an_vault (ke_anchor epoch)) r)\<lparr>lr_vaults := map (\<lambda>(vault_id, vault).
            if vault_id = an_vault (ke_anchor epoch)
            then (vault_id, vault\<lparr>vs_outer_epoch := ke_outer epoch,
                    vs_member_handle := an_member (ke_anchor epoch), vs_member_point := point,
                    vs_anchor := anchor_share (in_share member) (lr_identity r),
                    vs_member_map := commitments, vs_outer_map := omap\<rparr>)
            else (vault_id, vault)) (lr_vaults r)\<rparr>"
    by blast
  obtain vault where vault: "map_of (lr_vaults r) (an_vault (ke_anchor epoch)) = Some vault"
    and share: "element_from_scalar P (in_share member) = evaluate_commitments P commitments (lr_node r)"
    and cst: "first_point commitments = Some point"
      "first_point (om_commitments omap) = Some (vs_vault_key vault)"
    by (rule outer_installed [OF ins reg ok]) simp
  have "\<forall>x \<in> set (lr_vaults r').
      element_from_scalar P (signing_share (lr_identity r) (vs_anchor (snd x))) =
        evaluate_commitments P (vs_member_map (snd x)) (lr_node r)
      \<and> first_point (vs_member_map (snd x)) = Some (vs_member_point (snd x))
      \<and> first_point (om_commitments (vs_outer_map (snd x))) = Some (vs_vault_key (snd x))"
  proof
    fix x assume "x \<in> set (lr_vaults r')"
    then obtain vid v where v: "(vid, v) \<in> set (lr_vaults r)"
      and x: "x = (if vid = an_vault (ke_anchor epoch)
            then (vid, v\<lparr>vs_outer_epoch := ke_outer epoch,
                    vs_member_handle := an_member (ke_anchor epoch), vs_member_point := point,
                    vs_anchor := anchor_share (in_share member) (lr_identity r),
                    vs_member_map := commitments, vs_outer_map := omap\<rparr>)
            else (vid, v))" by (auto simp: r')
    have "v = vault" if "vid = an_vault (ke_anchor epoch)"
      using vault v sorted that by (simp add: strict_sorted_iff)
    moreover have "element_from_scalar P (signing_share (lr_identity r) (vs_anchor v)) =
          evaluate_commitments P (vs_member_map v) (lr_node r)
        \<and> first_point (vs_member_map v) = Some (vs_member_point v)
        \<and> first_point (om_commitments (vs_outer_map v)) = Some (vs_vault_key v)"
      using reg v by (fastforce simp: registry_shares_def)
    ultimately show "element_from_scalar P (signing_share (lr_identity r) (vs_anchor (snd x))) =
          evaluate_commitments P (vs_member_map (snd x)) (lr_node r)
        \<and> first_point (vs_member_map (snd x)) = Some (vs_member_point (snd x))
        \<and> first_point (om_commitments (vs_outer_map (snd x))) = Some (vs_vault_key (snd x))"
      using share cst by (simp add: x)
  qed
  then show ?thesis using reg by (simp add: registry_shares_def r')
qed

text \<open>No activation touches the vaults' identifiers or keys.\<close>

definition vault_keys :: "('s, 'g) leaf_registry \<Rightarrow> (vault_id \<times> 'g) list" where
  "vault_keys r = map (\<lambda>x. (fst x, vs_vault_key (snd x))) (lr_vaults r)"

lemma vault_keys_fst: "map fst (vault_keys r) = map fst (lr_vaults r)"
  by (simp add: vault_keys_def comp_def)

lemma activate_inner_keys:
  assumes "leaf_activate_inner_bundle P identity members r = (Inr (), r')"
  shows "vault_keys r' = vault_keys r"
proof -
  obtain imap inner anchors where ins: "inner_bundle_install P r identity members = Inr (imap, inner, anchors)"
    and r': "r' = r\<lparr>lr_live := None, lr_identity := in_share identity, lr_identity_map := imap,
       lr_inner_epoch := inner, lr_identity_handle := in_handle identity,
       lr_vaults := map (\<lambda>((vault_id, vault), (anchor, commitments)).
           (vault_id, vault\<lparr>vs_anchor := anchor, vs_member_handle := in_handle identity,
                            vs_member_map := commitments\<rparr>)) (zip (lr_vaults r) anchors)\<rparr>"
    using assms by (cases rule: activate_inner_bundle_cases [of P identity members r]) auto
  from ins have "length anchors = length (lr_vaults r)"
    by (auto simp: inner_bundle_install_def Let_def and_then_Inr_iff if_Inl_eq_Inr dest!: collect_results_length)
  then show ?thesis
    by (auto simp: vault_keys_def r' case_prod_beta intro!: nth_equalityI)
qed

lemma activate_outer_keys:
  assumes "leaf_activate_outer P epoch member r = (Inr (), r')"
  shows "vault_keys r' = vault_keys r"
  using assms
  by (auto simp: leaf_activate_outer_def vault_keys_def close_vault_live_def Let_def
      split: sum.splits option.splits)

end
