(* ===== verification/Ksnf_Bundle_Proofs.thy ===== *)
theory Ksnf_Bundle_Proofs
  imports Ksnf_Candidate_Proofs
begin

text \<open>
  The bundle over any log that keeps the contract: its components agree with the log, and either
  all of them are activated under one handle or none is.
\<close>

definition bundle_ok ::
  "('s::field, 'g::ab_group_add) profile \<Rightarrow> ('l \<Rightarrow> command_id \<Rightarrow> terminal option) \<Rightarrow> ('s, 'g) inner_bundle
     \<Rightarrow> 'l \<Rightarrow> bool" where
  "bundle_ok P decided cs l \<longleftrightarrow> bt_sorted cs
     \<and> (\<forall>x \<in> set cs. ca_id (snd x) = fst x \<and> agrees decided l (snd x) \<and> cand_inv P (snd x))"

definition bundle_atomic :: "('s, 'g) inner_bundle \<Rightarrow> bool" where
  "bundle_atomic cs \<longleftrightarrow> (\<exists>h. \<forall>x \<in> set cs. ca_terminal (snd x) = Some (Activated h))
     \<or> (\<forall>x \<in> set cs. \<forall>h. ca_terminal (snd x) \<noteq> Some (Activated h))"

definition sound ::
  "('s::field, 'g::ab_group_add) profile \<Rightarrow> ('l \<Rightarrow> command_id \<Rightarrow> terminal option)
     \<Rightarrow> ('s, 'g) candidate \<Rightarrow> 'l \<Rightarrow> ('s, 'g) candidate \<Rightarrow> 'l \<Rightarrow> bool" where
  "sound P decided c l c' l' \<longleftrightarrow> quiet decided c l c' l' \<and> (cand_inv P c \<longrightarrow> cand_inv P c')"

lemma sound_refl [simp]: "sound P decided c l c l"
  by (simp add: sound_def)

text \<open>One component before and after a quiet operation of its bundle.\<close>

definition same_part :: "command_id \<times> ('s, 'g) candidate \<Rightarrow> command_id \<times> ('s, 'g) candidate \<Rightarrow> bool" where
  "same_part x y \<longleftrightarrow> fst y = fst x \<and> ca_command (snd y) = ca_command (snd x)
     \<and> (\<forall>h. ca_terminal (snd y) = Some (Activated h) \<longleftrightarrow> ca_terminal (snd x) = Some (Activated h))"

definition bquiet ::
  "('s::field, 'g::ab_group_add) profile \<Rightarrow> ('l \<Rightarrow> command_id \<Rightarrow> terminal option)
     \<Rightarrow> ('s, 'g) inner_bundle \<Rightarrow> 'l \<Rightarrow> ('s, 'g) inner_bundle \<Rightarrow> 'l \<Rightarrow> bool" where
  "bquiet P decided cs l cs' l' \<longleftrightarrow> list_all2 same_part cs cs' \<and> bundle_ok P decided cs' l'
     \<and> (\<forall>x. x \<notin> fst ` set cs \<longrightarrow> decided l' x = decided l x)
     \<and> (\<forall>x t. decided l x = Some t \<longrightarrow> decided l' x = Some t)"

lemma same_part_refl: "same_part x x"
  by (simp add: same_part_def)

lemma same_part_keys: "list_all2 same_part cs cs' \<Longrightarrow> map fst cs' = map fst cs"
  by (induction rule: list_all2_induct) (auto simp: same_part_def)

lemma bquiet_keys: "bquiet P decided cs l cs' l' \<Longrightarrow> fst ` set cs' = fst ` set cs"
  using same_part_keys [of cs cs'] by (metis bquiet_def list.set_map)

lemma bquiet_refl: "bundle_ok P decided cs l \<Longrightarrow> bquiet P decided cs l cs l"
  by (simp add: bquiet_def list_all2_same same_part_refl)

lemma bquiet_trans:
  assumes "bquiet P decided cs l cs' l'" "bquiet P decided cs' l' cs'' l''"
  shows "bquiet P decided cs l cs'' l''"
proof -
  have "list_all2 same_part cs cs''"
    using assms list_all2_trans [of same_part same_part same_part cs cs' cs'']
    by (simp add: bquiet_def same_part_def)
  then show ?thesis
    using assms bquiet_keys [OF assms(1)] by (simp add: bquiet_def)
qed

lemma bquiet_atomic:
  assumes "bquiet P decided cs l cs' l'" "bundle_atomic cs"
  shows "bundle_ok P decided cs' l' \<and> bundle_atomic cs'"
proof
  have "list_all2 same_part cs cs'" using assms(1) by (simp add: bquiet_def)
  then have "\<forall>y \<in> set cs'. \<exists>x \<in> set cs. same_part x y"
    by (induction rule: list_all2_induct) auto
  with assms(2) show "bundle_atomic cs'" unfolding bundle_atomic_def same_part_def by metis
  show "bundle_ok P decided cs' l'" using assms(1) by (simp add: bquiet_def)
qed

lemma agrees_mono:
  "\<forall>x t. decided l x = Some t \<longrightarrow> decided l' x = Some t \<Longrightarrow> agrees decided l c \<Longrightarrow> agrees decided l' c"
  by (simp add: agrees_def)

lemma bundle_ok_Cons:
  "bundle_ok P decided ((k, c) # cs) l \<longleftrightarrow> bundle_ok P decided cs l \<and> ca_id c = k
     \<and> agrees decided l c \<and> cand_inv P c \<and> (\<forall>x \<in> fst ` set cs. k < x)"
  by (auto simp: bundle_ok_def)

lemma bundle_ok_same:
  "decided l' = decided l \<Longrightarrow> bundle_ok P decided cs l' \<longleftrightarrow> bundle_ok P decided cs l"
  by (simp add: bundle_ok_def agrees_def)

lemma bundle_ok_others:
  assumes "bundle_ok P decided cs l" "sound P decided c l c' l'" "ca_id c \<notin> fst ` set cs"
  shows "bundle_ok P decided cs l'"
proof -
  have "agrees decided l' (snd x)" if "x \<in> set cs" for x
  proof (rule quiet_other)
    show "quiet decided c l c' l'" using assms(2) by (simp add: sound_def)
    show "agrees decided l (snd x)" using assms(1) that by (simp add: bundle_ok_def)
    have "ca_id (snd x) = fst x" using assms(1) that by (simp add: bundle_ok_def)
    moreover have "fst x \<in> fst ` set cs" using that by (rule imageI)
    ultimately show "ca_id (snd x) \<noteq> ca_id c" using assms(3) by metis
  qed
  with assms(1) show ?thesis by (simp add: bundle_ok_def)
qed

lemma bquiet_Cons:
  assumes ok: "bundle_ok P decided ((k, c) # cs) l" and s: "sound P decided c l c' l'"
    and rest: "bundle_ok P decided cs l' \<Longrightarrow> bquiet P decided cs l' cs' l''"
  shows "bquiet P decided ((k, c) # cs) l ((k, c') # cs') l''"
proof -
  from ok have k: "ca_id c = k" "k \<notin> fst ` set cs" "bundle_ok P decided cs l" "agrees decided l c"
    "cand_inv P c" "\<forall>x \<in> fst ` set cs. k < x"
    by (auto simp: bundle_ok_Cons)
  have q: "quiet decided c l c' l'" "cand_inv P c'" using s k(5) by (simp_all add: sound_def)
  from bundle_ok_others [OF k(3) s] k(1,2) have ok': "bundle_ok P decided cs l'" by simp
  note r = rest [OF ok']
  have frame: "decided l'' x = decided l' x" if "x \<notin> fst ` set cs" for x
    using r that by (simp add: bquiet_def)
  have "agrees decided l'' c'"
    using quiet_agrees [OF q(1) k(4)] frame [of k] k(1,2) q(1) by (simp add: agrees_def quiet_def)
  then have "bundle_ok P decided ((k, c') # cs') l''"
    using r k q bquiet_keys [OF r] by (simp add: bundle_ok_Cons bquiet_def quiet_def)
  moreover have "same_part (k, c) (k, c')"
    using q(1) quiet_activated [OF q(1) k(4)] by (simp add: same_part_def quiet_def)
  moreover have "decided l'' x = decided l x" if "x \<notin> insert k (fst ` set cs)" for x
    using frame [of x] that q(1) k(1) by (auto simp: quiet_def)
  moreover have "decided l'' x = Some t" if "decided l x = Some t" for x t
    using r quiet_keeps [OF q(1) that] by (simp add: bquiet_def)
  ultimately show ?thesis using r by (simp add: bquiet_def)
qed

lemma bquiet_at:
  assumes "bundle_ok P decided cs l" "map_of cs k = Some c" "sound P decided c l c' l'"
  shows "bquiet P decided cs l (bt_insert k c' cs) l'"
  using assms(1,2)
proof (induction cs)
  case (Cons x cs)
  obtain k0 c0 where x: "x = (k0, c0)" by (cases x)
  show ?case
  proof (cases "k0 = k")
    case True
    with Cons.prems assms(3) show ?thesis
      unfolding x by (auto intro!: bquiet_Cons bquiet_refl)
  next
    case False
    with Cons.prems have mem: "map_of cs k = Some c" and ok: "bundle_ok P decided cs l" "k0 < k"
      by (auto simp: x bundle_ok_Cons dest!: map_of_SomeD)
    from Cons.IH [OF ok(1) mem] ok(2) Cons.prems(1) show ?thesis
      unfolding x by (auto intro!: bquiet_Cons [OF _ sound_refl] split: if_splits)
  qed
qed simp

section \<open>Loops\<close>

lemma each_until_bquiet:
  assumes f: "\<And>c l r c' l'. f c l = (r, c', l') \<Longrightarrow> sound P decided c l c' l'"
    and "bundle_ok P decided cs l" "each_until f cs l = (res, cs', l')"
  shows "bquiet P decided cs l cs' l'"
  using assms(2,3)
proof (induction cs arbitrary: l res cs' l')
  case Nil
  then show ?case by (simp add: bquiet_refl)
next
  case (Cons x cs)
  obtain k c where x: "x = (k, c)" by (cases x)
  obtain r c1 l1 where step: "f c l = (r, c1, l1)" by (metis prod_cases3)
  note s = f [OF step]
  obtain r2 cs2 l2 where rest: "each_until f cs l1 = (r2, cs2, l2)" by (metis prod_cases3)
  show ?case
  proof (cases r)
    case (Inl e)
    with Cons.prems(2) step have "cs' = (k, c1) # cs" "l' = l1" by (simp_all add: x)
    then show ?thesis
      using bquiet_Cons [OF Cons.prems(1) [unfolded x] s bquiet_refl] by (simp add: x)
  next
    case (Inr a)
    with Cons.prems(2) step rest have "cs' = (k, c1) # cs2" "l' = l2"
      by (auto simp: x split: sum.splits)
    then show ?thesis
      using bquiet_Cons [OF Cons.prems(1) [unfolded x] s Cons.IH [OF _ rest]] by (simp add: x)
  qed
qed

lemma each_until_all:
  assumes f: "\<And>c l a c' l'. c \<in> snd ` set cs \<Longrightarrow> f c l = (Inr a, c', l') \<Longrightarrow> Q c'"
    and "each_until f cs l = (Inr as, cs', l')"
  shows "\<forall>x \<in> set cs'. Q (snd x)"
  using assms
proof (induction cs arbitrary: l as cs' l')
  case (Cons x cs)
  obtain k c where x: "x = (k, c)" by (cases x)
  from Cons.prems(2) obtain a c1 l1 bs cs2 where step: "f c l = (Inr a, c1, l1)"
    and rest: "each_until f cs l1 = (Inr bs, cs2, l')" and cs': "cs' = (k, c1) # cs2"
    by (auto simp: x split: prod.splits sum.splits)
  have "\<forall>x \<in> set cs2. Q (snd x)"
    by (rule Cons.IH [OF _ rest]) (rule Cons.prems(1), auto)
  moreover have "Q c1" by (rule Cons.prems(1) [OF _ step]) (simp add: x)
  ultimately show ?case by (simp add: cs')
qed simp

context log_contract
begin

lemma commit_sound: "candidate_commit P L role k c l = (r, c', l') \<Longrightarrow> sound P decided c l c' l'"
  by (auto simp: sound_def dest: commit_quiet commit_inv)

lemma close_commitments_sound: "candidate_close_commitments L c l = (r, c', l') \<Longrightarrow> sound P decided c l c' l'"
  by (auto simp: sound_def dest: close_commitments_quiet close_commitments_inv)

lemma open_sound: "candidate_open P L opn c l = (r, c', l') \<Longrightarrow> sound P decided c l c' l'"
  by (auto simp: sound_def dest: open_quiet open_inv)

lemma open_contribution_sound: "candidate_open_contribution P L n c l = (r, c', l') \<Longrightarrow> sound P decided c l c' l'"
  by (auto simp: sound_def dest: open_contribution_quiet open_contribution_inv)

lemma close_openings_sound: "candidate_close_openings P L c l = (r, c', l') \<Longrightarrow> sound P decided c l c' l'"
  by (auto simp: sound_def dest: close_openings_quiet close_openings_inv)

lemma receipt_sound: "candidate_receipt P L x c l = (r, c', l') \<Longrightarrow> sound P decided c l c' l'"
  by (auto simp: sound_def dest: receipt_quiet receipt_inv)

lemma prepare_sound: "candidate_prepare L c l = (r, c', l') \<Longrightarrow> sound P decided c l c' l'"
  by (auto simp: sound_def dest: prepare_quiet prepare_inv)

lemma abort_sound: "candidate_abort L c l = (r, c', l') \<Longrightarrow> sound P decided c l c' l'"
  by (auto simp: sound_def dest: abort_quiet abort_inv)

lemma abort_each_bquiet:
  assumes "bundle_ok P decided cs l" "abort_each L p cs l = (es, cs', l')"
  shows "bquiet P decided cs l cs' l'"
  using assms
proof (induction cs arbitrary: l es cs' l')
  case Nil
  then show ?case by (simp add: bquiet_refl)
next
  case (Cons x cs)
  obtain k c where x: "x = (k, c)" by (cases x)
  show ?case
  proof (cases "p c")
    case True
    obtain r c1 l1 where step: "candidate_abort L c l = (r, c1, l1)" by (metis prod_cases3)
    obtain es2 cs2 l2 where rest: "abort_each L p cs l1 = (es2, cs2, l2)" by (metis prod_cases3)
    from True step rest Cons.prems(2) have "cs' = (k, c1) # cs2" "l' = l2" by (auto simp: x)
    then show ?thesis
      using bquiet_Cons [OF Cons.prems(1) [unfolded x] abort_sound [OF step] Cons.IH [OF _ rest]]
      by (simp add: x)
  next
    case False
    obtain es2 cs2 l2 where rest: "abort_each L p cs l = (es2, cs2, l2)" by (metis prod_cases3)
    from False rest Cons.prems(2) have "cs' = (k, c) # cs2" "l' = l2" by (auto simp: x)
    then show ?thesis
      using bquiet_Cons [OF Cons.prems(1) [unfolded x] sound_refl Cons.IH [OF _ rest]] by (simp add: x)
  qed
qed

lemma bundle_fail_bquiet:
  "bundle_ok P decided cs l \<Longrightarrow> bundle_fail L e cs l = (r, cs', l') \<Longrightarrow> bquiet P decided cs l cs' l'"
  by (auto simp: bundle_fail_def split: prod.splits dest: abort_each_bquiet)

lemma abort_all_bquiet:
  "bundle_ok P decided cs l \<Longrightarrow> abort_all L e cs l = (r, cs', l') \<Longrightarrow> bquiet P decided cs l cs' l'"
  by (auto simp: abort_all_def split: prod.splits dest: abort_each_bquiet)

lemma bundle_at_bquiet:
  assumes f: "\<And>c l r c' l'. f c l = (r, c', l') \<Longrightarrow> sound P decided c l c' l'"
    and ok: "bundle_ok P decided cs l" and op: "bundle_at L command f cs l = (res, cs', l')"
  shows "bquiet P decided cs l cs' l'"
proof (cases "map_of cs command")
  case None
  with op bundle_fail_bquiet [OF ok] show ?thesis by (auto simp: bundle_at_def)
next
  case (Some c)
  obtain r c1 l1 where step: "f c l = (r, c1, l1)" by (metis prod_cases3)
  note q = bquiet_at [OF ok Some f [OF step]]
  then have ok1: "bundle_ok P decided (bt_insert command c1 cs) l1" by (simp add: bquiet_def)
  show ?thesis
    using op Some step q bquiet_trans [OF q bundle_fail_bquiet [OF ok1]]
    by (auto simp: bundle_at_def split: sum.splits)
qed

lemma bundle_each_bquiet:
  assumes f: "\<And>c l r c' l'. f c l = (r, c', l') \<Longrightarrow> sound P decided c l c' l'"
    and ok: "bundle_ok P decided cs l" and op: "bundle_each L f cs l = (res, cs', l')"
  shows "bquiet P decided cs l cs' l'"
proof -
  obtain r cs1 l1 where step: "each_until f cs l = (r, cs1, l1)" by (metis prod_cases3)
  have q: "bquiet P decided cs l cs1 l1" by (rule each_until_bquiet [OF f ok step])
  then have ok1: "bundle_ok P decided cs1 l1" by (simp add: bquiet_def)
  show ?thesis
    using op step q bquiet_trans [OF q bundle_fail_bquiet [OF ok1]]
    by (auto simp: bundle_each_def split: sum.splits)
qed

section \<open>Activation\<close>

lemma prepare_each:
  assumes "bundle_ok P decided cs l" "each_until (candidate_prepare L) cs l = (res, cs', l')"
  shows "bquiet P decided cs l cs' l'"
    and "res = Inr as \<Longrightarrow> \<forall>x \<in> set cs'. ca_stage (snd x) = ReadyStage"
proof -
  show "bquiet P decided cs l cs' l'" by (rule each_until_bquiet [OF prepare_sound assms])
  assume res: "res = Inr as"
  show "\<forall>x \<in> set cs'. ca_stage (snd x) = ReadyStage"
  proof (rule each_until_all [OF _ assms(2) [unfolded res]])
    fix c l a c' l'
    assume "c \<in> snd ` set cs" and op: "candidate_prepare L c l = (Inr a, c', l')"
    then have "cand_inv P c" using assms(1) by (auto simp: bundle_ok_def)
    from prepare_inv [OF op this] show "ca_stage c' = ReadyStage" by simp
  qed
qed

lemma activated_bundle:
  assumes ok: "bundle_ok P decided cs l" and ready: "\<forall>x \<in> set cs. ca_stage (snd x) = ReadyStage"
    and act: "lg_activate_bundle L (map (ca_id \<circ> snd) cs) l = Some (Inr t, l')"
  shows "bundle_ok P decided (map (\<lambda>(k, c). (k, c\<lparr>ca_stage := TerminalStage, ca_terminal := Some t\<rparr>)) cs) l'"
    (is "bundle_ok P decided ?cs l'")
proof -
  note b = bundle_Inr [OF act]
  have keys: "map fst ?cs = map fst cs" by (auto simp: comp_def case_prod_beta)
  have "ca_id (snd y) = fst y \<and> agrees decided l' (snd y) \<and> cand_inv P (snd y)"
    if y: "y \<in> set ?cs" for y
  proof -
    from y obtain k c where c: "(k, c) \<in> set cs"
      "y = (k, c\<lparr>ca_stage := TerminalStage, ca_terminal := Some t\<rparr>)" by auto
    have "ca_id c \<in> set (map (ca_id \<circ> snd) cs)" using c(1) by force
    with b have "decided l' (ca_id c) = Some t" by simp
    moreover have "ca_id c = k" "cand_inv P c" using ok c(1) by (auto simp: bundle_ok_def)
    moreover have "ca_stage c = ReadyStage" using ready c(1) by auto
    ultimately show ?thesis using activated_inv [of P c t] c(2) by (simp add: agrees_def)
  qed
  moreover have "bt_sorted ?cs" using ok unfolding bundle_ok_def keys by blast
  ultimately show ?thesis unfolding bundle_ok_def by blast
qed

lemma bundle_activate_invs:
  assumes ok: "bundle_ok P decided cs l" and atomic: "bundle_atomic cs"
    and op: "bundle_activate L cs l = Some (res, cs', l')"
  shows "bundle_ok P decided cs' l' \<and> bundle_atomic cs'
    \<and> (\<forall>x t. decided l x = Some t \<longrightarrow> decided l' x = Some t)
    \<and> (\<forall>t. res = Inr t \<longrightarrow> (\<exists>h. t = Activated h \<and> (\<forall>x \<in> set cs'. ca_terminal (snd x) = Some t)))"
proof -
  have quiet_done: ?thesis if q: "bquiet P decided cs l cs' l'" and "res = Inl e" for e
    using bquiet_atomic [OF q atomic] q that(2) by (simp add: bquiet_def)
  have abort_done: ?thesis
    if q: "bquiet P decided cs l cs1 l1" and "abort_all L e cs1 l2 = (res, cs', l')"
      and same: "decided l2 = decided l1" for cs1 l1 l2 e
  proof -
    have "bundle_ok P decided cs1 l2" using q same bundle_ok_same [of decided l2 l1 P cs1]
      by (simp add: bquiet_def)
    from abort_all_bquiet [OF this that(2)] have "bquiet P decided cs1 l1 cs' l'"
      using same by (simp add: bquiet_def)
    from bquiet_trans [OF q this] have "bquiet P decided cs l cs' l'" .
    moreover have "res = Inl e" using that(2) by (simp add: abort_all_def split: prod.splits)
    ultimately show ?thesis by (rule quiet_done)
  qed
  note def = op [unfolded bundle_activate_def activate_candidates_def Let_def]
  show ?thesis
  proof (cases "cs = [] \<or> \<not> is_single (cm_shape (ca_command (snd (hd cs))))
      \<or> list_ex (\<lambda>(_, c). cm_shape (ca_command c) \<noteq> cm_shape (ca_command (snd (hd cs)))) cs")
    case shape: True
    show ?thesis
    proof (cases "cs = []")
      case True
      with def have "res = Inl EmptyInput" "cs' = cs" "l' = l" by simp_all
      with bquiet_refl [OF ok] show ?thesis by (intro quiet_done) simp_all
    next
      case False
      with shape def have "abort_all L SupportMismatch cs l = (res, cs', l')" by auto
      from abort_done [OF bquiet_refl [OF ok] this refl] show ?thesis .
    qed
  next
    case False
    show ?thesis
    proof (cases "ca_terminal (snd (hd cs)) = None \<and> \<not> list_ex (\<lambda>(_, c). ca_terminal c \<noteq> None) cs")
      case old: False
      have "\<exists>t. ca_terminal (snd (hd cs)) = Some t \<and> list_all (\<lambda>(_, c). ca_terminal c = Some t) cs
          \<and> (\<exists>h. t = Activated h) \<and> res = Inr t \<or> (\<exists>e. res = Inl e)"
        and same: "cs' = cs" "l' = l"
        using def False old by (auto split: option.splits terminal.splits if_splits)
      then show ?thesis
        using ok atomic by (auto simp: list_all_iff case_prod_beta)
    next
      case new: True
      obtain r1 cs1 l1 where prep: "each_until (candidate_prepare L) cs l = (r1, cs1, l1)"
        by (metis prod_cases3)
      note q = prepare_each(1) [OF ok prep]
      show ?thesis
      proof (cases r1)
        case (Inl e)
        with def False new prep have "abort_all L e cs1 l1 = (res, cs', l')" by simp
        from abort_done [OF q this refl] show ?thesis .
      next
        case (Inr as)
        obtain r2 l2 where act: "lg_activate_bundle L (map (ca_id \<circ> snd) cs1) l1 = Some (r2, l2)"
          using def False new prep Inr by (auto split: option.splits)
        show ?thesis
        proof (cases r2)
          case Inl2: (Inl e)
          with def False new prep Inr act have "abort_all L e cs1 l2 = (res, cs', l')" by simp
          from abort_done [OF q this bundle_Inl [OF act [unfolded Inl2]]] show ?thesis .
        next
          case Inr2: (Inr t)
          with def False new prep Inr act have out: "res = Inr t" "l' = l2"
            "cs' = map (\<lambda>(k, c). (k, c\<lparr>ca_stage := TerminalStage, ca_terminal := Some t\<rparr>)) cs1"
            by simp_all
          note b = bundle_Inr [OF act [unfolded Inr2]]
          have "bundle_ok P decided cs' l'"
            using activated_bundle [OF _ prepare_each(2) [OF ok prep Inr] act [unfolded Inr2]] q
            unfolding out by (simp add: bquiet_def)
          moreover have "\<forall>x \<in> set cs'. ca_terminal (snd x) = Some t" by (auto simp: out)
          moreover have "decided l2 x = Some t'" if "decided l x = Some t'" for x t'
            using b q that by (auto simp: bquiet_def)
          ultimately show ?thesis using b by (auto simp: bundle_atomic_def out(1,2))
        qed
      qed
    qed
  qed
qed

lemma start_candidates_ok:
  assumes "start_candidates P L commands cs l = (Inr cs', l')" "bundle_ok P decided cs l"
    and "\<forall>x \<in> set cs. ca_terminal (snd x) = None"
    and "distinct (map cm_command commands)" "fst ` set cs \<inter> cm_command ` set commands = {}"
  shows "bundle_ok P decided cs' l' \<and> (\<forall>x \<in> set cs'. ca_terminal (snd x) = None)
    \<and> fst ` set cs' = fst ` set cs \<union> cm_command ` set commands"
  using assms
proof (induction commands arbitrary: cs l)
  case (Cons command commands)
  from Cons.prems(1) obtain c l1 where new: "candidate_new P L command l = (Inr c, l1)"
    and rest: "start_candidates P L commands (bt_insert (cm_command command) c cs) l1 = (Inr cs', l')"
    by (auto split: prod.splits sum.splits)
  note n = new_agrees [OF new] new_inv [OF new]
  let ?cs = "bt_insert (cm_command command) c cs"
  have notin: "cm_command command \<notin> fst ` set cs" using Cons.prems(5) by auto
  have set: "set ?cs = insert (cm_command command, c) (set cs)" by (rule set_bt_insert [OF notin])
  have "bundle_ok P decided ?cs l1"
    using Cons.prems(2) n unfolding bundle_ok_def set by (auto simp: agrees_def)
  from Cons.IH [OF rest this] Cons.prems(3,4,5) n show ?case
    unfolding set by auto
qed simp

lemma bundle_new_ok:
  assumes "bundle_new P L commands l = (Inr cs, l')"
  shows "bundle_ok P decided cs l' \<and> bundle_atomic cs"
proof -
  let ?cs = "sort_key cm_command commands"
  have "\<not> any_adjacent (\<lambda>a b. cm_command a = cm_command b) ?cs"
    and start: "start_candidates P L ?cs [] l = (Inr cs, l')"
    using assms by (auto simp: bundle_new_def Let_def split: if_splits)
  then have "distinct (map cm_command ?cs)"
    using any_adjacent_eq_sorted [of cm_command ?cs] by simp
  from start_candidates_ok [OF start _ _ this] show ?thesis
    by (auto simp: bundle_ok_def bundle_atomic_def)
qed

end

section \<open>Runs of a bundle\<close>

inductive bundle_step ::
  "('s::field, 'g::ab_group_add) profile \<Rightarrow> 'l log_act \<Rightarrow> ('l \<Rightarrow> command_id \<Rightarrow> terminal option)
     \<Rightarrow> ('s, 'g) inner_bundle \<times> 'l \<Rightarrow> ('s, 'g) inner_bundle \<times> 'l \<Rightarrow> bool"
  for P :: "('s::field, 'g::ab_group_add) profile" and L :: "'l log_act" and decided where
  bs_commit: "bundle_commit P L command role k cs l = (r, cs', l') \<Longrightarrow>
    bundle_step P L decided (cs, l) (cs', l')"
| bs_close_commitments: "bundle_close_commitments L cs l = (r, cs', l') \<Longrightarrow>
    bundle_step P L decided (cs, l) (cs', l')"
| bs_open: "bundle_open P L command opn cs l = (r, cs', l') \<Longrightarrow>
    bundle_step P L decided (cs, l) (cs', l')"
| bs_open_contribution: "bundle_open_contribution P L command n cs l = (r, cs', l') \<Longrightarrow>
    bundle_step P L decided (cs, l) (cs', l')"
| bs_close_openings: "bundle_close_openings P L cs l = (r, cs', l') \<Longrightarrow>
    bundle_step P L decided (cs, l) (cs', l')"
| bs_receipt: "bundle_receipt P L x cs l = (r, cs', l') \<Longrightarrow> bundle_step P L decided (cs, l) (cs', l')"
| bs_activate: "bundle_activate L cs l = Some (r, cs', l') \<Longrightarrow>
    bundle_step P L decided (cs, l) (cs', l')"
| bs_abort: "bundle_abort L cs l = (r, cs', l') \<Longrightarrow> bundle_step P L decided (cs, l) (cs', l')"
| bs_others: "\<forall>x t. decided l x = Some t \<longrightarrow> decided l' x = Some t \<Longrightarrow>
    bundle_step P L decided (cs, l) (cs, l')"

inductive_cases bundle_step_elim: "bundle_step P L decided (cs, l) (cs', l')"

abbreviation bundle_run ::
  "('s::field, 'g::ab_group_add) profile \<Rightarrow> 'l log_act \<Rightarrow> ('l \<Rightarrow> command_id \<Rightarrow> terminal option)
     \<Rightarrow> ('s, 'g) inner_bundle \<times> 'l \<Rightarrow> ('s, 'g) inner_bundle \<times> 'l \<Rightarrow> bool" where
  "bundle_run P L decided \<equiv> (bundle_step P L decided)\<^sup>*\<^sup>*"

context log_contract
begin

lemma bundle_step_invs:
  assumes "bundle_step P L decided (cs, l) (cs', l')" "bundle_ok P decided cs l" "bundle_atomic cs"
  shows "bundle_ok P decided cs' l' \<and> bundle_atomic cs'"
proof -
  have at: "bundle_ok P decided cs' l' \<and> bundle_atomic cs'"
    if "\<And>c l r c' l'. f c l = (r, c', l') \<Longrightarrow> sound P decided c l c' l'"
      and "bundle_at L command f cs l = (r, cs', l')"
    for command and f :: "('a, 'b) candidate \<Rightarrow> _ \<Rightarrow> 'x result \<times> _" and r
    by (rule bquiet_atomic [OF bundle_at_bquiet [OF that(1) assms(2) that(2)] assms(3)])
  have each: "bundle_ok P decided cs' l' \<and> bundle_atomic cs'"
    if "\<And>c l r c' l'. f c l = (r, c', l') \<Longrightarrow> sound P decided c l c' l'"
      and "bundle_each L f cs l = (r, cs', l')"
    for f :: "('a, 'b) candidate \<Rightarrow> _ \<Rightarrow> 'x result \<times> _" and r
    by (rule bquiet_atomic [OF bundle_each_bquiet [OF that(1) assms(2) that(2)] assms(3)])
  from assms(1) show ?thesis
  proof (rule bundle_step_elim)
    fix command role k r assume "bundle_commit P L command role k cs l = (r, cs', l')"
    from at [OF commit_sound this [unfolded bundle_commit_def]] show ?thesis .
  next
    fix r assume "bundle_close_commitments L cs l = (r, cs', l')"
    then obtain r' where "bundle_each L (candidate_close_commitments L) cs l = (r', cs', l')"
      by (auto simp: bundle_close_commitments_def split: prod.splits sum.splits)
    from each [OF close_commitments_sound this] show ?thesis .
  next
    fix command opn r assume "bundle_open P L command opn cs l = (r, cs', l')"
    from at [OF open_sound this [unfolded bundle_open_def]] show ?thesis .
  next
    fix command n r assume "bundle_open_contribution P L command n cs l = (r, cs', l')"
    from at [OF open_contribution_sound this [unfolded bundle_open_contribution_def]] show ?thesis .
  next
    fix r assume "bundle_close_openings P L cs l = (r, cs', l')"
    from each [OF close_openings_sound this [unfolded bundle_close_openings_def]] show ?thesis .
  next
    fix x r assume "bundle_receipt P L x cs l = (r, cs', l')"
    from at [OF receipt_sound this [unfolded bundle_receipt_def]] show ?thesis .
  next
    fix r assume "bundle_activate L cs l = Some (r, cs', l')"
    from bundle_activate_invs [OF assms(2,3) this] show ?thesis by simp
  next
    fix r assume "bundle_abort L cs l = (r, cs', l')"
    then obtain es where "abort_each L (\<lambda>_. True) cs l = (es, cs', l')"
      by (auto simp: bundle_abort_def split: prod.splits list.splits)
    from bquiet_atomic [OF abort_each_bquiet [OF assms(2) this] assms(3)] show ?thesis .
  next
    assume "cs' = cs" "\<forall>x t. decided l x = Some t \<longrightarrow> decided l' x = Some t"
    then show ?thesis using assms(2,3) by (simp add: bundle_ok_def agrees_mono [of decided l l'])
  qed
qed

lemma bundle_run_invs:
  assumes "bundle_run P L decided (cs, l) (cs', l')" "bundle_ok P decided cs l" "bundle_atomic cs"
  shows "bundle_ok P decided cs' l' \<and> bundle_atomic cs'"
  using assms(1)
proof (induction rule: rtranclp_induct2)
  case (step cs1 l1 cs2 l2)
  then show ?case using bundle_step_invs [of P cs1 l1 cs2 l2] by auto
qed (use assms(2,3) in simp)

end

end
