(* ===== verification/Ksnf_Dealing_Claims.thy ===== *)
theory Ksnf_Dealing_Claims
  imports Ksnf_Outer_Demo Ksnf_Activation_Proofs Ksnf_Bundle_Proofs
begin

text \<open>
  The guarantees of a redistribution: of the transcript and its decision, of the shares the
  targets end up with, and of the registry that installs them.
\<close>

section \<open>Decisions\<close>

text \<open>
  C9. A candidate never disagrees with the log: whatever the order of its operations and of
  other users of the log, a decision it reports is the log's decision on its command, and an
  activated candidate has a matching opening of every role and a receipt for its view from every
  target.
\<close>

theorem candidate_decision_sound:
  assumes "candidate_new P memory_act cmd l0 = (Inr c0, l1)"
    and "cand_run P memory_act memory_decided (c0, l1) (c, l)" "ca_terminal c = Some t"
  shows "memory_decided l (cm_command cmd) = Some t \<and> (\<forall>h. t = Activated h \<longrightarrow> candidate_complete P c)"
proof -
  note n = memory.new_inv [OF assms(1)] memory.new_agrees [OF assms(1)]
  from memory.run_invs [OF assms(2)] n have inv: "cand_inv P c" "agrees memory_decided l c" "ca_command c = cmd"
    by auto
  have "candidate_complete P c" if "t = Activated h" for h
    using inv(1) assms(3) that by (intro inv_complete) (auto simp: cand_inv_def stage_inv_def)
  with inv(2,3) assms(3) show ?thesis by (simp add: agrees_def)
qed

theorem candidate_decision_sound_witness:
  "\<exists>c l h. ca_terminal c = Some (Activated h) \<and> memory_decided l (Ident 61) = Some (Activated h)
     \<and> candidate_complete toy_profile (c :: (gf7, gf7) candidate)"
proof -
  obtain c0 l0 h c l v where
    "candidate_new toy_profile memory_act (demo_redistribution (Ident 60) (Ident 61)) demo_scopes = (Inr c0, l0)"
    "cand_run toy_profile memory_act memory_decided (c0, l0) (c, l)" "ca_terminal c = Some (Activated h)"
    by (rule demo_activates)
  from candidate_decision_sound [OF this] this(3) show ?thesis
    by (auto simp: demo_redistribution_def)
qed

text \<open>
  C14. A bundle decides as one: in any run either every component is activated, under one handle,
  or none is; the log holds every decision a component reports; and activated components are
  complete.
\<close>

theorem bundle_decision_atomic:
  assumes "bundle_new P memory_act commands l0 = (Inr cs0, l1)"
    and "bundle_run P memory_act memory_decided (cs0, l1) (cs, l)"
  shows "((\<exists>h. \<forall>x \<in> set cs. ca_terminal (snd x) = Some (Activated h))
      \<or> (\<forall>x \<in> set cs. \<forall>h. ca_terminal (snd x) \<noteq> Some (Activated h)))
    \<and> (\<forall>x \<in> set cs. \<forall>t. ca_terminal (snd x) = Some t \<longrightarrow> memory_decided l (fst x) = Some t
        \<and> (\<forall>h. t = Activated h \<longrightarrow> candidate_complete P (snd x)))"
proof -
  note n = memory.bundle_new_ok [OF assms(1)]
  from memory.bundle_run_invs [OF assms(2)] n have inv: "bundle_ok P memory_decided cs l" "bundle_atomic cs"
    by auto
  have "memory_decided l (fst x) = Some t \<and> (\<forall>h. t = Activated h \<longrightarrow> candidate_complete P (snd x))"
    if x: "x \<in> set cs" and t: "ca_terminal (snd x) = Some t" for x t
  proof -
    from inv(1) x have i: "ca_id (snd x) = fst x" "agrees memory_decided l (snd x)" "cand_inv P (snd x)"
      by (auto simp: bundle_ok_def)
    have "candidate_complete P (snd x)" if "t = Activated h" for h
      using i(3) t that by (intro inv_complete) (auto simp: cand_inv_def stage_inv_def)
    with i t show ?thesis by (simp add: agrees_def)
  qed
  with inv(2) show ?thesis by (auto simp: bundle_atomic_def)
qed

lemma demo_bundle:
  obtains cs0 l1 cs l where
    "bundle_new toy_profile memory_act [demo_redistribution (Ident 63) (Ident 65),
       demo_redistribution (Ident 60) (Ident 61)] demo_scopes = (Inr cs0, l1)"
    "bundle_abort memory_act cs0 l1 = (Inr Aborted, cs, l)" "map fst cs = [Ident 61, Ident 65]"
    "\<forall>x \<in> set cs. ca_terminal (snd x) = Some Aborted"
proof -
  obtain b1 where b1: "command_to_bytes toy_profile (demo_redistribution (Ident 60) (Ident 61)) = Inr b1"
    using demo_command_bytes by blast
  obtain b2 where b2: "command_to_bytes toy_profile (demo_redistribution (Ident 63) (Ident 65)) = Inr b2"
    using demo_command_bytes by blast
  have ids: "cm_command (demo_redistribution s k) = k" "cm_scope (demo_redistribution s k) = s"
    "cm_predecessor (demo_redistribution s k) = Ident 62"
    "cm_shape (demo_redistribution s k) = SingleShape demo_shape" for s k
    by (simp_all add: demo_redistribution_def)
  have "\<exists>cs0 l1 cs l. bundle_new toy_profile memory_act [demo_redistribution (Ident 63) (Ident 65),
       demo_redistribution (Ident 60) (Ident 61)] demo_scopes = (Inr cs0, l1)
    \<and> bundle_abort memory_act cs0 l1 = (Inr Aborted, cs, l) \<and> map fst cs = [Ident 61, Ident 65]
    \<and> (\<forall>x \<in> set cs. ca_terminal (snd x) = Some Aborted)"
    by (simp add: bundle_new_def ids less_eq_ident_def less_ident_def candidate_new_def b1 b2 memory_act_def
        log_begin_def put_transcript_def bundle_abort_def candidate_abort_def log_abort_def)
  then show thesis by (elim exE conjE) (rule that)
qed

theorem bundle_decision_atomic_witness:
  "\<exists>cs :: (gf7, gf7) inner_bundle. \<exists>l. map fst cs = [Ident 61, Ident 65]
     \<and> (\<forall>x \<in> set cs. memory_decided l (fst x) = Some Aborted)"
proof -
  obtain cs0 l1 cs l where new: "bundle_new toy_profile memory_act [demo_redistribution (Ident 63) (Ident 65),
       demo_redistribution (Ident 60) (Ident 61)] demo_scopes = (Inr cs0, l1)"
    and ab: "bundle_abort memory_act cs0 l1 = (Inr Aborted, cs, l)"
    and cs: "map fst cs = [Ident 61, Ident 65]" "\<forall>x \<in> set cs. ca_terminal (snd x) = Some Aborted"
    by (rule demo_bundle)
  have "bundle_run toy_profile memory_act memory_decided (cs0, l1) (cs, l)"
    using bs_abort [OF ab] by blast
  from bundle_decision_atomic [OF new this] cs(2)
  have "\<forall>x \<in> set cs. memory_decided l (fst x) = Some Aborted" by blast
  with cs(1) show ?thesis by (intro exI [of _ cs] exI [of _ l]) simp
qed

text \<open>
  C13. Honest redistributions activate: when every role posts its commitment and a matching valid
  opening, in any order, and every target answers the view, the transcript activates under a
  fresh handle, which becomes the current handle of its scope. The openings' aggregate is valid
  for the anchor by the command's own checks.
\<close>

theorem honest_redistribution_activates:
  assumes "group_ok P" "command_new scope command predecessor anchor shape specs = Inr cmd"
    and "specs_made P specs" "deal_honest P cmd ks os ts"
    and "candidate_new P memory_act cmd l0 = (Inr c, l)" "ml_transcripts l0 command = None"
    and "finite (ml_handles l0)" "card (ml_handles l0) < 2 ^ 64"
  shows "\<exists>h c' l'. complete_run P memory_act ks os ts c l = Some (Inr (Activated h), c', l')
    \<and> h \<notin> ml_handles l0 \<and> log_current scope l' = Some h \<and> ca_terminal c' = Some (Activated h)"
  using complete_run_activates [OF assms(1,2) specs_made_ok [OF assms(3)] assms(4-8)] by blast

theorem honest_redistribution_activates_witness:
  "\<exists>c l h c' l'. complete_run toy_profile memory_act demo_commitments demo_deals demo_answers c l =
      Some (Inr (Activated h), c', l') \<and> log_current (Ident 60) l' = Some h"
proof -
  obtain c l where
    "candidate_new toy_profile memory_act (demo_redistribution (Ident 60) (Ident 61)) demo_scopes = (Inr c, l)"
    using demo_start by blast
  from honest_redistribution_activates [OF toy_group_ok demo_command_new demo_specs_made demo_honest this]
  obtain h c' l' where "complete_run toy_profile memory_act demo_commitments demo_deals demo_answers c l =
      Some (Inr (Activated h), c', l')" "log_current (Ident 60) l' = Some h" by auto
  then show ?thesis by blast
qed

section \<open>Shares\<close>

text \<open>
  C23. A target that accepted a share of every role of the command finishes: its new share is the
  sum of what it accepted, its receipt names the view, and once the log activates, the share
  resolves to one that matches the aggregated points.
\<close>

theorem accumulator_completes:
  assumes "group_ok P" "command_new scope command predecessor anchor shape specs = Inr cmd"
    and "specs_made P specs" "viewed P cmd c v" "accumulator_new v t = Inr a0"
    and "\<forall>r \<in> set (cm_roles cmd). map_of (ta_shares (receive_all P shares a0)) (sp_role r) \<noteq> None"
  shows "\<exists>p. accumulator_finish P (receive_all P shares a0) =
      Inr (\<lparr>tr_command = command, tr_target = t, tr_view = vw_bytes v\<rparr>, p)
    \<and> pn_share p = (\<Sum>x\<leftarrow>ta_shares (receive_all P shares a0). snd x)
    \<and> (\<forall>h. \<exists>s. pending_resolve P p (Activated h) = Inr (Some s) \<and> share_resolved P s)"
proof -
  let ?a = "receive_all P shares a0"
  note n = command_new_Inr [OF assms(2) specs_made_ok [OF assms(3)]]
  note v = viewed_view [OF assms(4,2) specs_made_ok [OF assms(3)]]
  from receive_all_inv [of P a0 shares] accumulator_new_inv [OF assms(5), of P]
  have a: "accumulator_inv P ?a" "ta_view ?a = v" "ta_target ?a = t" by auto
  have roles: "sp_role ` set (cm_roles cmd) = do_role ` set (vw_openings v)"
    using v(2) by (metis list.set_map)
  have "fst ` set (ta_shares ?a) = sp_role ` set (cm_roles cmd)"
  proof
    show "fst ` set (ta_shares ?a) \<subseteq> sp_role ` set (cm_roles cmd)"
      using a(1,2) by (auto simp: accumulator_inv_def roles view_opening_def ok_or_Inr_iff
          dest!: search_key_SomeD bspec)
    show "sp_role ` set (cm_roles cmd) \<subseteq> fst ` set (ta_shares ?a)"
      using assms(6) by (auto simp: map_of_eq_None_iff)
  qed
  then have keys: "map fst (ta_shares ?a) = map sp_role (cm_roles cmd)"
    using a(1) n by (intro strict_sorted_equal) (simp_all add: accumulator_inv_def)
  from accumulated_sum [OF assms(1) a(1)] keys v a(2,3) n
  have "points_evaluate P (vw_aggregate v) shape t =
      Inr (element_from_scalar P (\<Sum>x\<leftarrow>ta_shares ?a. snd x))" by simp
  moreover have "length (ta_shares ?a) = length (cm_roles cmd)" using map_eq_imp_length_eq [OF keys] .
  moreover have "\<not> list_ex (\<lambda>r. map_of (ta_shares ?a) (sp_role r) = None) (cm_roles cmd)"
    using assms(6) by (auto simp: list_ex_iff)
  ultimately have fin: "accumulator_finish P ?a = Inr (\<lparr>tr_command = command, tr_target = t, tr_view = vw_bytes v\<rparr>,
      \<lparr>pn_target = t, pn_shape = shape, pn_share = (\<Sum>x\<leftarrow>ta_shares ?a. snd x),
       pn_public = element_from_scalar P (\<Sum>x\<leftarrow>ta_shares ?a. snd x), pn_points = vw_aggregate v\<rparr>)"
    using v(1) a(2,3) n by (simp add: accumulator_finish_def foldl_shares Let_def)
  show ?thesis
    unfolding fin using \<open>points_evaluate P (vw_aggregate v) shape t = _\<close>
    by (simp add: share_resolved_def)
qed

theorem accumulator_completes_witness:
  "\<exists>v a p. accumulator_new v (TargetSingle (Ident 20)) = Inr a
     \<and> accumulator_finish toy_profile (receive_all toy_profile
          (demo_deliveries_to (TargetSingle (Ident 20)) 1) a) =
        Inr (\<lparr>tr_command = Ident 61, tr_target = TargetSingle (Ident 20), tr_view = vw_bytes v\<rparr>, p)
     \<and> pn_share p = gf 5"
proof -
  obtain c v where v: "viewed toy_profile (demo_redistribution (Ident 60) (Ident 61)) c v"
    "vw_openings v = sort_key do_role demo_deals" by (rule demo_activates)
  have t: "(Ident 20, 1) \<in> {(Ident 20, 1), (Ident 21, 2::int)}" by simp
  note acc = demo_accumulate [OF v t]
  have "\<forall>r \<in> set (cm_roles (demo_redistribution (Ident 60) (Ident 61))). map_of (ta_shares
      (receive_all toy_profile (demo_deliveries_to (TargetSingle (Ident 20)) 1)
        \<lparr>ta_view = v, ta_target = TargetSingle (Ident 20), ta_shares = []\<rparr>)) (sp_role r) \<noteq> None"
    unfolding acc(2)
    by (simp add: demo_redistribution_def demo_specs_def role_refresher_def demo_accumulated_def)
  from accumulator_completes [OF toy_group_ok demo_command_new demo_specs_made v(1) acc(1) this]
  obtain p where "accumulator_finish toy_profile (receive_all toy_profile
        (demo_deliveries_to (TargetSingle (Ident 20)) 1)
        \<lparr>ta_view = v, ta_target = TargetSingle (Ident 20), ta_shares = []\<rparr>) =
      Inr (\<lparr>tr_command = Ident 61, tr_target = TargetSingle (Ident 20), tr_view = vw_bytes v\<rparr>, p)"
    "pn_share p = (\<Sum>x\<leftarrow>ta_shares (demo_accumulated v (TargetSingle (Ident 20)) 1). snd x)"
    unfolding acc(2) by blast
  moreover from this(2) have "pn_share p = gf 5" by (simp add: demo_accumulated_def)
  ultimately show ?thesis using acc(1) by blast
qed

text \<open>
  C30. What an honest contributor deals is accepted: its opening passes every check of a candidate
  that holds its commitment, and the share it makes for a target is received by that target.
\<close>

theorem contribution_accepted:
  assumes "group_ok P"
    and "contribution_source P draw cmd device secret rng = (Inr n, rng')
      \<or> contribution_refresher P draw cmd device rng = (Inr n, rng')"
  shows "(\<forall>c. ca_command c = cmd \<and> map_of (ca_commitments c) (cn_role n) = Some (cn_commitment n) \<longrightarrow>
        check_opening P c (contribution_opening n) = deal_opening_to_bytes P (contribution_opening n))
    \<and> (\<forall>t s a. contribution_share n cmd t = Inr s \<and> vw_command (ta_view a) = cmd \<and> ta_target a = t
        \<and> view_opening (ta_view a) (cn_role n) = Inr (contribution_opening n)
        \<and> map_of (ta_shares a) (cn_role n) = None \<longrightarrow>
        accumulator_receive P s a =
          (Inr (), a\<lparr>ta_shares := bt_insert (cn_role n) (ps_value s) (ta_shares a)\<rparr>))"
proof -
  from contribution_made [OF assms(2)] obtain spec where n: "command_role cmd (cn_role n) = Inr spec"
    "cn_command n = cm_command cmd" "cn_points n = block_points P (cn_block n)"
    "points_validate P (cn_points n) (cm_shape cmd) (sp_constant spec) = Inr ()"
    "deal_opening_commitment P (contribution_opening n) cmd = Inr (cn_commitment n)" by blast
  have role: "do_role (contribution_opening n) = cn_role n" "do_points (contribution_opening n) = cn_points n"
    by (simp_all add: contribution_opening_def)
  note dealt = block_evaluates [OF assms(1), of "cn_block n" "cm_shape cmd", unfolded block_dealt_def, rule_format]
  show ?thesis
    using n role dealt
    by (auto simp: check_opening_def contribution_share_def accumulator_receive_def and_then_Inr_iff
        if_Inl_eq_Inr)
qed

theorem contribution_accepted_witness:
  "\<exists>n s a. contribution_source toy_profile demo_draw (demo_redistribution (Ident 60) (Ident 61))
        (Ident 50) (gf 2) () = (Inr n, ())
     \<and> contribution_share n (demo_redistribution (Ident 60) (Ident 61)) (TargetSingle (Ident 20)) = Inr s
     \<and> fst (accumulator_receive toy_profile s a) = Inr ()"
proof -
  let ?cmd = "demo_redistribution (Ident 60) (Ident 61)" and ?t = "TargetSingle (Ident 20)"
  obtain c v where v: "viewed toy_profile ?cmd c v" "vw_openings v = sort_key do_role demo_deals"
    by (rule demo_activates)
  let ?a = "\<lparr>ta_view = v, ta_target = ?t, ta_shares = []\<rparr>"
  have made: "contribution_source toy_profile demo_draw ?cmd (Ident 50) (gf 2) () = (Inr demo_contribution, ())"
    by (rule demo_contributes)
  have share: "contribution_share demo_contribution ?cmd ?t =
      Inr \<lparr>ps_command = Ident 61, ps_role = RoleSource (Ident 50), ps_target = ?t, ps_value = gf 3\<rparr>"
    by (rule demo_contribution_share)
  have "view_opening v (cn_role demo_contribution) = Inr (contribution_opening demo_contribution)"
    unfolding view_opening_def v(2) demo_sorted
    by (simp add: demo_contribution_def contribution_opening_def demo_deal_def)
  with contribution_accepted [OF toy_group_ok disjI1 [OF made]] share
    viewed_view(1) [OF v(1) demo_command_new specs_made_ok [OF demo_specs_made]]
  have "accumulator_receive toy_profile \<lparr>ps_command = Ident 61, ps_role = RoleSource (Ident 50),
      ps_target = ?t, ps_value = gf 3\<rparr> ?a =
      (Inr (), ?a\<lparr>ta_shares := bt_insert (cn_role demo_contribution) (gf 3) []\<rparr>)" by simp
  then have "fst (accumulator_receive toy_profile \<lparr>ps_command = Ident 61, ps_role = RoleSource (Ident 50),
      ps_target = ?t, ps_value = gf 3\<rparr> ?a) = Inr ()" by simp
  with made share show ?thesis by blast
qed

text \<open>
  C25. A redistribution keeps the secret: under a single shape, the finished shares of any devices,
  as many as the new threshold, interpolate to a secret whose public point is the anchor the
  command named, whoever contributed.
\<close>

theorem redistribution_reconstructs:
  assumes "group_ok P" "single_shape_new threshold targets = Inr shape"
    and "command_new scope command predecessor anchor (SingleShape shape) specs = Inr cmd"
    and "specs_made P specs" "viewed P cmd c v"
    and "distinct devices" "unat threshold \<le> length devices"
    and "list_all2 (\<lambda>d p. target_finishes P v (TargetSingle d) p) devices ps"
  shows "\<exists>s. interpolates shape devices ps s \<and> element_from_scalar P s = anchor"
proof -
  note n = command_new_Inr [OF assms(3) specs_made_ok [OF assms(4)]]
  note v = viewed_view [OF assms(5,3) specs_made_ok [OF assms(4)]]
  from v(4) single_shape_new_Inr [OF assms(2)] obtain gs where gs: "vw_aggregate v = SinglePoints gs"
    "length gs = unat threshold" "first_point gs = Some anchor"
    by (auto simp: points_validate_Single)
  have eval: "\<exists>t. search_key td_device d (ss_devices shape) = Some t
      \<and> element_from_scalar P (pn_share p) = evaluate_commitments P gs (td_node t)"
    if "target_finishes P v (TargetSingle d) p" for d p
    using target_finishes_evaluates [OF that] v(1) n gs(1)
    by (auto simp: points_evaluate_def and_then_Inr_iff shape_device_def ok_or_Inr_iff)
  have "list_all2 (\<lambda>d s. \<exists>t. search_key td_device d (ss_devices shape) = Some t
      \<and> element_from_scalar P s = evaluate_commitments P gs (td_node t)) devices (map pn_share ps)"
    using assms(8) by (simp add: list_all2_conv_all_nth eval)
  from row_reconstructs [OF assms(1) gs(3) _ assms(6) _ this] gs(2) assms(7) single_shape_new_Inr [OF assms(2)]
  show ?thesis by (auto simp: interpolates_def shape_device_def ok_or_Inr_iff)
qed

theorem redistribution_reconstructs_witness:
  "\<exists>s. interpolates demo_shape [Ident 21, Ident 20]
      [demo_pending (TargetSingle (Ident 21)) 2, demo_pending (TargetSingle (Ident 20)) 1] s
    \<and> element_from_scalar toy_profile s = gf 2"
proof -
  obtain c v where v: "viewed toy_profile (demo_redistribution (Ident 60) (Ident 61)) c v"
    "vw_openings v = sort_key do_role demo_deals" by (rule demo_activates)
  have "target_finishes toy_profile v (TargetSingle d) (demo_pending (TargetSingle d) n)"
    if "(d, n) \<in> {(Ident 20, 1), (Ident 21, 2)}" for d n
    unfolding target_finishes_def using demo_accumulate [OF v that] by metis
  then show ?thesis
    by (intro redistribution_reconstructs [OF toy_group_ok demo_shape_new demo_command_new demo_specs_made v(1)])
      simp_all
qed

text \<open>
  C6. The same at both levels of an outer shape: enough devices of a person interpolate to that
  person's member secret, and the member secrets of enough people interpolate to a secret behind
  the anchor.
\<close>

theorem redistribution_reconstructs_nested:
  assumes "group_ok P" "outer_shape_new threshold targets = Inr shape"
    and "\<forall>t \<in> set targets. \<exists>k ds. single_shape_new k ds = Inr (ot_inner t)"
    and "command_new scope command predecessor anchor (OuterShape shape) specs = Inr cmd"
    and "specs_made P specs" "viewed P cmd c v"
    and "distinct people" "unat threshold \<le> length people"
    and "list_all2 (\<lambda>q t. shape_person shape q = Inr t) people outer"
    and "\<forall>q \<in> set people. distinct (devices q)
      \<and> list_all2 (\<lambda>d p. target_finishes P v (TargetOuter q d) p) (devices q) (ps q)"
    and "\<forall>t \<in> set outer. unat (ss_threshold (ot_inner t)) \<le> length (devices (ot_person t))"
  shows "\<exists>ms s. list_all2 (\<lambda>t m. interpolates (ot_inner t) (devices (ot_person t)) (ps (ot_person t)) m)
      outer ms
    \<and> interpolate_constant (map ot_node outer) ms = Inr s \<and> element_from_scalar P s = anchor"
proof -
  note n = command_new_Inr [OF assms(4) specs_made_ok [OF assms(5)]]
  note v = viewed_view [OF assms(6,4) specs_made_ok [OF assms(5)]]
  note sh = outer_shape_new_Inr [OF assms(2)]
  from v(4) sh obtain gs rows where gs: "vw_aggregate v = OuterPoints gs rows"
    "length gs = unat threshold" "first_point gs = Some anchor"
    and rows: "list_all2 (member_valid P gs) rows (oh_people shape)"
    by (auto simp: points_validate_Outer)
  have outer: "search_key ot_person (ot_person t) (oh_people shape) = Some t" "ot_person t \<in> set people"
    if "t \<in> set outer" for t
    using assms(9) that
    by (induction rule: list_all2_induct) (auto simp: shape_person_def ok_or_Inr_iff dest: search_key_SomeD)
  have member: "\<exists>m. interpolates (ot_inner t) (devices (ot_person t)) (ps (ot_person t)) m
      \<and> element_from_scalar P m = evaluate_commitments P gs (ot_node t)" if t: "t \<in> set outer" for t
  proof -
    have "t \<in> set targets" using search_key_SomeD [OF outer(1) [OF t]] sh by simp
    then obtain k ds where "single_shape_new k ds = Inr (ot_inner t)" using assms(3) by blast
    from member_reconstructs [OF assms(1) rows outer(1) [OF t] this gs(1)] show ?thesis
      using t outer(2) [OF t] assms(10,11) v(1) n by simp
  qed
  then have "\<forall>t \<in> set outer. \<exists>m. interpolates (ot_inner t) (devices (ot_person t)) (ps (ot_person t)) m
      \<and> element_from_scalar P m = evaluate_commitments P gs (ot_node t)" by blast
  from bchoice [OF this] obtain f where f: "\<forall>t \<in> set outer.
      interpolates (ot_inner t) (devices (ot_person t)) (ps (ot_person t)) (f t)
      \<and> element_from_scalar P (f t) = evaluate_commitments P gs (ot_node t)" by blast
  have "distinct (map ot_node outer)"
    by (rule distinct_found [where f = ot_person and ts = "oh_people shape" and ks = people])
      (use sh assms(7,9) in \<open>simp_all add: shape_person_def ok_or_Inr_iff\<close>)
  moreover have "list_all2 (\<lambda>n s. element_from_scalar P s = evaluate_commitments P gs n)
      (map ot_node outer) (map f outer)"
    using f by (simp add: list_all2_conv_all_nth)
  ultimately have "\<exists>s. interpolate_constant (map ot_node outer) (map f outer) = Inr s
      \<and> element_from_scalar P s = hd gs"
    using gs assms(8) list_all2_lengthD [OF assms(9)]
    by (intro interpolate_public [OF assms(1)]) (auto simp: first_point_Some)
  moreover have "list_all2 (\<lambda>t m. interpolates (ot_inner t) (devices (ot_person t)) (ps (ot_person t)) m)
      outer (map f outer)"
    using f by (simp add: list_all2_conv_all_nth)
  ultimately show ?thesis using gs(3) by (auto simp: first_point_Some)
qed

theorem redistribution_reconstructs_nested_witness:
  "\<exists>ms s. interpolate_constant [gf 2, gf 1] ms = Inr s \<and> element_from_scalar toy_profile s = gf 2
    \<and> interpolates demo_one [Ident 30] [demo_outer_pending (TargetOuter (Ident 2) (Ident 30)) 2] (hd ms)"
proof -
  obtain c v where v: "viewed toy_profile demo_outer_command c v" "vw_openings v = demo_outer_deals"
    by (rule demo_outer_viewed)
  note fin = demo_outer_finishes [OF v]
  let ?devices = "\<lambda>q :: person_id. if q = Ident 1 then [Ident 20, Ident 21] else [Ident 30 :: device_id]"
  let ?ps = "\<lambda>q. if q = Ident 1 then [demo_outer_pending (TargetOuter q (Ident 20)) 2,
      demo_outer_pending (TargetOuter q (Ident 21)) 3] else [demo_outer_pending (TargetOuter q (Ident 30)) 2]"
  have inner: "\<forall>t \<in> set (rev demo_people_targets). \<exists>k ds. single_shape_new k ds = Inr (ot_inner t)"
    using demo_shape_new demo_one_new by (auto simp: demo_people_targets_def)
  have "\<exists>ms s. list_all2 (\<lambda>t m. interpolates (ot_inner t) (?devices (ot_person t)) (?ps (ot_person t)) m)
      (rev demo_people_targets) ms
    \<and> interpolate_constant (map ot_node (rev demo_people_targets)) ms = Inr s
    \<and> element_from_scalar toy_profile s = gf 2"
    by (rule redistribution_reconstructs_nested [OF toy_group_ok demo_outer_shape_new inner
        demo_outer_command_new demo_outer_specs_made v(1), of "[Ident 2, Ident 1]"])
      (simp_all add: fin demo_people_targets_def demo_outer_shape_def shape_person_def demo_shape_def demo_one_def)
  then show ?thesis by (auto simp: demo_people_targets_def list_all2_Cons1)
qed

section \<open>Installation\<close>

text \<open>
  C18. Activation keeps the registry's shares true to its maps: shares that resolved against their
  points leave a registry whose identity and vault shares verify under the commitments it holds,
  with the same vault keys, and a refused activation changes nothing.
\<close>

theorem activation_keeps_shares:
  assumes "group_ok P" "registry_shares P r" "bt_sorted (lr_vaults r)"
    and "share_resolved P identity \<and> (\<forall>x \<in> set members. share_resolved P (snd x))
        \<and> leaf_activate_inner_bundle P identity members r = (res, r')
      \<or> share_resolved P member \<and> leaf_activate_outer P epoch member r = (res, r')"
  shows "registry_shares P r' \<and> vault_keys r' = vault_keys r \<and> (\<forall>e. res = Inl e \<longrightarrow> r' = r)"
  using assms(4)
proof
  assume inner: "share_resolved P identity \<and> (\<forall>x \<in> set members. share_resolved P (snd x))
      \<and> leaf_activate_inner_bundle P identity members r = (res, r')"
  show ?thesis
  proof (cases res)
    case (Inl e)
    with inner assms(2) show ?thesis by (auto simp: leaf_activate_inner_bundle_def split: sum.splits)
  next
    case (Inr u)
    with inner activate_inner_shares [OF assms(1,2), of identity members r']
      activate_inner_keys [of P identity members r r'] show ?thesis by simp
  qed
next
  assume outer: "share_resolved P member \<and> leaf_activate_outer P epoch member r = (res, r')"
  show ?thesis
  proof (cases res)
    case (Inl e)
    with outer assms(2) show ?thesis by (auto simp: leaf_activate_outer_def Let_def split: sum.splits)
  next
    case (Inr u)
    with outer activate_outer_shares [OF assms(1,2) _ assms(3), of member epoch r']
      activate_outer_keys [of P epoch member r r'] show ?thesis by simp
  qed
qed

text \<open>Two activations of the fixture's registry: new inner shares, then a new outer block.\<close>

definition demo_installed :: "activation_handle \<Rightarrow> int \<Rightarrow> (gf7, gf7) installed_share" where
  "demo_installed handle k = \<lparr>in_target = TargetSingle (Ident 20), in_shape = SingleShape demo_shape,
     in_handle = handle, in_share = gf (k + 3), in_public = gf (k + 3), in_points = SinglePoints [gf k, gf 3]\<rparr>"

definition demo_installed_epoch :: key_epoch where
  "demo_installed_epoch = \<lparr>ke_outer = 3, ke_inner = 1, ke_anchor = \<lparr>an_vault = Ident 9, an_person = Ident 1,
     an_identity = Ident 90, an_member = Ident 90\<rparr>\<rparr>"

lemma demo_resolved:
  "share_resolved toy_profile (demo_installed handle k)" "share_resolved toy_profile demo_installed_outer"
  by (simp_all add: share_resolved_def demo_installed_def demo_installed_outer_def points_evaluate_def
      demo_shape_def demo_targets_def shape_device_def shape_person_def demo_outer_shape_def
      demo_people_targets_def evaluate_commitments_def gf_zero add.commute)

lemma demo_leaf_shares: "registry_shares toy_profile demo_leaf" "bt_sorted (lr_vaults demo_leaf)"
  by (simp_all add: registry_shares_def demo_leaf_def demo_vault_def evaluate_commitments_def gf_zero
      signing_share_def first_point_def)

lemma demo_inner_activation:
  obtains r where "leaf_activate_inner_bundle toy_profile (demo_installed (Ident 90) 2)
      [(demo_installed_epoch, demo_installed (Ident 90) 1)] demo_leaf = (Inr (), r)"
proof -
  have "\<exists>x. inner_bundle_install toy_profile demo_leaf (demo_installed (Ident 90) 2)
      [(demo_installed_epoch, demo_installed (Ident 90) 1)] = Inr x"
    by (simp add: inner_bundle_install_def demo_installed_def demo_leaf_def demo_vault_def identity_map_of_def
      demo_shape_def demo_targets_def points_evaluate_def shape_device_def target_node_def first_point_def
      demo_installed_epoch_def member_map_of_def)
  then have "\<exists>r. leaf_activate_inner_bundle toy_profile (demo_installed (Ident 90) 2)
      [(demo_installed_epoch, demo_installed (Ident 90) 1)] demo_leaf = (Inr (), r)"
    by (auto simp: leaf_activate_inner_bundle_def)
  then show thesis by (elim exE) (rule that)
qed

theorem activation_keeps_shares_witness:
  "\<exists>r r'. leaf_activate_inner_bundle toy_profile (demo_installed (Ident 90) 2)
      [(demo_installed_epoch, demo_installed (Ident 90) 1)] demo_leaf = (Inr (), r)
    \<and> leaf_activate_outer toy_profile demo_outer_epoch demo_installed_outer demo_leaf = (Inr (), r')
    \<and> registry_shares toy_profile r \<and> registry_shares toy_profile r'
    \<and> vault_keys r = [(Ident 9, gf 5)]"
proof -
  obtain r r' where act: "leaf_activate_inner_bundle toy_profile (demo_installed (Ident 90) 2)
      [(demo_installed_epoch, demo_installed (Ident 90) 1)] demo_leaf = (Inr (), r)"
    and out: "leaf_activate_outer toy_profile demo_outer_epoch demo_installed_outer demo_leaf = (Inr (), r')"
    by (rule demo_inner_activation, rule demo_outer_activation)
  note keeps = activation_keeps_shares [OF toy_group_ok demo_leaf_shares]
  have "registry_shares toy_profile r \<and> vault_keys r = vault_keys demo_leaf \<and> (\<forall>e. (Inr () :: unit result) = Inl e \<longrightarrow> r = demo_leaf)"
    by (rule keeps [where identity = "demo_installed (Ident 90) 2"
          and members = "[(demo_installed_epoch, demo_installed (Ident 90) 1)]"])
      (simp add: act demo_resolved)
  moreover have "registry_shares toy_profile r' \<and> vault_keys r' = vault_keys demo_leaf \<and> (\<forall>e. (Inr () :: unit result) = Inl e \<longrightarrow> r' = demo_leaf)"
    by (rule keeps [where member = demo_installed_outer and epoch = demo_outer_epoch])
      (simp add: out demo_resolved)
  moreover have "vault_keys demo_leaf = [(Ident 9, gf 5)]" by (simp add: vault_keys_def demo_leaf_def demo_vault_def)
  ultimately show ?thesis using act out by (intro exI [of _ r] exI [of _ r']) simp
qed

end
