(* ===== verification/Ksnf_Record.thy ===== *)
theory Ksnf_Record
  imports Ksnf_Activation
begin

text \<open>
  The storage records of a leaf (\<open>src/leaf/store/record.rs\<close>): the immutable secret material, with
  the checks a decoded record passes, and the fixed-size journal. SHA-256 is the parameter
  \<open>sha256\<close>.
\<close>

section \<open>Journals\<close>

record leaf_journal =
  lj_device :: device_id
  lj_material :: material_id
  lj_next_sequence :: u64
  lj_live :: "leaf_attempt option"

definition leaf_journal_new ::
  "device_id \<Rightarrow> material_id \<Rightarrow> u64 \<Rightarrow> leaf_attempt option \<Rightarrow> leaf_journal result" where
  "leaf_journal_new device material next_sequence live =
     and_then (case live of
         None \<Rightarrow> Inr ()
       | Some attempt \<Rightarrow>
           if la_device attempt \<noteq> device then Inl ParticipantMismatch
           else if checked_succ (la_sequence attempt) \<noteq> Some next_sequence then Inl InvalidTranscript
           else Inr ()) (\<lambda>_.
     Inr \<lparr>lj_device = device, lj_material = material, lj_next_sequence = next_sequence,
          lj_live = live\<rparr>)"

definition journal_is_closed :: "leaf_journal \<Rightarrow> leaf_attempt \<Rightarrow> bool" where
  "journal_is_closed j attempt \<longleftrightarrow> la_device attempt = lj_device j
     \<and> la_sequence attempt < lj_next_sequence j \<and> lj_live j \<noteq> Some attempt"

definition journal_from_registry ::
  "material_id \<Rightarrow> ('s, 'g) leaf_registry \<Rightarrow> leaf_journal result" where
  "journal_from_registry material r =
     leaf_journal_new (lr_device r) material (lr_next_sequence r) (leaf_live_attempt r)"

definition encode_journal :: "('s, 'g) profile \<Rightarrow> leaf_journal \<Rightarrow> bytes" where
  "encode_journal P j =
     pf_journal_magic P @ ident_bytes (lj_device j) @ ident_bytes (lj_material j)
     @ put_u64 (lj_next_sequence j)
     @ (case lj_live j of
          None \<Rightarrow> replicate 9 0
        | Some attempt \<Rightarrow> 1 # put_u64 (la_sequence attempt))"

definition journal_live_getter :: "device_id \<Rightarrow> leaf_attempt option getter" where
  "journal_live_getter device =
     get_then get_u8 (\<lambda>live_tag. get_then get_u64 (\<lambda>live_sequence.
     get_result (if live_tag = 0 \<and> live_sequence = 0 then Inr None
       else if live_tag = 1
         then Inr (Some \<lparr>la_device = device, la_sequence = live_sequence\<rparr>)
       else Inl InvalidTranscript)))"

definition journal_getter ::
  "('s, 'g) profile \<Rightarrow> (device_id \<times> material_id \<times> u64 \<times> leaf_attempt option) getter" where
  "journal_getter P =
     get_then (get_fixed 8) (\<lambda>magic.
     get_then (get_ensure ProtocolMismatch (magic = pf_journal_magic P)) (\<lambda>_.
     get_then get_ident (\<lambda>device. get_then get_ident (\<lambda>material. get_then get_u64 (\<lambda>next_sequence.
     get_then (journal_live_getter device) (\<lambda>live.
     get_return (device, material, next_sequence, live)))))))"

definition decode_journal :: "('s, 'g) profile \<Rightarrow> bytes \<Rightarrow> leaf_journal result" where
  "decode_journal P bs =
     and_then (decode_all (journal_getter P) bs) (\<lambda>(device, material, next_sequence, live).
     leaf_journal_new device material next_sequence live)"

section \<open>Material\<close>

definition checked_len :: "nat \<Rightarrow> u32 result" where
  "checked_len n = (if 2 ^ 32 \<le> n then Inl LengthOverflow else Inr (word_of_nat n))"

definition put_len :: "nat \<Rightarrow> bytes result" where
  "put_len n = and_then (checked_len n) (\<lambda>c. Inr (put_u32 c))"

definition put_elements :: "('s, 'g::zero) profile \<Rightarrow> 'g list \<Rightarrow> bytes result" where
  "put_elements P elements =
     and_then (put_len (length elements)) (\<lambda>n. Inr (n @ concat (map (put_element P) elements)))"

definition put_outer_people ::
  "('s, 'g) profile \<Rightarrow> (person_id \<times> 's \<times> 'g) list \<Rightarrow> bytes result" where
  "put_outer_people P people =
     and_then (put_len (length people)) (\<lambda>n.
     Inr (n @ concat (map (\<lambda>(person, node, member).
       ident_bytes person @ put_scalar P node @ put_point P member) people)))"

definition put_identity_devices ::
  "('s, 'g::zero) profile \<Rightarrow> (device_id \<times> 's \<times> 'g) list \<Rightarrow> bytes result" where
  "put_identity_devices P devices =
     and_then (put_len (length devices)) (\<lambda>n.
     Inr (n @ concat (map (\<lambda>(device, node, share).
       ident_bytes device @ put_scalar P node @ put_element P share) devices)))"

definition put_vault ::
  "('s, 'g::zero) profile \<Rightarrow> vault_id \<times> ('s, 'g) vault_state \<Rightarrow> bytes result" where
  "put_vault P = (\<lambda>(vault_id, vault).
     and_then (put_elements P (vs_member_map vault)) (\<lambda>member_map.
     and_then (put_elements P (om_commitments (vs_outer_map vault))) (\<lambda>outer_commitments.
     and_then (put_outer_people P (om_people (vs_outer_map vault))) (\<lambda>outer_people.
     Inr (ident_bytes vault_id @ put_scalar P (vs_outer_node vault) @ put_u64 (vs_outer_epoch vault)
       @ ident_bytes (vs_member_handle vault) @ put_point P (vs_member_point vault)
       @ put_point P (vs_vault_key vault) @ member_map @ outer_commitments @ outer_people
       @ put_scalar P (vs_anchor vault))))))"

definition check_lengths :: "('s, 'g) leaf_registry \<Rightarrow> unit result" where
  "check_lengths r =
     and_then (checked_len (length (im_commitments (lr_identity_map r)))) (\<lambda>_.
     and_then (checked_len (length (im_devices (lr_identity_map r)))) (\<lambda>_.
     and_then (checked_len (length (lr_vaults r))) (\<lambda>_.
     and_then (collect_results (\<lambda>(_, vault).
       and_then (checked_len (length (vs_member_map vault))) (\<lambda>_.
       and_then (checked_len (length (om_commitments (vs_outer_map vault)))) (\<lambda>_.
       checked_len (length (om_people (vs_outer_map vault)))))) (lr_vaults r)) (\<lambda>_. Inr ()))))"

definition encode_material ::
  "('s, 'g::zero) profile \<Rightarrow> ('s, 'g) leaf_registry \<Rightarrow> bytes result" where
  "encode_material P r =
     (if lr_live r \<noteq> None then Inl Busy
      else and_then (check_lengths r) (\<lambda>_.
        and_then (put_elements P (im_commitments (lr_identity_map r))) (\<lambda>commitments.
        and_then (put_identity_devices P (im_devices (lr_identity_map r))) (\<lambda>devices.
        and_then (put_len (length (lr_vaults r))) (\<lambda>count.
        and_then (collect_results (put_vault P) (lr_vaults r)) (\<lambda>vaults.
        Inr (pf_material_magic P @ ident_bytes (lr_device r) @ ident_bytes (lr_person r)
          @ put_scalar P (lr_node r) @ commitments @ devices @ put_point P (lr_identity_key r)
          @ put_scalar P (lr_identity r) @ put_u64 (lr_inner_epoch r)
          @ ident_bytes (lr_identity_handle r) @ count @ concat vaults)))))))"

definition get_node :: "('s::zero, 'g, 'z) profile_scheme \<Rightarrow> 's getter" where
  "get_node P = get_then (get_scalar P) (\<lambda>s. get_result (node_new s))"

definition get_elements :: "('s, 'g::zero, 'z) profile_scheme \<Rightarrow> 'g list getter" where
  "get_elements P = get_then get_u32 (\<lambda>n. get_many (unat n) (get_element P))"

definition get_outer_people ::
  "('s::zero, 'g::zero, 'z) profile_scheme \<Rightarrow> (person_id \<times> 's \<times> 'g) list getter" where
  "get_outer_people P = get_then get_u32 (\<lambda>n. get_many (unat n)
     (get_then get_ident (\<lambda>person. get_then (get_node P) (\<lambda>node. get_then (get_point P) (\<lambda>member.
      get_return (person, node, member))))))"

definition get_identity_devices ::
  "('s::zero, 'g::zero, 'z) profile_scheme \<Rightarrow> (device_id \<times> 's \<times> 'g) list getter" where
  "get_identity_devices P = get_then get_u32 (\<lambda>n. get_many (unat n)
     (get_then get_ident (\<lambda>device. get_then (get_node P) (\<lambda>node. get_then (get_element P) (\<lambda>share.
      get_return (device, node, share))))))"

definition get_vault :: "('s::zero, 'g::zero) profile \<Rightarrow> ('s, 'g) vault_state getter" where
  "get_vault P =
     get_then (get_node P) (\<lambda>outer_node. get_then get_u64 (\<lambda>outer_epoch.
     get_then get_ident (\<lambda>member_handle. get_then (get_point P) (\<lambda>member_point.
     get_then (get_point P) (\<lambda>vault_key. get_then (get_elements P) (\<lambda>member_map.
     get_then (get_elements P) (\<lambda>outer_commitments. get_then (get_outer_people P) (\<lambda>people.
     get_then (get_scalar P) (\<lambda>anchor.
     get_return \<lparr>vs_outer_node = outer_node, vs_outer_epoch = outer_epoch,
       vs_member_handle = member_handle, vs_member_point = member_point, vs_vault_key = vault_key,
       vs_anchor = anchor, vs_member_map = member_map,
       vs_outer_map = \<lparr>om_commitments = outer_commitments, om_people = people\<rparr>\<rparr>)))))))))"

text \<open>The loop over the vaults: the identifier read last, and the map built so far.\<close>

fun get_vaults ::
  "('s::zero, 'g::zero) profile \<Rightarrow> nat \<Rightarrow> vault_id option \<Rightarrow> (vault_id \<times> ('s, 'g) vault_state) list
     \<Rightarrow> (vault_id \<times> ('s, 'g) vault_state) list getter" where
  "get_vaults P 0 previous vaults = get_return vaults"
| "get_vaults P (Suc n) previous vaults =
     get_then get_ident (\<lambda>vault_id.
     get_then (get_ensure DuplicateParticipant
       (case previous of None \<Rightarrow> True | Some p \<Rightarrow> p < vault_id)) (\<lambda>_.
     get_then (get_vault P) (\<lambda>state.
     get_then (get_ensure DuplicateParticipant (map_of vaults vault_id = None)) (\<lambda>_.
     get_vaults P n (Some vault_id) (bt_insert vault_id state vaults)))))"

definition material_getter :: "('s::zero, 'g::zero) profile \<Rightarrow> ('s, 'g) leaf_registry getter" where
  "material_getter P =
     get_then (get_fixed 8) (\<lambda>magic.
     get_then (get_ensure ProtocolMismatch (magic = pf_material_magic P)) (\<lambda>_.
     get_then get_ident (\<lambda>device. get_then get_ident (\<lambda>person. get_then (get_node P) (\<lambda>node.
     get_then (get_elements P) (\<lambda>commitments. get_then (get_identity_devices P) (\<lambda>devices.
     get_then (get_point P) (\<lambda>identity_key. get_then (get_scalar P) (\<lambda>identity.
     get_then get_u64 (\<lambda>inner_epoch. get_then get_ident (\<lambda>identity_handle.
     get_then get_u32 (\<lambda>vault_count. get_then (get_ensure EmptyInput (vault_count \<noteq> 0)) (\<lambda>_.
     get_then (get_vaults P (unat vault_count) None []) (\<lambda>vaults.
     get_return \<lparr>lr_device = device, lr_person = person, lr_node = node,
       lr_identity_map = \<lparr>im_commitments = commitments, im_devices = devices\<rparr>,
       lr_identity_key = identity_key, lr_identity = identity, lr_inner_epoch = inner_epoch,
       lr_identity_handle = identity_handle, lr_vaults = vaults, lr_live = None,
       lr_next_sequence = 0\<rparr>))))))))))))))"

text \<open>The loop over the identity map: the device before, the nodes so far, and the own share.\<close>

fun validate_devices ::
  "('s, 'g::ab_group_add) profile \<Rightarrow> ('s, 'g) leaf_registry \<Rightarrow> device_id option \<Rightarrow> 's list
     \<Rightarrow> 'g option \<Rightarrow> (device_id \<times> 's \<times> 'g) list \<Rightarrow> 'g option result" where
  "validate_devices P r previous nodes own [] = Inr own"
| "validate_devices P r previous nodes own ((device, node, share) # rest) =
     (if (case previous of None \<Rightarrow> False | Some p \<Rightarrow> device \<le> p) then Inl DuplicateParticipant
      else if node \<in> set nodes then Inl DuplicateNode
      else if evaluate_commitments P (im_commitments (lr_identity_map r)) node \<noteq> share
        then Inl ShareMismatch
      else if device = lr_device r then
        (if node \<noteq> lr_node r then Inl ParticipantMismatch
         else validate_devices P r (Some device) (nodes @ [node]) (Some share) rest)
      else validate_devices P r (Some device) (nodes @ [node]) own rest)"

fun validate_people ::
  "('s, 'g::ab_group_add) profile \<Rightarrow> ('s, 'g) leaf_registry \<Rightarrow> 'g list \<Rightarrow> person_id option \<Rightarrow> 's list
     \<Rightarrow> ('s \<times> 'g) option \<Rightarrow> (person_id \<times> 's \<times> 'g) list \<Rightarrow> ('s \<times> 'g) option result" where
  "validate_people P r commitments previous nodes own [] = Inr own"
| "validate_people P r commitments previous nodes own ((person, node, member) # rest) =
     (if (case previous of None \<Rightarrow> False | Some p \<Rightarrow> person \<le> p) then Inl DuplicateParticipant
      else if node \<in> set nodes then Inl DuplicateNode
      else if evaluate_commitments P commitments node \<noteq> member then Inl ShareMismatch
      else validate_people P r commitments (Some person) (nodes @ [node])
        (if person = lr_person r then Some (node, member) else own) rest)"

definition validate_vault ::
  "('s, 'g::ab_group_add) profile \<Rightarrow> ('s, 'g) leaf_registry \<Rightarrow> ('s, 'g) vault_state
     \<Rightarrow> unit result" where
  "validate_vault P r vault =
     (if length (vs_member_map vault) \<noteq> length (im_commitments (lr_identity_map r))
         \<or> first_point (vs_member_map vault) \<noteq> Some (vs_member_point vault)
         \<or> om_commitments (vs_outer_map vault) = []
         \<or> length (om_people (vs_outer_map vault)) < length (om_commitments (vs_outer_map vault))
         \<or> first_point (om_commitments (vs_outer_map vault)) \<noteq> Some (vs_vault_key vault)
      then Inl SupportMismatch
      else if evaluate_commitments P (vs_member_map vault) (lr_node r)
          \<noteq> element_from_scalar P (lr_identity r) + element_from_scalar P (vs_anchor vault)
        then Inl ShareMismatch
      else and_then (validate_people P r (om_commitments (vs_outer_map vault)) None [] None
          (om_people (vs_outer_map vault))) (\<lambda>own.
        if own = Some (vs_outer_node vault, vs_member_point vault) then Inr ()
        else Inl ParticipantMismatch))"

definition validate_material ::
  "('s, 'g::ab_group_add) profile \<Rightarrow> ('s, 'g) leaf_registry \<Rightarrow> unit result" where
  "validate_material P r =
     (let commitments = im_commitments (lr_identity_map r); devices = im_devices (lr_identity_map r) in
      if commitments = [] \<or> length devices < length commitments then Inl SupportMismatch
      else if hd commitments \<noteq> lr_identity_key r then Inl ShareMismatch
      else and_then (validate_devices P r None [] None devices) (\<lambda>own.
        and_then (ok_or ParticipantNotFound own) (\<lambda>own_share.
        if element_from_scalar P (lr_identity r) \<noteq> own_share then Inl ShareMismatch
        else and_then (collect_results (\<lambda>(_, vault). validate_vault P r vault) (lr_vaults r))
          (\<lambda>_. Inr ()))))"

definition decode_material ::
  "('s, 'g::ab_group_add) profile \<Rightarrow> bytes \<Rightarrow> ('s::zero, 'g) leaf_registry result" where
  "decode_material P bs =
     and_then (decode_all (material_getter P) bs) (\<lambda>r.
     and_then (validate_material P r) (\<lambda>_. Inr r))"

definition material_hash_domain :: bytes where
  "material_hash_domain = ascii_bytes ''KSNF/leaf-material/v1''"

definition hash_material :: "(bytes \<Rightarrow> bytes) \<Rightarrow> bytes \<Rightarrow> material_id" where
  "hash_material sha256 bs = ident_of_bytes (sha256 (material_hash_domain @ bs))"

end
