(* ===== verification/Ksnf_Store.thy ===== *)
theory Ksnf_Store
  imports Ksnf_Record
begin

text \<open>
  Leaf stores (\<open>src/leaf/store.rs\<close>): material records, journal records with their revision, the
  trait \<open>LeafStore\<close> as a record of its operations on a state of any type, and the in-memory
  store. An operation takes the state of the store and returns its result with the new state, so
  that a backend that fails, before or after a write, is one whose state decides it.
\<close>

section \<open>Records\<close>

record leaf_material =
  lm_id :: material_id
  lm_bytes :: bytes

definition material_from_valid_bytes :: "(bytes \<Rightarrow> bytes) \<Rightarrow> bytes \<Rightarrow> leaf_material" where
  "material_from_valid_bytes sha256 bs = \<lparr>lm_id = hash_material sha256 bs, lm_bytes = bs\<rparr>"

definition material_from_bytes ::
  "('s::field, 'g::ab_group_add) profile \<Rightarrow> (bytes \<Rightarrow> bytes) \<Rightarrow> bytes \<Rightarrow> leaf_material result" where
  "material_from_bytes P sha256 bs =
     and_then (decode_material P bs) (\<lambda>_. Inr (material_from_valid_bytes sha256 bs))"

definition material_from_registry ::
  "('s, 'g::zero) profile \<Rightarrow> (bytes \<Rightarrow> bytes) \<Rightarrow> ('s, 'g) leaf_registry \<Rightarrow> leaf_material result" where
  "material_from_registry P sha256 r =
     and_then (encode_material P r) (\<lambda>bs. Inr (material_from_valid_bytes sha256 bs))"

definition material_registry ::
  "('s::field, 'g::ab_group_add) profile \<Rightarrow> leaf_material \<Rightarrow> ('s, 'g) leaf_registry result" where
  "material_registry P m = decode_material P (lm_bytes m)"

type_synonym journal_revision = u64

record stored_journal =
  sj_revision :: journal_revision
  sj_journal :: leaf_journal

datatype journal_cas = CasApplied journal_revision | CasConflict

section \<open>The trait\<close>

record ('e, 'st) leaf_store =
  put_material :: "leaf_material \<Rightarrow> 'st \<Rightarrow> ('e + unit) \<times> 'st"
  get_material :: "material_id \<Rightarrow> 'st \<Rightarrow> ('e + leaf_material option) \<times> 'st"
  get_journal :: "device_id \<Rightarrow> 'st \<Rightarrow> ('e + stored_journal option) \<times> 'st"
  compare_exchange ::
    "device_id \<Rightarrow> journal_revision option \<Rightarrow> leaf_journal \<Rightarrow> 'st \<Rightarrow> ('e + journal_cas) \<times> 'st"

datatype 'e persist_error =
  Protocol ksnf_error
| StoreFailed 'e
| Conflict
| MissingMaterial material_id
| InvalidRecord ksnf_error
| Reconcile
| Unavailable

section \<open>The in-memory store\<close>

record memory_store =
  mm_materials :: "(material_id \<times> bytes) list"
  mm_journals :: "(device_id \<times> stored_journal) list"

definition memory_default :: memory_store where
  "memory_default = \<lparr>mm_materials = [], mm_journals = []\<rparr>"

definition material_count :: "memory_store \<Rightarrow> nat" where
  "material_count m = length (mm_materials m)"

definition memory_journal :: "memory_store \<Rightarrow> device_id \<Rightarrow> stored_journal option" where
  "memory_journal m device = map_of (mm_journals m) device"

definition bt_remove :: "'k \<Rightarrow> ('k \<times> 'v) list \<Rightarrow> ('k \<times> 'v) list" where
  "bt_remove k m = filter (\<lambda>(k', _). k' \<noteq> k) m"

definition collect_material :: "material_id \<Rightarrow> memory_store \<Rightarrow> memory_store" where
  "collect_material material m =
     (if list_ex (\<lambda>(_, stored). lj_material (sj_journal stored) = material) (mm_journals m) then m
      else m\<lparr>mm_materials := bt_remove material (mm_materials m)\<rparr>)"

definition memory_put_material ::
  "leaf_material \<Rightarrow> memory_store \<Rightarrow> unit result \<times> memory_store" where
  "memory_put_material material m =
     (case map_of (mm_materials m) (lm_id material) of
       Some bs \<Rightarrow> if bs = lm_bytes material then (Inr (), m) else (Inl CommandMismatch, m)
     | None \<Rightarrow>
         (Inr (), m\<lparr>mm_materials := bt_insert (lm_id material) (lm_bytes material) (mm_materials m)\<rparr>))"

definition memory_get_material ::
  "(bytes \<Rightarrow> bytes) \<Rightarrow> material_id \<Rightarrow> memory_store \<Rightarrow> leaf_material option result \<times> memory_store"
where
  "memory_get_material sha256 i m =
     (Inr (map_option (material_from_valid_bytes sha256) (map_of (mm_materials m) i)), m)"

definition memory_get_journal ::
  "device_id \<Rightarrow> memory_store \<Rightarrow> stored_journal option result \<times> memory_store" where
  "memory_get_journal device m = (Inr (map_of (mm_journals m) device), m)"

definition memory_compare_exchange ::
  "device_id \<Rightarrow> journal_revision option \<Rightarrow> leaf_journal \<Rightarrow> memory_store
     \<Rightarrow> journal_cas result \<times> memory_store" where
  "memory_compare_exchange device expected new m =
     (if lj_device new \<noteq> device then (Inl ParticipantMismatch, collect_material (lj_material new) m)
      else
        let current = map_of (mm_journals m) device;
            current_revision = map_option sj_revision current;
            previous_material = map_option (lj_material \<circ> sj_journal) current;
            matches = (case (expected, current_revision) of
                (None, None) \<Rightarrow> True
              | (Some e, Some c) \<Rightarrow> c = e
              | _ \<Rightarrow> False) in
        if \<not> matches then (Inr CasConflict, collect_material (lj_material new) m)
        else case (case current_revision of
              Some revision \<Rightarrow> checked_succ revision
            | None \<Rightarrow> Some 1) of
            None \<Rightarrow> (Inl LengthOverflow, collect_material (lj_material new) m)
          | Some value \<Rightarrow>
              let m' = m\<lparr>mm_journals := bt_insert device \<lparr>sj_revision = value, sj_journal = new\<rparr>
                           (mm_journals m)\<rparr> in
              (Inr (CasApplied value),
               case previous_material of None \<Rightarrow> m' | Some previous \<Rightarrow> collect_material previous m'))"

definition memory_leaf_store :: "(bytes \<Rightarrow> bytes) \<Rightarrow> (ksnf_error, memory_store) leaf_store" where
  "memory_leaf_store sha256 =
     \<lparr>put_material = memory_put_material, get_material = memory_get_material sha256,
      get_journal = memory_get_journal, compare_exchange = memory_compare_exchange\<rparr>"

section \<open>The contract\<close>

text \<open>
  What the trait's documentation asks of a backend, over the journals and the material its
  state holds: writes of material are content-addressed and idempotent and never touch a
  journal, reads change nothing, a compare-and-set is atomic at one revision with increasing
  revisions, a call that fails may or may not have written, and material a journal names stays.
\<close>

definition cas_write ::
  "('st \<Rightarrow> device_id \<Rightarrow> stored_journal option) \<Rightarrow> device_id \<Rightarrow> journal_revision option
     \<Rightarrow> leaf_journal \<Rightarrow> 'st \<Rightarrow> journal_revision \<Rightarrow> 'st \<Rightarrow> bool" where
  "cas_write journals device expected new s revision s' \<longleftrightarrow>
     map_option sj_revision (journals s device) = expected
     \<and> (\<forall>e. expected = Some e \<longrightarrow> e < revision)
     \<and> journals s' = (journals s)(device \<mapsto> \<lparr>sj_revision = revision, sj_journal = new\<rparr>)"

locale store_contract =
  fixes sha256 :: "bytes \<Rightarrow> bytes"
    and ops :: "('e, 'st) leaf_store"
    and ok :: "'st \<Rightarrow> bool"
    and journals :: "'st \<Rightarrow> device_id \<Rightarrow> stored_journal option"
    and materials :: "'st \<Rightarrow> material_id \<Rightarrow> bytes option"
  assumes put_result: "put_material ops m s = (res, s') \<Longrightarrow> ok s \<Longrightarrow> lm_id m = hash_material sha256 (lm_bytes m) \<Longrightarrow>
      ok s' \<and> journals s' = journals s \<and> materials s \<subseteq>\<^sub>m materials s'
      \<and> (res = Inr () \<longrightarrow> materials s' (lm_id m) = Some (lm_bytes m))"
    and addressed: "ok s \<Longrightarrow> materials s i = Some bs \<Longrightarrow> i = hash_material sha256 bs"
    and get_result: "get_material ops i s = (mat, s') \<Longrightarrow> ok s \<Longrightarrow>
      ok s' \<and> journals s' = journals s \<and> materials s' = materials s
      \<and> (\<forall>found. mat = Inr found \<longrightarrow> found = map_option (material_from_valid_bytes sha256) (materials s i))"
    and journal_result: "get_journal ops d s = (jrn, s') \<Longrightarrow> ok s \<Longrightarrow>
      ok s' \<and> journals s' = journals s \<and> materials s' = materials s
      \<and> (\<forall>stored'. jrn = Inr stored' \<longrightarrow> stored' = journals s d)"
    and cas_result: "compare_exchange ops d expected new s = (cas, s') \<Longrightarrow> ok s \<Longrightarrow>
      lj_device new = d \<Longrightarrow>
      ok s' \<and> (\<forall>revision. cas = Inr (CasApplied revision) \<longrightarrow> cas_write journals d expected new s revision s')
      \<and> (cas = Inr CasConflict \<longrightarrow> journals s' = journals s
           \<and> map_option sj_revision (journals s d) \<noteq> expected)
      \<and> (\<forall>e. cas = Inl e \<longrightarrow> journals s' = journals s
           \<or> (\<exists>revision. cas_write journals d expected new s revision s'))"
    and cas_keeps: "compare_exchange ops d expected new s = (cas, s') \<Longrightarrow> ok s \<Longrightarrow>
      lj_device new = d \<Longrightarrow> journals s' d' = Some stored \<Longrightarrow> 
      materials s (lj_material (sj_journal stored)) = Some bs \<Longrightarrow>
      materials s' (lj_material (sj_journal stored)) = Some bs"
begin

text \<open>However a compare-and-set ends, it has written at the expected revision or not at all.\<close>

lemma cas_outcomes:
  assumes "compare_exchange ops d expected new s = (res, s')" "ok s" "lj_device new = d"
  obtains "journals s' = journals s"
  | revision where "cas_write journals d expected new s revision s'"
  using cas_result [OF assms] by (cases res; cases "projr res") auto

end

section \<open>The in-memory store keeps the contract\<close>

definition memory_ok :: "(bytes \<Rightarrow> bytes) \<Rightarrow> memory_store \<Rightarrow> bool" where
  "memory_ok sha256 m \<longleftrightarrow> bt_sorted (mm_materials m) \<and> bt_sorted (mm_journals m)
     \<and> list_all (\<lambda>(i, bs). i = hash_material sha256 bs) (mm_materials m)"

definition memory_material :: "memory_store \<Rightarrow> material_id \<Rightarrow> bytes option" where
  "memory_material m i = map_of (mm_materials m) i"

lemma map_of_bt_remove [simp]: "map_of (bt_remove k m) = (map_of m)(k := None)"
  by (induction m) (auto simp: bt_remove_def fun_eq_iff)

lemma bt_remove_sorted: "bt_sorted m \<Longrightarrow> bt_sorted (bt_remove k m)"
  by (induction m) (auto simp: bt_remove_def)

lemma collect_material_ok: "memory_ok h m \<Longrightarrow> memory_ok h (collect_material i m)"
  by (auto simp: memory_ok_def collect_material_def bt_remove_sorted list_all_iff bt_remove_def
      intro: bt_remove_sorted [unfolded bt_remove_def])

lemma collect_material_journals [simp]: "mm_journals (collect_material i m) = mm_journals m"
  by (simp add: collect_material_def)

lemma collect_material_keeps:
  assumes "map_of (mm_journals m) d = Some stored"
  shows "map_of (mm_materials (collect_material i m)) (lj_material (sj_journal stored)) =
    map_of (mm_materials m) (lj_material (sj_journal stored))"
proof -
  have "(d, stored) \<in> set (mm_journals m)" using assms by (rule map_of_SomeD)
  then show ?thesis by (auto simp: collect_material_def list_ex_iff)
qed

lemma memory_put_ok:
  assumes "memory_put_material m s = (res, s')" "memory_ok h s" "lm_id m = hash_material h (lm_bytes m)"
  shows "memory_ok h s' \<and> mm_journals s' = mm_journals s \<and> memory_material s \<subseteq>\<^sub>m memory_material s'
    \<and> (res = Inr () \<longrightarrow> memory_material s' (lm_id m) = Some (lm_bytes m))"
proof (cases "map_of (mm_materials s) (lm_id m)")
  case None
  with assms(1) have s': "s' = s\<lparr>mm_materials := bt_insert (lm_id m) (lm_bytes m) (mm_materials s)\<rparr>"
    by (simp add: memory_put_material_def)
  have "set (bt_insert (lm_id m) (lm_bytes m) (mm_materials s)) =
      insert (lm_id m, lm_bytes m) (set (mm_materials s))"
    using None by (intro set_bt_insert) (simp add: map_of_eq_None_iff)
  with assms(2,3) None show ?thesis
    by (auto simp: s' memory_ok_def memory_material_def map_le_def list_all_iff)
next
  case (Some bs)
  with assms show ?thesis
    by (auto simp: memory_put_material_def memory_material_def map_le_def split: if_splits)
qed

lemma memory_cas_cases:
  assumes "memory_compare_exchange d expected new s = (res, s')" "memory_ok h s" "lj_device new = d"
  obtains e where "res = Inl e" "s' = collect_material (lj_material new) s"
  | "res = Inr CasConflict" "s' = collect_material (lj_material new) s"
    "map_option sj_revision (memory_journal s d) \<noteq> expected"
  | revision t where "res = Inr (CasApplied revision)"
    "t = s\<lparr>mm_journals := bt_insert d \<lparr>sj_revision = revision, sj_journal = new\<rparr> (mm_journals s)\<rparr>"
    "s' = t \<or> (\<exists>i. s' = collect_material i t)"
    "map_option sj_revision (memory_journal s d) = expected" "\<forall>e. expected = Some e \<longrightarrow> e < revision"
    "memory_ok h t"
proof -
  have ins: "memory_ok h (s\<lparr>mm_journals := bt_insert d v (mm_journals s)\<rparr>)" for v
    using assms(2) by (simp add: memory_ok_def)
  show ?thesis
  proof (cases "map_of (mm_journals s) d")
    case None
    show ?thesis
    proof (cases expected)
      case None': None
      show ?thesis
        by (rule that(3) [OF _ refl _ _ _ ins])
           (use assms(1,3) None None' in \<open>auto simp: memory_compare_exchange_def memory_journal_def Let_def\<close>)
    next
      case (Some e)
      show ?thesis
        by (rule that(2))
           (use assms(1,3) None Some in \<open>auto simp: memory_compare_exchange_def memory_journal_def Let_def\<close>)
    qed
  next
    case stored: (Some stored)
    show ?thesis
    proof (cases "expected = Some (sj_revision stored)")
      case False
      show ?thesis
        by (rule that(2))
           (use assms(1,3) stored False in \<open>auto simp: memory_compare_exchange_def memory_journal_def Let_def
              split: option.splits\<close>)
    next
      case True
      show ?thesis
      proof (cases "checked_succ (sj_revision stored)")
        case None
        show ?thesis
          by (rule that(1))
             (use assms(1,3) stored True None in \<open>auto simp: memory_compare_exchange_def Let_def\<close>)
      next
        case (Some v)
        show ?thesis
          by (rule that(3) [OF _ refl _ _ _ ins])
             (use assms(1,3) stored True Some checked_succ_less [OF Some] in
               \<open>auto simp: memory_compare_exchange_def memory_journal_def Let_def\<close>)
      qed
    qed
  qed
qed

lemma memory_journal_collect [simp]: "memory_journal (collect_material i m) = memory_journal m"
  by (simp add: memory_journal_def fun_eq_iff)

interpretation memory_store: store_contract sha256 "memory_leaf_store sha256" "memory_ok sha256"
  memory_journal memory_material for sha256
proof
  fix m s res s'
  assume "put_material (memory_leaf_store sha256) m s = (res, s')" "memory_ok sha256 s"
    "lm_id m = hash_material sha256 (lm_bytes m)"
  then show "memory_ok sha256 s' \<and> memory_journal s' = memory_journal s
      \<and> memory_material s \<subseteq>\<^sub>m memory_material s'
      \<and> (res = Inr () \<longrightarrow> memory_material s' (lm_id m) = Some (lm_bytes m))"
    using memory_put_ok [of m s res s' sha256] by (simp add: memory_leaf_store_def memory_journal_def fun_eq_iff)
next
  fix s i bs
  assume "memory_ok sha256 s" "memory_material s i = Some bs"
  then show "i = hash_material sha256 bs"
    by (auto simp: memory_ok_def memory_material_def list_all_iff dest!: map_of_SomeD)
next
  fix i s res s'
  assume "get_material (memory_leaf_store sha256) i s = (res, s')" "memory_ok sha256 s"
  then show "memory_ok sha256 s' \<and> memory_journal s' = memory_journal s
      \<and> memory_material s' = memory_material s
      \<and> (\<forall>x. res = Inr x \<longrightarrow> x = map_option (material_from_valid_bytes sha256) (memory_material s i))"
    by (auto simp: memory_leaf_store_def memory_get_material_def memory_material_def)
next
  fix d s res s'
  assume "get_journal (memory_leaf_store sha256) d s = (res, s')" "memory_ok sha256 s"
  then show "memory_ok sha256 s' \<and> memory_journal s' = memory_journal s
      \<and> memory_material s' = memory_material s \<and> (\<forall>x. res = Inr x \<longrightarrow> x = memory_journal s d)"
    by (auto simp: memory_leaf_store_def memory_get_journal_def memory_journal_def)
next
  fix d expected new s res s'
  assume a: "compare_exchange (memory_leaf_store sha256) d expected new s = (res, s')"
    "memory_ok sha256 s" "lj_device new = d"
  then have cas: "memory_compare_exchange d expected new s = (res, s')"
    by (simp add: memory_leaf_store_def)
  show "memory_ok sha256 s'
      \<and> (\<forall>revision. res = Inr (CasApplied revision) \<longrightarrow>
            cas_write memory_journal d expected new s revision s')
      \<and> (res = Inr CasConflict \<longrightarrow> memory_journal s' = memory_journal s
           \<and> map_option sj_revision (memory_journal s d) \<noteq> expected)
      \<and> (\<forall>e. res = Inl e \<longrightarrow> memory_journal s' = memory_journal s
           \<or> (\<exists>revision. cas_write memory_journal d expected new s revision s'))"
    by (rule memory_cas_cases [OF cas a(2,3)])
       (use a(2) in \<open>auto simp: collect_material_ok cas_write_def memory_journal_def fun_eq_iff\<close>)
  fix d' stored bs
  assume b: "memory_journal s' d' = Some stored"
    "memory_material s (lj_material (sj_journal stored)) = Some bs"
  show "memory_material s' (lj_material (sj_journal stored)) = Some bs"
    by (rule memory_cas_cases [OF cas a(2,3)])
       (use b in \<open>auto simp: memory_material_def memory_journal_def collect_material_keeps\<close>)
qed

end
