(* ===== verification/Ksnf_Persistent.thy ===== *)
theory Ksnf_Persistent
  imports Ksnf_Store
begin

text \<open>
  The persistent leaf (\<open>src/leaf/store/persistent.rs\<close>): a registry whose attempt counter, lock and
  material are durable in a store. An operation takes the leaf and the state of the store and
  returns its result with both; \<open>ops\<close> is the store.
\<close>

section \<open>State\<close>

record pending_write =
  pw_previous :: leaf_journal
  pw_next :: leaf_journal
  pw_material_changed :: bool

record ('s, 'g) persistent_leaf =
  pl_device :: device_id
  pl_registry :: "('s, 'g) leaf_registry option"
  pl_material :: material_id
  pl_revision :: journal_revision
  pl_pending :: "pending_write option"

definition leaf_state :: "('s, 'g) persistent_leaf \<Rightarrow> ('s, 'g) leaf_registry option" where
  "leaf_state leaf = (if pl_pending leaf = None then pl_registry leaf else None)"

definition needs_reconcile :: "('s, 'g) persistent_leaf \<Rightarrow> bool" where
  "needs_reconcile leaf \<longleftrightarrow> pl_pending leaf \<noteq> None"

text \<open>A call of the store whose error is passed on with \<open>map_err(PersistError::Store)?\<close>.\<close>

definition store_call ::
  "('e + 'a) \<times> 'st \<Rightarrow> ('e persist_error \<Rightarrow> 'st \<Rightarrow> 'b) \<Rightarrow> ('a \<Rightarrow> 'st \<Rightarrow> 'b) \<Rightarrow> 'b" where
  "store_call call failed k = (case call of
     (Inl e, st) \<Rightarrow> failed (StoreFailed e) st
   | (Inr x, st) \<Rightarrow> k x st)"

section \<open>Creation and loading\<close>

definition persistent_create ::
  "('s, 'g::zero) profile \<Rightarrow> (bytes \<Rightarrow> bytes) \<Rightarrow> ('e, 'st) leaf_store \<Rightarrow> ('s, 'g) leaf_registry \<Rightarrow> 'st
     \<Rightarrow> ('e persist_error + ('s, 'g) persistent_leaf) \<times> 'st" where
  "persistent_create P sha256 ops r st =
     (case and_then (map_err Protocol (material_from_registry P sha256 r)) (\<lambda>material.
         and_then (map_err InvalidRecord (journal_from_registry (lm_id material) r)) (\<lambda>journal.
         Inr (material, journal))) of
       Inl e \<Rightarrow> (Inl e, st)
     | Inr (material, journal) \<Rightarrow>
         store_call (put_material ops material st) (\<lambda>e st. (Inl e, st)) (\<lambda>_ st.
         store_call (compare_exchange ops (lr_device r) None journal st) (\<lambda>e st. (Inl e, st)) (\<lambda>cas st.
         (case cas of
            CasApplied revision \<Rightarrow>
              Inr \<lparr>pl_device = lr_device r, pl_registry = Some r, pl_material = lm_id material,
                   pl_revision = revision, pl_pending = None\<rparr>
          | CasConflict \<Rightarrow> Inl Conflict, st))))"

text \<open>The checks on a journal and its material before the recovery write.\<close>

definition loaded_registry ::
  "('s::field, 'g::ab_group_add) profile \<Rightarrow> device_id \<Rightarrow> leaf_journal \<Rightarrow> leaf_material option
     \<Rightarrow> 'e persist_error + ('s, 'g) leaf_registry" where
  "loaded_registry P device journal found =
     and_then (ok_or (MissingMaterial (lj_material journal)) found) (\<lambda>material.
     if lm_id material \<noteq> lj_material journal then Inl (InvalidRecord CommandMismatch)
     else and_then (map_err InvalidRecord (material_registry P material)) (\<lambda>r.
       if lr_device r \<noteq> device then Inl (InvalidRecord ParticipantMismatch)
       else Inr (r\<lparr>lr_next_sequence := lj_next_sequence journal\<rparr>)))"

definition persistent_load ::
  "('s::field, 'g::ab_group_add) profile \<Rightarrow> ('e, 'st) leaf_store \<Rightarrow> device_id \<Rightarrow> 'st
     \<Rightarrow> ('e persist_error + ('s, 'g) persistent_leaf option) \<times> 'st" where
  "persistent_load P ops device st =
     store_call (get_journal ops device st) (\<lambda>e st. (Inl e, st)) (\<lambda>found st.
     case found of
       None \<Rightarrow> (Inr None, st)
     | Some stored \<Rightarrow>
         let journal = sj_journal stored; material_id = lj_material journal in
         if lj_device journal \<noteq> device then (Inl (InvalidRecord ParticipantMismatch), st)
         else store_call (get_material ops material_id st) (\<lambda>e st. (Inl e, st)) (\<lambda>material st.
           case loaded_registry P device journal material of
             Inl e \<Rightarrow> (Inl e, st)
           | Inr r \<Rightarrow>
               let leaf = (\<lambda>revision. Some \<lparr>pl_device = device, pl_registry = Some r,
                     pl_material = material_id, pl_revision = revision, pl_pending = None\<rparr>) in
               if lj_live journal = None then (Inr (leaf (sj_revision stored)), st)
               else case map_err InvalidRecord (journal_from_registry material_id r) of
                 Inl e \<Rightarrow> (Inl e, st)
               | Inr recovered \<Rightarrow>
                   store_call (compare_exchange ops device (Some (sj_revision stored)) recovered st)
                     (\<lambda>e st. (Inl e, st)) (\<lambda>cas st.
                   (case cas of
                      CasApplied revision \<Rightarrow> Inr (leaf revision)
                    | CasConflict \<Rightarrow> Inl Conflict, st))))"

section \<open>Writes\<close>

definition ready_registry ::
  "('s, 'g) persistent_leaf \<Rightarrow> 'e persist_error + ('s, 'g) leaf_registry" where
  "ready_registry leaf =
     (if pl_pending leaf \<noteq> None then Inl Reconcile else ok_or Unavailable (pl_registry leaf))"

definition ready_journal :: "('s, 'g) persistent_leaf \<Rightarrow> 'e persist_error + leaf_journal" where
  "ready_journal leaf =
     and_then (ready_registry leaf) (\<lambda>r.
     map_err InvalidRecord (journal_from_registry (pl_material leaf) r))"

definition current_material ::
  "('s, 'g::zero) profile \<Rightarrow> (bytes \<Rightarrow> bytes) \<Rightarrow> ('s, 'g) persistent_leaf
     \<Rightarrow> 'e persist_error + leaf_material" where
  "current_material P sha256 leaf =
     and_then (ok_or Unavailable (pl_registry leaf)) (\<lambda>r.
     map_err InvalidRecord (material_from_registry P sha256 r))"

definition finish_write ::
  "journal_revision \<Rightarrow> ('s, 'g) persistent_leaf \<Rightarrow> ('s, 'g) persistent_leaf" where
  "finish_write revision leaf =
     (case pl_pending leaf of
       None \<Rightarrow> leaf
     | Some pending \<Rightarrow> leaf\<lparr>pl_pending := None, pl_material := lj_material (pw_next pending),
                          pl_revision := revision\<rparr>)"

definition invalidate :: "('s, 'g) persistent_leaf \<Rightarrow> ('s, 'g) persistent_leaf" where
  "invalidate leaf = leaf\<lparr>pl_pending := None, pl_registry := None\<rparr>"

text \<open>The compare-and-set of the pending journal at the leaf's revision.\<close>

definition write_pending ::
  "('e, 'st) leaf_store \<Rightarrow> leaf_journal \<Rightarrow> ('s, 'g) persistent_leaf \<Rightarrow> 'st
     \<Rightarrow> ('e persist_error + unit) \<times> ('s, 'g) persistent_leaf \<times> 'st" where
  "write_pending ops new leaf st =
     store_call (compare_exchange ops (pl_device leaf) (Some (pl_revision leaf)) new st)
       (\<lambda>e st. (Inl e, leaf, st)) (\<lambda>cas st.
     case cas of
       CasApplied revision \<Rightarrow> (Inr (), finish_write revision leaf, st)
     | CasConflict \<Rightarrow> (Inl Conflict, leaf, st))"

definition persist ::
  "('e, 'st) leaf_store \<Rightarrow> leaf_journal \<Rightarrow> leaf_journal \<Rightarrow> leaf_material option
     \<Rightarrow> ('s, 'g) persistent_leaf \<Rightarrow> 'st
     \<Rightarrow> ('e persist_error + unit) \<times> ('s, 'g) persistent_leaf \<times> 'st" where
  "persist ops previous new material leaf st =
     (let leaf' = leaf\<lparr>pl_pending := Some \<lparr>pw_previous = previous, pw_next = new,
                         pw_material_changed = (material \<noteq> None)\<rparr>\<rparr> in
      case material of
        None \<Rightarrow> write_pending ops new leaf' st
      | Some m \<Rightarrow> store_call (put_material ops m st) (\<lambda>e st. (Inl e, leaf', st))
          (\<lambda>_ st. write_pending ops new leaf' st))"

definition reconcile ::
  "('s, 'g::zero) profile \<Rightarrow> (bytes \<Rightarrow> bytes) \<Rightarrow> ('e, 'st) leaf_store \<Rightarrow> ('s, 'g) persistent_leaf \<Rightarrow> 'st
     \<Rightarrow> ('e persist_error + unit) \<times> ('s, 'g) persistent_leaf \<times> 'st" where
  "reconcile P sha256 ops leaf st =
     (case pl_pending leaf of
       None \<Rightarrow> (if pl_registry leaf \<noteq> None then Inr () else Inl Unavailable, leaf, st)
     | Some pending \<Rightarrow>
         store_call (get_journal ops (pl_device leaf) st) (\<lambda>e st. (Inl e, leaf, st)) (\<lambda>found st.
         case found of
           None \<Rightarrow> (Inl Conflict, invalidate leaf, st)
         | Some current \<Rightarrow>
             if sj_journal current = pw_next pending
               then (Inr (), finish_write (sj_revision current) leaf, st)
             else if sj_revision current \<noteq> pl_revision leaf then (Inl Conflict, invalidate leaf, st)
             else if sj_journal current \<noteq> pw_previous pending then (Inl Conflict, invalidate leaf, st)
             else if pw_material_changed pending then
               (case current_material P sha256 leaf of
                 Inl e \<Rightarrow> (Inl e, leaf, st)
               | Inr material \<Rightarrow>
                   if lm_id material \<noteq> lj_material (pw_next pending)
                   then (Inl (InvalidRecord CommandMismatch), invalidate leaf, st)
                   else store_call (put_material ops material st) (\<lambda>e st. (Inl e, leaf, st))
                     (\<lambda>_ st. write_pending ops (pw_next pending) leaf st))
             else write_pending ops (pw_next pending) leaf st))"

section \<open>Transitions\<close>

type_synonym ('s, 'g, 'a) leaf_operation =
  "('s, 'g) leaf_registry \<Rightarrow> 'a result \<times> ('s, 'g) leaf_registry"

definition persistent_transition ::
  "('e, 'st) leaf_store \<Rightarrow> ('s, 'g, 'a) leaf_operation \<Rightarrow> ('s, 'g) persistent_leaf \<Rightarrow> 'st
     \<Rightarrow> ('e persist_error + 'a) \<times> ('s, 'g) persistent_leaf \<times> 'st" where
  "persistent_transition ops operation leaf st =
     (case and_then (ready_journal leaf) (\<lambda>previous.
         and_then (ready_registry leaf) (\<lambda>r. Inr (previous, r))) of
       Inl e \<Rightarrow> (Inl e, leaf, st)
     | Inr (previous, r) \<Rightarrow>
         let (result, r') = operation r; leaf' = leaf\<lparr>pl_registry := Some r'\<rparr> in
         case ready_journal leaf' of
           Inl e \<Rightarrow> (Inl e, leaf', st)
         | Inr new \<Rightarrow>
             if new \<noteq> previous then
               (case persist ops previous new None leaf' st of
                 (Inl e, leaf'', st') \<Rightarrow> (Inl e, leaf'', st')
               | (Inr _, leaf'', st') \<Rightarrow> (map_err Protocol result, leaf'', st'))
             else (map_err Protocol result, leaf', st))"

definition material_transition ::
  "('s, 'g::zero) profile \<Rightarrow> (bytes \<Rightarrow> bytes) \<Rightarrow> ('e, 'st) leaf_store \<Rightarrow> ('s, 'g, 'a) leaf_operation
     \<Rightarrow> ('s, 'g) persistent_leaf \<Rightarrow> 'st
     \<Rightarrow> ('e persist_error + 'a) \<times> ('s, 'g) persistent_leaf \<times> 'st" where
  "material_transition P sha256 ops operation leaf st =
     (case and_then (ready_journal leaf) (\<lambda>previous.
         and_then (ready_registry leaf) (\<lambda>r. Inr (previous, r))) of
       Inl e \<Rightarrow> (Inl e, leaf, st)
     | Inr (previous, r) \<Rightarrow>
         let (result, r') = operation r; leaf' = leaf\<lparr>pl_registry := Some r'\<rparr> in
         case result of
           Inr output \<Rightarrow>
             (case current_material P sha256 leaf' of
               Inl e \<Rightarrow> (Inl e, invalidate leaf', st)
             | Inr material \<Rightarrow>
                 (case and_then (ready_registry leaf') (\<lambda>r.
                     map_err InvalidRecord (journal_from_registry (lm_id material) r)) of
                   Inl e \<Rightarrow> (Inl e, leaf', st)
                 | Inr new \<Rightarrow>
                     (case persist ops previous new (Some material) leaf' st of
                       (Inl e, leaf'', st') \<Rightarrow> (Inl e, leaf'', st')
                     | (Inr _, leaf'', st') \<Rightarrow> (Inr output, leaf'', st'))))
         | Inl error \<Rightarrow>
             (case ready_journal leaf' of
               Inl e \<Rightarrow> (Inl e, leaf', st)
             | Inr new \<Rightarrow>
                 if new \<noteq> previous then
                   (case persist ops previous new None leaf' st of
                     (Inl e, leaf'', st') \<Rightarrow> (Inl e, leaf'', st')
                   | (Inr _, leaf'', st') \<Rightarrow> (Inl (Protocol error), leaf'', st'))
                 else (Inl (Protocol error), leaf', st)))"

section \<open>Operations\<close>

definition persistent_add_vault where
  "persistent_add_vault P sha256 ops device epoch =
     material_transition P sha256 ops (leaf_add_vault P device epoch)"

definition persistent_reserve where
  "persistent_reserve P ops session now bs outer_support =
     persistent_transition ops (leaf_reserve P session now bs outer_support)"

text \<open>The random source is the operation's own; it moves only when the operation runs.\<close>

definition persistent_commit ::
  "('s::field, 'g::zero) profile \<Rightarrow> ('r \<Rightarrow> 's \<times> 'r) \<Rightarrow> ('e, 'st) leaf_store \<Rightarrow> leaf_attempt \<Rightarrow> bytes
     \<Rightarrow> ('s, 'g) persistent_leaf \<Rightarrow> 'st \<Rightarrow> 'r
     \<Rightarrow> ((('e persist_error + 's) \<times> ('s, 'g) persistent_leaf \<times> 'st) \<times> 'r) option" where
  "persistent_commit P draw ops attempt reservation_bytes leaf st rng =
     (case and_then (ready_journal leaf) (\<lambda>_. ready_registry leaf) of
       Inl e \<Rightarrow> Some ((Inl e, leaf, st), rng)
     | Inr r \<Rightarrow>
         (case leaf_commit P draw attempt reservation_bytes r rng of
           None \<Rightarrow> None
         | Some (done, rng') \<Rightarrow> Some (persistent_transition ops (\<lambda>_. done) leaf st, rng')))"

definition persistent_reveal where
  "persistent_reveal P ops attempt deliveries =
     persistent_transition ops (leaf_reveal P attempt deliveries)"

definition persistent_fix where
  "persistent_fix P ops attempt deliveries = persistent_transition ops (leaf_fix P attempt deliveries)"

definition persistent_respond where
  "persistent_respond P ops attempt root_bytes =
     persistent_transition ops (leaf_respond P attempt root_bytes)"

definition persistent_close where
  "persistent_close ops attempt = persistent_transition ops (leaf_close attempt)"

definition persistent_receive_abort where
  "persistent_receive_abort ops abort = persistent_transition ops (leaf_receive_abort abort)"

definition persistent_close_expired where
  "persistent_close_expired ops now =
     persistent_transition ops (\<lambda>r. let (closed, r') = leaf_close_expired now r in (Inr closed, r'))"

definition persistent_activate_inner where
  "persistent_activate_inner P sha256 ops epoch identity member =
     material_transition P sha256 ops (leaf_activate_inner P epoch identity member)"

definition persistent_activate_inner_bundle where
  "persistent_activate_inner_bundle P sha256 ops identity members =
     material_transition P sha256 ops (leaf_activate_inner_bundle P identity members)"

definition persistent_activate_outer where
  "persistent_activate_outer P sha256 ops epoch member =
     material_transition P sha256 ops (leaf_activate_outer P epoch member)"

end
