(* ===== verification/Ksnf_Record_Proofs.thy ===== *)
theory Ksnf_Record_Proofs
  imports Ksnf_Record Ksnf_Transcript_Proofs
begin

text \<open>
  The storage records are canonical: decoding succeeds exactly on the encodings of the records
  the types and the checks allow, and returns the record encoded.
\<close>

text \<open>The magics are arrays of eight bytes.\<close>

definition magics_ok :: "('s, 'g) profile \<Rightarrow> bool" where
  "magics_ok P \<longleftrightarrow> length (pf_material_magic P) = 8 \<and> length (pf_journal_magic P) = 8"

lemma magics_secp256k1: "magics_ok (secp256k1_profile c h)"
  by (simp add: magics_ok_def secp256k1_profile_def group_crate.defs ascii_bytes_def)

lemma magics_ed25519: "magics_ok (ed25519_profile c h)"
  by (simp add: magics_ok_def ed25519_profile_def group_crate.defs ascii_bytes_def)

lemma parses_fixed: "parses (get_fixed n) (\<lambda>x bs. length x = n \<and> bs = x)"
  by (rule parses_codec [OF fixed_codec])

text \<open>A sequence whose second part is read only after the first is as it should be.\<close>

lemma parses_guarded:
  assumes "\<And>x. c x \<Longrightarrow> parses (k x) (S x)"
  shows "parses (get_then (get_ensure e (c x)) (\<lambda>_. k x)) (\<lambda>y bs. c x \<and> S x y bs)"
proof (cases "c x")
  case True
  then show ?thesis using assms [OF True] by (simp add: get_then_def [abs_def] get_ensure_def)
next
  case False
  then show ?thesis by (simp add: parses_def get_then_def get_ensure_def)
qed

section \<open>Journals\<close>

definition journal_ok :: "leaf_journal \<Rightarrow> bool" where
  "journal_ok j \<longleftrightarrow> (case lj_live j of None \<Rightarrow> True
     | Some a \<Rightarrow> la_device a = lj_device j \<and> checked_succ (la_sequence a) = Some (lj_next_sequence j))"

lemma leaf_journal_new_Inr [result_simps]:
  "leaf_journal_new d m n live = Inr j \<longleftrightarrow>
     j = \<lparr>lj_device = d, lj_material = m, lj_next_sequence = n, lj_live = live\<rparr> \<and> journal_ok j"
  by (auto simp: leaf_journal_new_def journal_ok_def split: option.splits)

lemma leaf_attempt_collapse:
  "la_device a = d \<Longrightarrow> \<lparr>la_device = d, la_sequence = la_sequence a\<rparr> = a"
  by (cases a) simp

definition journal_tail :: "leaf_attempt option \<Rightarrow> bytes" where
  "journal_tail live =
     (case live of None \<Rightarrow> replicate 9 0 | Some a \<Rightarrow> 1 # put_u64 (la_sequence a))"

lemma nine_zeros: "replicate 9 (0 :: u8) = 0 # put_u64 0"
  by code_simp

lemma parses_journal_live:
  "parses (journal_live_getter d) (\<lambda>live bs. (\<forall>a. live = Some a \<longrightarrow> la_device a = d)
     \<and> bs = journal_tail live)"
  unfolding journal_live_getter_def
proof (rule parses_cong, (rule parses_intros)+, goal_cases)
  case (1 live bs)
  show ?case
    by (cases live) (auto simp: nine_zeros journal_tail_def put_u8_def leaf_attempt_collapse)
qed

lemma parses_journal:
  "parses (journal_getter P) (\<lambda>(d, m, n, live) bs. (\<forall>a. live = Some a \<longrightarrow> la_device a = d)
     \<and> length (pf_journal_magic P) = 8
     \<and> bs = pf_journal_magic P @ ident_bytes d @ ident_bytes m @ put_u64 n @ journal_tail live)"
  unfolding journal_getter_def
  by (rule parses_cong, (rule parses_intros parses_fixed parses_journal_live)+) auto

theorem decode_journal_iff:
  assumes "magics_ok P" "length bs < 2 ^ 64"
  shows "decode_journal P bs = Inr j \<longleftrightarrow> journal_ok j \<and> encode_journal P j = bs"
proof -
  note all = decode_all_iff [OF parses_journal assms(2), of P]
  have "decode_journal P bs = Inr j \<longleftrightarrow> journal_ok j
      \<and> decode_all (journal_getter P) bs =
        Inr (lj_device j, lj_material j, lj_next_sequence j, lj_live j)"
    by (cases j) (auto simp: decode_journal_def result_simps)
  also have "\<dots> \<longleftrightarrow> journal_ok j \<and> encode_journal P j = bs"
    using assms(1) unfolding all
    by (auto simp: magics_ok_def encode_journal_def journal_tail_def journal_ok_def split: option.splits)
  finally show ?thesis .
qed

lemma length_encode_journal: "magics_ok P \<Longrightarrow> length (encode_journal P j) = 89"
  by (cases "lj_live j") (simp_all add: encode_journal_def magics_ok_def)

section \<open>Material\<close>

definition vault_typed :: "('s::zero, 'g::zero) vault_state \<Rightarrow> bool" where
  "vault_typed v \<longleftrightarrow> vs_outer_node v \<noteq> 0 \<and> vs_member_point v \<noteq> 0 \<and> vs_vault_key v \<noteq> 0
     \<and> (\<forall>(_, n, m) \<in> set (om_people (vs_outer_map v)). n \<noteq> 0 \<and> m \<noteq> 0)"

text \<open>What the types \<open>Node\<close>, \<open>Point\<close> and \<open>BTreeMap\<close> keep of a registry.\<close>

definition registry_typed :: "('s::zero, 'g::zero) leaf_registry \<Rightarrow> bool" where
  "registry_typed r \<longleftrightarrow> lr_node r \<noteq> 0 \<and> lr_identity_key r \<noteq> 0
     \<and> (\<forall>(_, n, _) \<in> set (im_devices (lr_identity_map r)). n \<noteq> 0)
     \<and> bt_sorted (lr_vaults r) \<and> (\<forall>x \<in> set (lr_vaults r). vault_typed (snd x))"

lemma unat_eq_len:
  "length xs = unat (c :: u32) \<longleftrightarrow> length xs < 2 ^ 32 \<and> c = word_of_nat (length xs)"
  using unsigned_less [of c] by (auto simp: unat_of_nat)

lemma word_of_nat_u32_zero: "n < 2 ^ 32 \<Longrightarrow> (word_of_nat n :: u32) = 0 \<longleftrightarrow> n = 0"
proof -
  assume "n < 2 ^ 32"
  then have "unat (word_of_nat n :: u32) = n" by (simp add: unat_of_nat)
  then show ?thesis using unat_eq_zero [of "word_of_nat n :: u32"] by simp
qed

lemma put_len_Inr [result_simps]: "put_len n = Inr bs \<longleftrightarrow> n < 2 ^ 32 \<and> bs = put_u32 (word_of_nat n)"
  by (auto simp: put_len_def checked_len_def)

lemma checked_len_Inr [result_simps]:
  "checked_len n = Inr c \<longleftrightarrow> n < 2 ^ 32 \<and> c = word_of_nat n"
  by (auto simp: checked_len_def)

lemma parses_node:
  assumes "group_ok P"
  shows "parses (get_node P) (\<lambda>n bs. n \<noteq> 0 \<and> bs = put_scalar P n)"
  unfolding get_node_def
  by (rule parses_cong, (rule parses_intros assms)+) (auto simp: node_new_def)

lemma parses_counted:
  assumes "parses g (\<lambda>x bs. V x \<and> bs = enc x)"
  shows "parses (get_then get_u32 (\<lambda>n. get_many (unat n) g)) (\<lambda>xs bs. (\<forall>x \<in> set xs. V x)
    \<and> length xs < 2 ^ 32 \<and> bs = put_u32 (word_of_nat (length xs)) @ concat (map enc xs))"
  by (rule parses_cong, (rule parses_intros parses_many assms)+) (auto simp: unat_eq_len)

lemma parses_elements:
  assumes "group_ok P"
  shows "parses (get_elements P) (\<lambda>xs bs. put_elements P xs = Inr bs)"
  unfolding get_elements_def
  by (rule parses_cong, rule parses_counted, rule parses_element [OF assms])
     (auto simp: put_elements_def result_simps)

lemma parses_people:
  assumes "group_ok P"
  shows "parses (get_outer_people P) (\<lambda>xs bs. (\<forall>(_, n, m) \<in> set xs. n \<noteq> 0 \<and> m \<noteq> 0)
    \<and> put_outer_people P xs = Inr bs)"
proof -
  have "parses (get_then get_ident (\<lambda>person. get_then (get_node P) (\<lambda>node.
        get_then (get_point P) (\<lambda>member. get_return (person, node, member)))))
      (\<lambda>x bs. (case x of (_, n, m) \<Rightarrow> n \<noteq> 0 \<and> m \<noteq> 0)
        \<and> bs = (case x of (p, n, m) \<Rightarrow> ident_bytes p @ put_scalar P n @ put_point P m))"
    by (rule parses_cong, (rule parses_intros parses_node assms)+) auto
  from parses_counted [OF this] show ?thesis
    unfolding get_outer_people_def
    by (rule parses_cong) (auto simp: put_outer_people_def result_simps)
qed

lemma parses_devices:
  assumes "group_ok P"
  shows "parses (get_identity_devices P) (\<lambda>xs bs. (\<forall>(_, n, _) \<in> set xs. n \<noteq> 0)
    \<and> put_identity_devices P xs = Inr bs)"
proof -
  have "parses (get_then get_ident (\<lambda>device. get_then (get_node P) (\<lambda>node.
        get_then (get_element P) (\<lambda>share. get_return (device, node, share)))))
      (\<lambda>x bs. (case x of (_, n, _) \<Rightarrow> n \<noteq> 0)
        \<and> bs = (case x of (d, n, s) \<Rightarrow> ident_bytes d @ put_scalar P n @ put_element P s))"
    by (rule parses_cong, (rule parses_intros parses_node assms)+) auto
  from parses_counted [OF this] show ?thesis
    unfolding get_identity_devices_def
    by (rule parses_cong) (auto simp: put_identity_devices_def result_simps)
qed

lemma vault_state_eq [record_eqs]:
  "v = \<lparr>vs_outer_node = a, vs_outer_epoch = b, vs_member_handle = c, vs_member_point = d,
        vs_vault_key = e, vs_anchor = f, vs_member_map = g, vs_outer_map = h\<rparr> \<longleftrightarrow>
     vs_outer_node v = a \<and> vs_outer_epoch v = b \<and> vs_member_handle v = c \<and> vs_member_point v = d
     \<and> vs_vault_key v = e \<and> vs_anchor v = f \<and> vs_member_map v = g \<and> vs_outer_map v = h"
  by (cases v) simp

lemma outer_map_eq [record_eqs]:
  "m = \<lparr>om_commitments = a, om_people = b\<rparr> \<longleftrightarrow> om_commitments m = a \<and> om_people m = b"
  by (cases m) simp

lemma identity_map_eq [record_eqs]:
  "m = \<lparr>im_commitments = a, im_devices = b\<rparr> \<longleftrightarrow> im_commitments m = a \<and> im_devices m = b"
  by (cases m) simp

lemma parses_vault:
  assumes "group_ok P"
  shows "parses (get_vault P) (\<lambda>v bs. vault_typed v
    \<and> (\<exists>cs. bs = cs \<and> put_vault P (k, v) = Inr (ident_bytes k @ cs)))"
  unfolding get_vault_def
  by (rule parses_cong, (rule parses_intros parses_node parses_elements parses_people assms)+)
     (auto simp: put_vault_def result_simps record_eqs vault_typed_def)

lemma put_vault_prefix: "put_vault P (k, v) = Inr b \<Longrightarrow> \<exists>cs. b = ident_bytes k @ cs"
  by (auto simp: put_vault_def result_simps)

lemma bt_insert_last:
  "\<forall>x \<in> set m. fst x < k \<Longrightarrow> bt_insert k v m = m @ [(k, v)]"
  by (induction m) auto

lemma sorted_last_less:
  fixes k :: "'a::linorder"
  assumes "sorted_wrt (<) (map fst m)" "m \<noteq> []"
  shows "(\<forall>x \<in> set m. fst x < k) \<longleftrightarrow> fst (last m) < k"
proof -
  obtain n x where m: "m = n @ [x]" using assms(2) by (metis append_butlast_last_id)
  then show ?thesis using assms(1) by (auto simp: sorted_wrt_append)
qed

definition last_key :: "('k \<times> 'v) list \<Rightarrow> 'k option" where
  "last_key m = (if m = [] then None else Some (fst (last m)))"

lemma parses_vaults:
  assumes "group_ok P" "bt_sorted vs" "previous = last_key vs"
  shows "parses (get_vaults P n previous vs) (\<lambda>m bs. \<exists>new bss. m = vs @ new \<and> length new = n
    \<and> bt_sorted m \<and> (\<forall>x \<in> set new. vault_typed (snd x))
    \<and> collect_results (put_vault P) new = Inr bss \<and> bs = concat bss)"
  using assms(2,3)
proof (induction n arbitrary: vs previous)
  case 0
  then show ?case by (auto intro: parses_cong [OF parses_return])
next
  case (Suc n)
  let ?R = "\<lambda>vs n m bs. \<exists>new bss. m = vs @ new \<and> length new = n
    \<and> bt_sorted m \<and> (\<forall>x \<in> set new. vault_typed (snd x))
    \<and> collect_results (put_vault P) new = Inr bss \<and> bs = concat bss"
  have above: "(case previous of None \<Rightarrow> True | Some p \<Rightarrow> p < k) \<longleftrightarrow> (\<forall>x \<in> set vs. fst x < k)" for k
    using Suc.prems sorted_last_less [of vs k] by (auto simp: last_key_def)
  have step: "parses (get_then (get_ensure DuplicateParticipant (map_of vs k = None))
        (\<lambda>_. get_vaults P n (Some k) (bt_insert k v vs)))
      (\<lambda>m bs. ?R (vs @ [(k, v)]) n m bs)" if "\<forall>x \<in> set vs. fst x < k" for k v
  proof -
    have "map_of vs k = None" using that by (auto simp: map_of_eq_None_iff)
    moreover have "parses (get_vaults P n (Some k) (vs @ [(k, v)])) (?R (vs @ [(k, v)]) n)"
      using that Suc.prems(1) by (intro Suc.IH) (auto simp: last_key_def sorted_wrt_append)
    ultimately show ?thesis
      by (simp add: bt_insert_last that get_then_def [abs_def] get_ensure_def)
  qed
  have "parses (get_vaults P (Suc n) previous vs) (\<lambda>m bs. \<exists>k as cs. bs = as @ cs
      \<and> (True \<and> as = ident_bytes k) \<and> (\<forall>x \<in> set vs. fst x < k)
      \<and> (\<exists>v as' cs'. cs = as' @ cs' \<and> (vault_typed v
           \<and> (\<exists>xs. as' = xs \<and> put_vault P (k, v) = Inr (ident_bytes k @ xs)))
         \<and> ?R (vs @ [(k, v)]) n m cs'))"
    unfolding get_vaults.simps above
    by (intro parses_then parses_intros parses_guarded parses_vault assms(1) step)
  then show ?case
  proof (rule parses_cong, intro iffI, goal_cases)
    case (1 m bs)
    then obtain k v xs new bss where "bs = ident_bytes k @ xs @ concat bss" "vault_typed v"
      "put_vault P (k, v) = Inr (ident_bytes k @ xs)" "m = (vs @ [(k, v)]) @ new" "length new = n"
      "bt_sorted m" "\<forall>x \<in> set new. vault_typed (snd x)" "collect_results (put_vault P) new = Inr bss"
      by blast
    then show ?case
      by (intro exI [of _ "(k, v) # new"] exI [of _ "(ident_bytes k @ xs) # bss"]) simp
  next
    case (2 m bs)
    then obtain k v new b bss where new: "m = vs @ (k, v) # new" "length new = n" "bt_sorted m"
      "vault_typed v" "\<forall>x \<in> set new. vault_typed (snd x)" "put_vault P (k, v) = Inr b"
      "collect_results (put_vault P) new = Inr bss" "bs = b @ concat bss"
      by (auto simp: length_Suc_conv and_then_Inr_iff)
    from put_vault_prefix [OF new(6)] obtain xs where b: "b = ident_bytes k @ xs" by blast
    have "\<forall>x \<in> set vs. fst x < k" using new(1,3) by (auto simp: sorted_wrt_append)
    moreover have "?R (vs @ [(k, v)]) n m (concat bss)"
      using new(1,2,3,5,7) by (intro exI [of _ new] exI [of _ bss]) simp
    ultimately show ?case
      using new(4,6,8) unfolding b by (metis append_assoc)
  qed
qed

lemmas parses_all_vaults = parses_vaults [where vs = "[]" and previous = None, simplified last_key_def,
  simplified]

text \<open>A whole record.\<close>

lemma leaf_registry_eq [record_eqs]:
  "r = \<lparr>lr_device = a, lr_person = b, lr_node = c, lr_identity_map = d, lr_identity_key = e,
        lr_identity = f, lr_inner_epoch = g, lr_identity_handle = h, lr_vaults = i, lr_live = j,
        lr_next_sequence = k\<rparr> \<longleftrightarrow>
     lr_device r = a \<and> lr_person r = b \<and> lr_node r = c \<and> lr_identity_map r = d
     \<and> lr_identity_key r = e \<and> lr_identity r = f \<and> lr_inner_epoch r = g
     \<and> lr_identity_handle r = h \<and> lr_vaults r = i \<and> lr_live r = j \<and> lr_next_sequence r = k"
  by (cases r) simp

lemma put_vault_lengths:
  "put_vault P (k, v) = Inr bs \<Longrightarrow> length (vs_member_map v) < 2 ^ 32
     \<and> length (om_commitments (vs_outer_map v)) < 2 ^ 32 \<and> length (om_people (vs_outer_map v)) < 2 ^ 32"
  by (auto simp: put_vault_def put_elements_def put_outer_people_def result_simps)

lemma check_lengths_Inr:
  assumes "put_elements P (im_commitments (lr_identity_map r)) = Inr a"
    and "put_identity_devices P (im_devices (lr_identity_map r)) = Inr b"
    and "put_len (length (lr_vaults r)) = Inr c"
    and "collect_results (put_vault P) (lr_vaults r) = Inr d"
  shows "check_lengths r = Inr ()"
proof -
  have "\<exists>ys. collect_results (\<lambda>(_, vault).
       and_then (checked_len (length (vs_member_map vault))) (\<lambda>_.
       and_then (checked_len (length (om_commitments (vs_outer_map vault)))) (\<lambda>_.
       checked_len (length (om_people (vs_outer_map vault)))))) vs = Inr ys"
    if "collect_results (put_vault P) vs = Inr ds" for vs :: "(vault_id \<times> ('a, 'b) vault_state) list" and ds
    using that
  proof (induction vs arbitrary: ds)
    case (Cons x vs)
    then obtain y ys where y: "put_vault P x = Inr y" "collect_results (put_vault P) vs = Inr ys"
      by (auto simp: and_then_Inr_iff)
    obtain k v where x: "x = (k, v)" by (cases x)
    from put_vault_lengths [OF y(1) [unfolded x]] Cons.IH [OF y(2)] show ?case
      by (auto simp: x checked_len_def)
  qed simp
  from this [OF assms(4)] assms(1-3) show ?thesis
    by (auto simp: check_lengths_def put_elements_def put_identity_devices_def result_simps checked_len_def)
qed

lemma encode_material_Inr:
  "encode_material P r = Inr bs \<longleftrightarrow> lr_live r = None \<and> (\<exists>a b c d.
     put_elements P (im_commitments (lr_identity_map r)) = Inr a
     \<and> put_identity_devices P (im_devices (lr_identity_map r)) = Inr b
     \<and> put_len (length (lr_vaults r)) = Inr c
     \<and> collect_results (put_vault P) (lr_vaults r) = Inr d
     \<and> bs = pf_material_magic P @ ident_bytes (lr_device r) @ ident_bytes (lr_person r)
          @ put_scalar P (lr_node r) @ a @ b @ put_point P (lr_identity_key r)
          @ put_scalar P (lr_identity r) @ put_u64 (lr_inner_epoch r)
          @ ident_bytes (lr_identity_handle r) @ c @ concat d)"
  (is "_ \<longleftrightarrow> ?rhs")
proof
  assume ?rhs
  then obtain a b c d where "lr_live r = None"
    "put_elements P (im_commitments (lr_identity_map r)) = Inr a"
    "put_identity_devices P (im_devices (lr_identity_map r)) = Inr b"
    "put_len (length (lr_vaults r)) = Inr c" "collect_results (put_vault P) (lr_vaults r) = Inr d"
    "bs = pf_material_magic P @ ident_bytes (lr_device r) @ ident_bytes (lr_person r)
          @ put_scalar P (lr_node r) @ a @ b @ put_point P (lr_identity_key r)
          @ put_scalar P (lr_identity r) @ put_u64 (lr_inner_epoch r)
          @ ident_bytes (lr_identity_handle r) @ c @ concat d"
    by blast
  then show "encode_material P r = Inr bs"
    by (simp add: encode_material_def check_lengths_Inr)
qed (auto simp: encode_material_def and_then_Inr_iff split: if_splits)

lemma parses_material:
  assumes "group_ok P"
  shows "parses (material_getter P) (\<lambda>r bs. length (pf_material_magic P) = 8 \<and> registry_typed r
    \<and> lr_vaults r \<noteq> [] \<and> lr_live r = None \<and> lr_next_sequence r = 0 \<and> encode_material P r = Inr bs)"
  unfolding material_getter_def
  by (rule parses_cong, (rule parses_intros parses_fixed parses_node parses_elements parses_devices
        parses_all_vaults assms)+)
     (auto simp: encode_material_Inr record_eqs put_len_Inr unat_eq_len word_of_nat_u32_zero
        registry_typed_def)

theorem decode_material_iff:
  assumes "group_ok P" "magics_ok P" "length bs < 2 ^ 64"
  shows "decode_material P bs = Inr r \<longleftrightarrow> registry_typed r \<and> lr_vaults r \<noteq> []
    \<and> lr_next_sequence r = 0 \<and> validate_material P r = Inr () \<and> encode_material P r = Inr bs"
  using decode_all_iff [OF parses_material [OF assms(1)] assms(3)] assms(2)
  by (auto simp: decode_material_def and_then_Inr_iff magics_ok_def encode_material_Inr)

text \<open>
  Encoding is total: a live attempt and a collection longer than a \<open>u32\<close> count are the only
  errors, in that order.
\<close>

definition counts_fit :: "('s, 'g) leaf_registry \<Rightarrow> bool" where
  "counts_fit r \<longleftrightarrow> length (im_commitments (lr_identity_map r)) < 2 ^ 32
     \<and> length (im_devices (lr_identity_map r)) < 2 ^ 32 \<and> length (lr_vaults r) < 2 ^ 32
     \<and> (\<forall>(_, v) \<in> set (lr_vaults r). length (vs_member_map v) < 2 ^ 32
         \<and> length (om_commitments (vs_outer_map v)) < 2 ^ 32 \<and> length (om_people (vs_outer_map v)) < 2 ^ 32)"

lemma counts_fit_live [simp]: "counts_fit (r\<lparr>lr_live := live\<rparr>) = counts_fit r"
  by (simp add: counts_fit_def)

lemma collect_results_Inl:
  "collect_results f xs = Inl e \<Longrightarrow> \<exists>x \<in> set xs. f x = Inl e"
  by (induction xs) (auto simp: and_then_def split: sum.splits)

lemma collect_results_returns:
  "(\<exists>ys. collect_results f xs = Inr ys) \<longleftrightarrow> (\<forall>x \<in> set xs. \<exists>y. f x = Inr y)"
  by (induction xs) (auto simp: result_simps and_then_Inr_iff)

lemma check_lengths_overflow: "check_lengths r = Inl e \<Longrightarrow> e = LengthOverflow"
  by (auto simp: check_lengths_def checked_len_def and_then_def dest!: collect_results_Inl
      split: sum.splits if_splits)

lemma checked_len_returns: "(\<exists>n. checked_len k = Inr n) \<longleftrightarrow> k < 2 ^ 32"
  by (simp add: checked_len_def)

lemma check_lengths_iff: "check_lengths r = Inr () \<longleftrightarrow> counts_fit r"
proof -
  have "check_lengths r = Inr () \<longleftrightarrow>
    (\<exists>n. checked_len (length (im_commitments (lr_identity_map r))) = Inr n)
    \<and> (\<exists>n. checked_len (length (im_devices (lr_identity_map r))) = Inr n)
    \<and> (\<exists>n. checked_len (length (lr_vaults r)) = Inr n)
    \<and> (\<exists>ns. collect_results (\<lambda>(_, vault).
       and_then (checked_len (length (vs_member_map vault))) (\<lambda>_.
       and_then (checked_len (length (om_commitments (vs_outer_map vault)))) (\<lambda>_.
       checked_len (length (om_people (vs_outer_map vault)))))) (lr_vaults r) = Inr ns)"
    by (simp add: check_lengths_def and_then_Inr_iff)
  then show ?thesis
    by (simp add: collect_results_returns counts_fit_def and_then_Inr_iff checked_len_returns split_beta)
qed

lemma encode_material_overflow:
  "lr_live r = None \<Longrightarrow> \<not> counts_fit r \<Longrightarrow> encode_material P r = Inl LengthOverflow"
  by (cases "check_lengths r")
     (auto simp: encode_material_def check_lengths_iff dest: check_lengths_overflow)

lemma encode_material_total:
  assumes "lr_live r = None" "counts_fit r"
  shows "\<exists>bs. encode_material P r = Inr bs"
proof -
  have "\<exists>ys. collect_results (put_vault P) (lr_vaults r) = Inr ys"
    using assms(2) by (simp add: collect_results_returns split_beta)
      (fastforce simp: counts_fit_def put_vault_def put_elements_def put_outer_people_def put_len_def
        checked_len_def)
  with assms show ?thesis
    by (auto simp: encode_material_Inr counts_fit_def put_elements_def put_identity_devices_def
        put_len_def checked_len_def)
qed

lemma encode_material_busy_iff: "encode_material P r = Inl Busy \<longleftrightarrow> lr_live r \<noteq> None"
proof (cases "lr_live r")
  case None
  have "encode_material P r \<noteq> Inl Busy"
  proof (cases "counts_fit r")
    case True
    with encode_material_total [OF None, of P] show ?thesis by auto
  next
    case False
    with encode_material_overflow [OF None, of P] show ?thesis by simp
  qed
  with None show ?thesis by simp
qed (simp add: encode_material_def)

end
