(* ===== verification/Ksnf_Persistent_Proofs.thy ===== *)
theory Ksnf_Persistent_Proofs
  imports Ksnf_Persistent Ksnf_Record_Proofs Ksnf_Leaf_Proofs
begin

text \<open>
  Several leaves over one store: creations, loads and operations interleave, a process may stop
  at any point and another may load its device, and every call of the store may fail before or
  after it has written. Whatever happens, a leaf at the store's revision holds the store's
  journal, so that journals only move forward.
\<close>

section \<open>Journals in time\<close>

definition journal_issued :: "leaf_journal \<Rightarrow> leaf_attempt \<Rightarrow> bool" where
  "journal_issued j a \<longleftrightarrow> la_device a = lj_device j \<and> la_sequence a < lj_next_sequence j"

definition journal_progress :: "leaf_journal \<Rightarrow> leaf_journal \<Rightarrow> bool" where
  "journal_progress j j' \<longleftrightarrow> lj_device j' = lj_device j
     \<and> lj_next_sequence j \<le> lj_next_sequence j'
     \<and> (\<forall>a. lj_live j' = Some a \<longrightarrow> lj_live j = Some a \<or> \<not> journal_issued j a)"

lemma journal_progress_refl [simp]: "journal_progress j j"
  by (simp add: journal_progress_def)

lemma journal_progress_trans:
  "journal_progress i j \<Longrightarrow> journal_progress j k \<Longrightarrow> journal_progress i k"
  by (fastforce simp: journal_progress_def journal_issued_def)

lemma journal_closed_mono:
  "journal_progress j j' \<Longrightarrow> journal_is_closed j a \<Longrightarrow> journal_is_closed j' a"
  by (auto simp: journal_progress_def journal_is_closed_def journal_issued_def)

lemma journal_from_registry_Inr:
  "journal_from_registry m r = Inr j \<longleftrightarrow>
     j = \<lparr>lj_device = lr_device r, lj_material = m, lj_next_sequence = lr_next_sequence r,
          lj_live = leaf_live_attempt r\<rparr> \<and> journal_ok j"
  by (simp add: journal_from_registry_def leaf_journal_new_Inr)

lemma journal_from_registry_fields:
  "journal_from_registry m r = Inr j \<Longrightarrow> lj_device j = lr_device r \<and> lj_material j = m
     \<and> lj_next_sequence j = lr_next_sequence r \<and> lj_live j = leaf_live_attempt r \<and> journal_ok j"
  by (cases j) (simp add: journal_from_registry_Inr)

lemma journal_progress_registry:
  assumes "journal_from_registry m r = Inr j" "journal_from_registry m' r' = Inr j'" "leaf_progress r r'"
  shows "journal_progress j j'"
  using assms by (auto simp: journal_from_registry_Inr journal_progress_def leaf_progress_def
      journal_issued_def leaf_issued_def)

lemma decode_material_idle: "decode_material P bs = Inr r \<Longrightarrow> lr_live r = None"
  by (auto simp: decode_material_def decode_all_def material_getter_def get_then_def get_return_def
      and_then_Inr_iff)

section \<open>Operations\<close>

text \<open>
  What every operation of the registry keeps: attempts only move forward, and the live one is the
  latest issued, so that the registry has a journal.
\<close>

definition registry_journaled :: "('s, 'g) leaf_registry \<Rightarrow> bool" where
  "registry_journaled r \<longleftrightarrow> (case lr_live r of None \<Rightarrow> True | Some live \<Rightarrow>
     la_device (lv_attempt live) = lr_device r
     \<and> checked_succ (la_sequence (lv_attempt live)) = Some (lr_next_sequence r))"

lemma registry_journaled_iff:
  "registry_journaled r \<longleftrightarrow> (\<exists>j. journal_from_registry m r = Inr j)"
  by (simp add: registry_journaled_def journal_from_registry_Inr journal_ok_def leaf_live_attempt_def
      split: option.splits)

lemma registry_journaled_effect: "leaf_effect r r' \<Longrightarrow> registry_journaled r \<Longrightarrow> registry_journaled r'"
  by (auto simp: leaf_effect_def registry_journaled_def live_advances_def)

definition step_sound :: "('s, 'g) leaf_registry \<Rightarrow> ('s, 'g) leaf_registry \<Rightarrow> bool" where
  "step_sound r r' \<longleftrightarrow> registry_journaled r \<longrightarrow> leaf_progress r r' \<and> registry_journaled r'"

lemma effect_sound: "leaf_effect r r' \<Longrightarrow> step_sound r r'"
  by (simp add: step_sound_def leaf_effect_progress registry_journaled_effect)

lemma idle_sound:
  "lr_device r' = lr_device r \<Longrightarrow> lr_next_sequence r' = lr_next_sequence r \<Longrightarrow>
     lr_live r' = lr_live r \<or> lr_live r' = None \<Longrightarrow> step_sound r r'"
  by (cases "lr_live r")
     (auto simp: step_sound_def leaf_progress_def registry_journaled_def leaf_live_attempt_def)

lemma reserve_sound: "step_sound r (snd (leaf_reserve_with P session now bs rb os parsed r))"
proof (cases rule: leaf_reserve_with_cases [of r P session now bs rb os parsed])
  case kept
  from kept(1) show ?thesis by (rule effect_sound)
next
  case (issued reservation expiry vault nxt)
  from checked_succ_less [OF issued(5)] issued(1,5,6) show ?thesis
    by (auto simp: step_sound_def leaf_progress_def leaf_live_attempt_def leaf_issued_def
        registry_journaled_def)
qed

lemma add_vault_sound: "step_sound r (snd (leaf_add_vault P parts epoch r))"
  by (cases rule: add_vault_cases [of P parts epoch r]) (auto intro!: idle_sound)

lemma activate_inner_sound: "step_sound r (snd (leaf_activate_inner_bundle P identity members r))"
  using activate_inner_bundle_frame [of P identity members r]
  by (intro idle_sound) (auto simp: Let_def)

lemma activate_outer_sound: "step_sound r (snd (leaf_activate_outer P epoch member r))"
  using activate_outer_frame [of P epoch member r] by (intro idle_sound) (auto simp: Let_def)

lemma close_expired_sound:
  "step_sound r (snd (let (closed, r') = leaf_close_expired now r in (Inr closed, r')))"
  using leaf_close_expired_effect [of r now] by (simp add: effect_sound case_prod_beta Let_def)

lemmas operations_sound = reserve_sound add_vault_sound activate_inner_sound activate_outer_sound
  close_expired_sound effect_sound [OF leaf_reveal_effect] effect_sound [OF leaf_fix_effect]
  effect_sound [OF leaf_respond_with_effect] effect_sound [OF leaf_close_effect]
  effect_sound [OF leaf_receive_abort_effect]

section \<open>A leaf and the store\<close>

text \<open>
  What a leaf knows of the store: its revision is no later than the store's, and at the store's
  revision its own journal, or the one its pending write replaces, is the stored one.
\<close>

definition leaf_synced ::
  "(device_id \<Rightarrow> stored_journal option) \<Rightarrow> ('s, 'g) persistent_leaf \<Rightarrow> bool" where
  "leaf_synced J leaf \<longleftrightarrow>
     (\<exists>sj. J (pl_device leaf) = Some sj \<and> pl_revision leaf \<le> sj_revision sj
        \<and> (pl_revision leaf = sj_revision sj \<longrightarrow> (case pl_pending leaf of
             None \<Rightarrow> (\<forall>r. pl_registry leaf = Some r \<longrightarrow>
               journal_from_registry (pl_material leaf) r = Inr (sj_journal sj))
           | Some p \<Rightarrow> pw_previous p = sj_journal sj)))
     \<and> (\<forall>r. pl_registry leaf = Some r \<longrightarrow> lr_device r = pl_device leaf)
     \<and> (\<forall>p. pl_pending leaf = Some p \<longrightarrow> journal_progress (pw_previous p) (pw_next p)
          \<and> (\<exists>r. pl_registry leaf = Some r
               \<and> journal_from_registry (lj_material (pw_next p)) r = Inr (pw_next p)))"

text \<open>Journals are replaced under later revisions only, each by a later journal of its device.\<close>

definition journals_progress ::
  "(device_id \<Rightarrow> stored_journal option) \<Rightarrow> (device_id \<Rightarrow> stored_journal option) \<Rightarrow> bool" where
  "journals_progress J J' \<longleftrightarrow> (\<forall>d sj. J d = Some sj \<longrightarrow> (\<exists>sj'. J' d = Some sj'
     \<and> (sj' = sj \<or> sj_revision sj < sj_revision sj'
          \<and> journal_progress (sj_journal sj) (sj_journal sj'))))"

lemma journals_progress_refl [simp]: "journals_progress J J"
  by (simp add: journals_progress_def)

lemma journals_progress_trans:
  "journals_progress J K \<Longrightarrow> journals_progress K L \<Longrightarrow> journals_progress J L"
proof -
  assume a: "journals_progress J K" "journals_progress K L"
  show ?thesis
    unfolding journals_progress_def
  proof (intro allI impI)
    fix d sj
    assume "J d = Some sj"
    with a(1) obtain k where k: "K d = Some k" "k = sj \<or> sj_revision sj < sj_revision k
        \<and> journal_progress (sj_journal sj) (sj_journal k)"
      unfolding journals_progress_def by blast
    with a(2) obtain l where "L d = Some l" "l = k \<or> sj_revision k < sj_revision l
        \<and> journal_progress (sj_journal k) (sj_journal l)"
      unfolding journals_progress_def by blast
    with k(2) show "\<exists>l. L d = Some l \<and> (l = sj \<or> sj_revision sj < sj_revision l
        \<and> journal_progress (sj_journal sj) (sj_journal l))"
      by (auto intro: journal_progress_trans)
  qed
qed

lemma leaf_synced_other:
  assumes "leaf_synced J leaf" "journals_progress J J'"
  shows "leaf_synced J' leaf"
proof -
  from assms(1) obtain sj where sj: "J (pl_device leaf) = Some sj" "pl_revision leaf \<le> sj_revision sj"
    by (auto simp: leaf_synced_def)
  with assms(2) obtain sj' where "J' (pl_device leaf) = Some sj'"
    "sj' = sj \<or> sj_revision sj < sj_revision sj'"
    unfolding journals_progress_def by blast
  with sj assms(1) show ?thesis by (auto simp: leaf_synced_def)
qed

lemma leaf_synced_invalidate: "leaf_synced J leaf \<Longrightarrow> leaf_synced J (invalidate leaf)"
  by (auto simp: leaf_synced_def invalidate_def)

section \<open>The calls\<close>

context store_contract
begin

definition kept :: "'st \<Rightarrow> 'st \<Rightarrow> bool" where
  "kept s s' \<longleftrightarrow> (\<forall>d stored bs. journals s' d = Some stored \<longrightarrow>
     materials s (lj_material (sj_journal stored)) = Some bs \<longrightarrow>
     materials s' (lj_material (sj_journal stored)) = Some bs)"

text \<open>What became of a write of \<open>new\<close> for device \<open>d\<close>.\<close>

definition not_written :: "'st \<Rightarrow> 'st \<Rightarrow> bool" where
  "not_written s s' \<longleftrightarrow> ok s' \<and> kept s s' \<and> journals s' = journals s"

definition written ::
  "device_id \<Rightarrow> journal_revision option \<Rightarrow> leaf_journal \<Rightarrow> journal_revision \<Rightarrow> 'st \<Rightarrow> 'st \<Rightarrow> bool" where
  "written d expected new revision s s' \<longleftrightarrow>
     ok s' \<and> kept s s' \<and> cas_write journals d expected new s revision s'"

lemma cas_cases:
  assumes "compare_exchange ops d expected new s = (res, s')" "ok s" "lj_device new = d"
  obtains (applied) revision where "res = Inr (CasApplied revision)" "written d expected new revision s s'"
  | (conflict) "res = Inr CasConflict" "not_written s s'"
  | (failed) e where "res = Inl e" "not_written s s'"
  | (unknown) e revision where "res = Inl e" "written d expected new revision s s'"
proof -
  note r = cas_result [OF assms]
  have k: "kept s s'" using cas_keeps [OF assms] by (auto simp: kept_def)
  show ?thesis
  proof (cases res)
    case (Inl e)
    with r have "journals s' = journals s \<or> (\<exists>revision. cas_write journals d expected new s revision s')"
      by simp
    then show ?thesis
    proof (elim disjE exE)
      assume "journals s' = journals s"
      with Inl r k show ?thesis by (intro failed) (auto simp: not_written_def)
    next
      fix revision assume "cas_write journals d expected new s revision s'"
      with Inl r k show ?thesis by (intro unknown) (auto simp: written_def)
    qed
  next
    case (Inr c)
    then show ?thesis
    proof (cases c)
      case (CasApplied revision)
      with Inr r k show ?thesis by (intro applied) (auto simp: written_def)
    next
      case CasConflict
      with Inr r k show ?thesis by (intro conflict) (auto simp: not_written_def)
    qed
  qed
qed

text \<open>
  A write of a leaf, from the state \<open>leaf\<close> that has it pending: it succeeded and is finished, or
  it stays pending and may or may not have reached the store.
\<close>

inductive write_effect ::
  "('s, 'g) persistent_leaf \<Rightarrow> leaf_journal \<Rightarrow> 'st \<Rightarrow> ('e persist_error + unit)
     \<Rightarrow> ('s, 'g) persistent_leaf \<Rightarrow> 'st \<Rightarrow> bool" where
  effect_applied: "written (pl_device leaf) (Some (pl_revision leaf)) new revision s s' \<Longrightarrow>
    write_effect leaf new s (Inr ()) (finish_write revision leaf) s'"
| effect_failed: "not_written s s' \<Longrightarrow> write_effect leaf new s (Inl e) leaf s'"
| effect_unknown: "written (pl_device leaf) (Some (pl_revision leaf)) new revision s s' \<Longrightarrow>
    write_effect leaf new s (Inl e) leaf s'"

lemma write_pending_effect:
  assumes "write_pending ops new leaf s = (res, leaf', s')" "ok s" "lj_device new = pl_device leaf"
  shows "write_effect leaf new s res leaf' s'"
proof -
  obtain cas t where cas: "compare_exchange ops (pl_device leaf) (Some (pl_revision leaf)) new s = (cas, t)"
    by (cases "compare_exchange ops (pl_device leaf) (Some (pl_revision leaf)) new s")
  show ?thesis
    by (cases rule: cas_cases [OF cas assms(2,3)])
       (use assms(1) cas in \<open>auto simp: write_pending_def store_call_def intro: write_effect.intros\<close>)
qed

text \<open>The same after material was put, which no journal sees.\<close>

definition put_effect :: "leaf_material option \<Rightarrow> 'st \<Rightarrow> 'st \<Rightarrow> bool" where
  "put_effect material s t \<longleftrightarrow> ok t \<and> journals t = journals s \<and> materials s \<subseteq>\<^sub>m materials t
     \<and> (\<forall>m. material = Some m \<longrightarrow> materials t (lm_id m) = Some (lm_bytes m))"

lemma persist_cases:
  assumes "persist ops previous new material leaf s = (res, leaf', s')" "ok s"
    and "lj_device new = pl_device leaf"
    and "\<And>m. material = Some m \<Longrightarrow> lm_id m = hash_material sha256 (lm_bytes m)"
  obtains (put_failed) e where "res = Inl e" "put_effect None s s'"
      "leaf' = leaf\<lparr>pl_pending := Some \<lparr>pw_previous = previous, pw_next = new,
                    pw_material_changed = (material \<noteq> None)\<rparr>\<rparr>"
  | (sent) t where "put_effect material s t" "write_effect (leaf\<lparr>pl_pending := Some
      \<lparr>pw_previous = previous, pw_next = new, pw_material_changed = (material \<noteq> None)\<rparr>\<rparr>) new t res leaf' s'"
proof (cases material)
  case None
  have "put_effect None s s" using assms(2) by (simp add: put_effect_def)
  moreover have "write_pending ops new (leaf\<lparr>pl_pending := Some
      \<lparr>pw_previous = previous, pw_next = new, pw_material_changed = (material \<noteq> None)\<rparr>\<rparr>) s = (res, leaf', s')"
    using assms(1) by (simp add: persist_def None)
  note write_pending_effect [OF this assms(2)]
  ultimately show ?thesis using assms(3) None by (intro sent [of s]) simp_all
next
  case (Some m)
  obtain p t where put: "put_material ops m s = (p, t)" by (cases "put_material ops m s")
  note r = put_result [OF put assms(2) assms(4) [OF Some]]
  show ?thesis
  proof (cases p)
    case (Inl e)
    show ?thesis
      by (rule put_failed [of "StoreFailed e"])
         (use assms(1) r put Some Inl in \<open>auto simp: persist_def store_call_def put_effect_def\<close>)
  next
    case (Inr u)
    have "write_pending ops new (leaf\<lparr>pl_pending := Some
      \<lparr>pw_previous = previous, pw_next = new, pw_material_changed = (material \<noteq> None)\<rparr>\<rparr>) t = (res, leaf', s')"
      using assms(1) put by (simp add: persist_def store_call_def Some Inr)
    moreover have t: "put_effect material s t" using r Some Inr by (simp add: put_effect_def)
    ultimately show ?thesis
      by (intro sent [OF t] write_pending_effect) (simp_all add: assms(3) t [unfolded put_effect_def])
  qed
qed

text \<open>A pending write leaves the leaf in step with the store, however it ends.\<close>

definition advanced ::
  "'st \<Rightarrow> ('s, 'g) persistent_leaf \<Rightarrow> 'st \<Rightarrow> ('s, 'g) persistent_leaf \<Rightarrow> bool" where
  "advanced s leaf s' leaf' \<longleftrightarrow> ok s' \<and> kept s s' \<and> journals_progress (journals s) (journals s')
     \<and> leaf_synced (journals s') leaf' \<and> pl_device leaf' = pl_device leaf"

lemma advanced_stay: "ok s \<Longrightarrow> leaf_synced (journals s) leaf \<Longrightarrow> advanced s leaf s leaf"
  by (simp add: advanced_def kept_def)

lemma written_progress:
  assumes "written d (Some revision) new revision' s s'" "journals s d = Some sj"
    and "sj_revision sj = revision \<Longrightarrow> journal_progress (sj_journal sj) new"
  shows "journals_progress (journals s) (journals s') \<and> revision < revision' \<and> sj_revision sj = revision
    \<and> journals s' d = Some \<lparr>sj_revision = revision', sj_journal = new\<rparr>"
  using assms by (auto simp: written_def cas_write_def journals_progress_def)

lemma write_effect_advanced:
  assumes "write_effect leaf new s res leaf' s'" "leaf_synced (journals s) leaf"
    and "pl_pending leaf = Some p" "pw_next p = new"
  shows "advanced s leaf s' leaf'"
proof -
  from assms(2) obtain sj where sj: "journals s (pl_device leaf) = Some sj"
    "pl_revision leaf = sj_revision sj \<Longrightarrow> pw_previous p = sj_journal sj"
    "journal_progress (pw_previous p) new"
    using assms(3,4) by (auto simp: leaf_synced_def)
  obtain r where r: "pl_registry leaf = Some r" "journal_from_registry (lj_material new) r = Inr new"
    "lr_device r = pl_device leaf"
    using assms(2,3,4) unfolding leaf_synced_def by blast
  have prog: "sj_revision sj = pl_revision leaf \<Longrightarrow> journal_progress (sj_journal sj) new"
    using sj(2,3) by simp
  from assms(1) show ?thesis
  proof cases
    case (effect_applied revision)
    from written_progress [OF effect_applied(3) sj(1) prog] effect_applied r assms(3,4) show ?thesis
      by (auto simp: advanced_def written_def leaf_synced_def finish_write_def)
  next
    case (effect_failed e)
    then show ?thesis using assms(2) by (simp add: advanced_def not_written_def)
  next
    case (effect_unknown revision e)
    from written_progress [OF effect_unknown(3) sj(1) prog] effect_unknown assms(2) show ?thesis
      by (auto simp: advanced_def written_def intro: leaf_synced_other)
  qed
qed

lemma kept_put: "put_effect material s t \<Longrightarrow> kept t s' \<Longrightarrow> kept s s'"
  unfolding kept_def put_effect_def map_le_def by (metis domI)

lemma advanced_put:
  "put_effect material s t \<Longrightarrow> advanced t leaf s' leaf' \<Longrightarrow> advanced s leaf s' leaf'"
  using kept_put [of material s t s'] by (simp add: advanced_def put_effect_def)

lemma written_put:
  "put_effect material s t \<Longrightarrow> written d expected new revision t s' \<Longrightarrow> written d expected new revision s s'"
  using kept_put [of material s t s'] by (simp add: written_def cas_write_def put_effect_def)

text \<open>A write of what an operation left, from a ready leaf.\<close>

lemma persist_advanced:
  assumes "persist ops previous new material (leaf\<lparr>pl_registry := Some r'\<rparr>) s = (res, leaf', s')"
    and "ok s" "leaf_synced (journals s) leaf" "pl_pending leaf = None" "pl_registry leaf = Some r"
    and "journal_from_registry (pl_material leaf) r = Inr previous" "step_sound r r'"
    and "journal_from_registry (lj_material new) r' = Inr new"
    and "\<And>m. material = Some m \<Longrightarrow> lm_id m = hash_material sha256 (lm_bytes m)"
  shows "advanced s leaf s' leaf'"
proof -
  let ?leaf = "leaf\<lparr>pl_registry := Some r', pl_pending := Some \<lparr>pw_previous = previous, pw_next = new,
                  pw_material_changed = (material \<noteq> None)\<rparr>\<rparr>"
  have journaled: "registry_journaled r" using assms(6) registry_journaled_iff by blast
  have prog: "leaf_progress r r'" using assms(7) journaled by (simp add: step_sound_def)
  have device: "lr_device r' = pl_device leaf"
    using prog assms(3,5) by (simp add: leaf_progress_def leaf_synced_def)
  have new: "lj_device new = pl_device leaf" using journal_from_registry_fields [OF assms(8)] device by simp
  have synced: "leaf_synced (journals s) ?leaf"
    using assms(3-6,8) device journal_progress_registry [OF assms(6,8) prog] by (auto simp: leaf_synced_def)
  have stay: "advanced s leaf t leaf''" if "advanced s ?leaf t leaf''" for t leaf''
    using that by (simp add: advanced_def)
  have new': "lj_device new = pl_device (leaf\<lparr>pl_registry := Some r'\<rparr>)" using new by simp
  show ?thesis
  proof (cases rule: persist_cases [OF assms(1,2) new' assms(9)])
    case (2 e)
    have "advanced s' ?leaf s' ?leaf"
      using 2(2) synced by (intro advanced_stay) (simp_all add: put_effect_def)
    from stay [OF advanced_put [OF 2(2) this]] 2(3) show ?thesis by simp
  next
    case (3 t)
    have "leaf_synced (journals t) ?leaf" using synced 3(1) by (simp add: put_effect_def)
    from write_effect_advanced [OF 3(2) this] have "advanced t ?leaf s' leaf'" by simp
    from stay [OF advanced_put [OF 3(1) this]] show ?thesis .
  qed
qed

lemma ready_journal_Inr:
  "ready_journal leaf = Inr j \<longleftrightarrow> pl_pending leaf = None
     \<and> (\<exists>r. pl_registry leaf = Some r \<and> journal_from_registry (pl_material leaf) r = Inr j)"
  by (auto simp: ready_journal_def ready_registry_def result_simps)

lemma transition_advanced:
  assumes "persistent_transition ops operation leaf s = (res, leaf', s')" "ok s"
    and "leaf_synced (journals s) leaf"
    and "\<And>r. pl_registry leaf = Some r \<Longrightarrow> step_sound r (snd (operation r))"
  shows "advanced s leaf s' leaf'"
proof (cases "ready_journal leaf :: 'e persist_error + leaf_journal")
  case (Inl e)
  with assms(1-3) show ?thesis by (auto simp: persistent_transition_def intro: advanced_stay)
next
  case (Inr previous)
  then obtain r where r: "pl_pending leaf = None" "pl_registry leaf = Some r"
    "journal_from_registry (pl_material leaf) r = Inr previous"
    by (auto simp: ready_journal_Inr)
  obtain x r' where op: "operation r = (x, r')" by (cases "operation r")
  have sound: "step_sound r r'" using assms(4) [OF r(2)] op by simp
  let ?leaf = "leaf\<lparr>pl_registry := Some r'\<rparr>"
  obtain new where new: "journal_from_registry (pl_material leaf) r' = Inr new"
    using sound r(3) registry_journaled_iff [of r] registry_journaled_iff [of r' "pl_material leaf"]
    by (auto simp: step_sound_def)
  then have new': "(ready_journal ?leaf :: 'e persist_error + leaf_journal) = Inr new"
    using r(1) by (simp add: ready_journal_Inr)
  have ready: "(ready_registry leaf :: 'e persist_error + _) = Inr r" using r by (simp add: ready_registry_def)
  have self: "journal_from_registry (lj_material new) r' = Inr new"
    using journal_from_registry_fields [OF new] new by simp
  show ?thesis
  proof (cases "new = previous")
    case True
    have prog: "leaf_progress r r'"
      using sound r(3) registry_journaled_iff [of r] by (auto simp: step_sound_def)
    have "leaf_synced (journals s) ?leaf"
      using assms(3) r new True prog by (auto simp: leaf_synced_def leaf_progress_def)
    moreover have "leaf' = ?leaf \<and> s' = s"
      using assms(1) Inr op new' ready True by (simp add: persistent_transition_def)
    ultimately show ?thesis using assms(2) by (simp add: advanced_def kept_def)
  next
    case False
    obtain w where w: "persist ops previous new None ?leaf s = w" by simp
    obtain y where "persist ops previous new None ?leaf s = (y, leaf', s')"
      using assms(1) Inr op new' ready False
      by (auto simp: persistent_transition_def split: prod.splits sum.splits)
    from persist_advanced [OF this assms(2,3) r sound self] show ?thesis by simp
  qed
qed

text \<open>A result of an operation is returned only with its journal written.\<close>

lemma transition_result:
  assumes "persistent_transition ops operation leaf s = (Inr x, leaf', s')" "ok s"
    and "leaf_synced (journals s) leaf"
    and "\<And>r. pl_registry leaf = Some r \<Longrightarrow> step_sound r (snd (operation r))"
  obtains r r' previous new where "pl_registry leaf = Some r" "operation r = (Inr x, r')"
    "journal_from_registry (pl_material leaf) r = Inr previous"
    "journal_from_registry (pl_material leaf) r' = Inr new"
    "new \<noteq> previous \<Longrightarrow> \<exists>revision. written (pl_device leaf) (Some (pl_revision leaf)) new revision s s'"
proof -
  from assms(1) obtain previous where "(ready_journal leaf :: 'e persist_error + leaf_journal) = Inr previous"
    by (cases "ready_journal leaf :: 'e persist_error + leaf_journal") (auto simp: persistent_transition_def)
  note Inr = this
  then obtain r where r: "pl_pending leaf = None" "pl_registry leaf = Some r"
    "journal_from_registry (pl_material leaf) r = Inr previous"
    by (auto simp: ready_journal_Inr)
  obtain y r' where op: "operation r = (y, r')" by (cases "operation r")
  have sound: "step_sound r r'" using assms(4) [OF r(2)] op by simp
  let ?leaf = "leaf\<lparr>pl_registry := Some r'\<rparr>"
  obtain new where new: "journal_from_registry (pl_material leaf) r' = Inr new"
    using sound r(3) registry_journaled_iff [of r] registry_journaled_iff [of r' "pl_material leaf"]
    by (auto simp: step_sound_def)
  then have new': "(ready_journal ?leaf :: 'e persist_error + leaf_journal) = Inr new"
    using r(1) by (simp add: ready_journal_Inr)
  have ready: "(ready_registry leaf :: 'e persist_error + _) = Inr r" using r by (simp add: ready_registry_def)
  have y: "y = Inr x"
    using assms(1) Inr op new' ready
    by (auto simp: persistent_transition_def Let_def map_err_Inr_iff split: if_splits prod.splits sum.splits)
  have "\<exists>revision. written (pl_device leaf) (Some (pl_revision leaf)) new revision s s'" if changed: "new \<noteq> previous"
  proof -
    obtain u leaf'' where p: "persist ops previous new None ?leaf s = (Inr u, leaf'', s')"
      using assms(1) Inr op new' ready changed
      by (auto simp: persistent_transition_def Let_def split: prod.splits sum.splits)
    have "leaf_progress r r'" using sound r(3) registry_journaled_iff [of r] by (auto simp: step_sound_def)
    then have device: "lj_device new = pl_device ?leaf"
      using assms(3) r(2) journal_from_registry_fields [OF new] by (simp add: leaf_progress_def leaf_synced_def)
    show ?thesis
    proof (rule persist_cases [OF p assms(2) device], goal_cases)
      case (3 t)
      from 3(2) obtain revision where "written (pl_device leaf) (Some (pl_revision leaf)) new revision t s'"
        by cases auto
      from written_put [OF 3(1) this] show ?thesis by blast
    qed simp_all
  qed
  with that r op y new show thesis by blast
qed

lemma current_material_addressed:
  "current_material P sha256 leaf = Inr m \<Longrightarrow> lm_id m = hash_material sha256 (lm_bytes m)"
  by (auto simp: current_material_def material_from_registry_def material_from_valid_bytes_def result_simps)

lemma material_transition_advanced:
  assumes "material_transition P sha256 ops operation leaf s = (res, leaf', s')" "ok s"
    and "leaf_synced (journals s) leaf"
    and "\<And>r. pl_registry leaf = Some r \<Longrightarrow> step_sound r (snd (operation r))"
  shows "advanced s leaf s' leaf'"
proof (cases "ready_journal leaf :: 'e persist_error + leaf_journal")
  case (Inl e)
  with assms(1-3) show ?thesis by (auto simp: material_transition_def intro: advanced_stay)
next
  case (Inr previous)
  then obtain r where r: "pl_pending leaf = None" "pl_registry leaf = Some r"
    "journal_from_registry (pl_material leaf) r = Inr previous"
    by (auto simp: ready_journal_Inr)
  obtain x r' where op: "operation r = (x, r')" by (cases "operation r")
  have sound: "step_sound r r'" using assms(4) [OF r(2)] op by simp
  then have journaled: "registry_journaled r'" and prog: "leaf_progress r r'"
    using r(3) registry_journaled_iff [of r] by (auto simp: step_sound_def)
  let ?leaf = "leaf\<lparr>pl_registry := Some r'\<rparr>"
  have ready: "(ready_registry leaf :: 'e persist_error + _) = Inr r"
    "(ready_registry ?leaf :: 'e persist_error + _) = Inr r'" using r by (simp_all add: ready_registry_def)
  obtain new where new: "journal_from_registry (pl_material leaf) r' = Inr new"
    using journaled registry_journaled_iff [of r' "pl_material leaf"] by blast
  then have new': "(ready_journal ?leaf :: 'e persist_error + leaf_journal) = Inr new"
    using r(1) by (simp add: ready_journal_Inr)
  have self: "journal_from_registry (lj_material j) r' = Inr j" if "journal_from_registry m r' = Inr j" for m j
    using journal_from_registry_fields [OF that] that by simp
  show ?thesis
  proof (cases x)
    case err: (Inl e)
    show ?thesis
    proof (cases "new = previous")
      case True
      have "leaf_synced (journals s) ?leaf"
        using assms(3) r new True prog by (auto simp: leaf_synced_def leaf_progress_def)
      moreover have "leaf' = ?leaf \<and> s' = s"
        using assms(1) Inr op new' ready True err by (simp add: material_transition_def)
      ultimately show ?thesis using assms(2) by (simp add: advanced_def kept_def)
    next
      case False
      obtain y where "persist ops previous new None ?leaf s = (y, leaf', s')"
        using assms(1) Inr op new' ready False err
        by (auto simp: material_transition_def Let_def split: prod.splits sum.splits)
      from persist_advanced [OF this assms(2,3) r sound self [OF new]] show ?thesis by simp
    qed
  next
    case out: (Inr z)
    show ?thesis
    proof (cases "current_material P sha256 ?leaf :: 'e persist_error + leaf_material")
      case (Inl e)
      have "leaf' = invalidate leaf \<and> s' = s"
        using assms(1) Inr op ready out Inl by (cases leaf) (simp add: material_transition_def invalidate_def)
      with leaf_synced_invalidate [OF assms(3)] assms(2) show ?thesis
        by (simp add: advanced_def kept_def invalidate_def)
    next
      case mat: (Inr material)
      obtain j where j: "journal_from_registry (lm_id material) r' = Inr j"
        using journaled registry_journaled_iff [of r' "lm_id material"] by blast
      obtain y where "persist ops previous j (Some material) ?leaf s = (y, leaf', s')"
        using assms(1) Inr op ready out mat j
        by (auto simp: material_transition_def Let_def split: prod.splits sum.splits)
      from persist_advanced [OF this assms(2,3) r sound self [OF j]] show ?thesis
        using current_material_addressed [OF mat] by simp
    qed
  qed
qed

lemma reconcile_advanced:
  assumes "reconcile P sha256 ops leaf s = (res, leaf', s')" "ok s" "leaf_synced (journals s) leaf"
  shows "advanced s leaf s' leaf'"
proof (cases "pl_pending leaf")
  case None
  with assms show ?thesis by (auto simp: reconcile_def intro: advanced_stay)
next
  case (Some p)
  obtain found t where get: "get_journal ops (pl_device leaf) s = (found, t)"
    by (cases "get_journal ops (pl_device leaf) s")
  note g = journal_result [OF get assms(2)]
  have t: "put_effect None s t" using g by (simp add: put_effect_def)
  have synced: "leaf_synced (journals t) leaf" using assms(3) g by simp
  note stay = advanced_put [OF t advanced_stay [OF _ synced]]
  obtain sj where sj: "journals t (pl_device leaf) = Some sj"
    using synced by (auto simp: leaf_synced_def)
  obtain r where r: "pl_registry leaf = Some r" "lr_device r = pl_device leaf"
    "journal_from_registry (lj_material (pw_next p)) r = Inr (pw_next p)"
    using assms(3) Some unfolding leaf_synced_def by blast
  have device: "lj_device (pw_next p) = pl_device leaf"
    using journal_from_registry_fields [OF r(3)] r(2) by simp
  have inval: "advanced s leaf t (invalidate leaf)"
    using leaf_synced_invalidate [OF synced] g t
    by (intro advanced_put [OF t]) (simp add: advanced_def kept_def invalidate_def)
  have sent: "advanced s leaf s' leaf'"
    if "write_pending ops (pw_next p) leaf u = (res, leaf', s')" "put_effect m t u" for u m
  proof -
    have u: "ok u" "leaf_synced (journals u) leaf" using that(2) synced by (simp_all add: put_effect_def)
    from write_effect_advanced [OF write_pending_effect [OF that(1) u(1) device] u(2) Some refl]
    show ?thesis by (intro advanced_put [OF t] advanced_put [OF that(2)])
  qed
  show ?thesis
  proof (cases found)
    case (Inl e)
    with assms(1) Some get stay g show ?thesis by (simp add: reconcile_def store_call_def)
  next
    case (Inr x)
    with g sj have x: "x = Some sj" by simp
    consider (reached) "sj_journal sj = pw_next p"
      | (other) "sj_journal sj \<noteq> pw_next p" "sj_revision sj \<noteq> pl_revision leaf \<or> sj_journal sj \<noteq> pw_previous p"
      | (plain) "sj_journal sj \<noteq> pw_next p" "sj_revision sj = pl_revision leaf" "sj_journal sj = pw_previous p"
          "\<not> pw_material_changed p"
      | (again) "sj_journal sj \<noteq> pw_next p" "sj_revision sj = pl_revision leaf" "sj_journal sj = pw_previous p"
          "pw_material_changed p"
      by blast
    then show ?thesis
    proof cases
      case reached
      then have "leaf' = finish_write (sj_revision sj) leaf \<and> s' = t"
        using assms(1) Some get Inr x by (simp add: reconcile_def store_call_def)
      moreover have "leaf_synced (journals t) (finish_write (sj_revision sj) leaf)"
        using sj r reached Some by (auto simp: leaf_synced_def finish_write_def)
      ultimately show ?thesis
        using g Some by (intro advanced_put [OF t]) (simp add: advanced_def kept_def finish_write_def)
    next
      case other
      then have "leaf' = invalidate leaf \<and> s' = t"
        using assms(1) Some get Inr x by (auto simp: reconcile_def store_call_def split: if_splits)
      with inval show ?thesis by simp
    next
      case plain
      then have "write_pending ops (pw_next p) leaf t = (res, leaf', s')"
        using assms(1) Some get Inr x by (simp add: reconcile_def store_call_def)
      from sent [OF this, of None] g show ?thesis by (simp add: put_effect_def)
    next
      case again
      show ?thesis
      proof (cases "current_material P sha256 leaf :: 'e persist_error + leaf_material")
        case (Inl e)
        with assms(1) Some get Inr x again stay g show ?thesis by (simp add: reconcile_def store_call_def)
      next
        case mat: (Inr m)
        show ?thesis
        proof (cases "lm_id m = lj_material (pw_next p)")
          case False
          with assms(1) Some get Inr x again mat inval show ?thesis
            by (simp add: reconcile_def store_call_def)
        next
          case True
          obtain y u where put: "put_material ops m t = (y, u)" by (cases "put_material ops m t")
          note pr = put_result [OF put _ current_material_addressed [OF mat]]
          show ?thesis
          proof (cases y)
            case (Inl e)
            have "leaf' = leaf \<and> s' = u"
              using assms(1) Some get Inr x again mat True put \<open>y = Inl e\<close>
              by (simp add: reconcile_def store_call_def)
            moreover have "put_effect None t u" using pr g by (simp add: put_effect_def)
            moreover have "leaf_synced (journals u) leaf" "ok u" using synced pr g by simp_all
            ultimately show ?thesis by (auto intro: advanced_put [OF t] advanced_put advanced_stay)
          next
            case stored: (Inr v)
            have "write_pending ops (pw_next p) leaf u = (res, leaf', s')"
              using assms(1) Some get Inr x again mat True put stored by (simp add: reconcile_def store_call_def)
            from sent [OF this, of "Some m"] pr g stored show ?thesis by (simp add: put_effect_def)
          qed
        qed
      qed
    qed
  qed
qed

lemma create_advanced:
  assumes "persistent_create P sha256 ops r s = (res, s')" "ok s"
  shows "ok s' \<and> kept s s' \<and> journals_progress (journals s) (journals s')
    \<and> (\<forall>leaf. res = Inr leaf \<longrightarrow> leaf_synced (journals s') leaf)"
proof (cases "and_then (map_err Protocol (material_from_registry P sha256 r) :: 'e persist_error + _)
    (\<lambda>material. and_then (map_err InvalidRecord (journal_from_registry (lm_id material) r))
      (\<lambda>journal. Inr (material, journal)))")
  case (Inl e)
  with assms show ?thesis by (auto simp: persistent_create_def kept_def)
next
  case (Inr x)
  then obtain m j where x: "x = (m, j)" "material_from_registry P sha256 r = Inr m"
    "journal_from_registry (lm_id m) r = Inr j"
    by (auto simp: result_simps)
  have m: "lm_id m = hash_material sha256 (lm_bytes m)"
    using x(2) by (auto simp: material_from_registry_def material_from_valid_bytes_def result_simps)
  have j: "lj_device j = lr_device r" "lj_material j = lm_id m" "journal_from_registry (lj_material j) r = Inr j"
    using journal_from_registry_fields [OF x(3)] x(3) by simp_all
  obtain y t where put: "put_material ops m s = (y, t)" by (cases "put_material ops m s")
  have t: "put_effect None s t" "ok t" "kept s t"
    using put_result [OF put assms(2) m] by (auto simp: put_effect_def kept_def map_le_def dom_def)
  show ?thesis
  proof (cases y)
    case (Inl e)
    with assms(1) Inr x(1) put have "res = Inl (StoreFailed e)" "s' = t"
      by (simp_all add: persistent_create_def store_call_def)
    with t show ?thesis by (simp add: put_effect_def)
  next
    case stored: (Inr u)
    obtain c v where cas: "compare_exchange ops (lr_device r) None j t = (c, v)"
      by (cases "compare_exchange ops (lr_device r) None j t")
    have out: "s' = v" "\<And>revision. c = Inr (CasApplied revision) \<Longrightarrow> res = Inr \<lparr>pl_device = lr_device r,
        pl_registry = Some r, pl_material = lm_id m, pl_revision = revision, pl_pending = None\<rparr>"
      "\<And>leaf. res = Inr leaf \<Longrightarrow> \<exists>revision. c = Inr (CasApplied revision)"
      using assms(1) Inr x(1) put stored cas
      by (auto simp: persistent_create_def store_call_def split: sum.splits journal_cas.splits)
    have fresh: "journals_progress (journals s) (journals v)" if "written (lr_device r) None j revision s v" for revision
      using that by (auto simp: written_def cas_write_def journals_progress_def)
    have unwritten: "ok v \<and> kept s v \<and> journals_progress (journals s) (journals v)" if "not_written t v"
      using that t(1) kept_put [OF t(1), of v] by (simp add: not_written_def put_effect_def)
    show ?thesis
    proof (cases rule: cas_cases [OF cas t(2) j(1)])
      case (1 revision)
      note w = written_put [OF t(1) 1(2)]
      have "leaf_synced (journals v) \<lparr>pl_device = lr_device r, pl_registry = Some r,
          pl_material = lm_id m, pl_revision = revision, pl_pending = None\<rparr>"
        using w j by (simp add: leaf_synced_def written_def cas_write_def)
      with w fresh [OF w] out(2) [OF 1(1)] show ?thesis by (simp add: out(1) written_def)
    next
      case 2
      from unwritten [OF 2(2)] out(3) 2(1) show ?thesis by (auto simp: out(1))
    next
      case (3 e)
      from unwritten [OF 3(2)] out(3) 3(1) show ?thesis by (auto simp: out(1))
    next
      case (4 e revision)
      note w = written_put [OF t(1) 4(2)]
      with fresh [OF w] out(3) 4(1) show ?thesis by (auto simp: out(1) written_def)
    qed
  qed
qed

lemma load_advanced:
  assumes "persistent_load P ops d s = (res, s')" "ok s"
  shows "ok s' \<and> kept s s' \<and> journals_progress (journals s) (journals s')
    \<and> (\<forall>leaf. res = Inr (Some leaf) \<longrightarrow> leaf_synced (journals s') leaf \<and> pl_device leaf = d
         \<and> pl_pending leaf = None \<and> (\<exists>r. pl_registry leaf = Some r \<and> lr_live r = None))"
proof -
  obtain found t where get: "get_journal ops d s = (found, t)" by (cases "get_journal ops d s")
  note g = journal_result [OF get assms(2)]
  have t: "put_effect None s t" using g by (simp add: put_effect_def)
  have unread: "ok v \<and> kept s v \<and> journals_progress (journals s) (journals v)"
    if "not_written t v" for v
    using that t kept_put [OF t, of v] by (simp add: not_written_def put_effect_def)
  have at_t: "not_written t t" using g by (simp add: not_written_def kept_def)
  show ?thesis
  proof (cases "\<exists>sj. found = Inr (Some sj) \<and> lj_device (sj_journal sj) = d")
    case False
    then have "s' = t \<and> (\<forall>leaf. res \<noteq> Inr (Some leaf))"
      using assms(1) get
      by (auto simp: persistent_load_def store_call_def Let_def split: sum.splits option.splits if_splits)
    with unread [OF at_t] show ?thesis by simp
  next
    case True
    then obtain sj where sj: "found = Inr (Some sj)" "lj_device (sj_journal sj) = d" by blast
    then have J: "journals t d = Some sj" using g by simp
    let ?j = "sj_journal sj"
    obtain mat u where read: "get_material ops (lj_material ?j) t = (mat, u)"
      by (cases "get_material ops (lj_material ?j) t")
    have u: "ok u" "journals u = journals t" "materials u = materials t"
      using get_result [OF read] g by simp_all
    have at_u: "not_written t u" using u by (simp add: not_written_def kept_def)
    show ?thesis
    proof (cases "\<exists>m r. mat = Inr m \<and> (loaded_registry P d ?j m :: 'e persist_error + _) = Inr r")
      case False
      then have "s' = u \<and> (\<forall>leaf. res \<noteq> Inr (Some leaf))"
        using assms(1) get sj read
        by (auto simp: persistent_load_def store_call_def Let_def split: sum.splits)
      with unread [OF at_u] show ?thesis by simp
    next
      case True
      then obtain m r where m: "mat = Inr m" "(loaded_registry P d ?j m :: 'e persist_error + _) = Inr r" by blast
      then have r: "lr_device r = d" "lr_live r = None" "lr_next_sequence r = lj_next_sequence ?j"
        by (auto simp: loaded_registry_def material_registry_def result_simps decode_material_idle)
      obtain recovered where rec: "journal_from_registry (lj_material ?j) r = Inr recovered"
        using registry_journaled_iff [of r "lj_material ?j"] r(2) by (auto simp: registry_journaled_def)
      note f = journal_from_registry_fields [OF rec]
      let ?leaf = "\<lambda>revision. \<lparr>pl_device = d, pl_registry = Some r, pl_material = lj_material ?j,
        pl_revision = revision, pl_pending = None\<rparr>"
      show ?thesis
      proof (cases "lj_live ?j")
        case None
        then have out: "s' = u" "res = Inr (Some (?leaf (sj_revision sj)))"
          using assms(1) get sj read m by (simp_all add: persistent_load_def store_call_def)
        have "recovered = ?j"
          using f r sj(2) None by (intro leaf_journal.equality) (simp_all add: leaf_live_attempt_def)
        with rec have "leaf_synced (journals u) (?leaf (sj_revision sj))"
          using J u(2) r(1) by (simp add: leaf_synced_def)
        with unread [OF at_u] out r show ?thesis by auto
      next
        case (Some a)
        obtain c v where cas: "compare_exchange ops d (Some (sj_revision sj)) recovered u = (c, v)"
          by (cases "compare_exchange ops d (Some (sj_revision sj)) recovered u")
        have out: "s' = v" "\<And>revision. c = Inr (CasApplied revision) \<Longrightarrow> res = Inr (Some (?leaf revision))"
          "\<And>leaf. res = Inr (Some leaf) \<Longrightarrow> \<exists>revision. c = Inr (CasApplied revision)"
          using assms(1) get sj read m Some rec cas
          by (auto simp: persistent_load_def store_call_def split: sum.splits journal_cas.splits)
        have dev: "lj_device recovered = d" using f r by simp
        have prog: "journal_progress ?j recovered"
          using f r sj(2) by (simp add: journal_progress_def leaf_live_attempt_def)
        have fresh: "ok v \<and> kept s v \<and> journals_progress (journals s) (journals v)"
          "leaf_synced (journals v) (?leaf revision)"
          if w: "written d (Some (sj_revision sj)) recovered revision u v" for revision
        proof -
          have pu: "put_effect None t u" using u by (simp add: put_effect_def)
          note ws = written_put [OF t written_put [OF pu w]]
          have "journals s d = Some sj" using J t by (simp add: put_effect_def)
          from written_progress [OF ws this prog] ws rec f r
          show "ok v \<and> kept s v \<and> journals_progress (journals s) (journals v)"
            "leaf_synced (journals v) (?leaf revision)"
            by (simp_all add: written_def leaf_synced_def)
        qed
        have unwritten: "ok v \<and> kept s v \<and> journals_progress (journals s) (journals v)" if "not_written u v"
        proof -
          have "not_written t v" using that u by (auto simp: not_written_def kept_def)
          then show ?thesis by (rule unread)
        qed
        show ?thesis
        proof (cases rule: cas_cases [OF cas u(1) dev])
          case (1 revision)
          with fresh [OF 1(2)] out(1) out(2) [OF 1(1)] r show ?thesis by simp
        next
          case 2
          with unwritten [OF 2(2)] out(1,3) show ?thesis by auto
        next
          case (3 e)
          with unwritten [OF 3(2)] out(1,3) show ?thesis by auto
        next
          case (4 e revision)
          with fresh(1) [OF 4(2)] out(1,3) show ?thesis by auto
        qed
      qed
    qed
  qed
qed

end

end
