(* ===== verification/Ksnf_Durable.thy ===== *)
theory Ksnf_Durable
  imports Ksnf_Persistent_Proofs
begin

text \<open>
  Processes over one store: leaves are created and loaded, act in any order, and may be given up
  at any time (a leaf that does not act again); the store's own state decides which of its calls
  fail and whether a failed one had written. What one response costs: its attempt is closed in the
  store before the response is returned.
\<close>

section \<open>Steps\<close>

text \<open>
  The operations that write material. The reservation parser and the response function are
  arbitrary, as in \<open>leaf_step\<close>.
\<close>

definition material_operation ::
  "('s::field, 'g::ab_group_add) profile \<Rightarrow> ('s, 'g, unit) leaf_operation \<Rightarrow> bool" where
  "material_operation P op \<longleftrightarrow> (\<exists>parts epoch. op = leaf_add_vault P parts epoch)
     \<or> (\<exists>identity members. op = leaf_activate_inner_bundle P identity members)
     \<or> (\<exists>epoch member. op = leaf_activate_outer P epoch member)"

lemma material_operation_sound: "material_operation P op \<Longrightarrow> step_sound r (snd (op r))"
  by (auto simp: material_operation_def add_vault_sound activate_inner_sound activate_outer_sound)

text \<open>\<open>allowed\<close> restricts the changes of material to some operations in some registries.\<close>

type_synonym ('s, 'g) material_filter =
  "('s, 'g, unit) leaf_operation \<Rightarrow> ('s, 'g) leaf_registry \<Rightarrow> bool"

inductive leaf_action ::
  "('s::field, 'g::ab_group_add) profile \<Rightarrow> ('r \<Rightarrow> 's \<times> 'r) \<Rightarrow> (bytes \<Rightarrow> bytes)
     \<Rightarrow> ('e, 'st) leaf_store \<Rightarrow> ('s, 'g) material_filter
     \<Rightarrow> ('s, 'g) persistent_leaf \<Rightarrow> 'st \<Rightarrow> (leaf_attempt \<times> 'x) option
     \<Rightarrow> ('s, 'g) persistent_leaf \<Rightarrow> 'st \<Rightarrow> bool"
  for P :: "('s::field, 'g::ab_group_add) profile" and draw :: "'r \<Rightarrow> 's \<times> 'r"
    and sha256 :: "bytes \<Rightarrow> bytes" and ops :: "('e, 'st) leaf_store"
    and allowed :: "('s, 'g) material_filter" where
  act_reconcile: "reconcile P sha256 ops leaf s = (res, leaf', s') \<Longrightarrow>
    leaf_action P draw sha256 ops allowed leaf s None leaf' s'"
| act_material: "\<forall>r. pl_registry leaf = Some r \<longrightarrow> allowed operation r \<Longrightarrow>
    material_transition P sha256 ops operation leaf s = (res, leaf', s') \<Longrightarrow>
    leaf_action P draw sha256 ops allowed leaf s None leaf' s'"
| act_reserve: "persistent_transition ops (leaf_reserve_with P session now bs rb os parsed) leaf s =
      (res, leaf', s') \<Longrightarrow>
    leaf_action P draw sha256 ops allowed leaf s None leaf' s'"
| act_commit: "persistent_commit P draw ops a bs leaf s rng = Some ((res, leaf', s'), rng') \<Longrightarrow>
    leaf_action P draw sha256 ops allowed leaf s None leaf' s'"
| act_reveal: "persistent_reveal P ops a cs leaf s = (res, leaf', s') \<Longrightarrow>
    leaf_action P draw sha256 ops allowed leaf s None leaf' s'"
| act_fix: "persistent_fix P ops a os leaf s = (res, leaf', s') \<Longrightarrow>
    leaf_action P draw sha256 ops allowed leaf s None leaf' s'"
| act_refused: "persistent_transition ops (leaf_respond_with a mode f) leaf s =
      (Inl e :: 'e persist_error + 'x, leaf', s') \<Longrightarrow>
    leaf_action P draw sha256 ops allowed leaf s None leaf' s'"
| act_respond: "persistent_transition ops (leaf_respond_with a mode f) leaf s = (Inr x, leaf', s') \<Longrightarrow>
    leaf_action P draw sha256 ops allowed leaf s (Some (a, x)) leaf' s'"
| act_close: "persistent_close ops a leaf s = (res, leaf', s') \<Longrightarrow>
    leaf_action P draw sha256 ops allowed leaf s None leaf' s'"
| act_abort: "persistent_receive_abort ops ab leaf s = (res, leaf', s') \<Longrightarrow>
    leaf_action P draw sha256 ops allowed leaf s None leaf' s'"
| act_expire: "persistent_close_expired ops now leaf s = (res, leaf', s') \<Longrightarrow>
    leaf_action P draw sha256 ops allowed leaf s None leaf' s'"

text \<open>A state of the system is the leaves in use and the store; a run collects the responses.\<close>

inductive store_run ::
  "('s::field, 'g::ab_group_add) profile \<Rightarrow> ('r \<Rightarrow> 's \<times> 'r) \<Rightarrow> (bytes \<Rightarrow> bytes)
     \<Rightarrow> ('e, 'st) leaf_store \<Rightarrow> ('s, 'g) material_filter \<Rightarrow> ('s, 'g) leaf_registry set
     \<Rightarrow> 'st \<Rightarrow> (leaf_attempt \<times> 'x) list \<Rightarrow> ('s, 'g) persistent_leaf list \<Rightarrow> 'st \<Rightarrow> bool"
  for P :: "('s::field, 'g::ab_group_add) profile" and draw :: "'r \<Rightarrow> 's \<times> 'r"
    and sha256 :: "bytes \<Rightarrow> bytes" and ops :: "('e, 'st) leaf_store"
    and allowed :: "('s, 'g) material_filter" and initial :: "('s, 'g) leaf_registry set"
    and s0 :: 'st where
  run_start: "store_run P draw sha256 ops allowed initial s0 [] [] s0"
| run_create: "store_run P draw sha256 ops allowed initial s0 es leaves s \<Longrightarrow> r \<in> initial \<Longrightarrow>
    persistent_create P sha256 ops r s = (res, s') \<Longrightarrow>
    store_run P draw sha256 ops allowed initial s0 es
      (leaves @ (case res of Inl e \<Rightarrow> [] | Inr leaf \<Rightarrow> [leaf])) s'"
| run_load: "store_run P draw sha256 ops allowed initial s0 es leaves s \<Longrightarrow>
    persistent_load P ops d s = (res, s') \<Longrightarrow>
    store_run P draw sha256 ops allowed initial s0 es
      (leaves @ (case res of Inr (Some leaf) \<Rightarrow> [leaf] | _ \<Rightarrow> [])) s'"
| run_act: "store_run P draw sha256 ops allowed initial s0 es leaves s \<Longrightarrow> i < length leaves \<Longrightarrow>
    leaf_action P draw sha256 ops allowed (leaves ! i) s e leaf' s' \<Longrightarrow>
    store_run P draw sha256 ops allowed initial s0
      (es @ (case e of None \<Rightarrow> [] | Some x \<Rightarrow> [x])) (leaves[i := leaf']) s'"

section \<open>One response per attempt\<close>

lemmas persistent_operation_defs = persistent_reveal_def persistent_fix_def persistent_close_def
  persistent_receive_abort_def persistent_close_expired_def

context store_contract
begin

lemma commit_transition:
  assumes "persistent_commit P draw ops a bs leaf s rng = Some ((res, leaf', s'), rng')"
    and "ok s" "leaf_synced (journals s) leaf"
  shows "advanced s leaf s' leaf'"
proof (cases "and_then (ready_journal leaf) (\<lambda>_. ready_registry leaf) :: 'e persist_error + _")
  case (Inl e)
  with assms show ?thesis by (auto simp: persistent_commit_def intro: advanced_stay)
next
  case (Inr r)
  then have r: "pl_registry leaf = Some r"
    by (auto simp: and_then_Inr_iff ready_registry_def ok_or_Inr_iff split: if_splits)
  from assms(1) Inr obtain done' where c: "leaf_commit P draw a bs r rng = Some (done', rng')"
    "persistent_transition ops (\<lambda>_. done') leaf s = (res, leaf', s')"
    by (auto simp: persistent_commit_def split: option.splits)
  have "step_sound r (snd done')"
    using c(1) leaf_commit_effect [of P draw a bs r rng "fst done'" "snd done'" rng']
    by (intro effect_sound) simp
  with transition_advanced [OF c(2) assms(2,3)] r show ?thesis by simp
qed

lemma action_advanced:
  assumes "leaf_action P draw sha256 ops allowed leaf s e leaf' s'" "\<And>op r. allowed op r \<Longrightarrow> material_operation P op"
    and "ok s" "leaf_synced (journals s) leaf"
  shows "advanced s leaf s' leaf'"
  using assms
proof (induction rule: leaf_action.induct)
  case (act_reconcile leaf s res leaf' s')
  then show ?case by (intro reconcile_advanced)
next
  case (act_material operation leaf s res leaf' s')
  then show ?case
    by (intro material_transition_advanced [OF act_material.hyps(2)] material_operation_sound) auto
next
  case (act_commit a bs leaf s rng res leaf' s' rng')
  then show ?case by (intro commit_transition)
qed (unfold persistent_operation_defs, (rule transition_advanced, assumption+, rule operations_sound)+)

text \<open>A response closes its attempt in the store, where it was live until then.\<close>

lemma respond_closes:
  assumes "persistent_transition ops (leaf_respond_with a mode f) leaf s = (Inr x, leaf', s')"
    and "ok s" "leaf_synced (journals s) leaf"
  obtains sj sj' where "journals s (la_device a) = Some sj" "lj_live (sj_journal sj) = Some a"
    "journals s' (la_device a) = Some sj'" "journal_is_closed (sj_journal sj') a"
proof -
  obtain r r' previous new where r: "pl_registry leaf = Some r" "leaf_respond_with a mode f r = (Inr x, r')"
    "journal_from_registry (pl_material leaf) r = Inr previous"
    "journal_from_registry (pl_material leaf) r' = Inr new"
    "new \<noteq> previous \<Longrightarrow> \<exists>revision. written (pl_device leaf) (Some (pl_revision leaf)) new revision s s'"
    by (rule transition_result [OF assms(1-3)]) (auto intro: operations_sound)
  have live: "leaf_live_attempt r = Some a" "r' = r\<lparr>lr_live := None\<rparr>"
    using respond_Inr [OF r(2)] by (auto simp: leaf_live_attempt_def)
  note p = journal_from_registry_fields [OF r(3)] and n = journal_from_registry_fields [OF r(4)]
  have dev: "lr_device r = pl_device leaf" using assms(3) r(1) by (simp add: leaf_synced_def)
  have a: "la_device a = pl_device leaf" "checked_succ (la_sequence a) = Some (lr_next_sequence r)"
    using p live(1) dev by (auto simp: journal_ok_def)
  have "new \<noteq> previous" using p n live by (auto simp: leaf_live_attempt_def)
  with r(5) obtain revision where w: "written (pl_device leaf) (Some (pl_revision leaf)) new revision s s'"
    by blast
  obtain sj where sj: "journals s (pl_device leaf) = Some sj" "sj_revision sj = pl_revision leaf"
    "journals s' (pl_device leaf) = Some \<lparr>sj_revision = revision, sj_journal = new\<rparr>"
    using w by (auto simp: written_def cas_write_def)
  have pend: "pl_pending leaf = None"
    using assms(1) by (auto simp: persistent_transition_def ready_journal_def ready_registry_def
        split: sum.splits if_splits)
  have "sj_journal sj = previous" using assms(3) sj(1,2) pend r(1,3) by (simp add: leaf_synced_def)
  moreover have "journal_is_closed new a"
    using n live a dev checked_succ_less [OF a(2)] by (simp add: journal_is_closed_def leaf_live_attempt_def)
  ultimately show thesis using that sj(1,3) p live(1) a(1) by simp
qed

definition responded :: "(leaf_attempt \<times> 'x) list \<Rightarrow> 'st \<Rightarrow> bool" where
  "responded es s \<longleftrightarrow> distinct (map fst es) \<and> (\<forall>a \<in> fst ` set es.
     \<exists>sj. journals s (la_device a) = Some sj \<and> journal_is_closed (sj_journal sj) a)"

lemma responded_progress:
  "responded es s \<Longrightarrow> journals_progress (journals s) (journals s') \<Longrightarrow> responded es s'"
  unfolding responded_def journals_progress_def by (metis journal_closed_mono)

lemma run_responses:
  assumes "store_run P draw sha256 ops allowed initial s0 es leaves s"
    and "\<And>op r. allowed op r \<Longrightarrow> material_operation P op" "ok s0"
  shows "ok s \<and> (\<forall>leaf \<in> set leaves. leaf_synced (journals s) leaf) \<and> responded es s
    \<and> journals_progress (journals s0) (journals s)"
  using assms
proof (induction rule: store_run.induct)
  case run_start
  then show ?case by (simp add: responded_def)
next
  case (run_create es leaves s r res s')
  then show ?case
    using create_advanced [OF run_create.hyps(3)]
    by (auto simp: intro: responded_progress leaf_synced_other journals_progress_trans split: sum.splits)
next
  case (run_load es leaves s d res s')
  then show ?case
    using load_advanced [OF run_load.hyps(2)]
    by (auto intro: responded_progress leaf_synced_other journals_progress_trans split: sum.splits option.splits)
next
  case (run_act es leaves s i e leaf' s')
  then have s: "ok s" "\<forall>leaf \<in> set leaves. leaf_synced (journals s) leaf" "responded es s"
    "journals_progress (journals s0) (journals s)" by auto
  then have "leaf_synced (journals s) (leaves ! i)" using run_act.hyps(2) by simp
  then have step: "advanced s (leaves ! i) s' leaf'"
    using action_advanced [OF run_act.hyps(3) _ s(1)] run_act.prems(1) by blast
  have "responded (es @ (case e of None \<Rightarrow> [] | Some x \<Rightarrow> [x])) s'"
  proof (cases e)
    case None
    with s(3) step show ?thesis by (auto simp: advanced_def intro: responded_progress)
  next
    case (Some ev)
    obtain a x where ev: "ev = (a, x)" by (cases ev)
    from run_act.hyps(3) obtain mode f where
      r: "persistent_transition ops (leaf_respond_with a mode f) (leaves ! i) s = (Inr x, leaf', s')"
      unfolding Some ev by cases auto
    obtain sj sj' where sj: "journals s (la_device a) = Some sj" "lj_live (sj_journal sj) = Some a"
      "journals s' (la_device a) = Some sj'" "journal_is_closed (sj_journal sj') a"
      using respond_closes [OF r s(1) \<open>leaf_synced (journals s) (leaves ! i)\<close>] by blast
    have "a \<notin> fst ` set es" using s(3) sj(1,2) by (auto simp: responded_def journal_is_closed_def)
    moreover have "responded es s'" using s(3) step by (auto simp: advanced_def intro: responded_progress)
    ultimately show ?thesis using sj(3,4) by (auto simp: responded_def Some ev)
  qed
  moreover have "\<forall>leaf \<in> set (leaves[i := leaf']). leaf_synced (journals s') leaf"
    using s(2) step by (auto simp: advanced_def dest!: set_update_subset_insert [THEN subsetD] intro: leaf_synced_other)
  ultimately show ?case using step s(4) by (auto simp: advanced_def intro: journals_progress_trans)
qed

end

end
