(* ===== verification/Ksnf_Material.thy ===== *)
theory Ksnf_Material
  imports Ksnf_Record_Proofs Ksnf_Activation_Proofs Ksnf_Redistribution
begin

text \<open>
  The material of a registry is well formed: it passes the checks of a decoded record. Genesis
  gives such registries, and every operation, activation of redistributed shares included, keeps
  them so.
\<close>

section \<open>What the checks say\<close>

text \<open>A public map: sorted keys, distinct nodes, and the evaluation of the commitments at each.\<close>

definition rows_ok ::
  "('s, 'g::ab_group_add) profile \<Rightarrow> 'g list \<Rightarrow> ('k::linorder \<times> 's \<times> 'g) list \<Rightarrow> bool" where
  "rows_ok P commitments rows \<longleftrightarrow> sorted_wrt (<) (map fst rows) \<and> distinct (map (fst \<circ> snd) rows)
     \<and> (\<forall>x \<in> set rows. evaluate_commitments P commitments (fst (snd x)) = snd (snd x))"

definition own_row :: "'k \<Rightarrow> ('k \<times> 'v) list \<Rightarrow> 'v option" where
  "own_row k rows = map_option snd (search_key fst k rows)"

definition after :: "'k::linorder option \<Rightarrow> ('k \<times> 'v) list \<Rightarrow> bool" where
  "after previous rows \<longleftrightarrow> (\<forall>p. previous = Some p \<longrightarrow> (\<forall>x \<in> set rows. p < fst x))"

lemma after_Cons:
  assumes "sorted_wrt (<) (map fst (x # rows))"
  shows "after previous (x # rows) \<longleftrightarrow> (case previous of None \<Rightarrow> True | Some p \<Rightarrow> p < fst x)"
  using assms by (fastforce simp: after_def split: option.splits)

lemma own_row_after: "after (Some k) rows \<Longrightarrow> own_row k rows = None"
  by (fastforce simp: own_row_def after_def search_key_None_iff)

lemma rows_Cons:
  fixes d :: "'k::linorder"
  shows "after previous ((d, n, v) # rows) \<and> sorted_wrt (<) (map fst ((d, n, v) # rows)) \<longleftrightarrow>
    (case previous of None \<Rightarrow> True | Some p \<Rightarrow> p < d) \<and> after (Some d) rows \<and> sorted_wrt (<) (map fst rows)"
  by (auto simp: after_def split: option.splits dest: order.strict_trans)

lemma own_row_Cons:
  assumes "after (Some d) rows"
  shows "(case own_row k ((d, n, v) # rows) of None \<Rightarrow> own | Some w \<Rightarrow> Some (f w)) =
    (case own_row k rows of None \<Rightarrow> if d = k then Some (f (n, v)) else own | Some w \<Rightarrow> Some (f w))"
  using own_row_after [OF assms] by (auto simp: own_row_def)

lemma validate_devices_iff:
  "validate_devices P r previous nodes own rows = Inr own' \<longleftrightarrow>
     (after previous rows \<and> sorted_wrt (<) (map fst rows)) \<and> distinct (map (fst \<circ> snd) rows)
     \<and> (\<forall>x \<in> set rows. fst (snd x) \<notin> set nodes
          \<and> evaluate_commitments P (im_commitments (lr_identity_map r)) (fst (snd x)) = snd (snd x)
          \<and> (fst x = lr_device r \<longrightarrow> fst (snd x) = lr_node r))
     \<and> own' = (case own_row (lr_device r) rows of None \<Rightarrow> own | Some v \<Rightarrow> Some (snd v))"
proof (induction rows arbitrary: previous nodes own)
  case Nil
  then show ?case by (auto simp: after_def own_row_def)
next
  case (Cons x rows)
  obtain d n v where x: "x = (d, n, v)" by (cases x)
  have "validate_devices P r previous nodes own (x # rows) = Inr own' \<longleftrightarrow>
      (case previous of None \<Rightarrow> True | Some p \<Rightarrow> p < d) \<and> n \<notin> set nodes
      \<and> evaluate_commitments P (im_commitments (lr_identity_map r)) n = v
      \<and> (d = lr_device r \<longrightarrow> n = lr_node r)
      \<and> validate_devices P r (Some d) (nodes @ [n]) (if d = lr_device r then Some v else own) rows = Inr own'"
    by (auto simp: x not_le split: option.splits)
  note head = this [unfolded Cons.IH]
  show ?case
  proof (cases "after (Some d) rows")
    case True
    have q: "(\<forall>y \<in> set rows. fst (snd y) \<notin> set (nodes @ [n]) \<and> Q y) \<longleftrightarrow>
        n \<notin> set (map (fst \<circ> snd) rows) \<and> (\<forall>y \<in> set rows. fst (snd y) \<notin> set nodes \<and> Q y)" for Q
      by auto
    show ?thesis
      unfolding head q unfolding x rows_Cons own_row_Cons [OF True] snd_conv using True
      by (simp add: comp_def) blast
  next
    case False
    then show ?thesis unfolding head unfolding x rows_Cons by simp
  qed
qed

lemma validate_people_iff:
  "validate_people P r commitments previous nodes own rows = Inr own' \<longleftrightarrow>
     (after previous rows \<and> sorted_wrt (<) (map fst rows)) \<and> distinct (map (fst \<circ> snd) rows)
     \<and> (\<forall>x \<in> set rows. fst (snd x) \<notin> set nodes
          \<and> evaluate_commitments P commitments (fst (snd x)) = snd (snd x))
     \<and> own' = (case own_row (lr_person r) rows of None \<Rightarrow> own | Some v \<Rightarrow> Some v)"
proof (induction rows arbitrary: previous nodes own)
  case Nil
  then show ?case by (auto simp: after_def own_row_def)
next
  case (Cons x rows)
  obtain d n v where x: "x = (d, n, v)" by (cases x)
  have "validate_people P r commitments previous nodes own (x # rows) = Inr own' \<longleftrightarrow>
      (case previous of None \<Rightarrow> True | Some p \<Rightarrow> p < d) \<and> n \<notin> set nodes
      \<and> evaluate_commitments P commitments n = v
      \<and> validate_people P r commitments (Some d) (nodes @ [n])
          (if d = lr_person r then Some (n, v) else own) rows = Inr own'"
    by (auto simp: x not_le split: option.splits)
  note head = this [unfolded Cons.IH]
  show ?case
  proof (cases "after (Some d) rows")
    case True
    have q: "(\<forall>y \<in> set rows. fst (snd y) \<notin> set (nodes @ [n]) \<and> Q y) \<longleftrightarrow>
        n \<notin> set (map (fst \<circ> snd) rows) \<and> (\<forall>y \<in> set rows. fst (snd y) \<notin> set nodes \<and> Q y)" for Q
      by auto
    show ?thesis
      unfolding head q unfolding x rows_Cons own_row_Cons [OF True, where f = "\<lambda>w. w"] using True
      by (simp add: comp_def) blast
  next
    case False
    then show ?thesis unfolding head unfolding x rows_Cons by simp
  qed
qed

text \<open>Well-formed vaults and registries.\<close>

definition vault_valid ::
  "('s::field, 'g::ab_group_add) profile \<Rightarrow> ('s, 'g) leaf_registry \<Rightarrow> ('s, 'g) vault_state \<Rightarrow> bool" where
  "vault_valid P r v \<longleftrightarrow>
     length (vs_member_map v) = length (im_commitments (lr_identity_map r))
     \<and> first_point (vs_member_map v) = Some (vs_member_point v)
     \<and> length (om_commitments (vs_outer_map v)) \<le> length (om_people (vs_outer_map v))
     \<and> first_point (om_commitments (vs_outer_map v)) = Some (vs_vault_key v)
     \<and> evaluate_commitments P (vs_member_map v) (lr_node r) =
         element_from_scalar P (lr_identity r) + element_from_scalar P (vs_anchor v)
     \<and> rows_ok P (om_commitments (vs_outer_map v)) (om_people (vs_outer_map v))
     \<and> own_row (lr_person r) (om_people (vs_outer_map v)) = Some (vs_outer_node v, vs_member_point v)"

definition material_valid :: "('s::field, 'g::ab_group_add) profile \<Rightarrow> ('s, 'g) leaf_registry \<Rightarrow> bool" where
  "material_valid P r \<longleftrightarrow>
     length (im_commitments (lr_identity_map r)) \<le> length (im_devices (lr_identity_map r))
     \<and> first_point (im_commitments (lr_identity_map r)) = Some (lr_identity_key r)
     \<and> rows_ok P (im_commitments (lr_identity_map r)) (im_devices (lr_identity_map r))
     \<and> own_row (lr_device r) (im_devices (lr_identity_map r)) =
         Some (lr_node r, element_from_scalar P (lr_identity r))
     \<and> (\<forall>x \<in> set (lr_vaults r). vault_valid P r (snd x))"

lemma validate_vault_iff: "validate_vault P r v = Inr () \<longleftrightarrow> vault_valid P r v"
  by (auto simp: validate_vault_def vault_valid_def rows_ok_def if_Inl_eq_Inr and_then_Inr_iff
      validate_people_iff first_point_def after_def not_less split: option.splits)

lemma own_row_member: "own_row k rows = Some v \<Longrightarrow> (k, v) \<in> set rows"
  by (auto simp: own_row_def dest!: search_key_SomeD)

lemma own_row_unique:
  fixes k :: "'k::linorder"
  assumes "sorted_wrt (<) (map fst rows)" "(k, v) \<in> set rows"
  shows "own_row k rows = Some v"
proof -
  have "distinct (map fst rows)" using assms(1) by (simp add: strict_sorted_iff)
  from search_key_distinct [OF this assms(2)] show ?thesis by (simp add: own_row_def)
qed

theorem validate_material_iff: "validate_material P r = Inr () \<longleftrightarrow> material_valid P r"
proof -
  let ?cs = "im_commitments (lr_identity_map r)" and ?ds = "im_devices (lr_identity_map r)"
  have vaults: "(\<exists>us. collect_results (\<lambda>(_, vault). validate_vault P r vault) vs = Inr us) \<longleftrightarrow>
      (\<forall>x \<in> set vs. vault_valid P r (snd x))" for vs
    by (induction vs) (auto simp: and_then_Inr_iff validate_vault_iff)
  have own: "rows_ok P ?cs ?ds \<and> (\<forall>x \<in> set ?ds. fst x = lr_device r \<longrightarrow> fst (snd x) = lr_node r)
      \<and> map_option snd (own_row (lr_device r) ?ds) = Some s
    \<longleftrightarrow> rows_ok P ?cs ?ds \<and> own_row (lr_device r) ?ds = Some (lr_node r, s)" (is "?l \<longleftrightarrow> ?r") for s
  proof
    assume l: ?l
    then obtain n where n: "own_row (lr_device r) ?ds = Some (n, s)" by auto
    from own_row_member [OF n] l have "n = lr_node r" by fastforce
    with n l show ?r by simp
  next
    assume r: ?r
    have "fst (snd x) = lr_node r" if "x \<in> set ?ds" "fst x = lr_device r" for x
      using own_row_unique [of ?ds "lr_device r" "snd x"] that r by (cases x) (auto simp: rows_ok_def)
    with r show ?l by auto
  qed
  have sel: "(\<exists>o'. validate_devices P r None [] None ?ds = Inr o' \<and> o' = Some s) \<longleftrightarrow>
      rows_ok P ?cs ?ds \<and> (\<forall>x \<in> set ?ds. fst x = lr_device r \<longrightarrow> fst (snd x) = lr_node r)
      \<and> map_option snd (own_row (lr_device r) ?ds) = Some s" for s
    unfolding validate_devices_iff
    by (cases "own_row (lr_device r) ?ds") (auto simp: rows_ok_def after_def)
  have "validate_material P r = Inr () \<longleftrightarrow> ?cs \<noteq> [] \<and> length ?cs \<le> length ?ds \<and> hd ?cs = lr_identity_key r
      \<and> (\<exists>o'. validate_devices P r None [] None ?ds = Inr o'
          \<and> o' = Some (element_from_scalar P (lr_identity r)))
      \<and> (\<exists>us. collect_results (\<lambda>(_, vault). validate_vault P r vault) (lr_vaults r) = Inr us)"
    by (simp add: validate_material_def Let_def and_then_Inr_iff if_Inl_eq_Inr ok_or_Inr_iff not_less)
  also have "\<dots> \<longleftrightarrow> material_valid P r"
    unfolding vaults sel own material_valid_def by (auto simp: first_point_def)
  finally show ?thesis .
qed

section \<open>Well-formed registries\<close>

definition material_ok :: "('s::field, 'g::ab_group_add) profile \<Rightarrow> ('s, 'g) leaf_registry \<Rightarrow> bool" where
  "material_ok P r \<longleftrightarrow> registry_typed r \<and> lr_vaults r \<noteq> [] \<and> material_valid P r"

text \<open>The shares of a well-formed registry verify.\<close>

lemma material_valid_shares: "material_valid P r \<Longrightarrow> group_ok P \<Longrightarrow> registry_shares P r"
proof -
  assume m: "material_valid P r" and P: "group_ok P"
  then have own: "own_row (lr_device r) (im_devices (lr_identity_map r)) =
      Some (lr_node r, element_from_scalar P (lr_identity r))" by (simp add: material_valid_def)
  from own_row_member [OF own] m have "element_from_scalar P (lr_identity r) =
      evaluate_commitments P (im_commitments (lr_identity_map r)) (lr_node r)"
    by (fastforce simp: material_valid_def rows_ok_def)
  moreover have "\<exists>i. search_key fst (lr_device r) (im_devices (lr_identity_map r)) =
      Some (lr_device r, lr_node r, i)"
    using own search_key_SomeD [of fst "lr_device r"] by (fastforce simp: own_row_def)
  moreover have "\<forall>x \<in> set (lr_vaults r). vault_valid P r (snd x)" using m by (simp add: material_valid_def)
  ultimately show ?thesis
    by (simp add: registry_shares_def vault_valid_def signing_share_def element_from_scalar_add [OF P])
qed

text \<open>The attempt and the counter are no part of the material.\<close>

definition same_material :: "('s, 'g) leaf_registry \<Rightarrow> ('s, 'g) leaf_registry \<Rightarrow> bool" where
  "same_material r r' \<longleftrightarrow>
     r'\<lparr>lr_live := None, lr_next_sequence := 0\<rparr> = r\<lparr>lr_live := None, lr_next_sequence := 0\<rparr>"

lemma same_material_fields:
  "same_material r r' \<longleftrightarrow> lr_device r' = lr_device r \<and> lr_person r' = lr_person r \<and> lr_node r' = lr_node r
     \<and> lr_identity_map r' = lr_identity_map r \<and> lr_identity_key r' = lr_identity_key r
     \<and> lr_identity r' = lr_identity r \<and> lr_inner_epoch r' = lr_inner_epoch r
     \<and> lr_identity_handle r' = lr_identity_handle r \<and> lr_vaults r' = lr_vaults r"
  by (cases r; cases r') (auto simp: same_material_def)

lemma same_material_ok: "same_material r r' \<Longrightarrow> material_ok P r' = material_ok P r"
  by (simp add: same_material_fields material_ok_def registry_typed_def material_valid_def vault_valid_def)

lemma effect_same_material: "leaf_effect r r' \<Longrightarrow> same_material r r'"
  by (auto simp: leaf_effect_def same_material_fields)

lemma reserve_same_material: "same_material r (snd (leaf_reserve_with P session now bs rb os parsed r))"
proof (cases rule: leaf_reserve_with_cases [of r P session now bs rb os parsed])
  case kept
  from kept(1) show ?thesis by (rule effect_same_material)
qed (simp add: same_material_fields)

section \<open>Genesis\<close>

text \<open>The nodes of a genesis are values of the type \<open>Node\<close>.\<close>

definition genesis_typed :: "('s::zero, 'g) public_genesis \<Rightarrow> bool" where
  "genesis_typed g \<longleftrightarrow> (\<forall>p \<in> set (vg_people g). gq_outer_node p \<noteq> 0 \<and> (\<forall>d \<in> set (gq_devices p). gd_node d \<noteq> 0))"

definition attached ::
  "('s::field, 'g::ab_group_add) profile \<Rightarrow> ('s, 'g) device_genesis \<Rightarrow> bool" where
  "attached P dg \<longleftrightarrow> (\<exists>g person device identity member. genesis_built P g \<and> genesis_typed g
     \<and> attach_share P g person device identity member = Inr dg)"

lemma first_point_gp: "public_polynomial_ok p \<Longrightarrow> first_point (gp_commitments p) = Some (gp_constant p)"
  by (simp add: public_polynomial_ok_def first_point_def)

lemma own_row_map:
  fixes f :: "'a \<Rightarrow> 'k::linorder"
  assumes "sorted_wrt (<) (map f xs)" "x \<in> set xs" "f x = k"
  shows "own_row k (map (\<lambda>x. (f x, h x)) xs) = Some (h x)"
  using assms by (intro own_row_unique) (auto simp: comp_def)

lemma attached_parts:
  assumes P: "group_ok P" and dg: "attached P dg"
  obtains q where "public_polynomial_ok (gq_identity q)"
    "dg_identity_key dg = identity_key q" "identity_key q \<noteq> 0" "dg_node dg \<noteq> 0"
    "dg_identity_map dg = \<lparr>im_commitments = gp_commitments (gq_identity q),
         im_devices = map (\<lambda>d. (gd_device d, gd_node d, gd_identity_share d)) (gq_devices q)\<rparr>"
    "length (gp_commitments (gq_identity q)) \<le> length (gq_devices q)"
    "rows_ok P (gp_commitments (gq_identity q)) (im_devices (dg_identity_map dg))"
    "\<forall>x \<in> set (im_devices (dg_identity_map dg)). fst (snd x) \<noteq> 0"
    "own_row (dg_device dg) (im_devices (dg_identity_map dg)) =
       Some (dg_node dg, element_from_scalar P (dg_identity dg))"
    "vault_typed (genesis_vault_state dg epoch)"
    "\<And>r. lr_person r = dg_person dg \<Longrightarrow> lr_node r = dg_node dg \<Longrightarrow> lr_identity_map r = dg_identity_map dg \<Longrightarrow>
       lr_identity r = dg_identity dg \<Longrightarrow> vault_valid P r (genesis_vault_state dg epoch)"
proof -
  from dg obtain g person device identity member where g: "genesis_built P g" "genesis_typed g"
    and at: "attach_share P g person device identity member = Inr dg"
    by (auto simp: attached_def)
  from attach_share_built [OF P g(1) at] obtain q d where q: "genesis_person g person = Inr q"
    "gq_device q device = Inr d"
    and f: "dg_person dg = person" "dg_device dg = device"
     "dg_outer_node dg = gq_outer_node q" "dg_node dg = gd_node d"
    and im: "dg_identity_map dg = \<lparr>im_commitments = gp_commitments (gq_identity q),
         im_devices = map (\<lambda>d. (gd_device d, gd_node d, gd_identity_share d)) (gq_devices q)\<rparr>"
    and mm: "dg_member_map dg = gp_commitments (gq_member q)"
    and om: "dg_outer_map dg = \<lparr>om_commitments = gp_commitments (vg_outer g),
         om_people = map (\<lambda>p. (gq_person p, gq_outer_node p, member_point p)) (vg_people g)\<rparr>"
    and keys: "dg_identity_key dg = identity_key q" "dg_member_point dg = member_point q"
      "dg_vault_key dg = vault_key g" "dg_identity dg = identity"
    and sh: "signing_share (dg_identity dg) (dg_anchor dg) = member"
      "element_from_scalar P identity = evaluate_commitments P (gp_commitments (gq_identity q)) (gd_node d)"
      "element_from_scalar P member = evaluate_commitments P (gp_commitments (gq_member q)) (gd_node d)"
    by blast
  note gok = genesis_builtD [OF g(1)]
  have qg: "q \<in> set (vg_people g)" "gq_person q = person"
    using q(1) genesis_person_Inr [OF gok(1)] by auto
  have qb: "public_person_ok P q" "public_polynomial_ok (gq_identity q)" "public_polynomial_ok (gq_member q)"
    using gok(3) qg(1) person_builtD by blast+
  have dq: "d \<in> set (gq_devices q)" "gd_device d = device" using q(2) gq_device_Inr [OF qb(1)] by auto
  have len: "length (gp_commitments (gq_identity q)) = length (gp_commitments (gq_member q))"
    "length (gp_commitments (gq_identity q)) \<le> length (gq_devices q)"
    using qb(1) by (simp_all add: public_person_ok_def gp_threshold_def)
  have rows: "rows_ok P (gp_commitments (gq_identity q)) (im_devices (dg_identity_map dg))"
    using qb(1) by (auto simp: im rows_ok_def public_person_ok_def gp_evaluate_def comp_def)
  have outer: "rows_ok P (gp_commitments (vg_outer g)) (om_people (dg_outer_map dg))"
    using gok(1) by (auto simp: om rows_ok_def genesis_ok_def gp_evaluate_def comp_def)
  have own: "own_row (dg_device dg) (im_devices (dg_identity_map dg)) =
       Some (dg_node dg, element_from_scalar P (dg_identity dg))"
    using own_row_map [of gd_device "gq_devices q" d device "\<lambda>d. (gd_node d, gd_identity_share d)"] qb(1) dq sh(2)
    by (simp add: im f keys public_person_ok_def gp_evaluate_def)
  have ownp: "own_row person (om_people (dg_outer_map dg)) = Some (dg_outer_node dg, dg_member_point dg)"
    using own_row_map [of gq_person "vg_people g" q person "\<lambda>p. (gq_outer_node p, member_point p)"] gok(1) qg
    by (simp add: om f keys genesis_ok_def)
  have pts: "\<forall>p \<in> set (vg_people g). member_point p \<noteq> 0"
    using gok(3) person_builtD(3) by (auto simp: member_point_def public_polynomial_ok_def)
  have typed: "vault_typed (genesis_vault_state dg epoch)"
    using g(2) pts qg gok(2)
    by (auto simp: vault_typed_def genesis_vault_state_def om f keys genesis_typed_def vault_key_def public_polynomial_ok_def)
  have valid: "vault_valid P r (genesis_vault_state dg epoch)"
    if "lr_person r = dg_person dg" "lr_node r = dg_node dg" "lr_identity_map r = dg_identity_map dg"
      "lr_identity r = dg_identity dg" for r
  proof -
    have "element_from_scalar P (dg_identity dg) + element_from_scalar P (dg_anchor dg) =
        evaluate_commitments P (gp_commitments (gq_member q)) (gd_node d)"
      using sh(1,3) by (simp add: element_from_scalar_add [OF P, symmetric] signing_share_def)
    then show ?thesis
      using that len outer ownp first_point_gp [OF qb(3)] first_point_gp [OF gok(2)] gok(1)
      by (simp add: vault_valid_def genesis_vault_state_def im mm om f keys member_point_def vault_key_def
          genesis_ok_def vg_threshold_def gp_threshold_def)
  qed
  show thesis
    by (rule that [OF qb(2) keys(1) _ _ im len(2) rows _ own typed valid])
       (use qb(2) g(2) qg dq in \<open>auto simp: identity_key_def public_polynomial_ok_def genesis_typed_def f im\<close>)
qed

lemma leaf_new_material:
  assumes "group_ok P" "attached P dg" "leaf_new dg epoch = Inr r"
  shows "material_ok P r \<and> lr_live r = None \<and> lr_next_sequence r = 0"
proof -
  have r: "r = \<lparr>lr_device = dg_device dg, lr_person = dg_person dg, lr_node = dg_node dg,
          lr_identity_map = dg_identity_map dg, lr_identity_key = dg_identity_key dg,
          lr_identity = dg_identity dg, lr_inner_epoch = ke_inner epoch,
          lr_identity_handle = an_identity (ke_anchor epoch),
          lr_vaults = bt_insert (dg_vault dg) (genesis_vault_state dg epoch) [],
          lr_live = None, lr_next_sequence = 0\<rparr>"
    using assms(3) by (auto simp: leaf_new_def and_then_Inr_iff)
  obtain q where q: "public_polynomial_ok (gq_identity q)"
    "dg_identity_key dg = identity_key q" "identity_key q \<noteq> 0" "dg_node dg \<noteq> 0"
    "dg_identity_map dg = \<lparr>im_commitments = gp_commitments (gq_identity q),
         im_devices = map (\<lambda>d. (gd_device d, gd_node d, gd_identity_share d)) (gq_devices q)\<rparr>"
    "length (gp_commitments (gq_identity q)) \<le> length (gq_devices q)"
    "rows_ok P (gp_commitments (gq_identity q)) (im_devices (dg_identity_map dg))"
    "\<forall>x \<in> set (im_devices (dg_identity_map dg)). fst (snd x) \<noteq> 0"
    "own_row (dg_device dg) (im_devices (dg_identity_map dg)) =
       Some (dg_node dg, element_from_scalar P (dg_identity dg))"
    "vault_typed (genesis_vault_state dg epoch)"
    "\<And>r. lr_person r = dg_person dg \<Longrightarrow> lr_node r = dg_node dg \<Longrightarrow> lr_identity_map r = dg_identity_map dg \<Longrightarrow>
       lr_identity r = dg_identity dg \<Longrightarrow> vault_valid P r (genesis_vault_state dg epoch)"
    using attached_parts [OF assms(1,2), of epoch] by blast
  have "vault_valid P r (genesis_vault_state dg epoch)" by (rule q(11)) (simp_all add: r)
  with q(1-10) first_point_gp [OF q(1)] show ?thesis
    by (auto simp: r material_ok_def registry_typed_def material_valid_def identity_key_def case_prod_beta)
qed

lemma bt_insert_not_Nil [simp]: "bt_insert k v m \<noteq> []"
  by (cases m) (auto split: if_splits)

lemma add_vault_material:
  assumes "group_ok P" "attached P dg" "material_ok P r"
  shows "material_ok P (snd (leaf_add_vault P dg epoch r))"
proof (cases rule: add_vault_cases [of P dg epoch r])
  case refused
  with assms(3) show ?thesis by simp
next
  case added
  have id: "lr_identity r = dg_identity dg"
    using added(9) by (simp add: element_from_scalar_inject [OF assms(1)])
  obtain q where typed: "vault_typed (genesis_vault_state dg epoch)"
    and valid: "\<And>r. lr_person r = dg_person dg \<Longrightarrow> lr_node r = dg_node dg \<Longrightarrow> lr_identity_map r = dg_identity_map dg \<Longrightarrow>
       lr_identity r = dg_identity dg \<Longrightarrow> vault_valid P r (genesis_vault_state dg epoch)"
    using attached_parts [OF assms(1,2), of epoch] by blast
  have "dg_vault dg \<notin> fst ` set (lr_vaults r)" using added(2) by (simp add: map_of_eq_None_iff)
  note ins = set_bt_insert [OF this]
  have "vault_valid P r (genesis_vault_state dg epoch)" using added id by (intro valid) simp_all
  moreover have "vault_valid P (r\<lparr>lr_vaults := vs\<rparr>) v = vault_valid P r v" for vs v
    by (simp add: vault_valid_def)
  ultimately show ?thesis
    using assms(3) typed added(10)
    by (auto simp: material_ok_def registry_typed_def material_valid_def ins)
qed

section \<open>Activations\<close>

text \<open>Shapes are values their constructors returned, over nodes of the type \<open>Node\<close>.\<close>

definition single_built :: "'s::zero single_shape \<Rightarrow> bool" where
  "single_built s \<longleftrightarrow> (\<exists>threshold ds. (\<forall>d \<in> set ds. td_node d \<noteq> 0) \<and> single_shape_new threshold ds = Inr s)"

fun shape_built :: "'s::zero target_shape \<Rightarrow> bool" where
  "shape_built (SingleShape s) = single_built s"
| "shape_built (OuterShape s) = (\<exists>threshold ts. (\<forall>t \<in> set ts. ot_node t \<noteq> 0 \<and> single_built (ot_inner t))
     \<and> outer_shape_new threshold ts = Inr s)"

lemma single_builtD:
  assumes "single_built s"
  shows "unat (ss_threshold s) \<le> length (ss_devices s)" "sorted_wrt (<) (map td_device (ss_devices s))"
    "distinct (map td_node (ss_devices s))" "\<forall>d \<in> set (ss_devices s). td_node d \<noteq> 0"
proof -
  from assms obtain threshold ds where ds: "\<forall>d \<in> set ds. td_node d \<noteq> 0"
    "single_shape_new threshold ds = Inr s" by (auto simp: single_built_def)
  then have "ss_devices s = sort_key td_device ds" "unat threshold \<le> length ds"
    by (auto simp: single_shape_new_def Let_def and_then_Inr_iff if_Inl_eq_Inr not_less)
  with single_shape_new_Inr [OF ds(2)] ds(1)
  show "unat (ss_threshold s) \<le> length (ss_devices s)" "sorted_wrt (<) (map td_device (ss_devices s))"
    "distinct (map td_node (ss_devices s))" "\<forall>d \<in> set (ss_devices s). td_node d \<noteq> 0"
    by (simp_all add: strict_sorted_iff)
qed

lemma outer_builtD:
  assumes "shape_built (OuterShape s)"
  shows "unat (oh_threshold s) \<le> length (oh_people s)" "sorted_wrt (<) (map ot_person (oh_people s))"
    "distinct (map ot_node (oh_people s))" "\<forall>t \<in> set (oh_people s). ot_node t \<noteq> 0"
proof -
  from assms obtain threshold ts where ts: "\<forall>t \<in> set ts. ot_node t \<noteq> 0 \<and> single_built (ot_inner t)"
    "outer_shape_new threshold ts = Inr s" by auto
  then have "oh_people s = sort_key ot_person ts" "unat threshold \<le> length ts"
    by (auto simp: outer_shape_new_def Let_def and_then_Inr_iff if_Inl_eq_Inr not_less)
  with outer_shape_new_Inr [OF ts(2)] ts(1)
  show "unat (oh_threshold s) \<le> length (oh_people s)" "sorted_wrt (<) (map ot_person (oh_people s))"
    "distinct (map ot_node (oh_people s))" "\<forall>t \<in> set (oh_people s). ot_node t \<noteq> 0"
    by (simp_all add: strict_sorted_iff)
qed

text \<open>
  An installed share: resolved from a candidate, whose shape was built and whose points passed
  their validation.
\<close>

definition share_valid :: "('s::field, 'g::ab_group_add) profile \<Rightarrow> ('s, 'g) installed_share \<Rightarrow> bool" where
  "share_valid P s \<longleftrightarrow> share_resolved P s \<and> shape_built (in_shape s)
     \<and> (\<exists>k. points_validate P (in_points s) (in_shape s) k = Inr ())"

lemma identity_map_rows:
  assumes imap: "identity_map_of P shape points = Inr imap" and shape: "single_built shape"
  shows "length (im_commitments imap) \<le> length (im_devices imap)
    \<and> length (im_commitments imap) = unat (ss_threshold shape)
    \<and> rows_ok P (im_commitments imap) (im_devices imap)
    \<and> (\<forall>x \<in> set (im_devices imap). fst (snd x) \<noteq> 0)
    \<and> (\<forall>d n. target_node shape d = Inr n \<longrightarrow>
         own_row d (im_devices imap) = Some (n, evaluate_commitments P (im_commitments imap) n))"
proof -
  note s = single_builtD [OF shape]
  from imap obtain cs where cs: "points = SinglePoints cs" "length cs = unat (ss_threshold shape)"
    "im_commitments imap = cs"
    and devices: "collect_results (\<lambda>t. and_then (points_evaluate P points (SingleShape shape)
        (TargetSingle (td_device t))) (\<lambda>share. Inr (td_device t, td_node t, share))) (ss_devices shape) =
      Inr (im_devices imap)"
    by (cases points) (auto simp: identity_map_of_def and_then_Inr_iff if_Inl_eq_Inr)
  have dist: "distinct (map td_device (ss_devices shape))" using s(2) strict_sorted_iff by blast
  have found: "search_key td_device (td_device t) (ss_devices shape) = Some t" if "t \<in> set (ss_devices shape)" for t
    by (rule search_key_distinct [OF dist that])
  have "collect_results (\<lambda>t. and_then (points_evaluate P points (SingleShape shape)
        (TargetSingle (td_device t))) (\<lambda>share. Inr (td_device t, td_node t, share))) (ss_devices shape) =
      Inr (map (\<lambda>t. (td_device t, td_node t, evaluate_commitments P cs (td_node t))) (ss_devices shape))"
    by (rule collect_results_map) (simp add: points_evaluate_def shape_device_def found cs)
  with devices have ds: "im_devices imap =
      map (\<lambda>t. (td_device t, td_node t, evaluate_commitments P cs (td_node t))) (ss_devices shape)" by simp
  have "own_row d (im_devices imap) = Some (n, evaluate_commitments P cs n)" if n: "target_node shape d = Inr n" for d n
  proof -
    from n obtain t where "search_key td_device d (ss_devices shape) = Some t" "td_node t = n"
      by (auto simp: target_node_def and_then_Inr_iff ok_or_Inr_iff)
    with search_key_SomeD [of td_device d "ss_devices shape" t]
      own_row_map [OF s(2), of t d "\<lambda>t. (td_node t, evaluate_commitments P cs (td_node t))"]
    show ?thesis by (simp add: ds)
  qed
  with s cs show ?thesis by (auto simp: ds rows_ok_def comp_def)
qed

lemma activate_inner_material:
  assumes P: "group_ok P" and ok: "material_ok P r"
    and shares: "share_valid P identity" "\<forall>x \<in> set members. share_valid P (snd x)"
  shows "material_ok P (snd (leaf_activate_inner_bundle P identity members r))"
proof (cases rule: activate_inner_bundle_cases [of P identity members r])
  case refused
  with ok show ?thesis by simp
next
  case (installed imap inner anchors)
  have res: "share_resolved P identity" "\<forall>x \<in> set members. share_resolved P (snd x)"
    using shares by (simp_all add: share_valid_def)
  obtain shape where shape: "in_shape identity = SingleShape shape"
    and imap: "identity_map_of P shape (in_points identity) = Inr imap"
    and node: "target_node shape (lr_device r) = Inr (lr_node r)"
    and key: "points_constant (in_points identity) = Inr (lr_identity_key r)"
    and id: "element_from_scalar P (in_share identity) = evaluate_commitments P (im_commitments imap) (lr_node r)"
    and len: "length anchors = length (lr_vaults r)"
    and vault: "\<And>i. i < length (lr_vaults r) \<Longrightarrow>
       element_from_scalar P (signing_share (in_share identity) (fst (anchors ! i))) =
         evaluate_commitments P (snd (anchors ! i)) (lr_node r)
       \<and> first_point (snd (anchors ! i)) = Some (vs_member_point (snd (lr_vaults r ! i)))
       \<and> length (snd (anchors ! i)) = unat (ss_threshold shape)"
    using inner_installed [OF installed(1) res] by metis
  have built: "single_built shape" using shares(1) by (simp add: share_valid_def shape)
  note im = identity_map_rows [OF imap built]
  let ?r = "snd (leaf_activate_inner_bundle P identity members r)"
  have first: "first_point (im_commitments imap) = Some (lr_identity_key r)"
    using key conjunct1 [OF identity_map_of_Inr [OF imap]] by (auto simp: ok_or_Inr_iff)
  have rv: "\<forall>i < length (lr_vaults r). vault_valid P r (snd (lr_vaults r ! i))
      \<and> vault_typed (snd (lr_vaults r ! i))"
    using ok by (simp add: material_ok_def material_valid_def registry_typed_def all_set_conv_all_nth)
  have fields: "lr_device ?r = lr_device r" "lr_person ?r = lr_person r" "lr_node ?r = lr_node r"
    "lr_identity_key ?r = lr_identity_key r" "lr_identity ?r = in_share identity"
    "lr_identity_map ?r = imap" "length (lr_vaults ?r) = length (lr_vaults r)"
    by (simp_all add: installed(2) len)
  have nth: "lr_vaults ?r ! i = (fst (lr_vaults r ! i), (snd (lr_vaults r ! i))\<lparr>vs_anchor := fst (anchors ! i),
      vs_member_handle := in_handle identity, vs_member_map := snd (anchors ! i)\<rparr>)"
    if "i < length (lr_vaults r)" for i
    using that len by (simp add: installed(2) case_prod_beta)
  have keys: "map fst (lr_vaults ?r) = map fst (lr_vaults r)"
    using nth fields(7) by (intro nth_equalityI) auto
  have "vault_valid P ?r (snd (lr_vaults ?r ! i)) \<and> vault_typed (snd (lr_vaults ?r ! i))"
    if i: "i < length (lr_vaults r)" for i
    using rv i vault [OF i] im
    by (simp add: nth [OF i] vault_valid_def vault_typed_def fields signing_share_def
        element_from_scalar_add [OF P])
  then have "\<forall>x \<in> set (lr_vaults ?r). vault_valid P ?r (snd x) \<and> vault_typed (snd x)"
    using fields(7) by (simp add: all_set_conv_all_nth)
  moreover have "own_row (lr_device r) (im_devices imap) =
      Some (lr_node r, element_from_scalar P (in_share identity))"
    using im node id by simp
  ultimately show ?thesis
    using ok im first fields keys
    by (auto simp: material_ok_def registry_typed_def material_valid_def)
qed

text \<open>The maps of an outer block whose points passed their validation.\<close>

lemma outer_people_rows:
  assumes "collect_results (\<lambda>(t, (member_person, commitments)).
      if ot_person t \<noteq> member_person \<or> length commitments \<noteq> unat (ss_threshold (ot_inner t)) then Inl SupportMismatch
      else and_then (ok_or EmptyInput (first_point commitments)) (\<lambda>constant.
           and_then (point_new constant) (\<lambda>point. Inr (ot_person t, ot_node t, point)))) (zip ts members) = Inr people"
    and "list_all2 (member_valid P outer) members ts"
  shows "people = map (\<lambda>t. (ot_person t, ot_node t, evaluate_commitments P outer (ot_node t))) ts
    \<and> (\<forall>t \<in> set ts. evaluate_commitments P outer (ot_node t) \<noteq> 0)"
  using assms(2,1)
proof (induction members ts arbitrary: people rule: list_all2_induct)
  case (Cons m ms t ts)
  obtain p cs where m: "m = (p, cs)" by (cases m)
  from Cons.prems obtain x xs where x: "people = x # xs"
    "x = (ot_person t, ot_node t, evaluate_commitments P outer (ot_node t))"
    "evaluate_commitments P outer (ot_node t) \<noteq> 0"
    and xs: "collect_results (\<lambda>(t, (member_person, commitments)).
      if ot_person t \<noteq> member_person \<or> length commitments \<noteq> unat (ss_threshold (ot_inner t)) then Inl SupportMismatch
      else and_then (ok_or EmptyInput (first_point commitments)) (\<lambda>constant.
           and_then (point_new constant) (\<lambda>point. Inr (ot_person t, ot_node t, point)))) (zip ts ms) = Inr xs"
    using Cons.hyps(1) by (auto simp: m member_valid_def and_then_Inr_iff if_Inl_eq_Inr point_new_Inr)
  from Cons.IH [OF xs] x show ?case by simp
qed simp

lemma outer_maps_rows:
  assumes maps: "outer_maps_of shape (OuterPoints outer members) person = Inr (omap, commitments)"
    and built: "shape_built (OuterShape shape)"
    and valid: "points_validate P (OuterPoints outer members) (OuterShape shape) k = Inr ()"
    and target: "search_key ot_person person (oh_people shape) = Some target"
  shows "length (om_commitments omap) \<le> length (om_people omap)
    \<and> rows_ok P (om_commitments omap) (om_people omap)
    \<and> (\<forall>x \<in> set (om_people omap). fst (snd x) \<noteq> 0 \<and> snd (snd x) \<noteq> 0)
    \<and> own_row person (om_people omap) =
        Some (ot_node target, evaluate_commitments P outer (ot_node target))
    \<and> length commitments = unat (ss_threshold (ot_inner target))
    \<and> first_point commitments = Some (evaluate_commitments P outer (ot_node target))"
proof -
  note s = outer_builtD [OF built]
  from valid have members: "list_all2 (member_valid P outer) members (oh_people shape)"
    and len: "length outer = unat (oh_threshold shape)"
    by (auto simp: points_validate_Outer simp del: points_validate.simps)
  from maps obtain people p where om: "omap = \<lparr>om_commitments = outer, om_people = people\<rparr>"
    and people: "collect_results (\<lambda>(t, (member_person, commitments)).
      if ot_person t \<noteq> member_person \<or> length commitments \<noteq> unat (ss_threshold (ot_inner t)) then Inl SupportMismatch
      else and_then (ok_or EmptyInput (first_point commitments)) (\<lambda>constant.
           and_then (point_new constant) (\<lambda>point. Inr (ot_person t, ot_node t, point)))) (zip (oh_people shape) members) =
      Inr people"
    and found: "search_key fst person members = Some (p, commitments)"
    by (auto simp: and_then_Inr_iff if_Inl_eq_Inr ok_or_Inr_iff)
  note rows = outer_people_rows [OF people members]
  note t = search_key_SomeD [OF target] and f = search_key_SomeD [OF found]
  have own: "own_row person people = Some (ot_node target, evaluate_commitments P outer (ot_node target))"
    using own_row_map [OF s(2), of target person "\<lambda>t. (ot_node t, evaluate_commitments P outer (ot_node t))"] t rows
    by simp
  obtain i where i: "i < length members" "members ! i = (person, commitments)"
    using f by (auto simp: in_set_conv_nth)
  have mi: "member_valid P outer (members ! i) (oh_people shape ! i)" "i < length (oh_people shape)"
    using members i(1) by (auto simp: list_all2_conv_all_nth)
  have "distinct (map ot_person (oh_people shape))" using s(2) strict_sorted_iff by blast
  moreover have "oh_people shape ! i \<in> set (oh_people shape)" "ot_person (oh_people shape ! i) = ot_person target"
    using mi i t by (auto simp: member_valid_def)
  ultimately have "oh_people shape ! i = target" using t by (metis distinct_map inj_onD)
  then show ?thesis
    using s rows own mi(1) i(2) len by (auto simp: om rows_ok_def comp_def member_valid_def)
qed

lemma activate_outer_material:
  assumes P: "group_ok P" and ok: "material_ok P r" and share: "share_valid P member"
  shows "material_ok P (snd (leaf_activate_outer P epoch member r))"
proof (cases "fst (leaf_activate_outer P epoch member r)")
  case (Inl e)
  then have "snd (leaf_activate_outer P epoch member r) = r"
    by (auto simp: leaf_activate_outer_def Let_def split: sum.splits)
  with ok show ?thesis by simp
next
  case (Inr u)
  let ?r = "snd (leaf_activate_outer P epoch member r)"
  have act: "leaf_activate_outer P epoch member r = (Inr (), ?r)" using Inr by (metis old.unit.exhaust prod.collapse)
  from activate_outer_cases [OF act] obtain point omap commitments where
    ins: "outer_install P r epoch member = Inr (point, omap, commitments)"
    and r': "?r = (close_vault_live (an_vault (ke_anchor epoch)) r)\<lparr>lr_vaults := map (\<lambda>(vault_id, vault).
            if vault_id = an_vault (ke_anchor epoch)
            then (vault_id, vault\<lparr>vs_outer_epoch := ke_outer epoch,
                    vs_member_handle := an_member (ke_anchor epoch), vs_member_point := point,
                    vs_anchor := anchor_share (in_share member) (lr_identity r),
                    vs_member_map := commitments, vs_outer_map := omap\<rparr>)
            else (vault_id, vault)) (lr_vaults r)\<rparr>"
    by blast
  have valid: "material_valid P r" and typed: "registry_typed r" using ok by (simp_all add: material_ok_def)
  have res: "share_resolved P member" using share by (simp add: share_valid_def)
  obtain vault shape target outer members where
    vault: "map_of (lr_vaults r) (an_vault (ke_anchor epoch)) = Some vault"
    and shape: "in_shape member = OuterShape shape"
    and target: "search_key ot_person (lr_person r) (oh_people shape) = Some target"
    and node: "ot_node target = vs_outer_node vault"
    and roster: "same_roster (lr_identity_map r) (ot_inner target)"
    and points: "in_points member = OuterPoints outer members"
    and maps: "outer_maps_of shape (OuterPoints outer members) (lr_person r) = Inr (omap, commitments)"
    and om: "om_commitments omap = outer" and point: "point \<noteq> 0"
    and sh: "element_from_scalar P (in_share member) = evaluate_commitments P commitments (lr_node r)"
    and first: "first_point commitments = Some point" "first_point outer = Some (vs_vault_key vault)"
    by (rule outer_installed [OF ins material_valid_shares [OF valid P] res])
  obtain k where k: "points_validate P (OuterPoints outer members) (OuterShape shape) k = Inr ()"
    using share by (auto simp: share_valid_def shape points simp del: points_validate.simps)
  have built: "shape_built (OuterShape shape)" using share by (simp add: share_valid_def shape)
  note rows = outer_maps_rows [OF maps built k target]
  have fields: "lr_device ?r = lr_device r" "lr_person ?r = lr_person r" "lr_node ?r = lr_node r"
    "lr_identity_key ?r = lr_identity_key r" "lr_identity ?r = lr_identity r"
    "lr_identity_map ?r = lr_identity_map r" "map fst (lr_vaults ?r) = map fst (lr_vaults r)"
    by (simp_all add: r' comp_def case_prod_beta)
  have "vault_valid P ?r (snd x) \<and> vault_typed (snd x)" if "x \<in> set (lr_vaults ?r)" for x
  proof -
    from that obtain vid v where v: "(vid, v) \<in> set (lr_vaults r)"
      and x: "x = (if vid = an_vault (ke_anchor epoch)
            then (vid, v\<lparr>vs_outer_epoch := ke_outer epoch,
                    vs_member_handle := an_member (ke_anchor epoch), vs_member_point := point,
                    vs_anchor := anchor_share (in_share member) (lr_identity r),
                    vs_member_map := commitments, vs_outer_map := omap\<rparr>)
            else (vid, v))" by (auto simp: r')
    have old: "vault_valid P r v" "vault_typed v"
      using valid typed v by (auto simp: material_valid_def registry_typed_def)
    have "v = vault" if "vid = an_vault (ke_anchor epoch)"
      using vault v typed that by (simp add: strict_sorted_iff registry_typed_def)
    moreover have "length commitments = length (im_commitments (lr_identity_map r))"
      using rows roster by (simp add: same_roster_def)
    moreover have "element_from_scalar P (lr_identity r)
        + element_from_scalar P (anchor_share (in_share member) (lr_identity r)) =
        evaluate_commitments P commitments (lr_node r)"
      by (simp add: sh [symmetric] element_from_scalar_add [OF P, symmetric] anchor_share_def)
    ultimately show ?thesis
      using old rows point first node by (auto simp: x vault_valid_def vault_typed_def fields om)
  qed
  moreover have "lr_vaults ?r \<noteq> []" using ok fields(7) by (auto simp: material_ok_def)
  ultimately show ?thesis
    using valid typed fields by (auto simp: material_ok_def material_valid_def registry_typed_def)
qed

end
