(* ===== verification/Ksnf_Material_Run.thy ===== *)
theory Ksnf_Material_Run
  imports Ksnf_Material Ksnf_Leaf_Proofs
begin

text \<open>
  Well-typed runs of a registry: its genesis parts were attached to a validated genesis and the
  shares it installs were resolved from validated points, as the types of the crate ensure. Every
  registry of such a run is well formed.
\<close>

text \<open>The operations that change material, on well-typed arguments.\<close>

definition material_change ::
  "('s::field, 'g::ab_group_add) profile \<Rightarrow>
     (('s, 'g) leaf_registry \<Rightarrow> unit result \<times> ('s, 'g) leaf_registry) \<Rightarrow> bool" where
  "material_change P op \<longleftrightarrow> (\<exists>parts epoch. op = leaf_add_vault P parts epoch \<and> attached P parts)
     \<or> (\<exists>identity members. op = leaf_activate_inner_bundle P identity members
          \<and> share_valid P identity \<and> (\<forall>x \<in> set members. share_valid P (snd x)))
     \<or> (\<exists>epoch member. op = leaf_activate_outer P epoch member \<and> share_valid P member)"

lemma material_change_ok:
  "group_ok P \<Longrightarrow> material_change P op \<Longrightarrow> material_ok P r \<Longrightarrow> material_ok P (snd (op r))"
  by (auto simp: material_change_def add_vault_material activate_inner_material activate_outer_material)

lemma material_change_error: "material_change P op \<Longrightarrow> fst (op r) = Inl e \<Longrightarrow> snd (op r) = r"
  by (auto simp: material_change_def leaf_add_vault_def leaf_activate_inner_bundle_def
      leaf_activate_outer_def Let_def split: sum.splits if_splits)

inductive typed_step ::
  "('s::field, 'g::ab_group_add) profile \<Rightarrow> ('r \<Rightarrow> 's \<times> 'r) \<Rightarrow> ('s, 'g) leaf_registry
     \<Rightarrow> ('s, 'g) leaf_registry \<Rightarrow> bool"
  for P :: "('s::field, 'g::ab_group_add) profile" and draw :: "'r \<Rightarrow> 's \<times> 'r" where
  typed_material: "material_change P op \<Longrightarrow> op r = (res, r') \<Longrightarrow> typed_step P draw r r'"
| typed_reserve: "leaf_reserve_with P session now bs rb os parsed r = (res, r') \<Longrightarrow> typed_step P draw r r'"
| typed_commit: "leaf_commit P draw a bs r rng = Some ((res, r'), rng') \<Longrightarrow> typed_step P draw r r'"
| typed_reveal: "leaf_reveal P a cs r = (res, r') \<Longrightarrow> typed_step P draw r r'"
| typed_fix: "leaf_fix P a os r = (res, r') \<Longrightarrow> typed_step P draw r r'"
| typed_respond: "leaf_respond_with a mode f r = (res :: 's device_response result, r') \<Longrightarrow> typed_step P draw r r'"
| typed_close: "leaf_close a r = (res, r') \<Longrightarrow> typed_step P draw r r'"
| typed_abort: "leaf_receive_abort ab r = (res, r') \<Longrightarrow> typed_step P draw r r'"
| typed_expire: "leaf_close_expired now r = (res, r') \<Longrightarrow> typed_step P draw r r'"

lemma effect_material_ok: "leaf_effect r r' \<Longrightarrow> material_ok P r \<Longrightarrow> material_ok P r'"
  using same_material_ok [OF effect_same_material] by blast

lemmas effects_material_ok = leaf_commit_effect [THEN effect_material_ok]
  leaf_reveal_effect [THEN effect_material_ok] leaf_fix_effect [THEN effect_material_ok]
  leaf_respond_with_effect [THEN effect_material_ok] leaf_close_effect [THEN effect_material_ok]
  leaf_receive_abort_effect [THEN effect_material_ok] leaf_close_expired_effect [THEN effect_material_ok]

lemma typed_step_ok: "typed_step P draw r r' \<Longrightarrow> group_ok P \<Longrightarrow> material_ok P r \<Longrightarrow> material_ok P r'"
proof (induction rule: typed_step.induct)
  case (typed_material op r res r')
  then show ?case using material_change_ok [of P op r] by simp
next
  case (typed_reserve session now bs rb os parsed r res r')
  then show ?case
    using same_material_ok [OF reserve_same_material [of r P session now bs rb os parsed]] by (metis snd_conv)
next
  case (typed_commit a bs r rng res r' rng')
  from effects_material_ok(1) [OF this(1,3)] show ?case .
qed (metis effects_material_ok snd_conv)+

lemma typed_run_ok:
  assumes "(typed_step P draw)\<^sup>*\<^sup>* r r'" "group_ok P" "material_ok P r"
  shows "material_ok P r'"
  using assms by (induction rule: rtranclp_induct) (auto intro: typed_step_ok)

lemma add_vaults_material:
  "leaf_add_vaults P states r = Inr r' \<Longrightarrow> group_ok P \<Longrightarrow> \<forall>x \<in> set states. attached P (fst x) \<Longrightarrow>
     material_ok P r \<Longrightarrow> material_ok P r'"
proof (induction P states r rule: leaf_add_vaults.induct)
  case (2 P device epoch states r)
  then show ?case
    using add_vault_material [of P device r epoch] by (auto split: prod.splits sum.splits)
qed simp

lemma from_vaults_material:
  assumes "group_ok P" "\<forall>x \<in> set states. attached P (fst x)" "leaf_from_vaults P states = Inr r"
  shows "material_ok P r"
proof (cases states)
  case (Cons x xs)
  with assms obtain r0 where "leaf_new (fst x) (snd x) = Inr r0" "leaf_add_vaults P xs r0 = Inr r"
    by (cases x) (auto simp: and_then_Inr_iff)
  with assms Cons leaf_new_material [OF assms(1)] show ?thesis
    by (auto intro: add_vaults_material)
qed (use assms in simp)

end
