(* ===== verification/Ksnf_Recovery.thy ===== *)
theory Ksnf_Recovery
  imports Ksnf_Durable Ksnf_Material_Run
begin

text \<open>
  Recovery: in every run of leaves over a store that keeps the contract, the journal of a device
  names stored material that decodes to a well-formed registry of the device, so that loading it
  fails only where the store does, and gives the material of the last durable write.
\<close>

definition idle :: "('s, 'g) leaf_registry \<Rightarrow> ('s, 'g) leaf_registry" where
  "idle r = r\<lparr>lr_live := None\<rparr>"

text \<open>A record is a byte vector, shorter than the address space.\<close>

definition material_fits :: "('s, 'g::zero) profile \<Rightarrow> ('s, 'g) leaf_registry \<Rightarrow> bool" where
  "material_fits P r \<longleftrightarrow> (\<forall>bs. encode_material P (idle r) = Inr bs \<longrightarrow> length bs < 2 ^ 64)"

definition checked_operation ::
  "('s::field, 'g::ab_group_add) profile \<Rightarrow> ('s, 'g) material_filter" where
  "checked_operation P op r \<longleftrightarrow> material_change P op \<and> material_fits P (snd (op r))"

lemma checked_operation_material: "checked_operation P op r \<Longrightarrow> material_operation P op"
  by (auto simp: checked_operation_def material_change_def material_operation_def)

lemma checked_operation_ok:
  "group_ok P \<Longrightarrow> checked_operation P op r \<Longrightarrow> material_ok P r \<Longrightarrow>
     material_ok P (snd (op r)) \<and> material_fits P (snd (op r))"
  by (simp add: checked_operation_def material_change_ok)

lemma checked_operation_error:
  "checked_operation P op r \<Longrightarrow> fst (op r') = Inl e \<Longrightarrow> snd (op r') = r'"
  using material_change_error by (auto simp: checked_operation_def)

text \<open>An identifier names the material of a registry.\<close>

definition names_material ::
  "('s, 'g::zero) profile \<Rightarrow> (bytes \<Rightarrow> bytes) \<Rightarrow> material_id \<Rightarrow> ('s, 'g) leaf_registry \<Rightarrow> bool" where
  "names_material P sha256 i r \<longleftrightarrow>
     (\<exists>bs. encode_material P (idle r) = Inr bs \<and> i = hash_material sha256 bs)"

lemma encode_material_cong:
  assumes "same_material r r'"
  shows "encode_material P (idle r') = encode_material P (idle r)"
  using assms by (simp add: same_material_fields encode_material_def check_lengths_def idle_def)

lemma same_material_names: "same_material r r' \<Longrightarrow> names_material P h i r' = names_material P h i r"
  by (simp add: names_material_def encode_material_cong)

lemma same_material_fits: "same_material r r' \<Longrightarrow> material_fits P r' = material_fits P r"
  by (simp add: material_fits_def encode_material_cong)

definition leaf_backed ::
  "('s::field, 'g::ab_group_add) profile \<Rightarrow> (bytes \<Rightarrow> bytes) \<Rightarrow> ('s, 'g) persistent_leaf \<Rightarrow> bool" where
  "leaf_backed P sha256 leaf \<longleftrightarrow> (\<forall>r. pl_registry leaf = Some r \<longrightarrow> material_ok P r \<and> material_fits P r
     \<and> (case pl_pending leaf of
          None \<Rightarrow> names_material P sha256 (pl_material leaf) r
        | Some p \<Rightarrow> names_material P sha256 (lj_material (pw_next p)) r
            \<and> (if pw_material_changed p then lr_live r = None
               else lj_material (pw_next p) = lj_material (pw_previous p))))"

lemma leaf_backed_invalid [simp]: "leaf_backed P h (invalidate leaf)"
  by (simp add: leaf_backed_def invalidate_def)

lemma leaf_backed_finish: "leaf_backed P h leaf \<Longrightarrow> leaf_backed P h (finish_write revision leaf)"
  by (auto simp: leaf_backed_def finish_write_def split: option.splits)

text \<open>A record decodes to the registry it was made from.\<close>

lemma decode_encoded:
  assumes "group_ok P" "magics_ok P" "material_ok P r" "material_fits P r"
    and "encode_material P (idle r) = Inr bs"
  shows "decode_material P bs = Inr (r\<lparr>lr_live := None, lr_next_sequence := 0\<rparr>)"
proof -
  have len: "length bs < 2 ^ 64" using assms(4,5) by (simp add: material_fits_def)
  let ?r = "r\<lparr>lr_live := None, lr_next_sequence := 0\<rparr>"
  have same: "same_material r ?r" by (simp add: same_material_fields)
  have "idle ?r = ?r" by (cases r) (simp add: idle_def)
  then have "encode_material P ?r = Inr bs" using encode_material_cong [OF same] assms(5) by simp
  moreover have "material_ok P ?r" using same_material_ok [OF same] assms(3) by simp
  ultimately show ?thesis
    by (simp add: decode_material_iff [OF assms(1,2) len] material_ok_def validate_material_iff)
qed

lemma decoded_material:
  assumes "group_ok P" "magics_ok P" "length bs < 2 ^ 64" "decode_material P bs = Inr r"
  shows "material_ok P r \<and> material_fits P r \<and> encode_material P (idle r) = Inr bs \<and> lr_live r = None"
proof -
  have d: "registry_typed r" "lr_vaults r \<noteq> []" "validate_material P r = Inr ()" "encode_material P r = Inr bs"
    using assms(4) decode_material_iff [OF assms(1-3)] by simp_all
  then have "idle r = r" by (cases r) (auto simp: idle_def encode_material_Inr)
  with d assms(3) show ?thesis
    by (auto simp: material_ok_def validate_material_iff material_fits_def encode_material_Inr)
qed

section \<open>The invariant of the store\<close>

context store_contract
begin

definition present :: "('s::field, 'g::ab_group_add) profile \<Rightarrow> material_id \<Rightarrow> device_id \<Rightarrow> 'st \<Rightarrow> bool" where
  "present P i d s \<longleftrightarrow> (\<exists>bs r. materials s i = Some bs \<and> length bs < 2 ^ 64
     \<and> decode_material P bs = Inr r \<and> lr_device r = d)"

definition store_backed :: "('s::field, 'g::ab_group_add) profile \<Rightarrow> 'st \<Rightarrow> bool" where
  "store_backed P s \<longleftrightarrow> (\<forall>d sj. journals s d = Some sj \<longrightarrow> lj_device (sj_journal sj) = d
     \<and> journal_ok (sj_journal sj) \<and> present P (lj_material (sj_journal sj)) d s)"

lemma store_backed_kept:
  "store_backed P s \<Longrightarrow> kept s s' \<Longrightarrow> journals s' = journals s \<Longrightarrow> store_backed P s'"
  by (fastforce simp: store_backed_def kept_def present_def)

lemma present_mono: "materials s \<subseteq>\<^sub>m materials t \<Longrightarrow> present P i d s \<Longrightarrow> present P i d t"
  unfolding present_def map_le_def by (metis domI)

lemma store_backed_put: "store_backed P s \<Longrightarrow> put_effect m s t \<Longrightarrow> store_backed P t"
  using present_mono [of s t P] by (simp add: store_backed_def put_effect_def)

lemma store_backed_written:
  assumes "store_backed P s" "written d expected new revision s s'" "lj_device new = d" "journal_ok new"
    and "present P (lj_material new) d s"
  shows "store_backed P s'"
proof -
  have J: "journals s' = (journals s)(d \<mapsto> \<lparr>sj_revision = revision, sj_journal = new\<rparr>)" "kept s s'"
    using assms(2) by (simp_all add: written_def cas_write_def)
  have "present P (lj_material (sj_journal sj)) x s'" if "journals s' x = Some sj" for x sj
  proof -
    have "present P (lj_material (sj_journal sj)) x s"
      using that assms(1,3,5) by (auto simp: J(1) store_backed_def split: if_splits)
    with J(2) that show ?thesis by (fastforce simp: present_def kept_def)
  qed
  then show ?thesis
    using assms(1,3,4) by (auto simp: store_backed_def J(1) split: if_splits)
qed

lemma write_effect_backed:
  assumes "write_effect leaf new t res leaf' s'" "store_backed P t" "leaf_backed P sha256 leaf"
    and "lj_device new = pl_device leaf" "journal_ok new"
    and "\<And>sj. journals t (pl_device leaf) = Some sj \<Longrightarrow> sj_revision sj = pl_revision leaf \<Longrightarrow>
       present P (lj_material new) (pl_device leaf) t"
  shows "store_backed P s' \<and> leaf_backed P sha256 leaf'"
proof -
  have w: "store_backed P s'" if "written (pl_device leaf) (Some (pl_revision leaf)) new revision t s'" for revision
  proof -
    have "map_option sj_revision (journals t (pl_device leaf)) = Some (pl_revision leaf)"
      using that by (simp add: written_def cas_write_def)
    then obtain sj where "journals t (pl_device leaf) = Some sj" "sj_revision sj = pl_revision leaf" by auto
    from store_backed_written [OF assms(2) that assms(4,5) assms(6) [OF this]] show ?thesis .
  qed
  from assms(1) show ?thesis
    by cases (auto simp: w leaf_backed_finish assms(3) not_written_def
        intro: store_backed_kept [OF assms(2)])
qed

text \<open>A write of what an operation left, from a ready leaf.\<close>

lemma persist_backed:
  assumes P: "group_ok P" "magics_ok P"
    and w: "persist ops previous new material (leaf\<lparr>pl_registry := Some r'\<rparr>) s = (res, leaf', s')"
    and s: "ok s" "store_backed P s" "leaf_synced (journals s) leaf" "pl_pending leaf = None"
    and r: "pl_registry leaf = Some r" "journal_from_registry (pl_material leaf) r = Inr previous"
    and r': "journal_from_registry (lj_material new) r' = Inr new" "lr_device r' = lr_device r"
      "material_ok P r'" "material_fits P r'" "names_material P sha256 (lj_material new) r'"
    and none: "material = None \<Longrightarrow> lj_material new = pl_material leaf"
    and some: "\<And>m. material = Some m \<Longrightarrow> encode_material P (idle r') = Inr (lm_bytes m)
      \<and> lm_id m = hash_material sha256 (lm_bytes m) \<and> lm_id m = lj_material new \<and> lr_live r' = None"
  shows "store_backed P s' \<and> leaf_backed P sha256 leaf'"
proof -
  let ?leaf = "leaf\<lparr>pl_registry := Some r', pl_pending := Some \<lparr>pw_previous = previous, pw_next = new,
                  pw_material_changed = (material \<noteq> None)\<rparr>\<rparr>"
  have device: "pl_device leaf = lr_device r" using s(3) r(1) by (simp add: leaf_synced_def)
  note n = journal_from_registry_fields [OF r'(1)] and p = journal_from_registry_fields [OF r(2)]
  have backed: "leaf_backed P sha256 ?leaf"
    using r' none some p by (auto simp: leaf_backed_def)
  have new: "lj_device new = pl_device (leaf\<lparr>pl_registry := Some r'\<rparr>)" "journal_ok new"
    using n r'(2) device by simp_all
  show ?thesis
  proof (rule persist_cases [OF w s(1) new(1)], goal_cases)
    case (1 m)
    then show ?case using some by simp
  next
    case (2 e)
    then show ?case using store_backed_put [OF s(2) 2(2)] backed by simp
  next
    case (3 t)
    have "present P (lj_material new) (pl_device leaf) t"
      if sj: "journals t (pl_device leaf) = Some sj" "sj_revision sj = pl_revision leaf" for sj
    proof (cases material)
      case None
      have at: "journals s (pl_device leaf) = Some sj" using sj(1) 3(1) by (simp add: put_effect_def)
      have "sj_journal sj = previous" using at s(3,4) r sj(2) by (simp add: leaf_synced_def)
      moreover have "present P (lj_material (sj_journal sj)) (pl_device leaf) s"
        using s(2) at unfolding store_backed_def by blast
      ultimately have "present P (lj_material new) (pl_device leaf) s" using none [OF None] p by simp
      with present_mono 3(1) show ?thesis by (auto simp: put_effect_def)
    next
      case (Some m)
      note m = some [OF Some]
      have "materials t (lj_material new) = Some (lm_bytes m)"
        using 3(1) m Some unfolding put_effect_def by metis
      moreover have "decode_material P (lm_bytes m) = Inr (r'\<lparr>lr_live := None, lr_next_sequence := 0\<rparr>)"
        using m by (intro decode_encoded [OF P r'(3,4)]) simp
      moreover have "length (lm_bytes m) < 2 ^ 64" using m r'(4) by (simp add: material_fits_def)
      ultimately show ?thesis using r'(2) device by (simp add: present_def)
    qed
    then show ?case
      using write_effect_backed [OF 3(2) store_backed_put [OF s(2) 3(1)] backed] new by simp
  qed
qed

lemma transition_backed:
  assumes P: "group_ok P" "magics_ok P"
    and t: "persistent_transition ops operation leaf s = (res, leaf', s')"
    and s: "ok s" "store_backed P s" "leaf_synced (journals s) leaf" "leaf_backed P sha256 leaf"
    and op: "\<And>r. pl_registry leaf = Some r \<Longrightarrow> step_sound r (snd (operation r)) \<and> same_material r (snd (operation r))"
  shows "store_backed P s' \<and> leaf_backed P sha256 leaf'"
proof (cases "ready_journal leaf :: 'e persist_error + leaf_journal")
  case (Inl e)
  with t s show ?thesis by (simp add: persistent_transition_def)
next
  case (Inr previous)
  then obtain r where r: "pl_pending leaf = None" "pl_registry leaf = Some r"
    "journal_from_registry (pl_material leaf) r = Inr previous"
    by (auto simp: ready_journal_Inr)
  obtain x r' where o': "operation r = (x, r')" by (cases "operation r")
  have same: "same_material r r'" and sound: "step_sound r r'" using op [OF r(2)] o' by simp_all
  let ?leaf = "leaf\<lparr>pl_registry := Some r'\<rparr>"
  obtain new where new: "journal_from_registry (pl_material leaf) r' = Inr new"
    using sound r(3) registry_journaled_iff [of r] registry_journaled_iff [of r' "pl_material leaf"]
    by (auto simp: step_sound_def)
  then have new': "(ready_journal ?leaf :: 'e persist_error + leaf_journal) = Inr new"
    using r(1) by (simp add: ready_journal_Inr)
  have ready: "(ready_registry leaf :: 'e persist_error + _) = Inr r" using r by (simp add: ready_registry_def)
  note n = journal_from_registry_fields [OF new]
  have self: "journal_from_registry (lj_material new) r' = Inr new" using n new by simp
  have b: "material_ok P r'" "material_fits P r'" "names_material P sha256 (pl_material leaf) r'"
    using s(4) r(1,2) same_material_ok [OF same, of P] same_material_fits [OF same] same_material_names [OF same]
    by (simp_all add: leaf_backed_def)
  show ?thesis
  proof (cases "new = previous")
    case True
    have "leaf' = ?leaf \<and> s' = s" using t Inr o' new' ready True by (simp add: persistent_transition_def)
    moreover have "leaf_backed P sha256 ?leaf" using b r(1) by (simp add: leaf_backed_def)
    ultimately show ?thesis using s(2) by simp
  next
    case False
    obtain y where y: "persist ops previous new None ?leaf s = (y, leaf', s')"
      using t Inr o' new' ready False
      by (auto simp: persistent_transition_def split: prod.splits sum.splits)
    have dev: "lr_device r' = lr_device r" using same by (simp add: same_material_fields)
    show ?thesis
      by (rule persist_backed [OF P y s(1-3) r(1,2,3) self dev b(1,2)]) (use b(3) n in simp_all)
  qed
qed

lemma material_transition_backed:
  assumes P: "group_ok P" "magics_ok P"
    and t: "material_transition P sha256 ops operation leaf s = (res, leaf', s')"
    and s: "ok s" "store_backed P s" "leaf_synced (journals s) leaf" "leaf_backed P sha256 leaf"
    and op: "\<And>r. pl_registry leaf = Some r \<Longrightarrow> checked_operation P operation r"
    and err: "\<And>r e. pl_registry leaf = Some r \<Longrightarrow> fst (operation r) = Inl e \<Longrightarrow> snd (operation r) = r"
  shows "store_backed P s' \<and> leaf_backed P sha256 leaf'"
proof (cases "ready_journal leaf :: 'e persist_error + leaf_journal")
  case (Inl e)
  with t s show ?thesis by (simp add: material_transition_def)
next
  case (Inr previous)
  then obtain r where r: "pl_pending leaf = None" "pl_registry leaf = Some r"
    "journal_from_registry (pl_material leaf) r = Inr previous"
    by (auto simp: ready_journal_Inr)
  obtain x r' where o': "operation r = (x, r')" by (cases "operation r")
  let ?leaf = "leaf\<lparr>pl_registry := Some r'\<rparr>"
  have ready: "(ready_registry leaf :: 'e persist_error + _) = Inr r"
    "(ready_registry ?leaf :: 'e persist_error + _) = Inr r'" using r by (simp_all add: ready_registry_def)
  show ?thesis
  proof (cases x)
    case (Inl e)
    have "r' = r" using err [OF r(2), of e] o' Inl by simp
    then have same: "?leaf = leaf" using r(2) by (cases leaf) simp
    then have "leaf' = leaf \<and> s' = s"
      using t \<open>ready_journal leaf = Inr previous\<close> o' ready(1) Inl by (simp add: material_transition_def)
    with s show ?thesis by simp
  next
    case (Inr z)
    note out = Inr
    have ok': "material_ok P r'" "material_fits P r'"
      using checked_operation_ok [OF P(1) op [OF r(2)]] s(4) r(2) o' by (simp_all add: leaf_backed_def)
    have sound: "step_sound r r'"
      using material_operation_sound [OF checked_operation_material [OF op [OF r(2)]], of r] o' by simp
    then have journaled: "registry_journaled r'" and dev: "lr_device r' = lr_device r"
      using r(3) registry_journaled_iff [of r] by (auto simp: step_sound_def leaf_progress_def)
    show ?thesis
    proof (cases "current_material P sha256 ?leaf :: 'e persist_error + leaf_material")
      case (Inl e)
      have "leaf' = invalidate leaf \<and> s' = s"
        using t \<open>ready_journal leaf = Inr previous\<close> o' ready out Inl
        by (cases leaf) (simp add: material_transition_def invalidate_def)
      with s(2) show ?thesis by simp
    next
      case mat: (Inr m)
      then have m: "encode_material P r' = Inr (lm_bytes m)" "lm_id m = hash_material sha256 (lm_bytes m)"
        by (auto simp: current_material_def material_from_registry_def material_from_valid_bytes_def result_simps)
      then have "idle r' = r'" by (cases r') (auto simp: idle_def encode_material_Inr)
      with m have enc: "encode_material P (idle r') = Inr (lm_bytes m)" by simp
      obtain j where j: "journal_from_registry (lm_id m) r' = Inr j"
        using journaled registry_journaled_iff [of r' "lm_id m"] by blast
      note n = journal_from_registry_fields [OF j]
      have self: "journal_from_registry (lj_material j) r' = Inr j" using n j by simp
      obtain y where y: "persist ops previous j (Some m) ?leaf s = (y, leaf', s')"
        using t \<open>ready_journal leaf = Inr previous\<close> o' ready out mat j
        by (auto simp: material_transition_def Let_def split: prod.splits sum.splits)
      show ?thesis
        by (rule persist_backed [OF P y s(1-3) r(1,2,3) self dev ok'])
           (use enc m n in \<open>auto simp: names_material_def encode_material_Inr\<close>)
    qed
  qed
qed

lemma reconcile_backed:
  assumes P: "group_ok P" "magics_ok P"
    and t: "reconcile P sha256 ops leaf s = (res, leaf', s')"
    and s: "ok s" "store_backed P s" "leaf_synced (journals s) leaf" "leaf_backed P sha256 leaf"
  shows "store_backed P s' \<and> leaf_backed P sha256 leaf'"
proof (cases "pl_pending leaf")
  case None
  with t s show ?thesis by (simp add: reconcile_def)
next
  case (Some p)
  obtain found t1 where get: "get_journal ops (pl_device leaf) s = (found, t1)"
    by (cases "get_journal ops (pl_device leaf) s")
  note g = journal_result [OF get s(1)]
  have t1: "put_effect None s t1" using g by (simp add: put_effect_def)
  note held = store_backed_put [OF s(2) t1]
  obtain r where r: "pl_registry leaf = Some r" "lr_device r = pl_device leaf"
    "journal_from_registry (lj_material (pw_next p)) r = Inr (pw_next p)"
    using s(3) Some unfolding leaf_synced_def by blast
  note n = journal_from_registry_fields [OF r(3)]
  have rb: "material_ok P r" "material_fits P r" "names_material P sha256 (lj_material (pw_next p)) r"
    "\<not> pw_material_changed p \<Longrightarrow> lj_material (pw_next p) = lj_material (pw_previous p)"
    using s(4) r(1) Some by (simp_all add: leaf_backed_def)
  have sent: "store_backed P s' \<and> leaf_backed P sha256 leaf'"
    if "write_pending ops (pw_next p) leaf u = (res, leaf', s')" "put_effect m t1 u"
      "present P (lj_material (pw_next p)) (pl_device leaf) u" for u m
  proof -
    have "write_effect leaf (pw_next p) u res leaf' s'"
      using that(2) n r(2) by (intro write_pending_effect [OF that(1)]) (simp_all add: put_effect_def)
    from write_effect_backed [OF this store_backed_put [OF held that(2)] s(4)] n r(2) that(3)
    show ?thesis by simp
  qed
  show ?thesis
  proof (cases "\<exists>sj. found = Inr (Some sj) \<and> sj_journal sj \<noteq> pw_next p
      \<and> sj_revision sj = pl_revision leaf \<and> sj_journal sj = pw_previous p")
    case False
    then have "s' = t1 \<and> (leaf' = leaf \<or> leaf' = invalidate leaf \<or> (\<exists>revision. leaf' = finish_write revision leaf))"
      using t Some get
      by (auto simp: reconcile_def store_call_def split: sum.splits option.splits if_splits)
    with held s(4) show ?thesis by (auto intro: leaf_backed_finish)
  next
    case True
    then obtain sj where sj: "found = Inr (Some sj)" "sj_journal sj \<noteq> pw_next p"
      "sj_revision sj = pl_revision leaf" "sj_journal sj = pw_previous p" by blast
    then have at: "journals t1 (pl_device leaf) = Some sj" using g by simp
    show ?thesis
    proof (cases "pw_material_changed p")
      case False
      have "present P (lj_material (sj_journal sj)) (pl_device leaf) t1"
        using held at unfolding store_backed_def by blast
      then have "present P (lj_material (pw_next p)) (pl_device leaf) t1" using rb(4) [OF False] sj(4) by simp
      moreover have "write_pending ops (pw_next p) leaf t1 = (res, leaf', s')"
        using t Some get sj False by (simp add: reconcile_def store_call_def)
      moreover have "put_effect None t1 t1" using g by (simp add: put_effect_def)
      ultimately show ?thesis using sent by blast
    next
      case True
      show ?thesis
      proof (cases "current_material P sha256 leaf :: 'e persist_error + leaf_material")
        case (Inl e)
        with t Some get sj True held s(4) show ?thesis by (simp add: reconcile_def store_call_def)
      next
        case mat: (Inr m)
        then have m: "encode_material P r = Inr (lm_bytes m)" "lm_id m = hash_material sha256 (lm_bytes m)"
          using r(1) by (auto simp: current_material_def material_from_registry_def material_from_valid_bytes_def
              result_simps)
        then have "idle r = r" by (cases r) (auto simp: idle_def encode_material_Inr)
        with m have enc: "encode_material P (idle r) = Inr (lm_bytes m)" by simp
        obtain y u where put: "put_material ops m t1 = (y, u)" by (cases "put_material ops m t1")
        note pr = put_result [OF put _ m(2)]
        show ?thesis
        proof (cases "lm_id m = lj_material (pw_next p)")
          case False
          with t Some get sj True mat held show ?thesis by (auto simp: reconcile_def store_call_def)
        next
          case id: True
          show ?thesis
          proof (cases y)
            case (Inl e)
            have "leaf' = leaf \<and> s' = u"
              using t Some get sj True mat id put Inl by (simp add: reconcile_def store_call_def)
            moreover have "put_effect None t1 u" using pr g by (simp add: put_effect_def)
            ultimately show ?thesis using s(4) store_backed_put [OF held] by blast
          next
            case stored: (Inr v)
            have w: "write_pending ops (pw_next p) leaf u = (res, leaf', s')"
              using t Some get sj True mat id put stored by (simp add: reconcile_def store_call_def)
            have pu: "put_effect (Some m) t1 u" using pr g stored by (simp add: put_effect_def)
            have "materials u (lj_material (pw_next p)) = Some (lm_bytes m)"
              using pr g stored id by simp
            moreover have "length (lm_bytes m) < 2 ^ 64" using enc rb(2) by (simp add: material_fits_def)
            ultimately have "present P (lj_material (pw_next p)) (pl_device leaf) u"
              using decode_encoded [OF P rb(1,2) enc] r(2) by (simp add: present_def)
            from sent [OF w pu this] show ?thesis .
          qed
        qed
      qed
    qed
  qed
qed

lemma create_backed:
  assumes P: "group_ok P" "magics_ok P"
    and t: "persistent_create P sha256 ops r s = (res, s')"
    and s: "ok s" "store_backed P s" and r: "material_ok P r" "material_fits P r"
  shows "store_backed P s' \<and> (\<forall>leaf. res = Inr leaf \<longrightarrow> leaf_backed P sha256 leaf)"
proof (cases "and_then (map_err Protocol (material_from_registry P sha256 r) :: 'e persist_error + _)
    (\<lambda>material. and_then (map_err InvalidRecord (journal_from_registry (lm_id material) r))
      (\<lambda>journal. Inr (material, journal)))")
  case (Inl e)
  with t s show ?thesis by (auto simp: persistent_create_def)
next
  case (Inr x)
  then obtain m j where x: "x = (m, j)" "material_from_registry P sha256 r = Inr m"
    "journal_from_registry (lm_id m) r = Inr j"
    by (auto simp: result_simps)
  have m: "encode_material P r = Inr (lm_bytes m)" "lm_id m = hash_material sha256 (lm_bytes m)"
    using x(2) by (auto simp: material_from_registry_def material_from_valid_bytes_def result_simps)
  then have "idle r = r" by (cases r) (auto simp: idle_def encode_material_Inr)
  with m have enc: "encode_material P (idle r) = Inr (lm_bytes m)" by simp
  note j = journal_from_registry_fields [OF x(3)]
  obtain y t1 where put: "put_material ops m s = (y, t1)" by (cases "put_material ops m s")
  have t1: "put_effect None s t1" "ok t1" using put_result [OF put s(1) m(2)] by (auto simp: put_effect_def)
  note held = store_backed_put [OF s(2) t1(1)]
  have leaf: "leaf_backed P sha256 \<lparr>pl_device = lr_device r, pl_registry = Some r, pl_material = lm_id m,
      pl_revision = revision, pl_pending = None\<rparr>" for revision
    using r enc m(2) by (simp add: leaf_backed_def names_material_def)
  show ?thesis
  proof (cases y)
    case (Inl e)
    with t Inr x(1) put have "res = Inl (StoreFailed e)" "s' = t1"
      by (simp_all add: persistent_create_def store_call_def)
    with held show ?thesis by simp
  next
    case stored: (Inr u)
    then have "materials t1 (lm_id m) = Some (lm_bytes m)" using put_result [OF put s(1) m(2)] by simp
    moreover have "length (lm_bytes m) < 2 ^ 64" using enc r(2) by (simp add: material_fits_def)
    ultimately have pres: "present P (lj_material j) (lr_device r) t1"
      using decode_encoded [OF P r enc] j by (simp add: present_def)
    obtain c v where cas: "compare_exchange ops (lr_device r) None j t1 = (c, v)"
      by (cases "compare_exchange ops (lr_device r) None j t1")
    have out: "s' = v" "\<And>lf. res = Inr lf \<Longrightarrow> \<exists>revision. lf = \<lparr>pl_device = lr_device r,
        pl_registry = Some r, pl_material = lm_id m, pl_revision = revision, pl_pending = None\<rparr>"
      using t Inr x(1) put stored cas
      by (auto simp: persistent_create_def store_call_def split: sum.splits journal_cas.splits)
    have dev: "lj_device j = lr_device r" using j by simp
    have "store_backed P v"
    proof (cases rule: cas_cases [OF cas t1(2) dev])
      case (1 revision)
      then show ?thesis using j pres by (intro store_backed_written [OF held 1(2)]) simp_all
    next
      case 2
      then show ?thesis using store_backed_kept [OF held] by (simp add: not_written_def)
    next
      case (3 e)
      then show ?thesis using store_backed_kept [OF held] by (simp add: not_written_def)
    next
      case (4 e revision)
      then show ?thesis using j pres by (intro store_backed_written [OF held 4(2)]) simp_all
    qed
    with out leaf show ?thesis by auto
  qed
qed

text \<open>Loading fails only where the store does, and returns the material the journal names.\<close>

lemma load_backed:
  assumes P: "group_ok P" "magics_ok P"
    and t: "persistent_load P ops d s = (res, s')" and s: "ok s" "store_backed P s"
  shows "store_backed P s' \<and> (case res of
      Inl e \<Rightarrow> \<exists>x. e = StoreFailed x
    | Inr None \<Rightarrow> journals s d = None
    | Inr (Some leaf) \<Rightarrow> leaf_backed P sha256 leaf \<and> (\<exists>sj r. journals s d = Some sj
        \<and> leaf = \<lparr>pl_device = d, pl_registry = Some r, pl_material = lj_material (sj_journal sj),
                 pl_revision = pl_revision leaf, pl_pending = None\<rparr>
        \<and> lr_live r = None \<and> lr_next_sequence r = lj_next_sequence (sj_journal sj)))"
proof -
  obtain found t1 where get: "get_journal ops d s = (found, t1)" by (cases "get_journal ops d s")
  note g = journal_result [OF get s(1)]
  have t1: "put_effect None s t1" using g by (simp add: put_effect_def)
  note held = store_backed_put [OF s(2) t1]
  show ?thesis
  proof (cases "\<exists>sj. found = Inr (Some sj)")
    case False
    with t get g held show ?thesis
      by (auto simp: persistent_load_def store_call_def split: sum.splits option.splits)
  next
    case True
    then obtain sj where sj: "found = Inr (Some sj)" by blast
    then have J: "journals s d = Some sj" "journals t1 d = Some sj" using g by simp_all
    let ?j = "sj_journal sj"
    have jd: "lj_device ?j = d" "present P (lj_material ?j) d t1"
      using held J(2) unfolding store_backed_def by blast+
    then obtain bs r0 where bs: "materials t1 (lj_material ?j) = Some bs" "length bs < 2 ^ 64"
      "decode_material P bs = Inr r0" "lr_device r0 = d" by (auto simp: present_def)
    note dm = decoded_material [OF P bs(2,3)]
    have id: "lj_material ?j = hash_material sha256 bs" using addressed bs(1) g by blast
    obtain mat u where read: "get_material ops (lj_material ?j) t1 = (mat, u)"
      by (cases "get_material ops (lj_material ?j) t1")
    have ok1: "ok t1" using g by simp
    note gr = get_result [OF read ok1]
    have u: "put_effect None t1 u" using gr by (simp add: put_effect_def)
    note held' = store_backed_put [OF held u]
    show ?thesis
    proof (cases mat)
      case (Inl e)
      with t get sj read jd held' show ?thesis by (auto simp: persistent_load_def store_call_def)
    next
      case (Inr found')
      then have m: "found' = Some (material_from_valid_bytes sha256 bs)" using gr bs(1) by simp
      let ?r = "r0\<lparr>lr_next_sequence := lj_next_sequence ?j\<rparr>"
      have lr: "(loaded_registry P d ?j found' :: 'e persist_error + _) = Inr ?r"
        using bs(3,4) id by (simp add: loaded_registry_def m material_from_valid_bytes_def material_registry_def)
      have same: "same_material r0 ?r" by (simp add: same_material_fields)
      have rl: "lr_live ?r = None" using dm by simp
      let ?leaf = "\<lambda>revision. \<lparr>pl_device = d, pl_registry = Some ?r, pl_material = lj_material ?j,
        pl_revision = revision, pl_pending = None\<rparr>"
      have backed: "leaf_backed P sha256 (?leaf revision)" for revision
        using dm same_material_ok [OF same, of P] same_material_fits [OF same, of P]
          same_material_names [OF same, of P sha256 "lj_material ?j"] id
        by (auto simp: leaf_backed_def names_material_def)
      obtain recovered where rec: "journal_from_registry (lj_material ?j) ?r = Inr recovered"
        using registry_journaled_iff [of ?r "lj_material ?j"] rl by (auto simp: registry_journaled_def)
      note f = journal_from_registry_fields [OF rec]
      show ?thesis
      proof (cases "lj_live ?j")
        case None
        then have "s' = u \<and> res = Inr (Some (?leaf (sj_revision sj)))"
          using t get sj read Inr lr jd None by (auto simp: persistent_load_def store_call_def Let_def)
        with held' backed J rl show ?thesis by auto
      next
        case (Some a)
        obtain c v where cas: "compare_exchange ops d (Some (sj_revision sj)) recovered u = (c, v)"
          by (cases "compare_exchange ops d (Some (sj_revision sj)) recovered u")
        have dev: "lj_device recovered = d" using f bs(4) by simp
        have oku: "ok u" "journals u = journals t1" using gr by simp_all
        have pu: "present P (lj_material recovered) d u" using jd(2) f gr by (simp add: present_def)
        have out: "s' = v" "\<And>revision. c = Inr (CasApplied revision) \<Longrightarrow> res = Inr (Some (?leaf revision))"
          "\<And>e. c = Inl e \<Longrightarrow> res = Inl (StoreFailed e)"
          using t get sj read Inr lr jd Some rec cas
          by (auto simp: persistent_load_def store_call_def Let_def split: sum.splits journal_cas.splits)
        show ?thesis
        proof (rule cas_cases [OF cas oku(1) dev], goal_cases)
          case (1 revision)
          have "store_backed P v" using f pu dev by (intro store_backed_written [OF held' 1(2)]) simp_all
          with out(1) out(2) [OF 1(1)] backed J rl show ?case by auto
        next
          case 2
          then have False using cas_result [OF cas oku(1) dev] oku(2) J(2) by simp
          then show ?case ..
        next
          case (3 e)
          then have "store_backed P v" using store_backed_kept [OF held'] by (simp add: not_written_def)
          with out(1) out(3) [OF 3(1)] show ?case by simp
        next
          case (4 e revision)
          have "store_backed P v" using f pu dev by (intro store_backed_written [OF held' 4(2)]) simp_all
          with out(1) out(3) [OF 4(1)] show ?case by simp
        qed
      qed
    qed
  qed
qed

text \<open>Every reachable state.\<close>

lemma commit_same_material:
  "leaf_commit P draw a bs r rng = Some (done', rng') \<Longrightarrow>
     step_sound r (snd done') \<and> same_material r (snd done')"
  using leaf_commit_effect [of P draw a bs r rng "fst done'" "snd done'" rng']
  by (auto intro: effect_sound effect_same_material)

lemma commit_backed:
  assumes P: "group_ok P" "magics_ok P"
    and t: "persistent_commit P draw ops a bs leaf s rng = Some ((res, leaf', s'), rng')"
    and s: "ok s" "store_backed P s" "leaf_synced (journals s) leaf" "leaf_backed P sha256 leaf"
  shows "store_backed P s' \<and> leaf_backed P sha256 leaf'"
proof (cases "and_then (ready_journal leaf) (\<lambda>_. ready_registry leaf) :: 'e persist_error + _")
  case (Inl e)
  with t s show ?thesis by (simp add: persistent_commit_def)
next
  case (Inr r)
  then have r: "pl_registry leaf = Some r"
    by (auto simp: and_then_Inr_iff ready_registry_def ok_or_Inr_iff split: if_splits)
  from t Inr obtain done' where c: "leaf_commit P draw a bs r rng = Some (done', rng')"
    "persistent_transition ops (\<lambda>_. done') leaf s = (res, leaf', s')"
    by (auto simp: persistent_commit_def split: option.splits)
  show ?thesis
    by (rule transition_backed [OF P c(2) s]) (use r commit_same_material [OF c(1)] in simp)
qed

lemma effect_quiet: "leaf_effect r r' \<Longrightarrow> step_sound r r' \<and> same_material r r'"
  by (simp add: effect_sound effect_same_material)

lemmas operations_quiet = conjI [OF reserve_sound reserve_same_material]
  effect_quiet [OF leaf_reveal_effect] effect_quiet [OF leaf_fix_effect]
  effect_quiet [OF leaf_respond_with_effect] effect_quiet [OF leaf_close_effect]
  effect_quiet [OF leaf_receive_abort_effect]

lemma expire_quiet:
  "step_sound r (snd (let (closed, r') = leaf_close_expired now r in (Inr closed, r')))
    \<and> same_material r (snd (let (closed, r') = leaf_close_expired now r in (Inr closed, r')))"
  using leaf_close_expired_effect [of r now] by (simp add: effect_quiet case_prod_beta Let_def)

lemma action_backed:
  assumes "leaf_action P draw sha256 ops allowed leaf s e leaf' s'" "group_ok P" "magics_ok P"
    and "\<And>op r. allowed op r \<Longrightarrow> checked_operation P op r"
    and "ok s" "store_backed P s" "leaf_synced (journals s) leaf" "leaf_backed P sha256 leaf"
  shows "store_backed P s' \<and> leaf_backed P sha256 leaf'"
  using assms
proof (induction rule: leaf_action.induct)
  case (act_reconcile leaf s res leaf' s')
  then show ?case by (intro reconcile_backed)
next
  case (act_material leaf operation s res leaf' s')
  show ?case
  proof (rule material_transition_backed [OF act_material.prems(1,2) act_material.hyps(2) act_material.prems(4-)])
    show checked: "checked_operation P operation r" if "pl_registry leaf = Some r" for r
      using that act_material.hyps(1) act_material.prems(3) by blast
    show "snd (operation r) = r" if "pl_registry leaf = Some r" "fst (operation r) = Inl e" for r e
      by (rule checked_operation_error [OF checked [OF that(1)] that(2)])
  qed
next
  case (act_commit a bs leaf s rng res leaf' s' rng')
  then show ?case by (intro commit_backed)
qed (unfold persistent_operation_defs, (rule transition_backed, assumption+, (rule operations_quiet | rule expire_quiet))+)

text \<open>Runs that start with well-formed registries and change material by checked operations.\<close>

lemma run_backed:
  assumes "store_run P draw sha256 ops allowed initial s0 es leaves s"
    and P: "group_ok P" "magics_ok P" and allowed: "\<And>op r. allowed op r \<Longrightarrow> checked_operation P op r"
    and initial: "\<And>r. r \<in> initial \<Longrightarrow> material_ok P r \<and> material_fits P r"
    and start: "ok s0" "store_backed P s0"
  shows "store_backed P s \<and> (\<forall>leaf \<in> set leaves. leaf_backed P sha256 leaf)"
  using assms(1)
proof (induction rule: store_run.induct)
  case run_start
  then show ?case using start by simp
next
  case (run_create es leaves s r res s')
  have s: "ok s" using run_responses [OF run_create.hyps(1) _ start(1)] allowed checked_operation_material by blast
  then have "store_backed P s' \<and> (\<forall>leaf. res = Inr leaf \<longrightarrow> leaf_backed P sha256 leaf)"
    using create_backed [OF P run_create.hyps(3)] run_create.IH initial [OF run_create.hyps(2)] by blast
  with run_create.IH show ?case by (auto split: sum.splits)
next
  case (run_load es leaves s d res s')
  have s: "ok s" using run_responses [OF run_load.hyps(1) _ start(1)] allowed checked_operation_material by blast
  with run_load.IH load_backed [OF P run_load.hyps(2)] show ?case by (auto split: sum.splits option.splits)
next
  case (run_act es leaves s i e leaf' s')
  have s: "ok s" "\<forall>leaf \<in> set leaves. leaf_synced (journals s) leaf"
    using run_responses [OF run_act.hyps(1) _ start(1)] allowed checked_operation_material by blast+
  have "leaf_synced (journals s) (leaves ! i)" "leaf_backed P sha256 (leaves ! i)"
    using s(2) run_act.IH run_act.hyps(2) by simp_all
  then have "store_backed P s' \<and> leaf_backed P sha256 leaf'"
    using action_backed [OF run_act.hyps(3) P] allowed s(1) run_act.IH by blast
  with run_act.IH show ?case by (auto dest!: set_update_subset_insert [THEN subsetD])
qed

text \<open>The material of a ready leaf at the revision of the store is the material loaded.\<close>

lemma same_names:
  assumes P: "group_ok P" "magics_ok P"
    and "material_ok P r" "material_fits P r" "names_material P sha256 i r"
    and "material_ok P r'" "material_fits P r'" "names_material P sha256 i r'"
  shows "same_material r r' \<or> (\<exists>x y. x \<noteq> y \<and> hash_material sha256 x = hash_material sha256 y)"
proof -
  obtain x y where xy: "encode_material P (idle r) = Inr x" "encode_material P (idle r') = Inr y"
    "hash_material sha256 x = hash_material sha256 y"
    using assms(5,8) by (auto simp: names_material_def)
  have "same_material r r'" if "x = y"
    using decode_encoded [OF P assms(3,4) xy(1)] decode_encoded [OF P assms(6,7) xy(2)] that
    by (simp add: same_material_def)
  with xy(3) show ?thesis by blast
qed

lemma recovered:
  assumes "ok s0" "\<forall>d. journals s0 d = None" and P: "group_ok P" "magics_ok P"
    and initial: "\<And>r. r \<in> initial \<Longrightarrow> material_ok P r \<and> material_fits P r"
    and run: "store_run P draw sha256 ops (checked_operation P) initial s0 es leaves s"
    and load: "persistent_load P ops d s = (res, s')"
  shows "case res of
      Inl e \<Rightarrow> \<exists>x. e = StoreFailed x
    | Inr None \<Rightarrow> journals s d = None
    | Inr (Some leaf) \<Rightarrow> \<exists>sj r. journals s d = Some sj \<and> pl_device leaf = d \<and> leaf_state leaf = Some r
        \<and> lr_live r = None \<and> lr_next_sequence r = lj_next_sequence (sj_journal sj)
        \<and> validate_material P r = Inr ()
        \<and> (\<forall>old \<in> set leaves. pl_device old = d \<and> pl_revision old = sj_revision sj \<longrightarrow>
             (\<forall>r'. leaf_state old = Some r' \<longrightarrow> same_material r r'
               \<or> (\<exists>x y. x \<noteq> y \<and> hash_material sha256 x = hash_material sha256 y)))"
proof -
  have s: "ok s" "\<forall>leaf \<in> set leaves. leaf_synced (journals s) leaf"
    using run_responses [OF run checked_operation_material assms(1)] by simp_all
  have "store_backed P s0" using assms(2) by (simp add: store_backed_def)
  then have backed: "store_backed P s" "\<forall>leaf \<in> set leaves. leaf_backed P sha256 leaf"
    using run_backed [OF run P _ initial assms(1)] by simp_all
  note load = load_backed [OF P load s(1) backed(1), THEN conjunct2]
  show ?thesis
  proof (cases "\<exists>leaf. res = Inr (Some leaf)")
    case False
    with load show ?thesis by (auto split: sum.splits option.splits)
  next
    case True
    then obtain leaf where leaf: "res = Inr (Some leaf)" by blast
    with load obtain sj r where J: "journals s d = Some sj" "leaf_backed P sha256 leaf"
      and eq: "leaf = \<lparr>pl_device = d, pl_registry = Some r, pl_material = lj_material (sj_journal sj),
        pl_revision = pl_revision leaf, pl_pending = None\<rparr>"
      and r: "lr_live r = None" "lr_next_sequence r = lj_next_sequence (sj_journal sj)" by auto
    have sel: "pl_device leaf = d" "pl_registry leaf = Some r" "pl_material leaf = lj_material (sj_journal sj)"
      "pl_pending leaf = None" by (subst eq, simp)+
    have ok': "material_ok P r" "material_fits P r" "names_material P sha256 (lj_material (sj_journal sj)) r"
      using J(2) sel by (simp_all add: leaf_backed_def)
    have "same_material r r' \<or> (\<exists>x y. x \<noteq> y \<and> hash_material sha256 x = hash_material sha256 y)"
      if old: "old \<in> set leaves" "pl_device old = d" "pl_revision old = sj_revision sj" "leaf_state old = Some r'"
      for old r'
    proof -
      have st: "pl_pending old = None" "pl_registry old = Some r'"
        using old(4) by (simp_all add: leaf_state_def split: if_splits)
      have "journal_from_registry (pl_material old) r' = Inr (sj_journal sj)"
        using s(2) old(1-3) J(1) st by (auto simp: leaf_synced_def)
      from journal_from_registry_fields [OF this] have "pl_material old = lj_material (sj_journal sj)" by simp
      with backed(2) old(1) st have "material_ok P r'" "material_fits P r'"
        "names_material P sha256 (lj_material (sj_journal sj)) r'" by (auto simp: leaf_backed_def)
      from same_names [OF P ok' this] show ?thesis .
    qed
    with leaf J(1) r sel ok'(1) show ?thesis
      by (auto simp: leaf_state_def material_ok_def validate_material_iff)
  qed
qed

end

end
