(* ===== verification/Ksnf_Store_Demo.thy ===== *)
theory Ksnf_Store_Demo
  imports Ksnf_Recovery Ksnf_Leaf_Demo
begin

text \<open>
  The fixture's device over the in-memory store: created, one attempt run to its response, and
  loaded again. The witnesses about stores evaluate it; its digest is the length of the input.
\<close>

section \<open>The record\<close>

definition demo_sha256 :: "bytes \<Rightarrow> bytes" where
  "demo_sha256 bs = be_bytes 32 (length bs)"

abbreviation demo_ops :: "(ksnf_error, memory_store) leaf_store" where
  "demo_ops \<equiv> memory_leaf_store demo_sha256"

lemma toy_magics_ok [simp]: "magics_ok toy_profile"
  by (simp add: toy_profile_def magics_secp256k1)

definition demo_record :: bytes where
  "demo_record = (case encode_material toy_profile demo_leaf of Inl e \<Rightarrow> [] | Inr bs \<Rightarrow> bs)"

lemma demo_record:
  "encode_material toy_profile demo_leaf = Inr demo_record" "length demo_record < 2000"
proof -
  have "\<exists>bs. encode_material toy_profile demo_leaf = Inr bs \<and> length bs < 2000"
    by (simp add: encode_material_Inr demo_leaf_def demo_vault_def put_elements_def
        checked_len_def put_identity_devices_def put_outer_people_def put_vault_def put_len_def
        put_element_def element_to_bytes_def put_scalar_def put_point_def point_to_bytes_def
        and_then_def ascii_bytes_def put_u64_def put_u32_def)
  then show "encode_material toy_profile demo_leaf = Inr demo_record" "length demo_record < 2000"
    by (auto simp: demo_record_def)
qed

definition demo_material :: leaf_material where
  "demo_material = material_from_valid_bytes demo_sha256 demo_record"

lemma demo_registry_ok: "material_ok toy_profile demo_leaf"
proof -
  have "genesis_typed demo_genesis"
    by (simp add: genesis_typed_def demo_genesis_def demo_first_def demo_second_def)
  then have "attached toy_profile demo_device"
    using demo_genesis_built demo_attach unfolding attached_def by blast
  from leaf_new_material [OF toy_group_ok this demo_leaf_new] show ?thesis by simp
qed

lemma demo_leaf_fields [simp]:
  "lr_device demo_leaf = Ident 20" "lr_live demo_leaf = None" "lr_next_sequence demo_leaf = 0"
  by (simp_all add: demo_leaf_def)

lemma demo_idle: "idle demo_leaf = demo_leaf"
  by (simp add: idle_def demo_leaf_def)

lemma demo_fits: "material_fits toy_profile demo_leaf"
  using demo_record by (simp add: material_fits_def demo_idle)

section \<open>The run\<close>

definition demo_journal :: "u64 \<Rightarrow> leaf_attempt option \<Rightarrow> leaf_journal" where
  "demo_journal n live = \<lparr>lj_device = Ident 20, lj_material = lm_id demo_material,
     lj_next_sequence = n, lj_live = live\<rparr>"

definition demo_store :: "u64 \<Rightarrow> leaf_journal \<Rightarrow> memory_store" where
  "demo_store revision j = \<lparr>mm_materials = [(lm_id demo_material, demo_record)],
     mm_journals = [(Ident 20, \<lparr>sj_revision = revision, sj_journal = j\<rparr>)]\<rparr>"

definition demo_kept :: "u64 \<Rightarrow> (gf7, gf7) leaf_registry \<Rightarrow> (gf7, gf7) persistent_leaf" where
  "demo_kept revision r = \<lparr>pl_device = Ident 20, pl_registry = Some r, pl_material = lm_id demo_material,
     pl_revision = revision, pl_pending = None\<rparr>"

lemma demo_create:
  "persistent_create toy_profile demo_sha256 demo_ops demo_leaf memory_default =
     (Inr (demo_kept 1 demo_leaf), demo_store 1 (demo_journal 0 None))"
  using demo_record
  by (simp add: persistent_create_def material_from_registry_def and_then_def demo_material_def
      material_from_valid_bytes_def journal_from_registry_def leaf_journal_new_def store_call_def
      memory_leaf_store_def memory_put_material_def memory_compare_exchange_def memory_default_def
      demo_kept_def demo_store_def demo_journal_def leaf_live_attempt_def)

text \<open>A step of the registry that changes the journal moves the store one revision on.\<close>

lemma demo_transition:
  assumes "operation r = (res, r')"
    and "journal_from_registry (lm_id demo_material) r = Inr j"
    and "journal_from_registry (lm_id demo_material) r' = Inr j'"
    and "lr_device r = Ident 20" "lr_device r' = Ident 20" "checked_succ v = Some w"
  shows "persistent_transition demo_ops operation (demo_kept v r) (demo_store v j) =
    (if j' = j then (map_err Protocol res, demo_kept v r', demo_store v j)
     else (map_err Protocol res, demo_kept w r', demo_store w j'))"
proof -
  have j: "lj_device j' = Ident 20" "lj_material j' = lm_id demo_material" "lj_material j = lm_id demo_material"
    using journal_from_registry_fields [OF assms(2)] journal_from_registry_fields [OF assms(3)] assms(5) by simp_all
  with assms(1-3,6) show ?thesis
    by (simp add: persistent_transition_def ready_journal_def ready_registry_def demo_kept_def and_then_def
        persist_def write_pending_def store_call_def finish_write_def memory_leaf_store_def
        memory_compare_exchange_def demo_store_def collect_material_def)
qed

lemma demo_journals:
  "journal_from_registry (lm_id demo_material) demo_leaf = Inr (demo_journal 0 None)"
  "journal_from_registry (lm_id demo_material) demo_reserved = Inr (demo_journal 1 (Some demo_own))"
  "journal_from_registry (lm_id demo_material) demo_committed = Inr (demo_journal 1 (Some demo_own))"
  "journal_from_registry (lm_id demo_material) demo_held = Inr (demo_journal 1 (Some demo_own))"
  "journal_from_registry (lm_id demo_material) demo_fixed = Inr (demo_journal 1 (Some demo_own))"
  "journal_from_registry (lm_id demo_material) demo_final = Inr (demo_journal 1 None)"
  by (simp_all add: journal_from_registry_def leaf_journal_new_def demo_leaf_defs demo_journal_def
      leaf_live_attempt_def demo_own_def checked_succ_def)

lemma demo_run_devices [simp]:
  "lr_device demo_reserved = Ident 20" "lr_device demo_committed = Ident 20"
  "lr_device demo_held = Ident 20" "lr_device demo_fixed = Ident 20" "lr_device demo_final = Ident 20"
  by (simp_all add: demo_leaf_defs)

lemma demo_journal_eq [simp]: "demo_journal n l = demo_journal m k \<longleftrightarrow> n = m \<and> l = k"
  by (auto simp: demo_journal_def)

definition demo_answer :: "gf7 device_response" where
  "demo_answer = \<lparr>dr_attempt = demo_own, dr_scalar = gf 5\<rparr>"

lemma demo_kept_reserve:
  "persistent_reserve toy_profile demo_ops (Ident 5) 1 demo_bytes demo_outer (demo_kept 1 demo_leaf)
     (demo_store 1 (demo_journal 0 None)) =
   (Inr demo_own, demo_kept 2 demo_reserved, demo_store 2 (demo_journal 1 (Some demo_own)))"
  using demo_transition [where operation = "leaf_reserve toy_profile (Ident 5) 1 demo_bytes demo_outer" and v = 1 and w = 2,
      OF _ demo_journals(1,2)] demo_reserve
  by (simp add: persistent_reserve_def checked_succ_def)

lemma demo_kept_commit:
  "persistent_commit toy_profile demo_draw demo_ops demo_own demo_bytes (demo_kept 2 demo_reserved)
     (demo_store 2 (demo_journal 1 (Some demo_own))) () =
   Some ((Inr (gf 3), demo_kept 2 demo_committed, demo_store 2 (demo_journal 1 (Some demo_own))), ())"
proof -
  have "ready_journal (demo_kept 2 demo_reserved) =
      (Inr (demo_journal 1 (Some demo_own)) :: ksnf_error persist_error + leaf_journal)"
    using demo_journals(2) by (simp add: ready_journal_def ready_registry_def demo_kept_def)
  moreover have "ready_registry (demo_kept 2 demo_reserved) =
      (Inr demo_reserved :: ksnf_error persist_error + _)"
    by (simp add: ready_registry_def demo_kept_def)
  ultimately show ?thesis
    using demo_commit [OF demo_bytes(2), of plain_binding] demo_transition [where operation = "\<lambda>_. (Inr (gf 3), demo_committed)" and v = 2 and w = 3,
      OF _ demo_journals(2,3)]
    by (simp add: persistent_commit_def checked_succ_def)
qed

lemma demo_kept_reveal:
  "persistent_reveal toy_profile demo_ops demo_own (demo_deliveries demo_bytes) (demo_kept 2 demo_committed)
     (demo_store 2 (demo_journal 1 (Some demo_own))) =
   (Inr \<lparr>np_hiding = gf 1, np_binding = gf 1\<rparr>, demo_kept 2 demo_held,
    demo_store 2 (demo_journal 1 (Some demo_own)))"
  using demo_transition [where operation = "leaf_reveal toy_profile demo_own (demo_deliveries demo_bytes)" and v = 2 and w = 3,
      OF _ demo_journals(3,4)] demo_reveal [OF demo_bytes(2), of plain_binding]
  by (simp add: persistent_reveal_def checked_succ_def)

lemma demo_kept_fix:
  "persistent_fix toy_profile demo_ops demo_own (demo_openings demo_bytes) (demo_kept 2 demo_held)
     (demo_store 2 (demo_journal 1 (Some demo_own))) =
   (Inr \<lparr>np_hiding = gf 3, np_binding = gf 2\<rparr>, demo_kept 2 demo_fixed,
    demo_store 2 (demo_journal 1 (Some demo_own)))"
  using demo_transition [where operation = "leaf_fix toy_profile demo_own (demo_openings demo_bytes)" and v = 2 and w = 3,
      OF _ demo_journals(4,5)] demo_fix [OF demo_bytes(2), of plain_binding]
  by (simp add: persistent_fix_def checked_succ_def)

lemma demo_kept_respond:
  "persistent_respond toy_profile demo_ops demo_own demo_root_wire (demo_kept 2 demo_fixed)
     (demo_store 2 (demo_journal 1 (Some demo_own))) =
   (Inr demo_answer, demo_kept 3 demo_final, demo_store 3 (demo_journal 1 None))"
  using demo_transition [where operation = "leaf_respond toy_profile demo_own demo_root_wire" and v = 2 and w = 3,
      OF _ demo_journals(5,6)] demo_leaf_respond
  by (simp add: persistent_respond_def checked_succ_def demo_answer_def)

definition demo_run_of where
  "demo_run_of allowed es leaf s \<longleftrightarrow> store_run toy_profile demo_draw demo_sha256 demo_ops allowed {demo_leaf}
     memory_default es [leaf] s"

lemma demo_run_acts:
  assumes "demo_run_of allowed es leaf s"
    "leaf_action toy_profile demo_draw demo_sha256 demo_ops allowed leaf s e leaf' s'"
  shows "demo_run_of allowed (es @ (case e of None \<Rightarrow> [] | Some x \<Rightarrow> [x])) leaf' s'"
  using run_act [OF assms(1) [unfolded demo_run_of_def], of 0] assms(2) by (simp add: demo_run_of_def)

lemma demo_store_fixed:
  "demo_run_of allowed ([] :: (leaf_attempt \<times> gf7 device_response) list) (demo_kept 2 demo_fixed)
     (demo_store 2 (demo_journal 1 (Some demo_own)))"
proof -
  note acts = demo_run_acts [where e = None, simplified, OF _ act_reserve]
    demo_run_acts [where e = None, simplified, OF _ act_commit]
    demo_run_acts [where e = None, simplified, OF _ act_reveal]
    demo_run_acts [where e = None, simplified, OF _ act_fix]
  have "demo_run_of allowed ([] :: (leaf_attempt \<times> gf7 device_response) list) (demo_kept 1 demo_leaf)
      (demo_store 1 (demo_journal 0 None))"
    using run_create [OF run_start _ demo_create, where allowed = allowed
        and draw = demo_draw and initial = "{demo_leaf}"] by (simp add: demo_run_of_def)
  from acts(4) [OF acts(3) [OF acts(2) [OF acts(1) [OF this demo_kept_reserve [unfolded persistent_reserve_def
    leaf_reserve_def]] demo_kept_commit] demo_kept_reveal] demo_kept_fix] show ?thesis .
qed

lemma demo_store_responded:
  "demo_run_of allowed [(demo_own, demo_answer)] (demo_kept 3 demo_final) (demo_store 3 (demo_journal 1 None))"
  using demo_run_acts [OF demo_store_fixed act_respond [OF demo_kept_respond [unfolded persistent_respond_def
    leaf_respond_def]]] by simp

section \<open>Loading\<close>

definition demo_loaded :: "u64 \<Rightarrow> (gf7, gf7) leaf_registry" where
  "demo_loaded n = demo_leaf\<lparr>lr_next_sequence := n\<rparr>"

lemma demo_decode: "decode_material toy_profile demo_record = Inr demo_leaf"
proof -
  have "encode_material toy_profile (idle demo_leaf) = Inr demo_record" using demo_record demo_idle by simp
  from decode_encoded [OF toy_group_ok toy_magics_ok demo_registry_ok demo_fits this] show ?thesis
    by (simp add: demo_leaf_def)
qed

lemma demo_load:
  assumes "journal_ok (demo_journal n live)" "checked_succ v = Some w"
  shows "persistent_load toy_profile demo_ops (Ident 20) (demo_store v (demo_journal n live)) =
    (if live = None then (Inr (Some (demo_kept v (demo_loaded n))), demo_store v (demo_journal n None))
     else (Inr (Some (demo_kept w (demo_loaded n))), demo_store w (demo_journal n None)))"
proof -
  let ?m = "material_from_valid_bytes demo_sha256 demo_record"
  have "loaded_registry toy_profile (Ident 20) (demo_journal n live) (Some ?m) =
      (Inr (demo_loaded n) :: ksnf_error persist_error + _)"
    using demo_decode by (simp add: loaded_registry_def demo_journal_def demo_material_def
        material_registry_def demo_loaded_def material_from_valid_bytes_def)
  moreover have "journal_from_registry (lm_id demo_material) (demo_loaded n) = Inr (demo_journal n None)"
    by (simp add: journal_from_registry_def leaf_journal_new_def demo_loaded_def demo_journal_def
        leaf_live_attempt_def)
  ultimately show ?thesis
    using assms(2)
    by (auto simp: persistent_load_def store_call_def memory_leaf_store_def memory_get_journal_def
        memory_get_material_def memory_compare_exchange_def demo_store_def demo_journal_def Let_def
        demo_kept_def collect_material_def)
qed

section \<open>A conflict\<close>

definition demo_conflicted :: "(gf7, gf7) persistent_leaf" where
  "demo_conflicted = (demo_kept 1 demo_reserved)\<lparr>pl_pending := Some \<lparr>pw_previous = demo_journal 0 None,
     pw_next = demo_journal 1 (Some demo_own), pw_material_changed = False\<rparr>\<rparr>"

lemma demo_conflict:
  "persistent_reserve toy_profile demo_ops (Ident 5) 1 demo_bytes demo_outer (demo_kept 1 demo_leaf)
     (demo_store 2 (demo_journal 1 (Some demo_own))) =
   (Inl Conflict, demo_conflicted, demo_store 2 (demo_journal 1 (Some demo_own)))"
proof -
  have "lj_device (demo_journal 1 (Some demo_own)) = Ident 20"
    "lj_material (demo_journal n live) = lm_id demo_material" for n live
    by (simp_all add: demo_journal_def)
  with demo_reserve demo_journals(1,2) show ?thesis
    by (simp add: persistent_reserve_def persistent_transition_def ready_journal_def ready_registry_def
        demo_kept_def and_then_def persist_def write_pending_def store_call_def memory_leaf_store_def
        memory_compare_exchange_def demo_store_def collect_material_def demo_conflicted_def)
qed

text \<open>Two leaves of the device: the second reserves at a revision the first has replaced.\<close>

lemma demo_conflict_run:
  "store_run toy_profile demo_draw demo_sha256 demo_ops allowed {demo_leaf} memory_default
     ([] :: (leaf_attempt \<times> gf7 device_response) list) [demo_kept 2 demo_reserved, demo_conflicted]
     (demo_store 2 (demo_journal 1 (Some demo_own)))"
proof -
  note reserve = persistent_reserve_def leaf_reserve_def
  have loaded: "persistent_load toy_profile demo_ops (Ident 20) (demo_store 1 (demo_journal 0 None)) =
      (Inr (Some (demo_kept 1 demo_leaf)), demo_store 1 (demo_journal 0 None))"
    using demo_load [of 0 None 1 2] by (simp add: journal_ok_def demo_journal_def checked_succ_def demo_loaded_def)
      (simp add: demo_leaf_def)
  have "store_run toy_profile demo_draw demo_sha256 demo_ops allowed {demo_leaf} memory_default
     ([] :: (leaf_attempt \<times> gf7 device_response) list) [demo_kept 1 demo_leaf] (demo_store 1 (demo_journal 0 None))"
    using run_create [OF run_start _ demo_create, where allowed = allowed and draw = demo_draw
        and initial = "{demo_leaf}"] by simp
  from run_load [OF this loaded] have two: "store_run toy_profile demo_draw demo_sha256 demo_ops allowed {demo_leaf}
      memory_default ([] :: (leaf_attempt \<times> gf7 device_response) list)
      [demo_kept 1 demo_leaf, demo_kept 1 demo_leaf] (demo_store 1 (demo_journal 0 None))" by simp
  have first: "leaf_action toy_profile demo_draw demo_sha256 demo_ops allowed (demo_kept 1 demo_leaf)
      (demo_store 1 (demo_journal 0 None)) (None :: (leaf_attempt \<times> gf7 device_response) option)
      (demo_kept 2 demo_reserved) (demo_store 2 (demo_journal 1 (Some demo_own)))"
    by (rule act_reserve [OF demo_kept_reserve [unfolded reserve]])
  have second: "leaf_action toy_profile demo_draw demo_sha256 demo_ops allowed (demo_kept 1 demo_leaf)
      (demo_store 2 (demo_journal 1 (Some demo_own))) (None :: (leaf_attempt \<times> gf7 device_response) option)
      demo_conflicted (demo_store 2 (demo_journal 1 (Some demo_own)))"
    by (rule act_reserve [OF demo_conflict [unfolded reserve]])
  show ?thesis
    using run_act [OF run_act [OF two, of 0], of _ _ _ 1] first second by fastforce
qed

end
