(* ===== verification/Ksnf_Reconcile.thy ===== *)
theory Ksnf_Reconcile
  imports Ksnf_Recovery
begin

text \<open>
  What ends an ambiguous write: with a store that answers and no other writer since, reconciling
  makes the leaf ready again at the write it wanted; a journal equal to the wanted one counts as
  that write, whoever wrote it.
\<close>

text \<open>The store answers the calls that finish the leaf's write.\<close>

definition store_answers ::
  "('e, 'st) leaf_store \<Rightarrow> ('st \<Rightarrow> bool) \<Rightarrow> ('s, 'g) persistent_leaf \<Rightarrow> pending_write \<Rightarrow> bool" where
  "store_answers ops now leaf p \<longleftrightarrow> (\<forall>t. now t \<longrightarrow> \<not> isl (fst (get_journal ops (pl_device leaf) t))
     \<and> \<not> isl (fst (compare_exchange ops (pl_device leaf) (Some (pl_revision leaf)) (pw_next p) t))
     \<and> (pw_material_changed p \<longrightarrow>
          (\<forall>m. lm_id m = lj_material (pw_next p) \<longrightarrow> \<not> isl (fst (put_material ops m t)))))"

context store_contract
begin

definition completes :: "('s, 'g) persistent_leaf \<Rightarrow> pending_write
    \<Rightarrow> ('e persist_error + unit) \<times> ('s, 'g) persistent_leaf \<times> 'st \<Rightarrow> bool" where
  "completes leaf p done' \<longleftrightarrow> (\<exists>leaf' s'. done' = (Inr (), leaf', s')
     \<and> leaf_state leaf' = pl_registry leaf \<and> pl_material leaf' = lj_material (pw_next p)
     \<and> journals s' (pl_device leaf) = Some \<lparr>sj_revision = pl_revision leaf', sj_journal = pw_next p\<rparr>)"

lemma write_completes:
  assumes "ok t" "journals t (pl_device leaf) = Some sj" "sj_revision sj = pl_revision leaf"
    and "lj_device (pw_next p) = pl_device leaf" "pl_pending leaf = Some p"
    and "\<not> isl (fst (compare_exchange ops (pl_device leaf) (Some (pl_revision leaf)) (pw_next p) t))"
  shows "completes leaf p (write_pending ops (pw_next p) leaf t)"
proof -
  obtain cas u where cas: "compare_exchange ops (pl_device leaf) (Some (pl_revision leaf)) (pw_next p) t = (cas, u)"
    by (cases "compare_exchange ops (pl_device leaf) (Some (pl_revision leaf)) (pw_next p) t")
  note out = cas_result [OF cas assms(1,4)]
  obtain revision where "cas = Inr (CasApplied revision)" using out cas assms(2,3,6)
    by (cases cas; cases "projr cas") auto
  with out cas assms(5) show ?thesis
    by (simp add: completes_def write_pending_def store_call_def finish_write_def leaf_state_def cas_write_def)
qed

lemma reconcile_completes:
  assumes s: "ok s" "leaf_synced (journals s) leaf" "leaf_backed P sha256 leaf"
    and p: "pl_pending leaf = Some p" and sj: "journals s (pl_device leaf) = Some sj"
    and alone: "sj_revision sj = pl_revision leaf \<or> sj_journal sj = pw_next p"
    and answers: "store_answers ops (\<lambda>t. ok t \<and> journals t = journals s) leaf p"
  shows "completes leaf p (reconcile P sha256 ops leaf s) \<and> pl_registry leaf \<noteq> None"
proof
  obtain r where r: "pl_registry leaf = Some r" "lr_device r = pl_device leaf"
    "journal_from_registry (lj_material (pw_next p)) r = Inr (pw_next p)"
    using s(2) p unfolding leaf_synced_def by blast
  then show "pl_registry leaf \<noteq> None" by simp
  have device: "lj_device (pw_next p) = pl_device leaf"
    using journal_from_registry_fields [OF r(3)] r(2) by simp
  obtain found t where get: "get_journal ops (pl_device leaf) s = (found, t)"
    by (cases "get_journal ops (pl_device leaf) s")
  note g = journal_result [OF get s(1)]
  have found: "found = Inr (Some sj)"
    using g sj answers get s(1) by (cases found) (auto simp: store_answers_def)
  have t: "ok t" "journals t = journals s" using g by simp_all
  have cas: "\<not> isl (fst (compare_exchange ops (pl_device leaf) (Some (pl_revision leaf)) (pw_next p) u))"
    if "ok u" "journals u = journals s" for u using answers that by (simp add: store_answers_def)
  show "completes leaf p (reconcile P sha256 ops leaf s)"
  proof (cases "sj_journal sj = pw_next p")
    case True
    then show ?thesis
      using p get found sj t
      by (cases sj) (simp add: reconcile_def store_call_def completes_def finish_write_def leaf_state_def)
  next
    case False
    then have rev: "sj_revision sj = pl_revision leaf" using alone by simp
    then have prev: "sj_journal sj = pw_previous p" using s(2) sj p by (simp add: leaf_synced_def)
    note sent = write_completes [OF _ _ rev device p]
    show ?thesis
    proof (cases "pw_material_changed p")
      case False
      then have "reconcile P sha256 ops leaf s = write_pending ops (pw_next p) leaf t"
        using p get found \<open>sj_journal sj \<noteq> pw_next p\<close> rev prev by (simp add: reconcile_def store_call_def)
      then show ?thesis using sent [of t] cas t sj by simp
    next
      case True
      have b: "names_material P sha256 (lj_material (pw_next p)) r" "lr_live r = None"
        using s(3) r(1) p True by (simp_all add: leaf_backed_def)
      have "idle r = r" using b(2) by (cases r) (simp add: idle_def)
      with b(1) obtain bs where bs: "encode_material P r = Inr bs"
        "lj_material (pw_next p) = hash_material sha256 bs" by (auto simp: names_material_def)
      let ?m = "material_from_valid_bytes sha256 bs"
      have m: "lm_id ?m = lj_material (pw_next p)" "lm_id ?m = hash_material sha256 (lm_bytes ?m)"
        using bs by (simp_all add: material_from_valid_bytes_def)
      have cur: "(current_material P sha256 leaf :: 'e persist_error + leaf_material) = Inr ?m"
        using r(1) bs by (simp add: current_material_def material_from_registry_def)
      obtain put u where put: "put_material ops ?m t = (put, u)" by (cases "put_material ops ?m t")
      note pr = put_result [OF put t(1) m(2)]
      have "\<not> isl (fst (put_material ops ?m t))" using answers t m(1) True unfolding store_answers_def by blast
      then have "put = Inr ()" using put by (cases put) auto
      then have "reconcile P sha256 ops leaf s = write_pending ops (pw_next p) leaf u"
        using p get found \<open>sj_journal sj \<noteq> pw_next p\<close> rev prev True cur m put
        by (simp add: reconcile_def store_call_def)
      then show ?thesis using sent [of u] cas pr t sj by simp
    qed
  qed
qed

lemma run_reconciles:
  assumes "ok s0" "\<forall>d. journals s0 d = None" and P: "group_ok P" "magics_ok P"
    and initial: "\<And>r. r \<in> initial \<Longrightarrow> material_ok P r \<and> material_fits P r"
    and run: "store_run P draw sha256 ops (checked_operation P) initial s0 es leaves s"
    and leaf: "leaf \<in> set leaves" "pl_pending leaf = Some p" "journals s (pl_device leaf) = Some sj"
    and "sj_revision sj = pl_revision leaf \<or> sj_journal sj = pw_next p"
    and "store_answers ops (\<lambda>t. ok t \<and> journals t = journals s) leaf p"
  shows "\<exists>leaf' s'. reconcile P sha256 ops leaf s = (Inr (), leaf', s')
    \<and> leaf_state leaf' = pl_registry leaf \<and> pl_registry leaf \<noteq> None
    \<and> pl_material leaf' = lj_material (pw_next p)
    \<and> journals s' (pl_device leaf) = Some \<lparr>sj_revision = pl_revision leaf', sj_journal = pw_next p\<rparr>"
proof -
  have s: "ok s" "leaf_synced (journals s) leaf"
    using run_responses [OF run checked_operation_material assms(1)] leaf(1) by simp_all
  have "store_backed P s0" using assms(2) by (simp add: store_backed_def)
  then have "leaf_backed P sha256 leaf" using run_backed [OF run P _ initial assms(1)] leaf(1) by simp
  from reconcile_completes [OF s this leaf(2,3) assms(10,11)] show ?thesis
    unfolding completes_def by blast
qed

end

end
