(* ===== verification/Ksnf_Store_Claims.thy ===== *)
theory Ksnf_Store_Claims
  imports Ksnf_Store_Demo Ksnf_Reconcile Ksnf_Outer_Demo
begin

text \<open>
  The guarantees of persistent leaves over a store that keeps the contract, of the storage
  records, and of the in-memory store.
\<close>

section \<open>Processes over one store\<close>

text \<open>
  C3. One durable response per attempt: however many leaves of however many devices run over one
  store, created, loaded, abandoned and reconciled at any time, with store calls that fail before
  or after they wrote, no attempt is answered twice, and an answered attempt is closed in the
  device's stored journal.
\<close>

theorem durable_single_response:
  assumes "store_contract sha256 ops ok journals materials" "ok s0"
    and "store_run P draw sha256 ops (\<lambda>op r. material_operation P op) initial s0 es leaves s"
  shows "distinct (map fst es) \<and> (\<forall>e \<in> set es.
    \<exists>sj. journals s (la_device (fst e)) = Some sj \<and> journal_is_closed (sj_journal sj) (fst e))"
  using store_contract.run_responses [OF assms(1,3) _ assms(2)] store_contract.responded_def [OF assms(1)]
  by blast

theorem durable_single_response_witness: "journal_is_closed (demo_journal 1 None) demo_own"
proof -
  have run: "store_run toy_profile demo_draw demo_sha256 demo_ops (\<lambda>op r. material_operation toy_profile op)
      {demo_leaf} memory_default [(demo_own, demo_answer)] [demo_kept 3 demo_final]
      (demo_store 3 (demo_journal 1 None))"
    by (rule demo_store_responded [unfolded demo_run_of_def])
  have "memory_ok demo_sha256 memory_default" by (simp add: memory_ok_def memory_default_def)
  from durable_single_response [OF memory_store.store_contract_axioms this run] show ?thesis
    by (simp add: memory_journal_def demo_store_def demo_own_def)
qed

text \<open>
  C8. Recovery: in every state such processes reach from a store without journals, loading a
  device fails only where the store does. It finds nothing exactly when the device has no journal;
  otherwise it gives a ready leaf with the journal's attempt counter, no live attempt and material
  that passes every check of a record - the material of any ready leaf at the journal's revision,
  unless two records have one digest.
\<close>

theorem durable_recovery:
  assumes "store_contract sha256 ops ok journals materials" "ok s0" "\<forall>d. journals s0 d = None"
    and "group_ok P" "magics_ok P" "\<forall>r \<in> initial. material_ok P r \<and> material_fits P r"
    and "store_run P draw sha256 ops (checked_operation P) initial s0 es leaves s"
    and "persistent_load P ops d s = (res, s')"
  shows "case res of
      Inl e \<Rightarrow> \<exists>x. e = StoreFailed x
    | Inr None \<Rightarrow> journals s d = None
    | Inr (Some leaf) \<Rightarrow> \<exists>sj r. journals s d = Some sj \<and> pl_device leaf = d \<and> leaf_state leaf = Some r
        \<and> lr_live r = None \<and> lr_next_sequence r = lj_next_sequence (sj_journal sj)
        \<and> validate_material P r = Inr ()
        \<and> (\<forall>old \<in> set leaves. pl_device old = d \<and> pl_revision old = sj_revision sj \<longrightarrow>
             (\<forall>r'. leaf_state old = Some r' \<longrightarrow> same_material r r'
               \<or> (\<exists>x y. x \<noteq> y \<and> hash_material sha256 x = hash_material sha256 y)))"
  by (rule store_contract.recovered [OF assms(1,2,3,4,5) _ assms(7,8)]) (use assms(6) in blast)

theorem durable_recovery_witness:
  "validate_material toy_profile (demo_loaded 1) = Inr ()
   \<and> same_material (demo_loaded 1) demo_fixed"
proof -
  have ok: "memory_ok demo_sha256 memory_default" "\<forall>d. memory_journal memory_default d = None"
    by (simp_all add: memory_ok_def memory_default_def memory_journal_def)
  have load: "persistent_load toy_profile demo_ops (Ident 20) (demo_store 2 (demo_journal 1 (Some demo_own))) =
      (Inr (Some (demo_kept 3 (demo_loaded 1))), demo_store 3 (demo_journal 1 None))"
    using demo_load [of 1 "Some demo_own" 2 3]
    by (simp add: journal_ok_def demo_journal_def demo_own_def checked_succ_def)
  have run: "store_run toy_profile demo_draw demo_sha256 demo_ops (checked_operation toy_profile) {demo_leaf}
      memory_default ([] :: (leaf_attempt \<times> gf7 device_response) list) [demo_kept 2 demo_fixed]
      (demo_store 2 (demo_journal 1 (Some demo_own)))"
    by (rule demo_store_fixed [unfolded demo_run_of_def])
  have "\<forall>r \<in> {demo_leaf}. material_ok toy_profile r \<and> material_fits toy_profile r"
    using demo_registry_ok demo_fits by simp
  from durable_recovery [OF memory_store.store_contract_axioms ok toy_group_ok toy_magics_ok this run load]
  have "validate_material toy_profile (demo_loaded 1) = Inr ()" by (auto simp: leaf_state_def demo_kept_def)
  moreover have "same_material (demo_loaded 1) demo_fixed"
    by (simp add: same_material_def demo_loaded_def demo_leaf_defs)
  ultimately show ?thesis ..
qed

text \<open>
  C15. Reconciling ends every ambiguous write: a leaf of such processes whose write is pending, with
  a store that answers and a journal that is still at the leaf's revision or is the wanted one,
  becomes ready again in one call - with the registry the operation left, over a stored journal
  that is exactly the wanted one.
\<close>

theorem reconcile_restores:
  assumes "store_contract sha256 ops ok journals materials" "ok s0" "\<forall>d. journals s0 d = None"
    and "group_ok P" "magics_ok P" "\<forall>r \<in> initial. material_ok P r \<and> material_fits P r"
    and "store_run P draw sha256 ops (checked_operation P) initial s0 es leaves s"
    and "leaf \<in> set leaves" "pl_pending leaf = Some p" "journals s (pl_device leaf) = Some sj"
    and "sj_revision sj = pl_revision leaf \<or> sj_journal sj = pw_next p"
    and "store_answers ops (\<lambda>t. ok t \<and> journals t = journals s) leaf p"
  shows "\<exists>leaf' s'. reconcile P sha256 ops leaf s = (Inr (), leaf', s')
    \<and> leaf_state leaf' = pl_registry leaf \<and> pl_registry leaf \<noteq> None
    \<and> pl_material leaf' = lj_material (pw_next p)
    \<and> journals s' (pl_device leaf) = Some \<lparr>sj_revision = pl_revision leaf', sj_journal = pw_next p\<rparr>"
  by (rule store_contract.run_reconciles [OF assms(1-5) _ assms(7-)]) (use assms(6) in blast)

text \<open>
  The witness: two leaves of one device reserve at one revision. The second one's write conflicts,
  and as its journal equals the stored one, reconciling takes the first one's write for its own:
  both leaves then hold the attempt. (At most one of them can still answer.)
\<close>

theorem reconcile_restores_witness:
  "\<exists>leaf' s'. reconcile toy_profile demo_sha256 demo_ops demo_conflicted
      (demo_store 2 (demo_journal 1 (Some demo_own))) = (Inr (), leaf', s')
    \<and> leaf_state leaf' = Some demo_reserved \<and> leaf_state (demo_kept 2 demo_reserved) = Some demo_reserved"
proof -
  have ok: "memory_ok demo_sha256 memory_default" "\<forall>d. memory_journal memory_default d = None"
    by (simp_all add: memory_ok_def memory_default_def memory_journal_def)
  have initial: "\<forall>r \<in> {demo_leaf}. material_ok toy_profile r \<and> material_fits toy_profile r"
    using demo_registry_ok demo_fits by simp
  let ?p = "\<lparr>pw_previous = demo_journal 0 None, pw_next = demo_journal 1 (Some demo_own),
      pw_material_changed = False\<rparr>"
  let ?s = "demo_store 2 (demo_journal 1 (Some demo_own))"
  have c: "pl_device demo_conflicted = Ident 20" "pl_pending demo_conflicted = Some ?p"
    "pl_registry demo_conflicted = Some demo_reserved" "pl_revision demo_conflicted = 1"
    by (simp_all add: demo_conflicted_def demo_kept_def)
  have J: "memory_journal ?s (pl_device demo_conflicted) =
      Some \<lparr>sj_revision = 2, sj_journal = demo_journal 1 (Some demo_own)\<rparr>"
    by (simp add: memory_journal_def demo_store_def c)
  have answers: "store_answers demo_ops (\<lambda>t. memory_ok demo_sha256 t \<and> memory_journal t = memory_journal ?s)
      demo_conflicted ?p"
  proof -
    have "lj_device (demo_journal 1 (Some demo_own)) = Ident 20" by (simp add: demo_journal_def)
    then have "\<not> isl (fst (compare_exchange demo_ops (Ident 20) (Some 1) (demo_journal 1 (Some demo_own)) t))"
      if "memory_journal t (Ident 20) = Some \<lparr>sj_revision = 2, sj_journal = j\<rparr>" for t j
      using that by (auto simp: memory_leaf_store_def memory_compare_exchange_def memory_journal_def Let_def
          split: option.splits)
    then show ?thesis using J
      by (auto simp: store_answers_def c) (simp_all add: memory_leaf_store_def memory_get_journal_def)
  qed
  have "demo_conflicted \<in> set [demo_kept 2 demo_reserved, demo_conflicted]" by simp
  from reconcile_restores [OF memory_store.store_contract_axioms ok toy_group_ok toy_magics_ok initial
      demo_conflict_run this c(2) J _ answers]
  obtain leaf' s' where "reconcile toy_profile demo_sha256 demo_ops demo_conflicted ?s = (Inr (), leaf', s')"
    "leaf_state leaf' = Some demo_reserved" by (auto simp: c)
  then show ?thesis by (simp add: leaf_state_def demo_kept_def)
qed

text \<open>
  C27. An outer activation while an attempt of another vault is live is lost: the registry installs
  the block and keeps the attempt, the record of a busy registry is refused, and the persistent
  leaf reports an invalid record, writes nothing and stays unavailable, also to reconciling.
\<close>

theorem outer_activation_lost:
  assumes "ready_journal leaf = (Inr j :: 'e persist_error + leaf_journal)" "leaf_state leaf = Some r"
    and "lr_live r = Some live" "lv_vault live \<noteq> an_vault (ke_anchor epoch)"
    and "leaf_activate_outer P epoch member r = (Inr (), r')"
    and "persistent_activate_outer P sha256 ops epoch member leaf s = (res :: 'e persist_error + unit, leaf', s')"
  shows "res = Inl (InvalidRecord Busy) \<and> s' = s \<and> leaf_state leaf' = None \<and> \<not> needs_reconcile leaf'
    \<and> reconcile P sha256 ops leaf' t = (Inl Unavailable, leaf', t)"
proof -
  have r: "pl_pending leaf = None" "pl_registry leaf = Some r"
    using assms(2) by (simp_all add: leaf_state_def split: if_splits)
  then have ready: "(ready_registry leaf :: 'e persist_error + _) = Inr r" by (simp add: ready_registry_def)
  have "lr_live r' = Some live"
    using assms(3-5) by (auto simp: leaf_activate_outer_def close_vault_live_def Let_def split: sum.splits)
  then have "(current_material P sha256 (leaf\<lparr>pl_registry := Some r'\<rparr>) :: 'e persist_error + _) =
      Inl (InvalidRecord Busy)"
    by (simp add: current_material_def material_from_registry_def encode_material_def)
  with assms(1,5,6) ready have "res = Inl (InvalidRecord Busy)" "s' = s"
    "leaf' = invalidate (leaf\<lparr>pl_registry := Some r'\<rparr>)"
    by (simp_all add: persistent_activate_outer_def material_transition_def)
  then show ?thesis by (simp add: invalidate_def leaf_state_def needs_reconcile_def reconcile_def)
qed

definition demo_busy :: "(gf7, gf7) leaf_registry" where
  "demo_busy = demo_leaf\<lparr>lr_next_sequence := 1, lr_live := Some (demo_live\<lparr>lv_vault := Ident 10\<rparr>)\<rparr>"

theorem outer_activation_lost_witness:
  "fst (persistent_activate_outer toy_profile demo_sha256 demo_ops demo_outer_epoch demo_installed_outer
     (demo_kept 2 demo_busy) (demo_store 2 (demo_journal 1 (Some demo_own)))) = Inl (InvalidRecord Busy)"
proof -
  let ?leaf = "demo_kept 2 demo_busy"
  have ready: "ready_journal ?leaf = (Inr (demo_journal 1 (Some demo_own)) :: ksnf_error persist_error + _)"
    by (simp add: ready_journal_def ready_registry_def demo_kept_def demo_busy_def journal_from_registry_def
        leaf_journal_new_def leaf_live_attempt_def demo_live_def demo_journal_def demo_own_def checked_succ_def)
  have state: "leaf_state ?leaf = Some demo_busy" by (simp add: leaf_state_def demo_kept_def)
  have live: "lr_live demo_busy = Some (demo_live\<lparr>lv_vault := Ident 10\<rparr>)"
    "lv_vault (demo_live\<lparr>lv_vault := Ident 10\<rparr>) \<noteq> an_vault (ke_anchor demo_outer_epoch)"
    by (simp_all add: demo_busy_def demo_outer_epoch_def)
  have "outer_install toy_profile demo_busy demo_outer_epoch demo_installed_outer =
      outer_install toy_profile demo_leaf demo_outer_epoch demo_installed_outer"
    by (simp add: outer_install_def demo_busy_def)
  then obtain r' where act: "leaf_activate_outer toy_profile demo_outer_epoch demo_installed_outer demo_busy = (Inr (), r')"
    by (rule_tac demo_outer_install) (auto simp: leaf_activate_outer_def Let_def split: prod.splits)
  obtain res leaf' s' where run: "persistent_activate_outer toy_profile demo_sha256 demo_ops demo_outer_epoch
      demo_installed_outer ?leaf (demo_store 2 (demo_journal 1 (Some demo_own))) = (res, leaf', s')"
    by (rule prod_cases3)
  from outer_activation_lost [OF ready state live act run] run show ?thesis by simp
qed

section \<open>The in-memory store\<close>

definition referenced :: "memory_store \<Rightarrow> material_id \<Rightarrow> bool" where
  "referenced m i \<longleftrightarrow> list_ex (\<lambda>(_, stored). lj_material (sj_journal stored) = i) (mm_journals m)"

definition all_referenced :: "memory_store \<Rightarrow> bool" where
  "all_referenced m \<longleftrightarrow> list_all (\<lambda>(i, _). referenced m i) (mm_materials m)"

lemma collect_referenced:
  "\<forall>x \<in> set (mm_materials m). fst x = i \<or> referenced m (fst x) \<Longrightarrow> all_referenced (collect_material i m)"
  by (auto simp: all_referenced_def list_all_iff collect_material_def bt_remove_def referenced_def)

lemma referenced_count:
  assumes "memory_ok sha256 m" "all_referenced m"
  shows "material_count m \<le> length (mm_journals m)"
proof -
  let ?named = "(\<lambda>x. lj_material (sj_journal (snd x))) ` set (mm_journals m)"
  have "i \<in> ?named" if kept: "(i, bs) \<in> set (mm_materials m)" for i bs
  proof -
    obtain d st where "(d, st) \<in> set (mm_journals m)" "lj_material (sj_journal st) = i"
      using assms(2) kept by (fastforce simp: all_referenced_def list_all_iff referenced_def list_ex_iff)
    then show ?thesis by (intro image_eqI [of _ _ "(d, st)"]) simp_all
  qed
  then have sub: "fst ` set (mm_materials m) \<subseteq> ?named" by (auto simp del: image_iff)
  have "distinct (map fst (mm_materials m))" using assms(1) by (simp add: memory_ok_def strict_sorted_iff)
  then have "material_count m = card (fst ` set (mm_materials m))"
    by (metis distinct_card length_map list.set_map material_count_def)
  also have "\<dots> \<le> card ?named"
    using sub by (intro card_mono) simp_all
  also have "\<dots> \<le> length (mm_journals m)" by (metis card_image_le card_length finite_set le_trans)
  finally show ?thesis .
qed

lemma memory_cas_outcomes:
  assumes "memory_compare_exchange d expected new m = (res, m')"
  obtains "m' = collect_material (lj_material new) m" "\<forall>revision. res \<noteq> Inr (CasApplied revision)"
  | revision t where "res = Inr (CasApplied revision)"
    "t = m\<lparr>mm_journals := bt_insert d \<lparr>sj_revision = revision, sj_journal = new\<rparr> (mm_journals m)\<rparr>"
    "m' = (case memory_journal m d of None \<Rightarrow> t | Some st \<Rightarrow> collect_material (lj_material (sj_journal st)) t)"
proof (cases "\<exists>revision. res = Inr (CasApplied revision)")
  case False
  then have "m' = collect_material (lj_material new) m"
    using assms by (auto simp: memory_compare_exchange_def Let_def split: if_splits option.splits)
  with False show thesis by (intro that(1)) auto
next
  case True
  then obtain revision where "res = Inr (CasApplied revision)" ..
  then show thesis
    using assms by (intro that(2) [OF _ refl])
      (auto simp: memory_compare_exchange_def memory_journal_def Let_def split: if_splits option.splits)
qed

text \<open>A journal write loses at most the material the journal it replaces named.\<close>

lemma referenced_insert:
  assumes "bt_sorted (mm_journals m)" "referenced m i"
    and "\<forall>st. memory_journal m d = Some st \<longrightarrow> lj_material (sj_journal st) \<noteq> i"
  shows "referenced (m\<lparr>mm_journals := bt_insert d v (mm_journals m)\<rparr>) i"
proof -
  obtain k st where k: "(k, st) \<in> set (mm_journals m)" "lj_material (sj_journal st) = i"
    using assms(2) by (auto simp: referenced_def list_ex_iff)
  have "distinct (map fst (mm_journals m))" using assms(1) by (simp add: strict_sorted_iff)
  then have "map_of (mm_journals m) k = Some st" using k(1) by simp
  with assms(3) k(2) have "map_of (bt_insert d v (mm_journals m)) k = Some st"
    by (auto simp: memory_journal_def)
  then show ?thesis using k(2) map_of_SomeD by (fastforce simp: referenced_def list_ex_iff)
qed

lemma referenced_written: "referenced (m\<lparr>mm_journals := bt_insert d v (mm_journals m)\<rparr>) (lj_material (sj_journal v))"
proof -
  have "map_of (bt_insert d v (mm_journals m)) d = Some v" by simp
  from map_of_SomeD [OF this] show ?thesis by (auto simp: referenced_def list_ex_iff)
qed

text \<open>
  C26. After a write the in-memory store keeps nothing that no journal names: a write of material
  followed by a journal write that names it, whether it applies, conflicts or fails, leaves only
  material some current journal names, so that then there are no more records than devices.
\<close>

theorem memory_store_bounded:
  assumes "memory_ok sha256 m" "all_referenced m"
    and "lm_id material = hash_material sha256 (lm_bytes material)" "lj_material new = lm_id material"
    and "memory_put_material material m = (Inr (), m1)"
    and "memory_compare_exchange d expected new m1 = (res, m')"
  shows "all_referenced m' \<and> material_count m' \<le> length (mm_journals m')
    \<and> (\<forall>revision. res = Inr (CasApplied revision) \<longrightarrow>
         memory_journal m' d = Some \<lparr>sj_revision = revision, sj_journal = new\<rparr>
         \<and> memory_material m' (lm_id material) = Some (lm_bytes material))"
proof -
  have ids: "fst ` set (bt_insert k v ms) = insert k (fst ` set ms)" for k v and ms :: "(material_id \<times> bytes) list"
    by simp
  note put = memory_put_ok [OF assms(5,1,3)]
  have J: "mm_journals m1 = mm_journals m" and stored: "memory_material m1 (lm_id material) = Some (lm_bytes material)"
    using put by simp_all
  have "fst ` set (mm_materials m1) \<subseteq> insert (lm_id material) (fst ` set (mm_materials m))"
  proof (cases "map_of (mm_materials m) (lm_id material)")
    case None
    then have "m1 = m\<lparr>mm_materials := bt_insert (lm_id material) (lm_bytes material) (mm_materials m)\<rparr>"
      using assms(5) by (simp add: memory_put_material_def)
    then show ?thesis using ids [of "lm_id material" "lm_bytes material" "mm_materials m"] by simp
  next
    case (Some bs)
    then show ?thesis using assms(5) by (auto simp: memory_put_material_def split: if_splits)
  qed
  then have but: "\<forall>x \<in> set (mm_materials m1). fst x = lj_material new \<or> referenced m1 (fst x)"
    using assms(2,4) J by (fastforce simp: all_referenced_def list_all_iff referenced_def)
  have m1: "memory_ok sha256 m1" using put by simp
  then have sorted: "bt_sorted (mm_journals m1)" by (simp add: memory_ok_def)
  have kept: "memory_ok sha256 (m1\<lparr>mm_journals := bt_insert d v (mm_journals m1)\<rparr>)" for v
    using m1 by (simp add: memory_ok_def)
  show ?thesis
  proof (cases rule: memory_cas_outcomes [OF assms(6)])
    case 1
    then show ?thesis
      using collect_referenced [OF but] referenced_count [OF collect_material_ok [OF m1]] by simp
  next
    case (2 revision t)
    let ?v = "\<lparr>sj_revision = revision, sj_journal = new\<rparr>"
    have rt: "referenced t (lj_material new)" using referenced_written [where m = m1 and d = d and v = ?v] 2(2) by simp
    have t: "memory_ok sha256 t" "mm_materials t = mm_materials m1" using kept 2(2) by simp_all
    have some: "referenced t i" if "i = lj_material new \<or> referenced m1 i"
        "\<forall>st. memory_journal m1 d = Some st \<longrightarrow> lj_material (sj_journal st) \<noteq> i" for i
      using that rt referenced_insert [OF sorted _ that(2), where v = ?v] 2(2) by blast
    have all: "all_referenced m'" and ok: "memory_ok sha256 m'"
    proof -
      have "all_referenced m' \<and> memory_ok sha256 m'"
      proof (cases "memory_journal m1 d")
        case None
        then show ?thesis using 2(3) but some t by (auto simp: all_referenced_def list_all_iff)
      next
        case (Some st)
        have "\<forall>x \<in> set (mm_materials t). fst x = lj_material (sj_journal st) \<or> referenced t (fst x)"
          using but some [unfolded Some] t(2) by (metis option.inject)
        from collect_referenced [OF this] show ?thesis using 2(3) Some collect_material_ok [OF t(1)] by simp
      qed
      then show "all_referenced m'" "memory_ok sha256 m'" by simp_all
    qed
    have at: "memory_journal m' d = Some ?v"
      using 2(2,3) by (auto simp: memory_journal_def split: option.splits)
    have "memory_material m' (lm_id material) = Some (lm_bytes material)"
    proof (cases "memory_journal m1 d")
      case None
      then show ?thesis using 2(2,3) stored by (simp add: memory_material_def)
    next
      case (Some st)
      have "map_of (mm_journals t) d = Some ?v" using 2(2) by simp
      from collect_material_keeps [OF this] show ?thesis
        using 2(3) Some stored assms(4) t(2) by (simp add: memory_material_def)
    qed
    with all at 2(1) referenced_count [OF ok all] show ?thesis by simp
  qed
qed

theorem memory_store_bounded_witness:
  "material_count (demo_store 1 (demo_journal 0 None)) \<le> 1"
proof -
  have start: "memory_ok demo_sha256 memory_default" "all_referenced memory_default"
    by (simp_all add: memory_ok_def memory_default_def all_referenced_def)
  have m: "lm_id demo_material = hash_material demo_sha256 (lm_bytes demo_material)"
    "lj_material (demo_journal 0 None) = lm_id demo_material" "lm_bytes demo_material = demo_record"
    by (simp_all add: demo_material_def material_from_valid_bytes_def demo_journal_def)
  have put: "memory_put_material demo_material memory_default =
      (Inr (), \<lparr>mm_materials = [(lm_id demo_material, demo_record)], mm_journals = []\<rparr>)"
    by (simp add: memory_put_material_def memory_default_def m)
  have "lj_device (demo_journal 0 None) = Ident 20" by (simp add: demo_journal_def)
  then have cas: "memory_compare_exchange (Ident 20) None (demo_journal 0 None)
      \<lparr>mm_materials = [(lm_id demo_material, demo_record)], mm_journals = []\<rparr> =
      (Inr (CasApplied 1), demo_store 1 (demo_journal 0 None))"
    by (simp add: memory_compare_exchange_def demo_store_def)
  from memory_store_bounded [OF start m(1,2) put cas] show ?thesis by (simp add: demo_store_def)
qed

section \<open>Records\<close>

text \<open>
  C36. Journal records are canonical and of one size: bytes decode exactly to the journal they
  encode - a live attempt is the device's own and the one before the counter - and every record
  has 89 bytes.
\<close>

theorem journal_record_canonical:
  assumes "magics_ok P" "length bs < 2 ^ 64"
  shows "(decode_journal P bs = Inr j \<longleftrightarrow> journal_ok j \<and> encode_journal P j = bs)
    \<and> length (encode_journal P j) = 89"
  using decode_journal_iff [OF assms] length_encode_journal [OF assms(1)] by blast

theorem journal_record_canonical_witness:
  "decode_journal toy_profile (encode_journal toy_profile (demo_journal 1 (Some demo_own))) =
     Inr (demo_journal 1 (Some demo_own))"
proof -
  have "length (encode_journal toy_profile (demo_journal 1 (Some demo_own))) < 2 ^ 64"
    by (simp add: length_encode_journal)
  moreover have "journal_ok (demo_journal 1 (Some demo_own))"
    by (simp add: journal_ok_def demo_journal_def demo_own_def checked_succ_def)
  ultimately show ?thesis
    using journal_record_canonical [OF toy_magics_ok, of "encode_journal toy_profile (demo_journal 1 (Some demo_own))"
        "demo_journal 1 (Some demo_own)"] by blast
qed

text \<open>
  C19. Material records are canonical: bytes decode exactly to the registry they encode, and only
  when its maps, keys and shares pass every check of the validator; nothing but the record's own
  bytes decodes to it.
\<close>

theorem material_record_canonical:
  assumes "group_ok P" "magics_ok P" "length bs < 2 ^ 64"
  shows "decode_material P bs = Inr r \<longleftrightarrow> registry_typed r \<and> lr_vaults r \<noteq> []
    \<and> lr_next_sequence r = 0 \<and> validate_material P r = Inr () \<and> encode_material P r = Inr bs"
  by (rule decode_material_iff [OF assms])

theorem material_record_canonical_witness:
  "registry_typed demo_leaf \<and> validate_material toy_profile demo_leaf = Inr ()"
proof -
  have "length demo_record < 2 ^ 64" using demo_record(2) by simp
  from material_record_canonical [OF toy_group_ok toy_magics_ok this] demo_decode show ?thesis by blast
qed

text \<open>
  C21. The type of a registry's material. A registry built from attached genesis parts and led
  through any well-typed operations - attempts of either mode, new vaults, installed inner and
  outer shares - keeps nonzero nodes and keys, at least one vault and sorted vaults, and passes
  every check the decoder makes, whatever the operations returned. Encoding it is refused with
  Busy exactly while an attempt is live. Without its attempt it encodes, unless a collection is
  longer than a u32 count, which is the error LengthOverflow, and a record shorter than the
  address space decodes to the registry without its attempt and with the attempt counter at 0.
\<close>

theorem registry_material_type:
  assumes "group_ok P" "magics_ok P"
    and "\<forall>x \<in> set states. attached P (fst x)" "leaf_from_vaults P states = Inr r0"
    and "(typed_step P draw)\<^sup>*\<^sup>* r0 r"
  shows "registry_typed r \<and> lr_vaults r \<noteq> [] \<and> validate_material P r = Inr ()
    \<and> (encode_material P r = Inl Busy \<longleftrightarrow> lr_live r \<noteq> None)
    \<and> (\<not> counts_fit r \<longrightarrow> encode_material P (r\<lparr>lr_live := None\<rparr>) = Inl LengthOverflow)
    \<and> (counts_fit r \<longrightarrow> (\<exists>bs. encode_material P (r\<lparr>lr_live := None\<rparr>) = Inr bs
         \<and> (length bs < 2 ^ 64 \<longrightarrow>
              decode_material P bs = Inr (r\<lparr>lr_live := None, lr_next_sequence := 0\<rparr>))))"
proof -
  have ok: "material_ok P r" by (rule typed_run_ok [OF assms(5,1) from_vaults_material [OF assms(1,3,4)]])
  then have "registry_typed r \<and> lr_vaults r \<noteq> [] \<and> validate_material P r = Inr ()"
    by (simp add: material_ok_def validate_material_iff)
  moreover have "encode_material P r = Inl Busy \<longleftrightarrow> lr_live r \<noteq> None"
    by (rule encode_material_busy_iff)
  moreover have "encode_material P (r\<lparr>lr_live := None\<rparr>) = Inl LengthOverflow" if "\<not> counts_fit r"
    using that by (intro encode_material_overflow) simp_all
  moreover have "\<exists>bs. encode_material P (r\<lparr>lr_live := None\<rparr>) = Inr bs
         \<and> (length bs < 2 ^ 64 \<longrightarrow>
              decode_material P bs = Inr (r\<lparr>lr_live := None, lr_next_sequence := 0\<rparr>))"
    if fit: "counts_fit r"
  proof -
    obtain bs where bs: "encode_material P (r\<lparr>lr_live := None\<rparr>) = Inr bs"
      using encode_material_total [of "r\<lparr>lr_live := None\<rparr>" P] fit by auto
    moreover have "decode_material P bs = Inr (r\<lparr>lr_live := None, lr_next_sequence := 0\<rparr>)"
      if "length bs < 2 ^ 64"
      using bs that by (intro decode_encoded [OF assms(1,2) ok]) (simp_all add: material_fits_def idle_def)
    ultimately show ?thesis by blast
  qed
  ultimately show ?thesis by blast
qed

theorem registry_material_type_witness:
  "validate_material toy_profile demo_fixed = Inr () \<and> encode_material toy_profile demo_fixed = Inl Busy
   \<and> (\<exists>bs. encode_material toy_profile (demo_fixed\<lparr>lr_live := None\<rparr>) = Inr bs
        \<and> decode_material toy_profile bs = Inr (demo_fixed\<lparr>lr_live := None, lr_next_sequence := 0\<rparr>))"
proof -
  have "genesis_typed demo_genesis"
    by (simp add: genesis_typed_def demo_genesis_def demo_first_def demo_second_def)
  then have "attached toy_profile demo_device"
    using demo_genesis_built demo_attach unfolding attached_def by blast
  then have parts: "\<forall>x \<in> set [(demo_device, demo_epoch (Ident 1))]. attached toy_profile (fst x)" by simp
  have new: "leaf_from_vaults toy_profile [(demo_device, demo_epoch (Ident 1))] = Inr demo_leaf"
    using demo_leaf_new by simp
  have run: "(typed_step toy_profile demo_draw)\<^sup>*\<^sup>* demo_leaf demo_fixed"
    using typed_reserve [OF demo_reserve [unfolded leaf_reserve_def]] typed_commit [OF demo_commit [OF demo_bytes(2), of plain_binding]]
      typed_reveal [OF demo_reveal [OF demo_bytes(2), of plain_binding]]
      typed_fix [OF demo_fix [OF demo_bytes(2), of plain_binding]]
    by (meson converse_rtranclp_into_rtranclp rtranclp.rtrancl_refl)
  have live: "lr_live demo_fixed \<noteq> None" by (simp add: demo_fixed_def demo_held_def)
  have fits: "counts_fit demo_fixed"
    by (simp add: counts_fit_def demo_fixed_def demo_held_def demo_leaf_def demo_vault_def)
  have short: "length bs < 2 ^ 64" if "encode_material toy_profile (demo_fixed\<lparr>lr_live := None\<rparr>) = Inr bs" for bs
    using that encode_material_cong [of demo_leaf demo_fixed toy_profile] demo_record
    by (simp add: same_material_fields demo_fixed_def demo_held_def demo_idle) (simp add: idle_def)
  from registry_material_type [OF toy_group_ok toy_magics_ok parts new run] live fits short
  show ?thesis by blast
qed

end
