(* ===== verification/Ksnf_Taproot.thy ===== *)
theory Ksnf_Taproot
  imports Ksnf_Leaf
begin

text \<open>
  Taproot key-path mode: the key derivation (\<open>src/taproot/key.rs\<close>), the bound reservation and
  package with their envelope (\<open>src/taproot/package.rs\<close>) and the leaf's use of them
  (\<open>src/taproot/state.rs\<close>, with the response function of the theory \<open>Ksnf_Taproot_Sign\<close>). SHA-256
  and the reduction of 32 bytes to a scalar belong to other crates and are a record of
  parameters. Coordinates, script roots and signature hashes are byte arrays of 32.
\<close>

record 's tap_hashes =
  th_sha256 :: "bytes \<Rightarrow> bytes"
  th_reduce :: "bytes \<Rightarrow> 's"

section \<open>Keys\<close>

definition tap_tweak_tag :: bytes where
  "tap_tweak_tag = ascii_bytes ''TapTweak''"

definition tap_challenge_tag :: bytes where
  "tap_challenge_tag = ascii_bytes ''BIP0340/challenge''"

definition tagged_hash :: "'s tap_hashes \<Rightarrow> bytes \<Rightarrow> bytes list \<Rightarrow> bytes" where
  "tagged_hash H tag parts = th_sha256 H (th_sha256 H tag @ th_sha256 H tag @ concat parts)"

definition x_only_bytes :: "bytes \<Rightarrow> bytes" where
  "x_only_bytes bs = drop 1 bs"

definition x_only :: "('s, 'g) profile \<Rightarrow> 'g \<Rightarrow> bytes" where
  "x_only P point = x_only_bytes (point_to_bytes P point)"

definition lift_even :: "('s, 'g::zero) profile \<Rightarrow> bytes \<Rightarrow> 'g result" where
  "lift_even P coordinate = point_from_bytes P (2 # coordinate)"

text \<open>An x-only key is a coordinate with an even lift; a signature hash is any 32 bytes.\<close>

type_synonym x_only_key = bytes

definition x_only_key_from_bytes :: "('s, 'g::zero) profile \<Rightarrow> bytes \<Rightarrow> x_only_key result" where
  "x_only_key_from_bytes P bs = and_then (lift_even P bs) (\<lambda>_. Inr bs)"

definition x_only_key_point :: "('s, 'g::zero) profile \<Rightarrow> x_only_key \<Rightarrow> 'g result" where
  "x_only_key_point P key = lift_even P key"

datatype tap_sign = Positive | Negative

fun sign_value :: "tap_sign \<Rightarrow> int" where
  "sign_value Positive = 1"
| "sign_value Negative = -1"

fun sign_scalar :: "tap_sign \<Rightarrow> 's::field" where
  "sign_scalar Positive = 1"
| "sign_scalar Negative = - 1"

definition even_normalize :: "('s, 'g::ab_group_add) profile \<Rightarrow> 'g \<Rightarrow> (tap_sign \<times> 'g) result" where
  "even_normalize P point =
     (if hd (point_to_bytes P point) = 3
      then and_then (map_err (\<lambda>_. IdentityPoint) (point_new (0 - point))) (\<lambda>negated. Inr (Negative, negated))
      else Inr (Positive, point))"

definition tap_tweak :: "('s, 'g) profile \<Rightarrow> 's tap_hashes \<Rightarrow> 'g \<Rightarrow> bytes option \<Rightarrow> 's result" where
  "tap_tweak P H internal merkle_root =
     (let hash = (case merkle_root of
          None \<Rightarrow> tagged_hash H tap_tweak_tag [x_only P internal]
        | Some root \<Rightarrow> tagged_hash H tap_tweak_tag [x_only P internal, root]) in
      ok_or InvalidTweak (gc_deser_scalar P hash))"

record 's tap_key =
  tk_vault :: bytes
  tk_merkle_root :: "bytes option"
  tk_internal_sign :: tap_sign
  tk_output_sign :: tap_sign
  tk_tweak :: 's
  tk_output :: x_only_key

definition tap_key_new ::
  "('s, 'g::ab_group_add) profile \<Rightarrow> 's tap_hashes \<Rightarrow> 'g \<Rightarrow> bytes option \<Rightarrow> 's tap_key result" where
  "tap_key_new P H vault merkle_root =
     and_then (even_normalize P vault) (\<lambda>(internal_sign, internal).
     and_then (tap_tweak P H internal merkle_root) (\<lambda>tweak.
     and_then (map_err (\<lambda>_. IdentityPoint) (point_new (internal + element_from_scalar P tweak))) (\<lambda>tweaked.
     and_then (even_normalize P tweaked) (\<lambda>(output_sign, output).
     Inr \<lparr>tk_vault = point_to_bytes P vault, tk_merkle_root = merkle_root,
          tk_internal_sign = internal_sign, tk_output_sign = output_sign, tk_tweak = tweak,
          tk_output = x_only P output\<rparr>))))"

definition internal_key :: "'s tap_key \<Rightarrow> x_only_key" where
  "internal_key key = x_only_bytes (tk_vault key)"

definition bip340_challenge ::
  "('s, 'g) profile \<Rightarrow> 's tap_hashes \<Rightarrow> 'g \<Rightarrow> 'g \<Rightarrow> bytes \<Rightarrow> 's" where
  "bip340_challenge P H nonce output sighash =
     th_reduce H (tagged_hash H tap_challenge_tag [x_only P nonce, x_only P output, sighash])"

section \<open>Envelopes\<close>

definition tap_version :: u8 where "tap_version = 1"
definition reservation_kind :: u8 where "reservation_kind = 1"
definition package_kind :: u8 where "package_kind = 2"

definition tap_protocol_id :: bytes where
  "tap_protocol_id = ascii_bytes ''coupery-ksnf/taproot/v1''"

definition validate_profile ::
  "('s, 'g) profile \<Rightarrow> 'g \<Rightarrow> bytes \<Rightarrow> 's tap_key \<Rightarrow> unit result" where
  "validate_profile P vault message key =
     (if point_to_bytes P vault \<noteq> tk_vault key then Inl InvalidTranscript
      else if length message \<noteq> 32 then Inl InvalidSighash
      else Inr ())"

definition encode_envelope :: "u8 \<Rightarrow> bytes \<Rightarrow> 's tap_key \<Rightarrow> bytes result" where
  "encode_envelope kind payload key =
     and_then (put_bytes tap_protocol_id) (\<lambda>protocol.
     and_then (put_bytes payload) (\<lambda>inner.
     Inr (put_u8 tap_version @ protocol @ put_u8 kind @ inner
       @ (case tk_merkle_root key of None \<Rightarrow> put_u8 0 | Some root \<Rightarrow> put_u8 1 @ root))))"

definition merkle_root_getter :: "bytes option getter" where
  "merkle_root_getter =
     get_then get_u8 (\<lambda>flag.
       if flag = 0 then get_return None
       else if flag = 1 then get_then (get_fixed 32) (\<lambda>root. get_return (Some root))
       else get_result (Inl InvalidTranscript))"

definition envelope_getter :: "u8 \<Rightarrow> (bytes \<times> bytes option) getter" where
  "envelope_getter kind =
     get_then get_u8 (\<lambda>version. get_then (get_ensure UnsupportedVersion (version = tap_version)) (\<lambda>_.
     get_then get_bytes (\<lambda>protocol. get_then (get_ensure ProtocolMismatch (protocol = tap_protocol_id)) (\<lambda>_.
     get_then get_u8 (\<lambda>found. get_then (get_ensure ProtocolMismatch (found = kind)) (\<lambda>_.
     get_then get_bytes (\<lambda>payload. get_then merkle_root_getter (\<lambda>root.
     get_return (payload, root)))))))))"

definition decode_envelope :: "u8 \<Rightarrow> bytes \<Rightarrow> (bytes \<times> bytes option) result" where
  "decode_envelope kind bs = decode_all (envelope_getter kind) bs"

section \<open>Reservations and packages\<close>

record ('s, 'g) tap_reservation =
  tr_member :: "('s, 'g) member_reservation"
  tr_key :: "'s tap_key"

definition tap_reservation_new ::
  "('s, 'g) profile \<Rightarrow> ('s, 'g) member_reservation \<Rightarrow> 's tap_key \<Rightarrow> ('s, 'g) tap_reservation result" where
  "tap_reservation_new P member key =
     and_then (validate_profile P (rp_key (rv_prepackage member)) (rp_message (rv_prepackage member)) key)
       (\<lambda>_. Inr \<lparr>tr_member = member, tr_key = key\<rparr>)"

definition tap_reservation_to_bytes ::
  "('s, 'g::zero) profile \<Rightarrow> ('s, 'g) tap_reservation \<Rightarrow> session_id \<Rightarrow> u64 \<Rightarrow> bytes result" where
  "tap_reservation_to_bytes P r session expiry =
     and_then (reservation_to_bytes P (tr_member r) session expiry) (\<lambda>member.
     encode_envelope reservation_kind member (tr_key r))"

definition tap_reservation_from_bytes ::
  "('s::field, 'g::ab_group_add) profile \<Rightarrow> 's tap_hashes \<Rightarrow> bytes \<Rightarrow> ('s, 'g) outer_support
     \<Rightarrow> (('s, 'g) tap_reservation \<times> session_id \<times> u64) result" where
  "tap_reservation_from_bytes P H bs outer =
     and_then (decode_envelope reservation_kind bs) (\<lambda>(payload, merkle_root).
     and_then (reservation_from_bytes P payload outer) (\<lambda>(member, session, expiry).
     and_then (tap_key_new P H (rp_key (rv_prepackage member)) merkle_root) (\<lambda>key.
     and_then (tap_reservation_new P member key) (\<lambda>reservation.
     and_then (tap_reservation_to_bytes P reservation session expiry) (\<lambda>own.
     if own \<noteq> bs then Inl InvalidTranscript else Inr (reservation, session, expiry))))))"

record ('s, 'g) tap_package =
  tp_root :: "('s, 'g) root_package"
  tp_key :: "'s tap_key"

definition tap_package_new ::
  "('s, 'g) profile \<Rightarrow> ('s, 'g) root_package \<Rightarrow> 's tap_key \<Rightarrow> ('s, 'g) tap_package result" where
  "tap_package_new P root key =
     and_then (validate_profile P (rt_key root) (rt_message root) key)
       (\<lambda>_. Inr \<lparr>tp_root = root, tp_key = key\<rparr>)"

definition tap_package_to_bytes ::
  "('s, 'g) profile \<Rightarrow> ('s, 'g) tap_package \<Rightarrow> bytes result" where
  "tap_package_to_bytes P p =
     and_then (package_to_bytes P (tp_root p)) (\<lambda>root. encode_envelope package_kind root (tp_key p))"

definition tap_package_from_bytes ::
  "('s::zero, 'g::ab_group_add) profile \<Rightarrow> 's tap_hashes \<Rightarrow> bytes \<Rightarrow> ('s, 'g) tap_package result" where
  "tap_package_from_bytes P H bs =
     and_then (decode_envelope package_kind bs) (\<lambda>(payload, merkle_root).
     and_then (package_from_bytes P payload) (\<lambda>root.
     and_then (tap_key_new P H (rt_key root) merkle_root) (\<lambda>key.
     and_then (tap_package_new P root key) (\<lambda>package.
     and_then (tap_package_to_bytes P package) (\<lambda>own.
     if own \<noteq> bs then Inl InvalidTranscript else Inr package)))))"

definition tap_sighash :: "('s, 'g) tap_package \<Rightarrow> bytes" where
  "tap_sighash p = rt_message (tp_root p)"

definition reservation_key ::
  "('s, 'g::ab_group_add) profile \<Rightarrow> 's tap_hashes \<Rightarrow> bytes \<Rightarrow> ('s, 'g) member_reservation
     \<Rightarrow> session_id \<Rightarrow> u64 \<Rightarrow> 's tap_key result" where
  "reservation_key P H bs member session expiry =
     and_then (decode_envelope reservation_kind bs) (\<lambda>(payload, merkle_root).
     and_then (reservation_to_bytes P member session expiry) (\<lambda>encoded.
     if payload \<noteq> encoded then Inl InvalidTranscript
     else and_then (tap_key_new P H (rp_key (rv_prepackage member)) merkle_root) (\<lambda>key.
     and_then (validate_profile P (rp_key (rv_prepackage member)) (rp_message (rv_prepackage member)) key)
       (\<lambda>_. Inr key))))"

section \<open>Reserving\<close>

definition taproot_binding :: "x_only_key \<Rightarrow> response_binding" where
  "taproot_binding output_key = \<lparr>rb_mode = TaprootMode, rb_policy_tag = Some output_key\<rparr>"

definition parse_tap_reservation ::
  "('s::field, 'g::ab_group_add) profile \<Rightarrow> 's tap_hashes \<Rightarrow> bytes \<Rightarrow> x_only_key \<Rightarrow> ('s, 'g) outer_support
     \<Rightarrow> (('s, 'g) member_reservation \<times> session_id \<times> u64) result" where
  "parse_tap_reservation P H bs expected outer =
     and_then (tap_reservation_from_bytes P H bs outer) (\<lambda>(reservation, session, expiry).
     if tk_output (tr_key reservation) \<noteq> expected then Inl OutputKeyMismatch
     else Inr (tr_member reservation, session, expiry))"

definition leaf_reserve_taproot ::
  "('s::field, 'g::ab_group_add) profile \<Rightarrow> 's tap_hashes \<Rightarrow> session_id \<Rightarrow> u64 \<Rightarrow> bytes \<Rightarrow> x_only_key
     \<Rightarrow> ('s, 'g) outer_support \<Rightarrow> ('s, 'g) leaf_registry \<Rightarrow> leaf_attempt result \<times> ('s, 'g) leaf_registry" where
  "leaf_reserve_taproot P H session now bs expected outer =
     leaf_reserve_with P session now bs (taproot_binding expected) outer
       (parse_tap_reservation P H bs expected outer)"

end
