(* ===== verification/Ksnf_Taproot_Sign.thy ===== *)
theory Ksnf_Taproot_Sign
  imports Ksnf_Taproot
begin

text \<open>
  Taproot responses (\<open>src/taproot/sign.rs\<close>): the signing context of a package, a device's
  response, both aggregations with their checks, and the wire forms; and the leaf's response
  (\<open>src/taproot/state.rs\<close>). The raw entry point of \<open>src/taproot/hazmat.rs\<close> is the device's response itself.
\<close>

section \<open>Contexts\<close>

record ('s, 'g) tap_context =
  ts_package :: "('s, 'g) tap_package"
  ts_bindings :: "(slot \<times> 's) list"
  ts_nonce :: 'g
  ts_nonce_sign :: tap_sign
  ts_challenge :: 's

definition tap_context_new ::
  "('s, 'g::ab_group_add) profile \<Rightarrow> 's tap_hashes \<Rightarrow> ('s, 'g) tap_package \<Rightarrow> ('s, 'g) tap_context result" where
  "tap_context_new P H package =
     and_then (tap_package_to_bytes P package) (\<lambda>package_bytes.
     and_then (collect_results (\<lambda>(index, e).
         and_then (count_u16 index) (\<lambda>i.
         and_then (put_bytes package_bytes) (\<lambda>encoded.
         and_then (binding_factor P (put_u8 tap_version @ encoded @ put_u16 i)) (\<lambda>binding.
         Inr (re_slot e, re_nonce e, binding)))))
       (enumerate 0 (rt_entries (tp_root package)))) (\<lambda>bs.
     and_then (aggregate_nonce P (map (\<lambda>(_, n, b). (n, b)) bs)) (\<lambda>raw_nonce.
     and_then (even_normalize P raw_nonce) (\<lambda>(nonce_sign, nonce).
     and_then (x_only_key_point P (tk_output (tp_key package))) (\<lambda>output.
     Inr \<lparr>ts_package = package, ts_bindings = map (\<lambda>(sl, _, b). (sl, b)) bs, ts_nonce = nonce,
          ts_nonce_sign = nonce_sign,
          ts_challenge = bip340_challenge P H nonce output (tap_sighash package)\<rparr>)))))"

definition tap_binding :: "('s, 'g) tap_context \<Rightarrow> slot \<Rightarrow> 's result" where
  "tap_binding s sl = map_sum id snd
     (ok_or ParticipantNotFound (search_key fst sl (ts_bindings s)))"

section \<open>Equations\<close>

definition tap_validate_inputs ::
  "('s, 'g) tap_context \<Rightarrow> ('s, 'g) member_transcript \<Rightarrow> 'g device_nonce_set \<Rightarrow> unit result" where
  "tap_validate_inputs signing transcript nonces =
     (if mt_root transcript \<noteq> tp_root (ts_package signing) then Inl InvalidTranscript
      else and_then (set_validate_support nonces (bd_inner (mt_body transcript))) (\<lambda>_.
           and_then (package_entry (mt_root transcript) (bd_slot (mt_body transcript))) (\<lambda>e.
           if re_nonce e \<noteq> dns_aggregate nonces then Inl NonceMismatch else Inr ())))"

definition tap_verify_device ::
  "('s::field, 'g::ab_group_add) profile \<Rightarrow> 's \<Rightarrow> 'g nonce_pair \<Rightarrow> 's \<Rightarrow> 's \<Rightarrow> 'g \<Rightarrow> ('s, 'g) tap_context
     \<Rightarrow> unit result" where
  "tap_verify_device P response nonce binding coefficient share signing =
     (let key = tp_key (ts_package signing);
          left = element_from_scalar P response;
          signed_share = gc_smul P (sign_scalar (tk_internal_sign key)) share
            + gc_smul P (tk_tweak key) (gc_generator P);
          right = gc_smul P (sign_scalar (ts_nonce_sign signing)) (nonce_bind P nonce binding)
            + gc_smul P (ts_challenge signing * coefficient * sign_scalar (tk_output_sign key)) signed_share
      in if left = right then Inr () else Inl InvalidPartial)"

definition tap_verify_member ::
  "('s::field, 'g::ab_group_add) profile \<Rightarrow> 's \<Rightarrow> 'g nonce_pair \<Rightarrow> 's \<Rightarrow> 's \<Rightarrow> 'g \<Rightarrow> ('s, 'g) tap_context
     \<Rightarrow> unit result" where
  "tap_verify_member P response nonce binding coefficient member signing =
     (let key = tp_key (ts_package signing);
          left = element_from_scalar P response;
          signed_member = gc_smul P (sign_scalar (tk_internal_sign key)) member
            + gc_smul P (tk_tweak key) (gc_generator P);
          right = gc_smul P (sign_scalar (ts_nonce_sign signing)) (nonce_bind P nonce binding)
            + gc_smul P (ts_challenge signing * coefficient * sign_scalar (tk_output_sign key)) signed_member
      in if left = right then Inr () else Inl InvalidPartial)"

section \<open>Responses\<close>

definition tap_respond_device ::
  "('s::field, 'g::ab_group_add) profile \<Rightarrow> ('s, 'g) tap_context \<Rightarrow> 's secret_nonce
     \<Rightarrow> ('s, 'g) member_transcript \<Rightarrow> 'g device_nonce_set \<Rightarrow> device_id \<Rightarrow> 's \<Rightarrow> 's device_response result" where
  "tap_respond_device P signing nonce transcript nonces device share =
     and_then (tap_validate_inputs signing transcript nonces) (\<lambda>_.
     and_then (inner_participant (bd_inner (mt_body transcript)) device) (\<lambda>participant.
     if dp_share participant \<noteq> element_from_scalar P share then Inl ShareMismatch
     else and_then (nonce_commitments P nonce) (\<lambda>computed.
     and_then (set_nonce nonces device) (\<lambda>published.
     if computed \<noteq> published then Inl NonceMismatch
     else and_then (inner_coefficient_of (bd_inner (mt_body transcript)) device) (\<lambda>inner.
     let coefficient = ic_scalar inner * ocf_scalar (bd_outer (mt_body transcript)) in
     and_then (tap_binding signing (bd_slot (mt_body transcript))) (\<lambda>binding.
     let key = tp_key (ts_package signing);
         folded = ts_challenge signing * sign_scalar (tk_internal_sign key)
           * sign_scalar (tk_output_sign key) * sign_scalar (ts_nonce_sign signing);
         partial = nonce_respond nonce binding folded coefficient share;
         response = sign_scalar (ts_nonce_sign signing) * partial
           + ts_challenge signing * coefficient * sign_scalar (tk_output_sign key) * tk_tweak key
     in and_then (set_attempt nonces device) (\<lambda>attempt.
        Inr \<lparr>dr_attempt = attempt, dr_scalar = response\<rparr>)))))))"

fun tap_member_loop ::
  "('s::field, 'g::ab_group_add) profile \<Rightarrow> ('s, 'g) tap_context \<Rightarrow> 'g device_nonce_set
     \<Rightarrow> ('s, 'g) inner_support \<Rightarrow> 's \<Rightarrow> 's
     \<Rightarrow> ('s device_response \<times> ('s, 'g) device_participant) list \<Rightarrow> 's \<Rightarrow> 's result" where
  "tap_member_loop P signing nonces support binding outer [] response = Inr response"
| "tap_member_loop P signing nonces support binding outer ((partial, participant) # rest) response =
     (if dr_device partial \<noteq> dp_device participant then Inl SupportMismatch
      else and_then (set_attempt nonces (dr_device partial)) (\<lambda>attempt.
      if dr_attempt partial \<noteq> attempt then Inl AttemptMismatch
      else and_then (inner_coefficient_of support (dr_device partial)) (\<lambda>inner.
      and_then (set_nonce nonces (dr_device partial)) (\<lambda>nonce.
      and_then (tap_verify_device P (dr_scalar partial) nonce binding (ic_scalar inner * outer)
          (dp_share participant) signing) (\<lambda>_.
      tap_member_loop P signing nonces support binding outer rest (response + dr_scalar partial))))))"

definition tap_aggregate_member ::
  "('s::field, 'g::ab_group_add) profile \<Rightarrow> ('s, 'g) tap_context \<Rightarrow> ('s, 'g) member_transcript
     \<Rightarrow> 'g device_nonce_set \<Rightarrow> 's device_response list \<Rightarrow> 's member_response result" where
  "tap_aggregate_member P signing transcript nonces responses =
     and_then (tap_validate_inputs signing transcript nonces) (\<lambda>_.
     let support = bd_inner (mt_body transcript) in
     if length responses \<noteq> length (is_participants support) then Inl SupportMismatch
     else let sorted = sort_key dr_device responses in
     if any_adjacent (\<lambda>a b. dr_device a = dr_device b) sorted then Inl DuplicateParticipant
     else and_then (tap_binding signing (bd_slot (mt_body transcript))) (\<lambda>binding.
     let outer = ocf_scalar (bd_outer (mt_body transcript)) in
     and_then (tap_member_loop P signing nonces support binding outer
         (zip sorted (is_participants support)) 0) (\<lambda>response.
     and_then (tap_verify_member P response (dns_aggregate nonces) binding outer
         (bd_member (mt_body transcript)) signing) (\<lambda>_.
     Inr \<lparr>mr_slot = bd_slot (mt_body transcript), mr_scalar = response\<rparr>))))"

section \<open>Signatures\<close>

record 's tap_signature =
  tg_nonce_x :: bytes
  tg_response :: 's

definition tap_signature_from_bytes ::
  "('s, 'g::zero) profile \<Rightarrow> bytes \<Rightarrow> 's tap_signature result" where
  "tap_signature_from_bytes P bs =
     (if length bs \<noteq> 64 then Inl LengthMismatch
      else let nonce_x = take 32 bs in
        and_then (lift_even P nonce_x) (\<lambda>_.
        and_then (ok_or InvalidScalar (gc_deser_scalar P (drop 32 bs))) (\<lambda>response.
        Inr \<lparr>tg_nonce_x = nonce_x, tg_response = response\<rparr>)))"

definition tap_signature_to_bytes :: "('s, 'g) profile \<Rightarrow> 's tap_signature \<Rightarrow> bytes" where
  "tap_signature_to_bytes P s = tg_nonce_x s @ gc_ser_scalar P (tg_response s)"

definition tap_signature_verify ::
  "('s, 'g::ab_group_add) profile \<Rightarrow> 's tap_hashes \<Rightarrow> 's tap_signature \<Rightarrow> x_only_key \<Rightarrow> bytes \<Rightarrow> unit result" where
  "tap_signature_verify P H s key sighash =
     and_then (lift_even P (tg_nonce_x s)) (\<lambda>nonce.
     and_then (x_only_key_point P key) (\<lambda>output.
     let challenge = bip340_challenge P H nonce output sighash in
     if element_from_scalar P (tg_response s) = nonce + gc_smul P challenge output
     then Inr () else Inl InvalidSignature))"

fun tap_signature_loop ::
  "('s::field, 'g::ab_group_add) profile \<Rightarrow> ('s, 'g) tap_context \<Rightarrow> ('s, 'g) outer_support
     \<Rightarrow> (('s member_response \<times> ('s, 'g) person_participant) \<times> ('s, 'g) root_entry) list
     \<Rightarrow> 's \<Rightarrow> 's result" where
  "tap_signature_loop P signing support [] response = Inr response"
| "tap_signature_loop P signing support (((partial, participant), entry) # rest) response =
     (if mr_slot partial \<noteq> pp_slot participant \<or> re_slot entry \<noteq> pp_slot participant
      then Inl SupportMismatch
      else and_then (tap_binding signing (mr_slot partial)) (\<lambda>binding.
      and_then (outer_coefficient_of support (pp_person participant)) (\<lambda>coefficient.
      and_then (tap_verify_member P (mr_scalar partial) (re_nonce entry) binding
          (ocf_scalar coefficient) (pp_member participant) signing) (\<lambda>_.
      tap_signature_loop P signing support rest (response + mr_scalar partial)))))"

definition tap_aggregate_signature ::
  "('s::field, 'g::ab_group_add) profile \<Rightarrow> 's tap_hashes \<Rightarrow> ('s, 'g) tap_context \<Rightarrow> ('s, 'g) outer_support
     \<Rightarrow> 's member_response list \<Rightarrow> 's tap_signature result" where
  "tap_aggregate_signature P H signing support responses =
     and_then (package_validate_support (tp_root (ts_package signing)) support) (\<lambda>_.
     if length responses \<noteq> length (os_participants support) then Inl SupportMismatch
     else let sorted = sort_key mr_slot responses in
     if any_adjacent (\<lambda>a b. mr_slot a = mr_slot b) sorted then Inl DuplicateSlot
     else and_then (tap_signature_loop P signing support
         (zip (zip sorted (os_participants support)) (rt_entries (tp_root (ts_package signing)))) 0) (\<lambda>response.
     let signature = \<lparr>tg_nonce_x = x_only P (ts_nonce signing), tg_response = response\<rparr> in
     and_then (tap_signature_verify P H signature (tk_output (tp_key (ts_package signing)))
         (tap_sighash (ts_package signing))) (\<lambda>_.
     Inr signature)))"

section \<open>Wire forms of responses\<close>

definition tap_expect_response :: "u8 \<Rightarrow> unit getter" where
  "tap_expect_response kind =
     get_then get_u8 (\<lambda>version. get_then (get_ensure UnsupportedVersion (version = 1)) (\<lambda>_.
     get_then get_u8 (\<lambda>found. get_ensure ProtocolMismatch (found = kind))))"

definition tap_device_response_to_bytes :: "('s, 'g) profile \<Rightarrow> 's device_response \<Rightarrow> bytes" where
  "tap_device_response_to_bytes P r =
     1 # 1 # ident_bytes (dr_device r) @ be_bytes 8 (unat (la_sequence (dr_attempt r)))
       @ gc_ser_scalar P (dr_scalar r)"

definition tap_device_response_from_bytes ::
  "('s::zero, 'g) profile \<Rightarrow> bytes \<Rightarrow> 's device_response result" where
  "tap_device_response_from_bytes P bs =
     (if length bs \<noteq> 74 then Inl LengthMismatch
      else decode_all
        (get_then (tap_expect_response 1) (\<lambda>_.
         get_then get_ident (\<lambda>device.
         get_then get_u64 (\<lambda>sequence.
         get_then (get_scalar P) (\<lambda>scalar.
         get_return \<lparr>dr_attempt = \<lparr>la_device = device, la_sequence = sequence\<rparr>,
                     dr_scalar = scalar\<rparr>))))) bs)"

definition tap_member_response_to_bytes :: "('s, 'g) profile \<Rightarrow> 's member_response \<Rightarrow> bytes" where
  "tap_member_response_to_bytes P r =
     1 # 2 # be_bytes 2 (unat (mr_slot r)) @ gc_ser_scalar P (mr_scalar r)"

definition tap_member_response_from_bytes ::
  "('s::zero, 'g) profile \<Rightarrow> bytes \<Rightarrow> 's member_response result" where
  "tap_member_response_from_bytes P bs =
     (if length bs \<noteq> 36 then Inl LengthMismatch
      else decode_all
        (get_then (tap_expect_response 2) (\<lambda>_.
         get_then get_u16 (\<lambda>slot.
         get_then (get_scalar P) (\<lambda>scalar.
         get_return \<lparr>mr_slot = slot, mr_scalar = scalar\<rparr>)))) bs)"

section \<open>The leaf\<close>

definition taproot_response ::
  "('s::field, 'g::ab_group_add) profile \<Rightarrow> 's tap_hashes \<Rightarrow> bytes \<Rightarrow> ('s, 'g) response_inputs \<Rightarrow> bytes
     \<Rightarrow> 's device_response result" where
  "taproot_response P H package_bytes input reservation_bytes =
     and_then (reservation_key P H reservation_bytes (ri_reservation input) (ri_session input)
       (ri_expiry input)) (\<lambda>reserved.
     and_then (tap_package_from_bytes P H package_bytes) (\<lambda>package.
     if tp_key package \<noteq> reserved then Inl InvalidTranscript
     else and_then (transcript_finalize (tp_root package) (ri_reservation input)) (\<lambda>transcript.
       and_then (tap_context_new P H package) (\<lambda>signing.
       tap_respond_device P signing (ri_nonce input) transcript (ri_nonces input) (ri_device input)
         (ri_share input)))))"

definition leaf_respond_taproot ::
  "('s::field, 'g::ab_group_add) profile \<Rightarrow> 's tap_hashes \<Rightarrow> leaf_attempt \<Rightarrow> bytes
     \<Rightarrow> ('s, 'g) leaf_registry \<Rightarrow> 's device_response result \<times> ('s, 'g) leaf_registry" where
  "leaf_respond_taproot P H attempt package_bytes =
     leaf_respond_with attempt TaprootMode (taproot_response P H package_bytes)"

end
