(* ===== verification/Ksnf_Taproot_Proofs.thy ===== *)
theory Ksnf_Taproot_Proofs
  imports Ksnf_Taproot_Sign Ksnf_Signing_Complete
begin

text \<open>
  Taproot signing is plain signing for the tweaked key: with every share and member point moved by
  the key's sign and tweak, every nonce by the sign of the aggregate nonce, and the challenge by
  the sign of the output key, the Taproot checks and responses are the plain ones. The moved
  shares interpolate to the output key because the Lagrange coefficients sum to one.
\<close>

section \<open>Signs and coordinates\<close>

text \<open>
  The SEC 1 compressed form of a point: a tag of its parity and its coordinate, which it shares
  with its opposite.
\<close>

definition sec1_ok :: "('s, 'g::ab_group_add) profile \<Rightarrow> bool" where
  "sec1_ok P \<longleftrightarrow> gc_point_len P = 33 \<and> (\<forall>g. g \<noteq> 0 \<longrightarrow> (\<exists>x.
     gc_enc_point P g = 2 # x \<and> gc_enc_point P (- g) = 3 # x
     \<or> gc_enc_point P g = 3 # x \<and> gc_enc_point P (- g) = 2 # x))"

lemma sign_square [simp]: "sign_scalar sg * sign_scalar sg = (1 :: 's::field)"
  by (cases sg) simp_all

lemma sign_cancel [simp]: "sign_scalar sg * (sign_scalar sg * x) = (x :: 's::field)"
  by (simp add: mult.assoc [symmetric])

lemma sign_smul_zero: "group_ok P \<Longrightarrow> gc_smul P (sign_scalar sg) g = 0 \<longleftrightarrow> g = 0"
  using smul_mult [of P "sign_scalar sg" "sign_scalar sg" g] by (auto simp: smul_one smul_zero_right)

lemma even_normalize_point:
  assumes "group_ok P" "sec1_ok P" "g \<noteq> 0"
  obtains sg where "even_normalize P g = Inr (sg, gc_smul P (sign_scalar sg) g)"
    "gc_smul P (sign_scalar sg) g \<noteq> 0" 
    "lift_even P (x_only P (gc_smul P (sign_scalar sg) g)) = Inr (gc_smul P (sign_scalar sg) g)"
proof -
  have enc: "point_from_bytes P (gc_enc_point P h) = Inr h" if "h \<noteq> 0" for h
    using point_from_to_bytes [OF assms(1) that] by (simp add: point_to_bytes_def)
  have neg: "gc_smul P (- 1) g = - g" by (simp add: smul_minus [OF assms(1)] smul_one [OF assms(1)])
  have lift: "lift_even P (x_only P h) = Inr h" if "h \<noteq> 0" "gc_enc_point P h = 2 # x" for h x
    using enc [OF that(1)] that(2) by (simp add: lift_even_def x_only_def x_only_bytes_def point_to_bytes_def)
  from assms(2,3) obtain x where x: "gc_enc_point P g = 2 # x \<and> gc_enc_point P (- g) = 3 # x
      \<or> gc_enc_point P g = 3 # x \<and> gc_enc_point P (- g) = 2 # x"
    by (auto simp: sec1_ok_def)
  then show thesis
  proof
    assume e: "gc_enc_point P g = 2 # x \<and> gc_enc_point P (- g) = 3 # x"
    then show thesis
      using that [of Positive] assms(1,3) lift [of g]
      by (simp add: even_normalize_def point_to_bytes_def smul_one)
  next
    assume e: "gc_enc_point P g = 3 # x \<and> gc_enc_point P (- g) = 2 # x"
    then show thesis
      using that [of Negative] assms(3) lift [of "- g"]
      by (simp add: even_normalize_def point_to_bytes_def neg point_new_def)
  qed
qed

section \<open>Moved values\<close>

definition signed_point :: "('s::field, 'g::ab_group_add) profile \<Rightarrow> 's tap_key \<Rightarrow> 'g \<Rightarrow> 'g" where
  "signed_point P key X =
     gc_smul P (sign_scalar (tk_internal_sign key)) X + gc_smul P (tk_tweak key) (gc_generator P)"

definition signed_share :: "'s::field tap_key \<Rightarrow> 's \<Rightarrow> 's" where
  "signed_share key x = sign_scalar (tk_internal_sign key) * x + tk_tweak key"

definition signed_pair :: "('s::field, 'g) profile \<Rightarrow> tap_sign \<Rightarrow> 'g nonce_pair \<Rightarrow> 'g nonce_pair" where
  "signed_pair P sg pair = \<lparr>np_hiding = gc_smul P (sign_scalar sg) (np_hiding pair),
     np_binding = gc_smul P (sign_scalar sg) (np_binding pair)\<rparr>"

definition signed_nonce :: "tap_sign \<Rightarrow> 's::field secret_nonce \<Rightarrow> 's secret_nonce" where
  "signed_nonce sg n = \<lparr>sn_hiding = sign_scalar sg * sn_hiding n, sn_binding = sign_scalar sg * sn_binding n\<rparr>"

definition signed_set ::
  "('s::field, 'g) profile \<Rightarrow> tap_sign \<Rightarrow> 'g device_nonce_set \<Rightarrow> 'g device_nonce_set" where
  "signed_set P sg s = \<lparr>dns_entries = map (dn_nonce_update (signed_pair P sg)) (dns_entries s),
     dns_aggregate = signed_pair P sg (dns_aggregate s)\<rparr>"

definition signed_inner ::
  "('s::field, 'g::ab_group_add) profile \<Rightarrow> 's tap_key \<Rightarrow> ('s, 'g) inner_support \<Rightarrow> ('s, 'g) inner_support" where
  "signed_inner P key s =
     s\<lparr>is_participants := map (dp_share_update (signed_point P key)) (is_participants s)\<rparr>"

definition signed_outer ::
  "('s::field, 'g::ab_group_add) profile \<Rightarrow> 's tap_key \<Rightarrow> ('s, 'g) outer_support \<Rightarrow> ('s, 'g) outer_support" where
  "signed_outer P key s =
     s\<lparr>os_participants := map (pp_member_update (signed_point P key)) (os_participants s)\<rparr>"

definition signed_entry ::
  "('s::field, 'g::ab_group_add) profile \<Rightarrow> 's tap_key \<Rightarrow> tap_sign \<Rightarrow> ('s, 'g) root_entry \<Rightarrow> ('s, 'g) root_entry" where
  "signed_entry P key sg e = \<lparr>re_record = rc_member_update (signed_point P key) (re_record e),
     re_nonce = signed_pair P sg (re_nonce e)\<rparr>"

definition signed_root ::
  "('s::field, 'g::ab_group_add) profile \<Rightarrow> 's tap_key \<Rightarrow> tap_sign \<Rightarrow> ('s, 'g) root_package \<Rightarrow> ('s, 'g) root_package" where
  "signed_root P key sg r = r\<lparr>rt_entries := map (signed_entry P key sg) (rt_entries r)\<rparr>"

definition signed_body ::
  "('s::field, 'g::ab_group_add) profile \<Rightarrow> 's tap_key \<Rightarrow> ('s, 'g) member_body \<Rightarrow> ('s, 'g) member_body" where
  "signed_body P key b = b\<lparr>bd_member := signed_point P key (bd_member b),
     bd_inner := signed_inner P key (bd_inner b),
     bd_outer := ocf_member_update (signed_point P key) (bd_outer b)\<rparr>"

definition signed_transcript ::
  "('s::field, 'g::ab_group_add) profile \<Rightarrow> ('s, 'g) tap_context \<Rightarrow> ('s, 'g) member_transcript
     \<Rightarrow> ('s, 'g) member_transcript" where
  "signed_transcript P s t =
     \<lparr>mt_root = signed_root P (tp_key (ts_package s)) (ts_nonce_sign s) (mt_root t),
      mt_opening = op_body_update (signed_body P (tp_key (ts_package s))) (mt_opening t)\<rparr>"

definition signed_context ::
  "('s::field, 'g::ab_group_add) profile \<Rightarrow> ('s, 'g) tap_context \<Rightarrow> ('s, 'g) signing_context" where
  "signed_context P s =
     \<lparr>sc_root = signed_root P (tp_key (ts_package s)) (ts_nonce_sign s) (tp_root (ts_package s)),
      sc_bindings = ts_bindings s, sc_nonce = ts_nonce s,
      sc_challenge = ts_challenge s * sign_scalar (tk_output_sign (tp_key (ts_package s)))\<rparr>"

lemma signed_fields [simp]:
  "sc_bindings (signed_context P s) = ts_bindings s" "sc_nonce (signed_context P s) = ts_nonce s"
  "sc_challenge (signed_context P s) = ts_challenge s * sign_scalar (tk_output_sign (tp_key (ts_package s)))"
  "sc_root (signed_context P s) = signed_root P (tp_key (ts_package s)) (ts_nonce_sign s) (tp_root (ts_package s))"
  "mt_root (signed_transcript P s t) = signed_root P (tp_key (ts_package s)) (ts_nonce_sign s) (mt_root t)"
  "mt_body (signed_transcript P s t) = signed_body P (tp_key (ts_package s)) (mt_body t)"
  "bd_inner (signed_body P key b) = signed_inner P key (bd_inner b)"
  "bd_member (signed_body P key b) = signed_point P key (bd_member b)"
  "bd_outer (signed_body P key b) = ocf_member_update (signed_point P key) (bd_outer b)"
  "rt_entries (signed_root P key sg r) = map (signed_entry P key sg) (rt_entries r)"
  "re_record (signed_entry P key sg e) = rc_member_update (signed_point P key) (re_record e)"
  "re_nonce (signed_entry P key sg e) = signed_pair P sg (re_nonce e)"
  "dns_entries (signed_set P sg n) = map (dn_nonce_update (signed_pair P sg)) (dns_entries n)"
  "dns_aggregate (signed_set P sg n) = signed_pair P sg (dns_aggregate n)"
  "is_participants (signed_inner P key i) = map (dp_share_update (signed_point P key)) (is_participants i)"
  "is_coefficients (signed_inner P key i) = is_coefficients i"
  "os_participants (signed_outer P key o') = map (pp_member_update (signed_point P key)) (os_participants o')"
  "os_coefficients (signed_outer P key o') = os_coefficients o'"
  by (simp_all add: signed_context_def signed_transcript_def signed_body_def signed_root_def
      signed_entry_def signed_set_def signed_inner_def signed_outer_def)

section \<open>The lookups\<close>

lemma find_map: "find Q (map f xs) = map_option f (find (Q \<circ> f) xs)"
  by (induction xs) auto

lemma search_key_map: "search_key k x (map f xs) = map_option f (search_key (k \<circ> f) x xs)"
  by (simp add: search_key_def find_map comp_def)

lemma signed_lookups [simp]:
  "set_nonce (signed_set P sg n) d = map_sum id (signed_pair P sg) (set_nonce n d)"
  "set_attempt (signed_set P sg n) d = set_attempt n d"
  "inner_participant (signed_inner P key i) d =
     map_sum id (dp_share_update (signed_point P key)) (inner_participant i d)"
  "inner_coefficient_of (signed_inner P key i) d = inner_coefficient_of i d"
  "outer_coefficient_of (signed_outer P key o') q =
     map_sum id (ocf_member_update (signed_point P key)) (outer_coefficient_of o' q)"
  "context_binding (signed_context P s) sl = tap_binding s sl"
  "package_entry (signed_root P key sg r) sl = map_sum id (signed_entry P key sg) (package_entry r sl)"
proof -
  show "set_nonce (signed_set P sg n) d = map_sum id (signed_pair P sg) (set_nonce n d)"
    "set_attempt (signed_set P sg n) d = set_attempt n d"
    by (cases "search_key dn_device d (dns_entries n)"; simp add: set_nonce_def set_attempt_def search_key_map comp_def)+
  show "inner_participant (signed_inner P key i) d =
     map_sum id (dp_share_update (signed_point P key)) (inner_participant i d)"
    by (cases "search_key dp_device d (is_participants i)"; simp add: inner_participant_def search_key_map comp_def)
  show "inner_coefficient_of (signed_inner P key i) d = inner_coefficient_of i d"
    by (cases "search_key (dp_device \<circ> fst) d (zip (is_participants i) (is_coefficients i))")
       (simp_all add: inner_coefficient_of_def zip_map1 search_key_map comp_def case_prod_beta)
  show "outer_coefficient_of (signed_outer P key o') q =
     map_sum id (ocf_member_update (signed_point P key)) (outer_coefficient_of o' q)"
    by (cases "find (\<lambda>x. pp_person (fst x) = q) (zip (os_participants o') (os_coefficients o'))")
       (simp_all add: outer_coefficient_of_def zip_map1 find_map comp_def case_prod_beta)
  show "context_binding (signed_context P s) sl = tap_binding s sl"
    by (simp add: context_binding_def tap_binding_def)
  show "package_entry (signed_root P key sg r) sl = map_sum id (signed_entry P key sg) (package_entry r sl)"
    by (cases "search_key (\<lambda>e. rc_slot (re_record e)) sl (rt_entries r)")
       (simp_all add: package_entry_def search_key_map comp_def)
qed

section \<open>The checks and responses\<close>

lemma signed_pair_bind:
  assumes "group_ok P"
  shows "nonce_bind P (signed_pair P sg n) b = gc_smul P (sign_scalar sg) (nonce_bind P n b)"
proof -
  have "gc_smul P b (gc_smul P (sign_scalar sg) g) = gc_smul P (sign_scalar sg) (gc_smul P b g)" for g
    using smul_mult [OF assms, of b "sign_scalar sg" g] smul_mult [OF assms, of "sign_scalar sg" b g]
    by (simp add: mult.commute)
  then show ?thesis by (simp add: nonce_bind_def signed_pair_def smul_add_right [OF assms])
qed

lemma tap_verify_plain:
  assumes "group_ok P"
  shows "tap_verify_device P z n b k X s = verify_device P z (signed_pair P (ts_nonce_sign s) n) b
      (sc_challenge (signed_context P s)) k (signed_point P (tp_key (ts_package s)) X)"
    and "tap_verify_member P z n b k X s = verify_member P z (signed_pair P (ts_nonce_sign s) n) b
      (sc_challenge (signed_context P s)) k (signed_point P (tp_key (ts_package s)) X)"
  by (simp_all add: tap_verify_device_def tap_verify_member_def verify_device_def verify_member_def
      signed_pair_bind [OF assms] signed_point_def Let_def mult.commute mult.left_commute)

lemma tap_inputs_plain:
  "tap_validate_inputs s t n = Inr () \<Longrightarrow>
     validate_member_inputs (signed_transcript P s t) (signed_context P s) (signed_set P (ts_nonce_sign s) n) = Inr ()"
  by (auto simp: tap_validate_inputs_def validate_member_inputs_Inr and_then_Inr_iff if_Inl_eq_Inr
      set_validate_support_Inr comp_def)

lemma tap_member_loop_plain:
  assumes "group_ok P"
  shows "tap_member_loop P s n support b k xs acc =
    member_loop P (signed_context P s) (signed_set P (ts_nonce_sign s) n) (signed_inner P (tp_key (ts_package s)) support)
      b k (map (map_prod id (dp_share_update (signed_point P (tp_key (ts_package s))))) xs) acc"
proof (induction xs arbitrary: acc)
  case (Cons x xs)
  obtain r p where x: "x = (r, p)" by (cases x)
  have nonce: "and_then (map_sum id (signed_pair P sg) y) F = and_then y (\<lambda>z. F (signed_pair P sg z))"
    for sg F and y :: "_ nonce_pair result" by (cases y) simp_all
  show ?case by (simp add: x Cons.IH tap_verify_plain [OF assms] nonce cong: if_cong)
qed simp

lemma zip_map_snd: "map (map_prod id f) (zip xs ys) = zip xs (map f ys)"
  by (simp add: zip_map2 map_prod_def case_prod_beta)

lemma tap_aggregate_member_plain:
  assumes "group_ok P" "tap_validate_inputs s t n = Inr ()"
  shows "tap_aggregate_member P s t n rs =
    aggregate_member P (signed_transcript P s t) (signed_context P s) (signed_set P (ts_nonce_sign s) n) rs"
  using assms(2) tap_inputs_plain [OF assms(2), of P]
  by (simp add: tap_aggregate_member_def aggregate_member_def tap_member_loop_plain [OF assms(1)]
      tap_verify_plain [OF assms(1)] Let_def zip_map_snd cong: if_cong)

text \<open>A device's Taproot response is the plain one with its moved nonce and share.\<close>

lemma signed_nonce_commitments:
  assumes "group_ok P" "nonce_commitments P n = Inr pair"
  shows "nonce_commitments P (signed_nonce sg n) = Inr (signed_pair P sg pair)"
  using assms(2)
  by (auto simp: nonce_commitments_def signed_nonce_def signed_pair_def point_from_scalar_def point_new_Inr
      and_then_Inr_iff smul_mult [OF assms(1)] sign_smul_zero [OF assms(1)])

lemma signed_share_point:
  "group_ok P \<Longrightarrow> signed_point P key (element_from_scalar P x) = element_from_scalar P (signed_share key x)"
  by (simp add: signed_point_def signed_share_def element_from_scalar_def smul_add smul_mult)

lemma signed_response:
  "sign_scalar sg * nonce_respond n b (c * a * o' * sign_scalar sg) k x + c * k * o' * tw =
     nonce_respond (signed_nonce sg n) b (c * o') k (a * x + (tw :: 's::field))"
proof -
  have "sign_scalar sg * (c * a * o' * sign_scalar sg * k * x) = c * a * o' * k * x"
    using sign_cancel [of sg "c * a * o' * k * x"] by (simp add: algebra_simps)
  then show ?thesis by (simp add: nonce_respond_def signed_nonce_def algebra_simps)
qed

lemma tap_respond_plain:
  assumes "group_ok P" "tap_respond_device P s n t nonces d x = Inr r"
  shows "tap_validate_inputs s t nonces = Inr ()"
    and "respond_device P (signed_nonce (ts_nonce_sign s) n) (signed_transcript P s t) (signed_context P s)
      (signed_set P (ts_nonce_sign s) nonces) d (signed_share (tp_key (ts_package s)) x) = Inr r"
proof -
  from assms(2) obtain q pair c b a where
    v: "tap_validate_inputs s t nonces = Inr ()"
    and q: "inner_participant (bd_inner (mt_body t)) d = Inr q" "dp_share q = element_from_scalar P x"
    and n: "nonce_commitments P n = Inr pair" "set_nonce nonces d = Inr pair"
    and c: "inner_coefficient_of (bd_inner (mt_body t)) d = Inr c"
    and b: "tap_binding s (bd_slot (mt_body t)) = Inr b"
    and a: "set_attempt nonces d = Inr a"
    and eq: "r = \<lparr>dr_attempt = a, dr_scalar = sign_scalar (ts_nonce_sign s) * nonce_respond n b
        (ts_challenge s * sign_scalar (tk_internal_sign (tp_key (ts_package s)))
          * sign_scalar (tk_output_sign (tp_key (ts_package s))) * sign_scalar (ts_nonce_sign s))
        (ic_scalar c * ocf_scalar (bd_outer (mt_body t))) x
      + ts_challenge s * (ic_scalar c * ocf_scalar (bd_outer (mt_body t)))
        * sign_scalar (tk_output_sign (tp_key (ts_package s))) * tk_tweak (tp_key (ts_package s))\<rparr>"
    by (auto simp: tap_respond_device_def and_then_Inr_iff if_Inl_eq_Inr Let_def)
  from v show "tap_validate_inputs s t nonces = Inr ()" .
  show "respond_device P (signed_nonce (ts_nonce_sign s) n) (signed_transcript P s t) (signed_context P s)
      (signed_set P (ts_nonce_sign s) nonces) d (signed_share (tp_key (ts_package s)) x) = Inr r"
    using tap_inputs_plain [OF v, of P] q n c b a signed_nonce_commitments [OF assms(1) n(1), of "ts_nonce_sign s"]
    by (simp add: respond_device_def signed_share_point [OF assms(1)] eq signed_response signed_share_def)
qed

section \<open>Moved supports\<close>

lemma signed_point_sum:
  assumes "group_ok P" "(\<Sum>p\<leftarrow>ps. l p) = (1 :: 's::field)"
  shows "(\<Sum>p\<leftarrow>ps. gc_smul P (l p) (signed_point P key (f p))) = signed_point P key (\<Sum>p\<leftarrow>ps. gc_smul P (l p) (f p))"
proof -
  let ?a = "sign_scalar (tk_internal_sign key)" and ?t = "tk_tweak key" and ?G = "gc_generator P"
  have one: "gc_smul P (l p) (signed_point P key (f p)) =
      gc_smul P ?a (gc_smul P (l p) (f p)) + gc_smul P (l p) (gc_smul P ?t ?G)" for p
    using smul_mult [OF assms(1), of "l p" ?a] smul_mult [OF assms(1), of ?a "l p"]
    by (simp add: signed_point_def smul_add_right [OF assms(1)] mult.commute)
  have "(\<Sum>p\<leftarrow>ps. gc_smul P (l p) g) = gc_smul P (\<Sum>p\<leftarrow>ps. l p) g" for g
    by (induction ps) (simp_all add: smul_zero [OF assms(1)] smul_add [OF assms(1)])
  then have "(\<Sum>p\<leftarrow>ps. gc_smul P (l p) (gc_smul P ?t ?G)) = gc_smul P ?t ?G"
    by (simp add: assms(2) smul_one [OF assms(1)])
  then show ?thesis
    by (simp add: one sum_list_addf smul_sum_list [OF assms(1), symmetric]) (simp add: signed_point_def)
qed

lemma signed_inner_ok: "inner_support_ok s \<Longrightarrow> inner_support_ok (signed_inner P key s)"
  by (simp add: inner_support_ok_def comp_def image_comp)

lemma signed_inner_key:
  assumes "group_ok P" "inner_support_ok s"
  shows "inner_key P (signed_inner P key s) = signed_point P key (inner_key P s)"
proof -
  let ?ps = "is_participants s" and ?A = "dp_node ` set (is_participants s)"
  have dist: "distinct (map dp_node ?ps)" and ne: "?ps \<noteq> []" using assms(2) by (simp_all add: inner_support_ok_def)
  have "(\<Sum>p\<leftarrow>?ps. lagrange ?A (dp_node p)) = (\<Sum>x \<in> ?A. lagrange ?A x)"
    using sum_list_distinct_conv_sum_set [OF dist, of "lagrange ?A"] by (simp add: comp_def)
  also have "\<dots> = 1" using ne by (intro lagrange_sum_one) simp_all
  finally show ?thesis
    using signed_point_sum [OF assms(1)] by (simp add: inner_key_def comp_def image_comp)
qed

lemma signed_outer_ok: "outer_support_ok s \<Longrightarrow> outer_support_ok (signed_outer P key s)"
  by (simp add: outer_support_ok_def comp_def image_comp)

lemma signed_outer_key:
  assumes "group_ok P" "outer_support_ok s"
  shows "outer_key P (signed_outer P key s) = signed_point P key (outer_key P s)"
proof -
  let ?ps = "os_participants s" and ?A = "pp_node ` set (os_participants s)"
  have dist: "distinct (map pp_node ?ps)" and ne: "?ps \<noteq> []" using assms(2) by (simp_all add: outer_support_ok_def)
  have "(\<Sum>p\<leftarrow>?ps. lagrange ?A (pp_node p)) = (\<Sum>x \<in> ?A. lagrange ?A x)"
    using sum_list_distinct_conv_sum_set [OF dist, of "lagrange ?A"] by (simp add: comp_def)
  also have "\<dots> = 1" using ne by (intro lagrange_sum_one) simp_all
  finally show ?thesis
    using signed_point_sum [OF assms(1)] by (simp add: outer_key_def comp_def image_comp)
qed

lemma signed_set_ok:
  assumes "group_ok P" "nonce_set_ok support n"
  shows "nonce_set_ok (signed_inner P key support) (signed_set P sg n)"
proof -
  have agg: "np_hiding (dns_aggregate n) = (\<Sum>e\<leftarrow>dns_entries n. np_hiding (dn_nonce e))"
    "np_binding (dns_aggregate n) = (\<Sum>e\<leftarrow>dns_entries n. np_binding (dn_nonce e))"
    "np_hiding (dns_aggregate n) \<noteq> 0" "np_binding (dns_aggregate n) \<noteq> 0"
    using assms(2) unfolding nonce_set_ok_def by blast+
  have zero: "gc_smul P (sign_scalar sg) (np_hiding (dns_aggregate n)) \<noteq> 0"
    "gc_smul P (sign_scalar sg) (np_binding (dns_aggregate n)) \<noteq> 0"
    using agg(3,4) by (simp_all only: sign_smul_zero [OF assms(1)] not_False_eq_True)
  show ?thesis
    using assms(2) zero unfolding agg(1,2)
    by (simp add: nonce_set_ok_def signed_pair_def comp_def smul_sum_list [OF assms(1), symmetric])
qed

section \<open>Completeness\<close>

lemma tap_member_completes:
  assumes P: "group_ok P" and support: "inner_support_ok (bd_inner (mt_body t))"
    and nonces: "nonce_set_ok (bd_inner (mt_body t)) nonces"
    and key: "inner_key P (bd_inner (mt_body t)) = bd_member (mt_body t)"
    and len: "length rs = length (is_participants (bd_inner (mt_body t)))" and dist: "distinct (map dr_device rs)"
    and made: "\<And>r. r \<in> set rs \<Longrightarrow> \<exists>nonce d share. tap_respond_device P s nonce t nonces d share = Inr r"
  shows "tap_aggregate_member P s t nonces rs =
    Inr \<lparr>mr_slot = bd_slot (mt_body t), mr_scalar = \<Sum>r\<leftarrow>rs. dr_scalar r\<rparr>"
proof -
  have plain: "\<exists>nonce d share. respond_device P nonce (signed_transcript P s t) (signed_context P s)
      (signed_set P (ts_nonce_sign s) nonces) d share = Inr r" if "r \<in> set rs" for r
    using made [OF that] tap_respond_plain(2) [OF P] by blast
  have "rs \<noteq> []" using len support by (auto simp: inner_support_ok_def)
  then have "\<exists>nonce d share. tap_respond_device P s nonce t nonces d share = Inr (hd rs)" by (intro made) simp
  then have "tap_validate_inputs s t nonces = Inr ()" using tap_respond_plain(1) [OF P] by blast
  then show ?thesis
    using member_completes [where t = "signed_transcript P s t", OF P _ _ _ _ dist plain] len
      signed_inner_ok [OF support] signed_set_ok [OF P nonces] signed_inner_key [OF P support] key
    by (simp add: tap_aggregate_member_plain [OF P])
qed

text \<open>The derived key is the moved vault key, up to the sign that makes it even.\<close>

lemma tap_key_point:
  assumes P: "group_ok P" "sec1_ok P" and key: "tap_key_new P H Q root = Inr key" "Q \<noteq> 0"
  obtains X where "x_only_key_point P (tk_output key) = Inr X" "tk_output key = x_only P X"
    "X = gc_smul P (sign_scalar (tk_output_sign key)) (signed_point P key Q)"
    "tk_vault key = point_to_bytes P Q" "tk_merkle_root key = root"
proof -
  obtain a where a: "even_normalize P Q = Inr (a, gc_smul P (sign_scalar a) Q)"
    by (rule even_normalize_point [OF P key(2)])
  with key(1) obtain tweak c X where
    ne: "gc_smul P (sign_scalar a) Q + element_from_scalar P tweak \<noteq> 0"
    and out: "even_normalize P (gc_smul P (sign_scalar a) Q + element_from_scalar P tweak) = Inr (c, X)"
    and eq: "key = \<lparr>tk_vault = point_to_bytes P Q, tk_merkle_root = root, tk_internal_sign = a,
      tk_output_sign = c, tk_tweak = tweak, tk_output = x_only P X\<rparr>"
    by (auto simp: tap_key_new_def and_then_Inr_iff result_simps)
  have move: "signed_point P key Q = gc_smul P (sign_scalar a) Q + element_from_scalar P tweak"
    by (simp add: eq signed_point_def element_from_scalar_def)
  obtain c' where "even_normalize P (gc_smul P (sign_scalar a) Q + element_from_scalar P tweak) =
      Inr (c', gc_smul P (sign_scalar c') (gc_smul P (sign_scalar a) Q + element_from_scalar P tweak))"
    and lift: "lift_even P (x_only P (gc_smul P (sign_scalar c') (gc_smul P (sign_scalar a) Q + element_from_scalar P tweak))) =
      Inr (gc_smul P (sign_scalar c') (gc_smul P (sign_scalar a) Q + element_from_scalar P tweak))"
    by (rule even_normalize_point [OF P ne])
  with out have X: "X = gc_smul P (sign_scalar c) (gc_smul P (sign_scalar a) Q + element_from_scalar P tweak)"
    "c' = c" by auto
  then have lifted: "lift_even P (x_only P X) = Inr X" using lift by simp
  have sel: "tk_output key = x_only P X" "tk_output_sign key = c" "tk_vault key = point_to_bytes P Q"
    "tk_merkle_root key = root" by (simp_all add: eq)
  show thesis
    by (rule that [of X]) (simp_all only: sel move X(1) [symmetric] x_only_key_point_def lifted)
qed

lemma tap_context_facts:
  assumes P: "group_ok P" "sec1_ok P" and s: "tap_context_new P H package = Inr s"
  shows "ts_package s = package \<and> context_bound P (signed_context P s)
    \<and> lift_even P (x_only P (ts_nonce s)) = Inr (ts_nonce s)
    \<and> (\<exists>X. x_only_key_point P (tk_output (tp_key package)) = Inr X
         \<and> ts_challenge s = bip340_challenge P H (ts_nonce s) X (tap_sighash package))"
proof -
  let ?es = "rt_entries (tp_root package)"
  from s obtain pb bs raw sg nonce X where
    bs: "collect_results (\<lambda>(index, e).
         and_then (count_u16 index) (\<lambda>i. and_then (put_bytes pb) (\<lambda>encoded.
         and_then (binding_factor P (put_u8 tap_version @ encoded @ put_u16 i)) (\<lambda>binding.
         Inr (re_slot e, re_nonce e, binding))))) (enumerate 0 ?es) = Inr bs"
    and raw: "aggregate_nonce P (map (\<lambda>(_, n, b). (n, b)) bs) = Inr raw"
    and norm: "even_normalize P raw = Inr (sg, nonce)"
    and X: "x_only_key_point P (tk_output (tp_key package)) = Inr X"
    and eq: "s = \<lparr>ts_package = package, ts_bindings = map (\<lambda>(sl, _, b). (sl, b)) bs, ts_nonce = nonce,
          ts_nonce_sign = sg, ts_challenge = bip340_challenge P H nonce X (tap_sighash package)\<rparr>"
    by (auto simp: tap_context_new_def and_then_Inr_iff)
  have "list_all2 (\<lambda>x y. \<exists>b. y = (re_slot (snd x), re_nonce (snd x), b)) (enumerate 0 ?es) bs"
    using bs unfolding collect_results_Inr_iff
    by (auto simp: and_then_Inr_iff case_prod_beta elim!: list_all2_mono)
  then have all: "list_all2 (\<lambda>e y. \<exists>b. y = (re_slot e, re_nonce e, b)) ?es bs"
    unfolding list_all2_conv_all_nth by (auto simp: nth_enumerate_eq)
  then have "map fst (ts_bindings s) = map re_slot ?es
      \<and> (\<Sum>(e, b)\<leftarrow>zip ?es (ts_bindings s). nonce_bind P (re_nonce e) (snd b)) =
        (\<Sum>(pair, b)\<leftarrow>map (\<lambda>(_, n, b). (n, b)) bs. nonce_bind P pair b)"
    unfolding eq by (induction rule: list_all2_induct) auto
  moreover have ne: "raw \<noteq> 0" and "raw = (\<Sum>(pair, b)\<leftarrow>map (\<lambda>(_, n, b). (n, b)) bs. nonce_bind P pair b)"
    using raw unfolding aggregate_nonce_Inr by blast+
  ultimately have slots: "map fst (ts_bindings s) = map re_slot ?es"
    and sum: "raw = (\<Sum>(e, b)\<leftarrow>zip ?es (ts_bindings s). nonce_bind P (re_nonce e) (snd b))" by simp_all
  obtain sg' where "even_normalize P raw = Inr (sg', gc_smul P (sign_scalar sg') raw)"
    "lift_even P (x_only P (gc_smul P (sign_scalar sg') raw)) = Inr (gc_smul P (sign_scalar sg') raw)"
    by (rule even_normalize_point [OF P ne])
  with norm have n: "nonce = gc_smul P (sign_scalar sg) raw" "lift_even P (x_only P nonce) = Inr nonce" by auto
  have "(\<Sum>(e, b)\<leftarrow>zip (map (signed_entry P (tp_key package) sg) ?es) (ts_bindings s). nonce_bind P (re_nonce e) (snd b))
      = gc_smul P (sign_scalar sg) raw"
    unfolding sum smul_sum_list [OF P(1)]
    by (simp add: zip_map1 comp_def case_prod_beta signed_pair_bind [OF P(1)])
  then have "context_bound P (signed_context P s)"
    using slots n(1) by (simp add: context_bound_def comp_def) (simp add: eq)
  then show ?thesis using n(2) X by (simp add: eq)
qed

definition tap_made ::
  "('s::field, 'g::ab_group_add) profile \<Rightarrow> ('s, 'g) tap_context \<Rightarrow> ('s, 'g) outer_support
     \<Rightarrow> 's member_response \<Rightarrow> bool" where
  "tap_made P s support r \<longleftrightarrow> (\<exists>t nonces responses. tap_aggregate_member P s t nonces responses = Inr r
     \<and> outer_coefficient_of support (ocf_person (bd_outer (mt_body t))) = Inr (bd_outer (mt_body t))
     \<and> bd_member (mt_body t) = ocf_member (bd_outer (mt_body t)))"

lemma tap_made_plain:
  assumes "group_ok P" "tap_made P s support r"
  shows "member_made P (signed_context P s) (signed_outer P (tp_key (ts_package s)) support) r"
proof -
  from assms(2) obtain t nonces responses where t: "tap_aggregate_member P s t nonces responses = Inr r"
    "outer_coefficient_of support (ocf_person (bd_outer (mt_body t))) = Inr (bd_outer (mt_body t))"
    "bd_member (mt_body t) = ocf_member (bd_outer (mt_body t))" by (auto simp: tap_made_def)
  then have "tap_validate_inputs s t nonces = Inr ()"
    by (auto simp: tap_aggregate_member_def and_then_Inr_iff)
  with t assms(1) show ?thesis
    unfolding member_made_def
    by (intro exI [of _ "signed_transcript P s t"] exI [of _ "signed_set P (ts_nonce_sign s) nonces"]
        exI [of _ responses]) (simp add: tap_aggregate_member_plain)
qed

lemma tap_signature_loop_Inr:
  assumes "group_ok P"
  shows "tap_signature_loop P s support xs acc = Inr z \<longleftrightarrow>
     (\<forall>((r, p), e) \<in> set xs. member_response_ok P (signed_context P s)
        (signed_outer P (tp_key (ts_package s)) support) r
        (pp_member_update (signed_point P (tp_key (ts_package s))) p)
        (signed_entry P (tp_key (ts_package s)) (ts_nonce_sign s) e))
     \<and> z = acc + (\<Sum>((r, p), e)\<leftarrow>xs. mr_scalar r)"
proof (induction xs arbitrary: acc)
  case (Cons x xs)
  obtain r p e where x: "x = ((r, p), e)" by (metis prod.collapse)
  have "tap_signature_loop P s support (x # xs) acc = Inr z \<longleftrightarrow>
      member_response_ok P (signed_context P s) (signed_outer P (tp_key (ts_package s)) support) r
        (pp_member_update (signed_point P (tp_key (ts_package s))) p)
        (signed_entry P (tp_key (ts_package s)) (ts_nonce_sign s) e)
      \<and> tap_signature_loop P s support xs (acc + mr_scalar r) = Inr z"
    by (auto simp: x member_response_ok_def and_then_Inr_iff if_Inl_eq_Inr tap_verify_plain [OF assms] map_sum_Inr)
  then show ?case by (auto simp: Cons.IH x add.assoc)
qed auto

text \<open>The aggregation over a support whose member points interpolate to the vault key.\<close>

lemma tap_signing_completes:
  assumes P: "group_ok P" "sec1_ok P" and support: "outer_support_ok support"
    and key: "tap_key_new P H (rt_key root) merkle = Inr key" "rt_key root \<noteq> 0"
    and package: "tap_package_new P root key = Inr package" and ctx: "tap_context_new P H package = Inr s"
    and root: "package_validate_support root support = Inr ()"
    and okey: "outer_key P support = rt_key root"
    and len: "length rs = length (os_participants support)" and dist: "distinct (map mr_slot rs)"
    and made: "\<And>x. x \<in> set rs \<Longrightarrow> tap_made P s support x"
  shows "\<exists>signature. tap_aggregate_signature P H s support rs = Inr signature
    \<and> tap_signature_verify P H signature (tk_output key) (rt_message root) = Inr ()"
proof -
  have pk: "tp_root package = root" "tp_key package = key"
    using package by (auto simp: tap_package_new_def and_then_Inr_iff)
  note s = tap_context_facts [OF P ctx, THEN conjunct1] tap_context_facts [OF P ctx, THEN conjunct2, THEN conjunct1]
    tap_context_facts [OF P ctx, THEN conjunct2, THEN conjunct2, THEN conjunct1]
  obtain X where X: "x_only_key_point P (tk_output key) = Inr X"
    "X = gc_smul P (sign_scalar (tk_output_sign key)) (signed_point P key (rt_key root))"
    by (rule tap_key_point [OF P key])
  have ch: "ts_challenge s = bip340_challenge P H (ts_nonce s) X (rt_message root)"
    using tap_context_facts [OF P ctx] X(1) pk by (auto simp: tap_sighash_def)
  let ?sup = "signed_outer P key support" and ?c = "signed_context P s" and ?rs = "sort_key mr_slot rs"
    and ?ps = "os_participants support" and ?es = "rt_entries root"
  have sup: "outer_support_ok ?sup" by (rule signed_outer_ok [OF support])
  have entries: "rt_entries (sc_root ?c) = map (signed_entry P key (ts_nonce_sign s)) ?es"
    by (simp add: s(1) pk)
  have root': "package_validate_support (sc_root ?c) ?sup = Inr ()"
  proof -
    have "map (\<lambda>x. (\<lambda>(sl, m). (sl, signed_point P key m)) x) (map (\<lambda>e. (re_slot e, rc_member (re_record e))) ?es) =
        map (\<lambda>x. (\<lambda>(sl, m). (sl, signed_point P key m)) x) (map (\<lambda>q. (pp_slot q, pp_member q)) ?ps)"
      using root by (simp only: package_validate_support_Inr)
    then show ?thesis by (simp add: package_validate_support_Inr entries comp_def s(1) pk)
  qed
  have lens: "length ?rs = length ?ps" "length ?es = length ?ps"
    using len map_eq_imp_length_eq [OF root [unfolded package_validate_support_Inr]] by simp_all
  have all: "\<forall>((r, p), e) \<in> set (zip (zip ?rs (os_participants ?sup)) (rt_entries (sc_root ?c))).
      member_response_ok P ?c ?sup r p e"
    using responses_align [OF sup root' _ dist] tap_made_plain [OF P(1) made] len by (simp add: s(1) pk)
  have sum: "(\<Sum>((r, p), e)\<leftarrow>zip (zip ?rs ?ps) ?es. mr_scalar r) = (\<Sum>r\<leftarrow>?rs. mr_scalar r)"
    using sum_list_zip_fst [of "zip ?rs ?ps" ?es "\<lambda>x. mr_scalar (fst x)"] sum_list_zip_fst [of ?rs ?ps mr_scalar] lens
    by (simp add: case_prod_beta')
  have loop: "tap_signature_loop P s support (zip (zip ?rs ?ps) ?es) 0 = Inr (\<Sum>r\<leftarrow>?rs. mr_scalar r)"
    unfolding tap_signature_loop_Inr [OF P(1)] using all
    by (simp add: sum s(1) pk zip_map1 zip_map2 case_prod_beta entries)
  have "element_from_scalar P (\<Sum>r\<leftarrow>?rs. mr_scalar r) = ts_nonce s + gc_smul P (sc_challenge ?c) (outer_key P ?sup)"
    using signature_sum_verifies [OF P(1) sup s(2) root' _ all] lens by simp
  also have "gc_smul P (sc_challenge ?c) (outer_key P ?sup) = gc_smul P (ts_challenge s) X"
    by (simp add: signed_outer_key [OF P(1) support] okey X(2) s(1) pk smul_mult [OF P(1)])
  finally have "tap_signature_verify P H \<lparr>tg_nonce_x = x_only P (ts_nonce s), tg_response = \<Sum>r\<leftarrow>?rs. mr_scalar r\<rparr>
      (tk_output key) (rt_message root) = Inr ()"
    by (simp add: tap_signature_verify_def s(3) X(1) ch [symmetric])
  moreover have "\<not> any_adjacent (\<lambda>a b. mr_slot a = mr_slot b) ?rs"
    using any_adjacent_eq_sorted [of mr_slot ?rs] dist by (simp add: distinct_map_sort_key)
  ultimately show ?thesis
    using loop root len by (simp add: tap_aggregate_signature_def s(1) pk Let_def tap_sighash_def)
qed

end
