(* ===== verification/Ksnf_Taproot_Codec.thy ===== *)
theory Ksnf_Taproot_Codec
  imports Ksnf_Taproot_Sign Ksnf_Record_Proofs Ksnf_Leaf_Support
begin

text \<open>
  The Taproot envelopes are canonical: a reservation or package decodes exactly from the bytes it
  encodes to, with the key that its root key and Merkle root determine.
\<close>

section \<open>Envelopes\<close>

definition merkle_form :: "bytes option \<Rightarrow> bytes" where
  "merkle_form root = (case root of None \<Rightarrow> [0] | Some r \<Rightarrow> 1 # r)"

definition root_fits :: "bytes option \<Rightarrow> bool" where
  "root_fits root \<longleftrightarrow> (\<forall>r. root = Some r \<longrightarrow> length r = 32)"

definition envelope_form :: "u8 \<Rightarrow> bytes \<Rightarrow> bytes option \<Rightarrow> bytes" where
  "envelope_form kind payload root =
     put_u8 tap_version @ bytes_form tap_protocol_id @ put_u8 kind @ bytes_form payload @ merkle_form root"

lemma tap_protocol_short: "length tap_protocol_id < 2 ^ 32"
  by (simp add: tap_protocol_id_def ascii_bytes_def)

lemma encode_envelope_Inr [result_simps]:
  "encode_envelope kind payload key = Inr bs \<longleftrightarrow>
     length payload < 2 ^ 32 \<and> bs = envelope_form kind payload (tk_merkle_root key)"
  using tap_protocol_short
  by (auto simp: encode_envelope_def envelope_form_def result_simps merkle_form_def put_u8_def split: option.splits)

lemma parses_merkle_root: "parses merkle_root_getter (\<lambda>root bs. root_fits root \<and> bs = merkle_form root)"
proof -
  have tail: "parses (if flag = 0 then get_return None
       else if flag = 1 then get_then (get_fixed 32) (\<lambda>root. get_return (Some root))
       else get_result (Inl InvalidTranscript))
     (\<lambda>root bs. flag = 0 \<and> root = None \<and> bs = [] \<or> flag = 1 \<and> root = Some bs \<and> length bs = 32)"
    for flag :: u8
  proof -
    consider "flag = 0" | "flag = 1" | "flag \<noteq> 0" "flag \<noteq> 1" by blast
    then show ?thesis
    proof cases
      case 1
      then show ?thesis by (auto simp: parses_def get_return_def)
    next
      case 2
      have "parses (get_then (get_fixed 32) (\<lambda>root. get_return (Some root)))
          (\<lambda>root bs. root = Some bs \<and> length bs = 32)"
        by (rule parses_cong [OF parses_then [OF parses_fixed parses_return]]) auto
      then show ?thesis using 2 by simp
    next
      case 3
      then show ?thesis using parses_result [of "Inl InvalidTranscript"] by (simp add: parses_def)
    qed
  qed
  show ?thesis
    unfolding merkle_root_getter_def
    by (rule parses_cong [OF parses_then [OF parses_codec [OF u8_codec.codec_axioms] tail]])
      (auto simp: merkle_form_def root_fits_def put_u8_def split: option.splits)
qed

lemma decode_envelope_iff:
  assumes "length bs < 2 ^ 64"
  shows "decode_envelope kind bs = Inr (payload, root) \<longleftrightarrow>
    length payload < 2 ^ 32 \<and> root_fits root \<and> bs = envelope_form kind payload root"
proof -
  have "parses (envelope_getter kind) (\<lambda>(payload, root) bs.
      length payload < 2 ^ 32 \<and> root_fits root \<and> bs = envelope_form kind payload root)"
    unfolding envelope_getter_def
    by (rule parses_cong, (rule parses_intros parses_merkle_root)+)
      (use tap_protocol_short in \<open>auto simp: envelope_form_def\<close>)
  from decode_all_iff [OF this assms] show ?thesis by (simp add: decode_envelope_def)
qed

section \<open>Keys\<close>

text \<open>A derived key records the vault key and the Merkle root it came from.\<close>

lemma tap_key_new_fields:
  assumes "tap_key_new P H vault root = Inr key"
  shows "tk_vault key = point_to_bytes P vault" "tk_merkle_root key = root"
  using assms by (auto simp: tap_key_new_def result_simps Let_def split: if_splits)

definition key_fits :: "('s, 'g::ab_group_add) profile \<Rightarrow> 's tap_hashes \<Rightarrow> 'g \<Rightarrow> bytes \<Rightarrow> 's tap_key \<Rightarrow> bool" where
  "key_fits P H vault message key \<longleftrightarrow> tap_key_new P H vault (tk_merkle_root key) = Inr key
     \<and> root_fits (tk_merkle_root key) \<and> length message = 32"

lemma validate_profile_Inr [result_simps]:
  "validate_profile P vault message key = Inr u \<longleftrightarrow> point_to_bytes P vault = tk_vault key \<and> length message = 32"
  by (auto simp: validate_profile_def)

section \<open>Packages and reservations\<close>

theorem tap_package_from_bytes_iff:
  assumes "group_ok P" "length bs < 2 ^ 64"
  shows "tap_package_from_bytes P H bs = Inr p \<longleftrightarrow> package_ok (tp_root p)
    \<and> key_fits P H (rt_key (tp_root p)) (rt_message (tp_root p)) (tp_key p) \<and> tap_package_to_bytes P p = Inr bs"
    (is "?l \<longleftrightarrow> ?r")
proof
  assume ?l
  then obtain payload root where p: "decode_envelope package_kind bs = Inr (payload, root)"
    "package_from_bytes P payload = Inr (tp_root p)"
    "tap_key_new P H (rt_key (tp_root p)) root = Inr (tp_key p)"
    "length (rt_message (tp_root p)) = 32" "tap_package_to_bytes P p = Inr bs"
    by (auto simp: tap_package_from_bytes_def tap_package_new_def result_simps split: if_splits)
  then have "length payload < 2 ^ 64" "root_fits root" using decode_envelope_iff [OF assms(2)] by auto
  with p show ?r using package_from_bytes_iff [OF assms(1)] tap_key_new_fields [OF p(3)]
    by (auto simp: key_fits_def)
next
  assume r: ?r
  then obtain payload where b: "package_to_bytes P (tp_root p) = Inr payload" "length payload < 2 ^ 32"
    "bs = envelope_form package_kind payload (tk_merkle_root (tp_key p))"
    by (auto simp: tap_package_to_bytes_def result_simps)
  moreover have "decode_envelope package_kind bs = Inr (payload, tk_merkle_root (tp_key p))"
    using decode_envelope_iff [OF assms(2)] b r by (auto simp: key_fits_def)
  moreover have "package_from_bytes P payload = Inr (tp_root p)"
    using package_from_bytes_iff [OF assms(1)] b r by auto
  moreover have "point_to_bytes P (rt_key (tp_root p)) = tk_vault (tp_key p)"
    using r tap_key_new_fields(1) unfolding key_fits_def by metis
  ultimately show ?l using r
    by (cases p) (simp add: tap_package_from_bytes_def tap_package_new_def key_fits_def result_simps)
qed

theorem tap_reservation_from_bytes_iff:
  assumes "group_ok P" "length bs < 2 ^ 64"
  shows "tap_reservation_from_bytes P H bs support = Inr (r, session, expiry) \<longleftrightarrow>
    reservation_ok P support (tr_member r)
    \<and> key_fits P H (rp_key (rv_prepackage (tr_member r))) (rp_message (rv_prepackage (tr_member r))) (tr_key r)
    \<and> tap_reservation_to_bytes P r session expiry = Inr bs" (is "?l \<longleftrightarrow> ?r")
proof
  assume ?l
  then obtain payload root where p: "decode_envelope reservation_kind bs = Inr (payload, root)"
    "reservation_from_bytes P payload support = Inr (tr_member r, session, expiry)"
    "tap_key_new P H (rp_key (rv_prepackage (tr_member r))) root = Inr (tr_key r)"
    "length (rp_message (rv_prepackage (tr_member r))) = 32" "tap_reservation_to_bytes P r session expiry = Inr bs"
    by (auto simp: tap_reservation_from_bytes_def tap_reservation_new_def result_simps split: if_splits)
  then have "length payload < 2 ^ 64" "root_fits root" using decode_envelope_iff [OF assms(2)] by auto
  with p show ?r using reservation_from_bytes_iff [OF assms(1)] tap_key_new_fields [OF p(3)]
    by (auto simp: key_fits_def)
next
  assume r: ?r
  then obtain payload where b: "reservation_to_bytes P (tr_member r) session expiry = Inr payload"
    "length payload < 2 ^ 32" "bs = envelope_form reservation_kind payload (tk_merkle_root (tr_key r))"
    by (auto simp: tap_reservation_to_bytes_def result_simps)
  moreover have "decode_envelope reservation_kind bs = Inr (payload, tk_merkle_root (tr_key r))"
    using decode_envelope_iff [OF assms(2)] b r by (auto simp: key_fits_def)
  moreover have "reservation_from_bytes P payload support = Inr (tr_member r, session, expiry)"
    using reservation_from_bytes_iff [OF assms(1)] b r by auto
  moreover have "point_to_bytes P (rp_key (rv_prepackage (tr_member r))) = tk_vault (tr_key r)"
    using r tap_key_new_fields(1) unfolding key_fits_def by metis
  ultimately show ?l using r
    by (cases r) (simp add: tap_reservation_from_bytes_def tap_reservation_new_def key_fits_def result_simps)
qed

text \<open>The key a response derives again from the reserved bytes is that of the reservation.\<close>

lemma reservation_key_iff:
  assumes "length bs < 2 ^ 64"
  shows "reservation_key P H bs member session expiry = Inr key \<longleftrightarrow>
    key_fits P H (rp_key (rv_prepackage member)) (rp_message (rv_prepackage member)) key
    \<and> tap_reservation_to_bytes P \<lparr>tr_member = member, tr_key = key\<rparr> session expiry = Inr bs" (is "?l \<longleftrightarrow> ?r")
proof
  assume ?l
  then obtain payload root where p: "decode_envelope reservation_kind bs = Inr (payload, root)"
    "reservation_to_bytes P member session expiry = Inr payload"
    "tap_key_new P H (rp_key (rv_prepackage member)) root = Inr key"
    "length (rp_message (rv_prepackage member)) = 32"
    by (auto simp: reservation_key_def result_simps split: if_splits)
  then show ?r using decode_envelope_iff [OF assms] tap_key_new_fields [OF p(3)]
    by (auto simp: key_fits_def tap_reservation_to_bytes_def result_simps)
next
  assume r: ?r
  then obtain payload where "reservation_to_bytes P member session expiry = Inr payload"
    "decode_envelope reservation_kind bs = Inr (payload, tk_merkle_root key)"
    using decode_envelope_iff [OF assms] by (auto simp: tap_reservation_to_bytes_def key_fits_def result_simps)
  moreover have "point_to_bytes P (rp_key (rv_prepackage member)) = tk_vault key"
    using r tap_key_new_fields(1) unfolding key_fits_def by metis
  ultimately show ?l using r
    by (simp add: reservation_key_def key_fits_def result_simps)
qed

end
