(* ===== verification/Ksnf_Taproot_Leaf.thy ===== *)
theory Ksnf_Taproot_Leaf
  imports Ksnf_Taproot_Sign Ksnf_Leaf_Proofs Ksnf_Durable
begin

text \<open>
  The leaf's Taproot entry points: what a live attempt was reserved for stays with it over every
  step of a run, so that a Taproot response is always for the output key and message reserved.
  The persistent leaf's entry points (\<open>src/leaf/store/persistent.rs\<close>) wrap the registry's.
\<close>

section \<open>Persistent entry points\<close>

definition persistent_reserve_taproot where
  "persistent_reserve_taproot P H ops session now bs expected outer =
     persistent_transition ops (leaf_reserve_taproot P H session now bs expected outer)"

definition persistent_respond_taproot where
  "persistent_respond_taproot P H ops attempt package_bytes =
     persistent_transition ops (leaf_respond_taproot P H attempt package_bytes)"

text \<open>Both are actions of a leaf over its store, so what holds of all store runs holds of Taproot ones.\<close>

lemma reserve_taproot_action:
  "persistent_reserve_taproot P H ops session now bs expected outer leaf s = (res, leaf', s') \<Longrightarrow>
    leaf_action P draw sha256 ops allowed leaf s None leaf' s'"
  unfolding persistent_reserve_taproot_def leaf_reserve_taproot_def by (rule act_reserve)

lemma respond_taproot_action:
  "persistent_respond_taproot P H ops a package_bytes leaf s = (Inr x, leaf', s') \<Longrightarrow>
    leaf_action P draw sha256 ops allowed leaf s (Some (a, x)) leaf' s'"
  unfolding persistent_respond_taproot_def leaf_respond_taproot_def by (rule act_respond)

section \<open>A live attempt keeps its reservation\<close>

lemma leaf_effect_live:
  "leaf_effect r r' \<Longrightarrow> lr_live r' = Some live' \<Longrightarrow> \<exists>live. lr_live r = Some live \<and> live_advances live live'"
  by (auto simp: leaf_effect_def)

lemma leaf_step_live:
  "leaf_step P draw r e r' \<Longrightarrow> lr_live r' = Some live' \<Longrightarrow> leaf_issued r (lv_attempt live') \<Longrightarrow>
    \<exists>live. lr_live r = Some live \<and> live_advances live live'"
proof (induction rule: leaf_step.induct)
  case (step_add_vault parts epoch r res r')
  then show ?case
    by (cases rule: add_vault_cases [of P parts epoch r]) auto
next
  case (step_reserve session now bs rb os parsed r res r')
  show ?case
  proof (cases rule: leaf_reserve_with_cases [of r P session now bs rb os parsed])
    case kept
    with step_reserve show ?thesis by (auto intro: leaf_effect_live)
  next
    case (issued reservation expiry vault nxt)
    with step_reserve show ?thesis by (auto simp: leaf_issued_def)
  qed
next
  case (step_activate_inner identity members r res r')
  then show ?case
    using activate_inner_bundle_frame [of P identity members r] by (auto simp: Let_def)
next
  case (step_activate_outer epoch member r res r')
  then show ?case
    using activate_outer_frame [of P epoch member r] by (cases "lr_live r") (auto simp: Let_def)
qed (metis leaf_effect_live snd_conv leaf_commit_effect leaf_reveal_effect leaf_fix_effect
    leaf_respond_with_effect leaf_close_effect leaf_receive_abort_effect leaf_close_expired_effect)+

definition reserved_for ::
  "leaf_attempt \<Rightarrow> ('s, 'g) live \<Rightarrow> ('s, 'g) leaf_registry \<Rightarrow> bool" where
  "reserved_for a start r \<longleftrightarrow> leaf_issued r a \<and> (\<forall>live. lr_live r = Some live \<longrightarrow> lv_attempt live = a \<longrightarrow>
     lv_session live = lv_session start \<and> lv_expiry live = lv_expiry start
     \<and> lv_reservation_bytes live = lv_reservation_bytes start \<and> lv_response live = lv_response start
     \<and> lv_reservation live = lv_reservation start)"

lemma leaf_step_reserved:
  assumes "leaf_step P draw r e r'" "reserved_for a start r"
  shows "reserved_for a start r'"
  unfolding reserved_for_def
proof (intro conjI allI impI)
  show "leaf_issued r' a"
    using leaf_issued_mono [OF leaf_step_progress [OF assms(1)]] assms(2) by (simp add: reserved_for_def)
  fix live' assume live': "lr_live r' = Some live'" "lv_attempt live' = a"
  then obtain live where "lr_live r = Some live" "live_advances live live'"
    using leaf_step_live [OF assms(1)] assms(2) by (auto simp: reserved_for_def)
  with live'(2) assms(2) show "lv_session live' = lv_session start" "lv_expiry live' = lv_expiry start"
    "lv_reservation_bytes live' = lv_reservation_bytes start" "lv_response live' = lv_response start"
    "lv_reservation live' = lv_reservation start"
    by (auto simp: reserved_for_def live_advances_def)
qed

lemma leaf_run_reserved: "leaf_run P draw r es r' \<Longrightarrow> reserved_for a start r \<Longrightarrow> reserved_for a start r'"
  by (induction rule: leaf_run.induct) (auto intro: leaf_step_reserved)

text \<open>The key of the reserved bytes is the one the reservation was accepted with.\<close>

lemma reserved_key:
  assumes "parse_tap_reservation P H bs expected outer = Inr (member, session, expiry)"
    and "reservation_key P H bs member session' expiry' = Inr key"
  obtains reservation where "tap_reservation_from_bytes P H bs outer = Inr (reservation, session, expiry)"
    "tr_member reservation = member" "tr_key reservation = key" "tk_output key = expected"
proof -
  obtain reservation where r: "tap_reservation_from_bytes P H bs outer = Inr (reservation, session, expiry)"
    "tr_member reservation = member" "tk_output (tr_key reservation) = expected"
    using assms(1) by (auto simp: parse_tap_reservation_def result_simps split: if_splits)
  moreover from this assms(2) have "tr_key reservation = key"
    by (auto simp: tap_reservation_from_bytes_def tap_reservation_new_def reservation_key_def result_simps
        split: if_splits)
  ultimately show thesis using that by blast
qed

lemma taproot_response_bound:
  assumes "leaf_reserve_taproot P H session now bs expected outer r = (Inr a, r1)" "lr_live r = None"
    and "leaf_run P draw r1 es r2" "leaf_respond_taproot P H a package_bytes r2 = (Inr response, r3)"
  obtains reservation expiry package where
    "tap_reservation_from_bytes P H bs outer = Inr (reservation, session, expiry)"
    "tap_package_from_bytes P H package_bytes = Inr package"
    "tp_key package = tr_key reservation" "tk_output (tp_key package) = expected"
    "package_prepackage (tp_root package) = rv_prepackage (tr_member reservation)" "leaf_is_closed r3 a"
proof -
  let ?parsed = "parse_tap_reservation P H bs expected outer"
  obtain reservation expiry vault nxt where issued: "?parsed = Inr (reservation, session, expiry)"
    "checked_succ (lr_next_sequence r) = Some nxt"
    "a = \<lparr>la_device = lr_device r, la_sequence = lr_next_sequence r\<rparr>"
    "r1 = r\<lparr>lr_next_sequence := nxt, lr_live := Some
       \<lparr>lv_attempt = \<lparr>la_device = lr_device r, la_sequence = lr_next_sequence r\<rparr>,
        lv_session = session, lv_vault = vault, lv_expiry = expiry, lv_reservation_bytes = bs,
        lv_response = taproot_binding expected, lv_reservation = Some reservation, lv_commit = None,
        lv_reveal = None, lv_fixed = None\<rparr>\<rparr>"
  proof (cases rule: leaf_reserve_with_cases [of r P session now bs "taproot_binding expected" outer ?parsed])
    case kept
    then show thesis using assms(1,2) by (simp add: leaf_reserve_taproot_def leaf_live_attempt_def)
  next
    case (issued reservation expiry vault nxt)
    from issued(6) assms(1) have "a = \<lparr>la_device = lr_device r, la_sequence = lr_next_sequence r\<rparr>"
      by (simp add: leaf_reserve_taproot_def)
    with issued assms(1) show thesis
      by (intro that [of reservation expiry nxt vault]) (simp_all add: leaf_reserve_taproot_def)
  qed
  obtain start where start: "lr_live r1 = Some start" "lv_reservation_bytes start = bs"
    "lv_reservation start = Some reservation" "lv_attempt start = a"
    using issued(3,4) by auto
  have "reserved_for a start r1"
    using start checked_succ_less [OF issued(2)] issued(3,4) by (auto simp: reserved_for_def leaf_issued_def)
  then have kept: "reserved_for a start r2" by (rule leaf_run_reserved [OF assms(3)])
  obtain live nonces nonce member share where l: "lr_live r2 = Some live" "lv_attempt live = a"
    "lv_reservation live = Some member" "r3 = r2\<lparr>lr_live := None\<rparr>"
    and answer: "taproot_response P H package_bytes \<lparr>ri_nonce = nonce, ri_reservation = member,
      ri_nonces = nonces, ri_device = lr_device r2, ri_share = share, ri_session = lv_session live,
      ri_expiry = lv_expiry live\<rparr> (lv_reservation_bytes live) = Inr response"
    using respond_Inr [OF assms(4) [unfolded leaf_respond_taproot_def]] by blast
  with kept start have same: "lv_reservation_bytes live = bs" "member = reservation"
    and closed: "leaf_is_closed r3 a"
    by (auto simp: reserved_for_def leaf_is_closed_iff leaf_issued_def leaf_live_attempt_def)
  obtain key package transcript where p: "reservation_key P H bs reservation (lv_session live) (lv_expiry live) = Inr key"
    "tap_package_from_bytes P H package_bytes = Inr package" "tp_key package = key"
    "transcript_finalize (tp_root package) reservation = Inr transcript"
    using answer by (auto simp: taproot_response_def same result_simps split: if_splits)
  obtain whole where w: "tap_reservation_from_bytes P H bs outer = Inr (whole, session, expiry)"
    "tr_member whole = reservation" "tr_key whole = key" "tk_output key = expected"
    by (rule reserved_key [OF issued(1) p(1)])
  show thesis
    using p w closed by (intro that [of whole expiry package]) (auto simp: transcript_finalize_def split: if_splits)
qed

end
