(* ===== verification/Ksnf_Taproot_Demo.thy ===== *)
theory Ksnf_Taproot_Demo
  imports Ksnf_Taproot_Proofs Ksnf_Taproot_Codec Ksnf_Taproot_Leaf Ksnf_Leaf_Demo
begin

text \<open>
  The fixture's Taproot run: its key is odd and so is the moved key, so that both signs matter.
\<close>

section \<open>Key and package\<close>

definition toy_hashes :: "gf7 tap_hashes" where
  "toy_hashes = \<lparr>th_sha256 = \<lambda>_. toy_scalar_bytes (gf 2), th_reduce = \<lambda>_. gf 2\<rparr>"

lemma toy_sec1_ok: "sec1_ok toy_profile"
  unfolding sec1_ok_def
proof (intro conjI allI impI)
  fix g :: gf7
  assume "g \<noteq> 0"
  then show "\<exists>x. gc_enc_point toy_profile g = 2 # x \<and> gc_enc_point toy_profile (- g) = 3 # x
      \<or> gc_enc_point toy_profile g = 3 # x \<and> gc_enc_point toy_profile (- g) = 2 # x"
    by (auto simp: toy_point_bytes_def gf_val_uminus)
qed simp

definition demo_tap_key :: "gf7 tap_key" where
  "demo_tap_key = \<lparr>tk_vault = toy_point_bytes (gf 5), tk_merkle_root = None, tk_internal_sign = Negative,
     tk_output_sign = Negative, tk_tweak = gf 2, tk_output = toy_scalar_bytes (gf 3)\<rparr>"

lemma toy_point_signs [simp]:
  "toy_point_bytes (gf a) = (if a mod 7 \<le> 3 then 2 # toy_scalar_bytes (gf a) else 3 # toy_scalar_bytes (gf (- a)))"
  by (simp add: toy_point_bytes_def)

lemma demo_tap_key_new: "tap_key_new toy_profile toy_hashes (gf 5) None = Inr demo_tap_key"
  by (simp add: tap_key_new_def even_normalize_def point_to_bytes_def point_new_def tap_tweak_def tagged_hash_def
      toy_hashes_def demo_tap_key_def x_only_def x_only_bytes_def ok_or_def)

definition demo_package :: "(gf7, gf7) tap_package" where
  "demo_package = \<lparr>tp_root = demo_root, tp_key = demo_tap_key\<rparr>"

lemma demo_root_fields: "rt_key demo_root = gf 5" "rt_message demo_root = demo_message"
  "rt_entries demo_root =
     [\<lparr>re_record = \<lparr>rc_slot = 1, rc_member = gf 1, rc_commitment = gf 3\<rparr>,
       re_nonce = \<lparr>np_hiding = gf 3, np_binding = gf 2\<rparr>\<rparr>,
      \<lparr>re_record = \<lparr>rc_slot = 2, rc_member = gf 4, rc_commitment = gf 3\<rparr>,
       re_nonce = \<lparr>np_hiding = gf 1, np_binding = gf 2\<rparr>\<rparr>]"
  by (simp_all add: demo_root_def)

lemma demo_package_new: "tap_package_new toy_profile demo_root demo_tap_key = Inr demo_package"
  by (simp add: tap_package_new_def validate_profile_def demo_root_fields point_to_bytes_def demo_tap_key_def demo_package_def)

definition demo_package_wire :: bytes where
  "demo_package_wire = envelope_form package_kind demo_root_wire None"

lemma demo_root_wire_short: "length demo_root_wire < 2 ^ 10"
  using demo_root_short by (simp add: demo_root_wire(2))

lemma envelope_form_short: "length payload < 2 ^ 20 \<Longrightarrow> length (envelope_form kind payload None) < 2 ^ 21"
  by (simp add: envelope_form_def bytes_form_def tap_protocol_id_def ascii_bytes_def merkle_form_def put_u8_def)

lemma demo_package_wire: "tap_package_to_bytes toy_profile demo_package = Inr demo_package_wire"
  using demo_root_wire_short
  by (simp add: tap_package_to_bytes_def demo_package_def demo_root_wire encode_envelope_Inr demo_package_wire_def
      demo_tap_key_def)

lemma demo_package_short: "length demo_package_wire < 2 ^ 32"
  using envelope_form_short [of demo_root_wire package_kind] demo_root_wire_short
  by (simp add: demo_package_wire_def)

lemma demo_package_fields [simp]: "tp_root demo_package = demo_root" "tp_key demo_package = demo_tap_key"
  "tk_output demo_tap_key = toy_scalar_bytes (gf 3)"
  by (simp_all add: demo_package_def demo_tap_key_def)

section \<open>Signing\<close>

definition demo_tap :: "(gf7, gf7) tap_context" where
  "demo_tap = \<lparr>ts_package = demo_package, ts_bindings = [(1, gf 3), (2, gf 3)], ts_nonce = gf 2,
     ts_nonce_sign = Positive, ts_challenge = gf 2\<rparr>"

lemma demo_tap_new: "tap_context_new toy_profile toy_hashes demo_package = Inr demo_tap"
proof -
  have "tap_context_new toy_profile toy_hashes demo_package = Inr
      \<lparr>ts_package = demo_package, ts_bindings = [(1, gf 3), (2, gf 3)], ts_nonce = gf 2, ts_nonce_sign = Positive,
       ts_challenge = bip340_challenge toy_profile toy_hashes (gf 16) (gf 3) (tap_sighash demo_package)\<rparr>"
    using demo_package_short
    by (simp add: tap_context_new_def demo_package_wire put_bytes_def count_u16_def binding_factor_def
        aggregate_nonce_def point_new_def nonce_bind_def even_normalize_def point_to_bytes_def x_only_key_point_def
        lift_even_def point_from_bytes_def demo_root_fields toy_point_of_def)
  then show ?thesis by (simp add: demo_tap_def bip340_challenge_def toy_hashes_def)
qed

lemma demo_tap_respond:
  "tap_respond_device toy_profile demo_tap \<lparr>sn_hiding = gf 1, sn_binding = gf 1\<rparr> (demo_transcript demo_body)
     demo_nonces (Ident 20) (gf 3) = Inr (demo_response (Ident 20) 5)"
  "tap_respond_device toy_profile demo_tap \<lparr>sn_hiding = gf 2, sn_binding = gf 1\<rparr> (demo_transcript demo_body)
     demo_nonces (Ident 21) (gf 5) = Inr (demo_response (Ident 21) 0)"
  by (simp_all add: demo_signing_defs demo_tap_def demo_package_def demo_tap_key_def tap_respond_device_def
      tap_validate_inputs_def set_validate_support_def package_entry_def inner_participant_def
      nonce_commitments_def point_from_scalar_def point_new_def set_nonce_def inner_coefficient_of_def
      tap_binding_def set_attempt_def nonce_respond_def)

lemma demo_tap_aggregate:
  "tap_aggregate_member toy_profile demo_tap (demo_transcript demo_body) demo_nonces
     [demo_response (Ident 21) 0, demo_response (Ident 20) 5] = Inr \<lparr>mr_slot = 1, mr_scalar = gf 5\<rparr>"
  "tap_aggregate_member toy_profile demo_tap (demo_transcript demo_single_body) demo_single_nonces
     [demo_response (Ident 30) 3] = Inr \<lparr>mr_slot = 2, mr_scalar = gf 3\<rparr>"
  by (simp_all add: demo_signing_defs demo_tap_def demo_package_def demo_tap_key_def tap_aggregate_member_def
      tap_validate_inputs_def set_validate_support_def package_entry_def set_nonce_def
      inner_coefficient_of_def tap_binding_def set_attempt_def tap_verify_device_def tap_verify_member_def
      nonce_bind_def less_eq_ident_def less_ident_def)

section \<open>The leaf\<close>

definition demo_tap_reservation :: "(gf7, gf7) tap_reservation" where
  "demo_tap_reservation = \<lparr>tr_member = demo_reservation, tr_key = demo_tap_key\<rparr>"

definition demo_tap_bytes :: bytes where
  "demo_tap_bytes = envelope_form reservation_kind demo_bytes None"

lemma demo_tap_bytes:
  "tap_reservation_to_bytes toy_profile demo_tap_reservation (Ident 5) 77 = Inr demo_tap_bytes"
  "length demo_tap_bytes < 2 ^ 32"
  using envelope_form_short [OF demo_bytes(3), of reservation_kind] demo_bytes
  by (simp_all add: tap_reservation_to_bytes_def demo_tap_reservation_def encode_envelope_Inr demo_tap_bytes_def
      demo_tap_key_def)

lemma demo_key_fits: "key_fits toy_profile toy_hashes (gf 5) demo_message demo_tap_key"
  using demo_tap_key_new by (simp add: key_fits_def root_fits_def demo_tap_key_def)

lemma demo_reservation_fields:
  "rp_key (rv_prepackage demo_reservation) = gf 5" "rp_message (rv_prepackage demo_reservation) = demo_message"
  by (simp_all add: demo_reservation_def package_prepackage_def demo_root_fields)

lemma demo_tap_reservation_decode:
  "tap_reservation_from_bytes toy_profile toy_hashes demo_tap_bytes demo_outer =
     Inr (demo_tap_reservation, Ident 5, 77)"
  using demo_tap_bytes demo_reservation_ok demo_key_fits
    tap_reservation_from_bytes_iff [OF toy_group_ok, of demo_tap_bytes toy_hashes demo_outer demo_tap_reservation]
  by (simp add: demo_tap_reservation_def demo_reservation_fields)

lemma demo_package_decode:
  "tap_package_from_bytes toy_profile toy_hashes demo_package_wire = Inr demo_package"
proof -
  have "package_ok demo_root" by (simp add: package_ok_def demo_signing_defs)
  then show ?thesis
    using demo_package_wire demo_package_short demo_key_fits
      tap_package_from_bytes_iff [OF toy_group_ok, of demo_package_wire toy_hashes demo_package]
    by (simp add: demo_root_fields)
qed

abbreviation "demo_tap_fixed \<equiv> demo_fixed_of demo_tap_bytes (taproot_binding (toy_scalar_bytes (gf 3)))"

lemma demo_reserve_taproot:
  "leaf_reserve_taproot toy_profile toy_hashes (Ident 5) 1 demo_tap_bytes (toy_scalar_bytes (gf 3)) demo_outer demo_leaf =
     (Inr demo_own, demo_reserved_of demo_tap_bytes (taproot_binding (toy_scalar_bytes (gf 3))))"
  unfolding leaf_reserve_taproot_def
  by (rule demo_reserve_with)
    (simp add: parse_tap_reservation_def demo_tap_reservation_decode demo_tap_reservation_def)

lemma demo_tap_run:
  "leaf_run toy_profile demo_draw (demo_reserved_of demo_tap_bytes (taproot_binding (toy_scalar_bytes (gf 3)))) []
     demo_tap_fixed"
  by (rule demo_rounds [OF demo_tap_bytes(2)])

lemma demo_respond_taproot:
  "leaf_respond_taproot toy_profile toy_hashes demo_own demo_package_wire demo_tap_fixed =
     (Inr \<lparr>dr_attempt = demo_own, dr_scalar = gf 5\<rparr>, demo_final)"
proof -
  have "tap_respond_device toy_profile demo_tap \<lparr>sn_hiding = gf 1, sn_binding = gf 1\<rparr> (demo_transcript demo_body)
      demo_set (Ident 20) (gf 3) = Inr \<lparr>dr_attempt = demo_own, dr_scalar = gf 5\<rparr>"
    by (simp add: demo_signing_defs demo_tap_def demo_package_def demo_tap_key_def tap_respond_device_def
        tap_validate_inputs_def set_validate_support_def package_entry_def inner_participant_def
        nonce_commitments_def point_from_scalar_def point_new_def set_nonce_def inner_coefficient_of_def
        tap_binding_def set_attempt_def nonce_respond_def demo_set_def demo_pairs_def demo_own_def demo_sibling_def)
  moreover have "reservation_key toy_profile toy_hashes demo_tap_bytes demo_reservation (Ident 5) 77 = Inr demo_tap_key"
    using demo_key_fits demo_tap_bytes
    by (simp add: reservation_key_iff demo_tap_reservation_def demo_reservation_fields)
  moreover have "transcript_finalize demo_root demo_reservation = Inr (demo_transcript demo_body)"
    by (simp add: transcript_finalize_def demo_reservation_def demo_transcript_def)
  ultimately have "taproot_response toy_profile toy_hashes demo_package_wire demo_inputs demo_tap_bytes =
      Inr \<lparr>dr_attempt = demo_own, dr_scalar = gf 5\<rparr>"
    by (simp add: taproot_response_def demo_inputs_def demo_package_decode demo_tap_new)
  then show ?thesis
    unfolding leaf_respond_taproot_def by (intro demo_respond_with) (simp_all add: taproot_binding_def)
qed

end
