(* ===== verification/Ksnf_Taproot_Claims.thy ===== *)
theory Ksnf_Taproot_Claims
  imports Ksnf_Taproot_Demo
begin

text \<open>
  The guarantees of Taproot mode: aggregation always succeeds and its signature verifies under the
  output key, it is plain aggregation on moved keys and nonces, the envelopes are canonical, and a
  device answers only for the output key it was reserved for.
\<close>

text \<open>
  C4. Taproot signing is complete: when the member points of the support come from a polynomial
  whose constant is the vault key, and every response is what the Taproot aggregation of a member
  of the support returned, the aggregation returns a signature, and it verifies under the x-only
  output key the vault key and the Merkle root determine - whatever signs the even lifts of the
  internal key, the output key and the nonce need.
\<close>

theorem taproot_signing_complete:
  assumes "group_ok P" "sec1_ok P" "outer_support_new people = Inr support"
    and "rt_key root \<noteq> 0" "tap_key_new P H (rt_key root) merkle_root = Inr key"
    and "tap_package_new P root key = Inr package" "tap_context_new P H package = Inr s"
    and "package_validate_support root support = Inr ()"
    and "set people \<subseteq> {p. pp_member p = evaluate_commitments P (rt_key root # gs) (pp_node p)}"
    and "length gs < length people"
    and "length rs = length people" "distinct (map mr_slot rs)"
    and "set rs \<subseteq> {r. \<exists>t nonces responses. tap_aggregate_member P s t nonces responses = Inr r
      \<and> outer_coefficient_of support (ocf_person (bd_outer (mt_body t))) = Inr (bd_outer (mt_body t))
      \<and> bd_member (mt_body t) = ocf_member (bd_outer (mt_body t))}"
  shows "\<exists>signature. tap_aggregate_signature P H s support rs = Inr signature
    \<and> tap_signature_verify P H signature (tk_output key) (rt_message root) = Inr ()"
proof -
  note sup = outer_support_key [OF assms(1,3,9,10)]
  have made: "tap_made P s support r" if "r \<in> set rs" for r
    using assms(13) that unfolding tap_made_def by blast
  have len: "length rs = length (os_participants support)" by (simp add: sup(3) assms(11))
  show ?thesis
    by (rule tap_signing_completes [OF assms(1,2) sup(1) assms(5,4,6,7,8) sup(2) len assms(12) made])
qed

theorem taproot_signing_complete_witness:
  "\<exists>signature. tap_aggregate_signature toy_profile toy_hashes demo_tap demo_outer
     [\<lparr>mr_slot = 2, mr_scalar = gf 3\<rparr>, \<lparr>mr_slot = 1, mr_scalar = gf 5\<rparr>] = Inr signature
    \<and> tap_signature_verify toy_profile toy_hashes signature (toy_scalar_bytes (gf 3)) demo_message = Inr ()"
proof -
  let ?rs = "[\<lparr>mr_slot = 2, mr_scalar = gf 3\<rparr>, \<lparr>mr_slot = 1, mr_scalar = gf 5\<rparr>]"
  have "\<exists>signature. tap_aggregate_signature toy_profile toy_hashes demo_tap demo_outer ?rs = Inr signature
    \<and> tap_signature_verify toy_profile toy_hashes signature (tk_output demo_tap_key) (rt_message demo_root) = Inr ()"
  proof (rule taproot_signing_complete [where gs = "[gf 3]" and merkle_root = None,
        OF toy_group_ok toy_sec1_ok demo_outer_new _ _ demo_package_new demo_tap_new])
    have "outer_coefficient_of demo_outer (ocf_person (bd_outer (mt_body (demo_transcript b)))) =
        Inr (bd_outer (mt_body (demo_transcript b)))
      \<and> bd_member (mt_body (demo_transcript b)) = ocf_member (bd_outer (mt_body (demo_transcript b)))"
      if "b = demo_body \<or> b = demo_single_body" for b
      using that by (auto simp: outer_coefficient_of_def demo_signing_defs)
    then show "set ?rs \<subseteq>
      {r. \<exists>t nonces responses. tap_aggregate_member toy_profile demo_tap t nonces responses = Inr r
        \<and> outer_coefficient_of demo_outer (ocf_person (bd_outer (mt_body t))) = Inr (bd_outer (mt_body t))
        \<and> bd_member (mt_body t) = ocf_member (bd_outer (mt_body t))}"
      using demo_tap_aggregate by auto
    show "package_validate_support demo_root demo_outer = Inr ()"
      by (simp add: package_validate_support_def demo_root_def demo_outer_def demo_people_def)
  qed (simp_all add: demo_people_def demo_root_fields demo_tap_key_new evaluate_commitments_def gf_zero)
  then show ?thesis by (simp add: demo_root_fields)
qed

text \<open>
  C12. Taproot aggregation of a member is plain aggregation of moved values: with the member's shares
  moved by the signs and the tweak, its nonces by the nonce's sign and the challenge by the output's
  sign, plain aggregation checks the same responses and returns the same result - and both are
  complete on the responses the support's devices compute, when the public shares of the support
  come from the member's polynomial.
\<close>

theorem taproot_member_plain:
  assumes "group_ok P" "inner_support_new ps = Inr (bd_inner (mt_body t))"
    and "device_nonce_set_new (bd_inner (mt_body t)) entries = Inr nonces"
    and "set ps \<subseteq> {p. dp_share p = evaluate_commitments P (bd_member (mt_body t) # gs) (dp_node p)}"
    and "length gs < length ps"
    and "length rs = length ps" "distinct (map dr_device rs)"
    and "set rs \<subseteq> {r. \<exists>nonce device share. tap_respond_device P s nonce t nonces device share = Inr r}"
  shows "tap_aggregate_member P s t nonces rs =
      Inr \<lparr>mr_slot = bd_slot (mt_body t), mr_scalar = \<Sum>r\<leftarrow>rs. dr_scalar r\<rparr>
    \<and> aggregate_member P (signed_transcript P s t) (signed_context P s)
        (signed_set P (ts_nonce_sign s) nonces) rs = tap_aggregate_member P s t nonces rs"
proof -
  note support = inner_support_key [OF assms(1,2,4,5)]
  have nonces: "nonce_set_ok (bd_inner (mt_body t)) nonces"
    using device_nonce_set_new_Inr [OF assms(3)] by simp
  have made: "\<exists>nonce d share. tap_respond_device P s nonce t nonces d share = Inr r" if "r \<in> set rs" for r
    using assms(8) that by blast
  have len: "length rs = length (is_participants (bd_inner (mt_body t)))" using assms(6) by (simp add: support(3))
  then have "rs \<noteq> []" using support(1) by (auto simp: inner_support_ok_def)
  then have "tap_validate_inputs s t nonces = Inr ()"
    using made [of "hd rs"] tap_respond_plain(1) [OF assms(1)] by fastforce
  then show ?thesis
    using tap_member_completes [OF assms(1) support(1) nonces support(2) len assms(7) made]
      tap_aggregate_member_plain [OF assms(1)] by simp
qed

theorem taproot_member_plain_witness:
  "tap_aggregate_member toy_profile demo_tap (demo_transcript demo_body) demo_nonces
     [demo_response (Ident 21) 0, demo_response (Ident 20) 5] = Inr \<lparr>mr_slot = 1, mr_scalar = gf 5\<rparr>"
proof -
  have body: "mt_body (demo_transcript demo_body) = demo_body" "bd_inner demo_body = demo_inner"
    "bd_member demo_body = gf 1" "bd_slot demo_body = 1"
    by (simp_all add: demo_transcript_def demo_body_def)
  let ?rs = "[demo_response (Ident 21) 0, demo_response (Ident 20) 5]"
  have "tap_aggregate_member toy_profile demo_tap (demo_transcript demo_body) demo_nonces ?rs =
      Inr \<lparr>mr_slot = bd_slot (mt_body (demo_transcript demo_body)), mr_scalar = \<Sum>r\<leftarrow>?rs. dr_scalar r\<rparr>"
  proof (rule taproot_member_plain [where gs = "[gf 2]", THEN conjunct1, OF toy_group_ok])
    show "inner_support_new (rev demo_devices) = Inr (bd_inner (mt_body (demo_transcript demo_body)))"
      by (simp add: body demo_inner_new)
    show "device_nonce_set_new (bd_inner (mt_body (demo_transcript demo_body)))
        (dns_entries demo_nonces) = Inr demo_nonces"
      by (simp add: body demo_nonces_new)
    show "set ?rs \<subseteq> {r. \<exists>nonce device share. tap_respond_device toy_profile demo_tap nonce
        (demo_transcript demo_body) demo_nonces device share = Inr r}"
      using demo_tap_respond by auto
  qed (simp_all add: body demo_devices_def evaluate_commitments_def gf_zero demo_response_def demo_attempt_def)
  then show ?thesis by (simp add: body demo_response_def)
qed

text \<open>
  C20. The Taproot envelopes are canonical: bytes decode exactly to the package, and to the
  reservation, they encode - with a 32-byte signature hash, an absent or 32-byte Merkle root, and
  the key that the root key and the Merkle root determine.
\<close>

theorem taproot_wire_canonical:
  assumes "group_ok P" "length bs < 2 ^ 64"
  shows "(tap_package_from_bytes P H bs = Inr p \<longleftrightarrow> package_ok (tp_root p)
      \<and> key_fits P H (rt_key (tp_root p)) (rt_message (tp_root p)) (tp_key p)
      \<and> tap_package_to_bytes P p = Inr bs)
    \<and> (tap_reservation_from_bytes P H bs support = Inr (r, session, expiry) \<longleftrightarrow>
      reservation_ok P support (tr_member r)
      \<and> key_fits P H (rp_key (rv_prepackage (tr_member r))) (rp_message (rv_prepackage (tr_member r))) (tr_key r)
      \<and> tap_reservation_to_bytes P r session expiry = Inr bs)"
  using tap_package_from_bytes_iff [OF assms] tap_reservation_from_bytes_iff [OF assms] by blast

theorem taproot_wire_canonical_witness:
  "tap_package_from_bytes toy_profile toy_hashes demo_package_wire = Inr demo_package
   \<and> tap_reservation_from_bytes toy_profile toy_hashes demo_tap_bytes demo_outer = Inr (demo_tap_reservation, Ident 5, 77)"
proof -
  have "package_ok demo_root" by (simp add: package_ok_def demo_signing_defs)
  then show ?thesis
    using demo_package_wire demo_package_short demo_key_fits demo_tap_bytes demo_reservation_ok
      taproot_wire_canonical [OF toy_group_ok, of demo_package_wire toy_hashes demo_package]
      taproot_wire_canonical [OF toy_group_ok, of demo_tap_bytes toy_hashes _ demo_outer demo_tap_reservation]
    by (simp add: demo_root_fields demo_tap_reservation_def demo_reservation_fields)
qed

text \<open>
  C10. A device answers only for the output key it was reserved for: after a Taproot reservation for
  an expected output key, whatever the registry does in between, a response of the attempt is to a
  package whose derived key is that of the reserved bytes and has that output key, with the reserved
  root key, signature hash, context and member records; and the attempt is closed.
\<close>

theorem taproot_output_bound:
  assumes "leaf_reserve_taproot P H session now bs expected outer r = (Inr a, r1)" "lr_live r = None"
    and "leaf_run P draw r1 es r2" "leaf_respond_taproot P H a package_bytes r2 = (Inr response, r3)"
  shows "\<exists>reservation expiry package.
    tap_reservation_from_bytes P H bs outer = Inr (reservation, session, expiry)
    \<and> tap_package_from_bytes P H package_bytes = Inr package
    \<and> tp_key package = tr_key reservation \<and> tk_output (tp_key package) = expected
    \<and> package_prepackage (tp_root package) = rv_prepackage (tr_member reservation) \<and> leaf_is_closed r3 a"
  using taproot_response_bound [OF assms] by metis

theorem taproot_output_bound_witness: "leaf_is_closed demo_final demo_own"
proof -
  have "lr_live demo_leaf = None" by (simp add: demo_leaf_def)
  from taproot_output_bound [OF demo_reserve_taproot this demo_tap_run demo_respond_taproot]
  show ?thesis by blast
qed

end
