(* ===== verification/Ksnf_Ceremony.thy ===== *)
theory Ksnf_Ceremony
  imports Ksnf_Signing_Complete Ksnf_Leaf_Proofs Ksnf_Genesis_Proofs Ksnf_Leaf_Demo
begin

text \<open>
  A whole ceremony of a genesis vault: devices that answer through their registries, the members
  they make up, and the outer support. The root theory states what comes of it.
\<close>

section \<open>Members and their answers\<close>

text \<open>A response some registry gave to the package's bytes, for its live attempt's reservation and nonces.\<close>

definition leaf_answered ::
  "('s::field, 'g::ab_group_add) profile \<Rightarrow> bytes \<Rightarrow> ('s, 'g) member_transcript \<Rightarrow> 'g device_nonce_set
     \<Rightarrow> 's device_response \<Rightarrow> bool" where
  "leaf_answered P root_bytes t nonces x \<longleftrightarrow> (\<exists>root r r' a live reservation fixed.
     package_from_bytes P root_bytes = Inr root \<and> transcript_finalize root reservation = Inr t
     \<and> leaf_respond P a root_bytes r = (Inr x, r') \<and> lr_live r = Some live
     \<and> lv_reservation live = Some reservation \<and> lv_fixed live = Some fixed \<and> fx_nonces fixed = nonces)"

lemma leaf_answered_responds:
  assumes "leaf_answered P root_bytes t nonces x" "package_from_bytes P root_bytes = Inr root"
    and "signing_context_new P root = Inr s"
  obtains nonce d share where "respond_device P nonce t s nonces d share = Inr x" "mt_root t = root"
proof -
  obtain r r' a live reservation fixed where "transcript_finalize root reservation = Inr t"
    "leaf_respond P a root_bytes r = (Inr x, r')" and live: "lr_live r = Some live"
    "lv_reservation live = Some reservation" "lv_fixed live = Some fixed" "fx_nonces fixed = nonces"
    using assms(1,2) by (auto simp: leaf_answered_def)
  then have root: "mt_root t = root"
    by (auto simp: transcript_finalize_def if_Inl_eq_Inr)
  have "\<exists>nonce d share. respond_device P nonce t s nonces d share = Inr x"
    using respond_Inr [OF \<open>leaf_respond P a root_bytes r = (Inr x, r')\<close> [unfolded leaf_respond_def]] assms(2,3)
      \<open>transcript_finalize root reservation = Inr t\<close> live root
    by (auto simp: plain_response_def and_then_Inr_iff if_Inl_eq_Inr)
  then show thesis using that root by blast
qed

text \<open>
  A member of a genesis vault that answered: a support genesis hands out for one of its people, its
  coefficient in the outer support, a nonce set over the support, and one answer per device.
\<close>

definition member_answered ::
  "('s::field, 'g::ab_group_add) profile \<Rightarrow> ('s, 'g) public_genesis \<Rightarrow> ('s, 'g) outer_support \<Rightarrow> bytes
     \<Rightarrow> ('s, 'g) member_transcript \<Rightarrow> 'g device_nonce_set \<Rightarrow> 's device_response list \<Rightarrow> bool" where
  "member_answered P g support root_bytes t nonces rs \<longleftrightarrow> (\<exists>person devices entries.
     genesis_inner_support g person devices = Inr (bd_inner (mt_body t))
     \<and> outer_coefficient_of support person = Inr (bd_outer (mt_body t))
     \<and> bd_member (mt_body t) = ocf_member (bd_outer (mt_body t))
     \<and> device_nonce_set_new (bd_inner (mt_body t)) entries = Inr nonces
     \<and> length rs = length devices \<and> distinct (map dr_device rs)
     \<and> (\<forall>x \<in> set rs. leaf_answered P root_bytes t nonces x))"

lemma genesis_inner_member:
  assumes P: "group_ok P" and g: "genesis_built P g" and outer: "genesis_outer_support g people = Inr support"
    and inner: "genesis_inner_support g person devices = Inr inner"
    and c: "outer_coefficient_of support person = Inr c"
  shows "inner_support_ok inner" "inner_key P inner = ocf_member c" "ocf_person c = person"
    "length (is_participants inner) = length devices"
proof -
  have ok: "genesis_ok P g" by (rule genesis_builtD(1) [OF g])
  obtain q where q: "genesis_person g person = Inr q" "gq_threshold q = length devices"
    using inner by (auto simp: genesis_inner_support_def and_then_Inr_iff if_Inl_eq_Inr)
  note built = genesis_inner_support_built [OF P g q(1) inner]
  note outer' = genesis_outer_support_built [OF P g outer]
  obtain p where p: "p \<in> set (os_participants support)" "pp_person p = person" "ocf_person c = person"
    "ocf_member c = pp_member p"
    using outer_coefficient_of_Inr [OF outer'(1) c] by blast
  then obtain q' where "q' \<in> set (vg_people g)" "gq_person q' = person" "pp_member p = member_point q'"
    using outer'(5) by fastforce
  then have "genesis_person g person = Inr q'" by (simp add: genesis_person_Inr [OF ok])
  with q(1) have "q' = q" by simp
  with built p \<open>pp_member p = member_point q'\<close> q(2)
  show "inner_support_ok inner" "inner_key P inner = ocf_member c" "ocf_person c = person"
    "length (is_participants inner) = length devices" by simp_all
qed

lemma member_answered_aggregates:
  assumes P: "group_ok P" and g: "genesis_built P g" and outer: "genesis_outer_support g people = Inr support"
    and root: "package_from_bytes P root_bytes = Inr root" and ctx: "signing_context_new P root = Inr s"
    and m: "member_answered P g support root_bytes t nonces rs"
  obtains r where "aggregate_member P t s nonces rs = Inr r" "mr_slot r = bd_slot (mt_body t)"
    "member_made P s support r"
proof -
  obtain person devices entries where d: "genesis_inner_support g person devices = Inr (bd_inner (mt_body t))"
    "outer_coefficient_of support person = Inr (bd_outer (mt_body t))"
    "bd_member (mt_body t) = ocf_member (bd_outer (mt_body t))"
    "device_nonce_set_new (bd_inner (mt_body t)) entries = Inr nonces"
    "length rs = length devices" "distinct (map dr_device rs)"
    and answered: "\<And>x. x \<in> set rs \<Longrightarrow> leaf_answered P root_bytes t nonces x"
    using m by (auto simp: member_answered_def)
  note inner = genesis_inner_member [OF P g outer d(1,2)]
  have nonces: "nonce_set_ok (bd_inner (mt_body t)) nonces" using device_nonce_set_new_Inr [OF d(4)] by simp
  have made: "\<exists>nonce d share. respond_device P nonce t s nonces d share = Inr x" if "x \<in> set rs" for x
    using leaf_answered_responds [OF answered [OF that] root ctx] by metis
  have "aggregate_member P t s nonces rs =
      Inr \<lparr>mr_slot = bd_slot (mt_body t), mr_scalar = \<Sum>r\<leftarrow>rs. dr_scalar r\<rparr>"
    using member_completes [OF P inner(1) nonces _ _ d(6) made] inner(2,4) d(3,5) by simp
  then show thesis
    using that d(2,3) inner(3) unfolding member_made_def by fastforce
qed

section \<open>The fixture's ceremony\<close>

text \<open>A registry that answers as the device's equation does.\<close>

lemma demo_answer:
  assumes "respond_device toy_profile nonce t demo_signing nonces d share = Inr x"
    and t: "transcript_finalize demo_root reservation = Inr t"
  shows "leaf_answered toy_profile demo_root_wire t nonces x"
proof -
  let ?a = "\<lparr>la_device = d, la_sequence = 0\<rparr>"
  let ?live = "demo_live\<lparr>lv_attempt := ?a, lv_reservation := Some reservation,
    lv_commit := Some (demo_commit_state\<lparr>ct_nonce := Some nonce\<rparr>),
    lv_fixed := Some \<lparr>fx_bytes = [], fx_nonces = nonces\<rparr>\<rparr>"
  let ?r = "demo_leaf\<lparr>lr_device := d, lr_identity := share, lr_next_sequence := 1, lr_live := Some ?live\<rparr>"
  have "mt_root t = demo_root" using t by (auto simp: transcript_finalize_def if_Inl_eq_Inr)
  then have resp: "plain_response toy_profile demo_root_wire \<lparr>ri_nonce = nonce, ri_reservation = reservation,
      ri_nonces = nonces, ri_device = d, ri_share = share, ri_session = Ident 5, ri_expiry = 77\<rparr> demo_bytes = Inr x"
    using assms by (simp add: plain_response_def demo_root_wire demo_signing_new)
  have live: "lr_live ?r = Some ?live" "lv_attempt ?live = ?a" by simp_all
  have "leaf_respond toy_profile ?a demo_root_wire ?r = (Inr x, ?r\<lparr>lr_live := None\<rparr>)"
    using take_live_live [OF live] resp
    by (simp add: leaf_respond_def leaf_respond_with_def demo_live_def plain_binding_def demo_leaf_def
        signing_share_def demo_vault_def)
  then show ?thesis
    unfolding leaf_answered_def using t demo_root_wire(1) live(1)
    by (intro exI [of _ demo_root] exI [of _ ?r] exI [of _ "?r\<lparr>lr_live := None\<rparr>"] exI [of _ ?a] exI [of _ ?live]
        exI [of _ reservation] exI [of _ "\<lparr>fx_bytes = [], fx_nonces = nonces\<rparr>"]) simp
qed

lemma demo_finalize:
  "transcript_finalize demo_root \<lparr>rv_prepackage = package_prepackage demo_root,
     rv_opening = \<lparr>op_salt = gf 1, op_body = b\<rparr>\<rparr> = Inr (demo_transcript b)"
  by (simp add: transcript_finalize_def demo_transcript_def)

lemma demo_single_respond:
  "respond_device toy_profile \<lparr>sn_hiding = gf 1, sn_binding = gf 2\<rparr> (demo_transcript demo_single_body)
     demo_signing demo_single_nonces (Ident 30) (gf 4) = Inr (demo_response (Ident 30) 2)"
  by (simp add: demo_signing_defs respond_device_def validate_member_inputs_def
      set_validate_support_def package_entry_def inner_participant_def nonce_commitments_def
      point_from_scalar_def point_new_def set_nonce_def inner_coefficient_of_def context_binding_def
      set_attempt_def nonce_respond_def)

lemma demo_genesis_single: "genesis_inner_support demo_genesis (Ident 2) [Ident 30] = Inr demo_single"
  by (simp add: genesis_inner_support_def genesis_person_def gq_threshold_def gp_threshold_def
      gq_device_def demo_genesis_def demo_first_def demo_second_def demo_polynomial_def demo_single_def
      inner_support_new_def reject_duplicate_devices_def lagrange_at_zero_def validate_support_def
      lagrange_products_def field_invert_def)

lemma demo_single_nonces_new:
  "device_nonce_set_new demo_single (dns_entries demo_single_nonces) = Inr demo_single_nonces"
  by (simp add: demo_signing_defs device_nonce_set_new_def sum_nonce_pairs_def point_new_def gf_zero)

lemma demo_member_answered:
  "member_answered toy_profile demo_genesis demo_outer demo_root_wire (demo_transcript demo_body) demo_nonces
     [demo_response (Ident 21) 3, demo_response (Ident 20) 5]"
  "member_answered toy_profile demo_genesis demo_outer demo_root_wire (demo_transcript demo_single_body)
     demo_single_nonces [demo_response (Ident 30) 2]"
proof -
  have "outer_coefficient_of demo_outer (Ident 1) = Inr (bd_outer demo_body)"
    "outer_coefficient_of demo_outer (Ident 2) = Inr (bd_outer demo_single_body)"
    "bd_inner demo_body = demo_inner" "bd_inner demo_single_body = demo_single"
    "mt_body (demo_transcript b) = b" for b
    by (simp_all add: outer_coefficient_of_def demo_body_def demo_single_body_def demo_outer_def demo_people_def
        demo_transcript_def)
  note body = this
  have first: "leaf_answered toy_profile demo_root_wire (demo_transcript demo_body) demo_nonces x"
    if "x \<in> set [demo_response (Ident 21) 3, demo_response (Ident 20) 5]" for x
    using that demo_answer [OF demo_respond(1) demo_finalize] demo_answer [OF demo_respond(2) demo_finalize] by auto
  show "member_answered toy_profile demo_genesis demo_outer demo_root_wire (demo_transcript demo_body) demo_nonces
      [demo_response (Ident 21) 3, demo_response (Ident 20) 5]"
    unfolding member_answered_def using first demo_genesis_inner demo_nonces_new
    by (intro exI [of _ "Ident 1"] exI [of _ "[Ident 21, Ident 20]"] exI [of _ "dns_entries demo_nonces"])
      (simp add: body, simp add: demo_body_def demo_response_def demo_attempt_def)
  show "member_answered toy_profile demo_genesis demo_outer demo_root_wire (demo_transcript demo_single_body)
      demo_single_nonces [demo_response (Ident 30) 2]"
    unfolding member_answered_def
    using demo_answer [OF demo_single_respond demo_finalize] demo_genesis_single demo_single_nonces_new
    by (intro exI [of _ "Ident 2"] exI [of _ "[Ident 30]"] exI [of _ "dns_entries demo_single_nonces"])
      (simp add: body, simp add: demo_single_body_def)
qed

end
