(* ===== verification/Spec2Isabelle.thy ===== *)
theory Spec2Isabelle
  imports Ksnf_Log_Claims Ksnf_Exposure_Claims Ksnf_Signing_Claims Ksnf_Leaf_Claims
    Ksnf_Dealing_Claims Ksnf_Store_Claims Ksnf_Taproot_Claims Ksnf_Ceremony
begin

text \<open>
  A verification development for coupery-ksnf, a Rust library for nested threshold Schnorr
  signing: a vault key is shared among people, each person's member key among the person's
  devices. Paths below are relative to \<open>src/src/\<close>.

  \<^bold>\<open>The program.\<close> A vault starts from an imported public genesis. For one signature the devices of a
  threshold of every chosen person reserve an attempt, commit to nonces, exchange authenticated
  views, fix the nonce set and answer a root package; a person's answers aggregate into a member
  response and the member responses into a signature, in plain or Taproot mode. A device answers
  through its registry, which permits one live attempt and one answer per attempt, and whose counter
  and lock are kept durable by a store. Shares move to new devices by redistribution transcripts,
  activated through an append-only log and then installed into the registries. A ledger audits which
  corrupted devices cover which blocks.

  \<^bold>\<open>Theories and sources.\<close>
  \<^item> \<open>Ksnf_Prelude\<close>: results as sums (\<open>and_then\<close>, \<open>map_err\<close>, \<open>ok_or\<close>, \<open>collect_results\<close>), adjacent windows,
    prior-element scans, ordered maps as sorted association lists, big-endian bytes, and the
    collections \<open>result_simps\<close>, \<open>record_eqs\<close> and \<open>codec_simps\<close>.
  \<^item> \<open>Ksnf_Types\<close> (\<open>error.rs\<close>, \<open>types.rs\<close>), \<open>Ksnf_Profile\<close> (\<open>profile.rs\<close>, \<open>algebra.rs\<close>, \<open>hash.rs\<close>),
    \<open>Ksnf_Encoding\<close> (\<open>encoding.rs\<close>), \<open>Ksnf_Shamir\<close> (\<open>shamir.rs\<close>), \<open>Ksnf_Support\<close> (\<open>support.rs\<close>, \<open>keys.rs\<close>).
  \<^item> \<open>Ksnf_Nonce\<close> and \<open>Ksnf_Signing\<close> (\<open>signing.rs\<close>, \<open>signing/hazmat.rs\<close>), \<open>Ksnf_Transcript\<close> (\<open>transcript.rs\<close>).
  \<^item> \<open>Ksnf_Log\<close> (\<open>log_act.rs\<close>), \<open>Ksnf_Exposure\<close> (\<open>exposure.rs\<close>), \<open>Ksnf_Genesis\<close> (\<open>genesis.rs\<close>),
    \<open>Ksnf_Auth\<close> (\<open>auth.rs\<close>).
  \<^item> \<open>Ksnf_Leaf\<close> and \<open>Ksnf_Activation\<close> (\<open>leaf.rs\<close>): the registry as a record \<open>leaf_registry\<close>, one function
    per method from registry to result and registry; the second has the installation of shares.
  \<^item> \<open>Ksnf_Record\<close>, \<open>Ksnf_Store\<close>, \<open>Ksnf_Persistent\<close> (\<open>leaf/store/record.rs\<close>, \<open>leaf/store.rs\<close>,
    \<open>leaf/store/persistent.rs\<close>): storage records, the trait \<open>LeafStore\<close> as a record of operations with
    its in-memory implementation, and the leaf whose registry is written through it.
  \<^item> \<open>Ksnf_Shape\<close>, \<open>Ksnf_Contribution\<close>, \<open>Ksnf_Target\<close>, \<open>Ksnf_Candidate\<close> (\<open>dealing/\<close>): commands, contributions,
    accumulators, and the candidate and bundle state machines over any implementation of \<open>LogAct\<close>.
  \<^item> \<open>Ksnf_Taproot\<close>, \<open>Ksnf_Taproot_Sign\<close> and the entry points in \<open>Ksnf_Taproot_Leaf\<close> (\<open>taproot/\<close>).
  \<^item> \<open>_Proofs\<close>, \<open>_Support\<close>, \<open>_Complete\<close>, \<open>_Run\<close>, \<open>_Points\<close>, \<open>_Codec\<close> theories hold the lemmas of a component,
    \<open>_Demo\<close> theories and \<open>Ksnf_Fixture\<close> a concrete instance (the field of seven elements as its own
    group), and \<open>_Claims\<close> theories the properties, each with a witness on that instance.

  \<^bold>\<open>Interfaces.\<close> The locale \<open>codec\<close> is the law of a pair of encoder and decoder; \<open>horner\<close> that of scalars
  acting on a group, for polynomials with scalar and with public coefficients; \<open>log_contract\<close> what
  \<open>LogAct\<close> promises its clients about decisions; \<open>store_contract\<close> what \<open>LeafStore\<close> promises: journals
  change only by an exact compare-and-set, material is content-addressed, and a failed call may or may
  not have written. \<open>memory_act\<close> and \<open>memory_leaf_store\<close> interpret the last two.

  \<^bold>\<open>What is shown.\<close>
  \<^item> Log: one successor per predecessor, stale commands stay frozen, activation is atomic, idempotent and
    gets a fresh handle (the allocator's loop is the recursion \<open>fresh_handle\<close>, which ends by counting the
    finitely many handles in use).
  \<^item> Signing: responses made by the devices always aggregate and verify, at both levels; all wire forms
    decode exactly what they encode; the section below composes this from genesis to a signature.
  \<^item> Registry: \<open>leaf_step\<close> is the step relation over every operation, \<open>leaf_run\<close> its runs; no attempt is
    answered twice, an attempt refines a four-stage machine (\<open>leaf_refines_attempt\<close>), a failed round closes it, the
    counter does not wrap. The parser of a reservation and the response function are arbitrary in a step,
    so Taproot runs are covered; \<open>taproot_output_bound\<close> adds what Taproot mode binds.
  \<^item> Durability: \<open>store_run\<close> interleaves any leaves of any devices over one store, at the granularity of
    one operation, with processes that stop at any point and store calls that fail before or after writing; still
    no attempt is answered twice, in either mode, every device can be loaded again, and reconciling ends an ambiguous
    write. One operation is lost by design of its guards (\<open>outer_activation_lost\<close>).
    Every registry of a well-typed run passes the validator; encoding it is refused exactly while an attempt
    is live, and without the attempt it round-trips, with the attempt counter back at 0, as the journal and
    not the material record carries the counter (\<open>registry_material_type\<close>).
  \<^item> Dealing: a candidate or bundle never disagrees with the log; honest runs activate; finished shares
    interpolate to a secret behind the anchor; installing them keeps a registry's shares valid.
  \<^item> Taproot: aggregation completes and verifies under the x-only output key for every combination of
    signs, and is plain aggregation of moved values.
  \<^item> Exposure: the audit is exact and its reports are permanent.

  \<^bold>\<open>Conventions.\<close> Integers keep their width as words; wrapping is written out or excluded by the code's own
  \<open>checked_\<close> operations. \<open>BTreeMap\<close>s are association lists sorted by key; binary search is a search by key
  on them; unstable sorts are \<open>sort_key\<close>, as every caller rejects ties. Decoders are dropped on an error, so an
  error carries no decoder. A source of randomness is a state with a draw function; drawing a nonzero scalar is a
  \<open>partial_function (option)\<close>, whose value \<open>None\<close> is a draw that never ends, and \<open>leaf_commit_returns\<close>
  bounds it: a source that eventually draws a nonzero scalar makes a commit return. The code's two copies of public polynomial
  evaluation are one definition.

  \<^bold>\<open>Parameters.\<close> The curve and hash crates are parameters: the record \<open>group_crate\<close> with hypotheses
  \<open>group_ok\<close> (scalars act linearly, encodings are canonical) and \<open>signature_codec_ok\<close>, and \<open>sec1_ok\<close> for Taproot
  (a compressed point is a tag 2 or 3 and a coordinate its opposite shares); SHA-256 and the reduction to a
  scalar are arbitrary functions, and where a digest identifies material a collision is an explicit
  alternative. \<open>magics_ok\<close> holds of both profiles. \<open>material_fits\<close> and the bounds \<open>2 ^ 64\<close> say that a
  buffer's length is a machine size.

  \<^bold>\<open>Not modelled.\<close> \<open>Debug\<close> and \<open>Display\<close> texts, zeroization and drops, and plain conversions, which have no
  effect on values; accessors are the record selectors; \<open>lib.rs\<close> and the \<open>mod.rs\<close> files only declare and
  re-export; the two \<open>hazmat.rs\<close> files pass on to the modelled responses. The crates behind a profile are
  outside the repository, so the group operations are modelled in part. Secrecy and unforgeability are
  not stated: the theorems are about what the code computes.
\<close>

section \<open>From genesis to a signature\<close>

text \<open>
  C1. A genesis vault signs: for a package under the vault key over a threshold of its people, when
  every device of every member's threshold answered the package through its own registry, each
  member's answers aggregate, the members' responses aggregate, and the signature verifies under
  the vault key.
\<close>

theorem genesis_vault_signs:
  assumes "group_ok P" "genesis_built P g" "genesis_outer_support g people = Inr support"
    and "package_from_bytes P root_bytes = Inr root" "rt_key root = vault_key g"
    and "package_validate_support root support = Inr ()" "signing_context_new P root = Inr s"
    and "length members = length people" "distinct (map (\<lambda>(t, nonces, rs). bd_slot (mt_body t)) members)"
    and "\<forall>(t, nonces, rs) \<in> set members. member_answered P g support root_bytes t nonces rs"
  shows "\<exists>responses signature.
      list_all2 (\<lambda>(t, nonces, rs) r. aggregate_member P t s nonces rs = Inr r) members responses
    \<and> aggregate_signature P s support responses = Inr signature
    \<and> signature_verify P signature (vault_key g) (rt_message root) = Inr ()"
proof -
  define aggregated where "aggregated = (\<lambda>(t, nonces, rs). projr (aggregate_member P t s nonces rs))"
  have each: "aggregate_member P t s nonces rs = Inr (aggregated (t, nonces, rs))
      \<and> mr_slot (aggregated (t, nonces, rs)) = bd_slot (mt_body t)
      \<and> member_made P s support (aggregated (t, nonces, rs))" if "(t, nonces, rs) \<in> set members" for t nonces rs
  proof -
    have "member_answered P g support root_bytes t nonces rs" using assms(10) that by auto
    from member_answered_aggregates [OF assms(1-4,7) this] obtain r where
      "aggregate_member P t s nonces rs = Inr r" "mr_slot r = bd_slot (mt_body t)" "member_made P s support r" .
    then show ?thesis by (simp add: aggregated_def)
  qed
  let ?responses = "map aggregated members"
  note support = genesis_outer_support_built [OF assms(1-3)]
  have slots: "map mr_slot ?responses = map (\<lambda>(t, nonces, rs). bd_slot (mt_body t)) members"
    using each by auto
  have "length people = length (os_participants support)"
    using assms(3) support(2) by (auto simp: genesis_outer_support_def if_Inl_eq_Inr)
  then have len: "length ?responses = length (os_participants support)" using assms(8) by simp
  have made: "member_made P s support x" if "x \<in> set ?responses" for x
    using that each by fastforce
  have key: "outer_key P support = rt_key root" using support(6) assms(5) by simp
  have dist: "distinct (map mr_slot ?responses)" unfolding slots by (rule assms(9))
  obtain signature where "aggregate_signature P s support ?responses = Inr signature"
    "signature_verify P signature (rt_key root) (rt_message root) = Inr ()"
    using signing_completes [OF assms(1) support(1) key assms(7,6) len dist made] by blast
  moreover have "list_all2 (\<lambda>(t, nonces, rs) r. aggregate_member P t s nonces rs = Inr r) members ?responses"
    using each by (auto simp: list_all2_map2 list.rel_refl_strong intro!: list.rel_refl_strong)
  ultimately show ?thesis using assms(5) by auto
qed

theorem genesis_vault_signs_witness:
  "\<exists>responses signature. aggregate_signature toy_profile demo_signing demo_outer responses = Inr signature
    \<and> signature_verify toy_profile signature (gf 5) demo_message = Inr ()"
proof -
  have root: "rt_key demo_root = vault_key demo_genesis" "vault_key demo_genesis = gf 5" "rt_message demo_root = demo_message"
    by (simp_all add: demo_root_def vault_key_def demo_genesis_def demo_polynomial_def)
  have "package_validate_support demo_root demo_outer = Inr ()"
    by (simp add: package_validate_support_def demo_root_def demo_outer_def demo_people_def)
  from genesis_vault_signs [OF toy_group_ok demo_genesis_built demo_genesis_outer demo_root_wire(1) root(1) this
      demo_signing_new, of "[(demo_transcript demo_body, demo_nonces,
        [demo_response (Ident 21) 3, demo_response (Ident 20) 5]),
       (demo_transcript demo_single_body, demo_single_nonces, [demo_response (Ident 30) 2])]"]
  show ?thesis
    using demo_member_answered root by (auto simp: demo_transcript_def demo_body_def demo_single_body_def)
qed

end
